(* ===== verification/Prelude.thy ===== *)
theory Prelude
  imports Complex_Main "HOL-Library.Product_Lexorder" "HOL-Library.Sublist"
begin

text \<open>
  Shared vocabulary of the development: instants and durations, the Python idioms that the
  program uses on sequences (half-open slices, \<^verbatim>\<open>next(..., None)\<close>, \<^verbatim>\<open>max(..., default=None)\<close>),
  and the generic lemmas on lists that the component theories rest on.

  Instants are integers: microseconds since 1970-01-01T00:00Z, the resolution of
  \<^verbatim>\<open>datetime\<close>. An aware \<^verbatim>\<open>datetime\<close> in UTC and such an integer are the same thing; the
  ISO texts that the program writes for them are fixed-width UTC strings, so their text
  order is the order of the instants and the model keeps the instant.
\<close>

named_theorems model_defs \<open>definitions that a closed evaluation unfolds\<close>

type_synonym instant = int
type_synonym duration = int

definition seconds :: "int \<Rightarrow> duration" where
  "seconds n = n * 1000000"

definition minutes :: "int \<Rightarrow> duration" where
  "minutes n = seconds (60 * n)"

definition hours :: "int \<Rightarrow> duration" where
  "hours n = minutes (60 * n)"

definition days :: "int \<Rightarrow> duration" where
  "days n = hours (24 * n)"

lemmas duration_defs [model_defs] = seconds_def minutes_def hours_def days_def

section \<open>Python sequence idioms\<close>

text \<open>\<^verbatim>\<open>xs[a:b]\<close> with non-negative bounds.\<close>

definition slice :: "nat \<Rightarrow> nat \<Rightarrow> 'a list \<Rightarrow> 'a list" where
  [model_defs]: "slice a b xs = take (b - a) (drop a xs)"

text \<open>\<^verbatim>\<open>xs[-n:]\<close> for a positive n.\<close>

definition last_n :: "nat \<Rightarrow> 'a list \<Rightarrow> 'a list" where
  [model_defs]: "last_n n xs = drop (length xs - n) xs"

text \<open>\<^verbatim>\<open>next((i for i, x in enumerate(xs) if p(x)), None)\<close>.\<close>

fun find_index :: "('a \<Rightarrow> bool) \<Rightarrow> 'a list \<Rightarrow> nat option" where
  "find_index p [] = None"
| "find_index p (x # xs) = (if p x then Some 0 else map_option Suc (find_index p xs))"

text \<open>\<^verbatim>\<open>max(xs)\<close> and \<^verbatim>\<open>min(xs)\<close> of a sequence that the code knows to be non-empty.\<close>

fun max_of :: "'a::linorder list \<Rightarrow> 'a" where
  "max_of [] = undefined"
| "max_of [x] = x"
| "max_of (x # y # xs) = max x (max_of (y # xs))"

fun min_of :: "'a::linorder list \<Rightarrow> 'a" where
  "min_of [] = undefined"
| "min_of [x] = x"
| "min_of (x # y # xs) = min x (min_of (y # xs))"

text \<open>Whether a relation holds between every element and its successor, as in
  \<^verbatim>\<open>all(r(a, b) for a, b in zip(xs, xs[1:]))\<close>.\<close>

fun adjacent_all :: "('a \<Rightarrow> 'a \<Rightarrow> bool) \<Rightarrow> 'a list \<Rightarrow> bool" where
  "adjacent_all r (x # y # ys) \<longleftrightarrow> r x y \<and> adjacent_all r (y # ys)"
| "adjacent_all r _ \<longleftrightarrow> True"

section \<open>Lemmas on the idioms\<close>

lemma slice_append_prefix [simp]: "b \<le> length xs \<Longrightarrow> slice a b (xs @ ys) = slice a b xs"
  by (simp add: slice_def)

lemma length_slice [simp]: "length (slice a b xs) = min (b - a) (length xs - a)"
  by (simp add: slice_def)

lemma nth_slice: "k < b - a \<Longrightarrow> a + k < length xs \<Longrightarrow> slice a b xs ! k = xs ! (a + k)"
  by (simp add: slice_def add.commute)

lemma slice_eq_map: "b \<le> length xs \<Longrightarrow> slice a b xs = map (\<lambda>j. xs ! j) [a..<b]"
  by (rule nth_equalityI) (simp_all add: nth_slice)

lemma set_slice: "set (slice a b xs) \<subseteq> set xs"
  by (auto simp: slice_def dest: in_set_takeD in_set_dropD)

lemma find_index_Some:
  "find_index p xs = Some i \<Longrightarrow> i < length xs \<and> p (xs ! i) \<and> (\<forall>j < i. \<not> p (xs ! j))"
proof (induction xs arbitrary: i)
  case (Cons x xs)
  then show ?case by (auto split: if_splits simp: less_Suc_eq_0_disj)
qed simp

lemma find_index_None: "find_index p xs = None \<longleftrightarrow> (\<forall>x \<in> set xs. \<not> p x)"
  by (induction xs) auto

lemma find_append: "List.find P (xs @ ys) = (case List.find P xs of Some x \<Rightarrow> Some x | None \<Rightarrow> List.find P ys)"
  by (induction xs) auto

lemma find_index_append:
  "find_index p (xs @ ys) = (case find_index p xs of Some i \<Rightarrow> Some i
     | None \<Rightarrow> map_option (\<lambda>i. length xs + i) (find_index p ys))"
proof (induction xs)
  case Nil
  show ?case by (cases "find_index p ys") simp_all
next
  case (Cons x xs)
  then show ?case by (cases "find_index p xs"; cases "find_index p ys") simp_all
qed

lemma max_of_Max: "xs \<noteq> [] \<Longrightarrow> max_of xs = Max (set xs)"
proof (induction xs rule: max_of.induct)
  case (3 x y xs)
  then show ?case by (simp add: Max_insert [of "insert y (set xs)" x])
qed auto

lemma min_of_Min: "xs \<noteq> [] \<Longrightarrow> min_of xs = Min (set xs)"
proof (induction xs rule: min_of.induct)
  case (3 x y xs)
  then show ?case by (simp add: Min_insert [of "insert y (set xs)" x])
qed auto

lemma max_of_ge: "x \<in> set xs \<Longrightarrow> x \<le> max_of xs"
  by (cases "xs = []") (auto simp: max_of_Max)

lemma min_of_le: "x \<in> set xs \<Longrightarrow> min_of xs \<le> x"
  by (cases "xs = []") (auto simp: min_of_Min)

lemma max_of_in: "xs \<noteq> [] \<Longrightarrow> max_of xs \<in> set xs"
  by (simp add: max_of_Max)

lemma min_of_in: "xs \<noteq> [] \<Longrightarrow> min_of xs \<in> set xs"
  by (simp add: min_of_Min)

lemma min_of_le_max_of: "xs \<noteq> [] \<Longrightarrow> min_of xs \<le> max_of xs"
  using min_of_in max_of_ge by blast

lemma adjacent_all_Cons:
  "adjacent_all r (x # xs) \<longleftrightarrow> (case xs of [] \<Rightarrow> True | y # _ \<Rightarrow> r x y) \<and> adjacent_all r xs"
  by (cases xs) auto

lemma adjacent_all_append1: "adjacent_all r (xs @ ys) \<Longrightarrow> adjacent_all r xs"
  by (induction r xs rule: adjacent_all.induct) auto

lemma adjacent_all_tl: "adjacent_all r (x # xs) \<Longrightarrow> adjacent_all r xs"
  by (cases xs) auto

lemma adjacent_all_append2: "adjacent_all r (xs @ ys) \<Longrightarrow> adjacent_all r ys"
  by (induction xs) (auto dest: adjacent_all_tl)

lemma adjacent_all_iff:
  "adjacent_all r xs \<longleftrightarrow> (\<forall>i. Suc i < length xs \<longrightarrow> r (xs ! i) (xs ! Suc i))"
proof (induction r xs rule: adjacent_all.induct)
  case (1 r x y ys)
  have "(\<forall>i. Suc i < length (x # y # ys) \<longrightarrow> r ((x # y # ys) ! i) ((x # y # ys) ! Suc i)) \<longleftrightarrow>
      r x y \<and> (\<forall>i. Suc i < length (y # ys) \<longrightarrow> r ((y # ys) ! i) ((y # ys) ! Suc i))" (is "(\<forall>i. ?P i) \<longleftrightarrow> ?R")
  proof -
    have "(\<forall>i. ?P i) \<longleftrightarrow> ?P 0 \<and> (\<forall>i. ?P (Suc i))" by (metis not0_implies_Suc)
    then show ?thesis by simp
  qed
  with 1 show ?case by (simp only: adjacent_all.simps(1))
qed auto

lemma adjacent_all_slice: "adjacent_all r xs \<Longrightarrow> adjacent_all r (slice a b xs)"
  by (metis adjacent_all_append1 adjacent_all_append2 append_take_drop_id slice_def)

lemma concat_map_upt_sorted:
  assumes "\<And>i. i \<in> set is \<Longrightarrow> sorted (map key (f i))"
    and "\<And>i x. i \<in> set is \<Longrightarrow> x \<in> set (f i) \<Longrightarrow> fst (key x) = i"
    and "sorted_wrt (<) is"
  shows "sorted (map key (concat (map f is)))"
  using assms
proof (induction "is")
  case (Cons i "is")
  have "sorted (map key (concat (map f is)))"
    using Cons.prems by (intro Cons.IH) auto
  moreover have "key x \<le> key y"
    if "x \<in> set (f i)" "j \<in> set is" "y \<in> set (f j)" for x y j
  proof -
    have "fst (key x) = i" "fst (key y) = j"
      using Cons.prems(2)[of i x] Cons.prems(2)[of j y] that by simp_all
    moreover have "i < j" using Cons.prems(3) that by simp
    ultimately have "fst (key x) < fst (key y)" by simp
    then show ?thesis by (simp add: less_eq_prod_def)
  qed
  ultimately show ?case using Cons.prems by (auto simp: sorted_append)
qed simp

lemma concat_map_if: "concat (map (\<lambda>x. if P x then f x else []) xs) = concat (map f (filter P xs))"
  by (induction xs) auto

lemma filter_concat_map: "filter P (concat (map f xs)) = concat (map (\<lambda>x. filter P (f x)) xs)"
  by (induction xs) auto

lemma filter_upt_less: "filter (\<lambda>i. i < n) [a..<m] = [a..<min n m]"
  by (induction m) (auto simp: min_def le_Suc_eq)

section \<open>Extreme elements\<close>

text \<open>\<^verbatim>\<open>max(xs, key=k, default=None)\<close> and \<^verbatim>\<open>min(...)\<close>: the first of the extreme elements.\<close>

fun first_max_by :: "('a \<Rightarrow> 'k::linorder) \<Rightarrow> 'a list \<Rightarrow> 'a option" where
  "first_max_by k [] = None"
| "first_max_by k (x # xs) = Some (fold (\<lambda>y best. if k best < k y then y else best) xs x)"

fun first_min_by :: "('a \<Rightarrow> 'k::linorder) \<Rightarrow> 'a list \<Rightarrow> 'a option" where
  "first_min_by k [] = None"
| "first_min_by k (x # xs) = Some (fold (\<lambda>y best. if k y < k best then y else best) xs x)"

lemma fold_max_by:
  fixes k :: "'a \<Rightarrow> 'k::linorder"
  shows "(\<forall>y \<in> insert x (set xs). k y \<le> k (fold (\<lambda>y best. if k best < k y then y else best) xs x))
     \<and> fold (\<lambda>y best. if k best < k y then y else best) xs x \<in> insert x (set xs)"
proof (induction xs arbitrary: x)
  case (Cons a xs)
  show ?case using Cons.IH [of a] Cons.IH [of x] by (auto simp: not_less intro: order_trans less_imp_le)
qed simp

lemma fold_min_by:
  fixes k :: "'a \<Rightarrow> 'k::linorder"
  shows "(\<forall>y \<in> insert x (set xs). k (fold (\<lambda>y best. if k y < k best then y else best) xs x) \<le> k y)
     \<and> fold (\<lambda>y best. if k y < k best then y else best) xs x \<in> insert x (set xs)"
proof (induction xs arbitrary: x)
  case (Cons a xs)
  show ?case using Cons.IH [of a] Cons.IH [of x] by (auto simp: not_less intro: order_trans less_imp_le)
qed simp

lemma first_max_by_Some:
  "first_max_by k xs = Some x \<Longrightarrow> x \<in> set xs \<and> (\<forall>y \<in> set xs. k y \<le> k x)"
  using fold_max_by by (cases xs) fastforce+

lemma first_min_by_Some:
  "first_min_by k xs = Some x \<Longrightarrow> x \<in> set xs \<and> (\<forall>y \<in> set xs. k x \<le> k y)"
  using fold_min_by by (cases xs) fastforce+

lemma first_min_by_None [simp]: "first_min_by k xs = None \<longleftrightarrow> xs = []"
  by (cases xs) simp_all

end
