(* ===== verification/Calendar.thy ===== *)
theory Calendar
  imports Prelude
begin

text \<open>
  The frozen FX calendar of \<^verbatim>\<open>market/quality.py\<close>: which instants may open a candle of each
  granularity, when an interval completes, and which interval follows it. All rules are
  stated on the New York wall clock. The conversion between UTC and that wall clock is the
  IANA database, which is not part of the repository: it is the parameter \<open>zone\<close>.
  \<open>to_local\<close> is \<^verbatim>\<open>astimezone(NEW_YORK)\<close> and \<open>to_utc\<close> is \<^verbatim>\<open>astimezone(UTC)\<close> of a wall time
  with \<^verbatim>\<open>fold=0\<close>, the fold that every \<^verbatim>\<open>datetime\<close> arithmetic result has. A wall time is an
  integer like an instant: microseconds since 1970-01-01T00:00 on that clock.
\<close>

record zone =
  to_local :: "instant \<Rightarrow> int"
  to_utc :: "int \<Rightarrow> instant"

text \<open>\<^verbatim>\<open>Candle.granularity\<close>, with the empty text that unit-test bars carry.\<close>

datatype granularity = NoGran | GM | GW | GD | GH4 | GH1 | GM15

text \<open>\<^verbatim>\<open>weekday()\<close> (Monday is 0; 1970-01-01 was a Thursday) and \<^verbatim>\<open>time()\<close>.\<close>

definition weekday :: "int \<Rightarrow> int" where
  [model_defs]: "weekday w = (w div days 1 + 3) mod 7"

definition time_of_day :: "int \<Rightarrow> duration" where
  [model_defs]: "time_of_day w = w mod days 1"

definition minute_of :: "int \<Rightarrow> int" where
  [model_defs]: "minute_of w = (w mod hours 1) div minutes 1"

definition hour_of :: "int \<Rightarrow> int" where
  [model_defs]: "hour_of w = time_of_day w div hours 1"

text \<open>\<^verbatim>\<open>year * 12 + month\<close> of a wall time in the proleptic Gregorian calendar: the day number is
  counted from 0000-03-01 in eras of 400 years.\<close>

definition month_index :: "int \<Rightarrow> int" where
  [model_defs]: "month_index w =
     (let n = w div days 1 + 719468;
          era = n div 146097; doe = n mod 146097;
          yoe = (doe - doe div 1460 + doe div 36524 - doe div 146096) div 365;
          doy = doe - (365 * yoe + yoe div 4 - yoe div 100);
          mp = (5 * doy + 2) div 153;
          month = (if mp < 10 then mp + 3 else mp - 9);
          year = yoe + era * 400 + (if month \<le> 2 then 1 else 0)
      in year * 12 + month)"

fun registered_step :: "granularity \<Rightarrow> duration option" where
  "registered_step GW = Some (days 7)"
| "registered_step GD = Some (days 1)"
| "registered_step GH4 = Some (hours 4)"
| "registered_step GH1 = Some (hours 1)"
| "registered_step GM15 = Some (minutes 15)"
| "registered_step _ = None"

definition session_close :: duration where
  [model_defs]: "session_close = hours 17"

definition daily_session_weekdays :: "int set" where
  [model_defs]: "daily_session_weekdays = {6, 0, 1, 2, 3}"

definition weekly_session_weekday :: int where
  [model_defs]: "weekly_session_weekday = 4"

definition four_hour_session_hours :: "int set" where
  [model_defs]: "four_hour_session_hours = {1, 5, 9, 13, 17, 21}"

definition live_granularities :: "granularity set" where
  [model_defs]: "live_granularities = {GH1, GH4, GD, GW, GM15}"

definition live_interval_is_aligned :: "zone \<Rightarrow> instant \<Rightarrow> granularity \<Rightarrow> bool" where
  "live_interval_is_aligned z timestamp g =
     (let w = to_local z timestamp in
      if g \<notin> live_granularities then False
      else if w mod minutes 1 \<noteq> 0 then False
      else if g = GM15 then minute_of w mod 15 = 0
      else if minute_of w \<noteq> 0 then False
      else if g = GH1 then True
      else if g = GH4 then hour_of w \<in> four_hour_session_hours
      else if time_of_day w \<noteq> session_close then False
      else if g = GD then weekday w \<in> daily_session_weekdays
      else weekday w = weekly_session_weekday)"

definition market_is_open :: "int \<Rightarrow> bool" where
  "market_is_open w \<longleftrightarrow> weekday w \<in> {0, 1, 2, 3} \<or>
     (weekday w = 4 \<and> time_of_day w < hours 17) \<or>
     (weekday w = 6 \<and> hours 17 \<le> time_of_day w)"

text \<open>\<open>None\<close> is the KeyError of \<^verbatim>\<open>REGISTERED_STEPS[granularity]\<close>.\<close>

definition registered_candle_completion :: "zone \<Rightarrow> instant \<Rightarrow> granularity \<Rightarrow> instant option" where
  [model_defs]: "registered_candle_completion z timestamp g =
     map_option (\<lambda>step. to_utc z (to_local z timestamp + step)) (registered_step g)"

definition registered_successor :: "zone \<Rightarrow> instant \<Rightarrow> granularity \<Rightarrow> instant option" where
  [model_defs]: "registered_successor z timestamp g =
     (let local = to_local z timestamp in
      if g = GW then Some (to_utc z (local + days 7))
      else if g = GD then Some (to_utc z (local + days (if weekday local = 3 then 3 else 1)))
      else case registered_step g of
          None \<Rightarrow> None
        | Some step \<Rightarrow>
            (let candidate = local + step;
                 candidate = (if weekday candidate = 4 \<and> time_of_day candidate = hours 17
                              then candidate + days 2 else candidate)
             in Some (to_utc z candidate)))"

section \<open>The expansion of a registered range\<close>

datatype calendar_error =
    UnsupportedGranularity | RangeNotIncreasing | StartNotRegistered
  | EndCutsInterval | EndNotFinalCompletion

definition range_start_aligned :: "int \<Rightarrow> granularity \<Rightarrow> bool" where
  "range_start_aligned local g =
     (let whole = (local mod minutes 1 = 0) in
      if g = GM15 then whole \<and> minute_of local mod 15 = 0 \<and> market_is_open local
      else if g = GW then whole \<and> minute_of local = 0 \<and> weekday local = weekly_session_weekday
        \<and> time_of_day local = session_close
      else if g = GD then whole \<and> minute_of local = 0 \<and> weekday local \<in> daily_session_weekdays
        \<and> time_of_day local = session_close
      else if g = GH4 then whole \<and> minute_of local = 0
        \<and> hour_of local \<in> four_hour_session_hours \<and> market_is_open local
      else whole \<and> minute_of local = 0 \<and> market_is_open local)"

text \<open>
  The loop of \<^verbatim>\<open>expected_candle_timestamps\<close>. It ends when \<open>current\<close> reaches \<open>end\<close>; that it
  does is a fact about the wall clock, so the loop may also not return, which is \<open>None\<close>.
  The list is accumulated in the order the code appends.
\<close>

partial_function (option) expand_range ::
  "(instant \<Rightarrow> instant) \<Rightarrow> (instant \<Rightarrow> instant) \<Rightarrow> instant \<Rightarrow> instant \<Rightarrow> instant list
     \<Rightarrow> (calendar_error + instant list) option" where
  "expand_range completion succ finish current expected =
     (if current < finish
      then (if finish < completion current then Some (Inl EndCutsInterval)
            else expand_range completion succ finish (succ current) (expected @ [current]))
      else (if expected = [] \<or> completion (last expected) \<noteq> finish
            then Some (Inl EndNotFinalCompletion)
            else Some (Inr expected)))"

definition expected_candle_timestamps ::
  "zone \<Rightarrow> instant \<Rightarrow> instant \<Rightarrow> granularity \<Rightarrow> (calendar_error + instant list) option" where
  "expected_candle_timestamps z start finish g =
     (case registered_step g of
        None \<Rightarrow> Some (Inl UnsupportedGranularity)
      | Some step \<Rightarrow>
          (if \<not> start < finish then Some (Inl RangeNotIncreasing)
           else if \<not> range_start_aligned (to_local z start) g then Some (Inl StartNotRegistered)
           else expand_range (\<lambda>t. the (registered_candle_completion z t g))
                  (\<lambda>t. the (registered_successor z t g)) finish start []))"

section \<open>Availability\<close>

text \<open>\<^verbatim>\<open>market/availability.py\<close>.\<close>

definition live_candle_completion :: "zone \<Rightarrow> instant \<Rightarrow> granularity \<Rightarrow> instant option" where
  [model_defs]: "live_candle_completion z timestamp g =
     (if g \<in> {GM15, GH1, GH4} then map_option (\<lambda>step. timestamp + step) (registered_step g)
      else registered_candle_completion z timestamp g)"

definition first_known_at :: "instant \<Rightarrow> instant option \<Rightarrow> instant" where
  [model_defs]: "first_known_at observed_at recorded_at =
     (case recorded_at of None \<Rightarrow> observed_at | Some r \<Rightarrow> max observed_at r)"

definition observation_available_at :: "instant \<Rightarrow> instant \<Rightarrow> instant option \<Rightarrow> instant" where
  [model_defs]: "observation_available_at interval_end observed_at recorded_at =
     max interval_end (first_known_at observed_at recorded_at)"

section \<open>The successor stays on the calendar\<close>

text \<open>
  The one fact about the IANA data that the calendar rests on: New York changes its clock on
  Sundays at 02:00, when the market is closed, so a wall time inside market hours exists and
  the conversion to UTC and back returns it. The weekly and daily opens
  (Friday and Sunday-Thursday 17:00) are such times too. The data has one exception since 1900, the
  hour from 02:00 on Monday 1942-02-09, when war time began; \<open>faithful_zone\<close> asks for all times, so a
  fact under it is one of the zone with that change left out, and speaks of New York for candles of
  any later date.
\<close>

definition session_wall_time :: "int \<Rightarrow> bool" where
  [model_defs]: "session_wall_time w \<longleftrightarrow> market_is_open w \<or> time_of_day w = hours 17"

definition faithful_zone :: "zone \<Rightarrow> bool" where
  "faithful_zone z \<longleftrightarrow> (\<forall>w. session_wall_time w \<longrightarrow> to_local z (to_utc z w) = w)"

lemma div_mod_shift:
  fixes w k m :: int
  assumes "0 < m"
  shows "(w + k * m) div m = w div m + k" "(w + k * m) mod m = w mod m"
  using assms by simp_all

lemma weekday_add_days: "weekday (w + days k) = (weekday w + k) mod 7"
proof -
  have "(w + days k) div days 1 = w div days 1 + k"
    using div_mod_shift(1) [of "days 1" w k] by (simp add: duration_defs)
  then show ?thesis by (simp add: weekday_def mod_simps ac_simps)
qed

lemma time_of_day_add_days [simp]: "time_of_day (w + days k) = time_of_day w"
  using div_mod_shift(2) [of "days 1" w k] by (simp add: time_of_day_def duration_defs)

lemma time_of_day_range: "0 \<le> time_of_day w" "time_of_day w < days 1"
  by (simp_all add: time_of_day_def duration_defs)

lemma add_within_day:
  assumes "0 \<le> k" "time_of_day w + k < days 1"
  shows "time_of_day (w + k) = time_of_day w + k" "weekday (w + k) = weekday w"
proof -
  define d t where dt: "d = w div days 1" "t = time_of_day w"
  then have w: "w = d * days 1 + t" and t: "0 \<le> t" "t + k < days 1"
    using assms time_of_day_range(1) [of w] by (simp_all add: time_of_day_def)
  have "(w + k) div days 1 = d" "(w + k) mod days 1 = t + k"
    using t assms(1) unfolding w by (simp_all add: add.assoc div_mod_shift)
  then show "time_of_day (w + k) = time_of_day w + k" "weekday (w + k) = weekday w"
    by (simp_all add: time_of_day_def weekday_def dt)
qed

lemma add_past_midnight:
  assumes "time_of_day w + k = days 1"
  shows "time_of_day (w + k) = 0" "weekday (w + k) = (weekday w + 1) mod 7"
proof -
  define d where d: "d = w div days 1"
  have w: "w + k = (d + 1) * days 1"
    using assms by (simp add: d time_of_day_def algebra_simps flip: minus_mod_eq_mult_div)
  have "(w + k) div days 1 = d + 1" "(w + k) mod days 1 = 0"
    unfolding w by (simp_all add: duration_defs)
  then show "time_of_day (w + k) = 0" "weekday (w + k) = (weekday w + 1) mod 7"
    by (simp_all add: time_of_day_def weekday_def d mod_simps ac_simps)
qed

lemma weekday_range: "0 \<le> weekday w" "weekday w < 7"
  by (simp_all add: weekday_def)

lemma weekday_cases: "weekday w \<in> {0, 1, 2, 3, 4, 5, 6}"
  using weekday_range [of w] by auto

text \<open>
  One step of an intraday granularity: from an open-market time on a grid that divides the
  day and meets 17:00, the candidate is open, or it is exactly the Friday close.
\<close>

lemma intraday_step_open:
  assumes "market_is_open w" "0 < step" "step dvd hours 17" "step dvd time_of_day w" "step dvd days 1"
  defines "c \<equiv> w + step"
  shows "(if weekday c = 4 \<and> time_of_day c = hours 17 then market_is_open (c + days 2)
          else market_is_open c) \<and> step dvd time_of_day c"
proof -
  have le: "time_of_day w + step \<le> days 1"
    using assms(2,4,5) time_of_day_range(2) [of w]
    by (metis dvd_add_right_iff dvd_diff_commute dvd_minus_iff le_diff_eq diff_gt_0_iff_gt
        zdvd_imp_le add.commute dvd_diff)
  show ?thesis
  proof (cases "time_of_day w + step = days 1")
    case True
    then have c: "time_of_day c = 0" "weekday c = (weekday w + 1) mod 7"
      unfolding c_def by (auto intro: add_past_midnight)
    have "weekday w \<in> {0, 1, 2, 3, 6}"
    proof -
      have "weekday w \<noteq> 4 \<or> time_of_day w < hours 17" using assms(1) by (auto simp: market_is_open_def)
      moreover have "\<not> time_of_day w < hours 17"
      proof
        assume lt: "time_of_day w < hours 17"
        then have "step \<le> hours 17 - time_of_day w"
          using assms(2,3,4) by (intro zdvd_imp_le) auto
        with True show False by (simp add: duration_defs)
      qed
      ultimately show ?thesis using assms(1) by (auto simp: market_is_open_def)
    qed
    then show ?thesis using c by (auto simp: market_is_open_def duration_defs)
  next
    case False
    with le have lt: "time_of_day w + step < days 1" by simp
    have c: "time_of_day c = time_of_day w + step" "weekday c = weekday w"
      unfolding c_def using assms(2) lt by (auto intro: add_within_day less_imp_le)
    have close: "time_of_day w < hours 17 \<Longrightarrow> time_of_day c \<le> hours 17"
    proof -
      assume "time_of_day w < hours 17"
      then have "step \<le> hours 17 - time_of_day w" using assms(2,3,4) by (intro zdvd_imp_le) auto
      then show ?thesis by (simp add: c(1))
    qed
    have "step dvd time_of_day c" using assms(4) by (simp add: c(1))
    moreover have "if weekday c = 4 \<and> time_of_day c = hours 17 then market_is_open (c + days 2)
        else market_is_open c"
      using assms(1,2) c close weekday_add_days [of c 2] by (auto simp: market_is_open_def)
    ultimately show ?thesis by simp
  qed
qed

text \<open>The aligned starts of each intraday granularity are a grid of the wall clock.\<close>

lemma whole_minutes: "w mod minutes 1 = 0 \<longleftrightarrow> (\<exists>k. w = k * minutes 1)"
  by (auto simp: duration_defs elim!: dvdE [of "_::int" w] simp flip: dvd_eq_mod_eq_0)

lemma minute_of_minutes: "minute_of (k * minutes 1) = k mod 60"
proof -
  have "k * 60000000 mod (60 * 60000000) = k mod 60 * 60000000" for k :: int
    by (rule mult_mod_left [symmetric])
  then show ?thesis by (simp add: minute_of_def duration_defs)
qed

lemma quarter_hour_grid:
  "w mod minutes 1 = 0 \<and> minute_of w mod 15 = 0 \<longleftrightarrow> minutes 15 dvd w"
proof -
  have "minute_of (k * minutes 1) mod 15 = 0 \<longleftrightarrow> minutes 15 dvd k * minutes 1" for k
  proof -
    have "minute_of (k * minutes 1) mod 15 = k mod 15"
      by (simp add: minute_of_minutes mod_mod_cancel)
    moreover have "minutes 15 dvd k * minutes 1 \<longleftrightarrow> 15 dvd k"
      using dvd_mult_cancel_right [of 15 60000000 k] by (simp add: duration_defs)
    ultimately show ?thesis by (simp add: dvd_eq_mod_eq_0)
  qed
  moreover have "minutes 1 dvd minutes 15" by (simp add: duration_defs)
  then have "minutes 15 dvd w \<Longrightarrow> w mod minutes 1 = 0"
    using dvd_trans [of "minutes 1" "minutes 15" w] by (simp only: dvd_eq_mod_eq_0)
  ultimately show ?thesis using whole_minutes [of w] by metis
qed

lemma hour_grid: "w mod minutes 1 = 0 \<and> minute_of w = 0 \<longleftrightarrow> hours 1 dvd w"
proof -
  have "minute_of (k * minutes 1) = 0 \<longleftrightarrow> hours 1 dvd k * minutes 1" for k
  proof -
    have "hours 1 dvd k * minutes 1 \<longleftrightarrow> 60 dvd k"
      using dvd_mult_cancel_right [of 60 60000000 k] by (simp add: duration_defs)
    then show ?thesis by (simp add: minute_of_minutes dvd_eq_mod_eq_0)
  qed
  moreover have "minutes 1 dvd hours 1" by (simp add: duration_defs)
  then have "hours 1 dvd w \<Longrightarrow> w mod minutes 1 = 0"
    using dvd_trans [of "minutes 1" "hours 1" w] by (simp only: dvd_eq_mod_eq_0)
  ultimately show ?thesis using whole_minutes [of w] by metis
qed

lemma dvd_time_of_day: "k dvd days 1 \<Longrightarrow> k dvd time_of_day w \<longleftrightarrow> k dvd w"
  by (simp add: time_of_day_def dvd_mod_iff)

text \<open>The candidate of the intraday branch, and what the calendar needs of it.\<close>

definition intraday_candidate :: "int \<Rightarrow> duration \<Rightarrow> int" where
  [model_defs]: "intraday_candidate w step =
     (if weekday (w + step) = 4 \<and> time_of_day (w + step) = hours 17
      then w + step + days 2 else w + step)"

lemma intraday_candidate_open:
  assumes "market_is_open w" "0 < step" "step dvd hours 1" "step dvd w"
  shows "market_is_open (intraday_candidate w step)" "step dvd intraday_candidate w step"
proof -
  have h: "step dvd hours 17" "step dvd days 1" "step dvd days 2"
    using dvd_mult2 [OF assms(3), of 17] dvd_mult2 [OF assms(3), of 24]
      dvd_mult2 [OF assms(3), of 48] by (simp_all add: duration_defs)
  then have "step dvd time_of_day w" using assms(4) by (simp add: dvd_time_of_day)
  from intraday_step_open [OF assms(1,2) h(1) this h(2)]
  show "market_is_open (intraday_candidate w step)" by (simp add: intraday_candidate_def)
  show "step dvd intraday_candidate w step"
    using assms(4) h by (simp add: intraday_candidate_def)
qed

text \<open>Four-hour candles open at 01, 05, 09, 13, 17 and 21: the grid is shifted by an hour.\<close>

lemma four_hour_grid:
  assumes "hours 1 dvd w"
  shows "hour_of w \<in> four_hour_session_hours \<longleftrightarrow> hours 4 dvd time_of_day w - hours 1"
proof -
  have "hours 1 dvd time_of_day w"
    using assms dvd_time_of_day [of "hours 1" w] by (simp add: duration_defs)
  then obtain h where h: "time_of_day w = hours 1 * h" by (auto elim: dvdE)
  then have r: "0 \<le> h" "h < 24"
    using time_of_day_range [of w] by (simp_all add: duration_defs zero_le_mult_iff)
  have "hour_of w = h" by (simp add: hour_of_def h duration_defs)
  moreover have "hours 4 dvd time_of_day w - hours 1 \<longleftrightarrow> 4 dvd h - 1"
    using dvd_mult_cancel_left [of 3600000000 4 "h - 1"]
    by (simp add: h duration_defs right_diff_distrib)
  moreover have "h \<in> {1, 5, 9, 13, 17, 21} \<longleftrightarrow> 4 dvd h - 1" using r by auto presburger
  ultimately show ?thesis by (simp add: four_hour_session_hours_def)
qed

lemma four_hour_step_open:
  assumes "market_is_open w" "hours 4 dvd time_of_day w - hours 1"
  shows "market_is_open (intraday_candidate w (hours 4)) \<and>
    hours 4 dvd time_of_day (intraday_candidate w (hours 4)) - hours 1"
proof -
  obtain k where k: "time_of_day w = hours 1 + hours 4 * k"
    using assms(2) by (metis dvdE add.commute diff_add_cancel)
  then have r: "0 \<le> k" "k \<le> 5"
    using time_of_day_range [of w] by (simp_all add: duration_defs)
  show ?thesis
  proof (cases "k = 5")
    case True
    have "time_of_day w + hours 3 = days 1" by (simp add: k True duration_defs)
    from add_past_midnight [OF this]
    have m: "time_of_day (w + hours 3) = 0" "weekday (w + hours 3) = (weekday w + 1) mod 7" by auto
    then have "time_of_day (w + hours 3 + hours 1) = hours 1"
      "weekday (w + hours 3 + hours 1) = (weekday w + 1) mod 7"
      using add_within_day [of "hours 1" "w + hours 3"] by (simp_all add: duration_defs)
    moreover have "w + hours 3 + hours 1 = w + hours 4" by (simp add: duration_defs)
    ultimately have c: "time_of_day (w + hours 4) = hours 1" "weekday (w + hours 4) = (weekday w + 1) mod 7"
      by simp_all
    have "weekday w \<in> {0, 1, 2, 3, 6}"
      using assms(1) k True by (auto simp: market_is_open_def duration_defs)
    then show ?thesis using c
      by (auto simp: intraday_candidate_def market_is_open_def duration_defs)
  next
    case False
    then have "time_of_day w + hours 4 < days 1" using r k by (simp add: duration_defs)
    then have c: "time_of_day (w + hours 4) = time_of_day w + hours 4" "weekday (w + hours 4) = weekday w"
      using add_within_day [of "hours 4" w] by (simp_all add: duration_defs)
    have "k \<in> {0, 1, 2, 3, 4}" using r False by auto
    then show ?thesis using c k assms(1) weekday_add_days [of "w + hours 4" 2]
        time_of_day_add_days [of "w + hours 4" 2]
      by (auto simp: intraday_candidate_def market_is_open_def duration_defs)
  qed
qed

lemma intraday_successor:
  assumes "registered_step g = Some step" "g \<notin> {GW, GD}"
  shows "registered_successor z t g = Some (to_utc z (intraday_candidate (to_local z t) step))"
  using assms by (simp add: registered_successor_def intraday_candidate_def Let_def)

lemma daily_successor_weekday:
  assumes "weekday w \<in> daily_session_weekdays"
  shows "weekday (w + days (if weekday w = 3 then 3 else 1)) \<in> daily_session_weekdays"
  using assms by (auto simp: daily_session_weekdays_def weekday_add_days)

definition successor_wall :: "int \<Rightarrow> granularity \<Rightarrow> int" where
  [model_defs]: "successor_wall w g =
     (if g = GW then w + days 7
      else if g = GD then w + days (if weekday w = 3 then 3 else 1)
      else intraday_candidate w (the (registered_step g)))"

lemma registered_successor_wall:
  "registered_step g \<noteq> None \<Longrightarrow>
     registered_successor z t g = Some (to_utc z (successor_wall (to_local z t) g))"
  by (cases "g \<in> {GW, GD}")
     (auto simp: successor_wall_def registered_successor_def intraday_candidate_def Let_def)

lemma intraday_candidate_gt: "0 < step \<Longrightarrow> w + step \<le> intraday_candidate w step"
  by (simp add: intraday_candidate_def duration_defs)

lemma successor_wall_gt: "registered_step g \<noteq> None \<Longrightarrow> w + minutes 15 \<le> successor_wall w g"
  using intraday_candidate_gt [of "the (registered_step g)" w]
  by (cases g) (auto simp: successor_wall_def duration_defs)

lemma successor_wall_aligned:
  assumes "range_start_aligned w g" "registered_step g \<noteq> None"
  shows "range_start_aligned (successor_wall w g) g"
proof (cases g)
  case GW
  have "(w + days 7) mod minutes 1 = w mod minutes 1" "(w + days 7) mod hours 1 = w mod hours 1"
    by (simp_all add: duration_defs mod_simps flip: mod_add_right_eq)
  then show ?thesis using GW assms weekday_add_days [of w 7]
    by (simp add: range_start_aligned_def successor_wall_def Let_def minute_of_def
        weekly_session_weekday_def)
next
  case GD
  let ?k = "if weekday w = 3 then 3 else 1 :: int"
  have "(w + days ?k) mod minutes 1 = w mod minutes 1" "(w + days ?k) mod hours 1 = w mod hours 1"
    by (simp_all add: duration_defs flip: mod_add_right_eq)
  then show ?thesis using GD assms daily_successor_weekday [of w]
    by (simp add: range_start_aligned_def successor_wall_def Let_def minute_of_def
        split del: if_split)
next
  case GM15
  then have "market_is_open w" "minutes 15 dvd w"
    using assms quarter_hour_grid [of w] by (auto simp: range_start_aligned_def Let_def)
  then show ?thesis
    using GM15 intraday_candidate_open [of w "minutes 15"] quarter_hour_grid [of "intraday_candidate w (minutes 15)"]
    by (simp add: range_start_aligned_def successor_wall_def Let_def duration_defs)
next
  case GH1
  then have "market_is_open w" "hours 1 dvd w"
    using assms hour_grid [of w] by (auto simp: range_start_aligned_def Let_def)
  then show ?thesis
    using GH1 intraday_candidate_open [of w "hours 1"] hour_grid [of "intraday_candidate w (hours 1)"]
    by (simp add: range_start_aligned_def successor_wall_def Let_def duration_defs)
next
  case GH4
  then have o: "market_is_open w" "hours 1 dvd w" "hours 4 dvd time_of_day w - hours 1"
    using assms hour_grid [of w] four_hour_grid [of w]
    by (auto simp: range_start_aligned_def Let_def)
  have "hours 1 dvd intraday_candidate w (hours 4)"
    using o(2) by (simp add: intraday_candidate_def duration_defs)
  then show ?thesis
    using GH4 o four_hour_step_open [of w] four_hour_grid [of "intraday_candidate w (hours 4)"]
      hour_grid [of "intraday_candidate w (hours 4)"]
    by (auto simp: range_start_aligned_def successor_wall_def Let_def)
qed (use assms in auto)

lemma range_start_session_time: "range_start_aligned w g \<Longrightarrow> session_wall_time w"
  by (auto simp: range_start_aligned_def session_wall_time_def session_close_def Let_def
      split: if_splits)

section \<open>The expansion of a range is the successor chain\<close>

text \<open>
  What a returned list is: each element lies before the end and completes by it, consecutive
  elements are registered successors, and the last one completes exactly at the end.
\<close>

definition successor_chain ::
  "(instant \<Rightarrow> instant) \<Rightarrow> (instant \<Rightarrow> instant) \<Rightarrow> instant \<Rightarrow> instant list \<Rightarrow> bool" where
  [model_defs]: "successor_chain completion succ finish ts \<longleftrightarrow>
     (\<forall>t \<in> set ts. t < finish \<and> completion t \<le> finish) \<and> adjacent_all (\<lambda>a b. b = succ a) ts"

lemma successor_chain_snoc:
  "successor_chain completion succ finish (ts @ [t]) \<longleftrightarrow>
     successor_chain completion succ finish ts \<and> t < finish \<and> completion t \<le> finish \<and>
     (ts \<noteq> [] \<longrightarrow> t = succ (last ts))"
proof -
  have "adjacent_all (\<lambda>a b. b = succ a) (ts @ [t]) \<longleftrightarrow>
      adjacent_all (\<lambda>a b. b = succ a) ts \<and> (ts \<noteq> [] \<longrightarrow> t = succ (last ts))"
    by (induction ts rule: induct_list012) auto
  then show ?thesis by (auto simp: successor_chain_def)
qed

definition expansion_of ::
  "(instant \<Rightarrow> instant) \<Rightarrow> (instant \<Rightarrow> instant) \<Rightarrow> instant \<Rightarrow> instant \<Rightarrow> instant list
     \<Rightarrow> calendar_error + instant list \<Rightarrow> bool" where
  "expansion_of completion succ finish current expected r \<longleftrightarrow>
     successor_chain completion succ finish expected \<longrightarrow>
     (expected \<noteq> [] \<longrightarrow> current = succ (last expected)) \<longrightarrow>
     (\<forall>ts. r = Inr ts \<longrightarrow> successor_chain completion succ finish ts \<and> ts \<noteq> [] \<and>
        completion (last ts) = finish \<and> (expected = [] \<longrightarrow> hd ts = current) \<and>
        (expected \<noteq> [] \<longrightarrow> hd ts = hd expected))"

lemma expand_range_chain:
  assumes ret: "expand_range completion succ finish current expected = Some r"
  shows "expansion_of completion succ finish current expected r"
proof (rule expand_range.raw_induct [where P = expansion_of, OF _ ret])
  fix rec completion succ finish current expected r
  assume IH: "\<And>completion succ finish current expected r.
      rec completion succ finish current expected = Some r \<Longrightarrow>
      expansion_of completion succ finish current expected r"
    and eq: "(if current < finish
      then (if finish < completion current then Some (Inl EndCutsInterval)
            else rec completion succ finish (succ current) (expected @ [current]))
      else (if expected = [] \<or> completion (last expected) \<noteq> finish
            then Some (Inl EndNotFinalCompletion)
            else Some (Inr expected))) = Some r"
  show "expansion_of completion succ finish current expected r"
  proof (cases "current < finish \<and> completion current \<le> finish")
    case True
    with eq have "rec completion succ finish (succ current) (expected @ [current]) = Some r"
      by simp
    then have "expansion_of completion succ finish (succ current) (expected @ [current]) r"
      by (rule IH)
    note IH' = this
    show ?thesis unfolding expansion_of_def
    proof (intro impI allI)
      fix ts
      assume "successor_chain completion succ finish expected"
        "expected \<noteq> [] \<longrightarrow> current = succ (last expected)" and r: "r = Inr ts"
      then have "successor_chain completion succ finish (expected @ [current])"
        using True by (simp add: successor_chain_snoc)
      then have "successor_chain completion succ finish ts \<and> ts \<noteq> [] \<and>
          completion (last ts) = finish \<and> hd ts = hd (expected @ [current])"
        using IH' r unfolding expansion_of_def by simp
      then show "successor_chain completion succ finish ts \<and> ts \<noteq> [] \<and>
          completion (last ts) = finish \<and> (expected = [] \<longrightarrow> hd ts = current) \<and>
          (expected \<noteq> [] \<longrightarrow> hd ts = hd expected)"
        by (cases expected) simp_all
    qed
  next
    case False
    with eq show ?thesis by (auto simp: expansion_of_def split: if_splits)
  qed
qed

section \<open>The expansion returns\<close>

text \<open>
  \<open>expand_range\<close> returns when the loop variable has a rank that grows by a fixed amount and
  bounds the distance to the end; here the rank is the wall time of the loop variable.
\<close>

lemma expand_range_returns:
  assumes step: "\<And>t. ok t \<Longrightarrow> t < finish \<Longrightarrow> ok (succ t) \<and> rank t + 1 \<le> rank (succ t)"
    and bound: "\<And>t. ok t \<Longrightarrow> t < finish \<Longrightarrow> rank t < (limit :: int)"
    and "ok current"
  shows "\<exists>r. expand_range completion succ finish current expected = Some r"
  using \<open>ok current\<close>
proof (induction "nat (limit - rank current)" arbitrary: current expected rule: less_induct)
  case less
  show ?case
  proof (cases "current < finish \<and> \<not> finish < completion current")
    case True
    with step [OF less.prems] bound [OF less.prems]
    have "nat (limit - rank (succ current)) < nat (limit - rank current)" "ok (succ current)"
      by auto
    from less.hyps [OF this, of "expected @ [current]"] True show ?thesis
      by (simp add: expand_range.simps [of completion succ finish current])
  next
    case False
    then show ?thesis by (auto simp: expand_range.simps [of completion succ finish current])
  qed
qed

text \<open>Every UTC offset of the IANA database is smaller than a day.\<close>

definition bounded_offset :: "zone \<Rightarrow> bool" where
  "bounded_offset z \<longleftrightarrow> (\<forall>t. \<bar>to_local z t - t\<bar> < days 1)"

lemma successor_registered:
  assumes "faithful_zone z" "range_start_aligned (to_local z t) g" "registered_step g \<noteq> None"
  shows "\<exists>s. registered_successor z t g = Some s \<and> range_start_aligned (to_local z s) g
    \<and> to_local z t + minutes 15 \<le> to_local z s"
proof -
  let ?w = "successor_wall (to_local z t) g"
  have a: "range_start_aligned ?w g" using assms(2,3) by (rule successor_wall_aligned)
  then have "to_local z (to_utc z ?w) = ?w"
    using assms(1) range_start_session_time by (auto simp: faithful_zone_def)
  then show ?thesis using a registered_successor_wall [OF assms(3)] successor_wall_gt [OF assms(3)]
    by auto
qed

text \<open>A zone with a fixed offset, for closed evaluations (New York standard time is -5 h).\<close>

definition fixed_zone :: "duration \<Rightarrow> zone" where
  [model_defs]: "fixed_zone off = \<lparr>to_local = (\<lambda>t. t + off), to_utc = (\<lambda>w. w - off)\<rparr>"

lemma faithful_fixed_zone: "faithful_zone (fixed_zone off)"
  by (simp add: faithful_zone_def fixed_zone_def)

lemma bounded_fixed_zone: "\<bar>off\<bar> < days 1 \<Longrightarrow> bounded_offset (fixed_zone off)"
  by (simp add: bounded_offset_def fixed_zone_def)

section \<open>Properties\<close>

lemma successor_chain_aligned:
  assumes "faithful_zone z" "registered_step g \<noteq> None"
  shows "adjacent_all (\<lambda>a b. b = the (registered_successor z a g)) ts \<Longrightarrow> ts \<noteq> [] \<Longrightarrow>
    range_start_aligned (to_local z (hd ts)) g \<Longrightarrow> \<forall>t \<in> set ts. range_start_aligned (to_local z t) g"
proof (induction ts rule: induct_list012)
  case (3 a b ts)
  have "range_start_aligned (to_local z b) g"
    using successor_registered [OF assms(1) _ assms(2), of a] "3.prems" by auto
  moreover have "\<forall>t \<in> set (b # ts). range_start_aligned (to_local z t) g"
    using "3.IH"(2) "3.prems"(1) calculation by (simp del: adjacent_all.simps add: adjacent_all_Cons)
  ultimately show ?case using "3.prems"(3) by simp
qed simp_all

text \<open>C38: On a faithful zone whose offset stays below a day, the expansion of a range always
  returns, for every start, end and granularity: a list or an error, never an endless loop.\<close>

theorem expected_candles_return:
  assumes "faithful_zone z" "bounded_offset z"
  shows "\<exists>r. expected_candle_timestamps z start finish g = Some r"
proof (cases "registered_step g")
  case (Some step)
  let ?ok = "\<lambda>t. range_start_aligned (to_local z t) g"
  have "\<exists>r. expand_range completion (\<lambda>t. the (registered_successor z t g)) finish start [] = Some r"
    if "?ok start" for completion
  proof (rule expand_range_returns [where ok = ?ok and rank = "to_local z" and limit = "finish + days 1"])
    fix t assume "?ok t"
    then show "?ok (the (registered_successor z t g))
        \<and> to_local z t + 1 \<le> to_local z (the (registered_successor z t g))"
      using successor_registered [OF assms(1), of t g] Some by (force simp: minutes_def seconds_def)
  next
    fix t assume "t < finish"
    then show "to_local z t < finish + days 1"
      using assms(2) by (auto simp: bounded_offset_def abs_less_iff dest: spec [of _ t])
  qed (rule that)
  then show ?thesis using Some by (auto simp: expected_candle_timestamps_def)
qed (simp add: expected_candle_timestamps_def)

theorem expected_candles_return_witness:
  "\<exists>r. expected_candle_timestamps (fixed_zone (- hours 5)) (hours 22) (hours 46) GD = Some r"
  by (rule expected_candles_return [OF faithful_fixed_zone bounded_fixed_zone])
     (simp add: days_def hours_def minutes_def seconds_def)

text \<open>C39: A returned expansion is the whole registered grid of the range: it starts at the start,
  every open lies on the registered calendar and is the registered successor of the one before,
  every interval completes by the end, and the last one completes exactly at the end.\<close>

theorem expected_candles_are_the_grid:
  assumes "faithful_zone z" "expected_candle_timestamps z start finish g = Some (Inr ts)"
  shows "ts \<noteq> [] \<and> hd ts = start
    \<and> (\<forall>t \<in> set ts. range_start_aligned (to_local z t) g \<and> t < finish
        \<and> the (registered_candle_completion z t g) \<le> finish)
    \<and> adjacent_all (\<lambda>a b. registered_successor z a g = Some b) ts
    \<and> registered_candle_completion z (last ts) g = Some finish"
proof -
  obtain step where step: "registered_step g = Some step" and aligned: "range_start_aligned (to_local z start) g"
    and ret: "expand_range (\<lambda>t. the (registered_candle_completion z t g))
      (\<lambda>t. the (registered_successor z t g)) finish start [] = Some (Inr ts)"
    using assms(2) by (auto simp: expected_candle_timestamps_def split: option.splits if_splits)
  from expand_range_chain [OF ret]
  have chain: "successor_chain (\<lambda>t. the (registered_candle_completion z t g))
        (\<lambda>t. the (registered_successor z t g)) finish ts" "ts \<noteq> []" "hd ts = start"
    and final: "the (registered_candle_completion z (last ts) g) = finish"
    by (simp_all add: expansion_of_def successor_chain_def)
  have adj: "adjacent_all (\<lambda>a b. b = the (registered_successor z a g)) ts"
    using chain(1) by (simp add: successor_chain_def)
  have al: "\<forall>t \<in> set ts. range_start_aligned (to_local z t) g"
    using successor_chain_aligned [OF assms(1) _ adj chain(2)] step aligned chain(3) by simp
  have "registered_successor z t g \<noteq> None" for t
    using registered_successor_wall step by simp
  then have "adjacent_all (\<lambda>a b. registered_successor z a g = Some b) ts"
    using adj by (induction ts rule: induct_list012) auto
  moreover have "registered_candle_completion z (last ts) g = Some finish"
    using final step by (auto simp: registered_candle_completion_def)
  ultimately show ?thesis using chain al by (auto simp: successor_chain_def)
qed

theorem expected_candles_are_the_grid_witness:
  "registered_candle_completion (fixed_zone (- hours 5)) (hours 22) GD = Some (hours 46)"
proof -
  have "expected_candle_timestamps (fixed_zone (- hours 5)) (hours 22) (hours 46) GD = Some (Inr [hours 22])"
    by (simp add: expected_candle_timestamps_def expand_range.simps [of _ _ _ "hours 22"]
        expand_range.simps [of _ _ _ "the (registered_successor (fixed_zone (- hours 5)) (hours 22) GD)"])
       code_simp
  from expected_candles_are_the_grid [OF faithful_fixed_zone this] show ?thesis by simp
qed

end
