(* ===== verification/Decimals.thy ===== *)
theory Decimals
  imports Prelude
begin

text \<open>
  Python's \<^verbatim>\<open>decimal.Decimal\<close> arithmetic. A finite Decimal is the rational number it
  denotes; an operation computes the exact result and rounds it, half to even, to the
  precision of the active context: 28 significant digits by default, 34 inside
  \<^verbatim>\<open>market.strategy.contracts.arithmetic\<close>. \<open>ctx_round p\<close> is that rounding. The exponent
  limits (999999 digits) and signed zeros are not modelled: the inputs are stored prices
  with at most six decimals. \<open>quantize\<close> rounds to a fixed number of decimals and
  \<open>format_decimal\<close> prints the result as \<^verbatim>\<open>market/state/canonical.py\<close> does.

  The lemmas give what the other theories use of the rounding: it is monotone, odd, keeps the
  sign, is exact on representable values, and its error is bounded. The locale \<open>rounding\<close>
  collects these laws; it is interpreted on both contexts and on every quantum.
\<close>

type_synonym decimal = rat

section \<open>Rounding half to even\<close>

definition round_half_even :: "rat \<Rightarrow> int" where
  [model_defs]: "round_half_even x =
     (let f = \<lfloor>x\<rfloor>; d = x - of_int f
      in if d < 1 / 2 then f else if 1 / 2 < d then f + 1 else if even f then f else f + 1)"

lemma round_half_even_bounds: "\<lfloor>x\<rfloor> \<le> round_half_even x \<and> round_half_even x \<le> \<lfloor>x\<rfloor> + 1"
  by (simp add: round_half_even_def Let_def)

lemma round_half_even_of_int [simp]: "round_half_even (of_int n) = n"
  by (simp add: round_half_even_def)

lemma round_half_even_0 [simp]: "round_half_even 0 = 0"
  using round_half_even_of_int [of 0] by simp

lemma round_half_even_mono:
  assumes "x \<le> y"
  shows "round_half_even x \<le> round_half_even y"
proof (cases "\<lfloor>x\<rfloor> = \<lfloor>y\<rfloor>")
  case True
  with assms show ?thesis by (auto simp: round_half_even_def Let_def)
next
  case False
  with assms have "\<lfloor>x\<rfloor> + 1 \<le> \<lfloor>y\<rfloor>" using floor_mono [of x y] by linarith
  with round_half_even_bounds [of x] round_half_even_bounds [of y] show ?thesis by linarith
qed

lemma round_half_even_error: "\<bar>of_int (round_half_even x) - x\<bar> \<le> 1 / 2"
proof -
  have "of_int \<lfloor>x\<rfloor> \<le> x" "x < of_int \<lfloor>x\<rfloor> + 1" by linarith+
  then show ?thesis by (auto simp: round_half_even_def Let_def abs_le_iff)
qed

lemma round_half_even_minus: "round_half_even (- x) = - round_half_even x"
proof (cases "x = of_int \<lfloor>x\<rfloor>")
  case True
  then have "- x = of_int (- \<lfloor>x\<rfloor>)" by simp
  then show ?thesis using True round_half_even_of_int by metis
next
  case False
  then have "of_int \<lfloor>x\<rfloor> < x" "x < of_int \<lfloor>x\<rfloor> + 1" by linarith+
  then have f: "\<lfloor>- x\<rfloor> = - \<lfloor>x\<rfloor> - 1" by (intro floor_unique) simp_all
  have "even (- \<lfloor>x\<rfloor> - 1) \<longleftrightarrow> odd \<lfloor>x\<rfloor>" by simp
  then show ?thesis by (auto simp: round_half_even_def Let_def f)
qed

lemma round_half_even_nonneg: "0 \<le> x \<Longrightarrow> 0 \<le> round_half_even x"
  using round_half_even_mono [of 0 x] by simp

section \<open>The exponent of a value\<close>

text \<open>\<open>adjusted x\<close> is Python's \<^verbatim>\<open>Decimal.adjusted\<close>: the exponent of the leading digit.\<close>

function up_exp :: "rat \<Rightarrow> nat" where
  "up_exp x = (if 10 \<le> x then Suc (up_exp (x / 10)) else 0)"
  by pat_completeness auto
termination
proof (relation "measure (\<lambda>x. nat \<lfloor>x\<rfloor>)")
  fix x :: rat
  assume "10 \<le> x"
  then have "x / 10 \<le> x - 1" by simp
  then have "\<lfloor>x / 10\<rfloor> \<le> \<lfloor>x\<rfloor> - 1" by linarith
  moreover have "1 \<le> \<lfloor>x\<rfloor>" using \<open>10 \<le> x\<close> by linarith
  ultimately show "(x / 10, x) \<in> measure (\<lambda>x. nat \<lfloor>x\<rfloor>)" by simp
qed simp

function down_exp :: "rat \<Rightarrow> nat" where
  "down_exp x = (if 0 < x \<and> x < 1 then Suc (down_exp (10 * x)) else 0)"
  by pat_completeness auto
termination
proof (relation "measure (\<lambda>x. nat \<lfloor>1 / x\<rfloor>)")
  fix x :: rat
  assume x: "0 < x \<and> x < 1"
  have "1 / (10 * x) < 1 / x - 9 / 10"
  proof -
    have "1 < 1 / x" using x by simp
    moreover have "1 / (10 * x) = (1 / x) / 10" by simp
    ultimately show ?thesis by linarith
  qed
  have one: "1 < 1 / x" using x by simp
  have "\<lfloor>1 / (10 * x)\<rfloor> < \<lfloor>1 / x\<rfloor>"
  proof (rule ccontr)
    assume "\<not> ?thesis"
    then have "of_int \<lfloor>1 / x\<rfloor> \<le> 1 / (10 * x)" by linarith
    moreover have "1 / x < of_int \<lfloor>1 / x\<rfloor> + 1" by linarith
    moreover have "1 \<le> \<lfloor>1 / x\<rfloor>" using one by linarith
    then have "(1::rat) \<le> of_int \<lfloor>1 / x\<rfloor>" by simp
    ultimately show False by simp
  qed
  moreover have "1 \<le> \<lfloor>1 / x\<rfloor>" using one by linarith
  ultimately show "(10 * x, x) \<in> measure (\<lambda>x. nat \<lfloor>1 / x\<rfloor>)" by simp
qed simp

declare up_exp.simps [simp del] down_exp.simps [simp del]

definition adjusted :: "rat \<Rightarrow> int" where
  [model_defs]: "adjusted x = (if 1 \<le> x then int (up_exp x) else - int (down_exp x))"

lemma up_exp_bounds: "1 \<le> x \<Longrightarrow> 10 ^ up_exp x \<le> x \<and> x < 10 ^ Suc (up_exp x)"
proof (induction x rule: up_exp.induct)
  case (1 x)
  then show ?case
    by (cases "10 \<le> x") (auto simp: up_exp.simps [of x] field_simps)
qed

lemma down_exp_bounds:
  "0 < x \<Longrightarrow> x < 1 \<Longrightarrow> 1 \<le> 10 ^ down_exp x * x \<and> 10 ^ down_exp x * x < 10"
proof (induction x rule: down_exp.induct)
  case (1 x)
  show ?case
  proof (cases "10 * x < 1")
    case True
    then show ?thesis using 1 by (simp add: down_exp.simps [of x] algebra_simps)
  next
    case False
    then show ?thesis using 1 by (simp add: down_exp.simps [of x] down_exp.simps [of "10 * x"])
  qed
qed

lemma adjusted_bounds:
  assumes "0 < x"
  shows "10 powi adjusted x \<le> x" "x < 10 powi (adjusted x + 1)"
proof -
  have "10 powi adjusted x \<le> x \<and> x < 10 powi (adjusted x + 1)"
  proof (cases "1 \<le> x")
    case True
    then show ?thesis using up_exp_bounds [of x]
      by (simp add: adjusted_def power_int_add)
  next
    case False
    then have "1 \<le> 10 ^ down_exp x * x" "10 ^ down_exp x * x < 10"
      using down_exp_bounds [of x] assms by auto
    then show ?thesis using False
      by (simp add: adjusted_def power_int_minus power_int_diff field_simps)
  qed
  then show "10 powi adjusted x \<le> x" "x < 10 powi (adjusted x + 1)" by auto
qed

lemma adjusted_mono:
  assumes "0 < x" "x \<le> y"
  shows "adjusted x \<le> adjusted y"
proof (rule ccontr)
  assume "\<not> ?thesis"
  then have "(10::rat) powi (adjusted y + 1) \<le> 10 powi adjusted x"
    by (intro power_int_increasing) auto
  with adjusted_bounds(1) [of x] adjusted_bounds(2) [of y] assms show False by linarith
qed

lemma adjusted_unique:
  assumes "10 powi e \<le> x" "x < 10 powi (e + 1)"
  shows "adjusted x = e"
proof -
  have "0 < x" using assms(1) zero_less_power_int [of "10::rat" e] by linarith
  note b = adjusted_bounds [OF this]
  have "\<not> adjusted x + 1 \<le> e" "\<not> e + 1 \<le> adjusted x"
    using power_int_increasing [of "adjusted x + 1" e "10::rat"]
      power_int_increasing [of "e + 1" "adjusted x" "10::rat"] assms b by auto
  then show ?thesis by linarith
qed

section \<open>Rounding to a context precision\<close>

definition ctx_quantum :: "nat \<Rightarrow> rat \<Rightarrow> rat" where
  [model_defs]: "ctx_quantum p x = 10 powi (adjusted \<bar>x\<bar> + 1 - int p)"

definition ctx_round :: "nat \<Rightarrow> rat \<Rightarrow> decimal" where
  [model_defs]: "ctx_round p x =
     (if x = 0 then 0 else of_int (round_half_even (x / ctx_quantum p x)) * ctx_quantum p x)"

lemma ctx_quantum_pos [simp]: "0 < ctx_quantum p x"
  by (simp add: ctx_quantum_def)

lemma ctx_round_0 [simp]: "ctx_round p 0 = 0"
  by (simp add: ctx_round_def)

lemma ctx_round_minus: "ctx_round p (- x) = - ctx_round p x"
  by (simp add: ctx_round_def ctx_quantum_def round_half_even_minus)

lemma ctx_quantum_scale:
  assumes "0 < p"
  shows "10 powi adjusted \<bar>x\<bar> = 10 ^ (p - 1) * ctx_quantum p x"
proof -
  have "adjusted \<bar>x\<bar> = int (p - 1) + (adjusted \<bar>x\<bar> + 1 - int p)" using assms by simp
  then have "10 powi adjusted \<bar>x\<bar> = (10::rat) powi (int (p - 1) + (adjusted \<bar>x\<bar> + 1 - int p))"
    by simp
  also have "\<dots> = 10 powi int (p - 1) * 10 powi (adjusted \<bar>x\<bar> + 1 - int p)"
    by (rule power_int_add) simp
  finally show ?thesis by (simp add: ctx_quantum_def)
qed

text \<open>The rounded value stays within the decade of the exact one.\<close>

lemma ctx_round_decade:
  assumes "0 < x" "0 < p"
  shows "10 powi adjusted x \<le> ctx_round p x" "ctx_round p x \<le> 10 powi (adjusted x + 1)"
proof -
  let ?q = "ctx_quantum p x"
  have ax: "\<bar>x\<bar> = x" using assms by simp
  have lo: "10 powi adjusted x = 10 ^ (p - 1) * ?q"
    using ctx_quantum_scale [of p x] assms by (simp add: ax)
  have hi: "10 powi (adjusted x + 1) = 10 ^ p * ?q"
  proof -
    have "10 powi (adjusted x + 1) = 10 * (10::rat) powi adjusted x"
      by (simp add: power_int_add)
    also have "\<dots> = (10 * 10 ^ (p - 1)) * ?q" by (simp add: lo)
    also have "10 * 10 ^ (p - 1) = (10::rat) ^ p" using assms(2) by (cases p) auto
    finally show ?thesis .
  qed
  have "10 ^ (p - 1) \<le> x / ?q" using adjusted_bounds(1) [OF assms(1)]
    by (simp add: lo pos_le_divide_eq)
  then have "round_half_even (of_int (10 ^ (p - 1))) \<le> round_half_even (x / ?q)"
    by (intro round_half_even_mono) simp
  then have l: "(10::rat) ^ (p - 1) \<le> of_int (round_half_even (x / ?q))"
    unfolding round_half_even_of_int by (metis of_int_le_iff of_int_numeral of_int_power)
  have "x / ?q \<le> 10 ^ p" using adjusted_bounds(2) [OF assms(1)]
    by (simp add: hi pos_divide_le_eq)
  then have "round_half_even (x / ?q) \<le> round_half_even (of_int (10 ^ p))"
    by (intro round_half_even_mono) simp
  then have u: "of_int (round_half_even (x / ?q)) \<le> (10::rat) ^ p"
    unfolding round_half_even_of_int by (metis of_int_le_iff of_int_numeral of_int_power)
  have r: "ctx_round p x = of_int (round_half_even (x / ?q)) * ?q"
    using assms by (simp add: ctx_round_def)
  show "10 powi adjusted x \<le> ctx_round p x"
    using l by (simp add: lo r mult_right_mono)
  show "ctx_round p x \<le> 10 powi (adjusted x + 1)"
    using u by (simp add: hi r mult_right_mono)
qed

lemma ctx_round_pos: "0 < x \<Longrightarrow> 0 < p \<Longrightarrow> 0 < ctx_round p x"
  using ctx_round_decade(1) [of x p] zero_less_power_int [of "10::rat" "adjusted x"] by linarith

lemma ctx_round_mono_pos:
  assumes "0 < x" "x \<le> y" "0 < p"
  shows "ctx_round p x \<le> ctx_round p y"
proof (cases "adjusted x = adjusted y")
  case True
  have y: "0 < y" using assms by linarith
  have "ctx_quantum p x = ctx_quantum p y" using True assms y by (simp add: ctx_quantum_def)
  moreover have "round_half_even (x / ctx_quantum p y) \<le> round_half_even (y / ctx_quantum p y)"
    using assms by (intro round_half_even_mono) (simp add: divide_right_mono less_imp_le)
  ultimately show ?thesis using assms y by (simp add: ctx_round_def mult_right_mono)
next
  case False
  then have "adjusted x + 1 \<le> adjusted y" using adjusted_mono [of x y] assms by linarith
  then have "(10::rat) powi (adjusted x + 1) \<le> 10 powi adjusted y"
    by (intro power_int_increasing) auto
  with ctx_round_decade(2) [of x p] ctx_round_decade(1) [of y p] assms show ?thesis by linarith
qed

lemma ctx_round_mono:
  assumes "x \<le> y" "0 < p"
  shows "ctx_round p x \<le> ctx_round p y"
proof -
  consider "0 < x" | "x \<le> 0" "0 \<le> y" | "y < 0" using assms by linarith
  then show ?thesis
  proof cases
    case 1
    then show ?thesis using assms by (intro ctx_round_mono_pos)
  next
    case 2
    have "ctx_round p x \<le> 0"
      using ctx_round_pos [of "- x" p] 2 assms by (cases "x = 0") (auto simp: ctx_round_minus)
    moreover have "0 \<le> ctx_round p y"
      using ctx_round_pos [of y p] 2 assms by (cases "y = 0") auto
    ultimately show ?thesis by linarith
  next
    case 3
    then have "ctx_round p (- y) \<le> ctx_round p (- x)"
      using assms by (intro ctx_round_mono_pos) auto
    then show ?thesis by (simp add: ctx_round_minus)
  qed
qed

text \<open>A value with at most \<open>p\<close> significant digits is not changed.\<close>

lemma ctx_round_exact:
  assumes "x = of_int n * 10 powi k" "\<bar>n\<bar> < 10 ^ p"
  shows "ctx_round p x = x"
proof (cases "x = 0")
  case False
  let ?a = "adjusted \<bar>x\<bar>"
  have n: "n \<noteq> 0" using False assms by auto
  have "\<bar>x\<bar> = of_int \<bar>n\<bar> * 10 powi k" using assms(1) by (simp add: abs_mult)
  moreover have "(of_int \<bar>n\<bar> :: rat) < 10 ^ p"
    using assms(2) by (metis of_int_less_iff of_int_numeral of_int_power)
  ultimately have "\<bar>x\<bar> < 10 ^ p * 10 powi k" by simp
  then have "10 powi ?a < (10::rat) powi (int p + k)"
    using adjusted_bounds(1) [of "\<bar>x\<bar>"] False by (simp add: power_int_add)
  then have "\<not> int p + k \<le> ?a" using power_int_increasing [of "int p + k" ?a "10::rat"] by auto
  then obtain d where d: "k = ?a + 1 - int p + int d"
    using zle_iff_zadd [of "?a + 1 - int p" k] by auto
  have "x = of_int (n * 10 ^ d) * ctx_quantum p x"
  proof -
    have "(10::rat) powi k = 10 powi (int d + (?a + 1 - int p))" by (subst d) (simp add: algebra_simps)
    also have "\<dots> = 10 ^ d * ctx_quantum p x"
      by (simp add: power_int_add ctx_quantum_def del: add_diff_eq)
    finally show ?thesis by (simp add: assms(1))
  qed
  moreover have "x / ctx_quantum p x = of_int (n * 10 ^ d)"
    using calculation ctx_quantum_pos [of p x] by (metis less_irrefl nonzero_mult_div_cancel_right)
  ultimately show ?thesis using False by (metis ctx_round_def round_half_even_of_int)
qed simp

lemma ctx_round_relative_error:
  assumes "0 < p"
  shows "\<bar>ctx_round p x - x\<bar> \<le> \<bar>x\<bar> * (10 / (2 * 10 ^ p))"
proof (cases "x = 0")
  case False
  let ?q = "ctx_quantum p x"
  have "\<bar>of_int (round_half_even (x / ?q)) - x / ?q\<bar> * ?q \<le> 1 / 2 * ?q"
    using ctx_quantum_pos [of p x]
    by (intro mult_right_mono round_half_even_error) (simp only: less_imp_le)
  also have "\<bar>of_int (round_half_even (x / ?q)) - x / ?q\<bar> * ?q
      = \<bar>(of_int (round_half_even (x / ?q)) - x / ?q) * ?q\<bar>"
    by (simp only: abs_mult abs_of_pos [OF ctx_quantum_pos])
  also have "(of_int (round_half_even (x / ?q)) - x / ?q) * ?q = ctx_round p x - x"
    using False ctx_quantum_pos [of p x]
    by (simp add: ctx_round_def left_diff_distrib less_imp_neq [THEN not_sym])
  finally have e: "\<bar>ctx_round p x - x\<bar> \<le> ?q / 2" by simp
  have "10 ^ (p - 1) * ?q \<le> \<bar>x\<bar>"
    using ctx_quantum_scale [of p x] adjusted_bounds(1) [of "\<bar>x\<bar>"] False assms by simp
  then have "?q \<le> \<bar>x\<bar> * (10 / 10 ^ p)"
    using assms by (cases p) (simp_all add: field_simps)
  then have "?q / 2 \<le> (\<bar>x\<bar> * (10 / 10 ^ p)) / 2" by (rule divide_right_mono) simp
  with e have "\<bar>ctx_round p x - x\<bar> \<le> (\<bar>x\<bar> * (10 / 10 ^ p)) / 2" by (rule order.trans)
  then show ?thesis by (simp add: mult.commute)
qed simp

section \<open>The laws of a rounding\<close>

text \<open>
  What the arithmetic of the program relies on, whichever context is active: rounding is
  monotone and odd. Comparisons of a rounded difference with zero then agree with the
  comparison of the operands whenever the rounding does not lose a nonzero value.
\<close>

locale rounding =
  fixes rnd :: "rat \<Rightarrow> rat"
  assumes rnd_mono: "x \<le> y \<Longrightarrow> rnd x \<le> rnd y"
    and rnd_minus: "rnd (- x) = - rnd x"
begin

lemma rnd_0 [simp]: "rnd 0 = 0"
  using rnd_minus [of 0] by simp

lemma rnd_nonneg: "0 \<le> x \<Longrightarrow> 0 \<le> rnd x"
  using rnd_mono [of 0 x] by simp

lemma rnd_nonpos: "x \<le> 0 \<Longrightarrow> rnd x \<le> 0"
  using rnd_mono [of x 0] by simp

lemma rnd_abs: "rnd \<bar>x\<bar> = \<bar>rnd x\<bar>"
  using rnd_nonneg [of x] rnd_nonpos [of x] by (cases "0 \<le> x") (auto simp: rnd_minus)

lemma rnd_max: "rnd (max x y) = max (rnd x) (rnd y)"
  using rnd_mono [of x y] rnd_mono [of y x] by (cases "x \<le> y") (auto simp: max_def)

lemma rnd_min: "rnd (min x y) = min (rnd x) (rnd y)"
  using rnd_mono [of x y] rnd_mono [of y x] by (cases "x \<le> y") (auto simp: min_def)

end

text \<open>A context rounding also keeps every nonzero value nonzero, hence the sign.\<close>

locale sign_rounding = rounding +
  assumes rnd_pos: "0 < x \<Longrightarrow> 0 < rnd x"
begin

lemma rnd_neg: "x < 0 \<Longrightarrow> rnd x < 0"
  using rnd_pos [of "- x"] by (simp add: rnd_minus)

lemma rnd_pos_iff [simp]: "0 < rnd x \<longleftrightarrow> 0 < x"
  using rnd_pos [of x] rnd_nonpos [of x] by (cases "0 < x") auto

lemma rnd_neg_iff [simp]: "rnd x < 0 \<longleftrightarrow> x < 0"
  using rnd_neg [of x] rnd_nonneg [of x] by (cases "x < 0") auto

lemma rnd_eq_0_iff [simp]: "rnd x = 0 \<longleftrightarrow> x = 0"
  using rnd_pos_iff [of x] rnd_neg_iff [of x] rnd_0 by (metis less_irrefl linorder_neqE)

lemma rnd_nonneg_iff [simp]: "0 \<le> rnd x \<longleftrightarrow> 0 \<le> x"
  using rnd_neg_iff [of x] by linarith

lemma rnd_nonpos_iff [simp]: "rnd x \<le> 0 \<longleftrightarrow> x \<le> 0"
  using rnd_pos_iff [of x] by linarith

end

text \<open>The default context of the process (28 digits) and the strategy context (34 digits).\<close>

abbreviation rnd28 :: "rat \<Rightarrow> decimal" where
  "rnd28 \<equiv> ctx_round 28"

abbreviation rnd34 :: "rat \<Rightarrow> decimal" where
  "rnd34 \<equiv> ctx_round 34"

interpretation ctx28: sign_rounding rnd28
  by unfold_locales (auto simp: ctx_round_minus ctx_round_pos intro: ctx_round_mono)

interpretation ctx34: sign_rounding rnd34
  by unfold_locales (auto simp: ctx_round_minus ctx_round_pos intro: ctx_round_mono)

text \<open>\<^verbatim>\<open>sum(values)\<close>: every partial sum is rounded.\<close>

fun sum_from :: "(rat \<Rightarrow> rat) \<Rightarrow> decimal \<Rightarrow> decimal list \<Rightarrow> decimal" where
  "sum_from rnd acc [] = acc"
| "sum_from rnd acc (x # xs) = sum_from rnd (rnd (acc + x)) xs"

abbreviation py_sum :: "(rat \<Rightarrow> rat) \<Rightarrow> decimal list \<Rightarrow> decimal" where
  "py_sum rnd \<equiv> sum_from rnd 0"

context rounding
begin

lemma sum_from_nonneg:
  "0 \<le> acc \<Longrightarrow> \<forall>x \<in> set xs. 0 \<le> x \<Longrightarrow> 0 \<le> sum_from rnd acc xs"
  by (induction xs arbitrary: acc) (simp_all add: rnd_nonneg)

lemma sum_from_mono:
  "acc \<le> acc' \<Longrightarrow> list_all2 (\<le>) xs ys \<Longrightarrow> sum_from rnd acc xs \<le> sum_from rnd acc' ys"
proof (induction xs arbitrary: acc acc' ys)
  case (Cons x xs)
  then obtain y ys' where ys: "ys = y # ys'" "x \<le> y" "list_all2 (\<le>) xs ys'"
    by (auto simp: list_all2_Cons1)
  then have "rnd (acc + x) \<le> rnd (acc' + y)" using Cons.prems by (intro rnd_mono) simp
  then show ?case using Cons.IH [OF _ ys(3)] ys(1) by simp
qed simp

end

section \<open>quantize and the printed form\<close>

text \<open>
  \<^verbatim>\<open>value.quantize(Decimal("1e-n"))\<close> in the three rounding modes the program uses. Python
  raises \<^verbatim>\<open>InvalidOperation\<close> when the result needs more digits than the context has;
  \<open>quantize_fits\<close> below shows that a value smaller than ten to the 22 never does at
  six decimals, and stored prices have at most twelve digits.
\<close>

definition quantize :: "nat \<Rightarrow> rat \<Rightarrow> decimal" where
  [model_defs]: "quantize n x = of_int (round_half_even (x * 10 ^ n)) / 10 ^ n"

definition quantize_floor :: "nat \<Rightarrow> rat \<Rightarrow> decimal" where
  [model_defs]: "quantize_floor n x = of_int \<lfloor>x * 10 ^ n\<rfloor> / 10 ^ n"

definition quantize_ceiling :: "nat \<Rightarrow> rat \<Rightarrow> decimal" where
  [model_defs]: "quantize_ceiling n x = of_int \<lceil>x * 10 ^ n\<rceil> / 10 ^ n"

definition on_grid :: "nat \<Rightarrow> rat \<Rightarrow> bool" where
  [model_defs]: "on_grid n x \<longleftrightarrow> of_int \<lfloor>x * 10 ^ n\<rfloor> = x * 10 ^ n"

lemma quantize_mono: "x \<le> y \<Longrightarrow> quantize n x \<le> quantize n y"
  by (simp add: quantize_def divide_right_mono round_half_even_mono)

lemma quantize_minus: "quantize n (- x) = - quantize n x"
  by (simp add: quantize_def round_half_even_minus)

lemma quantize_error: "\<bar>quantize n x - x\<bar> \<le> 1 / (2 * 10 ^ n)"
proof -
  have "\<bar>of_int (round_half_even (x * 10 ^ n)) - x * 10 ^ n\<bar> / 10 ^ n \<le> (1 / 2) / 10 ^ n"
    by (intro divide_right_mono round_half_even_error) simp
  moreover have "quantize n x - x = (of_int (round_half_even (x * 10 ^ n)) - x * 10 ^ n) / 10 ^ n"
    by (simp add: quantize_def field_simps)
  ultimately show ?thesis by (simp add: abs_divide)
qed

lemma quantize_on_grid: "on_grid n x \<Longrightarrow> quantize n x = x"
  unfolding quantize_def on_grid_def by (metis nonzero_mult_div_cancel_right
      power_not_zero round_half_even_of_int zero_neq_numeral)

lemma quantize_of_int [simp]: "quantize n (of_int k) = of_int k"
proof (rule quantize_on_grid)
  have "(of_int k :: rat) * 10 ^ n = of_int (k * 10 ^ n)" by simp
  then show "on_grid n (of_int k)" unfolding on_grid_def by (metis floor_of_int)
qed

lemma quantize_numeral [simp]:
  "quantize n (numeral k) = numeral k" "quantize n 1 = 1" "quantize n 0 = 0"
  using quantize_of_int [of n "numeral k"] quantize_of_int [of n 1] quantize_of_int [of n 0] by simp_all

lemma quantize_idem [simp]: "quantize n (quantize n x) = quantize n x"
  by (rule quantize_on_grid) (simp add: quantize_def on_grid_def)

lemma quantize_floor_le: "quantize_floor n x \<le> x"
  by (simp add: quantize_floor_def pos_divide_le_eq)

lemma quantize_ceiling_ge: "x \<le> quantize_ceiling n x"
  by (simp add: quantize_ceiling_def pos_le_divide_eq)

lemma quantize_fits:
  assumes "\<bar>x\<bar> < 10 ^ 22"
  shows "\<bar>round_half_even (x * 10 ^ 6)\<bar> \<le> 10 ^ 28"
proof -
  have "x * 10 ^ 6 \<le> of_int (10 ^ 28)" "of_int (- (10 ^ 28)) \<le> x * 10 ^ 6" using assms by auto
  then have "round_half_even (x * 10 ^ 6) \<le> 10 ^ 28" "- (10 ^ 28) \<le> round_half_even (x * 10 ^ 6)"
    by (metis round_half_even_mono round_half_even_of_int)+
  then show ?thesis by linarith
qed

interpretation quantum: rounding "quantize n"
  by unfold_locales (auto simp: quantize_minus intro: quantize_mono)

section \<open>Exact arithmetic on the grid\<close>

text \<open>Sums and differences of quantized values below the precision of the context are exact.\<close>

lemma on_grid_quantize [simp]: "on_grid n (quantize n x)"
  by (simp add: quantize_def on_grid_def)

lemma on_grid_iff: "on_grid n x \<longleftrightarrow> (\<exists>k::int. x = of_int k / 10 ^ n)"
proof
  assume "on_grid n x"
  then have "x * 10 ^ n = of_int \<lfloor>x * 10 ^ n\<rfloor>" unfolding on_grid_def by (rule sym)
  then show "\<exists>k::int. x = of_int k / 10 ^ n"
    by (metis nonzero_mult_div_cancel_right power_not_zero zero_neq_numeral)
qed (auto simp: on_grid_def)

lemma on_grid_add: "on_grid n x \<Longrightarrow> on_grid n y \<Longrightarrow> on_grid n (x + y)"
  unfolding on_grid_iff by (metis add_divide_distrib of_int_add)

lemma on_grid_diff: "on_grid n x \<Longrightarrow> on_grid n y \<Longrightarrow> on_grid n (x - y)"
  unfolding on_grid_iff by (metis diff_divide_distrib of_int_diff)

lemma rnd28_on_grid:
  assumes "on_grid n x" "\<bar>x\<bar> * 10 ^ n < 10 ^ 28"
  shows "rnd28 x = x"
proof -
  obtain k :: int where k: "x = of_int k / 10 ^ n" using assms(1) by (auto simp: on_grid_iff)
  then have "(of_int \<bar>k\<bar> :: rat) < of_int (10 ^ 28)" using assms(2) by simp
  then have "\<bar>k\<bar> < 10 ^ 28" using of_int_less_iff by blast
  moreover have "x = of_int k * 10 powi (- int n)" using k by (simp add: power_int_minus divide_inverse)
  ultimately show ?thesis by (rule ctx_round_exact [rotated])
qed

lemma quantize_le_grid: "on_grid n y \<Longrightarrow> x \<le> y \<Longrightarrow> quantize n x \<le> y"
  by (metis quantize_mono quantize_on_grid)

lemma quantize_ge_grid: "on_grid n y \<Longrightarrow> y \<le> x \<Longrightarrow> y \<le> quantize n x"
  by (metis quantize_mono quantize_on_grid)

end
