(* ===== verification/Quality.thy ===== *)
theory Quality
  imports Calendar Decimals
begin

text \<open>
  The fail-closed candle checks of \<^verbatim>\<open>market/quality.py\<close> (\<^verbatim>\<open>validate_candles\<close> and its helpers)
  over provider bid/ask candles. An issue keeps its code and the candle's index; the detail
  text is not modelled. The check \<^verbatim>\<open>timestamp_not_utc\<close> has no counterpart: an instant has no
  other zone. A KeyError (a granularity without a registered step, or a registered weekend
  gap asked of M15) is \<open>None\<close>.
\<close>

record quote_candle =
  c_timestamp :: instant
  c_complete :: bool
  c_volume :: int
  bid_open :: decimal
  bid_high :: decimal
  bid_low :: decimal
  bid_close :: decimal
  ask_open :: decimal
  ask_high :: decimal
  ask_low :: decimal
  ask_close :: decimal

datatype side = Bid | Ask

datatype component = Open | High | Low | Close

datatype issue_code =
    DuplicateTimestamp | NonMonotonicTimestamp | UnexpectedGap | AlignmentMismatch
  | IncompleteCandle | NegativeVolume | ImpossibleOhlc side | CrossedBidAsk component

type_synonym issue = "issue_code \<times> nat"

fun price_of :: "quote_candle \<Rightarrow> side \<Rightarrow> component \<Rightarrow> decimal" where
  "price_of c Bid Open = bid_open c"
| "price_of c Bid High = bid_high c"
| "price_of c Bid Low = bid_low c"
| "price_of c Bid Close = bid_close c"
| "price_of c Ask Open = ask_open c"
| "price_of c Ask High = ask_high c"
| "price_of c Ask Low = ask_low c"
| "price_of c Ask Close = ask_close c"

text \<open>The table \<^verbatim>\<open>expected_start\<close> of the registered weekend.\<close>

fun weekend_start :: "granularity \<Rightarrow> (int \<times> duration) option" where
  "weekend_start GH1 = Some (4, hours 16)"
| "weekend_start GH4 = Some (4, hours 13)"
| "weekend_start GD = Some (3, hours 17)"
| "weekend_start _ = None"

definition is_fx_weekend_gap :: "zone \<Rightarrow> instant \<Rightarrow> instant \<Rightarrow> granularity \<Rightarrow> bool \<Rightarrow> bool option" where
  "is_fx_weekend_gap z start finish g registered =
     (if g = GW then Some False
      else if registered then
        (let start_local = to_local z start; end_local = to_local z finish in
         map_option (\<lambda>(start_weekday, start_time).
             weekday start_local = start_weekday \<and> time_of_day start_local = start_time
             \<and> weekday end_local = 6 \<and> time_of_day end_local = hours 17)
           (weekend_start g))
      else
        (let start_weekday = (if g = GD then 3 else 4) in
         Some (weekday start = start_weekday \<and> weekday finish \<in> {6, 0}
               \<and> finish - start \<le> days 4)))"

definition is_expected_successor ::
  "zone \<Rightarrow> instant \<Rightarrow> instant \<Rightarrow> granularity \<Rightarrow> duration \<Rightarrow> bool \<Rightarrow> bool option" where
  "is_expected_successor z start finish g expected_step registered =
     (if finish - start = expected_step then Some True
      else case is_fx_weekend_gap z start finish g registered of
          None \<Rightarrow> None
        | Some True \<Rightarrow> Some True
        | Some False \<Rightarrow>
            (if g \<notin> {GD, GW} then Some False
             else Some (to_local z finish - to_local z start = expected_step)))"

definition has_registered_alignment :: "zone \<Rightarrow> instant \<Rightarrow> granularity \<Rightarrow> bool" where
  "has_registered_alignment z timestamp g =
     (let local = to_local z timestamp in
      if time_of_day local \<noteq> hours 17 then False else g = GD \<or> weekday local = 4)"

definition ohlc_issues :: "quote_candle \<Rightarrow> issue_code list" where
  "ohlc_issues c =
     concat (map (\<lambda>s. let op = price_of c s Open; hi = price_of c s High;
                         lo = price_of c s Low; cl = price_of c s Close in
         if min op cl < lo \<or> hi < max op cl \<or> hi < lo then [ImpossibleOhlc s] else [])
       [Bid, Ask])
     @ concat (map (\<lambda>k. if price_of c Ask k < price_of c Bid k then [CrossedBidAsk k] else [])
       [Open, High, Low, Close])"

text \<open>The body of the loop for one candle: its issues, or \<open>None\<close> for a KeyError.\<close>

definition candle_issues ::
  "zone \<Rightarrow> granularity \<Rightarrow> duration \<Rightarrow> bool \<Rightarrow> bool \<Rightarrow> instant set \<Rightarrow> quote_candle option
     \<Rightarrow> quote_candle \<Rightarrow> issue_code list option" where
  "candle_issues z g step registered enforce seen previous c =
     (let ts = c_timestamp c;
          successor_ok =
            (case previous of
               None \<Rightarrow> Some True
             | Some p \<Rightarrow> if enforce
                 then is_expected_successor z (c_timestamp p) ts g step registered else Some True)
      in map_option (\<lambda>ok.
           (if ts \<in> seen then [DuplicateTimestamp] else [])
         @ (case previous of None \<Rightarrow> []
              | Some p \<Rightarrow> if ts \<le> c_timestamp p then [NonMonotonicTimestamp] else [])
         @ (if ok then [] else [UnexpectedGap])
         @ (if registered \<and> g \<in> {GD, GW} \<and> \<not> has_registered_alignment z ts g
            then [AlignmentMismatch] else [])
         @ (if c_complete c then [] else [IncompleteCandle])
         @ (if c_volume c < 0 then [NegativeVolume] else [])
         @ ohlc_issues c) successor_ok)"

fun validate_from ::
  "zone \<Rightarrow> granularity \<Rightarrow> duration \<Rightarrow> bool \<Rightarrow> bool \<Rightarrow> nat \<Rightarrow> instant set \<Rightarrow> quote_candle option
     \<Rightarrow> quote_candle list \<Rightarrow> issue list option" where
  "validate_from z g step registered enforce index seen previous [] = Some []"
| "validate_from z g step registered enforce index seen previous (c # cs) =
     (case candle_issues z g step registered enforce seen previous c of
        None \<Rightarrow> None
      | Some codes \<Rightarrow>
          map_option (\<lambda>rest. map (\<lambda>code. (code, index)) codes @ rest)
            (validate_from z g step registered enforce (Suc index)
               (insert (c_timestamp c) seen) (Some c) cs))"

definition validate_candles ::
  "zone \<Rightarrow> quote_candle list \<Rightarrow> granularity \<Rightarrow> bool \<Rightarrow> bool \<Rightarrow> issue list option" where
  "validate_candles z candles g registered enforce =
     (case registered_step g of
        None \<Rightarrow> None
      | Some step \<Rightarrow> validate_from z g step registered enforce 0 {} None candles)"

section \<open>What an empty report means\<close>

definition well_formed_candle :: "quote_candle \<Rightarrow> bool" where
  "well_formed_candle c \<longleftrightarrow> c_complete c \<and> 0 \<le> c_volume c \<and>
     (\<forall>s. price_of c s Low \<le> min (price_of c s Open) (price_of c s Close) \<and>
          max (price_of c s Open) (price_of c s Close) \<le> price_of c s High) \<and>
     (\<forall>k. price_of c Bid k \<le> price_of c Ask k)"

lemma ohlc_issues_Nil:
  "ohlc_issues c = [] \<longleftrightarrow>
     (\<forall>s. price_of c s Low \<le> min (price_of c s Open) (price_of c s Close) \<and>
          max (price_of c s Open) (price_of c s Close) \<le> price_of c s High) \<and>
     (\<forall>k. price_of c Bid k \<le> price_of c Ask k)"
proof -
  have s: "(\<forall>s. P s) \<longleftrightarrow> P Bid \<and> P Ask" for P by (metis side.exhaust)
  have k: "(\<forall>k. P k) \<longleftrightarrow> P Open \<and> P High \<and> P Low \<and> P Close" for P by (metis component.exhaust)
  show ?thesis
    unfolding s k by (auto simp: ohlc_issues_def Let_def split: if_splits)
qed

lemma candle_issues_Nil:
  "candle_issues z g step registered enforce seen previous c = Some [] \<longleftrightarrow>
     c_timestamp c \<notin> seen \<and> well_formed_candle c \<and>
     (registered \<and> g \<in> {GD, GW} \<longrightarrow> has_registered_alignment z (c_timestamp c) g) \<and>
     (case previous of None \<Rightarrow> True
      | Some p \<Rightarrow> c_timestamp p < c_timestamp c \<and>
          (enforce \<longrightarrow> is_expected_successor z (c_timestamp p) (c_timestamp c) g step registered
             = Some True))"
proof -
  have s: "(\<forall>s. P s) \<longleftrightarrow> P Bid \<and> P Ask" for P by (metis side.exhaust)
  show ?thesis
    using ohlc_issues_Nil [of c]
    by (cases previous) (auto simp: candle_issues_def well_formed_candle_def Let_def)
qed

lemma validate_from_Nil:
  "validate_from z g step registered enforce index seen previous cs = Some [] \<longleftrightarrow>
     (case cs of [] \<Rightarrow> True | c # rest \<Rightarrow>
        candle_issues z g step registered enforce seen previous c = Some [] \<and>
        validate_from z g step registered enforce (Suc index) (insert (c_timestamp c) seen) (Some c) rest
          = Some [])"
  by (cases cs) (auto split: option.splits)

text \<open>The clean series: increasing, succeeding, aligned and well formed.\<close>

definition clean_series :: "zone \<Rightarrow> granularity \<Rightarrow> duration \<Rightarrow> bool \<Rightarrow> bool \<Rightarrow> quote_candle list \<Rightarrow> bool" where
  "clean_series z g step registered enforce cs \<longleftrightarrow>
     (\<forall>c \<in> set cs. well_formed_candle c \<and>
        (registered \<and> g \<in> {GD, GW} \<longrightarrow> has_registered_alignment z (c_timestamp c) g)) \<and>
     adjacent_all (\<lambda>a b. c_timestamp a < c_timestamp b \<and>
        (enforce \<longrightarrow> is_expected_successor z (c_timestamp a) (c_timestamp b) g step registered
           = Some True)) cs"

lemma validate_from_clean:
  "(\<forall>t \<in> seen. \<exists>p. previous = Some p \<and> t \<le> c_timestamp p) \<Longrightarrow>
   validate_from z g step registered enforce index seen previous cs = Some [] \<longleftrightarrow>
     clean_series z g step registered enforce cs \<and>
     (case (previous, cs) of
        (Some p, c # _) \<Rightarrow> c_timestamp p < c_timestamp c \<and>
          (enforce \<longrightarrow> is_expected_successor z (c_timestamp p) (c_timestamp c) g step registered
             = Some True)
      | _ \<Rightarrow> True)"
proof (induction cs arbitrary: index seen previous)
  case Nil
  then show ?case by (cases previous) (simp_all add: clean_series_def)
next
  case (Cons c cs)
  let ?ok = "\<lambda>p c. c_timestamp p < c_timestamp c \<and>
    (enforce \<longrightarrow> is_expected_successor z (c_timestamp p) (c_timestamp c) g step registered = Some True)"
  let ?ci = "candle_issues z g step registered enforce seen previous c = Some []"
  have fresh: "(case previous of None \<Rightarrow> True | Some p \<Rightarrow> c_timestamp p < c_timestamp c)
      \<Longrightarrow> c_timestamp c \<notin> seen"
    using Cons.prems by fastforce
  have sc: "clean_series z g step registered enforce (c # cs) \<longleftrightarrow>
      well_formed_candle c \<and>
      (registered \<and> g \<in> {GD, GW} \<longrightarrow> has_registered_alignment z (c_timestamp c) g) \<and>
      (case cs of [] \<Rightarrow> True | d # _ \<Rightarrow> ?ok c d) \<and> clean_series z g step registered enforce cs"
    by (cases cs) (auto simp: clean_series_def)
  show ?case
  proof (cases "case previous of None \<Rightarrow> True | Some p \<Rightarrow> ?ok p c")
    case False
    then show ?thesis
      by (subst validate_from_Nil) (auto simp: candle_issues_Nil split: option.splits)
  next
    case ok: True
    then have seen': "\<forall>t \<in> insert (c_timestamp c) seen. \<exists>p. Some c = Some p \<and> t \<le> c_timestamp p"
      using Cons.prems by (fastforce split: option.splits)
    from ok have ci: "?ci \<longleftrightarrow> well_formed_candle c \<and>
        (registered \<and> g \<in> {GD, GW} \<longrightarrow> has_registered_alignment z (c_timestamp c) g)"
      using fresh by (subst candle_issues_Nil) (auto split: option.splits)
    have "validate_from z g step registered enforce index seen previous (c # cs) = Some [] \<longleftrightarrow>
        ?ci \<and> validate_from z g step registered enforce (Suc index)
          (insert (c_timestamp c) seen) (Some c) cs = Some []"
      by (subst validate_from_Nil) simp
    also have "\<dots> \<longleftrightarrow> clean_series z g step registered enforce (c # cs)"
      unfolding ci sc Cons.IH [OF seen'] by (cases cs) auto
    finally show ?thesis using ok by (auto split: option.splits)
  qed
qed

lemma validate_candles_Nil_iff:
  "validate_candles z cs g registered enforce = Some [] \<longleftrightarrow>
     (\<exists>step. registered_step g = Some step \<and> clean_series z g step registered enforce cs)"
  using validate_from_clean [of "{}" None z g _ registered enforce 0 cs]
  by (auto simp: validate_candles_def split: option.splits)

section \<open>Property\<close>

text \<open>An empty report means exactly a clean series: every candle complete, with a volume that is
  not negative, consistent prices on both sides and no crossed quote, on the registered session
  where one applies, and the timestamps strictly increasing, each the expected successor of the
  one before when completeness is enforced. Nothing else passes.\<close>

lemma empty_report_is_clean_series:
  "validate_candles z cs g registered enforce = Some [] \<longleftrightarrow>
     (\<exists>step. registered_step g = Some step \<and> clean_series z g step registered enforce cs)"
  by (rule validate_candles_Nil_iff)

end
