(* ===== verification/Canonical.thy ===== *)
theory Canonical
  imports Decimals
begin

text \<open>
  \<^verbatim>\<open>market/state/canonical.py\<close>: the stable fixed-point text of a Decimal, and the reader
  \<^verbatim>\<open>Decimal(text)\<close> for the texts it writes. Payloads keep prices as such texts, and later
  stages read them back, so the pair must be a round trip to the quantum.
\<close>

definition digit :: "nat \<Rightarrow> char" where
  [model_defs]: "digit d = char_of (48 + d)"

definition digit_val :: "char \<Rightarrow> nat" where
  [model_defs]: "digit_val c = of_char c - 48"

definition is_digit :: "char \<Rightarrow> bool" where
  [model_defs]: "is_digit c \<longleftrightarrow> 48 \<le> (of_char c :: nat) \<and> (of_char c :: nat) \<le> 57"

fun show_nat :: "nat \<Rightarrow> string" where
  "show_nat n = (if n < 10 then [digit n] else show_nat (n div 10) @ [digit (n mod 10)])"

declare show_nat.simps [simp del]

fun frac_digits :: "nat \<Rightarrow> nat \<Rightarrow> string" where
  "frac_digits 0 m = []"
| "frac_digits (Suc n) m = frac_digits n (m div 10) @ [digit (m mod 10)]"

text \<open>\<^verbatim>\<open>format(Decimal(value).quantize(quantum, ROUND_HALF_EVEN), "f")\<close> for the quantum of
  \<open>n\<close> decimals. A negative value that rounds to zero keeps its sign, as in Python.\<close>

definition show_fixed :: "nat \<Rightarrow> nat \<Rightarrow> string" where
  [model_defs]: "show_fixed n c =
     show_nat (c div 10 ^ n) @ (if n = 0 then [] else CHR ''.'' # frac_digits n (c mod 10 ^ n))"

definition format_decimal :: "nat \<Rightarrow> decimal \<Rightarrow> string" where
  [model_defs]: "format_decimal n x =
     (if x < 0 then ''-'' else []) @ show_fixed n (nat \<bar>round_half_even (x * 10 ^ n)\<bar>)"

definition digits_val :: "string \<Rightarrow> nat" where
  [model_defs]: "digits_val s = foldl (\<lambda>a c. 10 * a + digit_val c) 0 s"

text \<open>\<^verbatim>\<open>Decimal(text)\<close> for an optional sign, digits, and an optional fraction; any other
  text raises, here \<open>None\<close>.\<close>

definition parse_unsigned :: "string \<Rightarrow> decimal option" where
  [model_defs]: "parse_unsigned s =
     (let whole = takeWhile is_digit s; rest = dropWhile is_digit s
      in if whole = [] then None
         else case rest of
             [] \<Rightarrow> Some (of_nat (digits_val whole))
           | c # fs \<Rightarrow>
               if c = CHR ''.'' \<and> list_all is_digit fs
               then Some (of_nat (digits_val whole) + of_nat (digits_val fs) / 10 ^ length fs)
               else None)"

definition parse_decimal :: "string \<Rightarrow> decimal option" where
  [model_defs]: "parse_decimal s =
     (case s of
        [] \<Rightarrow> None
      | c # cs \<Rightarrow> if c = CHR ''-'' then map_option uminus (parse_unsigned cs) else parse_unsigned s)"

lemma of_char_digit: "d < 10 \<Longrightarrow> (of_char (digit d) :: nat) = 48 + d"
  by (simp add: digit_def of_char_of take_bit_nat_def)

lemma digit_val_digit [simp]: "d < 10 \<Longrightarrow> digit_val (digit d) = d"
  by (simp add: digit_val_def of_char_digit)

lemma is_digit_digit [simp]: "d < 10 \<Longrightarrow> is_digit (digit d)"
  by (simp add: is_digit_def of_char_digit)

lemma digits_val_snoc [simp]: "digits_val (s @ [c]) = 10 * digits_val s + digit_val c"
  by (simp add: digits_val_def)

lemma digits_val_Nil [simp]: "digits_val [] = 0"
  by (simp add: digits_val_def)

lemma show_nat_digits: "show_nat n \<noteq> [] \<and> list_all is_digit (show_nat n)"
proof (induction n rule: show_nat.induct)
  case (1 n)
  then show ?case by (cases "n < 10") (simp_all add: show_nat.simps [of n])
qed

lemma show_nat_val: "digits_val (show_nat n) = n"
proof (induction n rule: show_nat.induct)
  case (1 n)
  show ?case
  proof (cases "n < 10")
    case True
    then show ?thesis using digits_val_snoc [of "[]" "digit n"]
      by (simp add: show_nat.simps [of n])
  next
    case False
    then show ?thesis using 1 by (simp add: show_nat.simps [of n])
  qed
qed

lemma frac_digits_length [simp]: "length (frac_digits n m) = n"
  by (induction n m rule: frac_digits.induct) simp_all

lemma frac_digits_digits: "list_all is_digit (frac_digits n m)"
  by (induction n m rule: frac_digits.induct) simp_all

lemma frac_digits_val: "m < 10 ^ n \<Longrightarrow> digits_val (frac_digits n m) = m"
proof (induction n m rule: frac_digits.induct)
  case (2 n m)
  then have "m div 10 < 10 ^ n" by (simp add: less_mult_imp_div_less)
  with 2 show ?case by simp
qed simp

lemma not_digit [simp]: "\<not> is_digit CHR ''.''" "\<not> is_digit CHR ''-''"
  by (simp_all add: is_digit_def)

lemma takeWhile_digits: "list_all is_digit s \<Longrightarrow> takeWhile is_digit s = s \<and> dropWhile is_digit s = []"
  by (induction s) auto

lemma span_digits:
  "list_all is_digit s \<Longrightarrow> takeWhile is_digit (s @ CHR ''.'' # t) = s \<and>
     dropWhile is_digit (s @ CHR ''.'' # t) = CHR ''.'' # t"
  by (induction s) auto

lemma parse_unsigned_show_fixed: "parse_unsigned (show_fixed n c) = Some (of_nat c / 10 ^ n)"
proof (cases "n = 0")
  case True
  then show ?thesis
    using show_nat_digits [of c]
    by (simp add: show_fixed_def parse_unsigned_def takeWhile_digits show_nat_val Let_def)
next
  case False
  have "(of_nat c :: rat) = of_nat (c div 10 ^ n * 10 ^ n + c mod 10 ^ n)"
    by (simp only: div_mult_mod_eq)
  then have "of_nat (c div 10 ^ n) + of_nat (c mod 10 ^ n) / 10 ^ n = (of_nat c / 10 ^ n :: rat)"
    by (simp only: of_nat_add of_nat_mult) (simp add: add_divide_distrib)
  then show ?thesis
    using False show_nat_digits [of "c div 10 ^ n"]
    by (simp add: show_fixed_def parse_unsigned_def span_digits show_nat_val frac_digits_val
        frac_digits_digits Let_def)
qed

lemma hd_show_fixed: "\<exists>c cs. show_fixed n m = c # cs \<and> c \<noteq> CHR ''-''"
  using show_nat_digits [of "m div 10 ^ n"]
  by (cases "show_nat (m div 10 ^ n)") (auto simp: show_fixed_def)

lemma parse_format: "parse_decimal (format_decimal n x) = Some (quantize n x)"
proof (cases "x < 0")
  case True
  then have "x * 10 ^ n \<le> 0" by (simp add: mult_nonpos_nonneg)
  then have "round_half_even (x * 10 ^ n) \<le> 0"
    using round_half_even_mono [of "x * 10 ^ n" 0] by simp
  then show ?thesis using True
    by (simp add: format_decimal_def parse_decimal_def quantize_def parse_unsigned_show_fixed)
next
  case False
  then have "0 \<le> round_half_even (x * 10 ^ n)" by (simp add: round_half_even_nonneg)
  moreover obtain c cs where "show_fixed n (nat (round_half_even (x * 10 ^ n))) = c # cs" "c \<noteq> CHR ''-''"
    using hd_show_fixed by blast
  ultimately show ?thesis using False
      parse_unsigned_show_fixed [of n "nat (round_half_even (x * 10 ^ n))"]
    by (simp add: format_decimal_def parse_decimal_def quantize_def)
qed

section \<open>Property\<close>

text \<open>The printed text of a decimal reads back as the decimal rounded half-even to the printed
  digits, which is within half a unit of the last digit of the decimal itself; so a price stored
  as text loses nothing but the digits that were not printed.\<close>

lemma price_text_roundtrip:
  "parse_decimal (format_decimal n x) = Some (quantize n x) \<and> \<bar>quantize n x - x\<bar> \<le> 1 / (2 * 10 ^ n)"
  by (simp add: parse_format quantize_error)

end
