(* ===== verification/Features.thy ===== *)
theory Features
  imports Calendar Canonical
begin

text \<open>
  \<^verbatim>\<open>market/state/features.py\<close>: the higher-timeframe descriptive features over a chronological
  list of midpoint bars. Every feature is a pure function of the list; the theorems about
  it are functional (what is reported, on every branch) and causal (what later bars cannot
  change). Decimal arithmetic runs in the default context, \<open>rnd28\<close>; printed prices are the
  texts of \<open>format_decimal\<close>; instants printed by \<^verbatim>\<open>_iso\<close> are kept as instants. The version
  text that every result carries is a constant of the feature and is left out.
\<close>

record bar =
  timestamp :: instant
  b_open :: decimal
  b_high :: decimal
  b_low :: decimal
  b_close :: decimal
  end_at :: "instant option"
  b_spread :: "decimal option"
  gran :: granularity
  observed_at :: "instant option"
  revision :: int
  content_sha :: string

definition end_or_start :: "bar \<Rightarrow> instant" where
  [model_defs]: "end_or_start b = (case end_at b of None \<Rightarrow> timestamp b | Some e \<Rightarrow> e)"

definition available_at :: "bar \<Rightarrow> instant" where
  [model_defs]: "available_at b =
     observation_available_at (end_or_start b)
       (case observed_at b of None \<Rightarrow> timestamp b | Some t \<Rightarrow> t) None"

definition bars_are_consecutive :: "zone \<Rightarrow> bar \<Rightarrow> bar \<Rightarrow> bool" where
  [model_defs]: "bars_are_consecutive z earlier later =
     (if gran earlier \<noteq> NoGran \<and> gran earlier = gran later then
        (if gran earlier = GM
         then month_index (to_local z (timestamp later)) = month_index (to_local z (timestamp earlier)) + 1
         else registered_successor z (timestamp earlier) (gran earlier) = Some (timestamp later))
      else (case end_at earlier of None \<Rightarrow> True | Some e \<Rightarrow> e = timestamp later))"

definition contiguous :: "zone \<Rightarrow> bar list \<Rightarrow> bool" where
  [model_defs]: "contiguous z bars = adjacent_all (bars_are_consecutive z) bars"

text \<open>A feature result: \<^verbatim>\<open>state: unavailable\<close> with its reason code, or the available value.\<close>

datatype 'a feature = Unavailable string | Available 'a

fun is_available :: "'a feature \<Rightarrow> bool" where
  "is_available (Available _) = True"
| "is_available (Unavailable _) = False"

section \<open>Swings\<close>

datatype swing_kind = HighSwing | LowSwing

text \<open>The sort key compares the texts \<^verbatim>\<open>"high"\<close> and \<^verbatim>\<open>"low"\<close>.\<close>

instantiation swing_kind :: linorder
begin

fun kind_rank :: "swing_kind \<Rightarrow> nat" where
  "kind_rank HighSwing = 0"
| "kind_rank LowSwing = 1"

definition less_eq_swing_kind :: "swing_kind \<Rightarrow> swing_kind \<Rightarrow> bool" where
  "less_eq_swing_kind a b = (kind_rank a \<le> kind_rank b)"

definition less_swing_kind :: "swing_kind \<Rightarrow> swing_kind \<Rightarrow> bool" where
  "less_swing_kind a b = (kind_rank a < kind_rank b)"

instance
proof
  fix a b :: swing_kind
  show "a \<le> b \<Longrightarrow> b \<le> a \<Longrightarrow> a = b"
    by (cases a; cases b) (simp_all add: less_eq_swing_kind_def)
qed (auto simp: less_eq_swing_kind_def less_swing_kind_def)

end

record swing =
  swing_index :: nat
  swing_timestamp :: instant
  swing_kind :: swing_kind
  swing_price :: decimal

definition swing_key :: "swing \<Rightarrow> nat \<times> swing_kind" where
  [model_defs]: "swing_key s = (swing_index s, swing_kind s)"

definition swing_left :: nat where [model_defs]: "swing_left = 2"
definition swing_right :: nat where [model_defs]: "swing_right = 2"
definition atr_period :: nat where [model_defs]: "atr_period = 14"

text \<open>The body of the loop of \<^verbatim>\<open>confirmed_swings\<close> at index \<open>i\<close>.\<close>

definition swings_at :: "zone \<Rightarrow> bar list \<Rightarrow> nat \<Rightarrow> nat \<Rightarrow> nat \<Rightarrow> swing list" where
  [model_defs]: "swings_at z bars left right i =
     (if \<not> contiguous z (slice (i - left) (i + right + 1) bars) then []
      else
        (let pivot = bars ! i;
             window = slice (i - left) i bars @ slice (i + 1) (i + 1 + right) bars
         in (if list_all (\<lambda>b. b_high b < b_high pivot) window
             then [\<lparr>swing_index = i, swing_timestamp = timestamp pivot, swing_kind = HighSwing,
                    swing_price = b_high pivot\<rparr>] else [])
          @ (if list_all (\<lambda>b. b_low pivot < b_low b) window
             then [\<lparr>swing_index = i, swing_timestamp = timestamp pivot, swing_kind = LowSwing,
                    swing_price = b_low pivot\<rparr>] else [])))"

definition confirmed_swings :: "zone \<Rightarrow> bar list \<Rightarrow> nat \<Rightarrow> nat \<Rightarrow> swing list" where
  [model_defs]: "confirmed_swings z bars left right =
     sort_key swing_key (concat (map (swings_at z bars left right) [left..<length bars - right]))"

record swing_row =
  row_timestamp :: instant
  row_kind :: swing_kind
  row_price :: string
  row_formed_at :: instant
  row_available_at :: instant

definition swing_feature :: "zone \<Rightarrow> bar list \<Rightarrow> swing_row list feature" where
  [model_defs]: "swing_feature z bars =
     (let swings = confirmed_swings z bars swing_left swing_right in
      if swings = [] then Unavailable ''insufficient_history''
      else Available (map (\<lambda>s.
        \<lparr>row_timestamp = swing_timestamp s, row_kind = swing_kind s,
         row_price = format_decimal 6 (swing_price s),
         row_formed_at = end_or_start (bars ! swing_index s),
         row_available_at = max_of (map available_at
           (slice (swing_index s - swing_left) (swing_index s + swing_right + 1) bars))\<rparr>) swings))"

section \<open>Trend and sequence\<close>

definition by_kind :: "swing list \<Rightarrow> swing_kind \<Rightarrow> swing list" where
  [model_defs]: "by_kind swings k = filter (\<lambda>s. swing_kind s = k) swings"

text \<open>\<^verbatim>\<open>xs[-1].price\<close> and \<^verbatim>\<open>xs[-2].price\<close>.\<close>

definition last_price :: "swing list \<Rightarrow> decimal" where
  [model_defs]: "last_price xs = swing_price (last xs)"

definition prev_price :: "swing list \<Rightarrow> decimal" where
  [model_defs]: "prev_price xs = swing_price (xs ! (length xs - 2))"

datatype trend = Uptrend | Downtrend | Range

definition trend_feature :: "zone \<Rightarrow> bar list \<Rightarrow> trend feature" where
  [model_defs]: "trend_feature z bars =
     (if \<not> contiguous z bars then Unavailable ''missing_registered_interval''
      else
        (let swings = confirmed_swings z bars swing_left swing_right;
             highs = by_kind swings HighSwing; lows = by_kind swings LowSwing in
         if length highs < 2 \<or> length lows < 2 then Unavailable ''insufficient_history''
         else
           (let higher_high = last_price highs > prev_price highs;
                higher_low = last_price lows > prev_price lows;
                lower_high = last_price highs < prev_price highs;
                lower_low = last_price lows < prev_price lows
            in Available (if higher_high \<and> higher_low then Uptrend
                          else if lower_high \<and> lower_low then Downtrend else Range))))"

datatype sequence_label =
    FirstHigh | FirstLow | EqualHigh | EqualLow | HigherHigh | LowerHigh | HigherLow | LowerLow

definition sequence_label :: "swing option \<Rightarrow> swing \<Rightarrow> sequence_label" where
  [model_defs]: "sequence_label previous s =
     (case previous of
        None \<Rightarrow> if swing_kind s = HighSwing then FirstHigh else FirstLow
      | Some p \<Rightarrow>
          if swing_price s = swing_price p
          then (if swing_kind s = HighSwing then EqualHigh else EqualLow)
          else if swing_kind s = HighSwing
          then (if swing_price s > swing_price p then HigherHigh else LowerHigh)
          else (if swing_price s > swing_price p then HigherLow else LowerLow))"

fun sequence_from :: "(swing_kind \<Rightarrow> swing option) \<Rightarrow> swing list \<Rightarrow> (instant \<times> sequence_label) list" where
  "sequence_from last_by_kind [] = []"
| "sequence_from last_by_kind (s # ss) =
     (swing_timestamp s, sequence_label (last_by_kind (swing_kind s)) s)
       # sequence_from (last_by_kind(swing_kind s := Some s)) ss"

definition sequence_feature :: "zone \<Rightarrow> bar list \<Rightarrow> (instant \<times> sequence_label) list feature" where
  [model_defs]: "sequence_feature z bars =
     (let swings = confirmed_swings z bars swing_left swing_right in
      if length swings < 2 then Unavailable ''insufficient_history''
      else Available (sequence_from (\<lambda>_. None) swings))"

section \<open>True range and ATR\<close>

definition true_range :: "bar \<Rightarrow> bar \<Rightarrow> decimal" where
  [model_defs]: "true_range previous b =
     max (rnd28 (b_high b - b_low b))
       (max \<bar>rnd28 (b_high b - b_close previous)\<bar> \<bar>rnd28 (b_low b - b_close previous)\<bar>)"

fun true_ranges :: "zone \<Rightarrow> bar list \<Rightarrow> decimal option list" where
  "true_ranges z (a # b # bs) =
     (if bars_are_consecutive z a b then Some (true_range a b) else None) # true_ranges z (b # bs)"
| "true_ranges z _ = []"

definition atr_at :: "decimal option list \<Rightarrow> nat \<Rightarrow> nat \<Rightarrow> decimal option" where
  [model_defs]: "atr_at ranges end_index period =
     (if end_index + 1 < period then None
      else
        (let window = slice (end_index + 1 - period) (end_index + 1) ranges in
         if None \<in> set window then None
         else Some (rnd28 (py_sum rnd28 (map the window) / of_nat period))))"

definition current_atr :: "zone \<Rightarrow> bar list \<Rightarrow> nat \<Rightarrow> decimal option" where
  [model_defs]: "current_atr z bars period =
     (let ranges = true_ranges z bars in
      if ranges = [] then None else atr_at ranges (length ranges - 1) period)"

definition atr_feature :: "zone \<Rightarrow> bar list \<Rightarrow> nat \<Rightarrow> string feature" where
  [model_defs]: "atr_feature z bars period =
     (case current_atr z bars period of
        None \<Rightarrow> Unavailable ''insufficient_history''
      | Some a \<Rightarrow> Available (format_decimal 6 a))"

definition atr_at_index :: "zone \<Rightarrow> bar list \<Rightarrow> nat \<Rightarrow> nat \<Rightarrow> decimal option" where
  [model_defs]: "atr_at_index z bars index period =
     (let ranges = true_ranges z (slice (index - period) (index + 1) bars) in
      if ranges = [] then None else atr_at ranges (length ranges - 1) period)"

section \<open>Volatility percentile and regime\<close>

record percentile_row =
  pct_atr :: string
  pct_value :: string
  pct_population :: nat

definition volatility_percentile_feature ::
  "zone \<Rightarrow> bar list \<Rightarrow> nat \<Rightarrow> nat \<Rightarrow> nat \<Rightarrow> percentile_row feature" where
  [model_defs]: "volatility_percentile_feature z bars period population min_population =
     (let ranges = true_ranges z bars in
      case current_atr z bars period of
        None \<Rightarrow> Unavailable ''insufficient_history''
      | Some current \<Rightarrow>
          (let prior = last_n population
                 (map the (filter (\<lambda>a. a \<noteq> None)
                   (map (\<lambda>e. atr_at ranges e period) [period - 1..<length ranges - 1]))) in
           if length prior < min_population then Unavailable ''insufficient_history''
           else
             (let smaller = length (filter (\<lambda>a. a < current) prior);
                  percentile = rnd28 (rnd28 (of_nat smaller / of_nat (length prior)) * 100)
              in Available \<lparr>pct_atr = format_decimal 6 current,
                            pct_value = format_decimal 2 percentile,
                            pct_population = length prior\<rparr>)))"

datatype regime = Compression | Normal | Expansion

definition compression_pctl :: decimal where [model_defs]: "compression_pctl = 20"
definition expansion_pctl :: decimal where [model_defs]: "expansion_pctl = 80"

text \<open>The regime reads the printed percentile back; \<open>parse_format\<close> gives its value.\<close>

definition volatility_regime_feature :: "zone \<Rightarrow> bar list \<Rightarrow> regime feature" where
  [model_defs]: "volatility_regime_feature z bars =
     (case volatility_percentile_feature z bars atr_period 100 20 of
        Unavailable r \<Rightarrow> Unavailable r
      | Available row \<Rightarrow>
          (let v = the (parse_decimal (pct_value row)) in
           Available (if v < compression_pctl then Compression
                      else if v > expansion_pctl then Expansion else Normal)))"

section \<open>Swings: order, characterisation, causality\<close>

lemma swings_at_index: "s \<in> set (swings_at z bars left right i) \<Longrightarrow> swing_index s = i"
  by (auto simp: swings_at_def Let_def split: if_splits)

lemma sorted_swings_at: "sorted (map swing_key (swings_at z bars left right i))"
  by (simp add: swings_at_def swing_key_def Let_def less_eq_prod_def less_eq_swing_kind_def)

text \<open>The loop already emits the swings in key order, so the final sort changes nothing.\<close>

lemma confirmed_swings_unsorted:
  "confirmed_swings z bars left right =
     concat (map (swings_at z bars left right) [left..<length bars - right])"
  unfolding confirmed_swings_def
  by (intro sort_key_id_if_sorted concat_map_upt_sorted)
     (auto simp: sorted_swings_at swing_key_def dest: swings_at_index)

lemma swings_at_append:
  "i + right < length bars \<Longrightarrow>
     swings_at z (bars @ later) left right i = swings_at z bars left right i"
  by (simp add: swings_at_def nth_append)

lemma confirmed_swings_in_range:
  "s \<in> set (confirmed_swings z bars left right) \<Longrightarrow>
     left \<le> swing_index s \<and> swing_index s + right < length bars"
  by (auto simp: confirmed_swings_unsorted dest!: swings_at_index)

lemma confirmed_swings_sorted: "sorted (map swing_key (confirmed_swings z bars left right))"
  by (simp add: confirmed_swings_def)

lemma filter_swings_at:
  "filter (\<lambda>s. Q (swing_index s)) (swings_at z bars left right i)
     = (if Q i then swings_at z bars left right i else [])"
  using swings_at_index by (fastforce simp: filter_id_conv filter_empty_conv)

lemma confirmed_swings_append:
  "filter (\<lambda>s. swing_index s + right < length bars) (confirmed_swings z (bars @ later) left right)
     = confirmed_swings z bars left right"
proof -
  let ?n = "length bars - right" and ?m = "length (bars @ later) - right"
  have Q: "i + right < length bars \<longleftrightarrow> i < ?n" for i by arith
  have "filter (\<lambda>s. swing_index s < ?n) (confirmed_swings z (bars @ later) left right)
      = concat (map (\<lambda>i. if i < ?n then swings_at z (bars @ later) left right i else []) [left..<?m])"
    by (simp only: confirmed_swings_unsorted filter_concat_map
        filter_swings_at [where Q = "\<lambda>i. i < ?n"])
  also have "\<dots> = concat (map (swings_at z (bars @ later) left right) [left..<min ?n ?m])"
    by (simp only: concat_map_if filter_upt_less)
  also have "\<dots> = concat (map (swings_at z bars left right) [left..<?n])"
    by (intro arg_cong [of _ _ concat] map_cong) (auto simp: swings_at_append)
  finally show ?thesis by (simp only: confirmed_swings_unsorted Q)
qed

text \<open>What a confirmed swing is, without the loop.\<close>

definition strict_extreme :: "bar list \<Rightarrow> nat \<Rightarrow> nat \<Rightarrow> nat \<Rightarrow> swing_kind \<Rightarrow> bool" where
  "strict_extreme bars left right i k \<longleftrightarrow>
     (\<forall>j. i - left \<le> j \<and> j \<le> i + right \<and> j \<noteq> i \<longrightarrow>
        (case k of HighSwing \<Rightarrow> b_high (bars ! j) < b_high (bars ! i)
         | LowSwing \<Rightarrow> b_low (bars ! i) < b_low (bars ! j)))"

lemma window_extreme:
  assumes "left \<le> i" "i + right < length bars"
  shows "list_all P (slice (i - left) i bars @ slice (i + 1) (i + 1 + right) bars) \<longleftrightarrow>
     (\<forall>j. i - left \<le> j \<and> j \<le> i + right \<and> j \<noteq> i \<longrightarrow> P (bars ! j))"
proof -
  have "{j. i - left \<le> j \<and> j \<le> i + right \<and> j \<noteq> i} = {i - left..<i} \<union> {i + 1..<i + 1 + right}"
    by auto
  moreover have "list_all P (slice (i - left) i bars @ slice (i + 1) (i + 1 + right) bars) \<longleftrightarrow>
      (\<forall>j \<in> {i - left..<i} \<union> {i + 1..<i + 1 + right}. P (bars ! j))"
    using assms by (simp add: slice_eq_map list_all_iff ball_Un del: upt_Suc)
  ultimately show ?thesis by blast
qed

lemma swings_at_iff:
  assumes "left \<le> i" "i + right < length bars"
  shows "s \<in> set (swings_at z bars left right i) \<longleftrightarrow>
     contiguous z (slice (i - left) (i + right + 1) bars) \<and> swing_index s = i \<and>
     swing_timestamp s = timestamp (bars ! i) \<and>
     strict_extreme bars left right i (swing_kind s) \<and>
     swing_price s = (case swing_kind s of HighSwing \<Rightarrow> b_high (bars ! i) | LowSwing \<Rightarrow> b_low (bars ! i))"
  using window_extreme [OF assms, of "\<lambda>b. b_high b < b_high (bars ! i)"]
    window_extreme [OF assms, of "\<lambda>b. b_low (bars ! i) < b_low b"]
  by (cases s; cases "swing_kind s") (auto simp: swings_at_def strict_extreme_def Let_def)

lemma confirmed_swings_iff:
  "s \<in> set (confirmed_swings z bars left right) \<longleftrightarrow>
     left \<le> swing_index s \<and> swing_index s + right < length bars \<and>
     contiguous z (slice (swing_index s - left) (swing_index s + right + 1) bars) \<and>
     swing_timestamp s = timestamp (bars ! swing_index s) \<and>
     strict_extreme bars left right (swing_index s) (swing_kind s) \<and>
     swing_price s = (case swing_kind s of HighSwing \<Rightarrow> b_high (bars ! swing_index s)
       | LowSwing \<Rightarrow> b_low (bars ! swing_index s))" (is "?L \<longleftrightarrow> ?R")
proof -
  have "?L \<longleftrightarrow> (\<exists>i \<in> {left..<length bars - right}. s \<in> set (swings_at z bars left right i))"
    by (auto simp: confirmed_swings_unsorted)
  also have "\<dots> \<longleftrightarrow> ?R"
    by (auto simp: swings_at_iff dest: swings_at_index intro!: bexI [of _ "swing_index s"])
  finally show ?thesis .
qed

section \<open>ATR: sign and causality\<close>

lemma true_range_nonneg: "0 \<le> true_range a b"
  by (simp add: true_range_def le_max_iff_disj)

lemma true_ranges_nonneg: "Some r \<in> set (true_ranges z bars) \<Longrightarrow> 0 \<le> r"
  by (induction z bars rule: true_ranges.induct) (auto simp: true_range_nonneg split: if_splits)

lemma length_true_ranges [simp]: "length (true_ranges z bars) = length bars - 1"
  by (induction z bars rule: true_ranges.induct) auto

lemma atr_at_nonneg:
  assumes "atr_at ranges e period = Some a" "\<forall>r. Some r \<in> set ranges \<longrightarrow> 0 \<le> r"
  shows "0 \<le> a"
proof -
  let ?w = "slice (e + 1 - period) (e + 1) ranges"
  have w: "None \<notin> set ?w" "a = rnd28 (py_sum rnd28 (map the ?w) / of_nat period)"
    using assms(1) by (auto simp: atr_at_def Let_def split: if_splits)
  have "0 \<le> r" if "r \<in> set (map the ?w)" for r
  proof -
    from that obtain x where x: "x \<in> set ?w" "r = the x" by auto
    then have "x = Some r" using w(1) by (metis option.exhaust_sel)
    then show ?thesis using assms(2) x(1) set_slice [of _ _ ranges] by blast
  qed
  then have "0 \<le> py_sum rnd28 (map the ?w)"
    by (intro ctx28.sum_from_nonneg) auto
  then show ?thesis by (simp add: w(2))
qed

lemma atr_at_index_nonneg: "atr_at_index z bars i period = Some a \<Longrightarrow> 0 \<le> a"
  by (auto simp: atr_at_index_def Let_def split: if_splits
      elim!: atr_at_nonneg dest: true_ranges_nonneg)

lemma current_atr_nonneg: "current_atr z bars period = Some a \<Longrightarrow> 0 \<le> a"
  by (auto simp: current_atr_def Let_def split: if_splits
      elim!: atr_at_nonneg dest: true_ranges_nonneg)

lemma atr_at_index_append:
  "i < length bars \<Longrightarrow> atr_at_index z (bars @ later) i period = atr_at_index z bars i period"
  by (simp add: atr_at_index_def)

section \<open>Properties\<close>

text \<open>A bar is reported as a confirmed swing exactly when it is the strict extreme of its full
  window of contiguous registered bars, with the price and timestamp of that bar.\<close>

lemma swings_are_strict_extremes:
  "s \<in> set (confirmed_swings z bars left right) \<longleftrightarrow>
     left \<le> swing_index s \<and> swing_index s + right < length bars \<and>
     contiguous z (slice (swing_index s - left) (swing_index s + right + 1) bars) \<and>
     swing_timestamp s = timestamp (bars ! swing_index s) \<and>
     strict_extreme bars left right (swing_index s) (swing_kind s) \<and>
     swing_price s = (case swing_kind s of HighSwing \<Rightarrow> b_high (bars ! swing_index s)
       | LowSwing \<Rightarrow> b_low (bars ! swing_index s))"
  by (rule confirmed_swings_iff)

text \<open>Swings are causal: later bars neither remove, change nor reorder a confirmed swing; the
  swings of a longer history that were already confirmable are exactly the earlier list.\<close>

lemma swings_are_causal:
  "filter (\<lambda>s. swing_index s + right < length bars) (confirmed_swings z (bars @ later) left right)
     = confirmed_swings z bars left right"
  by (rule confirmed_swings_append)

definition sample_bar :: "instant \<Rightarrow> decimal \<Rightarrow> decimal \<Rightarrow> decimal \<Rightarrow> decimal \<Rightarrow> bar" where
  [model_defs]: "sample_bar t first high low final =
     \<lparr>timestamp = t, b_open = first, b_high = high, b_low = low, b_close = final, end_at = Some (t + 1),
      b_spread = Some 1, gran = NoGran, observed_at = Some t, revision = 1, content_sha = ''''\<rparr>"

end
