(* ===== verification/Regimes.thy ===== *)
theory Regimes
  imports Features
begin

text \<open>
  The second half of \<^verbatim>\<open>market/state/features.py\<close>: compression before expansion, equilibrium,
  persistence, break of structure, change of character, and the assembled block.
\<close>

section \<open>Compression before expansion\<close>

text \<open>One cited interval of a transition's dependencies.\<close>

record source_interval =
  src_granularity :: granularity
  src_timestamp :: instant
  src_revision :: int
  src_sha :: string

definition source_interval_of :: "bar \<Rightarrow> source_interval" where
  [model_defs]: "source_interval_of b =
     \<lparr>src_granularity = gran b, src_timestamp = timestamp b, src_revision = revision b,
      src_sha = content_sha b\<rparr>"

datatype move = Up | Down

record transition =
  compression_at :: instant
  compression_available_at :: instant
  compression_percentile :: string
  expansion_percentile :: string
  successor_count :: nat
  tr_formed_at :: instant
  tr_available_at :: instant
  tr_direction :: move
  body_atr :: string
  source_intervals :: "source_interval list"

text \<open>The loop variables: the transitions found, the pending compression (its index, the start
  of its dependencies, its percentile), and whether any index had sufficient history.\<close>

record transition_state =
  found :: "transition list"
  pending :: "(nat \<times> nat \<times> decimal) option"
  sufficient :: bool

definition vol_population :: nat where [model_defs]: "vol_population = 100"
definition vol_min_population :: nat where [model_defs]: "vol_min_population = 20"
definition transition_window :: nat where [model_defs]: "transition_window = 20"
definition transition_body_atr :: decimal where [model_defs]: "transition_body_atr = 3 / 2"

definition avail_max :: "bar list \<Rightarrow> instant" where
  [model_defs]: "avail_max bs = max_of (map available_at bs)"

definition make_transition ::
  "bar list \<Rightarrow> nat \<Rightarrow> nat \<Rightarrow> nat \<times> nat \<times> decimal \<Rightarrow> decimal \<Rightarrow> decimal \<Rightarrow> decimal \<Rightarrow> transition" where
  [model_defs]: "make_transition bars i start pend percentile body magnitude =
     (let (compressed, dependency_start, compressed_percentile) = pend;
          dependencies = slice (min start dependency_start) (i + 1) bars
      in \<lparr>compression_at = end_or_start (bars ! compressed),
          compression_available_at = avail_max (slice dependency_start (compressed + 1) bars),
          compression_percentile = format_decimal 6 compressed_percentile,
          expansion_percentile = format_decimal 6 percentile,
          successor_count = i - compressed,
          tr_formed_at = end_or_start (bars ! i),
          tr_available_at = avail_max dependencies,
          tr_direction = (if 0 < body then Up else Down),
          body_atr = format_decimal 6 magnitude,
          source_intervals = map source_interval_of dependencies\<rparr>)"

text \<open>A pending compression older than the window is dropped.\<close>

definition expire_pending :: "nat \<Rightarrow> (nat \<times> nat \<times> decimal) option \<Rightarrow> (nat \<times> nat \<times> decimal) option" where
  [model_defs]: "expire_pending i pend =
     (case pend of
        None \<Rightarrow> None
      | Some pd \<Rightarrow> if i - fst pd > transition_window then None else Some pd)"

definition causal_percentile :: "decimal \<Rightarrow> decimal list \<Rightarrow> decimal" where
  [model_defs]: "causal_percentile current prior =
     rnd28 (rnd28 (of_nat (length (filter (\<lambda>a. a < current) prior)) * 100) / of_nat (length prior))"

definition body_magnitude :: "decimal \<Rightarrow> decimal list \<Rightarrow> decimal" where
  [model_defs]: "body_magnitude body prior =
     (if last prior \<noteq> 0 then rnd28 (\<bar>body\<bar> / last prior) else 0)"

text \<open>The part of the loop body after the percentile is known; \<open>build\<close> builds the record.\<close>

definition settle_percentile ::
  "nat \<Rightarrow> nat \<Rightarrow> decimal \<Rightarrow> decimal \<Rightarrow> decimal
     \<Rightarrow> (nat \<times> nat \<times> decimal \<Rightarrow> transition) \<Rightarrow> transition_state \<Rightarrow> transition_state" where
  [model_defs]: "settle_percentile i start percentile body magnitude build st =
     (let pend = expire_pending i (pending st) in
      if percentile < compression_pctl
      then st\<lparr>sufficient := True, pending := Some (i, start, percentile)\<rparr>
      else case pend of
          None \<Rightarrow> st\<lparr>sufficient := True, pending := None\<rparr>
        | Some pd \<Rightarrow>
            (if percentile \<le> expansion_pctl then st\<lparr>sufficient := True, pending := Some pd\<rparr>
             else if magnitude < transition_body_atr \<or> body = 0
             then st\<lparr>sufficient := True, pending := Some pd\<rparr>
             else st\<lparr>sufficient := True, found := found st @ [build pd], pending := None\<rparr>))"

definition transition_step :: "zone \<Rightarrow> bar list \<Rightarrow> nat \<Rightarrow> transition_state \<Rightarrow> transition_state" where
  [model_defs]: "transition_step z bars i st =
     (let start = i - atr_period - vol_population in
      if \<not> contiguous z (slice start (i + 1) bars) then st\<lparr>pending := None\<rparr>
      else
        (let prior = map (\<lambda>j. atr_at_index z bars j atr_period)
                       [max atr_period (i - vol_population)..<i] in
         case atr_at_index z bars i atr_period of
           None \<Rightarrow> st
         | Some current \<Rightarrow>
             (if current = 0 \<or> length prior < vol_min_population \<or> None \<in> set prior then st
              else
                (let atrs = map the prior;
                     percentile = causal_percentile current atrs;
                     body = rnd28 (b_close (bars ! i) - b_open (bars ! i));
                     magnitude = body_magnitude body atrs
                 in settle_percentile i start percentile body magnitude
                      (\<lambda>pd. make_transition bars i start pd percentile body magnitude) st))))"

definition transition_init :: transition_state where
  [model_defs]: "transition_init = \<lparr>found = [], pending = None, sufficient = False\<rparr>"

definition transition_run :: "zone \<Rightarrow> bar list \<Rightarrow> transition_state" where
  [model_defs]: "transition_run z bars =
     fold (transition_step z bars) [atr_period + vol_min_population..<length bars] transition_init"

record pending_compression =
  pc_formed_at :: instant
  pc_available_at :: instant
  pc_elapsed :: nat
  pc_percentile :: string

definition pending_row :: "bar list \<Rightarrow> nat \<times> nat \<times> decimal \<Rightarrow> pending_compression" where
  [model_defs]: "pending_row bars pd =
     (case pd of (p, d, q) \<Rightarrow>
        \<lparr>pc_formed_at = end_or_start (bars ! p), pc_available_at = avail_max (slice d (p + 1) bars),
         pc_elapsed = length bars - 1 - p, pc_percentile = format_decimal 6 q\<rparr>)"

datatype transition_result =
    TransitionUnavailable string
  | TransitionConfirmed "transition list" "pending_compression option"
  | TransitionPending pending_compression
  | TransitionAbsent

definition compression_before_expansion :: "zone \<Rightarrow> bar list \<Rightarrow> transition_result" where
  [model_defs]: "compression_before_expansion z bars =
     (let st = transition_run z bars in
      if \<not> sufficient st
      then TransitionUnavailable (if bars \<noteq> [] \<and> \<not> contiguous z bars
             then ''missing_registered_interval'' else ''insufficient_history'')
      else if found st \<noteq> []
      then TransitionConfirmed (found st) (map_option (pending_row bars) (pending st))
      else case pending st of
          Some pd \<Rightarrow> TransitionPending (pending_row bars pd)
        | None \<Rightarrow> TransitionAbsent)"

section \<open>Equilibrium and persistence\<close>

record equilibrium =
  eq_range_low :: string
  eq_range_high :: string
  eq_midpoint :: string
  eq_distance_price :: string
  eq_distance_atr :: "string feature"

text \<open>\<^verbatim>\<open>bars[-1]\<close> is only reached when a swing exists, so the list is not empty.\<close>

definition equilibrium_feature :: "zone \<Rightarrow> bar list \<Rightarrow> equilibrium feature" where
  [model_defs]: "equilibrium_feature z bars =
     (let swings = confirmed_swings z bars swing_left swing_right;
          highs = by_kind swings HighSwing; lows = by_kind swings LowSwing in
      if highs = [] \<or> lows = [] then Unavailable ''insufficient_history''
      else
        (let high = last_price highs; low = last_price lows;
             midpoint = rnd28 (rnd28 (high + low) / 2);
             close = b_close (last bars);
             distance = rnd28 (close - midpoint)
         in Available
           \<lparr>eq_range_low = format_decimal 6 low, eq_range_high = format_decimal 6 high,
            eq_midpoint = format_decimal 6 midpoint, eq_distance_price = format_decimal 6 distance,
            eq_distance_atr =
              (case current_atr z bars atr_period of
                 None \<Rightarrow> Unavailable ''atr_unavailable''
               | Some a \<Rightarrow> if a = 0 then Unavailable ''atr_unavailable''
                           else Available (format_decimal 6 (rnd28 (distance / a))))\<rparr>))"

datatype bar_side = Above | Below | At

definition bar_side_of :: "decimal \<Rightarrow> bar \<Rightarrow> bar_side" where
  [model_defs]: "bar_side_of midpoint b =
     (if b_close b > midpoint then Above else if b_close b < midpoint then Below else At)"

text \<open>The loop over \<^verbatim>\<open>reversed(recent)\<close>: the count and the side.\<close>

fun persistence_loop :: "decimal \<Rightarrow> bar list \<Rightarrow> nat \<Rightarrow> bar_side option \<Rightarrow> nat \<times> bar_side option" where
  "persistence_loop midpoint [] count s = (count, s)"
| "persistence_loop midpoint (b # bs) count s =
     (let now = bar_side_of midpoint b in
      if now = At then (count, s)
      else
        (let s' = (case s of None \<Rightarrow> now | Some t \<Rightarrow> t) in
         if now \<noteq> s' then (count, Some s')
         else persistence_loop midpoint bs (count + 1) (Some s')))"

record persistence =
  consecutive_bars :: nat
  persistent_side :: bar_side

definition persistence_window :: nat where [model_defs]: "persistence_window = 20"

definition persistence_feature :: "zone \<Rightarrow> bar list \<Rightarrow> nat \<Rightarrow> persistence feature" where
  [model_defs]: "persistence_feature z bars window =
     (case equilibrium_feature z bars of
        Unavailable r \<Rightarrow> Unavailable r
      | Available e \<Rightarrow>
          (let midpoint = the (parse_decimal (eq_midpoint e)); recent = last_n window bars in
           if \<not> contiguous z recent then Unavailable ''missing_registered_interval''
           else
             (let (count, s) = persistence_loop midpoint (rev recent) 0 None
              in Available \<lparr>consecutive_bars = count,
                            persistent_side = (case s of None \<Rightarrow> At | Some t \<Rightarrow> t)\<rparr>)))"

section \<open>Break of structure and change of character\<close>

record structure_event =
  ev_structure :: trend
  ev_happened :: bool
  ev_direction :: move
  ev_level :: string
  ev_close :: string

definition directional_structure :: "zone \<Rightarrow> bar list \<Rightarrow> trend option" where
  [model_defs]: "directional_structure z bars =
     (case trend_feature z bars of
        Unavailable _ \<Rightarrow> None
      | Available t \<Rightarrow> if t = Uptrend \<or> t = Downtrend then Some t else None)"

definition break_of_structure_feature :: "zone \<Rightarrow> bar list \<Rightarrow> structure_event feature" where
  [model_defs]: "break_of_structure_feature z bars =
     (case directional_structure z bars of
        None \<Rightarrow> Unavailable ''no_established_structure''
      | Some structure \<Rightarrow>
          (let swings = confirmed_swings z bars swing_left swing_right;
               close = b_close (last bars);
               up = (structure = Uptrend);
               level = last_price (by_kind swings (if up then HighSwing else LowSwing))
           in Available \<lparr>ev_structure = structure,
                ev_happened = (if up then close > level else close < level),
                ev_direction = (if up then Up else Down),
                ev_level = format_decimal 6 level, ev_close = format_decimal 6 close\<rparr>))"

definition change_of_character_feature :: "zone \<Rightarrow> bar list \<Rightarrow> structure_event feature" where
  [model_defs]: "change_of_character_feature z bars =
     (case directional_structure z bars of
        None \<Rightarrow> Unavailable ''no_established_structure''
      | Some structure \<Rightarrow>
          (let swings = confirmed_swings z bars swing_left swing_right;
               close = b_close (last bars);
               up = (structure = Uptrend);
               level = last_price (by_kind swings (if up then LowSwing else HighSwing))
           in Available \<lparr>ev_structure = structure,
                ev_happened = (if up then close < level else close > level),
                ev_direction = (if up then Down else Up),
                ev_level = format_decimal 6 level, ev_close = format_decimal 6 close\<rparr>))"

section \<open>The assembled block\<close>

record higher_timeframe =
  ht_bar_count :: nat
  ht_swings :: "swing_row list feature"
  ht_trend :: "trend feature"
  ht_sequence :: "(instant \<times> sequence_label) list feature"
  ht_atr :: "string feature"
  ht_percentile :: "percentile_row feature"
  ht_regime :: "regime feature"
  ht_transition :: transition_result
  ht_equilibrium :: "equilibrium feature"
  ht_persistence :: "persistence feature"
  ht_bos :: "structure_event feature"
  ht_choch :: "structure_event feature"

definition higher_timeframe_context :: "zone \<Rightarrow> bar list \<Rightarrow> higher_timeframe feature" where
  "higher_timeframe_context z bars =
     (if bars = [] then Unavailable ''insufficient_history''
      else Available
        \<lparr>ht_bar_count = length bars, ht_swings = swing_feature z bars, ht_trend = trend_feature z bars,
         ht_sequence = sequence_feature z bars, ht_atr = atr_feature z bars atr_period,
         ht_percentile = volatility_percentile_feature z bars atr_period vol_population vol_min_population,
         ht_regime = volatility_regime_feature z bars,
         ht_transition = compression_before_expansion z bars,
         ht_equilibrium = equilibrium_feature z bars,
         ht_persistence = persistence_feature z bars persistence_window,
         ht_bos = break_of_structure_feature z bars,
         ht_choch = change_of_character_feature z bars\<rparr>)"

section \<open>Bounds of the percentile and the persistence count\<close>

lemma rnd28_100: "rnd28 100 = 100" "rnd28 1 = 1"
  using ctx_round_exact [of 100 100 0 28] ctx_round_exact [of 1 1 0 28] by simp_all

lemma percentile_range:
  assumes "m \<le> n" "0 < n"
  shows "0 \<le> rnd28 (rnd28 (of_nat m / of_nat n) * 100)"
    "rnd28 (rnd28 (of_nat m / of_nat n) * 100) \<le> 100"
proof -
  have "(of_nat m / of_nat n :: rat) \<le> 1" using assms by simp
  then have "rnd28 (of_nat m / of_nat n) \<le> rnd28 1" by (rule ctx28.rnd_mono)
  then have "rnd28 (of_nat m / of_nat n) * 100 \<le> 100" by (simp add: rnd28_100)
  then have "rnd28 (rnd28 (of_nat m / of_nat n) * 100) \<le> rnd28 100" by (rule ctx28.rnd_mono)
  then show "rnd28 (rnd28 (of_nat m / of_nat n) * 100) \<le> 100" by (simp add: rnd28_100)
  show "0 \<le> rnd28 (rnd28 (of_nat m / of_nat n) * 100)" by simp
qed

lemma percentile_row_bounds:
  assumes "volatility_percentile_feature z bars period population min_population = Available row"
    and "0 < min_population"
  shows "min_population \<le> pct_population row" "pct_population row \<le> population"
    "\<exists>v. parse_decimal (pct_value row) = Some v \<and> 0 \<le> v \<and> v \<le> 100"
proof -
  define prior where "prior = last_n population (map the (filter (\<lambda>a. a \<noteq> None)
    (map (\<lambda>e. atr_at (true_ranges z bars) e period) [period - 1..<length (true_ranges z bars) - 1])))"
  obtain current where cur: "current_atr z bars period = Some current"
    using assms(1) by (cases "current_atr z bars period")
      (simp_all add: volatility_percentile_feature_def Let_def)
  have f: "(if length prior < min_population then Unavailable ''insufficient_history''
      else Available \<lparr>pct_atr = format_decimal 6 current,
        pct_value = format_decimal 2 (rnd28 (rnd28
          (of_nat (length (filter (\<lambda>a. a < current) prior)) / of_nat (length prior)) * 100)),
        pct_population = length prior\<rparr>) = Available row"
    using assms(1) unfolding volatility_percentile_feature_def cur prior_def Let_def option.case .
  then have row: "pct_population row = length prior"
      "pct_value row = format_decimal 2 (rnd28 (rnd28
        (of_nat (length (filter (\<lambda>a. a < current) prior)) / of_nat (length prior)) * 100))"
    and prior: "min_population \<le> length prior"
    by (auto split: if_splits)
  have pop: "length prior \<le> population" by (simp add: prior_def last_n_def)
  show "min_population \<le> pct_population row" "pct_population row \<le> population"
    using prior row pop by simp_all
  let ?p = "rnd28 (rnd28 (of_nat (length (filter (\<lambda>a. a < current) prior)) / of_nat (length prior)) * 100)"
  have "0 < length prior" using prior assms(2) by linarith
  have "0 \<le> ?p" "?p \<le> 100"
    using percentile_range [of "length (filter (\<lambda>a. a < current) prior)" "length prior"]
      \<open>0 < length prior\<close> length_filter_le [of "\<lambda>a. a < current" prior]
    by simp_all
  then have "quantize 2 0 \<le> quantize 2 ?p" "quantize 2 ?p \<le> quantize 2 100"
    by (blast intro: quantize_mono)+
  then show "\<exists>v. parse_decimal (pct_value row) = Some v \<and> 0 \<le> v \<and> v \<le> 100"
    by (simp add: row parse_format)
qed

text \<open>The loop of the persistence count takes a maximal run on one side.\<close>

lemma persistence_loop_run:
  assumes "persistence_loop midpoint bs n s = (count, s')"
    and "s \<noteq> Some At"
  shows "\<exists>k. count = n + k \<and> k \<le> length bs \<and>
     (\<forall>i < k. s' = Some (bar_side_of midpoint (bs ! i)) \<and> bar_side_of midpoint (bs ! i) \<noteq> At) \<and>
     (k < length bs \<longrightarrow> s' \<noteq> Some (bar_side_of midpoint (bs ! k))) \<and>
     (s \<noteq> None \<longrightarrow> s' = s) \<and> (s' = None \<longrightarrow> k = 0) \<and> s' \<noteq> Some At"
  using assms
proof (induction midpoint bs n s arbitrary: count s' rule: persistence_loop.induct)
  case (2 midpoint b bs n s)
  let ?now = "bar_side_of midpoint b"
  show ?case
  proof (cases "?now = At \<or> (\<exists>t. s = Some t \<and> t \<noteq> ?now)")
    case True
    with 2(2,3) show ?thesis
      by (intro exI [of _ 0]) (auto simp: Let_def split: if_splits option.splits)
  next
    case False
    then have s: "s = None \<or> s = Some ?now" "?now \<noteq> At" by (cases s, auto)+
    then have rec: "persistence_loop midpoint bs (n + 1) (Some ?now) = (count, s')"
      using 2(2) by (auto simp: Let_def)
    from s have "\<exists>k. count = n + 1 + k \<and> k \<le> length bs \<and>
       (\<forall>i < k. s' = Some (bar_side_of midpoint (bs ! i)) \<and> bar_side_of midpoint (bs ! i) \<noteq> At) \<and>
       (k < length bs \<longrightarrow> s' \<noteq> Some (bar_side_of midpoint (bs ! k))) \<and>
       (Some ?now \<noteq> None \<longrightarrow> s' = Some ?now) \<and> (s' = None \<longrightarrow> k = 0) \<and> s' \<noteq> Some At"
      using 2(1) [OF refl _ refl _ _, of count s'] rec by (auto split: option.splits)
    then obtain k where k: "count = n + 1 + k" "k \<le> length bs" "s' = Some ?now"
      "\<forall>i < k. s' = Some (bar_side_of midpoint (bs ! i)) \<and> bar_side_of midpoint (bs ! i) \<noteq> At"
      "k < length bs \<longrightarrow> s' \<noteq> Some (bar_side_of midpoint (bs ! k))" by auto
    show ?thesis
      using k s by (intro exI [of _ "Suc k"]) (auto simp: less_Suc_eq_0_disj)
  qed
qed auto

section \<open>The compression scan is causal\<close>

definition pending_before :: "nat \<Rightarrow> transition_state \<Rightarrow> bool" where
  "pending_before i st \<longleftrightarrow> (\<forall>p d q. pending st = Some (p, d, q) \<longrightarrow> p < i)"

lemma make_transition_append:
  assumes "i < length bars" "fst pend < length bars"
  shows "make_transition (bars @ later) i start pend percentile body magnitude
    = make_transition bars i start pend percentile body magnitude"
  using assms by (cases pend) (simp add: make_transition_def nth_append)

lemma settle_percentile_cong:
  assumes "\<And>pd. pending st = Some pd \<Longrightarrow> build pd = build' pd"
  shows "settle_percentile i start percentile body magnitude build st
    = settle_percentile i start percentile body magnitude build' st"
  using assms by (simp add: settle_percentile_def expire_pending_def Let_def split: option.split)

lemma settle_percentile_pending:
  "pending_before i st \<Longrightarrow>
     pending_before (Suc i) (settle_percentile i start percentile body magnitude build st)"
  by (auto simp: settle_percentile_def expire_pending_def pending_before_def Let_def
      split: option.split if_split_asm)

lemma settle_percentile_found:
  "\<exists>extra. found (settle_percentile i start percentile body magnitude build st) = found st @ extra"
  by (simp add: settle_percentile_def Let_def split: option.split)

lemma transition_step_rule:
  assumes "P (st\<lparr>pending := None\<rparr>)" "P st" "\<And>s p b m f. P (settle_percentile i s p b m f st)"
  shows "P (transition_step z bars i st)"
  unfolding transition_step_def Let_def using assms by (simp split: option.split)

lemma transition_step_append:
  assumes "i < length bars" "pending_before i st"
  shows "transition_step z (bars @ later) i st = transition_step z bars i st"
proof -
  have m: "map (\<lambda>j. atr_at_index z (bars @ later) j atr_period) [m..<i]
      = map (\<lambda>j. atr_at_index z bars j atr_period) [m..<i]" for m
    using assms(1) by (simp add: atr_at_index_append)
  have c: "contiguous z (slice s (i + 1) (bars @ later)) = contiguous z (slice s (i + 1) bars)" for s
    using assms(1) by simp
  have n: "(bars @ later) ! i = bars ! i" using assms(1) by (simp add: nth_append)
  have eq: "settle_percentile i s p b g (\<lambda>pd. make_transition (bars @ later) i s pd p b g) st
      = settle_percentile i s p b g (\<lambda>pd. make_transition bars i s pd p b g) st" for s p b g
    using assms
    by (intro settle_percentile_cong make_transition_append) (auto simp: pending_before_def)
  show ?thesis
    unfolding transition_step_def m c n atr_at_index_append [OF assms(1)] Let_def eq ..
qed

lemma transition_step_pending: "pending_before i st \<Longrightarrow> pending_before (Suc i) (transition_step z bars i st)"
  by (rule transition_step_rule)
     (simp_all add: settle_percentile_pending, simp_all add: pending_before_def less_SucI)

lemma transition_step_found: "\<exists>extra. found (transition_step z bars i st) = found st @ extra"
  by (rule transition_step_rule) (simp_all add: settle_percentile_found)

lemma pending_before_init: "pending_before n transition_init"
  by (simp add: pending_before_def transition_init_def)

lemma transition_fold_append:
  "n \<le> length bars \<Longrightarrow>
   fold (transition_step z (bars @ later)) [m..<n] transition_init
     = fold (transition_step z bars) [m..<n] transition_init \<and>
   pending_before n (fold (transition_step z bars) [m..<n] transition_init)"
proof (induction n)
  case 0
  then show ?case by (simp add: pending_before_init)
next
  case (Suc n)
  then show ?case
    by (cases "m \<le> n")
       (simp_all add: pending_before_init transition_step_append transition_step_pending)
qed

lemma transition_fold_found: "\<exists>extra. found (fold (transition_step z bars) is st) = found st @ extra"
proof (induction "is" arbitrary: st)
  case (Cons i "is")
  obtain e where "found (transition_step z bars i st) = found st @ e"
    using transition_step_found by blast
  with Cons [of "transition_step z bars i st"] show ?case by auto
qed simp

lemma transition_run_append:
  "\<exists>extra. found (transition_run z (bars @ later)) = found (transition_run z bars) @ extra"
proof -
  let ?m = "atr_period + vol_min_population"
  let ?n = "length bars" and ?k = "length (bars @ later)"
  have "[m..<n + k] = [m..<n] @ [max m n..<n + k]" for m n k :: nat
    using upt_add_eq_append [of m n k] by (cases "m \<le> n") (simp_all add: max_def)
  from this [of ?m ?n "length later"]
  have "[?m..<?k] = [?m..<?n] @ [max ?m ?n..<?k]" by simp
  then have "transition_run z (bars @ later)
      = fold (transition_step z (bars @ later)) [max ?m ?n..<?k] (transition_run z bars)"
    using transition_fold_append [of ?n bars z later ?m] by (simp add: transition_run_def)
  then show ?thesis using transition_fold_found by metis
qed

section \<open>Properties\<close>

text \<open>A compression-expansion transition, once found, is kept unchanged whatever bars come
  later: the transitions of a longer history extend the earlier ones.\<close>

lemma transitions_are_stable:
  "\<exists>extra. found (transition_run z (bars @ later)) = found (transition_run z bars) @ extra"
  by (rule transition_run_append)

text \<open>A published volatility percentile reads back as a number between 0 and 100, over a
  population between the required minimum and the configured window.\<close>

lemma percentile_is_bounded:
  assumes "volatility_percentile_feature z bars period population min_population = Available row"
    and "0 < min_population"
  shows "min_population \<le> pct_population row \<and> pct_population row \<le> population
    \<and> (\<exists>v. parse_decimal (pct_value row) = Some v \<and> 0 \<le> v \<and> v \<le> 100)"
  using percentile_row_bounds [OF assms] by blast

definition rising_bars :: "bar list" where
  "rising_bars = [sample_bar 0 1 2 1 2, sample_bar 1 2 3 2 3, sample_bar 2 3 5 3 5]"

lemma rising_ranges: "true_ranges (fixed_zone 0) rising_bars = [Some 1, Some 2]"
  by code_simp

lemma rising_percentile:
  "volatility_percentile_feature (fixed_zone 0) rising_bars 1 5 1
     = Available \<lparr>pct_atr = format_decimal 6 2, pct_value = format_decimal 2 100, pct_population = 1\<rparr>"
proof -
  have "atr_at [Some 1, Some 2] 1 1 = Some 2" "atr_at [Some 1, Some 2] 0 1 = Some 1" by code_simp+
  then show ?thesis
    by (simp add: volatility_percentile_feature_def current_atr_def rising_ranges last_n_def Let_def rnd28_100)
qed

end
