(* ===== verification/Breakouts.thy ===== *)
theory Breakouts
  imports Regimes
begin

text \<open>
  Breakouts of a range: the opening range of a session (\<^verbatim>\<open>market/state/orb.py\<close>) and the
  consolidation of \<^verbatim>\<open>market/state/structure.py\<close>. Both look for the first completed close
  outside a range, and then scan the later bars for a retest of the broken boundary or a
  reclaim, which ends the scan; that scan is the same loop in both files and is modelled
  once, as \<open>followup\<close>.
\<close>

section \<open>The scan after a breakout\<close>

record followup =
  fu_failed :: bool
  fu_failure_at :: "instant option"
  fu_failed_at :: "instant option"
  fu_retest :: bool
  fu_retest_formed_at :: "instant option"
  fu_retest_at :: "instant option"

definition no_followup :: followup where
  [model_defs]: "no_followup =
     \<lparr>fu_failed = False, fu_failure_at = None, fu_failed_at = None, fu_retest = False,
      fu_retest_formed_at = None, fu_retest_at = None\<rparr>"

text \<open>A close back inside, and a touch of the boundary that held beyond it.\<close>

definition reclaims :: "move \<Rightarrow> decimal \<Rightarrow> bar \<Rightarrow> bool" where
  [model_defs]: "reclaims d boundary b =
     (case d of Up \<Rightarrow> b_close b \<le> boundary | Down \<Rightarrow> boundary \<le> b_close b)"

definition retests :: "move \<Rightarrow> decimal \<Rightarrow> bar \<Rightarrow> bool" where
  [model_defs]: "retests d boundary b =
     (case d of Up \<Rightarrow> b_low b \<le> boundary \<and> boundary < b_close b
      | Down \<Rightarrow> boundary \<le> b_high b \<and> b_close b < boundary)"

text \<open>\<^verbatim>\<open>setdefault\<close>: keep the first value.\<close>

definition set_default :: "'a option \<Rightarrow> 'a \<Rightarrow> 'a option" where
  [model_defs]: "set_default old new = (case old of None \<Rightarrow> Some new | Some v \<Rightarrow> Some v)"

fun scan_followup :: "move \<Rightarrow> decimal \<Rightarrow> instant \<Rightarrow> bar list \<Rightarrow> followup \<Rightarrow> followup" where
  "scan_followup d boundary avail [] st = st"
| "scan_followup d boundary avail (b # bs) st =
     (let avail' = max avail (available_at b) in
      if reclaims d boundary b
      then st\<lparr>fu_failed := True, fu_failure_at := Some (end_or_start b), fu_failed_at := Some avail'\<rparr>
      else if retests d boundary b
      then scan_followup d boundary avail' bs
             (st\<lparr>fu_retest := True,
                 fu_retest_formed_at := set_default (fu_retest_formed_at st) (end_or_start b),
                 fu_retest_at := set_default (fu_retest_at st) avail'\<rparr>)
      else scan_followup d boundary avail' bs st)"

lemma scan_followup_failed:
  "\<not> fu_failed st \<Longrightarrow>
     fu_failed (scan_followup d boundary avail bs st) \<longleftrightarrow> list_ex (reclaims d boundary) bs"
  by (induction d boundary avail bs st rule: scan_followup.induct) (auto simp: Let_def)

text \<open>Once the breakout has failed the scan is over: later bars change nothing.\<close>

lemma scan_followup_append:
  "list_ex (reclaims d boundary) bs \<Longrightarrow>
     scan_followup d boundary avail (bs @ later) st = scan_followup d boundary avail bs st"
  by (induction d boundary avail bs st rule: scan_followup.induct) (auto simp: Let_def)

lemma scan_followup_retest_kept:
  "fu_retest st \<and> fu_retest_at st = Some t \<Longrightarrow>
     fu_retest (scan_followup d boundary avail bs st) \<and>
     fu_retest_at (scan_followup d boundary avail bs st) = Some t"
  by (induction d boundary avail bs st rule: scan_followup.induct)
     (auto simp: Let_def set_default_def)

lemma scan_followup_failed_at:
  "\<not> fu_failed st \<Longrightarrow> fu_failed (scan_followup d boundary avail bs st) \<Longrightarrow>
     \<exists>i t. i < length bs \<and> reclaims d boundary (bs ! i) \<and> (\<forall>j < i. \<not> reclaims d boundary (bs ! j)) \<and>
       fu_failure_at (scan_followup d boundary avail bs st) = Some (end_or_start (bs ! i)) \<and>
       fu_failed_at (scan_followup d boundary avail bs st) = Some t \<and> avail \<le> t \<and>
       (\<forall>j \<le> i. available_at (bs ! j) \<le> t)"
proof (induction d boundary avail bs st rule: scan_followup.induct)
  case (2 d boundary avail b bs st)
  show ?case
  proof (cases "reclaims d boundary b")
    case True
    then show ?thesis
      by (intro exI [of _ "0::nat"] exI [of _ "max avail (available_at b)"]) (auto simp: Let_def)
  next
    case False
    let ?a = "max avail (available_at b)"
    let ?st = "if retests d boundary b then st\<lparr>fu_retest := True,
                 fu_retest_formed_at := set_default (fu_retest_formed_at st) (end_or_start b),
                 fu_retest_at := set_default (fu_retest_at st) ?a\<rparr> else st"
    have eq: "scan_followup d boundary avail (b # bs) st = scan_followup d boundary ?a bs ?st"
      using False by (simp add: Let_def)
    have "\<exists>i t. i < length bs \<and> reclaims d boundary (bs ! i) \<and> (\<forall>j < i. \<not> reclaims d boundary (bs ! j)) \<and>
       fu_failure_at (scan_followup d boundary ?a bs ?st) = Some (end_or_start (bs ! i)) \<and>
       fu_failed_at (scan_followup d boundary ?a bs ?st) = Some t \<and> ?a \<le> t \<and>
       (\<forall>j \<le> i. available_at (bs ! j) \<le> t)"
      using 2(1,2) [OF refl False] 2(3,4) unfolding eq
      by (cases "retests d boundary b") simp_all
    then obtain i t where i: "i < length bs" "reclaims d boundary (bs ! i)"
       "\<forall>j < i. \<not> reclaims d boundary (bs ! j)"
       "fu_failure_at (scan_followup d boundary ?a bs ?st) = Some (end_or_start (bs ! i))"
       "fu_failed_at (scan_followup d boundary ?a bs ?st) = Some t" "?a \<le> t"
       "\<forall>j \<le> i. available_at (bs ! j) \<le> t" by blast
    have "\<forall>j < Suc i. \<not> reclaims d boundary ((b # bs) ! j)"
      using i(3) False by (auto simp: less_Suc_eq_0_disj)
    moreover have "available_at ((b # bs) ! j) \<le> t" if "j \<le> Suc i" for j
      using i(6,7) that by (cases j) auto
    ultimately show ?thesis unfolding eq using i
      by (intro exI [of _ "Suc i"] exI [of _ t]) auto
  qed
qed simp

section \<open>The first completed close outside a range\<close>

text \<open>
  The loop keeps running after a breakout without any effect, so the scan may stop there.
  The flag records a wick through a boundary on a bar before the breakout.
\<close>

fun scan_breakout :: "decimal \<Rightarrow> decimal \<Rightarrow> nat \<Rightarrow> bar list \<Rightarrow> bool \<Rightarrow> (move \<times> nat) option \<times> bool" where
  "scan_breakout orh orl i [] wick = (None, wick)"
| "scan_breakout orh orl i (b # bs) wick =
     (if b_close b > orh then (Some (Up, i), wick)
      else if b_close b < orl then (Some (Down, i), wick)
      else scan_breakout orh orl (Suc i) bs (wick \<or> b_high b > orh \<or> b_low b < orl))"

definition closes_inside :: "decimal \<Rightarrow> decimal \<Rightarrow> bar \<Rightarrow> bool" where
  [model_defs]: "closes_inside orh orl b \<longleftrightarrow> \<not> b_close b > orh \<and> \<not> b_close b < orl"

lemma scan_breakout_Some:
  "fst (scan_breakout orh orl i bs wick) = Some (d, k) \<longleftrightarrow>
     i \<le> k \<and> k < i + length bs \<and>
     (\<forall>j < k - i. closes_inside orh orl (bs ! j)) \<and>
     (if b_close (bs ! (k - i)) > orh then d = Up else b_close (bs ! (k - i)) < orl \<and> d = Down)"
proof (induction orh orl i bs wick rule: scan_breakout.induct)
  case (2 orh orl i b bs wick)
  show ?case
  proof (cases "closes_inside orh orl b")
    case True
    then have "fst (scan_breakout orh orl i (b # bs) wick) = Some (d, k) \<longleftrightarrow>
        Suc i \<le> k \<and> k < Suc i + length bs \<and> (\<forall>j < k - Suc i. closes_inside orh orl (bs ! j)) \<and>
        (if b_close (bs ! (k - Suc i)) > orh then d = Up else b_close (bs ! (k - Suc i)) < orl \<and> d = Down)"
      using 2 by (simp add: closes_inside_def)
    note eq = this
    show ?thesis
    proof (cases "k \<le> i")
      case k: True
      then have "(k < i \<or> k = i) \<and> \<not> Suc i \<le> k" by linarith
      then show ?thesis using True unfolding eq by (auto simp: closes_inside_def)
    next
      case False
      then obtain m where m: "k = Suc i + m" by (metis le_Suc_ex not_less_eq_eq)
      then show ?thesis using True unfolding eq by (simp add: All_less_Suc2 del: closes_inside_def)
    qed
  next
    case False
    then have "fst (scan_breakout orh orl i (b # bs) wick) = Some (if b_close b > orh then Up else Down, i)"
      by (auto simp: closes_inside_def)
    note eq = this
    show ?thesis
    proof (cases "k \<le> i")
      case True
      then have "k = i \<or> \<not> i \<le> k" by linarith
      then show ?thesis using False unfolding eq by (auto simp: closes_inside_def)
    next
      case k: False
      then have "\<not> (\<forall>j < k - i. closes_inside orh orl ((b # bs) ! j))"
        using False by (auto intro!: exI [of _ "0::nat"])
      then show ?thesis using k unfolding eq by auto
    qed
  qed
qed auto

lemma scan_breakout_append:
  "fst (scan_breakout orh orl i bs wick) = Some r \<Longrightarrow>
     scan_breakout orh orl i (bs @ later) wick = scan_breakout orh orl i bs wick"
  by (induction orh orl i bs wick rule: scan_breakout.induct) auto

section \<open>Opening range\<close>

record breakout_row =
  br_direction :: move
  br_at :: instant
  br_available_at :: instant
  br_spread :: "string feature"
  br_followup :: followup

record breakout_state =
  bs_breakout :: "breakout_row option"
  bs_wick_only :: bool

definition breakout_row_of ::
  "decimal \<Rightarrow> decimal \<Rightarrow> bar list \<Rightarrow> instant option \<Rightarrow> move \<Rightarrow> nat \<Rightarrow> breakout_row" where
  [model_defs]: "breakout_row_of orh orl session_bars prerequisite_at d index =
     (let boundary = (if d = Up then orh else orl);
          bar = session_bars ! index;
          available = max (case prerequisite_at of None \<Rightarrow> available_at bar | Some t \<Rightarrow> t)
                        (avail_max (take (index + 1) session_bars))
      in \<lparr>br_direction = d, br_at = end_or_start bar, br_available_at = available,
          br_spread = (case b_spread bar of
             None \<Rightarrow> Unavailable ''spread_unavailable''
           | Some s \<Rightarrow> if 0 < s then Available (format_decimal 6 s)
                       else Unavailable ''spread_unavailable''),
          br_followup = scan_followup d boundary available (drop (index + 1) session_bars)
                          no_followup\<rparr>)"

definition breakout_state_of :: "decimal \<Rightarrow> decimal \<Rightarrow> bar list \<Rightarrow> instant option \<Rightarrow> breakout_state" where
  [model_defs]: "breakout_state_of orh orl session_bars prerequisite_at =
     (let (breakout, wick_only) = scan_breakout orh orl 0 session_bars False in
      \<lparr>bs_breakout = map_option (\<lambda>(d, index).
          breakout_row_of orh orl session_bars prerequisite_at d index) breakout,
       bs_wick_only = wick_only\<rparr>)"

record orb =
  orb_session :: string
  orb_local_open :: int
  orb_opening_candle :: instant
  orb_formed_at :: instant
  orb_available_at :: instant
  orb_orh :: string
  orb_orl :: string
  orb_range_size :: string
  orb_range_atr :: "string feature"
  orb_range_spread :: "string feature"
  orb_state :: breakout_state

text \<open>A ratio that is unavailable when its denominator is missing or zero.\<close>

definition ratio_text :: "string \<Rightarrow> decimal \<Rightarrow> decimal option \<Rightarrow> string feature" where
  [model_defs]: "ratio_text reason x denominator =
     (case denominator of
        None \<Rightarrow> Unavailable reason
      | Some d \<Rightarrow> if d = 0 then Unavailable reason else Available (format_decimal 6 (rnd28 (x / d))))"

definition opening_range ::
  "zone \<Rightarrow> bar \<Rightarrow> bar list \<Rightarrow> decimal option \<Rightarrow> decimal option \<Rightarrow> string \<Rightarrow> int \<Rightarrow> orb feature" where
  "opening_range z opening_bar session_bars atr spread session_name local_open =
     (if \<not> contiguous z (opening_bar # session_bars) then Unavailable ''missing_registered_interval''
      else
        (let orh = b_high opening_bar; orl = b_low opening_bar; range_size = rnd28 (orh - orl) in
         Available
           \<lparr>orb_session = session_name, orb_local_open = local_open,
            orb_opening_candle = timestamp opening_bar,
            orb_formed_at = end_or_start opening_bar,
            orb_available_at = available_at opening_bar,
            orb_orh = format_decimal 6 orh, orb_orl = format_decimal 6 orl,
            orb_range_size = format_decimal 6 range_size,
            orb_range_atr = ratio_text ''atr_unavailable'' range_size atr,
            orb_range_spread = ratio_text ''spread_unavailable'' range_size spread,
            orb_state = breakout_state_of orh orl session_bars (Some (available_at opening_bar))\<rparr>))"

lemma take_drop_append_breakout:
  "index < length xs \<Longrightarrow> take (index + 1) (xs @ ys) = take (index + 1) xs
     \<and> drop (index + 1) (xs @ ys) = drop (index + 1) xs @ ys \<and> (xs @ ys) ! index = xs ! index"
  by (simp add: nth_append)

lemma breakout_row_append:
  assumes "index < length bars"
  shows "\<exists>f. breakout_row_of orh orl (bars @ later) pre d index
      = (breakout_row_of orh orl bars pre d index)\<lparr>br_followup := f\<rparr> \<and>
    (fu_failed (br_followup (breakout_row_of orh orl bars pre d index)) \<longrightarrow>
       f = br_followup (breakout_row_of orh orl bars pre d index))"
proof -
  have "scan_followup d b a (drop (index + 1) bars @ later) no_followup
      = scan_followup d b a (drop (index + 1) bars) no_followup"
    if "fu_failed (scan_followup d b a (drop (index + 1) bars) no_followup)" for b a
    using that by (intro scan_followup_append) (simp add: scan_followup_failed no_followup_def)
  then show ?thesis
    unfolding breakout_row_of_def Let_def
      take_drop_append_breakout [OF assms, of later, THEN conjunct1]
      take_drop_append_breakout [OF assms, of later, THEN conjunct2, THEN conjunct1]
      take_drop_append_breakout [OF assms, of later, THEN conjunct2, THEN conjunct2]
    by simp
qed

lemma breakout_state_append:
  assumes "bs_breakout (breakout_state_of orh orl session_bars pre) = Some r"
  shows "\<exists>r'. bs_breakout (breakout_state_of orh orl (session_bars @ later) pre) = Some r' \<and>
     br_direction r' = br_direction r \<and> br_at r' = br_at r \<and> br_available_at r' = br_available_at r \<and>
     (fu_failed (br_followup r) \<longrightarrow> r' = r)"
proof -
  obtain d index w where scan: "scan_breakout orh orl 0 session_bars False = (Some (d, index), w)"
    using assms by (cases "scan_breakout orh orl 0 session_bars False") (auto simp: breakout_state_of_def)
  then have i: "index < length session_bars"
    using scan_breakout_Some [of orh orl 0 session_bars False d index] by simp
  have scan': "scan_breakout orh orl 0 (session_bars @ later) False = (Some (d, index), w)"
    using scan_breakout_append [of orh orl 0 session_bars False "(d, index)" later] scan by simp
  have r: "r = breakout_row_of orh orl session_bars pre d index"
    using assms by (simp add: breakout_state_of_def scan)
  obtain f where f: "breakout_row_of orh orl (session_bars @ later) pre d index = r\<lparr>br_followup := f\<rparr>"
    "fu_failed (br_followup r) \<longrightarrow> f = br_followup r"
    using breakout_row_append [OF i, of orh orl later pre d] r by auto
  then show ?thesis by (simp add: breakout_state_of_def scan')
qed

section \<open>Consolidation\<close>

record consolidation_row =
  co_inside :: bool
  co_range_low :: string
  co_range_high :: string
  co_formed_at :: instant
  co_available_at :: instant
  co_breakout :: "(move \<times> instant \<times> instant \<times> followup) option"

datatype consolidation = NotConsolidating | Consolidation consolidation_row

definition consolidation_state ::
  "zone \<Rightarrow> bar list \<Rightarrow> decimal option \<Rightarrow> decimal \<Rightarrow> nat \<Rightarrow> nat \<Rightarrow> consolidation feature" where
  "consolidation_state z bars atr range_ceiling window failed_bars =
     (case atr of
        None \<Rightarrow> Unavailable ''atr_unavailable''
      | Some a \<Rightarrow>
          if a = 0 then Unavailable ''atr_unavailable''
          else
            (let tail_len = failed_bars + 1 in
             if length bars < window + tail_len then Unavailable ''insufficient_history''
             else
               (let base = slice (length bars - (window + tail_len)) (length bars - tail_len) bars;
                    tail = last_n tail_len bars in
                if \<not> contiguous z (base @ tail) then Unavailable ''missing_registered_interval''
                else
                  (let base_end = length bars - tail_len - 1;
                       prerequisites = slice (base_end - max (window - 1) atr_period) (base_end + 1) bars;
                       available = avail_max prerequisites;
                       high = max_of (map b_high base);
                       low = min_of (map b_low base) in
                   if rnd28 (high - low) > rnd28 (range_ceiling * a) then Available NotConsolidating
                   else
                     (let breakout = fst (scan_breakout high low 0 tail False) in
                      Available (Consolidation
                        \<lparr>co_inside = (breakout = None),
                         co_range_low = format_decimal 6 low, co_range_high = format_decimal 6 high,
                         co_formed_at = end_or_start (last base), co_available_at = available,
                         co_breakout = map_option (\<lambda>(d, index).
                           let bar = tail ! index;
                               avail' = max available (avail_max (take (index + 1) tail));
                               boundary = (if d = Up then high else low)
                           in (d, end_or_start bar, avail',
                               scan_followup d boundary avail' (drop (index + 1) tail) no_followup))
                           breakout\<rparr>))))))"

section \<open>Property\<close>

text \<open>The first breakout of a session is final: later bars change neither its direction nor its
  instants, and a breakout that has failed stays exactly as it was recorded, without a renewed
  breakout.\<close>

lemma breakout_is_final:
  assumes "bs_breakout (breakout_state_of orh orl session_bars pre) = Some r"
  shows "\<exists>r'. bs_breakout (breakout_state_of orh orl (session_bars @ later) pre) = Some r' \<and>
     br_direction r' = br_direction r \<and> br_at r' = br_at r \<and> br_available_at r' = br_available_at r \<and>
     (fu_failed (br_followup r) \<longrightarrow> r' = r)"
  by (rule breakout_state_append [OF assms])

end
