(* ===== verification/Zones.thy ===== *)
theory Zones
  imports Breakouts "HOL-Library.Char_ord" "HOL-Library.List_Lexorder" "HOL-Library.Multiset"
begin

text \<open>
  The rest of \<^verbatim>\<open>market/state/structure.py\<close>: support/resistance zones as single-linkage clusters
  of confirmed swings, equal levels, displacement candidates, prior-period extremes and the
  assembled block. The identity digest (SHA-256 of a canonical JSON text) is the parameter
  \<open>digest\<close> over the structured value that the code hashes.
\<close>

datatype json = JText string | JInstant instant | JInt int | JList "json list"

type_synonym digest = "json \<Rightarrow> string"

section \<open>Single linkage\<close>

text \<open>
  Both clustering loops of the file visit their points in sorted order and either extend the
  last cluster, when the point is linked to the last member, or open a new one.
\<close>

definition cluster_step :: "('a \<Rightarrow> 'a \<Rightarrow> bool) \<Rightarrow> 'a list list \<Rightarrow> 'a \<Rightarrow> 'a list list" where
  [model_defs]: "cluster_step link clusters x =
     (if clusters \<noteq> [] \<and> link (last (last clusters)) x
      then butlast clusters @ [last clusters @ [x]]
      else clusters @ [[x]])"

definition cluster_by :: "('a \<Rightarrow> 'a \<Rightarrow> bool) \<Rightarrow> 'a list \<Rightarrow> 'a list list" where
  [model_defs]: "cluster_by link xs = foldl (cluster_step link) [] xs"

definition linked_clusters :: "('a \<Rightarrow> 'a \<Rightarrow> bool) \<Rightarrow> 'a list list \<Rightarrow> bool" where
  "linked_clusters link clusters \<longleftrightarrow>
     (\<forall>c \<in> set clusters. c \<noteq> [] \<and> adjacent_all link c) \<and>
     adjacent_all (\<lambda>c d. \<not> link (last c) (hd d)) clusters"

lemma cluster_by_snoc: "cluster_by link (xs @ [x]) = cluster_step link (cluster_by link xs) x"
  by (simp add: cluster_by_def)

lemma concat_cluster_by: "concat (cluster_by link xs) = xs"
proof (induction xs rule: rev_induct)
  case (snoc x xs)
  let ?cs = "cluster_by link xs"
  have "concat (cluster_step link ?cs x) = concat ?cs @ [x]"
  proof (cases "?cs = []")
    case False
    have "concat (butlast ?cs) @ last ?cs = concat ?cs"
      using arg_cong [OF append_butlast_last_id [OF False], of concat] by simp
    then show ?thesis by (simp add: cluster_step_def flip: append_assoc)
  qed (simp add: cluster_step_def)
  then show ?case by (simp add: cluster_by_snoc snoc)
qed (simp add: cluster_by_def)

lemma adjacent_all_snoc:
  "adjacent_all r (xs @ [x]) \<longleftrightarrow> adjacent_all r xs \<and> (xs \<noteq> [] \<longrightarrow> r (last xs) x)"
  by (induction xs rule: induct_list012) auto

lemma linked_cluster_step:
  assumes "linked_clusters link cs"
  shows "linked_clusters link (cluster_step link cs x)"
proof (cases "cs = []")
  case True
  then show ?thesis by (simp add: cluster_step_def linked_clusters_def)
next
  case False
  then obtain ds d where cs: "cs = ds @ [d]" by (metis append_butlast_last_id)
  then have d: "d \<noteq> []" "adjacent_all link d" using assms by (auto simp: linked_clusters_def)
  have ds: "linked_clusters link ds"
    using assms by (auto simp: cs linked_clusters_def adjacent_all_snoc)
  have sep: "ds \<noteq> [] \<longrightarrow> \<not> link (last (last ds)) (hd d)"
    using assms by (auto simp: cs linked_clusters_def adjacent_all_snoc)
  show ?thesis
  proof (cases "link (last d) x")
    case True
    then show ?thesis using d ds sep
      by (auto simp: cs cluster_step_def linked_clusters_def adjacent_all_snoc hd_append)
  next
    case False
    then have "cluster_step link cs x = cs @ [[x]]" by (simp add: cs cluster_step_def)
    moreover have "last cs = d" by (simp add: cs)
    ultimately show ?thesis using False assms by (auto simp: linked_clusters_def adjacent_all_snoc)
  qed
qed

lemma linked_cluster_by: "linked_clusters link (cluster_by link xs)"
proof (induction xs rule: rev_induct)
  case (snoc x xs)
  then show ?case by (simp add: cluster_by_snoc linked_cluster_step)
qed (simp add: cluster_by_def linked_clusters_def)

lemma cluster_by_nonempty: "c \<in> set (cluster_by link xs) \<Longrightarrow> c \<noteq> []"
  using linked_cluster_by [of link xs] by (auto simp: linked_clusters_def)

section \<open>Zones\<close>

definition zone_cluster_atr :: decimal where [model_defs]: "zone_cluster_atr = 1 / 4"
definition zone_expiry_intervals :: nat where [model_defs]: "zone_expiry_intervals = 200"
definition equal_level_atr :: decimal where [model_defs]: "equal_level_atr = 1 / 10"
definition displacement_atr :: decimal where [model_defs]: "displacement_atr = 3 / 2"
definition consolidation_atr :: decimal where [model_defs]: "consolidation_atr = 3 / 2"
definition consolidation_window :: nat where [model_defs]: "consolidation_window = 20"
definition failed_breakout_bars :: nat where [model_defs]: "failed_breakout_bars = 3"

definition zone_id :: "digest \<Rightarrow> decimal \<Rightarrow> decimal \<Rightarrow> string \<Rightarrow> string \<Rightarrow> string" where
  [model_defs]: "zone_id digest low high instrument_code timeframe =
     digest (JList [JText ''zone-v1'', JText instrument_code, JText timeframe,
       JText (format_decimal 6 low), JText (format_decimal 6 high)])"

text \<open>The loop of \<^verbatim>\<open>_zone_test_count\<close>: a new test needs a return after leaving by the margin.\<close>

fun zone_test_loop :: "decimal \<Rightarrow> decimal \<Rightarrow> decimal \<Rightarrow> nat \<Rightarrow> bool \<Rightarrow> bar list \<Rightarrow> nat" where
  "zone_test_loop low high margin n inside [] = n"
| "zone_test_loop low high margin n inside (b # bs) =
     (if b_low b \<le> high \<and> low \<le> b_high b
      then zone_test_loop low high margin (if inside then n else n + 1) True bs
      else if b_high b \<le> rnd28 (low - margin) \<or> rnd28 (high + margin) \<le> b_low b
      then zone_test_loop low high margin n False bs
      else zone_test_loop low high margin n inside bs)"

definition zone_test_count :: "bar list \<Rightarrow> decimal \<Rightarrow> decimal \<Rightarrow> decimal \<Rightarrow> nat" where
  [model_defs]: "zone_test_count bars low high margin = zone_test_loop low high margin 0 False bars"

record zone_row =
  zone_ident :: string
  range_low :: string
  range_high :: string
  member_count :: nat
  margin_price :: string
  zone_formed_at :: instant
  zone_available_at :: instant
  age_intervals :: nat
  distinct_tests :: nat
  zone_invalidated :: bool
  zone_expired :: bool

definition swing_margins ::
  "zone \<Rightarrow> bar list \<Rightarrow> decimal option \<Rightarrow> decimal \<Rightarrow> swing list \<Rightarrow> (swing \<times> decimal) list" where
  [model_defs]: "swing_margins z bars atr cluster swings =
     List.map_filter (\<lambda>s.
       case (case atr of Some a \<Rightarrow> Some a
             | None \<Rightarrow> atr_at_index z bars (swing_index s + swing_right) atr_period) of
         None \<Rightarrow> None
       | Some a \<Rightarrow> if a = 0 then None else Some (s, rnd28 (cluster * a))) swings"

definition zone_linked :: "swing \<times> decimal \<Rightarrow> swing \<times> decimal \<Rightarrow> bool" where
  [model_defs]: "zone_linked previous s \<longleftrightarrow>
     swing_kind (fst previous) = swing_kind (fst s) \<and>
     rnd28 (swing_price (fst s) - swing_price (fst previous)) \<le> min (snd s) (snd previous)"

definition zone_clusters :: "(swing \<times> decimal) list \<Rightarrow> (swing \<times> decimal) list list" where
  [model_defs]: "zone_clusters margins =
     cluster_by zone_linked
       (sort_key (\<lambda>m. (swing_kind (fst m), swing_price (fst m), swing_index (fst m))) margins)"

text \<open>The indices whose bars a zone depends on.\<close>

definition zone_dependencies :: "swing list \<Rightarrow> nat list" where
  [model_defs]: "zone_dependencies members =
     concat (map (\<lambda>m. [min (swing_index m - swing_left) (swing_index m + swing_right - atr_period)
                       ..<swing_index m + swing_right + 1]) members)"

definition swing_identity :: "bar list \<Rightarrow> swing \<Rightarrow> json" where
  [model_defs]: "swing_identity bars m =
     JList [JInstant (swing_timestamp m),
       JText (case swing_kind m of HighSwing \<Rightarrow> ''high'' | LowSwing \<Rightarrow> ''low''),
       JText (content_sha (bars ! swing_index m))]"

definition zone_row_of ::
  "digest \<Rightarrow> bar list \<Rightarrow> string \<Rightarrow> string \<Rightarrow> (swing \<times> decimal) list \<Rightarrow> zone_row" where
  [model_defs]: "zone_row_of digest bars instrument_code timeframe cluster =
     (let members = map fst cluster;
          margin = min_of (map snd cluster);
          low = min_of (map swing_price members);
          high = max_of (map swing_price members);
          earliest = min_of (map swing_index members);
          age = length bars - 1 - earliest;
          confirmed = max_of (map swing_index members) + swing_right;
          available = max_of (map (\<lambda>i. available_at (bars ! i)) (zone_dependencies members));
          since_formation = filter (\<lambda>b. available \<le> timestamp b)
            (slice (confirmed + 1) (earliest + zone_expiry_intervals + 1) bars);
          broken = find_index (\<lambda>b.
            (HighSwing \<in> set (map swing_kind members) \<and> rnd28 (high + margin) \<le> b_close b) \<or>
            (LowSwing \<in> set (map swing_kind members) \<and> b_close b \<le> rnd28 (low - margin))) since_formation;
          tested = (case broken of None \<Rightarrow> since_formation | Some i \<Rightarrow> take i since_formation)
      in \<lparr>zone_ident = digest (JList [JText (zone_id digest low high instrument_code timeframe),
            JList (map (swing_identity bars)
              (sort_key (\<lambda>m. (swing_index m, swing_timestamp m, swing_kind m, swing_price m)) members))]),
          range_low = format_decimal 6 low, range_high = format_decimal 6 high,
          member_count = length members, margin_price = format_decimal 6 margin,
          zone_formed_at = end_or_start (bars ! earliest), zone_available_at = available,
          age_intervals = age, distinct_tests = zone_test_count tested low high margin,
          zone_invalidated = (broken \<noteq> None), zone_expired = zone_expiry_intervals < age\<rparr>)"

text \<open>The rows are finally sorted by their printed bounds, as texts.\<close>

definition support_resistance_zones ::
  "digest \<Rightarrow> zone \<Rightarrow> bar list \<Rightarrow> decimal option \<Rightarrow> string \<Rightarrow> string \<Rightarrow> decimal \<Rightarrow> zone_row list feature" where
  "support_resistance_zones digest z bars atr instrument_code timeframe cluster =
     (if \<not> contiguous z bars then Unavailable ''missing_registered_interval''
      else
        (let swings = confirmed_swings z bars swing_left swing_right in
         if swings = [] then Unavailable ''insufficient_history''
         else
           (let margins = swing_margins z bars atr cluster swings in
            if margins = [] then Unavailable ''atr_unavailable''
            else Available (sort_key (\<lambda>r. (range_low r, range_high r))
              (map (zone_row_of digest bars instrument_code timeframe) (zone_clusters margins))))))"

section \<open>Equal levels and displacement candidates\<close>

definition local_extrema :: "bar list \<Rightarrow> swing_kind \<Rightarrow> decimal list" where
  [model_defs]: "local_extrema bars k =
     concat (map (\<lambda>i.
       case k of
         HighSwing \<Rightarrow> if b_high (bars ! (i - 1)) \<le> b_high (bars ! i) \<and> b_high (bars ! (i + 1)) \<le> b_high (bars ! i)
           then [b_high (bars ! i)] else []
       | LowSwing \<Rightarrow> if b_low (bars ! i) \<le> b_low (bars ! (i - 1)) \<and> b_low (bars ! i) \<le> b_low (bars ! (i + 1))
           then [b_low (bars ! i)] else []) [1..<length bars - 1])"

definition single_linkage :: "decimal list \<Rightarrow> decimal \<Rightarrow> decimal list list" where
  [model_defs]: "single_linkage points margin =
     cluster_by (\<lambda>previous p. rnd28 (p - previous) \<le> margin) (sort points)"

definition level_groups :: "decimal list \<Rightarrow> decimal \<Rightarrow> (nat \<times> string \<times> string) list" where
  [model_defs]: "level_groups prices margin =
     (if prices = [] then []
      else List.map_filter (\<lambda>c. if 2 \<le> length c
        then Some (length c, format_decimal 6 (min_of c), format_decimal 6 (max_of c)) else None)
        (single_linkage prices margin))"

definition equal_levels ::
  "zone \<Rightarrow> bar list \<Rightarrow> decimal option \<Rightarrow> decimal
     \<Rightarrow> ((nat \<times> string \<times> string) list \<times> (nat \<times> string \<times> string) list) feature" where
  "equal_levels z bars atr tolerance =
     (case atr of
        None \<Rightarrow> Unavailable ''atr_unavailable''
      | Some a \<Rightarrow>
          if a = 0 then Unavailable ''atr_unavailable''
          else if length bars < 3 then Unavailable ''insufficient_history''
          else if \<not> contiguous z bars then Unavailable ''missing_registered_interval''
          else
            (let margin = rnd28 (tolerance * a) in
             Available (level_groups (local_extrema bars HighSwing) margin,
                        level_groups (local_extrema bars LowSwing) margin)))"

datatype candidate_kind = DemandCandidate | SupplyCandidate

record displacement_row =
  dc_kind :: candidate_kind
  dc_origin_low :: string
  dc_origin_high :: string
  dc_body_atr :: string
  dc_timestamp :: instant
  dc_formed_at :: instant
  dc_available_at :: instant

text \<open>The loop body at \<open>i\<close>: \<open>None\<close> when there is no usable ATR or neighbour, else the candidate.\<close>

definition displacement_at ::
  "zone \<Rightarrow> bar list \<Rightarrow> decimal option \<Rightarrow> decimal \<Rightarrow> nat \<Rightarrow> displacement_row option option" where
  [model_defs]: "displacement_at z bars atr threshold i =
     (let bar = bars ! i in
      case (case atr of Some a \<Rightarrow> Some a | None \<Rightarrow> atr_at_index z bars i atr_period) of
        None \<Rightarrow> None
      | Some event_atr \<Rightarrow>
          if event_atr = 0 \<or> \<not> contiguous z (slice i (i + 2) bars) then None
          else Some
            (let body = \<bar>rnd28 (b_close bar - b_open bar)\<bar>; following = bars ! (i + 1) in
             if body < rnd28 (threshold * event_atr) then None
             else
               (let row = (\<lambda>k. \<lparr>dc_kind = k,
                    dc_origin_low = format_decimal 6 (min (b_open bar) (b_close bar)),
                    dc_origin_high = format_decimal 6 (max (b_open bar) (b_close bar)),
                    dc_body_atr = format_decimal 6 (rnd28 (body / event_atr)),
                    dc_timestamp = timestamp bar, dc_formed_at = end_or_start bar,
                    dc_available_at = avail_max (slice (i - atr_period) (i + 2) bars)\<rparr>)
                in if b_close bar > b_open bar \<and> b_close following > b_close bar
                   then Some (row DemandCandidate)
                   else if b_close bar < b_open bar \<and> b_close following < b_close bar
                   then Some (row SupplyCandidate)
                   else None)))"

definition displacement_candidates ::
  "zone \<Rightarrow> bar list \<Rightarrow> decimal option \<Rightarrow> decimal \<Rightarrow> displacement_row list feature" where
  "displacement_candidates z bars atr threshold =
     (let rows = map (displacement_at z bars atr threshold) [0..<length bars - 1] in
      if list_all (\<lambda>r. r = None) rows then Unavailable ''atr_unavailable''
      else Available (List.map_filter (\<lambda>r. case r of None \<Rightarrow> None | Some c \<Rightarrow> c) rows))"

definition prior_period_extreme :: "bar list \<Rightarrow> (string \<times> string) feature" where
  "prior_period_extreme period_bars =
     (if period_bars = [] then Unavailable ''insufficient_history''
      else Available (format_decimal 6 (max_of (map b_high period_bars)),
                      format_decimal 6 (min_of (map b_low period_bars))))"

record structure_block =
  sb_zones :: "zone_row list feature"
  sb_equal_levels :: "((nat \<times> string \<times> string) list \<times> (nat \<times> string \<times> string) list) feature"
  sb_displacement :: "displacement_row list feature"
  sb_consolidation :: "consolidation feature"

definition structure_context ::
  "digest \<Rightarrow> zone \<Rightarrow> bar list \<Rightarrow> decimal option \<Rightarrow> string \<Rightarrow> string \<Rightarrow> structure_block" where
  "structure_context digest z bars atr instrument_code timeframe =
     \<lparr>sb_zones = support_resistance_zones digest z bars None instrument_code timeframe zone_cluster_atr,
      sb_equal_levels = equal_levels z bars atr equal_level_atr,
      sb_displacement = displacement_candidates z bars None displacement_atr,
      sb_consolidation = consolidation_state z bars
        (if failed_breakout_bars + 1 < length bars
         then atr_at_index z bars (length bars - failed_breakout_bars - 2) atr_period else None)
        consolidation_atr consolidation_window failed_breakout_bars\<rparr>"

section \<open>What the zone test counter counts\<close>

definition touches_zone :: "decimal \<Rightarrow> decimal \<Rightarrow> bar \<Rightarrow> bool" where
  [model_defs]: "touches_zone low high b \<longleftrightarrow> b_low b \<le> high \<and> low \<le> b_high b"

lemma zone_test_loop_ge: "n \<le> zone_test_loop low high margin n inside bs"
  by (induction low high margin n inside bs rule: zone_test_loop.induct) auto

lemma zone_test_loop_le:
  "zone_test_loop low high margin n inside bs
     \<le> n + length (filter (touches_zone low high) bs)"
  by (induction low high margin n inside bs rule: zone_test_loop.induct)
     (auto simp: touches_zone_def)

lemma zone_test_loop_zero:
  "zone_test_loop low high margin 0 False bs = 0 \<longleftrightarrow> \<not> list_ex (touches_zone low high) bs"
proof (induction bs)
  case (Cons b bs)
  show ?case
  proof (cases "touches_zone low high b")
    case True
    then show ?thesis using zone_test_loop_ge [of 1 low high margin True bs]
      by (auto simp: touches_zone_def)
  next
    case False
    then show ?thesis using Cons by (auto simp: touches_zone_def)
  qed
qed simp

lemma zone_test_loop_append:
  "\<exists>inside'. zone_test_loop low high margin n inside (bs @ later)
     = zone_test_loop low high margin (zone_test_loop low high margin n inside bs) inside' later"
  by (induction low high margin n inside bs rule: zone_test_loop.induct) auto

section \<open>The clusters of a zone report\<close>

lemma mset_zone_clusters: "mset (concat (zone_clusters margins)) = mset margins"
  by (simp add: zone_clusters_def concat_cluster_by)

text \<open>The zones of a report partition the swings: every swing with a margin lies in exactly one
  cluster, a cluster links each swing to the next of the same kind within the smaller margin, and
  no swing is linked to the last one of the cluster before its own.\<close>

lemma zones_partition_swings:
  "mset (concat (zone_clusters margins)) = mset margins \<and> linked_clusters zone_linked (zone_clusters margins)"
  by (simp add: mset_zone_clusters) (simp add: zone_clusters_def linked_cluster_by)

end
