(* ===== verification/Gaps.thy ===== *)
theory Gaps
  imports Regimes
begin

text \<open>
  \<^verbatim>\<open>market/state/fvg.py\<close>: the three-candle imbalance proxy and its lifecycle (partial fill,
  full fill, expiry, internal swing break). The theorems show that a gap is a real gap with
  its bounds in order, that its fill percentage is a percentage, and that the terminal parts
  of the lifecycle (full fill, invalidation, expiry) are never undone by later bars.
\<close>

datatype gap_direction = Bullish | Bearish

definition fvg_displacement_atr :: decimal where [model_defs]: "fvg_displacement_atr = 1"
definition fvg_expiry_bars :: nat where [model_defs]: "fvg_expiry_bars = 50"
definition fvg_min_raw :: decimal where [model_defs]: "fvg_min_raw = 1 / 1000000"
definition fvg_min_atr :: decimal where [model_defs]: "fvg_min_atr = 1 / 10"
definition fvg_min_pips :: decimal where [model_defs]: "fvg_min_pips = 1"
definition fvg_min_spread :: decimal where [model_defs]: "fvg_min_spread = 1"

record fill =
  partial_fill_pct :: string
  full_fill :: bool
  swing_broken :: bool
  invalidated :: bool
  expired :: bool

datatype lifecycle = LifecycleUnavailable string | Lifecycle fill

definition internal_swing_break :: "zone \<Rightarrow> gap_direction \<Rightarrow> bar list \<Rightarrow> bool" where
  [model_defs]: "internal_swing_break z direction following =
     (let swings = confirmed_swings z following swing_left swing_right in
      case direction of
        Bullish \<Rightarrow> list_ex (\<lambda>s. list_ex (\<lambda>j. b_close (following ! j) < swing_price s)
            [swing_index s + swing_right + 1..<length following]) (by_kind swings LowSwing)
      | Bearish \<Rightarrow> list_ex (\<lambda>s. list_ex (\<lambda>j. b_close (following ! j) > swing_price s)
            [swing_index s + swing_right + 1..<length following]) (by_kind swings HighSwing))"

text \<open>A completed close through the far boundary.\<close>

definition closes_through :: "gap_direction \<Rightarrow> decimal \<Rightarrow> decimal \<Rightarrow> bar \<Rightarrow> bool" where
  [model_defs]: "closes_through direction gap_low gap_high b =
     (case direction of Bullish \<Rightarrow> b_close b \<le> gap_low | Bearish \<Rightarrow> gap_high \<le> b_close b)"

definition penetration :: "gap_direction \<Rightarrow> decimal \<Rightarrow> decimal \<Rightarrow> bar list \<Rightarrow> decimal" where
  [model_defs]: "penetration direction gap_low gap_high following =
     (case direction of
        Bullish \<Rightarrow> (let deepest = min_of (map b_low following)
                     in rnd28 (gap_high - max (min deepest gap_high) gap_low))
      | Bearish \<Rightarrow> (let deepest = max_of (map b_high following)
                     in rnd28 (min (max deepest gap_low) gap_high - gap_low)))"

definition fill_state ::
  "zone \<Rightarrow> gap_direction \<Rightarrow> decimal \<Rightarrow> decimal \<Rightarrow> decimal \<Rightarrow> bar list \<Rightarrow> lifecycle" where
  [model_defs]: "fill_state z direction gap_low gap_high raw_gap following =
     (if following = [] then Lifecycle
        \<lparr>partial_fill_pct = ''0.0'', full_fill = False, swing_broken = False, invalidated = False,
         expired = False\<rparr>
      else if \<not> contiguous z following then LifecycleUnavailable ''missing_registered_interval''
      else
        (let penetrated = penetration direction gap_low gap_high following;
             full = list_ex (closes_through direction gap_low gap_high) following;
             window_full = list_ex (closes_through direction gap_low gap_high)
                             (take fvg_expiry_bars following);
             pct = (if raw_gap \<noteq> 0 then rnd28 (rnd28 (penetrated / raw_gap) * 100) else 0);
             internal_break = internal_swing_break z direction following
         in Lifecycle
           \<lparr>partial_fill_pct = format_decimal 1 pct, full_fill = full, swing_broken = internal_break,
            invalidated = full \<or> internal_break,
            expired = fvg_expiry_bars < length following \<and> \<not> window_full\<rparr>))"

record fvg =
  gap_direction :: gap_direction
  formation_start :: instant
  gap_created_at :: instant
  gap_available_at :: instant
  gap_qualification :: "unit feature"
  gap_low_text :: string
  gap_high_text :: string
  raw_gap_text :: string
  gap_atr_text :: string
  gap_pips_text :: string
  spread_normalized :: "string feature"
  gap_lifecycle :: lifecycle

definition spread_normalized_of :: "decimal \<Rightarrow> decimal option \<Rightarrow> string feature" where
  [model_defs]: "spread_normalized_of raw_gap spread =
     (case spread of
        None \<Rightarrow> Unavailable ''spread_unavailable''
      | Some s \<Rightarrow> if s = 0 then Unavailable ''spread_unavailable''
                  else Available (format_decimal 6 (rnd28 (raw_gap / s))))"

text \<open>The geometry of the three candles: direction, bounds, and whether the middle displaces.\<close>

definition gap_geometry :: "bar \<Rightarrow> bar \<Rightarrow> bar \<Rightarrow> (gap_direction \<times> decimal \<times> decimal \<times> bool) option" where
  [model_defs]: "gap_geometry c1 c2 c3 =
     (if b_high c1 < b_low c3
      then Some (Bullish, b_high c1, b_low c3, b_close c2 > b_open c2)
      else if b_low c1 > b_high c3
      then Some (Bearish, b_high c3, b_low c1, b_close c2 < b_open c2)
      else None)"

text \<open>
  The loop body of \<^verbatim>\<open>find_fvgs\<close> at \<open>i\<close>: the gap it appends, if any, and the reason it leaves in
  \<^verbatim>\<open>unavailable\<close>, if any. The spread check decides the qualification and can still drop the gap.
\<close>

definition qualify_spread :: "decimal \<Rightarrow> decimal option \<Rightarrow> unit feature option" where
  [model_defs]: "qualify_spread raw_gap spread =
     (case spread of
        None \<Rightarrow> Some (Unavailable ''spread_unavailable'')
      | Some s \<Rightarrow>
          if s \<le> 0 then Some (Unavailable ''spread_unavailable'')
          else if rnd28 (raw_gap / s) < fvg_min_spread then None else Some (Available ()))"

definition fvg_at ::
  "zone \<Rightarrow> bar list \<Rightarrow> decimal \<Rightarrow> decimal option \<Rightarrow> decimal \<Rightarrow> nat \<Rightarrow> fvg option \<times> string option" where
  [model_defs]: "fvg_at z bars pip_size atr_override displacement i =
     (let c1 = bars ! i; c2 = bars ! (i + 1); c3 = bars ! (i + 2) in
      if \<not> (bars_are_consecutive z c1 c2 \<and> bars_are_consecutive z c2 c3) then (None, None)
      else case gap_geometry c1 c2 c3 of
          None \<Rightarrow> (None, None)
        | Some (direction, gap_low, gap_high, displaced) \<Rightarrow>
            (case (case atr_override of Some a \<Rightarrow> Some a | None \<Rightarrow> atr_at_index z bars (i + 2) atr_period) of
               None \<Rightarrow> (None, Some ''atr_unavailable'')
             | Some atr \<Rightarrow>
                 if atr = 0 then (None, Some ''atr_unavailable'')
                 else
                   (let body = \<bar>rnd28 (b_close c2 - b_open c2)\<bar>;
                        raw_gap = rnd28 (gap_high - gap_low) in
                    if \<not> displaced \<or> body < rnd28 (displacement * atr) then (None, None)
                    else if raw_gap < fvg_min_raw \<or> rnd28 (raw_gap / atr) < fvg_min_atr
                         \<or> rnd28 (raw_gap / pip_size) < fvg_min_pips then (None, None)
                    else case qualify_spread raw_gap (b_spread c3) of
                        None \<Rightarrow> (None, None)
                      | Some qualification \<Rightarrow>
                          (let following = drop (i + 3) bars in
                           (Some \<lparr>gap_direction = direction,
                              formation_start = timestamp c1,
                              gap_created_at = end_or_start c3,
                              gap_available_at = avail_max (slice (i + 2 - atr_period) (i + 3) bars),
                              gap_qualification = qualification,
                              gap_low_text = format_decimal 6 gap_low,
                              gap_high_text = format_decimal 6 gap_high,
                              raw_gap_text = format_decimal 6 raw_gap,
                              gap_atr_text = format_decimal 6 (rnd28 (raw_gap / atr)),
                              gap_pips_text = format_decimal 1 (rnd28 (raw_gap / pip_size)),
                              spread_normalized = spread_normalized_of raw_gap (b_spread c3),
                              gap_lifecycle =
                                (if following \<noteq> [] \<and> \<not> bars_are_consecutive z c3 (hd following)
                                 then LifecycleUnavailable ''missing_registered_interval''
                                 else fill_state z direction gap_low gap_high raw_gap following)\<rparr>,
                            (case qualification of Unavailable r \<Rightarrow> Some r | Available _ \<Rightarrow> None))))))"

datatype fvg_result = FvgUnavailable string "fvg list" | FvgAvailable "fvg list"

fun last_some :: "'a option list \<Rightarrow> 'a option" where
  "last_some [] = None"
| "last_some (x # xs) = (case last_some xs of None \<Rightarrow> x | Some y \<Rightarrow> Some y)"

definition find_fvgs :: "zone \<Rightarrow> bar list \<Rightarrow> decimal \<Rightarrow> decimal option \<Rightarrow> decimal \<Rightarrow> fvg_result" where
  "find_fvgs z bars pip_size atr_override displacement =
     (if length bars < 3 then FvgUnavailable ''insufficient_history'' []
      else
        (let rows = map (fvg_at z bars pip_size atr_override displacement) [0..<length bars - 2];
             gaps = List.map_filter fst rows
         in case last_some (map snd rows) of
              Some reason \<Rightarrow> FvgUnavailable reason gaps
            | None \<Rightarrow> FvgAvailable gaps))"

section \<open>The bounds of the fill\<close>

lemma penetration_bounds:
  assumes "gap_low \<le> gap_high"
  shows "0 \<le> penetration direction gap_low gap_high following"
    "penetration direction gap_low gap_high following \<le> rnd28 (gap_high - gap_low)"
proof -
  have "gap_low \<le> max (min d gap_high) gap_low" "max (min d gap_high) gap_low \<le> gap_high"
    "gap_low \<le> min (max d gap_low) gap_high" "min (max d gap_low) gap_high \<le> gap_high" for d
    using assms by auto
  then show "0 \<le> penetration direction gap_low gap_high following"
    "penetration direction gap_low gap_high following \<le> rnd28 (gap_high - gap_low)"
    by (cases direction; simp add: penetration_def Let_def ctx28.rnd_mono)+
qed

lemma share_bounds:
  assumes "0 \<le> p" "p \<le> r" "0 < r"
  shows "0 \<le> rnd28 (rnd28 (p / r) * 100)" "rnd28 (rnd28 (p / r) * 100) \<le> 100"
proof -
  have "p / r \<le> 1" using assms by simp
  then have "rnd28 (p / r) \<le> rnd28 1" by (rule ctx28.rnd_mono)
  then have "rnd28 (p / r) * 100 \<le> 100" by (simp add: rnd28_100)
  then have "rnd28 (rnd28 (p / r) * 100) \<le> rnd28 100" by (rule ctx28.rnd_mono)
  then show "rnd28 (rnd28 (p / r) * 100) \<le> 100" by (simp add: rnd28_100)
  show "0 \<le> rnd28 (rnd28 (p / r) * 100)" using assms by simp
qed

lemma fill_percentage_bounds:
  assumes "fill_state z direction gap_low gap_high (rnd28 (gap_high - gap_low)) following = Lifecycle f"
    and "gap_low < gap_high"
  shows "\<exists>v. parse_decimal (partial_fill_pct f) = Some v \<and> 0 \<le> v \<and> v \<le> 100"
proof (cases "following = []")
  case True
  have "parse_decimal ''0.0'' = Some 0" by code_simp
  with assms True show ?thesis by (auto simp: fill_state_def)
next
  case False
  let ?r = "rnd28 (gap_high - gap_low)"
  let ?p = "rnd28 (rnd28 (penetration direction gap_low gap_high following / ?r) * 100)"
  have r: "0 < ?r" using assms(2) by simp
  have "0 \<le> ?p" "?p \<le> 100"
    using share_bounds [OF penetration_bounds r] assms(2) by simp_all
  then have "quantize 1 0 \<le> quantize 1 ?p" "quantize 1 ?p \<le> quantize 1 100"
    by (blast intro: quantize_mono)+
  moreover have "partial_fill_pct f = format_decimal 1 ?p"
    using assms(1) False r by (auto simp: fill_state_def Let_def split: if_splits)
  ultimately show ?thesis by (simp add: parse_format)
qed

section \<open>Later bars never undo a terminal fact\<close>

lemma confirmed_swings_subset:
  "set (by_kind (confirmed_swings z bars left right) k)
     \<subseteq> set (by_kind (confirmed_swings z (bars @ later) left right) k)"
  using arg_cong [OF confirmed_swings_append [of right bars z later left], of set]
  by (auto simp: by_kind_def)

lemma internal_swing_break_append:
  assumes "internal_swing_break z direction following"
  shows "internal_swing_break z direction (following @ later)"
proof -
  define beyond where "beyond = (\<lambda>(s::swing) (c::decimal). case direction of
      Bullish \<Rightarrow> c < swing_price s | Bearish \<Rightarrow> c > swing_price s)"
  define kd where "kd = (case direction of Bullish \<Rightarrow> LowSwing | Bearish \<Rightarrow> HighSwing)"
  have eq: "internal_swing_break z direction bs \<longleftrightarrow>
      (\<exists>s \<in> set (by_kind (confirmed_swings z bs swing_left swing_right) kd).
         \<exists>j. swing_index s + swing_right + 1 \<le> j \<and> j < length bs \<and> beyond s (b_close (bs ! j)))" for bs
    by (cases direction) (auto simp: internal_swing_break_def beyond_def kd_def list_ex_iff Bex_def)
  from assms obtain s j where sj: "s \<in> set (by_kind (confirmed_swings z following swing_left swing_right) kd)"
    "swing_index s + swing_right + 1 \<le> j" "j < length following" "beyond s (b_close (following ! j))"
    unfolding eq by blast
  then have "j < length (following @ later)" "beyond s (b_close ((following @ later) ! j))"
    by (simp_all add: nth_append)
  with sj(1,2) confirmed_swings_subset show ?thesis unfolding eq by blast
qed

lemma fill_state_append:
  assumes "fill_state z direction gap_low gap_high raw_gap following = Lifecycle f"
    and "fill_state z direction gap_low gap_high raw_gap (following @ later) = Lifecycle f'"
  shows "full_fill f \<longrightarrow> full_fill f'" "swing_broken f \<longrightarrow> swing_broken f'"
    "invalidated f \<longrightarrow> invalidated f'" "expired f \<longrightarrow> expired f'"
proof -
  let ?c = "closes_through direction gap_low gap_high"
  have "full_fill f' = list_ex ?c (following @ later)"
    "swing_broken f' = internal_swing_break z direction (following @ later)"
    "invalidated f' = (full_fill f' \<or> swing_broken f')"
    "expired f' = (fvg_expiry_bars < length (following @ later) \<and>
       \<not> list_ex ?c (take fvg_expiry_bars (following @ later)))" if "following \<noteq> []"
    using assms(2) that by (auto simp: fill_state_def Let_def split: if_splits)
  moreover have "full_fill f = list_ex ?c following"
    "swing_broken f = internal_swing_break z direction following"
    "invalidated f = (full_fill f \<or> swing_broken f)"
    "expired f = (fvg_expiry_bars < length following \<and> \<not> list_ex ?c (take fvg_expiry_bars following))"
    if "following \<noteq> []"
    using assms(1) that by (auto simp: fill_state_def Let_def split: if_splits)
  moreover have "\<not> full_fill f" "\<not> swing_broken f" "\<not> invalidated f" "\<not> expired f" if "following = []"
    using assms(1) that by (auto simp: fill_state_def)
  ultimately show "full_fill f \<longrightarrow> full_fill f'" "swing_broken f \<longrightarrow> swing_broken f'"
    "invalidated f \<longrightarrow> invalidated f'" "expired f \<longrightarrow> expired f'"
    by (cases "following = []"; auto intro: internal_swing_break_append)+
qed

section \<open>A reported gap is a gap\<close>

lemma gap_geometry_bounds:
  "gap_geometry c1 c2 c3 = Some (direction, lo, hi, displaced) \<Longrightarrow> lo < hi"
  by (auto simp: gap_geometry_def split: if_splits)

text \<open>What a gap in the report is: three registered-consecutive candles, a strict gap between the
  first and the third, and a middle candle that moves in its direction by at least the
  displacement.\<close>

definition displaced_gap ::
  "zone \<Rightarrow> bar list \<Rightarrow> decimal option \<Rightarrow> decimal \<Rightarrow> nat \<Rightarrow> gap_direction \<Rightarrow> bool" where
  "displaced_gap z bars atr_override displacement i direction \<longleftrightarrow>
     i + 2 < length bars \<and>
     bars_are_consecutive z (bars ! i) (bars ! (i + 1)) \<and>
     bars_are_consecutive z (bars ! (i + 1)) (bars ! (i + 2)) \<and>
     (case direction of
        Bullish \<Rightarrow> b_high (bars ! i) < b_low (bars ! (i + 2)) \<and>
          b_open (bars ! (i + 1)) < b_close (bars ! (i + 1))
      | Bearish \<Rightarrow> b_high (bars ! (i + 2)) < b_low (bars ! i) \<and>
          b_close (bars ! (i + 1)) < b_open (bars ! (i + 1))) \<and>
     (\<exists>atr. (case atr_override of Some a \<Rightarrow> Some a | None \<Rightarrow> atr_at_index z bars (i + 2) atr_period) = Some atr \<and>
        atr \<noteq> 0 \<and>
        rnd28 (displacement * atr) \<le> \<bar>rnd28 (b_close (bars ! (i + 1)) - b_open (bars ! (i + 1)))\<bar>)"

lemma fvg_at_geometry:
  assumes "fst (fvg_at z bars pip_size atr_override displacement i) = Some g"
  obtains lo hi where
    "gap_geometry (bars ! i) (bars ! (i + 1)) (bars ! (i + 2)) = Some (gap_direction g, lo, hi, True)"
    "bars_are_consecutive z (bars ! i) (bars ! (i + 1))"
    "bars_are_consecutive z (bars ! (i + 1)) (bars ! (i + 2))"
    "gap_low_text g = format_decimal 6 lo" "gap_high_text g = format_decimal 6 hi"
    "raw_gap_text g = format_decimal 6 (rnd28 (hi - lo))"
    "formation_start g = timestamp (bars ! i)"
    "fvg_min_raw \<le> rnd28 (hi - lo)"
    "gap_lifecycle g = LifecycleUnavailable ''missing_registered_interval'' \<or>
       gap_lifecycle g = fill_state z (gap_direction g) lo hi (rnd28 (hi - lo)) (drop (i + 3) bars)"
    "\<exists>atr. (case atr_override of Some a \<Rightarrow> Some a | None \<Rightarrow> atr_at_index z bars (i + 2) atr_period) = Some atr \<and>
        atr \<noteq> 0 \<and>
        rnd28 (displacement * atr) \<le> \<bar>rnd28 (b_close (bars ! (i + 1)) - b_open (bars ! (i + 1)))\<bar>"
proof (cases "gap_geometry (bars ! i) (bars ! (i + 1)) (bars ! (i + 2))")
  case None
  with assms show ?thesis by (simp add: fvg_at_def Let_def split: if_split_asm)
next
  case (Some gg)
  obtain direction lo hi displaced where gg: "gg = (direction, lo, hi, displaced)" by (cases gg) auto
  define atr where "atr = (case atr_override of Some a \<Rightarrow> Some a | None \<Rightarrow> atr_at_index z bars (i + 2) atr_period)"
  obtain a where a: "atr = Some a"
    using assms Some gg by (cases atr) (simp_all add: fvg_at_def Let_def flip: atr_def split: if_split_asm)
  obtain q where q: "qualify_spread (rnd28 (hi - lo)) (b_spread (bars ! (i + 2))) = Some q"
    using assms Some gg a
    by (cases "qualify_spread (rnd28 (hi - lo)) (b_spread (bars ! (i + 2)))")
       (simp_all add: fvg_at_def Let_def flip: atr_def split: if_split_asm)
  let ?body = "\<bar>rnd28 (b_close (bars ! (i + 1)) - b_open (bars ! (i + 1)))\<bar>"
  have "displaced \<and> direction = gap_direction g \<and>
      bars_are_consecutive z (bars ! i) (bars ! (i + 1)) \<and>
      bars_are_consecutive z (bars ! (i + 1)) (bars ! (i + 2)) \<and>
      gap_low_text g = format_decimal 6 lo \<and> gap_high_text g = format_decimal 6 hi \<and>
      raw_gap_text g = format_decimal 6 (rnd28 (hi - lo)) \<and>
      formation_start g = timestamp (bars ! i) \<and> fvg_min_raw \<le> rnd28 (hi - lo) \<and>
      (gap_lifecycle g = LifecycleUnavailable ''missing_registered_interval'' \<or>
       gap_lifecycle g = fill_state z direction lo hi (rnd28 (hi - lo)) (drop (i + 3) bars)) \<and>
      a \<noteq> 0 \<and> rnd28 (displacement * a) \<le> ?body"
    using assms Some gg a q
    by (simp add: fvg_at_def Let_def not_less flip: atr_def split: if_split_asm)
       auto
  then show ?thesis using Some gg a by (intro that [of lo hi]) (auto simp: atr_def)
qed

lemma fvg_at_displaced:
  assumes "fst (fvg_at z bars pip_size atr_override displacement i) = Some g" "i + 2 < length bars"
  shows "displaced_gap z bars atr_override displacement i (gap_direction g)"
proof (rule fvg_at_geometry [OF assms(1)])
  fix lo hi
  assume geo: "gap_geometry (bars ! i) (bars ! (i + 1)) (bars ! (i + 2)) = Some (gap_direction g, lo, hi, True)"
  assume "bars_are_consecutive z (bars ! i) (bars ! (i + 1))"
    "bars_are_consecutive z (bars ! (i + 1)) (bars ! (i + 2))"
    "\<exists>atr. (case atr_override of Some a \<Rightarrow> Some a | None \<Rightarrow> atr_at_index z bars (i + 2) atr_period) = Some atr \<and>
        atr \<noteq> 0 \<and>
        rnd28 (displacement * atr) \<le> \<bar>rnd28 (b_close (bars ! (i + 1)) - b_open (bars ! (i + 1)))\<bar>"
  moreover have "case gap_direction g of
      Bullish \<Rightarrow> b_high (bars ! i) < b_low (bars ! (i + 2)) \<and> b_open (bars ! (i + 1)) < b_close (bars ! (i + 1))
    | Bearish \<Rightarrow> b_high (bars ! (i + 2)) < b_low (bars ! i) \<and> b_close (bars ! (i + 1)) < b_open (bars ! (i + 1))"
    using geo by (auto simp: gap_geometry_def split: if_splits)
  ultimately show ?thesis using assms(2) by (simp add: displaced_gap_def)
qed

fun fvgs_of :: "fvg_result \<Rightarrow> fvg list" where
  "fvgs_of (FvgUnavailable _ gaps) = gaps"
| "fvgs_of (FvgAvailable gaps) = gaps"

lemma fvgs_of_find:
  assumes "g \<in> set (fvgs_of (find_fvgs z bars pip_size atr_override displacement))"
  obtains i where "i + 2 < length bars" "fst (fvg_at z bars pip_size atr_override displacement i) = Some g"
proof -
  have "fvgs_of (find_fvgs z bars pip_size atr_override displacement)
      = (if length bars < 3 then [] else List.map_filter fst
          (map (fvg_at z bars pip_size atr_override displacement) [0..<length bars - 2]))"
    by (simp add: find_fvgs_def Let_def split: option.split)
  with assms have "g \<in> set (List.map_filter fst
      (map (fvg_at z bars pip_size atr_override displacement) [0..<length bars - 2]))"
    by (simp split: if_split_asm)
  then obtain i where "i < length bars - 2" "fst (fvg_at z bars pip_size atr_override displacement i) = Some g"
    by (auto simp: map_filter_def)
  then show ?thesis by (intro that [of i]) auto
qed

section \<open>Properties\<close>

text \<open>Every reported gap is a genuine displaced imbalance: three consecutive registered bars
  whose outer wicks do not overlap, in the direction of the gap, with a middle body in that
  direction of at least the displacement times a non-zero contemporaneous range average.\<close>

lemma reported_gap_is_displaced:
  assumes "g \<in> set (fvgs_of (find_fvgs z bars pip_size atr_override displacement))"
  shows "\<exists>i. displaced_gap z bars atr_override displacement i (gap_direction g)"
proof (rule fvgs_of_find [OF assms])
  fix i assume "i + 2 < length bars" "fst (fvg_at z bars pip_size atr_override displacement i) = Some g"
  then show ?thesis using fvg_at_displaced by blast
qed

text \<open>The reported fill percentage of a gap reads back as a number between 0 and 100, however
  far the following bars travel.\<close>

lemma fill_percentage_is_bounded:
  assumes "fill_state z direction gap_low gap_high (rnd28 (gap_high - gap_low)) following = Lifecycle f"
    and "gap_low < gap_high"
  shows "\<exists>v. parse_decimal (partial_fill_pct f) = Some v \<and> 0 \<le> v \<and> v \<le> 100"
  by (rule fill_percentage_bounds [OF assms])

text \<open>The terminal facts of a gap are final: once filled, broken, invalidated or expired, a gap
  stays so whatever bars follow; in particular a fill after the expiry window does not revive it.\<close>

lemma gap_facts_are_final:
  assumes "fill_state z direction gap_low gap_high raw_gap following = Lifecycle f"
    and "fill_state z direction gap_low gap_high raw_gap (following @ later) = Lifecycle f'"
  shows "(full_fill f \<longrightarrow> full_fill f') \<and> (swing_broken f \<longrightarrow> swing_broken f')
    \<and> (invalidated f \<longrightarrow> invalidated f') \<and> (expired f \<longrightarrow> expired f')"
  using fill_state_append [OF assms] by blast

definition gap_bars :: "bar list" where
  "gap_bars = [sample_bar 0 1 2 1 2, sample_bar 1 2 10 2 9, sample_bar 2 9 12 8 11]"

lemma gap_bars_fvg:
  "\<exists>g. fst (fvg_at (fixed_zone 0) gap_bars 1 (Some 1) 1 0) = Some g \<and> gap_direction g = Bullish"
proof -
  have "rnd28 6 = 6" "rnd28 7 = 7" "rnd28 1 = 1" by code_simp+
  then show ?thesis
    by (simp add: fvg_at_def gap_bars_def sample_bar_def bars_are_consecutive_def gap_geometry_def
      qualify_spread_def fvg_min_raw_def fvg_min_atr_def fvg_min_pips_def fvg_min_spread_def Let_def)
qed

lemma single_bar_fill:
  "\<exists>f. fill_state z direction gap_low gap_high raw_gap [b] = Lifecycle f
     \<and> full_fill f = closes_through direction gap_low gap_high b"
  by (simp add: fill_state_def contiguous_def Let_def)

end
