(* ===== verification/Liquidity.thy ===== *)
theory Liquidity
  imports Zones Gaps
begin

text \<open>
  \<^verbatim>\<open>market/state/liquidity.py\<close>: sweeps (a wick through a level that is closed back within a
  window) and acceptances (a close through a level that is not reclaimed within the window),
  with the lifecycle that follows a confirmed event. Side \<^verbatim>\<open>"above"\<close> is \<open>SideAbove\<close>. A record's
  dictionary is the digest's structured value, with its values in a fixed order.
\<close>

datatype level_side = SideAbove | SideBelow

record dependency =
  dep_timestamp :: instant
  dep_revision :: int
  dep_sha :: string
  dep_gran :: granularity

definition sweep_depth_atr :: decimal where [model_defs]: "sweep_depth_atr = 1 / 10"
definition reclaim_window :: nat where [model_defs]: "reclaim_window = 3"
definition liquidity_expiry :: nat where [model_defs]: "liquidity_expiry = 50"

definition dependency :: "digest \<Rightarrow> bar \<Rightarrow> dependency" where
  [model_defs]: "dependency digest b =
     \<lparr>dep_timestamp = timestamp b, dep_revision = revision b,
      dep_sha = (if content_sha b \<noteq> [] then content_sha b
                 else digest (JList (map (\<lambda>v. JText (format_decimal 6 v))
                        [b_open b, b_high b, b_low b, b_close b]))),
      dep_gran = gran b\<rparr>"

fun gran_text :: "granularity \<Rightarrow> string" where
  "gran_text NoGran = ''''"
| "gran_text GM = ''M''"
| "gran_text GW = ''W''"
| "gran_text GD = ''D''"
| "gran_text GH4 = ''H4''"
| "gran_text GH1 = ''H1''"
| "gran_text GM15 = ''M15''"

definition dependency_json :: "dependency \<Rightarrow> json" where
  [model_defs]: "dependency_json d =
     JList [JInstant (dep_timestamp d), JInt (dep_revision d), JText (dep_sha d), JText (gran_text (dep_gran d))]"

text \<open>A close on the far side of the level, and a close back on the origin side.\<close>

fun closes_beyond :: "level_side \<Rightarrow> decimal \<Rightarrow> bar \<Rightarrow> bool" where
  "closes_beyond SideAbove level b \<longleftrightarrow> b_close b > level"
| "closes_beyond SideBelow level b \<longleftrightarrow> b_close b < level"

fun closes_back :: "level_side \<Rightarrow> decimal \<Rightarrow> bar \<Rightarrow> bool" where
  "closes_back SideAbove level b \<longleftrightarrow> b_close b < level"
| "closes_back SideBelow level b \<longleftrightarrow> b_close b > level"

section \<open>The lifecycle of a confirmed event\<close>

datatype status = Confirmed | HistoryGap | Expired | Invalidated

datatype detail =
    Sweep instant instant instant string string nat
  | Acceptance instant string

record liquidity_event =
  ev_level :: string
  ev_level_id :: string
  ev_side :: level_side
  ev_detail :: detail
  ev_available_at :: instant
  ev_status :: status
  ev_reason :: string
  breach_at :: instant
  breach_available_at :: instant
  confirmation_at :: instant
  confirmation_available_at :: instant
  dependencies :: "dependency list"
  expired_at :: "instant option"
  invalidated_at :: "instant option"
  terminal_available_at :: "instant option"
  level_dependencies :: "dependency list"
  atr_dependencies :: "dependency list"

text \<open>The branch that the loop takes at \<open>j\<close>; \<open>None\<close> is its \<^verbatim>\<open>continue\<close>.\<close>

definition terminal_reason ::
  "zone \<Rightarrow> bar list \<Rightarrow> nat \<Rightarrow> decimal \<Rightarrow> level_side \<Rightarrow> bool \<Rightarrow> nat \<Rightarrow> (status \<times> string) option" where
  [model_defs]: "terminal_reason z bars confirmation level side acceptance j =
     (let invalid = (if acceptance then closes_back side level (bars ! j)
                     else closes_beyond side level (bars ! j))
      in if \<not> contiguous z (slice (j - 1) (j + 1) bars) then Some (HistoryGap, ''confirmation_history_gap'')
         else if liquidity_expiry < j - confirmation then Some (Expired, ''lifecycle_expired'')
         else if invalid
         then Some (Invalidated, if acceptance then ''level_reclaimed'' else ''close_beyond_level'')
         else None)"

definition terminal_index ::
  "zone \<Rightarrow> bar list \<Rightarrow> nat \<Rightarrow> decimal \<Rightarrow> level_side \<Rightarrow> bool \<Rightarrow> nat option" where
  [model_defs]: "terminal_index z bars confirmation level side acceptance =
     List.find (\<lambda>j. terminal_reason z bars confirmation level side acceptance j \<noteq> None)
       [confirmation + 1..<length bars]"

text \<open>The update at the loop's \<^verbatim>\<open>break\<close>.\<close>

definition terminate_event ::
  "digest \<Rightarrow> bar list \<Rightarrow> nat \<Rightarrow> nat \<Rightarrow> status \<times> string \<Rightarrow> liquidity_event \<Rightarrow> liquidity_event" where
  [model_defs]: "terminate_event digest bars confirmation j reason event =
     event\<lparr>ev_status := fst reason, ev_reason := snd reason,
       terminal_available_at := Some (max_of (ev_available_at event
         # map available_at (slice (confirmation + 1) (j + 1) bars))),
       expired_at := (if fst reason = Expired then Some (end_or_start (bars ! j)) else expired_at event),
       invalidated_at := (if fst reason = Invalidated then Some (end_or_start (bars ! j))
                          else invalidated_at event),
       dependencies := dependencies event
         @ map (dependency digest) (slice (confirmation + 1) (j + 1) bars)\<rparr>"

definition confirm_event ::
  "digest \<Rightarrow> bar list \<Rightarrow> nat \<Rightarrow> nat \<Rightarrow> liquidity_event \<Rightarrow> liquidity_event" where
  [model_defs]: "confirm_event digest bars breach confirmation event =
     event\<lparr>ev_status := Confirmed, ev_reason := ''confirmation_complete'',
       breach_at := end_or_start (bars ! breach),
       breach_available_at := available_at (bars ! breach),
       confirmation_at := end_or_start (bars ! confirmation),
       confirmation_available_at := ev_available_at event,
       dependencies := map (dependency digest) (slice breach (confirmation + 1) bars),
       expired_at := None, invalidated_at := None, terminal_available_at := None\<rparr>"

definition lifecycle ::
  "digest \<Rightarrow> zone \<Rightarrow> liquidity_event \<Rightarrow> bar list \<Rightarrow> nat \<Rightarrow> nat \<Rightarrow> decimal \<Rightarrow> level_side \<Rightarrow> bool \<Rightarrow> liquidity_event" where
  [model_defs]: "lifecycle digest z event bars breach confirmation level side acceptance =
     (let event = confirm_event digest bars breach confirmation event in
      case terminal_index z bars confirmation level side acceptance of
        None \<Rightarrow> event
      | Some j \<Rightarrow> terminate_event digest bars confirmation j
          (the (terminal_reason z bars confirmation level side acceptance j)) event)"

text \<open>The fields of a new event that \<open>lifecycle\<close> fills; the empty ones come later.\<close>

definition new_event :: "decimal \<Rightarrow> string \<Rightarrow> level_side \<Rightarrow> detail \<Rightarrow> instant \<Rightarrow> liquidity_event" where
  [model_defs]: "new_event level level_id side det avail =
     \<lparr>ev_level = format_decimal 6 level, ev_level_id = level_id, ev_side = side, ev_detail = det,
      ev_available_at = avail, ev_status = Confirmed, ev_reason = '''', breach_at = 0,
      breach_available_at = 0, confirmation_at = 0, confirmation_available_at = 0, dependencies = [],
      expired_at = None, invalidated_at = None, terminal_available_at = None,
      level_dependencies = [], atr_dependencies = []\<rparr>"

section \<open>Sweeps\<close>

text \<open>\<^verbatim>\<open>atr if atr_history is None else atr_history.get(bar.timestamp)\<close>, and the test \<^verbatim>\<open>not event_atr\<close>.\<close>

definition event_atr ::
  "decimal option \<Rightarrow> (instant \<Rightarrow> decimal option option) option \<Rightarrow> bar \<Rightarrow> decimal option" where
  [model_defs]: "event_atr atr history b =
     (case (case history of None \<Rightarrow> atr
            | Some h \<Rightarrow> (case h (timestamp b) of None \<Rightarrow> None | Some a \<Rightarrow> a)) of
        None \<Rightarrow> None
      | Some a \<Rightarrow> if a = 0 then None else Some a)"

fun wick_breach :: "level_side \<Rightarrow> decimal \<Rightarrow> decimal \<Rightarrow> bar \<Rightarrow> bool" where
  "wick_breach SideAbove level margin b \<longleftrightarrow> rnd28 (level + margin) \<le> b_high b \<and> b_close b \<le> level"
| "wick_breach SideBelow level margin b \<longleftrightarrow> b_low b \<le> rnd28 (level - margin) \<and> level \<le> b_close b"

fun wick_penetration :: "level_side \<Rightarrow> decimal \<Rightarrow> bar \<Rightarrow> decimal" where
  "wick_penetration SideAbove level b = rnd28 (b_high b - level)"
| "wick_penetration SideBelow level b = rnd28 (level - b_low b)"

fun reclaim_distance :: "level_side \<Rightarrow> decimal \<Rightarrow> bar \<Rightarrow> decimal" where
  "reclaim_distance SideAbove level b = rnd28 (level - b_close b)"
| "reclaim_distance SideBelow level b = rnd28 (b_close b - level)"

text \<open>The inner loop: the first reclaiming close, unless a gap comes first.\<close>

definition reclaim_index ::
  "zone \<Rightarrow> bar list \<Rightarrow> decimal \<Rightarrow> level_side \<Rightarrow> nat \<Rightarrow> nat \<Rightarrow> nat option" where
  [model_defs]: "reclaim_index z bars level side i window =
     (case List.find (\<lambda>j. \<not> contiguous z (slice i (j + 1) bars) \<or> closes_back side level (bars ! j))
             [i..<min (i + window + 1) (length bars)] of
        None \<Rightarrow> None
      | Some j \<Rightarrow> if contiguous z (slice i (j + 1) bars) then Some j else None)"

definition sweep_event ::
  "digest \<Rightarrow> zone \<Rightarrow> bar list \<Rightarrow> decimal \<Rightarrow> level_side \<Rightarrow> string \<Rightarrow> decimal \<Rightarrow> nat \<Rightarrow> nat \<Rightarrow> liquidity_event" where
  [model_defs]: "sweep_event digest z bars level side level_id a i j =
     lifecycle digest z
       (new_event level level_id side
         (Sweep (timestamp (bars ! i)) (end_or_start (bars ! i)) (end_or_start (bars ! j))
           (format_decimal 6 (rnd28 (wick_penetration side level (bars ! i) / a)))
           (format_decimal 6 (rnd28 (reclaim_distance side level (bars ! j) / a)))
           (j - i))
         (avail_max (slice i (j + 1) bars)))
       bars i j level side False"

definition sweep_at ::
  "digest \<Rightarrow> zone \<Rightarrow> bar list \<Rightarrow> decimal option \<Rightarrow> decimal \<Rightarrow> level_side \<Rightarrow> string \<Rightarrow> decimal \<Rightarrow> nat
     \<Rightarrow> (instant \<Rightarrow> decimal option option) option \<Rightarrow> nat \<Rightarrow> liquidity_event option" where
  [model_defs]: "sweep_at digest z bars atr level side level_id depth window history i =
     (case event_atr atr history (bars ! i) of
        None \<Rightarrow> None
      | Some a \<Rightarrow>
          if \<not> wick_breach side level (rnd28 (depth * a)) (bars ! i) then None
          else map_option (sweep_event digest z bars level side level_id a i)
                 (reclaim_index z bars level side i window))"

definition detect_sweep ::
  "digest \<Rightarrow> zone \<Rightarrow> bar list \<Rightarrow> decimal option \<Rightarrow> decimal \<Rightarrow> level_side \<Rightarrow> string \<Rightarrow> decimal \<Rightarrow> nat
     \<Rightarrow> (instant \<Rightarrow> decimal option option) option \<Rightarrow> liquidity_event option" where
  [model_defs]: "detect_sweep digest z bars atr level side level_id depth window history =
     last_some (map (sweep_at digest z bars atr level side level_id depth window history) [0..<length bars])"

section \<open>Acceptances\<close>

definition accepted_close ::
  "zone \<Rightarrow> bar list \<Rightarrow> decimal \<Rightarrow> level_side \<Rightarrow> nat \<Rightarrow> nat \<Rightarrow> bool" where
  [model_defs]: "accepted_close z bars level side window i \<longleftrightarrow>
     closes_beyond side level (bars ! i)
     \<and> i + window < length bars
     \<and> contiguous z (slice i (i + window + 1) bars)
     \<and> \<not> list_ex (\<lambda>j. closes_back side level (bars ! j)) [i + 1..<min (i + window + 1) (length bars)]"

definition acceptance_event ::
  "digest \<Rightarrow> zone \<Rightarrow> bar list \<Rightarrow> decimal \<Rightarrow> level_side \<Rightarrow> string \<Rightarrow> nat \<Rightarrow> decimal \<Rightarrow> nat \<Rightarrow> liquidity_event" where
  [model_defs]: "acceptance_event digest z bars level side level_id window a i =
     lifecycle digest z
       (new_event level level_id side
         (Acceptance (end_or_start (bars ! i))
           (format_decimal 6 (rnd28 (\<bar>rnd28 (b_close (bars ! i) - level)\<bar> / a))))
         (avail_max (slice i (i + window + 1) bars)))
       bars i (i + window) level side True"

definition acceptance_at ::
  "digest \<Rightarrow> zone \<Rightarrow> bar list \<Rightarrow> decimal option \<Rightarrow> decimal \<Rightarrow> level_side \<Rightarrow> string \<Rightarrow> nat
     \<Rightarrow> (instant \<Rightarrow> decimal option option) option \<Rightarrow> nat \<Rightarrow> liquidity_event option" where
  [model_defs]: "acceptance_at digest z bars atr level side level_id window history i =
     (case event_atr atr history (bars ! i) of
        None \<Rightarrow> None
      | Some a \<Rightarrow> if accepted_close z bars level side window i
                  then Some (acceptance_event digest z bars level side level_id window a i) else None)"

definition detect_acceptance ::
  "digest \<Rightarrow> zone \<Rightarrow> bar list \<Rightarrow> decimal option \<Rightarrow> decimal \<Rightarrow> level_side \<Rightarrow> string \<Rightarrow> nat
     \<Rightarrow> (instant \<Rightarrow> decimal option option) option \<Rightarrow> liquidity_event option" where
  [model_defs]: "detect_acceptance digest z bars atr level side level_id window history =
     last_some (map (acceptance_at digest z bars atr level side level_id window history) [0..<length bars])"

section \<open>The context block\<close>

record liquidity_block =
  resistance_level :: "string option"
  sweep_above :: "liquidity_event option"
  acceptance_above :: "liquidity_event option"
  support_level :: "string option"
  sweep_below :: "liquidity_event option"
  acceptance_below :: "liquidity_event option"

definition atr_history :: "zone \<Rightarrow> bar list \<Rightarrow> instant \<Rightarrow> decimal option option" where
  [model_defs]: "atr_history z bars =
     map_of (rev (map (\<lambda>i. (timestamp (bars ! i), atr_at_index z bars i atr_period)) [0..<length bars]))"

text \<open>\<^verbatim>\<open>any(atr_history.values())\<close>.\<close>

definition any_atr :: "zone \<Rightarrow> bar list \<Rightarrow> bool" where
  [model_defs]: "any_atr z bars \<longleftrightarrow>
     list_ex (\<lambda>b. case atr_history z bars (timestamp b) of
                    Some (Some a) \<Rightarrow> a \<noteq> 0 | _ \<Rightarrow> False) bars"

definition pivot_window :: "bar list \<Rightarrow> swing \<Rightarrow> bar list" where
  [model_defs]: "pivot_window bars pivot =
     slice (swing_index pivot - swing_left) (swing_index pivot + swing_right + 1) bars"

definition level_identity ::
  "digest \<Rightarrow> string \<Rightarrow> string \<Rightarrow> string \<Rightarrow> bar list \<Rightarrow> string" where
  [model_defs]: "level_identity digest instrument_code timeframe kind window =
     digest (JList [JText instrument_code, JText timeframe, JText kind,
       JList (map (\<lambda>b. dependency_json (dependency digest b)) window)])"

text \<open>The adjustment of one event to the availability of its level.\<close>

definition with_level :: "digest \<Rightarrow> bar list \<Rightarrow> liquidity_event \<Rightarrow> liquidity_event" where
  [model_defs]: "with_level digest window event =
     event\<lparr>ev_available_at := max (avail_max window) (ev_available_at event),
       breach_available_at := max (avail_max window) (breach_available_at event),
       level_dependencies := map (dependency digest) window\<rparr>"

text \<open>The final adjustment to the ATR inputs. The search for the breach bar always succeeds
  (\<open>breach_index_found\<close> below), so the unreachable \<^verbatim>\<open>StopIteration\<close> is the unchanged event.\<close>

definition with_atr :: "digest \<Rightarrow> bar list \<Rightarrow> liquidity_event \<Rightarrow> liquidity_event" where
  [model_defs]: "with_atr digest bars event =
     (case find_index (\<lambda>b. end_or_start b = breach_at event) bars of
        None \<Rightarrow> event
      | Some index \<Rightarrow>
          (let window = slice (index - atr_period) (index + 1) bars;
               avail = max_of (ev_available_at event # map available_at window)
           in event\<lparr>ev_available_at := avail,
                atr_dependencies := map (dependency digest) window,
                breach_available_at := max_of (breach_available_at event # map available_at window),
                confirmation_available_at := avail,
                terminal_available_at := map_option (\<lambda>t. max t avail) (terminal_available_at event)\<rparr>))"

definition level_events ::
  "digest \<Rightarrow> zone \<Rightarrow> bar list \<Rightarrow> decimal option \<Rightarrow> string \<Rightarrow> string \<Rightarrow> string \<Rightarrow> level_side \<Rightarrow> swing
     \<Rightarrow> liquidity_event option \<times> liquidity_event option" where
  [model_defs]: "level_events digest z bars atr instrument_code timeframe kind side pivot =
     (let window = pivot_window bars pivot;
          after = drop (swing_index pivot + swing_right + 1) bars;
          level_id = level_identity digest instrument_code timeframe kind window;
          seal = (\<lambda>e. with_atr digest bars (with_level digest window e))
      in (map_option seal (detect_sweep digest z after atr (swing_price pivot) side level_id
            sweep_depth_atr reclaim_window (Some (atr_history z bars))),
          map_option seal (detect_acceptance digest z after atr (swing_price pivot) side level_id
            reclaim_window (Some (atr_history z bars)))))"

definition liquidity_context ::
  "digest \<Rightarrow> zone \<Rightarrow> bar list \<Rightarrow> decimal option \<Rightarrow> string \<Rightarrow> string \<Rightarrow> liquidity_block feature" where
  [model_defs]: "liquidity_context digest z bars atr instrument_code timeframe =
     (if \<not> any_atr z bars then Unavailable ''atr_unavailable''
      else
        (let swings = confirmed_swings z bars swing_left swing_right;
             highs = by_kind swings HighSwing; lows = by_kind swings LowSwing;
             above = (if highs = [] then (None, None)
               else level_events digest z bars atr instrument_code timeframe ''high'' SideAbove (last highs));
             below = (if lows = [] then (None, None)
               else level_events digest z bars atr instrument_code timeframe ''low'' SideBelow (last lows))
         in if highs = [] \<and> lows = [] then Unavailable ''insufficient_history''
            else Available
              \<lparr>resistance_level = (if highs = [] then None else Some (format_decimal 6 (swing_price (last highs)))),
               sweep_above = fst above, acceptance_above = snd above,
               support_level = (if lows = [] then None else Some (format_decimal 6 (swing_price (last lows)))),
               sweep_below = fst below, acceptance_below = snd below\<rparr>))"

section \<open>What an event is, and its stability under later bars\<close>

lemma find_cong_set: "(\<And>x. x \<in> set xs \<Longrightarrow> p x = q x) \<Longrightarrow> List.find p xs = List.find q xs"
  by (induction xs) auto

lemma find_upt_Some:
  assumes "List.find p [a..<m] = Some j"
  shows "a \<le> j \<and> j < m \<and> p j \<and> (\<forall>k. a \<le> k \<and> k < j \<longrightarrow> \<not> p k)"
proof -
  obtain i where i: "i < m - a" "p (a + i)" "j = a + i" "\<forall>k < i. \<not> p (a + k)"
    using assms by (auto simp: find_Some_iff)
  have "\<not> p k" if "a \<le> k" "k < j" for k
    using i(4) [rule_format, of "k - a"] i(3) that by simp
  then show ?thesis using i by auto
qed

lemma find_upt_later:
  assumes "List.find p [a..<n] = Some j" "n \<le> m" "\<And>i. a \<le> i \<Longrightarrow> i < n \<Longrightarrow> q i = p i"
  shows "List.find q [a..<m] = Some j"
proof (cases "a \<le> n")
  case True
  have "List.find q [a..<n] = Some j" using assms(1,3) find_cong_set [of "[a..<n]" q p] by simp
  moreover have "[a..<m] = [a..<n] @ [n..<m]"
    using True assms(2) by (metis le_Suc_ex upt_add_eq_append)
  ultimately show ?thesis by (simp add: find_append)
qed (use assms(1) in simp)

lemma terminal_reason_append:
  "j < length bars \<Longrightarrow> terminal_reason z (bars @ later) c level side acc j = terminal_reason z bars c level side acc j"
  by (simp add: terminal_reason_def nth_append)

lemma terminal_index_range: "terminal_index z bars c level side acc = Some j \<Longrightarrow> c < j \<and> j < length bars"
  by (auto simp: terminal_index_def find_Some_iff)

lemma terminal_index_append:
  assumes "terminal_index z bars c level side acc = Some j"
  shows "terminal_index z (bars @ later) c level side acc = Some j"
  using assms unfolding terminal_index_def
  by (rule find_upt_later) (simp_all add: terminal_reason_append)

lemma lifecycle_status:
  "ev_status (lifecycle digest z event bars b c level side acc) \<noteq> Confirmed
     \<Longrightarrow> terminal_index z bars c level side acc \<noteq> None"
  by (auto simp: lifecycle_def confirm_event_def Let_def split: option.splits)

lemma lifecycle_append:
  assumes "terminal_index z bars c level side acc \<noteq> None" "b \<le> c"
  shows "lifecycle digest z event (bars @ later) b c level side acc
    = lifecycle digest z event bars b c level side acc"
proof -
  obtain j where j: "terminal_index z bars c level side acc = Some j" using assms(1) by blast
  note r = terminal_index_range [OF j]
  then show ?thesis using j assms(2) terminal_index_append [OF j, of later]
    by (simp add: lifecycle_def terminal_reason_append confirm_event_def terminate_event_def nth_append Let_def)
qed

lemma contiguous_gap_first:
  "\<not> contiguous z (slice i (j + 1) bars) \<Longrightarrow> j \<le> k \<Longrightarrow> \<not> contiguous z (slice i (k + 1) bars)"
proof -
  assume "\<not> contiguous z (slice i (j + 1) bars)" "j \<le> k"
  moreover have "slice i (j + 1) bars = take (j + 1 - i) (slice i (k + 1) bars)"
    using \<open>j \<le> k\<close> by (simp add: slice_def)
  ultimately show ?thesis
    by (metis adjacent_all_append1 append_take_drop_id contiguous_def)
qed

lemma reclaim_index_Some:
  assumes "reclaim_index z bars level side i window = Some j"
  shows "i \<le> j \<and> j \<le> i + window \<and> j < length bars \<and> contiguous z (slice i (j + 1) bars)
    \<and> closes_back side level (bars ! j) \<and> (\<forall>k. i \<le> k \<and> k < j \<longrightarrow> \<not> closes_back side level (bars ! k))"
  using assms by (auto simp: reclaim_index_def split: option.splits if_splits dest!: find_upt_Some)

lemma reclaim_index_append:
  assumes "reclaim_index z bars level side i window = Some j"
  shows "reclaim_index z (bars @ later) level side i window = Some j"
proof -
  let ?p = "\<lambda>xs j. \<not> contiguous z (slice i (j + 1) xs) \<or> closes_back side level (xs ! j)"
  have f: "List.find (?p bars) [i..<min (i + window + 1) (length bars)] = Some j"
    and c: "contiguous z (slice i (j + 1) bars)"
    using assms by (auto simp: reclaim_index_def split: option.splits if_splits)
  have j: "j < length bars" using reclaim_index_Some [OF assms] by simp
  have "List.find (?p (bars @ later)) [i..<min (i + window + 1) (length (bars @ later))] = Some j"
    by (rule find_upt_later [OF f]) (auto simp: nth_append)
  then show ?thesis using c j by (simp add: reclaim_index_def)
qed

lemma sweep_event_append:
  assumes "ev_status (sweep_event digest z bars level side level_id a i j) \<noteq> Confirmed"
    "i \<le> j" "j < length bars"
  shows "sweep_event digest z (bars @ later) level side level_id a i j
    = sweep_event digest z bars level side level_id a i j"
  using assms lifecycle_append [OF lifecycle_status]
  by (simp add: sweep_event_def nth_append)

lemma sweep_at_append:
  assumes "sweep_at digest z bars atr level side level_id depth window h i = Some e"
    "ev_status e \<noteq> Confirmed" "i < length bars"
  shows "sweep_at digest z (bars @ later) atr level side level_id depth window h i = Some e"
proof -
  have nth: "(bars @ later) ! i = bars ! i" using assms(3) by (simp add: nth_append)
  obtain a j where a: "event_atr atr h (bars ! i) = Some a"
      "wick_breach side level (rnd28 (depth * a)) (bars ! i)"
    and j: "reclaim_index z bars level side i window = Some j"
    and e: "e = sweep_event digest z bars level side level_id a i j"
    using assms(1) by (auto simp: sweep_at_def split: option.splits if_splits)
  have "sweep_event digest z (bars @ later) level side level_id a i j = e"
    using sweep_event_append [of digest z bars level side level_id a i j later] assms(2) e
      reclaim_index_Some [OF j] by simp
  then show ?thesis using a reclaim_index_append [OF j, of later]
    by (simp add: sweep_at_def nth)
qed

lemma sweep_at_facts:
  assumes "sweep_at digest z bars atr level side level_id depth window h i = Some e"
  obtains a j where "event_atr atr h (bars ! i) = Some a"
    "wick_breach side level (rnd28 (depth * a)) (bars ! i)"
    "reclaim_index z bars level side i window = Some j"
    "e = sweep_event digest z bars level side level_id a i j"
  using assms by (auto simp: sweep_at_def split: option.splits if_splits)

lemma wick_breach_not_beyond: "wick_breach side level margin b \<Longrightarrow> \<not> closes_beyond side level b"
  by (cases side) auto

lemma lifecycle_breach_at [simp]:
  "breach_at (lifecycle digest z event bars b c level side acc) = end_or_start (bars ! b)"
  by (simp add: lifecycle_def confirm_event_def terminate_event_def Let_def split: option.split)

lemma last_some_in: "last_some xs = Some x \<Longrightarrow> Some x \<in> set xs"
proof (induction xs)
  case (Cons y ys)
  then show ?case by (cases "last_some ys") auto
qed simp

lemma detect_sweep_at:
  "detect_sweep digest z bars atr level side level_id depth window h = Some e
     \<Longrightarrow> \<exists>i < length bars. sweep_at digest z bars atr level side level_id depth window h i = Some e"
  unfolding detect_sweep_def using last_some_in by fastforce

lemma detect_acceptance_at:
  "detect_acceptance digest z bars atr level side level_id window h = Some e
     \<Longrightarrow> \<exists>i < length bars. acceptance_at digest z bars atr level side level_id window h i = Some e"
  unfolding detect_acceptance_def using last_some_in by fastforce

lemma sweep_at_breach: "sweep_at digest z bars atr level side level_id depth window h i = Some e
    \<Longrightarrow> breach_at e = end_or_start (bars ! i)"
  by (erule sweep_at_facts) (simp add: sweep_event_def)

lemma acceptance_at_breach: "acceptance_at digest z bars atr level side level_id window h i = Some e
    \<Longrightarrow> breach_at e = end_or_start (bars ! i)"
  by (auto simp: acceptance_at_def acceptance_event_def split: option.splits if_splits)

text \<open>The search of \<open>with_atr\<close> finds the breach bar of every event of \<open>level_events\<close>.\<close>

lemma breach_index_found:
  assumes "detect_sweep digest z (drop n bars) atr level side level_id depth window h = Some e
    \<or> detect_acceptance digest z (drop n bars) atr level side level_id window h = Some e"
  shows "find_index (\<lambda>b. end_or_start b = breach_at e) bars \<noteq> None"
proof -
  obtain i where "i < length (drop n bars)" "breach_at e = end_or_start (drop n bars ! i)"
    using assms detect_sweep_at detect_acceptance_at sweep_at_breach acceptance_at_breach by metis
  then have "drop n bars ! i \<in> set bars" "breach_at e = end_or_start (drop n bars ! i)"
    using in_set_dropD nth_mem by metis+
  then show ?thesis by (auto simp: find_index_None)
qed

section \<open>Properties\<close>

text \<open>A sweep whose lifecycle has ended is final: once expired, invalidated or cut by a history
  gap, the event found at a bar is the same event, field by field, whatever bars follow.\<close>

lemma terminal_sweep_is_final:
  assumes "sweep_at digest z bars atr level side level_id depth window h i = Some e"
    "ev_status e \<noteq> Confirmed" "i < length bars"
  shows "sweep_at digest z (bars @ later) atr level side level_id depth window h i = Some e"
  by (rule sweep_at_append [OF assms])

text \<open>A bar is never both the breach of a sweep and of an acceptance of one level: a sweep needs
  the close at or inside the level, an acceptance a close beyond it.\<close>

lemma sweep_excludes_acceptance:
  assumes "sweep_at digest z bars atr level side level_id depth window h i = Some e"
  shows "acceptance_at digest z bars atr level side level_id window' h i = None"
  using assms wick_breach_not_beyond
  by (auto simp: acceptance_at_def accepted_close_def split: option.split elim!: sweep_at_facts)

definition swept_bars :: "bar list" where
  "swept_bars = [sample_bar 0 8 12 7 9, sample_bar 1 9 12 9 11]"

lemma swept_bars_sweep:
  "\<exists>e. sweep_at digest (fixed_zone 0) swept_bars (Some 1) 10 SideAbove ''level'' 1 3 None 0 = Some e
     \<and> ev_status e = Invalidated"
proof -
  have r: "rnd28 1 = 1" "rnd28 11 = 11" by code_simp+
  have "reclaim_index (fixed_zone 0) swept_bars 10 SideAbove 0 3 = Some 0"
    by code_simp
  moreover have "terminal_index (fixed_zone 0) swept_bars 0 10 SideAbove False = Some 1"
    "terminal_reason (fixed_zone 0) swept_bars 0 10 SideAbove False 1 = Some (Invalidated, ''close_beyond_level'')"
    by code_simp+
  ultimately show ?thesis
    by (simp add: sweep_at_def event_atr_def swept_bars_def sample_bar_def r sweep_event_def lifecycle_def
        terminate_event_def confirm_event_def Let_def)
qed

end
