(* ===== verification/Indicators.thy ===== *)
theory Indicators
  imports Canonical Calendar
begin

text \<open>
  The first half of \<^verbatim>\<open>research/strategy.py\<close>: point-in-time views over bid/ask candles, moving
  averages, average true range, pivots and the daily bias of the frozen failed-break strategy;
  and the incremental counterparts of \<^verbatim>\<open>research/failed_break_detector_v2.py\<close>
  (\<^verbatim>\<open>IncrementalEma\<close>, \<^verbatim>\<open>IncrementalAtr\<close>, \<^verbatim>\<open>IncrementalDailyState\<close>), with the lemmas that make them
  equal. All arithmetic runs in the default decimal context.
\<close>

record context_at =
  as_of :: instant
  strategy_version :: string
  dataset_version :: string

record candle =
  opened_at :: instant
  completed_at :: instant
  bid_o :: decimal
  bid_h :: decimal
  bid_l :: decimal
  bid_c :: decimal
  ask_o :: decimal
  ask_h :: decimal
  ask_l :: decimal
  ask_c :: decimal
  complete :: bool

definition mid_price :: "decimal \<Rightarrow> decimal \<Rightarrow> decimal" where
  [model_defs]: "mid_price bid ask = rnd28 (rnd28 (bid + ask) / 2)"

definition c_open :: "candle \<Rightarrow> decimal" where [model_defs]: "c_open c = mid_price (bid_o c) (ask_o c)"
definition c_high :: "candle \<Rightarrow> decimal" where [model_defs]: "c_high c = mid_price (bid_h c) (ask_h c)"
definition c_low :: "candle \<Rightarrow> decimal" where [model_defs]: "c_low c = mid_price (bid_l c) (ask_l c)"
definition c_close :: "candle \<Rightarrow> decimal" where [model_defs]: "c_close c = mid_price (bid_c c) (ask_c c)"

record point =
  point_at :: instant
  point_value :: decimal

datatype pivot_kind = PivotHigh | PivotLow

record pivot =
  pivot_at :: instant
  pivot_available_at :: instant
  pivot_price :: decimal
  pivot_kind :: pivot_kind

datatype bias = Bullish_Bias | Bearish_Bias | Neutral_Bias

section \<open>Visible candles\<close>

definition completed_candles :: "candle list \<Rightarrow> context_at \<Rightarrow> candle list" where
  [model_defs]: "completed_candles candles ctx =
     sort_key opened_at (filter (\<lambda>c. complete c \<and> completed_at c \<le> as_of ctx) candles)"

section \<open>Moving averages and the average true range\<close>

fun ema_from :: "decimal \<Rightarrow> decimal \<Rightarrow> candle list \<Rightarrow> point list" where
  "ema_from multiplier v [] = []"
| "ema_from multiplier v (c # cs) =
     (let v' = rnd28 (v + rnd28 (multiplier * rnd28 (c_close c - v)))
      in \<lparr>point_at = completed_at c, point_value = v'\<rparr> # ema_from multiplier v' cs)"

definition ema :: "candle list \<Rightarrow> nat \<Rightarrow> context_at \<Rightarrow> point list" where
  [model_defs]: "ema candles period ctx =
     (let data = completed_candles candles ctx in
      if period < 1 \<or> length data < period then []
      else
        (let v = rnd28 (py_sum rnd28 (map c_close (take period data)) / of_nat period)
         in \<lparr>point_at = completed_at (data ! (period - 1)), point_value = v\<rparr>
              # ema_from (rnd28 (2 / of_nat (period + 1))) v (drop period data)))"

definition ema50 :: "candle list \<Rightarrow> context_at \<Rightarrow> point list" where
  [model_defs]: "ema50 candles ctx = ema candles 50 ctx"

definition ema200 :: "candle list \<Rightarrow> context_at \<Rightarrow> point list" where
  [model_defs]: "ema200 candles ctx = ema candles 200 ctx"

definition range_after :: "decimal \<Rightarrow> candle \<Rightarrow> decimal" where
  [model_defs]: "range_after previous_close c =
     max (rnd28 (c_high c - c_low c))
       (max \<bar>rnd28 (c_high c - previous_close)\<bar> \<bar>rnd28 (c_low c - previous_close)\<bar>)"

text \<open>\<^verbatim>\<open>data[index - 1].close if index else candle.close\<close>.\<close>

definition candle_ranges :: "candle list \<Rightarrow> decimal list" where
  [model_defs]: "candle_ranges data =
     map (\<lambda>i. range_after (if i \<noteq> 0 then c_close (data ! (i - 1)) else c_close (data ! i)) (data ! i))
       [0..<length data]"

fun atr_from :: "decimal \<Rightarrow> (candle \<times> decimal) list \<Rightarrow> point list" where
  "atr_from v [] = []"
| "atr_from v ((c, true_range) # rest) =
     (let v' = rnd28 (rnd28 (rnd28 (v * 13) + true_range) / 14)
      in \<lparr>point_at = completed_at c, point_value = v'\<rparr> # atr_from v' rest)"

definition atr14 :: "candle list \<Rightarrow> context_at \<Rightarrow> point list" where
  [model_defs]: "atr14 candles ctx =
     (let data = completed_candles candles ctx in
      if length data < 14 then []
      else
        (let ranges = candle_ranges data;
             v = rnd28 (py_sum rnd28 (take 14 ranges) / 14)
         in \<lparr>point_at = completed_at (data ! 13), point_value = v\<rparr>
              # atr_from v (zip (drop 14 data) (drop 14 ranges))))"

section \<open>Pivots, structure and bias\<close>

text \<open>The pivots of one five-candle window, the centre at position 2.\<close>

definition window_pivots :: "candle list \<Rightarrow> pivot list" where
  [model_defs]: "window_pivots w =
     (let center = w ! 2; peers = [w ! 0, w ! 1, w ! 3, w ! 4]; avail = completed_at (w ! 4)
      in (if list_all (\<lambda>p. c_high p < c_high center) peers
          then [\<lparr>pivot_at = opened_at center, pivot_available_at = avail,
                 pivot_price = c_high center, pivot_kind = PivotHigh\<rparr>] else [])
       @ (if list_all (\<lambda>p. c_low center < c_low p) peers
          then [\<lparr>pivot_at = opened_at center, pivot_available_at = avail,
                 pivot_price = c_low center, pivot_kind = PivotLow\<rparr>] else []))"

definition daily_pivots :: "candle list \<Rightarrow> context_at \<Rightarrow> pivot list" where
  [model_defs]: "daily_pivots candles ctx =
     (let data = completed_candles candles ctx in
      concat (map (\<lambda>i. window_pivots (slice (i - 2) (i + 3) data)) [2..<length data - 2]))"

definition pivots_of :: "pivot_kind \<Rightarrow> pivot list \<Rightarrow> pivot list" where
  [model_defs]: "pivots_of k ps = filter (\<lambda>p. pivot_kind p = k) ps"

definition last_pivot :: "pivot list \<Rightarrow> decimal" where
  [model_defs]: "last_pivot ps = pivot_price (last ps)"

definition prev_pivot :: "pivot list \<Rightarrow> decimal" where
  [model_defs]: "prev_pivot ps = pivot_price (ps ! (length ps - 2))"

definition market_structure :: "pivot list \<Rightarrow> decimal \<Rightarrow> context_at \<Rightarrow> bias" where
  [model_defs]: "market_structure pivots latest_daily_close ctx =
     (let visible = filter (\<lambda>p. pivot_available_at p \<le> as_of ctx) pivots;
          highs = pivots_of PivotHigh visible; lows = pivots_of PivotLow visible in
      if length highs < 2 \<or> length lows < 2 then Neutral_Bias
      else if last_pivot highs > prev_pivot highs \<and> last_pivot lows > prev_pivot lows
        \<and> latest_daily_close > last_pivot lows then Bullish_Bias
      else if last_pivot highs < prev_pivot highs \<and> last_pivot lows < prev_pivot lows
        \<and> latest_daily_close < last_pivot highs then Bearish_Bias
      else Neutral_Bias)"

definition daily_bias :: "candle list \<Rightarrow> pivot list \<Rightarrow> context_at \<Rightarrow> bias" where
  [model_defs]: "daily_bias candles pivots ctx =
     (let data = completed_candles candles ctx; fast = ema50 data ctx; slow = ema200 data ctx in
      if data = [] \<or> length fast < 21 \<or> slow = [] then Neutral_Bias
      else
        (let structure = market_structure pivots (c_close (last data)) ctx;
             now = point_value (last fast); slow_now = point_value (last slow);
             before = point_value (fast ! (length fast - 21)) in
         if structure = Bullish_Bias \<and> now > slow_now \<and> now > before then Bullish_Bias
         else if structure = Bearish_Bias \<and> now < slow_now \<and> now < before then Bearish_Bias
         else Neutral_Bias))"

definition supporting_swing :: "pivot list \<Rightarrow> bias \<Rightarrow> context_at \<Rightarrow> pivot option" where
  [model_defs]: "supporting_swing pivots b ctx =
     (let kind = (case b of Bullish_Bias \<Rightarrow> Some PivotLow | Bearish_Bias \<Rightarrow> Some PivotHigh
                  | Neutral_Bias \<Rightarrow> None)
      in first_max_by pivot_available_at
           (filter (\<lambda>p. Some (pivot_kind p) = kind \<and> pivot_available_at p \<le> as_of ctx) pivots))"

section \<open>The incremental state of the second detector\<close>

record ema_state =
  e_period :: nat
  e_seed :: "decimal list"
  e_value :: "decimal option"
  e_alpha :: decimal

definition incremental_ema :: "nat \<Rightarrow> ema_state" where
  [model_defs]: "incremental_ema period =
     \<lparr>e_period = period, e_seed = [], e_value = None, e_alpha = rnd28 (2 / of_nat (period + 1))\<rparr>"

definition ema_update :: "decimal \<Rightarrow> ema_state \<Rightarrow> ema_state" where
  [model_defs]: "ema_update x st =
     (case e_value st of
        None \<Rightarrow>
          (let seed = e_seed st @ [x] in
           if length seed = e_period st
           then st\<lparr>e_seed := seed, e_value := Some (rnd28 (py_sum rnd28 seed / of_nat (e_period st)))\<rparr>
           else st\<lparr>e_seed := seed\<rparr>)
      | Some v \<Rightarrow> st\<lparr>e_value := Some (rnd28 (v + rnd28 (e_alpha st * rnd28 (x - v))))\<rparr>)"

record atr_state =
  a_period :: nat
  a_ranges :: "decimal list"
  a_previous_close :: "decimal option"
  a_value :: "decimal option"

definition incremental_atr :: "nat \<Rightarrow> atr_state" where
  [model_defs]: "incremental_atr period =
     \<lparr>a_period = period, a_ranges = [], a_previous_close = None, a_value = None\<rparr>"

definition atr_update :: "decimal \<Rightarrow> decimal \<Rightarrow> decimal \<Rightarrow> atr_state \<Rightarrow> atr_state" where
  [model_defs]: "atr_update high low close st =
     (let base = rnd28 (high - low);
          true_range = (case a_previous_close st of None \<Rightarrow> base
            | Some p \<Rightarrow> max base (max \<bar>rnd28 (high - p)\<bar> \<bar>rnd28 (low - p)\<bar>));
          st = st\<lparr>a_previous_close := Some close\<rparr>
      in case a_value st of
           None \<Rightarrow>
             (let ranges = a_ranges st @ [true_range] in
              if length ranges = a_period st
              then st\<lparr>a_ranges := ranges, a_value := Some (rnd28 (py_sum rnd28 ranges / of_nat (a_period st)))\<rparr>
              else st\<lparr>a_ranges := ranges\<rparr>)
         | Some v \<Rightarrow> st\<lparr>a_value := Some (rnd28 (rnd28 (rnd28 (v * of_nat (a_period st - 1)) + true_range)
             / of_nat (a_period st)))\<rparr>)"

record daily_update =
  u_ema50 :: "decimal option"
  u_ema200 :: "decimal option"
  u_atr14 :: "decimal option"
  u_new_pivots :: "pivot list"
  u_prior_20_high :: "decimal option"
  u_prior_20_low :: "decimal option"

record daily_state =
  s_ema50 :: ema_state
  s_ema200 :: ema_state
  s_atr14 :: atr_state
  s_pivot_window :: "candle list"
  s_breakout_window :: "candle list"

definition incremental_daily :: daily_state where
  [model_defs]: "incremental_daily =
     \<lparr>s_ema50 = incremental_ema 50, s_ema200 = incremental_ema 200, s_atr14 = incremental_atr 14,
      s_pivot_window = [], s_breakout_window = []\<rparr>"

text \<open>\<^verbatim>\<open>deque(maxlen=n).append\<close>.\<close>

definition push_window :: "nat \<Rightarrow> 'a list \<Rightarrow> 'a \<Rightarrow> 'a list" where
  [model_defs]: "push_window n w x = last_n n (w @ [x])"

definition daily_step :: "candle \<Rightarrow> daily_state \<Rightarrow> daily_state \<times> daily_update" where
  [model_defs]: "daily_step c st =
     (let w = s_breakout_window st;
          breakout_ready = (length w = 20);
          fast = ema_update (c_close c) (s_ema50 st);
          slow = ema_update (c_close c) (s_ema200 st);
          atr = atr_update (c_high c) (c_low c) (c_close c) (s_atr14 st);
          pivot_window = push_window 5 (s_pivot_window st) c;
          pivots = (if length pivot_window = 5 then window_pivots pivot_window else [])
      in (\<lparr>s_ema50 = fast, s_ema200 = slow, s_atr14 = atr, s_pivot_window = pivot_window,
           s_breakout_window = push_window 20 w c\<rparr>,
          \<lparr>u_ema50 = e_value fast, u_ema200 = e_value slow, u_atr14 = a_value atr,
           u_new_pivots = pivots,
           u_prior_20_high = (if breakout_ready then Some (max_of (map c_high w)) else None),
           u_prior_20_low = (if breakout_ready then Some (min_of (map c_low w)) else None)\<rparr>))"

fun daily_run :: "daily_state \<Rightarrow> candle list \<Rightarrow> daily_update list" where
  "daily_run st [] = []"
| "daily_run st (c # cs) = snd (daily_step c st) # daily_run (fst (daily_step c st)) cs"

section \<open>Point in time: later candles are invisible\<close>

lemma completed_candles_idem [simp]: "completed_candles (completed_candles cs ctx) ctx = completed_candles cs ctx"
  by (simp add: completed_candles_def filter_sort sort_key_id_if_sorted)

lemma completed_candles_later:
  "\<forall>c \<in> set later. as_of ctx < completed_at c
     \<Longrightarrow> completed_candles (cs @ later) ctx = completed_candles cs ctx"
  by (simp add: completed_candles_def filter_empty_conv[THEN iffD2] linorder_not_le)

lemma completed_candles_visible:
  "c \<in> set (completed_candles cs ctx) \<longleftrightarrow> c \<in> set cs \<and> complete c \<and> completed_at c \<le> as_of ctx"
  by (auto simp: completed_candles_def)

lemma completed_candles_sorted: "sorted (map opened_at (completed_candles cs ctx))"
  by (simp add: completed_candles_def)

section \<open>Warm-up averages\<close>

text \<open>
  Both incremental averages collect a seed of \<open>n\<close> observations, publish its mean, and smooth
  from there on. The locale is that contract; its lemma is the closed form of everything such
  a component ever publishes.
\<close>

fun outputs :: "('i \<Rightarrow> 's \<Rightarrow> 's) \<Rightarrow> ('s \<Rightarrow> 'v option) \<Rightarrow> 's \<Rightarrow> 'i list \<Rightarrow> 'v list" where
  "outputs step val s [] = []"
| "outputs step val s (i # is) =
     (case val (step i s) of None \<Rightarrow> [] | Some v \<Rightarrow> [v]) @ outputs step val (step i s) is"

fun observations :: "('i \<Rightarrow> 's \<Rightarrow> 's) \<Rightarrow> ('i \<Rightarrow> 's \<Rightarrow> 'o) \<Rightarrow> 's \<Rightarrow> 'i list \<Rightarrow> 'o list" where
  "observations step obs s [] = []"
| "observations step obs s (i # is) = obs i s # observations step obs (step i s) is"

fun scan :: "('v \<Rightarrow> 'o \<Rightarrow> 'v) \<Rightarrow> 'v \<Rightarrow> 'o list \<Rightarrow> 'v list" where
  "scan smooth v [] = []"
| "scan smooth v (x # xs) = smooth v x # scan smooth (smooth v x) xs"

definition seeded :: "nat \<Rightarrow> ('o list \<Rightarrow> 'v) \<Rightarrow> ('v \<Rightarrow> 'o \<Rightarrow> 'v) \<Rightarrow> 'o list \<Rightarrow> 'v list" where
  "seeded n avg smooth xs =
     (if length xs < n then [] else avg (take n xs) # scan smooth (avg (take n xs)) (drop n xs))"

locale warm_start =
  fixes ok :: "'s \<Rightarrow> bool"
    and step :: "'i \<Rightarrow> 's \<Rightarrow> 's"
    and obs :: "'i \<Rightarrow> 's \<Rightarrow> 'o"
    and seed :: "'s \<Rightarrow> 'o list"
    and val :: "'s \<Rightarrow> 'v option"
    and n :: nat
    and avg :: "'o list \<Rightarrow> 'v"
    and smooth :: "'v \<Rightarrow> 'o \<Rightarrow> 'v"
  assumes ok_step: "ok s \<Longrightarrow> ok (step i s)"
    and warming: "ok s \<Longrightarrow> val s = None \<Longrightarrow> length (seed s) < n"
    and seed_step: "ok s \<Longrightarrow> val s = None \<Longrightarrow> seed (step i s) = seed s @ [obs i s]"
    and first_value: "ok s \<Longrightarrow> val s = None \<Longrightarrow>
      val (step i s) = (if length (seed s) + 1 = n then Some (avg (seed s @ [obs i s])) else None)"
    and warm: "ok s \<Longrightarrow> val s = Some v \<Longrightarrow> val (step i s) = Some (smooth v (obs i s))"
begin

lemma outputs_warm:
  "ok s \<Longrightarrow> val s = Some v \<Longrightarrow> outputs step val s is = scan smooth v (observations step obs s is)"
  by (induction "is" arbitrary: s v) (simp_all add: warm ok_step)

lemma outputs_cold:
  "ok s \<Longrightarrow> val s = None \<Longrightarrow>
     outputs step val s is = seeded n avg smooth (seed s @ observations step obs s is)"
proof (induction "is" arbitrary: s)
  case Nil
  then show ?case using warming by (simp add: seeded_def)
next
  case (Cons i "is")
  show ?case
  proof (cases "length (seed s) + 1 = n")
    case True
    then have "n - length (seed s) = 1" by simp
    then show ?thesis using Cons.prems True
      by (simp add: first_value seeded_def outputs_warm [OF ok_step])
  next
    case False
    then show ?thesis using Cons.prems Cons.IH [OF ok_step, of s i]
      by (simp add: first_value seed_step)
  qed
qed

end

text \<open>The moving average.\<close>

definition ema_ok :: "nat \<Rightarrow> ema_state \<Rightarrow> bool" where
  "ema_ok n st \<longleftrightarrow> e_period st = n \<and> e_alpha st = rnd28 (2 / of_nat (n + 1))
     \<and> (e_value st = None \<longrightarrow> length (e_seed st) < n)"

definition mean28 :: "nat \<Rightarrow> decimal list \<Rightarrow> decimal" where
  "mean28 n xs = rnd28 (py_sum rnd28 xs / of_nat n)"

definition ema_smooth :: "nat \<Rightarrow> decimal \<Rightarrow> decimal \<Rightarrow> decimal" where
  "ema_smooth n v x = rnd28 (v + rnd28 (rnd28 (2 / of_nat (n + 1)) * rnd28 (x - v)))"

interpretation ema: warm_start "ema_ok n" ema_update "\<lambda>x st. x" e_seed e_value n "mean28 n" "ema_smooth n"
  for n
  by unfold_locales
    (auto simp: ema_ok_def ema_update_def mean28_def ema_smooth_def Let_def split: option.splits)

lemma observations_inputs [simp]: "observations step (\<lambda>x st. x) s xs = xs"
  by (induction xs arbitrary: s) simp_all

lemma ema_outputs:
  "0 < n \<Longrightarrow> outputs ema_update e_value (incremental_ema n) xs = seeded n (mean28 n) (ema_smooth n) xs"
  using ema.outputs_cold [of n "incremental_ema n" xs] by (simp add: ema_ok_def incremental_ema_def)

lemma ema_from_scan: "map point_value (ema_from (rnd28 (2 / of_nat (n + 1))) v cs) = scan (ema_smooth n) v (map c_close cs)"
  by (induction cs arbitrary: v) (simp_all add: ema_smooth_def Let_def)

lemma ema_seeded:
  "0 < n \<Longrightarrow> map point_value (ema cs n ctx)
     = seeded n (mean28 n) (ema_smooth n) (map c_close (completed_candles cs ctx))"
  using ema_from_scan [of n] by (simp add: ema_def seeded_def mean28_def Let_def take_map drop_map)

text \<open>The average true range.\<close>

definition atr_ok :: "nat \<Rightarrow> atr_state \<Rightarrow> bool" where
  "atr_ok n st \<longleftrightarrow> a_period st = n \<and> (a_value st = None \<longrightarrow> length (a_ranges st) < n)"

definition atr_obs :: "candle \<Rightarrow> atr_state \<Rightarrow> decimal" where
  "atr_obs c st = (case a_previous_close st of None \<Rightarrow> rnd28 (c_high c - c_low c)
     | Some p \<Rightarrow> range_after p c)"

definition atr_smooth :: "nat \<Rightarrow> decimal \<Rightarrow> decimal \<Rightarrow> decimal" where
  "atr_smooth n v x = rnd28 (rnd28 (rnd28 (v * of_nat (n - 1)) + x) / of_nat n)"

abbreviation atr_step :: "candle \<Rightarrow> atr_state \<Rightarrow> atr_state" where
  "atr_step c \<equiv> atr_update (c_high c) (c_low c) (c_close c)"

lemma atr_update_cold:
  "a_value st = None \<Longrightarrow> atr_step c st =
     st\<lparr>a_previous_close := Some (c_close c), a_ranges := a_ranges st @ [atr_obs c st],
        a_value := (if length (a_ranges st) + 1 = a_period st
                    then Some (rnd28 (py_sum rnd28 (a_ranges st @ [atr_obs c st]) / of_nat (a_period st))) else None)\<rparr>"
  by (simp add: atr_update_def atr_obs_def range_after_def Let_def split: option.split)

lemma atr_update_warm:
  "a_value st = Some v \<Longrightarrow> atr_step c st =
     st\<lparr>a_previous_close := Some (c_close c), a_value := Some (atr_smooth (a_period st) v (atr_obs c st))\<rparr>"
  by (simp add: atr_update_def atr_obs_def atr_smooth_def range_after_def Let_def split: option.split)

interpretation atr: warm_start "atr_ok n" atr_step atr_obs a_ranges a_value n "mean28 n" "atr_smooth n"
  for n
proof
  fix s :: atr_state and i and v
  show "atr_ok n s \<Longrightarrow> atr_ok n (atr_step i s)"
    by (cases "a_value s") (simp_all add: atr_ok_def atr_update_cold atr_update_warm)
qed (auto simp: atr_ok_def atr_update_cold atr_update_warm mean28_def)

lemma a_previous_close_step [simp]: "a_previous_close (atr_step c st) = Some (c_close c)"
  by (cases "a_value st") (simp_all add: atr_update_cold atr_update_warm)

lemma atr_observations:
  "a_previous_close st = Some p \<Longrightarrow>
     observations atr_step atr_obs st cs
       = map (\<lambda>i. range_after (if i \<noteq> 0 then c_close (cs ! (i - 1)) else p) (cs ! i)) [0..<length cs]"
proof (induction cs arbitrary: st p)
  case (Cons c cs)
  have "observations atr_step atr_obs (atr_step c st) cs
    = map (\<lambda>i. range_after (if i \<noteq> 0 then c_close (cs ! (i - 1)) else c_close c) (cs ! i)) [0..<length cs]"
    by (rule Cons.IH) simp
  moreover have "[0..<length (c # cs)] = 0 # map Suc [0..<length cs]"
    by (simp add: upt_conv_Cons map_Suc_upt del: upt_Suc)
  ultimately show ?case using Cons.prems
    by (auto simp: atr_obs_def [of c] nth_Cons' simp del: upt_Suc)
qed simp

text \<open>The two disagree on the first candle only when its close is outside its range.\<close>

definition close_in_range :: "candle \<Rightarrow> bool" where
  [model_defs]: "close_in_range c \<longleftrightarrow> c_low c \<le> c_close c \<and> c_close c \<le> c_high c"

lemma range_after_own_close: "close_in_range c \<Longrightarrow> range_after (c_close c) c = rnd28 (c_high c - c_low c)"
proof -
  assume c: "close_in_range c"
  have "rnd28 (c_high c - c_close c) \<le> rnd28 (c_high c - c_low c)"
    "rnd28 (c_close c - c_low c) \<le> rnd28 (c_high c - c_low c)"
    using c by (auto intro!: ctx28.rnd_mono simp: close_in_range_def)
  moreover have "rnd28 (c_low c - c_close c) = - rnd28 (c_close c - c_low c)"
    using ctx_round_minus [of 28 "c_close c - c_low c"] by simp
  ultimately show ?thesis using c by (auto simp: range_after_def close_in_range_def max_def)
qed

lemma atr_observations_start:
  assumes "cs \<noteq> [] \<longrightarrow> close_in_range (hd cs)"
  shows "observations atr_step atr_obs (incremental_atr n) cs = candle_ranges cs"
proof (cases cs)
  case (Cons c rest)
  have "observations atr_step atr_obs (incremental_atr n) cs
      = rnd28 (c_high c - c_low c) # observations atr_step atr_obs (atr_step c (incremental_atr n)) rest"
    by (simp add: Cons incremental_atr_def atr_obs_def)
  moreover have "rnd28 (c_high c - c_low c) = range_after (c_close c) c"
    using assms Cons by (simp add: range_after_own_close)
  moreover have "[0..<length (c # rest)] = 0 # map Suc [0..<length rest]"
    by (simp add: upt_conv_Cons map_Suc_upt del: upt_Suc)
  ultimately show ?thesis
    by (auto simp: candle_ranges_def Cons atr_observations nth_Cons' simp del: upt_Suc)
qed (simp add: candle_ranges_def)

lemma atr_from_scan:
  "length cs = length rs \<Longrightarrow> map point_value (atr_from v (zip cs rs)) = scan (atr_smooth 14) v rs"
  by (induction cs rs arbitrary: v rule: list_induct2) (simp_all add: atr_smooth_def Let_def)

lemma atr_seeded:
  "map point_value (atr14 cs ctx) = seeded 14 (mean28 14) (atr_smooth 14) (candle_ranges (completed_candles cs ctx))"
  by (simp add: atr14_def seeded_def Let_def atr_from_scan candle_ranges_def mean28_def)

lemma atr_outputs:
  assumes "0 < n" "cs \<noteq> [] \<longrightarrow> close_in_range (hd cs)"
  shows "outputs atr_step a_value (incremental_atr n) cs = seeded n (mean28 n) (atr_smooth n) (candle_ranges cs)"
  using atr.outputs_cold [of n "incremental_atr n" cs] assms atr_observations_start [of cs n]
  by (simp add: atr_ok_def incremental_atr_def)

section \<open>The incremental daily state\<close>

definition daily_after :: "candle list \<Rightarrow> daily_state" where
  "daily_after cs = fold (\<lambda>c st. fst (daily_step c st)) cs incremental_daily"

lemma daily_after_Nil [simp]: "daily_after [] = incremental_daily"
  by (simp add: daily_after_def)

lemma daily_after_snoc: "daily_after (cs @ [c]) = fst (daily_step c (daily_after cs))"
  by (simp add: daily_after_def)

lemma daily_run_append: "daily_run st (cs @ ds)
    = daily_run st cs @ daily_run (fold (\<lambda>c s. fst (daily_step c s)) cs st) ds"
  by (induction cs arbitrary: st) simp_all

lemma daily_run_snoc:
  "daily_run incremental_daily (cs @ [c]) = daily_run incremental_daily cs @ [snd (daily_step c (daily_after cs))]"
  by (simp add: daily_run_append daily_after_def)

lemma last_n_snoc: "push_window n (last_n n xs) x = last_n n (xs @ [x])" if "0 < n"
proof (cases "length xs < n")
  case True
  then show ?thesis by (simp add: push_window_def last_n_def)
next
  case False
  then show ?thesis using that by (simp add: push_window_def last_n_def Suc_diff_le)
qed

lemma length_last_n [simp]: "length (last_n n xs) = min n (length xs)"
  by (simp add: last_n_def)

lemma daily_after_windows:
  "s_pivot_window (daily_after cs) = last_n 5 cs" "s_breakout_window (daily_after cs) = last_n 20 cs"
proof (induction cs rule: rev_induct)
  case Nil
  { case 1 then show ?case by (simp add: incremental_daily_def last_n_def) }
  { case 2 then show ?case by (simp add: incremental_daily_def last_n_def) }
next
  case (snoc c cs)
  { case 1 show ?case by (simp add: daily_after_snoc daily_step_def snoc last_n_snoc Let_def) }
  { case 2 show ?case by (simp add: daily_after_snoc daily_step_def snoc last_n_snoc Let_def) }
qed

definition pivots_in :: "candle list \<Rightarrow> pivot list" where
  "pivots_in data = concat (map (\<lambda>i. window_pivots (slice (i - 2) (i + 3) data)) [2..<length data - 2])"

lemma pivots_in_snoc:
  "pivots_in (cs @ [c]) = pivots_in cs
     @ (if 4 \<le> length cs then window_pivots (last_n 5 (cs @ [c])) else [])"
proof (cases "4 \<le> length cs")
  case True
  have range: "[2..<length (cs @ [c]) - 2] = [2..<length cs - 2] @ [length cs - 2]"
  proof -
    have "length (cs @ [c]) - 2 = Suc (length cs - 2)" using True by simp
    then show ?thesis using True by simp
  qed
  have prefix: "slice (i - 2) (i + 3) (cs @ [c]) = slice (i - 2) (i + 3) cs"
    if "i \<in> set [2..<length cs - 2]" for i
  proof -
    have "i + 3 \<le> length cs" using that by auto
    then show ?thesis by simp
  qed
  have final: "slice (length cs - 2 - 2) (length cs - 2 + 3) (cs @ [c]) = last_n 5 (cs @ [c])"
  proof -
    have "length cs - 2 - 2 = length (cs @ [c]) - 5" "length cs - 2 + 3 = length (cs @ [c])" using True by simp_all
    then show ?thesis by (simp add: slice_def last_n_def del: length_append)
  qed
  have "map (\<lambda>i. window_pivots (slice (i - 2) (i + 3) (cs @ [c]))) [2..<length cs - 2]
      = map (\<lambda>i. window_pivots (slice (i - 2) (i + 3) cs)) [2..<length cs - 2]"
    by (rule map_cong [OF refl]) (simp only: prefix)
  from arg_cong [OF this, of concat] show ?thesis
    unfolding pivots_in_def range using True final by simp
next
  case False
  then show ?thesis by (simp add: pivots_in_def)
qed

lemma daily_run_pivots: "concat (map u_new_pivots (daily_run incremental_daily cs)) = pivots_in cs"
proof (induction cs rule: rev_induct)
  case (snoc c cs)
  then show ?case
    by (simp add: daily_run_snoc pivots_in_snoc daily_step_def daily_after_windows last_n_snoc Let_def)
qed (simp add: pivots_in_def)

text \<open>The averages inside the daily state are the averages above.\<close>

lemma daily_step_ema [simp]:
  "s_ema50 (fst (daily_step c st)) = ema_update (c_close c) (s_ema50 st)"
  "s_ema200 (fst (daily_step c st)) = ema_update (c_close c) (s_ema200 st)"
  "s_atr14 (fst (daily_step c st)) = atr_step c (s_atr14 st)"
  "u_ema50 (snd (daily_step c st)) = e_value (ema_update (c_close c) (s_ema50 st))"
  "u_ema200 (snd (daily_step c st)) = e_value (ema_update (c_close c) (s_ema200 st))"
  "u_atr14 (snd (daily_step c st)) = a_value (atr_step c (s_atr14 st))"
  by (simp_all add: daily_step_def Let_def)

definition published :: "('u \<Rightarrow> 'v option) \<Rightarrow> 'u list \<Rightarrow> 'v list" where
  [model_defs]: "published f us = concat (map (\<lambda>u. case f u of None \<Rightarrow> [] | Some v \<Rightarrow> [v]) us)"

lemma daily_run_averages:
  "published u_ema50 (daily_run st cs) = outputs ema_update e_value (s_ema50 st) (map c_close cs)"
  "published u_ema200 (daily_run st cs) = outputs ema_update e_value (s_ema200 st) (map c_close cs)"
  "published u_atr14 (daily_run st cs) = outputs atr_step a_value (s_atr14 st) cs"
  by (induction cs arbitrary: st) (simp_all add: published_def)

lemma daily_run_nth:
  "k < length cs \<Longrightarrow> daily_run incremental_daily cs ! k = snd (daily_step (cs ! k) (daily_after (take k cs)))"
proof (induction cs rule: rev_induct)
  case (snoc c cs)
  have len: "length (daily_run st ds) = length ds" for st ds
    by (induction ds arbitrary: st) simp_all
  show ?case
  proof (cases "k < length cs")
    case True
    then show ?thesis using snoc by (simp add: daily_run_snoc nth_append len)
  next
    case False
    then have "k = length cs" using snoc.prems by simp
    then show ?thesis by (simp add: daily_run_snoc nth_append len)
  qed
qed simp

lemma daily_run_breakout:
  assumes "k < length cs"
  shows "u_prior_20_high (daily_run incremental_daily cs ! k)
      = (if 20 \<le> k then Some (max_of (map c_high (slice (k - 20) k cs))) else None)"
    "u_prior_20_low (daily_run incremental_daily cs ! k)
      = (if 20 \<le> k then Some (min_of (map c_low (slice (k - 20) k cs))) else None)"
proof -
  have "last_n 20 (take k cs) = slice (k - 20) k cs" if "20 \<le> k"
    using assms that by (simp add: last_n_def slice_def drop_take)
  moreover have "min 20 (length (take k cs)) = 20 \<longleftrightarrow> 20 \<le> k" using assms by auto
  ultimately show "u_prior_20_high (daily_run incremental_daily cs ! k)
      = (if 20 \<le> k then Some (max_of (map c_high (slice (k - 20) k cs))) else None)"
    "u_prior_20_low (daily_run incremental_daily cs ! k)
      = (if 20 \<le> k then Some (min_of (map c_low (slice (k - 20) k cs))) else None)"
    using assms by (auto simp: daily_run_nth daily_step_def daily_after_windows Let_def simp del: length_take)
qed

section \<open>Properties\<close>

text \<open>C5: Fed the visible candles one by one, the incremental daily state of the second detector
  publishes exactly the batch results: the same 50 and 200 period averages, the same average true
  ranges and the same pivots, value by value, in the same order.\<close>

theorem incremental_daily_is_batch:
  assumes "completed_candles cs ctx \<noteq> [] \<Longrightarrow> close_in_range (hd (completed_candles cs ctx))"
  shows "published u_ema50 (daily_run incremental_daily (completed_candles cs ctx)) = map point_value (ema50 cs ctx)
    \<and> published u_ema200 (daily_run incremental_daily (completed_candles cs ctx)) = map point_value (ema200 cs ctx)
    \<and> published u_atr14 (daily_run incremental_daily (completed_candles cs ctx)) = map point_value (atr14 cs ctx)
    \<and> concat (map u_new_pivots (daily_run incremental_daily (completed_candles cs ctx))) = daily_pivots cs ctx"
proof -
  have "s_ema50 incremental_daily = incremental_ema 50" "s_ema200 incremental_daily = incremental_ema 200"
    "s_atr14 incremental_daily = incremental_atr 14" by (simp_all add: incremental_daily_def)
  then show ?thesis using assms
    by (simp add: daily_run_averages ema_outputs ema_seeded atr_outputs atr_seeded ema50_def ema200_def
        daily_run_pivots daily_pivots_def pivots_in_def Let_def)
qed

definition sample_candle :: "instant \<Rightarrow> candle" where
  "sample_candle t = \<lparr>opened_at = t, completed_at = t + 1, bid_o = 1, bid_h = 2, bid_l = 1, bid_c = 2,
     ask_o = 1, ask_h = 2, ask_l = 1, ask_c = 2, complete = True\<rparr>"

definition sample_context :: context_at where
  "sample_context = \<lparr>as_of = 10, strategy_version = '''', dataset_version = ''''\<rparr>"

lemma sample_visible: "completed_candles [sample_candle 1, sample_candle 0] sample_context = [sample_candle 0, sample_candle 1]"
  by (simp add: completed_candles_def sample_candle_def sample_context_def)

lemma sample_close_in_range: "close_in_range (sample_candle t)"
proof -
  have "mid_price 1 1 \<le> mid_price 2 2"
    unfolding mid_price_def by (intro ctx28.rnd_mono divide_right_mono) auto
  then show ?thesis by (simp add: close_in_range_def sample_candle_def c_low_def c_close_def c_high_def)
qed

theorem incremental_daily_is_batch_witness:
  "published u_atr14 (daily_run incremental_daily [sample_candle 0, sample_candle 1])
     = map point_value (atr14 [sample_candle 1, sample_candle 0] sample_context)"
  using incremental_daily_is_batch [of "[sample_candle 1, sample_candle 0]" sample_context]
  by (simp add: sample_visible sample_close_in_range)

text \<open>C35: Nothing that completes after the context's instant is visible: appending such candles
  changes no average, no true range, no pivot and no bias.\<close>

theorem no_lookahead:
  assumes "\<forall>c \<in> set later. as_of ctx < completed_at c"
  shows "ema (cs @ later) period ctx = ema cs period ctx \<and> atr14 (cs @ later) ctx = atr14 cs ctx
    \<and> daily_pivots (cs @ later) ctx = daily_pivots cs ctx
    \<and> daily_bias (cs @ later) pivots ctx = daily_bias cs pivots ctx"
  unfolding ema_def atr14_def daily_pivots_def daily_bias_def completed_candles_later [OF assms] by simp

theorem no_lookahead_witness:
  "daily_bias ([sample_candle 0] @ [sample_candle 10]) [] sample_context = daily_bias [sample_candle 0] [] sample_context"
  using no_lookahead [of "[sample_candle 10]" sample_context "[sample_candle 0]" 1 "[]"]
  by (simp add: sample_candle_def sample_context_def)

text \<open>From the twenty-first candle on, and only from there, the incremental state reports the
  extremes of exactly the twenty preceding candles.\<close>

lemma incremental_breakout_window:
  "k < length cs \<Longrightarrow>
     u_prior_20_high (daily_run incremental_daily cs ! k)
       = (if 20 \<le> k then Some (max_of (map c_high (slice (k - 20) k cs))) else None) \<and>
     u_prior_20_low (daily_run incremental_daily cs ! k)
       = (if 20 \<le> k then Some (min_of (map c_low (slice (k - 20) k cs))) else None)"
  using daily_run_breakout by blast

end
