(* ===== verification/Levels.thy ===== *)
theory Levels
  imports Indicators "HOL-Library.Char_ord" "HOL-Library.List_Lexorder"
begin

text \<open>
  The level half of \<^verbatim>\<open>research/strategy.py\<close>: construction of the three level families, their
  lifecycle over completed daily candles, supersession of daily swings, role flips, and the
  nearest opposing target. A \<^verbatim>\<open>ValueError\<close> is \<open>Inl\<close> of its message. A precision is the
  decimal value with the number of decimals of its exponent, which is all that
  \<^verbatim>\<open>quantize\<close> reads. Level keys are texts, as in the code, because supersession parses them.
\<close>

section \<open>Texts of instants and keys\<close>

text \<open>\<^verbatim>\<open>year, month, day\<close> of a UTC instant, by the 400-year eras of \<open>month_index\<close>.\<close>

definition civil_date :: "instant \<Rightarrow> int \<times> int \<times> int" where
  [model_defs]: "civil_date w =
     (let n = w div days 1 + 719468;
          era = n div 146097; doe = n mod 146097;
          yoe = (doe - doe div 1460 + doe div 36524 - doe div 146096) div 365;
          doy = doe - (365 * yoe + yoe div 4 - yoe div 100);
          mp = (5 * doy + 2) div 153;
          day = doy - (153 * mp + 2) div 5 + 1;
          month = (if mp < 10 then mp + 3 else mp - 9)
      in (yoe + era * 400 + (if month \<le> 2 then 1 else 0), month, day))"

text \<open>\<^verbatim>\<open>isoformat()\<close> of an aware UTC \<^verbatim>\<open>datetime\<close>: the fraction is printed only when there is one.\<close>

definition iso_text :: "instant \<Rightarrow> string" where
  [model_defs]: "iso_text t =
     (let (y, m, d) = civil_date t; s = time_of_day t div seconds 1; us = t mod seconds 1 in
      frac_digits 4 (nat y) @ ''-'' @ frac_digits 2 (nat m) @ ''-'' @ frac_digits 2 (nat d) @ ''T''
      @ frac_digits 2 (nat (s div 3600)) @ '':'' @ frac_digits 2 (nat (s div 60 mod 60)) @ '':''
      @ frac_digits 2 (nat (s mod 60))
      @ (if us = 0 then '''' else ''.'' @ frac_digits 6 (nat us)) @ ''+00:00'')"

text \<open>\<^verbatim>\<open>text.split(sep, n)\<close>.\<close>

fun split_first :: "string \<Rightarrow> string \<Rightarrow> (string \<times> string) option" where
  "split_first sep s =
     (if take (length sep) s = sep then Some ([], drop (length sep) s)
      else case s of [] \<Rightarrow> None
        | c # cs \<Rightarrow> (case split_first sep cs of None \<Rightarrow> None | Some (a, b) \<Rightarrow> Some (c # a, b)))"

declare split_first.simps [simp del]

fun split_max :: "nat \<Rightarrow> string \<Rightarrow> string \<Rightarrow> string list" where
  "split_max 0 sep s = [s]"
| "split_max (Suc n) sep s =
     (case split_first sep s of None \<Rightarrow> [s] | Some (a, b) \<Rightarrow> a # split_max n sep b)"

section \<open>Levels\<close>

datatype strategy_side = Long | Short

datatype level_role = Support | Resistance

datatype level_state_kind = Active | Invalidated_Level | Expired_Level | Superseded | SupersededByFlip

datatype family = PreviousWeeklyExtreme | ConfirmedDailySwing | TwentySessionBreakoutFlip

fun family_priority :: "family \<Rightarrow> nat" where
  "family_priority PreviousWeeklyExtreme = 0"
| "family_priority ConfirmedDailySwing = 1"
| "family_priority TwentySessionBreakoutFlip = 2"

record precision =
  prec_value :: decimal
  prec_digits :: nat

record level_spec =
  l_key :: string
  l_family :: family
  l_role :: level_role
  central_price :: decimal
  zone_lower :: decimal
  zone_upper :: decimal
  atr_at_activation :: decimal
  activated_at :: instant
  source_at :: instant
  expires_at :: "instant option"
  expires_after_sessions :: "nat option"

record level_state =
  ls_state :: level_state_kind
  ls_effective_at :: "instant option"

definition make_level ::
  "string \<Rightarrow> family \<Rightarrow> level_role \<Rightarrow> decimal \<Rightarrow> decimal \<Rightarrow> instant \<Rightarrow> instant \<Rightarrow> precision
     \<Rightarrow> context_at \<Rightarrow> instant option \<Rightarrow> nat option \<Rightarrow> string + level_spec" where
  [model_defs]: "make_level key fam rl price atr activated source prec ctx expires sessions =
     (if as_of ctx < activated \<or> atr \<le> 0 \<or> prec_value prec \<le> 0
      then Inl ''level is unavailable or has invalid ATR/precision''
      else
        (let half_width = rnd28 (rnd28 (atr * (15 / 100)) / 2) in
         Inr \<lparr>l_key = key, l_family = fam, l_role = rl, central_price = price,
              zone_lower = quantize_floor (prec_digits prec) (rnd28 (price - half_width)),
              zone_upper = quantize_ceiling (prec_digits prec) (rnd28 (price + half_width)),
              atr_at_activation = atr, activated_at = activated, source_at = source,
              expires_at = expires, expires_after_sessions = sessions\<rparr>))"

text \<open>A tuple of levels built in order: the first error is raised.\<close>

fun collect :: "('e + 'a) list \<Rightarrow> 'e + 'a list" where
  "collect [] = Inr []"
| "collect (Inl e # rs) = Inl e"
| "collect (Inr x # rs) = (case collect rs of Inl e \<Rightarrow> Inl e | Inr xs \<Rightarrow> Inr (x # xs))"

definition previous_weekly_levels ::
  "candle list \<Rightarrow> decimal \<Rightarrow> precision \<Rightarrow> context_at \<Rightarrow> instant option \<Rightarrow> string + level_spec list" where
  [model_defs]: "previous_weekly_levels weeks atr prec ctx expires =
     (let finished = completed_candles weeks ctx in
      if finished = [] then Inr []
      else
        (let week = last finished in
         collect
           [make_level (''weekly-low:'' @ iso_text (opened_at week)) PreviousWeeklyExtreme Support
              (c_low week) atr (completed_at week) (opened_at week) prec ctx expires None,
            make_level (''weekly-high:'' @ iso_text (opened_at week)) PreviousWeeklyExtreme Resistance
              (c_high week) atr (completed_at week) (opened_at week) prec ctx expires None]))"

fun pivot_text :: "pivot_kind \<Rightarrow> string" where
  "pivot_text PivotHigh = ''high''"
| "pivot_text PivotLow = ''low''"

definition swing_level ::
  "(instant \<Rightarrow> decimal option) \<Rightarrow> precision \<Rightarrow> context_at \<Rightarrow> pivot \<Rightarrow> string + level_spec" where
  [model_defs]: "swing_level atr_by_time prec ctx p =
     make_level (''daily-swing:'' @ pivot_text (pivot_kind p) @ '':'' @ iso_text (pivot_at p))
       ConfirmedDailySwing (if pivot_kind p = PivotHigh then Resistance else Support)
       (pivot_price p) (the (atr_by_time (pivot_available_at p)))
       (pivot_available_at p) (pivot_at p) prec ctx None None"

definition confirmed_swing_levels ::
  "pivot list \<Rightarrow> (instant \<Rightarrow> decimal option) \<Rightarrow> precision \<Rightarrow> context_at \<Rightarrow> string + level_spec list" where
  [model_defs]: "confirmed_swing_levels pivots atr_by_time prec ctx =
     collect (map (swing_level atr_by_time prec ctx) (filter (\<lambda>p. pivot_available_at p \<le> as_of ctx \<and> atr_by_time (pivot_available_at p) \<noteq> None) pivots))"

text \<open>The loop body at \<open>index\<close>: the levels it appends.\<close>

definition breakouts_at ::
  "candle list \<Rightarrow> (instant \<Rightarrow> decimal option) \<Rightarrow> precision \<Rightarrow> context_at \<Rightarrow> nat \<Rightarrow> (string + level_spec) list" where
  [model_defs]: "breakouts_at finished atr_by_time prec ctx index =
     (let c = finished ! index; prior = slice (index - 20) index finished;
          prior_high = max_of (map c_high prior); prior_low = min_of (map c_low prior) in
      case atr_by_time (completed_at c) of
        None \<Rightarrow> []
      | Some atr \<Rightarrow>
          (if prior_high < c_close c
           then [make_level (''breakout-high:'' @ iso_text (opened_at c)) TwentySessionBreakoutFlip Support
                   prior_high atr (completed_at c) (opened_at c) prec ctx None (Some 20)] else [])
        @ (if c_close c < prior_low
           then [make_level (''breakout-low:'' @ iso_text (opened_at c)) TwentySessionBreakoutFlip Resistance
                   prior_low atr (completed_at c) (opened_at c) prec ctx None (Some 20)] else []))"

definition breakout_flip_levels ::
  "candle list \<Rightarrow> (instant \<Rightarrow> decimal option) \<Rightarrow> precision \<Rightarrow> context_at \<Rightarrow> string + level_spec list" where
  [model_defs]: "breakout_flip_levels daily atr_by_time prec ctx =
     (let finished = completed_candles daily ctx in
      collect (concat (map (breakouts_at finished atr_by_time prec ctx) [20..<length finished])))"

section \<open>Lifecycle\<close>

definition crosses_central :: "level_spec \<Rightarrow> candle \<Rightarrow> bool" where
  [model_defs]: "crosses_central l c \<longleftrightarrow>
     (if l_role l = Support then c_close c < central_price l else c_close c > central_price l)"

definition closes_outside :: "level_spec \<Rightarrow> candle \<Rightarrow> bool" where
  [model_defs]: "closes_outside l c \<longleftrightarrow>
     (if l_role l = Support then c_close c < zone_lower l else c_close c > zone_upper l)"

text \<open>The state that the candle at position \<open>index\<close> after activation decides, if any.\<close>

definition level_event :: "level_spec \<Rightarrow> nat \<Rightarrow> candle \<Rightarrow> level_state option" where
  [model_defs]: "level_event l index c =
     (if (case expires_at l of None \<Rightarrow> False | Some e \<Rightarrow> e \<le> completed_at c)
      then Some \<lparr>ls_state = Expired_Level, ls_effective_at = expires_at l\<rparr>
      else if (case expires_after_sessions l of None \<Rightarrow> False | Some n \<Rightarrow> n \<le> index)
      then Some \<lparr>ls_state = Expired_Level, ls_effective_at = Some (completed_at c)\<rparr>
      else if l_family l \<in> {PreviousWeeklyExtreme, ConfirmedDailySwing} \<and> crosses_central l c
      then Some \<lparr>ls_state = SupersededByFlip, ls_effective_at = Some (completed_at c)\<rparr>
      else if closes_outside l c
      then Some \<lparr>ls_state = Invalidated_Level, ls_effective_at = Some (completed_at c)\<rparr>
      else None)"

fun level_scan :: "level_spec \<Rightarrow> nat \<Rightarrow> candle list \<Rightarrow> level_state option" where
  "level_scan l index [] = None"
| "level_scan l index (c # cs) =
     (case level_event l index c of Some st \<Rightarrow> Some st | None \<Rightarrow> level_scan l (index + 1) cs)"

definition evaluate_level ::
  "level_spec \<Rightarrow> candle list \<Rightarrow> context_at \<Rightarrow> instant option \<Rightarrow> level_state" where
  [model_defs]: "evaluate_level l daily ctx superseded_at =
     (if (case superseded_at of None \<Rightarrow> False | Some t \<Rightarrow> t \<le> as_of ctx)
      then \<lparr>ls_state = Superseded, ls_effective_at = superseded_at\<rparr>
      else
        (case level_scan l 0 (filter (\<lambda>c. activated_at l \<le> completed_at c) (completed_candles daily ctx)) of
           Some st \<Rightarrow> st
         | None \<Rightarrow>
             if (case expires_at l of None \<Rightarrow> False | Some e \<Rightarrow> e \<le> as_of ctx)
             then \<lparr>ls_state = Expired_Level, ls_effective_at = expires_at l\<rparr>
             else \<lparr>ls_state = Active, ls_effective_at = None\<rparr>))"

section \<open>Supersession of daily swings\<close>

definition original_key :: "string \<Rightarrow> string" where
  [model_defs]: "original_key key = hd (split_max 1 '':flip:'' key)"

definition daily_swing_superseded_at ::
  "level_spec \<Rightarrow> level_spec list \<Rightarrow> string + instant option" where
  [model_defs]: "daily_swing_superseded_at l levels =
     (if l_family l \<noteq> ConfirmedDailySwing then Inr None
      else
        (let parts = split_max 2 '':'' (original_key (l_key l)) in
         if length parts \<noteq> 3 \<or> parts ! 0 \<noteq> ''daily-swing'' \<or> parts ! 1 \<notin> {''high'', ''low''}
         then Inl ''daily-swing level lacks a governed original key''
         else
           (let kind = parts ! 1;
                candidates = filter (\<lambda>c.
                  l_family c = ConfirmedDailySwing \<and> source_at l < source_at c \<and>
                  (let candidate_parts = split_max 2 '':'' (original_key (l_key c)) in
                   length candidate_parts = 3 \<and> candidate_parts ! 0 = ''daily-swing''
                   \<and> candidate_parts ! 1 = kind)) levels
            in Inr (if candidates = [] then None
                    else Some (fst (min_of (map (\<lambda>c. (activated_at c, l_key c)) candidates)))))))"

definition flip_level ::
  "level_spec \<Rightarrow> candle \<Rightarrow> decimal \<Rightarrow> precision \<Rightarrow> context_at \<Rightarrow> string + level_spec" where
  [model_defs]: "flip_level source c atr prec ctx =
     (if \<not> complete c \<or> as_of ctx < completed_at c then Inl ''flip activation candle is unavailable''
      else if \<not> crosses_central source c
      then Inl ''daily close did not cross the source central price''
      else make_level (l_key source @ '':flip:'' @ iso_text (completed_at c)) (l_family source)
        (if l_role source = Support then Resistance else Support) (central_price source) atr
        (completed_at c) (source_at source) prec ctx (expires_at source) None)"

section \<open>The nearest opposing target\<close>

text \<open>\<^verbatim>\<open>level_states\<close> is the dictionary as an association list of its items.\<close>

definition active_levels :: "level_spec list \<Rightarrow> (string \<times> level_state) list \<Rightarrow> context_at \<Rightarrow> level_spec list" where
  [model_defs]: "active_levels levels states ctx =
     filter (\<lambda>l. ls_state (the (map_of states (l_key l))) = Active \<and> activated_at l \<le> as_of ctx
       \<and> (case expires_at l of None \<Rightarrow> True | Some e \<Rightarrow> as_of ctx < e)) levels"

definition nearest_opposing_target ::
  "decimal \<Rightarrow> strategy_side \<Rightarrow> level_spec list \<Rightarrow> context_at \<Rightarrow> (string \<times> level_state) list
     \<Rightarrow> string + level_spec option" where
  [model_defs]: "nearest_opposing_target price side levels ctx states =
     (if set (map fst states) \<noteq> set (map l_key levels)
      then Inl ''target inventory requires lifecycle state for every level''
      else Inr
        (case side of
           Long \<Rightarrow> first_min_by
             (\<lambda>l. (zone_lower l, family_priority (l_family l), activated_at l, l_key l))
             (filter (\<lambda>l. l_role l = Resistance \<and> price < zone_lower l) (active_levels levels states ctx))
         | Short \<Rightarrow> first_min_by
             (\<lambda>l. (rnd28 (price - zone_upper l), family_priority (l_family l), activated_at l, l_key l))
             (filter (\<lambda>l. l_role l = Support \<and> zone_upper l < price) (active_levels levels states ctx))))"

section \<open>Zones contain their central price\<close>

lemma make_level_Inr:
  assumes "make_level key fam rl price atr activated source prec ctx expires sessions = Inr l"
  shows "activated \<le> as_of ctx \<and> 0 < atr \<and> 0 < prec_value prec \<and> l_key l = key \<and> l_family l = fam
    \<and> l_role l = rl \<and> central_price l = price \<and> activated_at l = activated \<and> source_at l = source
    \<and> expires_at l = expires \<and> expires_after_sessions l = sessions"
  using assms by (auto simp: make_level_def Let_def split: if_splits)

lemma make_level_zone:
  assumes "make_level key fam rl price atr activated source prec ctx expires sessions = Inr l"
  shows "zone_lower l \<le> rnd28 price \<and> rnd28 price \<le> zone_upper l"
proof -
  let ?h = "rnd28 (rnd28 (atr * (15 / 100)) / 2)"
  have "0 < atr" using make_level_Inr [OF assms] by simp
  then have "0 \<le> ?h" by (simp add: zero_le_mult_iff)
  then have "rnd28 (price - ?h) \<le> rnd28 price" "rnd28 price \<le> rnd28 (price + ?h)"
    by (simp_all add: ctx28.rnd_mono)
  moreover have "zone_lower l = quantize_floor (prec_digits prec) (rnd28 (price - ?h))"
    "zone_upper l = quantize_ceiling (prec_digits prec) (rnd28 (price + ?h))"
    using assms by (auto simp: make_level_def Let_def split: if_splits)
  ultimately show ?thesis
    by (metis order_trans quantize_ceiling_ge quantize_floor_le)
qed

lemma collect_Inr: "collect rs = Inr xs \<longleftrightarrow> rs = map Inr xs"
proof (induction rs arbitrary: xs)
  case (Cons r rs)
  show ?case
  proof (cases r)
    case (Inr x)
    then show ?thesis using Cons by (cases xs; cases "collect rs") auto
  qed (cases xs; simp)
qed auto

section \<open>Decided levels stay decided\<close>

lemma level_scan_append:
  "level_scan l i (cs @ ds) =
     (case level_scan l i cs of Some st \<Rightarrow> Some st | None \<Rightarrow> level_scan l (i + length cs) ds)"
  by (induction l i cs rule: level_scan.induct) (simp_all split: option.split)

lemma level_scan_Some:
  "level_scan l i cs = Some st \<Longrightarrow> \<exists>k < length cs. level_event l (i + k) (cs ! k) = Some st
     \<and> (\<forall>j < k. level_event l (i + j) (cs ! j) = None)"
proof (induction l i cs rule: level_scan.induct)
  case (2 l i c cs)
  show ?case
  proof (cases "level_event l i c")
    case None
    then obtain k where "k < length cs" "level_event l (i + 1 + k) (cs ! k) = Some st"
      "\<forall>j < k. level_event l (i + 1 + j) (cs ! j) = None"
      using 2 by auto
    then show ?thesis using None by (intro exI [of _ "Suc k"]) (auto simp: less_Suc_eq_0_disj)
  next
    case (Some a)
    then show ?thesis using 2 by (intro exI [of _ 0]) simp
  qed
qed simp

lemma level_event_not_active: "level_event l i c = Some st \<Longrightarrow> ls_state st \<noteq> Active"
  by (auto simp: level_event_def split: if_splits)

lemma level_scan_expired:
  assumes "expires_at l = Some e" "\<forall>c \<in> set cs. e \<le> completed_at c" "cs \<noteq> []"
  shows "level_scan l i cs = Some \<lparr>ls_state = Expired_Level, ls_effective_at = Some e\<rparr>"
  using assms by (cases cs) (auto simp: level_event_def)

lemma evaluate_level_later:
  assumes later: "completed_candles daily' ctx' = completed_candles daily ctx @ later"
    and new: "\<forall>c \<in> set later. as_of ctx < completed_at c" and time: "as_of ctx \<le> as_of ctx'"
    and sup: "\<And>t. superseded = Some t \<Longrightarrow> t \<le> as_of ctx \<or> as_of ctx' < t"
    and decided: "ls_state (evaluate_level l daily ctx superseded) \<noteq> Active"
  shows "evaluate_level l daily' ctx' superseded = evaluate_level l daily ctx superseded"
proof (cases "\<exists>t. superseded = Some t \<and> t \<le> as_of ctx")
  case True
  then show ?thesis using time by (auto simp: evaluate_level_def)
next
  case False
  let ?vis = "filter (\<lambda>c. activated_at l \<le> completed_at c)"
  let ?old = "?vis (completed_candles daily ctx)"
  have no: "\<not> (case superseded of None \<Rightarrow> False | Some t \<Rightarrow> t \<le> as_of ctx)"
    "\<not> (case superseded of None \<Rightarrow> False | Some t \<Rightarrow> t \<le> as_of ctx')"
    using False sup by (auto split: option.split)
  show ?thesis
  proof (cases "level_scan l 0 ?old")
    case (Some st)
    then show ?thesis using no by (simp add: evaluate_level_def later level_scan_append)
  next
    case None
    then obtain e where e: "expires_at l = Some e" "e \<le> as_of ctx"
      using decided no by (auto simp: evaluate_level_def split: option.splits if_splits)
    have exp: "level_scan l i (?vis later) =
        (if ?vis later = [] then None else Some \<lparr>ls_state = Expired_Level, ls_effective_at = Some e\<rparr>)" for i
      using level_scan_expired [of l e "?vis later" i] e new by force
    show ?thesis using None no e time
      by (simp add: evaluate_level_def later level_scan_append exp)
  qed
qed

section \<open>Flips\<close>

lemma evaluate_flip_candle:
  assumes "evaluate_level l daily ctx superseded = \<lparr>ls_state = SupersededByFlip, ls_effective_at = Some t\<rparr>"
  obtains c where "c \<in> set (completed_candles daily ctx)" "completed_at c = t" "crosses_central l c"
    "activated_at l \<le> t"
proof -
  let ?cs = "filter (\<lambda>c. activated_at l \<le> completed_at c) (completed_candles daily ctx)"
  have "level_scan l 0 ?cs = Some \<lparr>ls_state = SupersededByFlip, ls_effective_at = Some t\<rparr>"
    using assms by (auto simp: evaluate_level_def split: option.splits if_splits)
  then obtain k where k: "k < length ?cs"
      "level_event l (0 + k) (?cs ! k) = Some \<lparr>ls_state = SupersededByFlip, ls_effective_at = Some t\<rparr>"
    using level_scan_Some by metis
  then have "?cs ! k \<in> set ?cs" using nth_mem by blast
  moreover have "completed_at (?cs ! k) = t" "crosses_central l (?cs ! k)"
    using k(2) by (auto simp: level_event_def split: if_splits)
  ultimately show ?thesis using that by auto
qed

lemma flip_level_Inr:
  assumes "complete c" "completed_at c \<le> as_of ctx" "crosses_central l c" "0 < atr" "0 < prec_value prec"
  obtains f where "flip_level l c atr prec ctx = Inr f"
  using assms by (auto simp: flip_level_def make_level_def Let_def)

lemma flip_level_fields:
  assumes "flip_level l c atr prec ctx = Inr f"
  shows "l_key f = l_key l @ '':flip:'' @ iso_text (completed_at c) \<and> l_family f = l_family l
    \<and> l_role f \<noteq> l_role l \<and> central_price f = central_price l \<and> source_at f = source_at l
    \<and> activated_at f = completed_at c \<and> expires_at f = expires_at l"
  using assms make_level_Inr by (cases "l_role l") (fastforce simp: flip_level_def split: if_splits)+

text \<open>A key that no flip marker can be hidden in: the governed prefix has no letter f.\<close>

definition flip_key :: "string \<Rightarrow> bool" where
  "flip_key k \<longleftrightarrow> (\<exists>base rest. k = base @ rest \<and> CHR ''f'' \<notin> set base
     \<and> (rest = [] \<or> (\<exists>r. rest = '':flip:'' @ r)))"

lemma split_first_marker:
  "CHR ''f'' \<notin> set base \<Longrightarrow> split_first '':flip:'' (base @ '':flip:'' @ r) = Some (base, r)"
proof (induction base)
  case Nil
  show ?case by (subst split_first.simps) simp
next
  case (Cons c cs)
  have "take (length '':flip:'') ((c # cs) @ '':flip:'' @ r) \<noteq> '':flip:''"
  proof (cases cs)
    case Nil
    then show ?thesis by simp
  next
    case (Cons d ds)
    then show ?thesis using \<open>CHR ''f'' \<notin> set (c # cs)\<close> by auto
  qed
  then show ?case using Cons by (subst split_first.simps) simp
qed

lemma split_first_no_marker: "CHR ''f'' \<notin> set base \<Longrightarrow> split_first '':flip:'' base = None"
proof (induction base)
  case Nil
  show ?case by (subst split_first.simps) simp
next
  case (Cons c cs)
  have "take (length '':flip:'') (c # cs) \<noteq> '':flip:''" using Cons.prems by (cases cs) auto
  then show ?case using Cons by (subst split_first.simps) simp
qed

lemma original_key_flip: "flip_key k \<Longrightarrow> original_key (k @ '':flip:'' @ r) = original_key k"
proof -
  assume "flip_key k"
  then obtain base rest where k: "k = base @ rest" "CHR ''f'' \<notin> set base"
    "rest = [] \<or> (\<exists>r. rest = '':flip:'' @ r)" by (auto simp: flip_key_def)
  show ?thesis
  proof (cases "rest = []")
    case True
    then show ?thesis using k split_first_marker [OF k(2), of r] split_first_no_marker [OF k(2)]
      by (simp add: original_key_def)
  next
    case False
    then obtain q where "rest = '':flip:'' @ q" using k by blast
    then show ?thesis using k split_first_marker [OF k(2), of "q @ '':flip:'' @ r"]
        split_first_marker [OF k(2), of q] by (simp add: original_key_def)
  qed
qed

lemma superseded_flip:
  assumes "flip_level l c atr prec ctx = Inr f" "flip_key (l_key l)"
  shows "daily_swing_superseded_at f levels = daily_swing_superseded_at l levels"
proof -
  note fields = flip_level_fields [OF assms(1)]
  have key: "original_key (l_key f) = original_key (l_key l)"
    using fields original_key_flip [OF assms(2)] by simp
  have rest: "l_family f = l_family l" "source_at f = source_at l" using fields by simp_all
  show ?thesis unfolding daily_swing_superseded_at_def key rest ..
qed

lemma no_f_digit: "d < 10 \<Longrightarrow> digit d \<noteq> CHR ''f''"
  using is_digit_digit [of d] by (auto simp: is_digit_def)

lemma no_f_digits: "CHR ''f'' \<notin> set (frac_digits n m)"
  by (induction n arbitrary: m) (auto simp: no_f_digit dest: sym)

lemma no_f_iso: "CHR ''f'' \<notin> set (iso_text t)"
  by (auto simp: iso_text_def Let_def no_f_digits split: prod.split)

lemma confirmed_swing_flip_key:
  assumes "confirmed_swing_levels pivots atrs prec ctx = Inr ls" "l \<in> set ls"
  shows "flip_key (l_key l) \<and> l_family l = ConfirmedDailySwing"
proof -
  let ?ps = "filter (\<lambda>p. pivot_available_at p \<le> as_of ctx \<and> atrs (pivot_available_at p) \<noteq> None) pivots"
  have "map (swing_level atrs prec ctx) ?ps = map Inr ls"
    using assms(1) by (simp only: confirmed_swing_levels_def collect_Inr)
  then have "Inr l \<in> set (map (swing_level atrs prec ctx) ?ps)" using assms(2) by simp
  then obtain p where "swing_level atrs prec ctx p = Inr l" by auto
  then have "make_level (''daily-swing:'' @ pivot_text (pivot_kind p) @ '':'' @ iso_text (pivot_at p))
       ConfirmedDailySwing (if pivot_kind p = PivotHigh then Resistance else Support)
       (pivot_price p) (the (atrs (pivot_available_at p)))
       (pivot_available_at p) (pivot_at p) prec ctx None None = Inr l" unfolding swing_level_def .
  from make_level_Inr [OF this] have
    "l_key l = ''daily-swing:'' @ pivot_text (pivot_kind p) @ '':'' @ iso_text (pivot_at p)"
    "l_family l = ConfirmedDailySwing" by simp_all
  moreover have "CHR ''f'' \<notin> set (pivot_text k)" for k by (cases k) simp_all
  ultimately show ?thesis by (auto simp: flip_key_def no_f_iso intro: exI [of _ "l_key l"])
qed

section \<open>The chosen target\<close>

lemma nearest_target_long:
  assumes "nearest_opposing_target price Long levels ctx states = Inr (Some t)"
  shows "t \<in> set (active_levels levels states ctx) \<and> l_role t = Resistance \<and> price < zone_lower t
    \<and> (\<forall>l \<in> set (active_levels levels states ctx).
         l_role l = Resistance \<and> price < zone_lower l \<longrightarrow> zone_lower t \<le> zone_lower l)"
proof -
  have "first_min_by (\<lambda>l. (zone_lower l, family_priority (l_family l), activated_at l, l_key l))
      (filter (\<lambda>l. l_role l = Resistance \<and> price < zone_lower l) (active_levels levels states ctx)) = Some t"
    using assms by (simp add: nearest_opposing_target_def split: if_splits)
  from first_min_by_Some [OF this] show ?thesis by (auto simp: less_eq_prod_def)
qed

lemma nearest_target_short:
  assumes "nearest_opposing_target price Short levels ctx states = Inr (Some t)"
  shows "t \<in> set (active_levels levels states ctx) \<and> l_role t = Support \<and> zone_upper t < price
    \<and> (\<forall>l \<in> set (active_levels levels states ctx).
         l_role l = Support \<and> zone_upper l < price
           \<longrightarrow> rnd28 (price - zone_upper t) \<le> rnd28 (price - zone_upper l))"
proof -
  have "first_min_by (\<lambda>l. (rnd28 (price - zone_upper l), family_priority (l_family l), activated_at l, l_key l))
      (filter (\<lambda>l. l_role l = Support \<and> zone_upper l < price) (active_levels levels states ctx)) = Some t"
    using assms by (simp add: nearest_opposing_target_def split: if_splits)
  from first_min_by_Some [OF this] show ?thesis by (auto simp: less_eq_prod_def)
qed

section \<open>Properties\<close>

text \<open>Once a level is no longer active, its state and effective time never change: evaluating it
  again at a later instant, with any daily candles that completed in between, gives the same
  answer, provided no supersession becomes effective in between.\<close>

lemma decided_level_is_final:
  assumes "completed_candles daily' ctx' = completed_candles daily ctx @ later"
    and "\<forall>c \<in> set later. as_of ctx < completed_at c" and "as_of ctx \<le> as_of ctx'"
    and "\<And>t. superseded = Some t \<Longrightarrow> t \<le> as_of ctx \<or> as_of ctx' < t"
    and "ls_state (evaluate_level l daily ctx superseded) \<noteq> Active"
  shows "evaluate_level l daily' ctx' superseded = evaluate_level l daily ctx superseded"
  using assms by (rule evaluate_level_later)

definition sample_precision :: precision where
  "sample_precision = \<lparr>prec_value = 1 / 10, prec_digits = 1\<rparr>"

definition sample_pivot :: pivot where
  "sample_pivot = \<lparr>pivot_at = 1, pivot_available_at = 3, pivot_price = 3, pivot_kind = PivotLow\<rparr>"

definition sample_level :: level_spec where
  "sample_level = \<lparr>l_key = ''daily-swing:low:1970-01-01T00:00:00.000001+00:00'',
     l_family = ConfirmedDailySwing, l_role = Support, central_price = 3, zone_lower = 29 / 10,
     zone_upper = 31 / 10, atr_at_activation = 1, activated_at = 3, source_at = 1, expires_at = None,
     expires_after_sessions = None\<rparr>"

lemma sample_key: "iso_text 1 = ''1970-01-01T00:00:00.000001+00:00''"
  by code_simp

lemma sample_levels:
  "confirmed_swing_levels [sample_pivot] (\<lambda>t. Some 1) sample_precision sample_context = Inr [sample_level]"
proof -
  have half: "rnd28 (3 / 20) = 3 / 20" "rnd28 (3 / 40) = 3 / 40" by code_simp+
  have edges: "rnd28 (117 / 40) = 117 / 40" "rnd28 (123 / 40) = 123 / 40" by code_simp+
  show ?thesis
    by (simp add: confirmed_swing_levels_def swing_level_def make_level_def sample_pivot_def sample_precision_def
        sample_context_def sample_level_def sample_key quantize_floor_def quantize_ceiling_def half edges floor_eq_iff ceiling_eq_iff Let_def)
qed

lemma sample_level_in: "sample_level \<in> set [sample_level]"
  by simp

text \<open>A flipped daily swing is superseded exactly when its original is: the flip keeps the source
  and the governed key, and the opposite role, so the next pivot of the same type ends both at the
  same instant.\<close>

lemma flipped_swing_supersession:
  assumes "confirmed_swing_levels pivots atrs prec ctx = Inr ls" "l \<in> set ls"
    "flip_level l c atr prec' ctx' = Inr f"
  shows "daily_swing_superseded_at f levels = daily_swing_superseded_at l levels
    \<and> source_at f = source_at l \<and> central_price f = central_price l \<and> l_role f \<noteq> l_role l"
  using superseded_flip [OF assms(3)] confirmed_swing_flip_key [OF assms(1,2)] flip_level_fields [OF assms(3)]
  by blast

definition sample_flip :: level_spec where
  "sample_flip = projr (flip_level sample_level (sample_candle 4) 1 sample_precision sample_context)"

lemma sample_crossing: "crosses_central sample_level (sample_candle 4)"
proof -
  have "c_close (sample_candle 4) < 3" by code_simp
  then show ?thesis by (simp add: crosses_central_def sample_level_def)
qed

lemma sample_flip: "flip_level sample_level (sample_candle 4) 1 sample_precision sample_context = Inr sample_flip"
proof -
  obtain f where "flip_level sample_level (sample_candle 4) 1 sample_precision sample_context = Inr f"
    by (rule flip_level_Inr [OF _ _ sample_crossing, of sample_context 1 sample_precision])
       (simp_all add: sample_candle_def sample_context_def sample_precision_def)
  then show ?thesis by (simp add: sample_flip_def)
qed

text \<open>Whenever a level is evaluated as superseded by a flip, the very daily candle that decided it
  is accepted by the flip operation and yields the opposite role at the same central price.\<close>

lemma flip_candle_is_accepted:
  assumes "evaluate_level l daily ctx superseded = \<lparr>ls_state = SupersededByFlip, ls_effective_at = Some t\<rparr>"
    "0 < atr" "0 < prec_value prec"
  shows "\<exists>c f. c \<in> set daily \<and> completed_at c = t \<and> flip_level l c atr prec ctx = Inr f
    \<and> activated_at f = t \<and> central_price f = central_price l \<and> l_role f \<noteq> l_role l"
proof -
  obtain c where c: "c \<in> set (completed_candles daily ctx)" "completed_at c = t" "crosses_central l c"
    using evaluate_flip_candle [OF assms(1)] by metis
  then have vis: "c \<in> set daily" "complete c" "completed_at c \<le> as_of ctx"
    by (simp_all add: completed_candles_visible)
  obtain f where "flip_level l c atr prec ctx = Inr f"
    using flip_level_Inr [OF vis(2,3) c(3) assms(2,3)] .
  then show ?thesis using flip_level_fields [of l c atr prec ctx f] c(2) vis(1) by blast
qed

definition opposes :: "strategy_side \<Rightarrow> decimal \<Rightarrow> level_spec \<Rightarrow> bool" where
  [model_defs]: "opposes side price l \<longleftrightarrow>
     (case side of Long \<Rightarrow> l_role l = Resistance \<and> price < zone_lower l
      | Short \<Rightarrow> l_role l = Support \<and> zone_upper l < price)"

definition target_distance :: "strategy_side \<Rightarrow> decimal \<Rightarrow> level_spec \<Rightarrow> decimal" where
  [model_defs]: "target_distance side price l =
     (case side of Long \<Rightarrow> zone_lower l | Short \<Rightarrow> rnd28 (price - zone_upper l))"

text \<open>The chosen target is an active level of the opposing role strictly beyond the price, and no
  such level is nearer to the price.\<close>

lemma target_is_nearest:
  assumes "nearest_opposing_target price side levels ctx states = Inr (Some t)"
  shows "t \<in> set (active_levels levels states ctx) \<and> opposes side price t
    \<and> (\<forall>l \<in> set (active_levels levels states ctx).
         opposes side price l \<longrightarrow> target_distance side price t \<le> target_distance side price l)"
  using nearest_target_long [of price levels ctx states t] nearest_target_short [of price levels ctx states t] assms
  by (cases side) (simp_all add: opposes_def target_distance_def)

end
