(* ===== verification/Sweeps.thy ===== *)
theory Sweeps
  imports Levels
begin

text \<open>
  The event half of \<^verbatim>\<open>research/strategy.py\<close>: detection of a failed sweep, its confirmation over
  the next three sealed hourly candles, and the decision at the entry open; with the second
  detector's confirmation (\<^verbatim>\<open>confirm_sweep_v2\<close>). Dictionaries are association lists of their
  items; the two time zones of the entry session are parameters.
\<close>

record sweep_alert =
  sw_at :: instant
  sw_side :: strategy_side
  level_keys :: "string list"
  confirmation_threshold :: decimal
  sweep_extreme :: decimal
  frozen_bias :: bias
  provisional_swing :: decimal

definition swept_support :: "candle \<Rightarrow> candle \<Rightarrow> level_spec \<Rightarrow> bool" where
  [model_defs]: "swept_support previous_h1 sweep_h1 l \<longleftrightarrow>
     l_role l = Support \<and> zone_lower l \<le> c_close previous_h1
     \<and> c_low sweep_h1 < zone_lower l \<and> zone_lower l \<le> c_close sweep_h1"

definition swept_resistance :: "candle \<Rightarrow> candle \<Rightarrow> level_spec \<Rightarrow> bool" where
  [model_defs]: "swept_resistance previous_h1 sweep_h1 l \<longleftrightarrow>
     l_role l = Resistance \<and> c_close previous_h1 \<le> zone_upper l
     \<and> zone_upper l < c_high sweep_h1 \<and> c_close sweep_h1 \<le> zone_upper l"

definition detect_failed_sweep ::
  "candle \<Rightarrow> candle \<Rightarrow> level_spec list \<Rightarrow> bias \<Rightarrow> decimal \<Rightarrow> context_at \<Rightarrow> sweep_alert option" where
  [model_defs]: "detect_failed_sweep previous_h1 sweep_h1 levels b provisional ctx =
     (if \<not> complete previous_h1 \<or> opened_at sweep_h1 < completed_at previous_h1
         \<or> \<not> complete sweep_h1 \<or> as_of ctx < completed_at sweep_h1 then None
      else
        (let eligible = filter (\<lambda>l. activated_at l \<le> opened_at sweep_h1) levels;
             supports = sort (map l_key (filter (swept_support previous_h1 sweep_h1) eligible));
             resistances = sort (map l_key (filter (swept_resistance previous_h1 sweep_h1) eligible)) in
         if b = Bullish_Bias \<and> supports \<noteq> []
         then Some \<lparr>sw_at = completed_at sweep_h1, sw_side = Long, level_keys = supports,
                confirmation_threshold = c_high sweep_h1, sweep_extreme = c_low sweep_h1,
                frozen_bias = b, provisional_swing = provisional\<rparr>
         else if b = Bearish_Bias \<and> resistances \<noteq> []
         then Some \<lparr>sw_at = completed_at sweep_h1, sw_side = Short, level_keys = resistances,
                confirmation_threshold = c_low sweep_h1, sweep_extreme = c_high sweep_h1,
                frozen_bias = b, provisional_swing = provisional\<rparr>
         else None))"

section \<open>Confirmation\<close>

datatype confirmation_state = CancelledDataQuality | Invalidated_Sweep | Confirmed_Sweep | Expired_Sweep | TriggerPending

record confirmation =
  cf_state :: confirmation_state
  cf_at :: "instant option"
  supporting_price :: "decimal option"

definition plain_confirmation :: "confirmation_state \<Rightarrow> instant option \<Rightarrow> confirmation" where
  [model_defs]: "plain_confirmation st t = \<lparr>cf_state = st, cf_at = t, supporting_price = None\<rparr>"

text \<open>The candles that follow the sweep: at most three sealed successors, up to the first one
  that is not due yet, or that is missing, ambiguous or has the wrong completion.\<close>

fun collect_following ::
  "(instant \<Rightarrow> candle list) \<Rightarrow> context_at \<Rightarrow> instant list \<Rightarrow> candle list \<times> instant option" where
  "collect_following available ctx [] = ([], None)"
| "collect_following available ctx (expected_open # opens) =
     (let expected_completion = expected_open + hours 1 in
      if as_of ctx < expected_completion then ([], None)
      else
        (case available expected_open of
           [c] \<Rightarrow>
             if opened_at c \<noteq> expected_open \<or> completed_at c \<noteq> expected_completion
             then ([], Some expected_completion)
             else (let (cs, missing) = collect_following available ctx opens in (c # cs, missing))
         | _ \<Rightarrow> ([], Some expected_completion)))"

definition available_h1 :: "sweep_alert \<Rightarrow> candle list \<Rightarrow> context_at \<Rightarrow> instant \<Rightarrow> candle list" where
  [model_defs]: "available_h1 e h1 ctx t =
     filter (\<lambda>c. opened_at c = t) (filter (\<lambda>c. sw_at e < completed_at c) (completed_candles h1 ctx))"

definition successor_opens :: "sweep_alert \<Rightarrow> instant list \<Rightarrow> instant list" where
  [model_defs]: "successor_opens e sealed = take 3 (filter (\<lambda>t. sw_at e \<le> t) (sorted_list_of_set (set sealed)))"

definition daily_after_sweep :: "sweep_alert \<Rightarrow> candle list \<Rightarrow> context_at \<Rightarrow> candle list" where
  [model_defs]: "daily_after_sweep e daily ctx =
     filter (\<lambda>c. sw_at e < completed_at c) (completed_candles daily ctx)"

text \<open>A close through the price against the side of the event.\<close>

definition closes_against :: "strategy_side \<Rightarrow> decimal \<Rightarrow> candle \<Rightarrow> bool" where
  [model_defs]: "closes_against side price c \<longleftrightarrow> (if side = Long then c_close c < price else c_close c > price)"

definition confirms :: "sweep_alert \<Rightarrow> candle \<Rightarrow> bool" where
  [model_defs]: "confirms e c \<longleftrightarrow>
     (if sw_side e = Long then c_close c > confirmation_threshold e
      else c_close c < confirmation_threshold e)"

definition invalidations :: "sweep_alert \<Rightarrow> candle list \<Rightarrow> instant \<Rightarrow> candle list" where
  [model_defs]: "invalidations e after limit =
     filter (\<lambda>c. completed_at c \<le> limit \<and> closes_against (sw_side e) (provisional_swing e) c) after"

definition all_inactive :: "instant option list \<Rightarrow> instant \<Rightarrow> bool" where
  [model_defs]: "all_inactive stops t \<longleftrightarrow>
     stops \<noteq> [] \<and> list_all (\<lambda>i. case i of None \<Rightarrow> False | Some x \<Rightarrow> x \<le> t) stops"

text \<open>The loop over the following candles, with the supporting-swing rule \<open>support\<close>.\<close>

fun confirmation_loop ::
  "(instant \<Rightarrow> decimal) \<Rightarrow> sweep_alert \<Rightarrow> candle list \<Rightarrow> instant option list \<Rightarrow> candle list
     \<Rightarrow> confirmation option" where
  "confirmation_loop support e after inactive [] = None"
| "confirmation_loop support e after inactive (c # cs) =
     (if all_inactive inactive (completed_at c)
      then Some (plain_confirmation Invalidated_Sweep (Some (max_of (map the inactive))))
      else case invalidations e after (completed_at c) of
          d # _ \<Rightarrow> Some (plain_confirmation Invalidated_Sweep (Some (completed_at d)))
        | [] \<Rightarrow>
            if confirms e c
            then Some \<lparr>cf_state = Confirmed_Sweep, cf_at = Some (completed_at c),
                   supporting_price = Some (support (completed_at c))\<rparr>
            else confirmation_loop support e after inactive cs)"

text \<open>The shared body of \<^verbatim>\<open>confirm_sweep\<close> and \<^verbatim>\<open>confirm_sweep_v2\<close>.\<close>

definition confirmation_body ::
  "(instant \<Rightarrow> decimal) \<Rightarrow> sweep_alert \<Rightarrow> candle list \<Rightarrow> candle list \<Rightarrow> context_at
     \<Rightarrow> (string \<times> instant option) list \<Rightarrow> instant list \<Rightarrow> confirmation" where
  [model_defs]: "confirmation_body support e h1 daily ctx inactive_at sealed =
     (if set (map fst inactive_at) \<noteq> set (level_keys e)
      then plain_confirmation CancelledDataQuality (Some (as_of ctx))
      else
        (let (following, missing) = collect_following (available_h1 e h1 ctx) ctx (successor_opens e sealed);
             after = daily_after_sweep e daily ctx in
         case confirmation_loop support e after (map snd inactive_at) following of
           Some result \<Rightarrow> result
         | None \<Rightarrow>
             (case missing of
                Some t \<Rightarrow> plain_confirmation CancelledDataQuality (Some t)
              | None \<Rightarrow>
                  (let window_end = (if length following = 3 then completed_at (last following) else as_of ctx) in
                   case invalidations e after window_end of
                     d # _ \<Rightarrow> plain_confirmation Invalidated_Sweep (Some (completed_at d))
                   | [] \<Rightarrow>
                       if length following = 3
                       then plain_confirmation Expired_Sweep (Some (completed_at (last following)))
                       else plain_confirmation TriggerPending None))))"

fun required_kind :: "strategy_side \<Rightarrow> pivot_kind" where
  "required_kind Long = PivotLow"
| "required_kind Short = PivotHigh"

text \<open>\<^verbatim>\<open>sorted(xs, key=k, reverse=True)\<close> keeps the order of equal keys.\<close>

definition sort_desc :: "('a \<Rightarrow> 'k::linorder) \<Rightarrow> 'a list \<Rightarrow> 'a list" where
  [model_defs]: "sort_desc k xs = rev (sort_key k (rev xs))"

definition latest_valid_support ::
  "sweep_alert \<Rightarrow> candle list \<Rightarrow> pivot list \<Rightarrow> instant \<Rightarrow> decimal" where
  [model_defs]: "latest_valid_support e after swings t =
     (case List.find (\<lambda>p. \<not> list_ex (\<lambda>c. completed_at c \<le> t \<and> pivot_available_at p < completed_at c
                \<and> closes_against (sw_side e) (pivot_price p) c) after)
             (sort_desc pivot_available_at
               (filter (\<lambda>p. pivot_kind p = required_kind (sw_side e) \<and> pivot_available_at p \<le> t) swings)) of
        Some p \<Rightarrow> pivot_price p
      | None \<Rightarrow> provisional_swing e)"

definition confirm_sweep ::
  "sweep_alert \<Rightarrow> candle list \<Rightarrow> candle list \<Rightarrow> context_at \<Rightarrow> (string \<times> instant option) list
     \<Rightarrow> instant list \<Rightarrow> pivot list \<Rightarrow> confirmation" where
  [model_defs]: "confirm_sweep e h1 daily ctx inactive_at sealed swings =
     confirmation_body (latest_valid_support e (daily_after_sweep e daily ctx) swings)
       e h1 daily ctx inactive_at sealed"

definition latest_valid_supporting_swing_v2 ::
  "sweep_alert \<Rightarrow> candle list \<Rightarrow> pivot list \<Rightarrow> instant \<Rightarrow> pivot option" where
  [model_defs]: "latest_valid_supporting_swing_v2 e daily pivots confirmation_at =
     List.find (\<lambda>p. \<not> list_ex (\<lambda>c. (pivot_available_at p < completed_at c \<and> completed_at c \<le> confirmation_at)
         \<and> closes_against (sw_side e) (pivot_price p) c) daily)
       (sort_desc (\<lambda>p. (pivot_available_at p, pivot_at p))
         (filter (\<lambda>p. pivot_kind p = required_kind (sw_side e) \<and> pivot_available_at p \<le> confirmation_at) pivots))"

definition confirm_sweep_v2 ::
  "sweep_alert \<Rightarrow> candle list \<Rightarrow> candle list \<Rightarrow> context_at \<Rightarrow> (string \<times> instant option) list
     \<Rightarrow> instant list \<Rightarrow> pivot list \<Rightarrow> confirmation" where
  [model_defs]: "confirm_sweep_v2 e h1 daily ctx inactive_at sealed swings =
     confirmation_body
       (\<lambda>t. case latest_valid_supporting_swing_v2 e (completed_candles daily ctx) swings t of
          Some p \<Rightarrow> pivot_price p | None \<Rightarrow> provisional_swing e)
       e h1 daily ctx inactive_at sealed"

section \<open>The decision at the entry open\<close>

record entry_open =
  eo_timestamp :: instant
  eo_bid :: decimal
  eo_ask :: decimal

datatype entry_decision =
    EntryDataQuality | BlockedSession | MissedFill | BlockedSpread | NoTarget | InsufficientReward | EntryPending

record entry_result =
  en_decision :: entry_decision
  en_reason :: string
  en_entry :: "decimal option"
  en_stop :: "decimal option"
  en_target :: "decimal option"
  en_reward_risk :: "decimal option"
  en_target_key :: "string option"
  en_risk_quote :: "decimal option"
  en_conversion_rate :: "decimal option"
  en_conversion_at :: "instant option"
  en_conversion_identity :: string
  en_risk_cad :: "decimal option"

definition refused :: "entry_decision \<Rightarrow> string \<Rightarrow> entry_result" where
  [model_defs]: "refused d reason =
     \<lparr>en_decision = d, en_reason = reason, en_entry = None, en_stop = None, en_target = None,
      en_reward_risk = None, en_target_key = None, en_risk_quote = None, en_conversion_rate = None,
      en_conversion_at = None, en_conversion_identity = '''', en_risk_cad = None\<rparr>"

definition in_entry_session :: "zone \<Rightarrow> zone \<Rightarrow> instant \<Rightarrow> bool" where
  [model_defs]: "in_entry_session london new_york t \<longleftrightarrow>
     list_ex (\<lambda>z. hours 8 \<le> time_of_day (to_local z t) \<and> time_of_day (to_local z t) < hours 17)
       [london, new_york]"

record entry_inputs =
  h1_atr :: "decimal option"
  expected_entry :: instant
  prec :: precision
  absolute_ceiling :: decimal
  relative_ceiling :: decimal
  cad_rate :: "decimal option"
  conversion_at :: "instant option"
  conversion_identity :: string
  data_complete :: bool
  market_open :: bool
  session_eligible :: "bool option"

definition data_refused :: "entry_inputs \<Rightarrow> context_at \<Rightarrow> bool" where
  [model_defs]: "data_refused i ctx \<longleftrightarrow>
     \<not> data_complete i
     \<or> (case h1_atr i of None \<Rightarrow> True | Some a \<Rightarrow> a \<le> 0)
     \<or> prec_value (prec i) \<le> 0
     \<or> (case cad_rate i of None \<Rightarrow> True | Some r \<Rightarrow> r \<le> 0)
     \<or> (case conversion_at i of None \<Rightarrow> True | Some t \<Rightarrow> expected_entry i < t \<or> as_of ctx < t)
     \<or> conversion_identity i = ''''"

text \<open>The refusals of a present opening.\<close>

definition opening_refused :: "entry_inputs \<Rightarrow> context_at \<Rightarrow> entry_open \<Rightarrow> entry_result option" where
  [model_defs]: "opening_refused i ctx op =
     (if eo_timestamp op \<noteq> expected_entry i then Some (refused EntryDataQuality ''NOT_NEXT_H1_OPEN'')
      else if as_of ctx < eo_timestamp op then Some (refused EntryDataQuality ''ENTRY_OPEN_AFTER_AS_OF'')
      else if eo_ask op < eo_bid op then Some (refused EntryDataQuality ''NEGATIVE_SPREAD'')
      else None)"

definition entry_stop :: "sweep_alert \<Rightarrow> entry_inputs \<Rightarrow> decimal \<Rightarrow> decimal \<Rightarrow> decimal" where
  [model_defs]: "entry_stop e i atr spread =
     (let buffer = max spread (rnd28 (atr * (1 / 10))) in
      if sw_side e = Long
      then quantize_floor (prec_digits (prec i)) (rnd28 (sweep_extreme e - buffer))
      else quantize_ceiling (prec_digits (prec i)) (rnd28 (sweep_extreme e + buffer)))"

text \<open>From the chosen target on. A risk that is not positive makes the ratio minus infinity.\<close>

definition entry_reward ::
  "sweep_alert \<Rightarrow> entry_inputs \<Rightarrow> decimal \<Rightarrow> decimal \<Rightarrow> level_spec \<Rightarrow> entry_result" where
  [model_defs]: "entry_reward e i entry stop goal =
     (let target = (if sw_side e = Long then zone_lower goal else zone_upper goal);
          risk = (if sw_side e = Long then rnd28 (entry - stop) else rnd28 (stop - entry));
          reward = (if sw_side e = Long then rnd28 (target - entry) else rnd28 (entry - target));
          reward_risk = rnd28 (reward / risk) in
      if risk \<le> 0 \<or> reward_risk < 3 / 2 then refused InsufficientReward ''BELOW_1_5R''
      else \<lparr>en_decision = EntryPending, en_reason = '''', en_entry = Some entry, en_stop = Some stop,
             en_target = Some target, en_reward_risk = Some reward_risk, en_target_key = Some (l_key goal),
             en_risk_quote = Some risk, en_conversion_rate = cad_rate i, en_conversion_at = conversion_at i,
             en_conversion_identity = conversion_identity i,
             en_risk_cad = Some (rnd28 (risk * the (cad_rate i)))\<rparr>)"

text \<open>From the spread check on. The target search raises only for an incomplete inventory,
  which has been refused before.\<close>

definition entry_at_open ::
  "sweep_alert \<Rightarrow> entry_open \<Rightarrow> level_spec list \<Rightarrow> context_at \<Rightarrow> entry_inputs
     \<Rightarrow> (string \<times> level_state) list \<Rightarrow> string + entry_result" where
  [model_defs]: "entry_at_open e op levels ctx i states =
     (let atr = the (h1_atr i); spread = rnd28 (eo_ask op - eo_bid op) in
      if absolute_ceiling i < spread \<or> relative_ceiling i < rnd28 (spread / atr)
      then Inr (refused BlockedSpread ''SPREAD_CEILING'')
      else
        (let entry = (if sw_side e = Long then eo_ask op else eo_bid op);
             stop = entry_stop e i atr spread in
         if (if sw_side e = Long then eo_bid op \<le> stop else stop \<le> eo_ask op)
         then Inr (refused MissedFill ''OPEN_AT_OR_BEYOND_STOP'')
         else
           (case nearest_opposing_target entry (sw_side e) levels ctx states of
              Inl err \<Rightarrow> Inl err
            | Inr None \<Rightarrow> Inr (refused NoTarget ''NO_ACTIVE_OPPOSING_LEVEL'')
            | Inr (Some goal) \<Rightarrow> Inr (entry_reward e i entry stop goal))))"

definition entry_eligibility ::
  "zone \<Rightarrow> zone \<Rightarrow> sweep_alert \<Rightarrow> entry_open option \<Rightarrow> level_spec list \<Rightarrow> context_at \<Rightarrow> entry_inputs
     \<Rightarrow> (string \<times> level_state) list \<Rightarrow> string + entry_result" where
  [model_defs]: "entry_eligibility london new_york e opening levels ctx i states =
     (if data_refused i ctx then Inr (refused EntryDataQuality ''DATA_INCOMPLETE'')
      else if set (map fst states) \<noteq> set (map l_key levels)
      then Inr (refused EntryDataQuality ''INCOMPLETE_TARGET_INVENTORY'')
      else
        (case (case opening of None \<Rightarrow> None | Some op \<Rightarrow> opening_refused i ctx op) of
           Some r \<Rightarrow> Inr r
         | None \<Rightarrow>
             (let eligible = (case session_eligible i of None \<Rightarrow> in_entry_session london new_york (expected_entry i)
                              | Some b \<Rightarrow> b) in
              if \<not> eligible then Inr (refused BlockedSession ''OUTSIDE_SESSION'')
              else
                (case opening of
                   None \<Rightarrow> Inr (refused MissedFill ''NO_DEFENSIBLE_H1_OPEN'')
                 | Some op \<Rightarrow>
                     if \<not> market_open i then Inr (refused MissedFill ''NO_DEFENSIBLE_H1_OPEN'')
                     else entry_at_open e op levels ctx i states))))"

section \<open>What a detected sweep is\<close>

lemma detect_failed_sweep_Some:
  assumes "detect_failed_sweep p s levels b provisional ctx = Some e"
  shows "complete p \<and> complete s \<and> completed_at p \<le> opened_at s \<and> sw_at e = completed_at s
    \<and> sw_at e \<le> as_of ctx \<and> level_keys e \<noteq> [] \<and> sorted (level_keys e) \<and> frozen_bias e = b
    \<and> provisional_swing e = provisional
    \<and> (b = Bullish_Bias \<and> sw_side e = Long \<and> sweep_extreme e = c_low s \<and> confirmation_threshold e = c_high s
         \<and> set (level_keys e) = l_key ` {l \<in> set levels. activated_at l \<le> opened_at s \<and> swept_support p s l}
       \<or> b = Bearish_Bias \<and> sw_side e = Short \<and> sweep_extreme e = c_high s \<and> confirmation_threshold e = c_low s
         \<and> set (level_keys e) = l_key ` {l \<in> set levels. activated_at l \<le> opened_at s \<and> swept_resistance p s l})"
  using assms by (auto simp: detect_failed_sweep_def Let_def split: if_splits)

section \<open>Confirmation\<close>

lemma collect_following_spec:
  assumes "collect_following available ctx opens = (cs, missing)"
  shows "map opened_at cs = take (length cs) opens
    \<and> (\<forall>c \<in> set cs. available (opened_at c) = [c] \<and> completed_at c = opened_at c + hours 1
         \<and> opened_at c + hours 1 \<le> as_of ctx)"
  using assms
proof (induction available ctx opens arbitrary: cs missing rule: collect_following.induct)
  case (2 available ctx expected_open opens)
  show ?case
  proof (cases "cs = []")
    case False
    then obtain c where c: "available expected_open = [c]" "opened_at c = expected_open"
        "completed_at c = expected_open + hours 1" "expected_open + hours 1 \<le> as_of ctx"
      using 2(2) by (auto simp: Let_def split: if_splits list.splits)
    obtain ds m where ds: "collect_following available ctx opens = (ds, m)" by fastforce
    then have "cs = c # ds" using 2(2) c by (simp add: Let_def)
    moreover have "map opened_at ds = take (length ds) opens
      \<and> (\<forall>c \<in> set ds. available (opened_at c) = [c] \<and> completed_at c = opened_at c + hours 1
           \<and> opened_at c + hours 1 \<le> as_of ctx)"
      using 2(1) [OF refl _ c(1) refl _ ds] c by simp
    ultimately show ?thesis using c by force
  qed simp
qed simp

lemma available_h1_single:
  "available_h1 e h1 ctx t = [c] \<Longrightarrow> opened_at c = t \<and> sw_at e < completed_at c \<and> c \<in> set h1 \<and> complete c"
proof -
  assume "available_h1 e h1 ctx t = [c]"
  then have "c \<in> set (available_h1 e h1 ctx t)" by simp
  then show ?thesis by (auto simp: available_h1_def completed_candles_visible)
qed

lemma confirmation_loop_confirmed:
  assumes "confirmation_loop support e after inactive cs = Some r" "cf_state r = Confirmed_Sweep"
  shows "\<exists>k < length cs. r = \<lparr>cf_state = Confirmed_Sweep, cf_at = Some (completed_at (cs ! k)),
      supporting_price = Some (support (completed_at (cs ! k)))\<rparr>
    \<and> confirms e (cs ! k) \<and> (\<forall>j < k. \<not> confirms e (cs ! j))
    \<and> invalidations e after (completed_at (cs ! k)) = [] \<and> \<not> all_inactive inactive (completed_at (cs ! k))"
  using assms
proof (induction support e after inactive cs rule: confirmation_loop.induct)
  case (2 support e after inactive c cs)
  have ok: "\<not> all_inactive inactive (completed_at c)" "invalidations e after (completed_at c) = []"
    using 2(2,3) by (auto simp: plain_confirmation_def split: if_splits list.splits)
  show ?case
  proof (cases "confirms e c")
    case True
    then show ?thesis using 2(2) ok by (intro exI [of _ 0]) simp
  next
    case False
    then obtain k where "k < length cs" "r = \<lparr>cf_state = Confirmed_Sweep, cf_at = Some (completed_at (cs ! k)),
        supporting_price = Some (support (completed_at (cs ! k)))\<rparr>"
      "confirms e (cs ! k)" "\<forall>j < k. \<not> confirms e (cs ! j)"
      "invalidations e after (completed_at (cs ! k)) = []" "\<not> all_inactive inactive (completed_at (cs ! k))"
      using 2 ok by auto
    then show ?thesis using False by (intro exI [of _ "Suc k"]) (auto simp: less_Suc_eq_0_disj)
  qed
qed simp

lemma confirmation_body_confirmed:
  assumes "confirmation_body support e h1 daily ctx inactive_at sealed = r" "cf_state r = Confirmed_Sweep"
  obtains cs missing k where "collect_following (available_h1 e h1 ctx) ctx (successor_opens e sealed) = (cs, missing)"
    "k < length cs" "r = \<lparr>cf_state = Confirmed_Sweep, cf_at = Some (completed_at (cs ! k)),
      supporting_price = Some (support (completed_at (cs ! k)))\<rparr>"
    "confirms e (cs ! k)" "\<forall>j < k. \<not> confirms e (cs ! j)"
    "invalidations e (daily_after_sweep e daily ctx) (completed_at (cs ! k)) = []"
    "\<not> all_inactive (map snd inactive_at) (completed_at (cs ! k))"
proof -
  obtain cs missing where cs: "collect_following (available_h1 e h1 ctx) ctx (successor_opens e sealed) = (cs, missing)"
    by fastforce
  let ?loop = "confirmation_loop support e (daily_after_sweep e daily ctx) (map snd inactive_at) cs"
  have "?loop = Some r"
    using assms cs by (cases ?loop)
      (auto simp: confirmation_body_def plain_confirmation_def Let_def split: if_splits list.splits option.splits)
  from confirmation_loop_confirmed [OF this assms(2)] show ?thesis using that [OF cs] by blast
qed

lemma confirmation_loop_support:
  "map_option (\<lambda>r. (cf_state r, cf_at r)) (confirmation_loop s1 e after inactive cs)
    = map_option (\<lambda>r. (cf_state r, cf_at r)) (confirmation_loop s2 e after inactive cs)"
  by (induction cs) (simp_all split: list.split)

lemma confirmation_body_support:
  "cf_state (confirmation_body s1 e h1 daily ctx inactive_at sealed)
     = cf_state (confirmation_body s2 e h1 daily ctx inactive_at sealed)
   \<and> cf_at (confirmation_body s1 e h1 daily ctx inactive_at sealed)
     = cf_at (confirmation_body s2 e h1 daily ctx inactive_at sealed)"
proof -
  obtain cs missing where cs: "collect_following (available_h1 e h1 ctx) ctx (successor_opens e sealed) = (cs, missing)"
    by fastforce
  show ?thesis
    using confirmation_loop_support [of s1 e "daily_after_sweep e daily ctx" "map snd inactive_at" cs s2]
    by (cases "confirmation_loop s1 e (daily_after_sweep e daily ctx) (map snd inactive_at) cs";
        cases "confirmation_loop s2 e (daily_after_sweep e daily ctx) (map snd inactive_at) cs")
      (simp_all add: confirmation_body_def cs)
qed

lemma find_first: "List.find p xs = Some x \<Longrightarrow> \<exists>ys zs. xs = ys @ x # zs \<and> p x \<and> (\<forall>y \<in> set ys. \<not> p y)"
proof (induction xs)
  case (Cons a xs)
  show ?case
  proof (cases "p a")
    case True
    then have "a # xs = [] @ x # xs \<and> p x \<and> (\<forall>y \<in> set []. \<not> p y)" using Cons.prems by simp
    then show ?thesis by blast
  next
    case False
    then obtain ys zs where "xs = ys @ x # zs" "p x" "\<forall>y \<in> set ys. \<not> p y" using Cons by auto
    then have "a # xs = (a # ys) @ x # zs \<and> p x \<and> (\<forall>y \<in> set (a # ys). \<not> p y)" using False by simp
    then show ?thesis by blast
  qed
qed simp

lemma set_sort_desc [simp]: "set (sort_desc k xs) = set xs"
  by (simp add: sort_desc_def)

lemma sort_desc_sorted: "sorted_wrt (\<lambda>x y. k y \<le> k x) (sort_desc k xs)"
proof -
  have "sorted_wrt (\<lambda>x y. k x \<le> k y) (sort_key k (rev xs))"
    using sorted_sort_key [of k "rev xs"] by (simp add: sorted_wrt_map)
  then show ?thesis by (simp add: sort_desc_def sorted_wrt_rev)
qed

text \<open>A daily close against the pivot inside its lifetime, as the second detector counts it.\<close>

definition breached_in_lifetime :: "strategy_side \<Rightarrow> candle list \<Rightarrow> instant \<Rightarrow> pivot \<Rightarrow> bool" where
  [model_defs]: "breached_in_lifetime side daily limit p \<longleftrightarrow>
     (\<exists>c \<in> set daily. pivot_available_at p < completed_at c \<and> completed_at c \<le> limit
        \<and> closes_against side (pivot_price p) c)"

lemma supporting_swing_v2_Some:
  assumes "latest_valid_supporting_swing_v2 e daily pivots t = Some p"
  shows "p \<in> set pivots \<and> pivot_kind p = required_kind (sw_side e) \<and> pivot_available_at p \<le> t
    \<and> \<not> breached_in_lifetime (sw_side e) daily t p
    \<and> (\<forall>q \<in> set pivots. pivot_kind q = required_kind (sw_side e) \<and> pivot_available_at q \<le> t
         \<and> pivot_available_at p < pivot_available_at q \<longrightarrow> breached_in_lifetime (sw_side e) daily t q)"
proof -
  let ?k = "\<lambda>p. (pivot_available_at p, pivot_at p)"
  let ?ps = "filter (\<lambda>p. pivot_kind p = required_kind (sw_side e) \<and> pivot_available_at p \<le> t) pivots"
  let ?ok = "\<lambda>p. \<not> list_ex (\<lambda>c. (pivot_available_at p < completed_at c \<and> completed_at c \<le> t)
         \<and> closes_against (sw_side e) (pivot_price p) c) daily"
  have ok: "?ok p \<longleftrightarrow> \<not> breached_in_lifetime (sw_side e) daily t p" for p
    by (auto simp: list_ex_iff breached_in_lifetime_def)
  obtain ys zs where split: "sort_desc ?k ?ps = ys @ p # zs" "?ok p" "\<forall>y \<in> set ys. \<not> ?ok y"
    using find_first [OF assms [unfolded latest_valid_supporting_swing_v2_def]] by blast
  have mem: "q \<in> set ?ps \<longleftrightarrow> q \<in> set ys \<or> q = p \<or> q \<in> set zs" for q
    using arg_cong [OF split(1), of set] by (auto simp: set_eq_iff)
  have later: "?k q \<le> ?k p" if "q \<in> set zs" for q
    using sort_desc_sorted [of ?k ?ps] that unfolding split(1) by (simp add: sorted_wrt_append)
  have "p \<in> set ?ps" using mem by blast
  moreover have "\<not> ?ok q" if "q \<in> set ?ps" "pivot_available_at p < pivot_available_at q" for q
    using that mem [of q] split(3) later [of q] by (auto simp: less_eq_prod_def)
  ultimately show ?thesis using split(2) unfolding ok by auto
qed

section \<open>A pending entry\<close>

lemma entry_pending_open:
  assumes "entry_eligibility london new_york e opening levels ctx i states = Inr r" "en_decision r = EntryPending"
  obtains op where "opening = Some op" "eo_timestamp op = expected_entry i" "eo_timestamp op \<le> as_of ctx"
    "eo_bid op \<le> eo_ask op" "\<not> data_refused i ctx" "market_open i"
    "entry_at_open e op levels ctx i states = Inr r"
proof (cases "opening")
  case None
  then show ?thesis using assms
    by (auto simp: entry_eligibility_def refused_def Let_def split: if_splits option.splits)
next
  case (Some op)
  have *: "\<not> data_refused i ctx" using assms
    by (auto simp: entry_eligibility_def refused_def)
  have **: "opening_refused i ctx op = None" using assms Some
    by (auto simp: entry_eligibility_def refused_def opening_refused_def split: if_splits)
  then have "entry_at_open e op levels ctx i states = Inr r" "market_open i" using assms Some *
    by (auto simp: entry_eligibility_def refused_def Let_def split: if_splits)
  then show ?thesis using that Some * ** by (auto simp: opening_refused_def split: if_splits)
qed

lemma entry_at_open_pending:
  assumes "entry_at_open e op levels ctx i states = Inr r" "en_decision r = EntryPending"
  obtains entry stop goal where
    "entry = (if sw_side e = Long then eo_ask op else eo_bid op)"
    "stop = entry_stop e i (the (h1_atr i)) (rnd28 (eo_ask op - eo_bid op))"
    "if sw_side e = Long then stop < eo_bid op else eo_ask op < stop"
    "rnd28 (eo_ask op - eo_bid op) \<le> absolute_ceiling i"
    "rnd28 (rnd28 (eo_ask op - eo_bid op) / the (h1_atr i)) \<le> relative_ceiling i"
    "nearest_opposing_target entry (sw_side e) levels ctx states = Inr (Some goal)"
    "r = entry_reward e i entry stop goal"
  using assms that
  by (auto simp: entry_at_open_def refused_def Let_def not_less not_le split: if_splits sum.splits option.splits)

lemma entry_reward_pending:
  assumes "en_decision (entry_reward e i entry stop goal) = EntryPending"
  shows "\<exists>risk rr. entry_reward e i entry stop goal =
      \<lparr>en_decision = EntryPending, en_reason = '''', en_entry = Some entry, en_stop = Some stop,
       en_target = Some (if sw_side e = Long then zone_lower goal else zone_upper goal),
       en_reward_risk = Some rr, en_target_key = Some (l_key goal), en_risk_quote = Some risk,
       en_conversion_rate = cad_rate i, en_conversion_at = conversion_at i,
       en_conversion_identity = conversion_identity i,
       en_risk_cad = Some (rnd28 (risk * the (cad_rate i)))\<rparr>
    \<and> 0 < risk \<and> 3 / 2 \<le> rr
    \<and> risk = (if sw_side e = Long then rnd28 (entry - stop) else rnd28 (stop - entry))"
  using assms by (auto simp: entry_reward_def refused_def Let_def not_le not_less split: if_splits)

section \<open>Properties\<close>

text \<open>A detected sweep is point in time and geometric: both candles are complete, the previous one
  ended before the sweep opened, the sweep ended by the context's instant, and the recorded keys
  are exactly those of the activated levels that the sweep pierced and closed back over, on the
  side that the bias asks for.\<close>

lemma detected_sweep_is_genuine:
  assumes "detect_failed_sweep p s levels b provisional ctx = Some e"
  shows "complete p \<and> complete s \<and> completed_at p \<le> opened_at s \<and> completed_at s \<le> as_of ctx
    \<and> sw_at e = completed_at s \<and> level_keys e \<noteq> []
    \<and> set (level_keys e) = l_key ` {l \<in> set levels. activated_at l \<le> opened_at s
         \<and> (if sw_side e = Long then swept_support p s l else swept_resistance p s l)}
    \<and> (sw_side e = Long \<longleftrightarrow> b = Bullish_Bias) \<and> (sw_side e = Short \<longleftrightarrow> b = Bearish_Bias)"
  using detect_failed_sweep_Some [OF assms] by (cases "sw_side e") auto

definition calm_h1 :: candle where
  "calm_h1 = \<lparr>opened_at = 4, completed_at = 5, bid_o = 4, bid_h = 5, bid_l = 4, bid_c = 4,
     ask_o = 4, ask_h = 5, ask_l = 4, ask_c = 4, complete = True\<rparr>"

definition piercing_h1 :: candle where
  "piercing_h1 = \<lparr>opened_at = 5, completed_at = 6, bid_o = 4, bid_h = 5, bid_l = 2, bid_c = 4,
     ask_o = 4, ask_h = 5, ask_l = 2, ask_c = 4, complete = True\<rparr>"

definition sample_sweep :: sweep_alert where
  "sample_sweep = the (detect_failed_sweep calm_h1 piercing_h1 [sample_level] Bullish_Bias 1 sample_context)"

lemma sample_sweep: "detect_failed_sweep calm_h1 piercing_h1 [sample_level] Bullish_Bias 1 sample_context = Some sample_sweep"
proof -
  have "\<not> Option.is_none (detect_failed_sweep calm_h1 piercing_h1 [sample_level] Bullish_Bias 1 sample_context)"
    by code_simp
  then show ?thesis by (simp add: sample_sweep_def Option.is_none_def)
qed

text \<open>A confirmation names a real hourly candle: complete, opened at one of the three sealed
  successors of the sweep, one hour long, completed after the sweep and by the context's instant,
  closing beyond the threshold, before any daily close against the provisional swing and before
  all attributed levels became inactive.\<close>

lemma confirmation_is_genuine:
  assumes "cf_state (confirm_sweep_v2 e h1 daily ctx inactive_at sealed swings) = Confirmed_Sweep"
  shows "\<exists>c \<in> set h1. cf_at (confirm_sweep_v2 e h1 daily ctx inactive_at sealed swings) = Some (completed_at c)
    \<and> complete c \<and> sw_at e < completed_at c \<and> completed_at c \<le> as_of ctx
    \<and> opened_at c \<in> set (successor_opens e sealed) \<and> completed_at c = opened_at c + hours 1
    \<and> confirms e c \<and> invalidations e (daily_after_sweep e daily ctx) (completed_at c) = []
    \<and> \<not> all_inactive (map snd inactive_at) (completed_at c)"
proof -
  obtain cs missing k where cs: "collect_following (available_h1 e h1 ctx) ctx (successor_opens e sealed) = (cs, missing)"
    and k: "k < length cs" "cf_at (confirm_sweep_v2 e h1 daily ctx inactive_at sealed swings) = Some (completed_at (cs ! k))"
      "confirms e (cs ! k)" "invalidations e (daily_after_sweep e daily ctx) (completed_at (cs ! k)) = []"
      "\<not> all_inactive (map snd inactive_at) (completed_at (cs ! k))"
    using confirmation_body_confirmed [OF refl assms [unfolded confirm_sweep_v2_def]]
    by (metis confirm_sweep_v2_def confirmation.select_convs(2))
  note spec = collect_following_spec [OF cs]
  have "cs ! k \<in> set cs" using k(1) by simp
  then have c: "available_h1 e h1 ctx (opened_at (cs ! k)) = [cs ! k]"
    "completed_at (cs ! k) = opened_at (cs ! k) + hours 1" "completed_at (cs ! k) \<le> as_of ctx"
    using spec by auto
  have "opened_at (cs ! k) \<in> set (map opened_at cs)" using k(1) by simp
  then have "opened_at (cs ! k) \<in> set (successor_opens e sealed)"
    using spec by (metis in_set_takeD)
  then show ?thesis using available_h1_single [OF c(1)] c k by blast
qed

definition late_sweep :: sweep_alert where
  "late_sweep = \<lparr>sw_at = 6, sw_side = Long, level_keys = [''k''], confirmation_threshold = 4,
     sweep_extreme = 2, frozen_bias = Bullish_Bias, provisional_swing = 1\<rparr>"

definition later_context :: context_at where
  "later_context = sample_context\<lparr>as_of := days 1\<rparr>"

definition confirming_h1 :: candle where
  "confirming_h1 = calm_h1\<lparr>opened_at := 6, completed_at := 6 + hours 1, bid_c := 5, ask_c := 5\<rparr>"

text \<open>The second detector changes only the supporting swing: on every input, both confirmation
  functions decide the same state at the same time.\<close>

lemma second_detector_same_decision:
  "cf_state (confirm_sweep_v2 e h1 daily ctx inactive_at sealed swings)
     = cf_state (confirm_sweep e h1 daily ctx inactive_at sealed swings)
   \<and> cf_at (confirm_sweep_v2 e h1 daily ctx inactive_at sealed swings)
     = cf_at (confirm_sweep e h1 daily ctx inactive_at sealed swings)"
  unfolding confirm_sweep_def confirm_sweep_v2_def by (rule confirmation_body_support)

text \<open>The supporting swing of the second detector is a visible pivot of the required kind that no
  daily close breached inside its lifetime, and every pivot of that kind that became available
  later has been breached.\<close>

lemma supporting_swing_is_latest_valid:
  assumes "latest_valid_supporting_swing_v2 e daily pivots t = Some p"
  shows "p \<in> set pivots \<and> pivot_kind p = required_kind (sw_side e) \<and> pivot_available_at p \<le> t
    \<and> \<not> breached_in_lifetime (sw_side e) daily t p
    \<and> (\<forall>q \<in> set pivots. pivot_kind q = required_kind (sw_side e) \<and> pivot_available_at q \<le> t
         \<and> pivot_available_at p < pivot_available_at q \<longrightarrow> breached_in_lifetime (sw_side e) daily t q)"
  using assms by (rule supporting_swing_v2_Some)

text \<open>C30: A pending entry is executable and correctly ordered: it is taken at the expected open that is
  already known, the stop is strictly on the losing side of both quotes, the target is the zone
  edge of the nearest active opposing level beyond the entry, and the reward is at least one and a
  half times a positive risk.\<close>

theorem pending_entry_is_ordered:
  assumes "entry_eligibility london new_york e opening levels ctx i states = Inr r"
    "en_decision r = EntryPending"
  shows "\<exists>op goal entry stop target rr risk.
      opening = Some op \<and> eo_timestamp op = expected_entry i \<and> eo_timestamp op \<le> as_of ctx
    \<and> en_entry r = Some entry \<and> en_stop r = Some stop \<and> en_target r = Some target
    \<and> en_reward_risk r = Some rr \<and> 3 / 2 \<le> rr \<and> en_risk_quote r = Some risk \<and> 0 < risk
    \<and> nearest_opposing_target entry (sw_side e) levels ctx states = Inr (Some goal)
    \<and> en_target_key r = Some (l_key goal)
    \<and> (case sw_side e of
         Long \<Rightarrow> stop < eo_bid op \<and> eo_bid op \<le> entry \<and> entry = eo_ask op \<and> entry < target \<and> target = zone_lower goal
       | Short \<Rightarrow> target = zone_upper goal \<and> target < entry \<and> entry = eo_bid op \<and> entry \<le> eo_ask op \<and> eo_ask op < stop)"
proof -
  obtain op where op: "opening = Some op" "eo_timestamp op = expected_entry i" "eo_timestamp op \<le> as_of ctx"
      "eo_bid op \<le> eo_ask op" "entry_at_open e op levels ctx i states = Inr r"
    using entry_pending_open [OF assms] by metis
  obtain entry stop goal where g: "entry = (if sw_side e = Long then eo_ask op else eo_bid op)"
    "if sw_side e = Long then stop < eo_bid op else eo_ask op < stop"
    "nearest_opposing_target entry (sw_side e) levels ctx states = Inr (Some goal)"
    "r = entry_reward e i entry stop goal"
    using entry_at_open_pending [OF op(5) assms(2)] by metis
  obtain risk rr where r: "entry_reward e i entry stop goal =
      \<lparr>en_decision = EntryPending, en_reason = '''', en_entry = Some entry, en_stop = Some stop,
       en_target = Some (if sw_side e = Long then zone_lower goal else zone_upper goal),
       en_reward_risk = Some rr, en_target_key = Some (l_key goal), en_risk_quote = Some risk,
       en_conversion_rate = cad_rate i, en_conversion_at = conversion_at i,
       en_conversion_identity = conversion_identity i,
       en_risk_cad = Some (rnd28 (risk * the (cad_rate i)))\<rparr>" "0 < risk" "3 / 2 \<le> rr"
    using entry_reward_pending assms(2) g(4) by metis
  show ?thesis
  proof (cases "sw_side e")
    case Long
    then show ?thesis using op g r nearest_target_long [of entry levels ctx states goal] by auto
  next
    case Short
    then show ?thesis using op g r nearest_target_short [of entry levels ctx states goal] by auto
  qed
qed

definition sample_inputs :: entry_inputs where
  "sample_inputs = \<lparr>h1_atr = Some 1, expected_entry = 7, prec = sample_precision, absolute_ceiling = 1,
     relative_ceiling = 1 / 10, cad_rate = Some 1, conversion_at = Some 6, conversion_identity = ''id'',
     data_complete = True, market_open = True, session_eligible = Some True\<rparr>"

definition sample_goal :: level_spec where
  "sample_goal = sample_level\<lparr>l_role := Resistance, zone_lower := 9, zone_upper := 10, activated_at := 1\<rparr>"

definition sample_open :: entry_open where
  "sample_open = \<lparr>eo_timestamp = 7, eo_bid = 4, eo_ask = 4\<rparr>"

definition sample_entry :: entry_result where
  "sample_entry = projr (entry_eligibility (fixed_zone 0) (fixed_zone 0) late_sweep (Some sample_open)
     [sample_goal] sample_context sample_inputs [(l_key sample_goal, \<lparr>ls_state = Active, ls_effective_at = None\<rparr>)])"

lemma sample_entry:
  "entry_eligibility (fixed_zone 0) (fixed_zone 0) late_sweep (Some sample_open) [sample_goal] sample_context
     sample_inputs [(l_key sample_goal, \<lparr>ls_state = Active, ls_effective_at = None\<rparr>)] = Inr sample_entry"
proof -
  have "\<not> isl (entry_eligibility (fixed_zone 0) (fixed_zone 0) late_sweep (Some sample_open) [sample_goal] sample_context
     sample_inputs [(l_key sample_goal, \<lparr>ls_state = Active, ls_effective_at = None\<rparr>)])" by code_simp
  then show ?thesis by (simp add: sample_entry_def)
qed

theorem pending_entry_is_ordered_witness:
  "\<exists>rr. en_reward_risk sample_entry = Some rr \<and> 3 / 2 \<le> rr"
proof -
  have "en_decision sample_entry = EntryPending" by code_simp
  from pending_entry_is_ordered [OF sample_entry this] show ?thesis by blast
qed

end
