(* ===== verification/Admission.thy ===== *)
theory Admission
  imports Sweeps "HOL-Library.Multiset"
begin

text \<open>
  The admission half of \<^verbatim>\<open>research/failed_break_detector_v2.py\<close>: the sealed multi-timeframe
  completion stream (a merge of ordered inventories, against its sorting reference), the
  projection of the stream into same-completion batches with their canonical phases, the
  driver of the phase handlers, the ten-session horizon index, and the fail-closed checks of
  \<^verbatim>\<open>load_instrument_snapshot\<close> over the rows of its queries. \<^verbatim>\<open>DetectorV2EvidenceError\<close> is \<open>Inl\<close>
  of an error; an inventory is the association list of the dictionary's items, and the
  completion resolver is a parameter.
\<close>

datatype detector_error =
    UnsupportedGranularity string | InventoryKeys | InventoryOrder string | CompletionOrder string
  | AmbiguousBatch | ProjectionDiffers string | AnalysisDiffers | HandlersIncomplete
  | InventoryMember | CandleLineage | DuplicateCandle | CandleIncomplete | MembershipDiffers | ConflictingCandle
  | InvalidRange | RangeMissing

type_synonym inventory = "(string \<times> instant list) list"
type_synonym resolver = "string \<Rightarrow> instant \<Rightarrow> instant"

definition granularity_order :: "string list" where
  [model_defs]: "granularity_order = [''H1'', ''W'', ''D'']"

definition granularity_priority :: "string \<Rightarrow> nat option" where
  [model_defs]: "granularity_priority g = find_index (\<lambda>h. h = g) granularity_order"

datatype phase = H1EntryOpen | AdmitH1 | AdmitW | AdmitD | UpdateDwLifecycle | ResolveConfirmation | EvaluateSweep

definition phase_order :: "phase list" where
  [model_defs]: "phase_order =
     [H1EntryOpen, AdmitH1, AdmitW, AdmitD, UpdateDwLifecycle, ResolveConfirmation, EvaluateSweep]"

section \<open>Completion events\<close>

record completion_event =
  ev_completed_at :: instant
  ev_priority :: nat
  ev_granularity :: string
  ev_opened_at :: instant

text \<open>The order of the dataclass is that of the tuple of its fields.\<close>

definition event_key :: "completion_event \<Rightarrow> instant \<times> nat \<times> string \<times> instant" where
  [model_defs]: "event_key e = (ev_completed_at e, ev_priority e, ev_granularity e, ev_opened_at e)"

definition create_event :: "string \<Rightarrow> instant \<Rightarrow> instant \<Rightarrow> detector_error + completion_event" where
  [model_defs]: "create_event g opened completed =
     (case granularity_priority g of
        None \<Rightarrow> Inl (UnsupportedGranularity g)
      | Some p \<Rightarrow> Inr \<lparr>ev_completed_at = completed, ev_priority = p, ev_granularity = g, ev_opened_at = opened\<rparr>)"

definition members_of :: "inventory \<Rightarrow> string \<Rightarrow> instant list" where
  [model_defs]: "members_of inventory g = (case map_of inventory g of None \<Rightarrow> [] | Some ms \<Rightarrow> ms)"

fun validate_members :: "inventory \<Rightarrow> string list \<Rightarrow> detector_error option" where
  "validate_members inventory [] = None"
| "validate_members inventory (g # gs) =
     (if members_of inventory g \<noteq> sort (members_of inventory g) \<or> \<not> distinct (members_of inventory g)
      then Some (InventoryOrder g) else validate_members inventory gs)"

definition validate_inventory :: "inventory \<Rightarrow> detector_error option" where
  [model_defs]: "validate_inventory inventory =
     (if set (map fst inventory) \<noteq> set granularity_order then Some InventoryKeys
      else validate_members inventory granularity_order)"

definition events_for_granularity ::
  "string \<Rightarrow> instant list \<Rightarrow> resolver \<Rightarrow> detector_error + completion_event list" where
  [model_defs]: "events_for_granularity g members resolve =
     (case collect (map (\<lambda>t. create_event g t (resolve g t)) members) of
        Inl e \<Rightarrow> Inl e
      | Inr events \<Rightarrow> if events \<noteq> sort_key event_key events then Inl (CompletionOrder g) else Inr events)"

text \<open>The three streams, built in order.\<close>

definition granularity_streams :: "inventory \<Rightarrow> resolver \<Rightarrow> detector_error + completion_event list list" where
  [model_defs]: "granularity_streams inventory resolve =
     collect (map (\<lambda>g. events_for_granularity g (members_of inventory g) resolve) granularity_order)"

definition reference_completion_stream ::
  "inventory \<Rightarrow> resolver \<Rightarrow> detector_error + completion_event list" where
  [model_defs]: "reference_completion_stream inventory resolve =
     (case validate_inventory inventory of
        Some e \<Rightarrow> Inl e
      | None \<Rightarrow>
          (case granularity_streams inventory resolve of
             Inl e \<Rightarrow> Inl e | Inr streams \<Rightarrow> Inr (sort_key event_key (concat streams))))"

text \<open>\<^verbatim>\<open>heapq.merge\<close>: repeatedly take the smallest head, the earlier stream on a tie.\<close>

definition smallest_head :: "('a \<Rightarrow> 'k::linorder) \<Rightarrow> 'a list list \<Rightarrow> nat option" where
  [model_defs]: "smallest_head key ss =
     first_min_by (\<lambda>i. key (hd (ss ! i))) (filter (\<lambda>i. ss ! i \<noteq> []) [0..<length ss])"

fun heap_merge :: "('a \<Rightarrow> 'k::linorder) \<Rightarrow> nat \<Rightarrow> 'a list list \<Rightarrow> 'a list" where
  "heap_merge key 0 ss = []"
| "heap_merge key (Suc n) ss =
     (case smallest_head key ss of
        None \<Rightarrow> []
      | Some i \<Rightarrow> hd (ss ! i) # heap_merge key n (ss[i := tl (ss ! i)]))"

definition completion_stream :: "inventory \<Rightarrow> resolver \<Rightarrow> detector_error + completion_event list" where
  [model_defs]: "completion_stream inventory resolve =
     (case validate_inventory inventory of
        Some e \<Rightarrow> Inl e
      | None \<Rightarrow>
          (case granularity_streams inventory resolve of
             Inl e \<Rightarrow> Inl e
           | Inr streams \<Rightarrow> Inr (heap_merge event_key (length (concat streams)) streams)))"

section \<open>Projection\<close>

record completion_batch =
  b_completed_at :: instant
  b_events :: "completion_event list"

text \<open>\<^verbatim>\<open>admitted_members\<close> as an association list in \<open>granularity_order\<close>.\<close>

record admission_projection =
  batches :: "completion_batch list"
  admitted_members :: inventory
  analysis_timestamps :: "instant list"
  phase_trace :: "(instant \<times> phase list) list"

function same_completion_runs :: "completion_event list \<Rightarrow> completion_event list list" where
  "same_completion_runs [] = []"
| "same_completion_runs (e # es) =
     (e # takeWhile (\<lambda>f. ev_completed_at f = ev_completed_at e) es)
       # same_completion_runs (dropWhile (\<lambda>f. ev_completed_at f = ev_completed_at e) es)"
  by pat_completeness auto
termination by (relation "measure length") (auto simp: le_imp_less_Suc length_dropWhile_le)

definition has_granularity :: "completion_event list \<Rightarrow> string \<Rightarrow> bool" where
  [model_defs]: "has_granularity es g \<longleftrightarrow> list_ex (\<lambda>e. ev_granularity e = g) es"

definition first_opened :: "completion_event list \<Rightarrow> string \<Rightarrow> instant" where
  [model_defs]: "first_opened es g = ev_opened_at (hd (filter (\<lambda>e. ev_granularity e = g) es))"

definition batch_ok :: "completion_event list \<Rightarrow> bool" where
  [model_defs]: "batch_ok es \<longleftrightarrow> es = sort_key ev_priority es \<and> distinct (map ev_granularity es)"

definition batch_phases :: "completion_event list \<Rightarrow> phase list" where
  [model_defs]: "batch_phases es =
     (if has_granularity es ''H1'' then [H1EntryOpen] else [])
   @ (if has_granularity es ''H1'' then [AdmitH1] else [])
   @ (if has_granularity es ''W'' then [AdmitW] else [])
   @ (if has_granularity es ''D'' then [AdmitD] else [])
   @ (if has_granularity es ''W'' \<or> has_granularity es ''D'' then [UpdateDwLifecycle] else [])
   @ (if has_granularity es ''H1'' then [ResolveConfirmation, EvaluateSweep] else [])"

definition admitted_of :: "completion_event list list \<Rightarrow> string \<Rightarrow> instant list" where
  [model_defs]: "admitted_of runs g =
     map (\<lambda>es. first_opened es g) (filter (\<lambda>es. has_granularity es g) runs)"

text \<open>The loop raises at the first ambiguous batch; otherwise each accumulator has one entry per
  batch that contributes to it, in order.\<close>

definition project_admission :: "completion_event list \<Rightarrow> detector_error + admission_projection" where
  [model_defs]: "project_admission events =
     (let runs = same_completion_runs events in
      if \<not> list_all batch_ok runs then Inl AmbiguousBatch
      else Inr
        \<lparr>batches = map (\<lambda>es. \<lparr>b_completed_at = ev_completed_at (hd es), b_events = es\<rparr>) runs,
         admitted_members = map (\<lambda>g. (g, admitted_of runs g)) granularity_order,
         analysis_timestamps = admitted_of runs ''H1'',
         phase_trace = map (\<lambda>es. (ev_completed_at (hd es), batch_phases es)) runs\<rparr>)"

fun first_mismatch :: "inventory \<Rightarrow> inventory \<Rightarrow> string list \<Rightarrow> detector_error option" where
  "first_mismatch admitted inventory [] = None"
| "first_mismatch admitted inventory (g # gs) =
     (if members_of admitted g \<noteq> members_of inventory g then Some (ProjectionDiffers g)
      else first_mismatch admitted inventory gs)"

definition assert_complete_projection :: "admission_projection \<Rightarrow> inventory \<Rightarrow> detector_error option" where
  [model_defs]: "assert_complete_projection projection inventory =
     (case validate_inventory inventory of
        Some e \<Rightarrow> Some e
      | None \<Rightarrow>
          (case first_mismatch (admitted_members projection) inventory granularity_order of
             Some e \<Rightarrow> Some e
           | None \<Rightarrow>
               if analysis_timestamps projection \<noteq> members_of inventory ''H1'' then Some AnalysisDiffers
               else None))"

text \<open>Handlers transform an abstract runner state.\<close>

type_synonym 's handler = "completion_batch \<Rightarrow> completion_event option \<Rightarrow> 's \<Rightarrow> 's"

definition phase_event :: "completion_batch \<Rightarrow> phase \<Rightarrow> completion_event option" where
  [model_defs]: "phase_event batch p =
     (let by_granularity = (\<lambda>g. map_of (rev (map (\<lambda>e. (ev_granularity e, e)) (b_events batch))) g) in
      if p \<in> {H1EntryOpen, AdmitH1, ResolveConfirmation, EvaluateSweep} then by_granularity ''H1''
      else if p = AdmitW then by_granularity ''W''
      else if p = AdmitD then by_granularity ''D''
      else None)"

definition drive_batch :: "(phase \<times> 's handler) list \<Rightarrow> completion_batch \<times> phase list \<Rightarrow> 's \<Rightarrow> 's" where
  [model_defs]: "drive_batch handlers bp st =
     fold (\<lambda>p s. the (map_of handlers p) (fst bp) (phase_event (fst bp) p) s) (snd bp) st"

definition drive_admission ::
  "completion_event list \<Rightarrow> (phase \<times> 's handler) list \<Rightarrow> 's \<Rightarrow> detector_error + (admission_projection \<times> 's)" where
  [model_defs]: "drive_admission events handlers st =
     (if set (map fst handlers) \<noteq> set phase_order then Inl HandlersIncomplete
      else
        (case project_admission events of
           Inl e \<Rightarrow> Inl e
         | Inr p \<Rightarrow> Inr (p, fold (drive_batch handlers) (zip (batches p) (map snd (phase_trace p))) st)))"

section \<open>The ten-session horizon\<close>

record horizon_index =
  daily_opened :: "instant list"
  daily_completed :: "instant list"
  hourly_opened :: "instant list"

definition horizon_of :: "admission_projection \<Rightarrow> horizon_index" where
  [model_defs]: "horizon_of projection =
     (let daily = filter (\<lambda>e. ev_granularity e = ''D'') (concat (map b_events (batches projection))) in
      \<lparr>daily_opened = map ev_opened_at daily, daily_completed = map ev_completed_at daily,
       hourly_opened = members_of (admitted_members projection) ''H1''\<rparr>)"

text \<open>\<^verbatim>\<open>bisect_right\<close> and \<^verbatim>\<open>bisect_left\<close>: the binary search of the standard library, \<open>go_left x\<close>
  being \<^verbatim>\<open>target < x\<close> and \<^verbatim>\<open>not (x < target)\<close>.\<close>

function bisect :: "('a \<Rightarrow> bool) \<Rightarrow> 'a list \<Rightarrow> nat \<Rightarrow> nat \<Rightarrow> nat" where
  "bisect go_left xs lo hi =
     (if lo < hi
      then (let mid = (lo + hi) div 2 in
            if go_left (xs ! mid) then bisect go_left xs lo mid else bisect go_left xs (mid + 1) hi)
      else lo)"
  by pat_completeness auto
termination by (relation "measure (\<lambda>(p, xs, lo, hi). hi - lo)") auto

declare bisect.simps [simp del]

definition bisect_right :: "instant list \<Rightarrow> instant \<Rightarrow> nat" where
  [model_defs]: "bisect_right xs t = bisect (\<lambda>x. t < x) xs 0 (length xs)"

definition bisect_left :: "instant list \<Rightarrow> instant \<Rightarrow> nat" where
  [model_defs]: "bisect_left xs t = bisect (\<lambda>x. \<not> x < t) xs 0 (length xs)"

text \<open>\<^verbatim>\<open>sessions\<close> is at least one (the default is ten).\<close>

definition maximum_exit_open :: "horizon_index \<Rightarrow> instant \<Rightarrow> nat \<Rightarrow> instant option" where
  [model_defs]: "maximum_exit_open ix entry_at sessions =
     (let start = bisect_right (daily_completed ix) entry_at; target = start + sessions - 1 in
      if length (daily_completed ix) \<le> target then None
      else
        (let hourly_index = bisect_left (hourly_opened ix) (daily_completed ix ! target) in
         if length (hourly_opened ix) \<le> hourly_index then None
         else Some (hourly_opened ix ! hourly_index)))"

definition reference_maximum_exit_open :: "horizon_index \<Rightarrow> instant \<Rightarrow> nat \<Rightarrow> instant option" where
  [model_defs]: "reference_maximum_exit_open ix entry_at sessions =
     (let completions = filter (\<lambda>c. entry_at < c) (daily_completed ix) in
      if length completions < sessions then None
      else List.find (\<lambda>h. completions ! (sessions - 1) \<le> h) (hourly_opened ix))"

section \<open>The preloaded snapshot\<close>

text \<open>The columns that the first query reads; \<open>ir_discovery_succeeded\<close> and \<open>ir_plan_sealed\<close> are
  the comparisons with the succeeded status and with null.\<close>

record inventory_row =
  ir_inventory_id :: int
  ir_granularity :: string
  ir_timestamp :: instant
  ir_complete :: bool
  ir_bid_present :: bool
  ir_ask_present :: bool
  ir_discovery_succeeded :: bool
  ir_plan_sealed :: bool

text \<open>A candle row, with its acquisition lineage when every related row exists.\<close>

record lineage =
  run_dataset :: int
  run_succeeded :: bool
  attempt_number :: int
  chunk_dataset :: int
  chunk_instrument :: int
  chunk_granularity :: string
  chunk_inventory :: "int option"

record candle_row =
  cr_granularity :: string
  cr_timestamp :: instant
  cr_complete :: bool
  cr_lineage :: "lineage option"

type_synonym member_key = "string \<times> instant"

record snapshot =
  sn_instrument :: int
  sn_inventory :: inventory
  sn_candles :: "(member_key \<times> candle_row) list"

definition row_key :: "inventory_row \<Rightarrow> member_key" where
  [model_defs]: "row_key r = (ir_granularity r, ir_timestamp r)"

definition candle_key :: "candle_row \<Rightarrow> member_key" where
  [model_defs]: "candle_key c = (cr_granularity c, cr_timestamp c)"

definition range_invalid :: "string \<times> instant \<times> instant \<Rightarrow> bool" where
  [model_defs]: "range_invalid r \<longleftrightarrow> fst r \<notin> set granularity_order \<or> snd (snd r) < fst (snd r)"

fun check_inventory :: "member_key list \<Rightarrow> inventory_row list \<Rightarrow> detector_error option" where
  "check_inventory seen [] = None"
| "check_inventory seen (r # rs) =
     (if row_key r \<in> set seen
         \<or> \<not> (ir_complete r \<and> ir_bid_present r \<and> ir_ask_present r)
         \<or> \<not> ir_discovery_succeeded r \<or> \<not> ir_plan_sealed r
      then Some InventoryMember else check_inventory (row_key r # seen) rs)"

definition lineage_ok :: "int \<Rightarrow> int \<Rightarrow> (member_key \<times> int) list \<Rightarrow> candle_row \<Rightarrow> lineage \<Rightarrow> bool" where
  [model_defs]: "lineage_ok dataset instrument ids c l \<longleftrightarrow>
     cr_complete c \<and> run_dataset l = dataset \<and> run_succeeded l \<and> attempt_number l = 1
     \<and> chunk_dataset l = dataset \<and> chunk_instrument l = instrument
     \<and> chunk_granularity l = cr_granularity c \<and> chunk_inventory l = map_of ids (candle_key c)"

fun check_candles ::
  "int \<Rightarrow> int \<Rightarrow> (member_key \<times> int) list \<Rightarrow> member_key list \<Rightarrow> candle_row list \<Rightarrow> detector_error option" where
  "check_candles dataset instrument ids seen [] = None"
| "check_candles dataset instrument ids seen (c # cs) =
     (case cr_lineage c of
        None \<Rightarrow> Some CandleLineage
      | Some l \<Rightarrow>
          if candle_key c \<in> set seen then Some DuplicateCandle
          else if \<not> lineage_ok dataset instrument ids c l then Some CandleIncomplete
          else check_candles dataset instrument ids (candle_key c # seen) cs)"

text \<open>The three queries are parameters: the rows they return, and whether a conflict exists.\<close>

definition load_instrument_snapshot ::
  "int \<Rightarrow> int \<Rightarrow> (string \<times> instant \<times> instant) list \<Rightarrow> inventory_row list \<Rightarrow> candle_row list \<Rightarrow> bool
     \<Rightarrow> detector_error + snapshot" where
  [model_defs]: "load_instrument_snapshot dataset instrument ranges rows candles conflict =
     (if list_ex range_invalid ranges then Inl InvalidRange
      else case check_inventory [] rows of
          Some e \<Rightarrow> Inl e
        | None \<Rightarrow>
            (case check_candles dataset instrument (map (\<lambda>r. (row_key r, ir_inventory_id r)) rows) [] candles of
               Some e \<Rightarrow> Inl e
             | None \<Rightarrow>
                 if set (map candle_key candles) \<noteq> set (map row_key rows) then Inl MembershipDiffers
                 else if \<not> set granularity_order \<subseteq> set (map fst ranges) then Inl RangeMissing
                 else if conflict then Inl ConflictingCandle
                 else Inr
                   \<lparr>sn_instrument = instrument,
                    sn_inventory = map (\<lambda>g. (g, map ir_timestamp (filter (\<lambda>r. ir_granularity r = g) rows)))
                      granularity_order,
                    sn_candles = map (\<lambda>c. (candle_key c, c)) candles\<rparr>))"

section \<open>The merge is the sort\<close>

lemma smallest_head_Some:
  assumes "smallest_head key ss = Some i"
  shows "i < length ss \<and> ss ! i \<noteq> [] \<and> (\<forall>j < length ss. ss ! j \<noteq> [] \<longrightarrow> key (hd (ss ! i)) \<le> key (hd (ss ! j)))"
  using first_min_by_Some [OF assms [unfolded smallest_head_def]] by auto

lemma smallest_head_None:
  assumes "smallest_head key ss = None"
  shows "concat ss = []"
proof -
  have empty: "filter (\<lambda>i. ss ! i \<noteq> []) [0..<length ss] = []"
    using assms unfolding smallest_head_def by (simp only: first_min_by_None)
  have "ss ! i = []" if "i < length ss" for i
  proof (rule ccontr)
    assume "ss ! i \<noteq> []"
    then have "i \<in> set (filter (\<lambda>i. ss ! i \<noteq> []) [0..<length ss])" using that by simp
    then show False unfolding empty by simp
  qed
  then have "\<forall>s \<in> set ss. s = []" by (metis in_set_conv_nth)
  then show ?thesis by simp
qed

lemma concat_pop:
  assumes "i < length ss" "ss ! i \<noteq> []"
  shows "mset (concat ss) = add_mset (hd (ss ! i)) (mset (concat (ss[i := tl (ss ! i)])))"
proof -
  have hd_tl: "mset (ss ! i) = add_mset (hd (ss ! i)) (mset (tl (ss ! i)))"
    using assms(2) by (cases "ss ! i") simp_all
  have "mset (concat ss) = mset (concat (take i ss @ ss ! i # drop (Suc i) ss))"
    using assms(1) by (simp add: id_take_nth_drop [symmetric])
  then show ?thesis using assms(1) hd_tl by (simp add: upd_conv_take_nth_drop)
qed

lemma sorted_tails:
  "\<forall>s \<in> set ss. sorted (map key s) \<Longrightarrow> i < length ss \<Longrightarrow> \<forall>s \<in> set (ss[i := tl (ss ! i)]). sorted (map key s)"
  by (auto dest!: set_update_subset_insert [THEN subsetD] simp: map_tl sorted_tl)

lemma heap_merge_spec:
  assumes "length (concat ss) \<le> n" "\<forall>s \<in> set ss. sorted (map key s)"
  shows "mset (heap_merge key n ss) = mset (concat ss) \<and> sorted (map key (heap_merge key n ss))"
  using assms
proof (induction key n ss rule: heap_merge.induct)
  case (2 key n ss)
  show ?case
  proof (cases "smallest_head key ss")
    case None
    then show ?thesis using smallest_head_None [OF None] by simp
  next
    case (Some i)
    note i = smallest_head_Some [OF Some]
    let ?ss = "ss[i := tl (ss ! i)]"
    have pop: "mset (concat ss) = add_mset (hd (ss ! i)) (mset (concat ?ss))" using i concat_pop by blast
    then have "length (concat ss) = Suc (length (concat ?ss))" by (metis size_add_mset size_mset)
    then have IH: "mset (heap_merge key n ?ss) = mset (concat ?ss)" "sorted (map key (heap_merge key n ?ss))"
      using "2.IH" [OF Some] "2.prems" sorted_tails [OF "2.prems"(2), of i] i by simp_all
    have least: "key (hd (ss ! i)) \<le> key x" if x: "x \<in> set (concat ss)" for x
    proof -
      from x obtain s where "s \<in> set ss" "x \<in> set s" by auto
      then obtain j where j: "j < length ss" "x \<in> set (ss ! j)" by (metis in_set_conv_nth)
      then have ne: "ss ! j \<noteq> []" by auto
      have "key (hd (ss ! j)) \<le> key x"
        using "2.prems"(2) j ne by (cases "ss ! j") (auto dest!: nth_mem)
      then show ?thesis using i j ne by (meson order_trans)
    qed
    have "set (heap_merge key n ?ss) \<subseteq> set (concat ss)"
      using IH(1) pop by (metis set_mset_mset set_mset_add_mset_insert subset_insertI)
    then show ?thesis using IH pop least Some by auto
  qed
qed simp

lemma inj_event_key: "inj event_key"
  by (rule injI) (simp add: event_key_def)

lemma sorted_by_key_unique:
  assumes "mset xs = mset ys" "sorted (map event_key xs)" "sorted (map event_key ys)"
  shows "xs = ys"
proof -
  have "mset (map event_key xs) = mset (map event_key ys)" using assms(1) by simp
  then have "map event_key xs = map event_key ys"
    using assms(2,3) by (metis properties_for_sort)
  then show ?thesis using inj_event_key by (simp add: inj_map_eq_map)
qed

lemma granularity_streams_sorted:
  assumes "granularity_streams inventory resolve = Inr streams"
  shows "\<forall>s \<in> set streams. sorted (map event_key s)"
proof
  fix s assume "s \<in> set streams"
  moreover have "map (\<lambda>g. events_for_granularity g (members_of inventory g) resolve) granularity_order = map Inr streams"
    using assms by (simp only: granularity_streams_def collect_Inr)
  ultimately have "Inr s \<in> set (map (\<lambda>g. events_for_granularity g (members_of inventory g) resolve) granularity_order)"
    by simp
  then obtain g where "events_for_granularity g (members_of inventory g) resolve = Inr s" by auto
  then have "s = sort_key event_key s"
    by (auto simp: events_for_granularity_def split: sum.splits if_splits)
  then show "sorted (map event_key s)" by (metis sorted_sort_key)
qed

lemma merged_streams:
  assumes "granularity_streams inventory resolve = Inr streams"
  shows "heap_merge event_key (length (concat streams)) streams = sort_key event_key (concat streams)"
  using heap_merge_spec [OF order_refl granularity_streams_sorted [OF assms]]
  by (intro sorted_by_key_unique) simp_all

section \<open>The projection admits exactly the inventory\<close>

lemma concat_runs [simp]: "concat (same_completion_runs es) = es"
  by (induction es rule: same_completion_runs.induct) simp_all

lemma runs_constant:
  "r \<in> set (same_completion_runs es) \<Longrightarrow> r \<noteq> [] \<and> (\<forall>e \<in> set r. ev_completed_at e = ev_completed_at (hd r))"
proof (induction es rule: same_completion_runs.induct)
  case (2 e es)
  from "2.prems" consider "r = e # takeWhile (\<lambda>f. ev_completed_at f = ev_completed_at e) es"
    | "r \<in> set (same_completion_runs (dropWhile (\<lambda>f. ev_completed_at f = ev_completed_at e) es))"
    by (simp only: same_completion_runs.simps list.set) blast
  then show ?case
  proof cases
    case 1
    then show ?thesis using set_takeWhileD by fastforce
  next
    case b: 2
    then show ?thesis by (rule "2.IH")
  qed
qed simp

lemma concat_segment: "r \<in> set rs \<Longrightarrow> \<exists>xs ys. concat rs = xs @ r @ ys"
  by (metis concat.simps(2) concat_append split_list)

text \<open>No granularity completes two members at the same instant.\<close>

definition unambiguous :: "completion_event list \<Rightarrow> bool" where
  [model_defs]: "unambiguous es \<longleftrightarrow> distinct (map (\<lambda>e. (ev_granularity e, ev_completed_at e)) es)"

definition canonical_order :: "completion_event list \<Rightarrow> bool" where
  [model_defs]: "canonical_order es \<longleftrightarrow> sorted (map event_key es)"

lemma run_batch_ok:
  assumes "canonical_order es" "unambiguous es" "r \<in> set (same_completion_runs es)"
  shows "batch_ok r"
proof -
  obtain xs ys where split: "es = xs @ r @ ys"
    using concat_segment [OF assms(3)] by auto
  have const: "\<forall>e \<in> set r. ev_completed_at e = ev_completed_at (hd r)" using runs_constant [OF assms(3)] by blast
  have "sorted (map event_key r)" using assms(1) by (simp add: canonical_order_def split sorted_append)
  then have "sorted_wrt (\<lambda>e f. event_key e \<le> event_key f) r" by (simp add: sorted_wrt_map)
  then have "sorted_wrt (\<lambda>e f. ev_priority e \<le> ev_priority f) r"
    by (rule sorted_wrt_mono_rel [rotated])
       (use const in \<open>auto simp: event_key_def less_eq_prod_def\<close>)
  then have "sorted (map ev_priority r)" by (simp add: sorted_wrt_map)
  then have "sort_key ev_priority r = r" by (rule sort_key_id_if_sorted)
  moreover have "distinct (map ev_granularity r)"
  proof -
    have "distinct (map (\<lambda>e. (ev_granularity e, ev_completed_at e)) r)"
      using assms(2) by (simp add: unambiguous_def split)
    moreover have "map (\<lambda>e. (ev_granularity e, ev_completed_at e)) r
        = map (\<lambda>g. (g, ev_completed_at (hd r))) (map ev_granularity r)" using const by simp
    ultimately show ?thesis by (metis distinct_map)
  qed
  ultimately show ?thesis by (simp add: batch_ok_def)
qed

lemma single_granularity:
  "distinct (map ev_granularity r) \<Longrightarrow>
     map ev_opened_at (filter (\<lambda>e. ev_granularity e = g) r)
       = (if has_granularity r g then [first_opened r g] else [])"
proof (induction r)
  case (Cons e r)
  show ?case
  proof (cases "ev_granularity e = g")
    case True
    then have "filter (\<lambda>e. ev_granularity e = g) r = []" using Cons.prems
      by (fastforce simp: filter_empty_conv image_iff)
    then show ?thesis using True by (simp add: has_granularity_def first_opened_def)
  next
    case False
    then show ?thesis using Cons by (simp add: has_granularity_def first_opened_def)
  qed
qed (simp add: has_granularity_def)

lemma admitted_of_runs:
  "list_all batch_ok rs \<Longrightarrow> admitted_of rs g = map ev_opened_at (filter (\<lambda>e. ev_granularity e = g) (concat rs))"
  by (induction rs) (simp_all add: admitted_of_def batch_ok_def single_granularity)

lemma project_admission_total:
  assumes "canonical_order es" "unambiguous es"
  obtains p where "project_admission es = Inr p"
    "admitted_members p = map (\<lambda>g. (g, map ev_opened_at (filter (\<lambda>e. ev_granularity e = g) es))) granularity_order"
    "analysis_timestamps p = map ev_opened_at (filter (\<lambda>e. ev_granularity e = ''H1'') es)"
    "concat (map b_events (batches p)) = es"
proof -
  have "list_all batch_ok (same_completion_runs es)"
    using run_batch_ok [OF assms] by (simp add: list_all_iff)
  then show ?thesis using that by (simp add: project_admission_def admitted_of_runs comp_def Let_def)
qed

text \<open>The events of one granularity inside the merged stream are its own stream.\<close>

lemma create_event_Inr:
  "create_event g opened completed = Inr e \<Longrightarrow> ev_granularity e = g \<and> ev_opened_at e = opened \<and> ev_completed_at e = completed"
  by (auto simp: create_event_def split: option.splits)

lemma created_events:
  "map (\<lambda>t. create_event g t (resolve g t)) ms = map Inr es \<Longrightarrow>
     (\<forall>e \<in> set es. ev_granularity e = g) \<and> map ev_opened_at es = ms
       \<and> map ev_completed_at es = map (resolve g) ms"
proof (induction ms arbitrary: es)
  case (Cons m ms)
  then obtain e es' where es: "es = e # es'" "create_event g m (resolve g m) = Inr e"
    "map (\<lambda>t. create_event g t (resolve g t)) ms = map Inr es'" by (auto simp: Cons_eq_map_conv)
  then show ?case using Cons.IH [OF es(3)] create_event_Inr [OF es(2)] by simp
qed simp

lemma events_for_granularity_Inr:
  assumes "events_for_granularity g ms resolve = Inr es"
  shows "(\<forall>e \<in> set es. ev_granularity e = g) \<and> map ev_opened_at es = ms
    \<and> map ev_completed_at es = map (resolve g) ms \<and> sorted (map event_key es)"
proof -
  have "collect (map (\<lambda>t. create_event g t (resolve g t)) ms) = Inr es" and s: "sort_key event_key es = es"
    using assms by (auto simp: events_for_granularity_def split: sum.splits if_splits)
  then show ?thesis using created_events [of g resolve ms es] sorted_sort_key [of event_key es]
    by (simp add: collect_Inr)
qed

lemma granularity_streams_Inr:
  assumes "granularity_streams inventory resolve = Inr streams"
  obtains h w d where "streams = [h, w, d]"
    "events_for_granularity ''H1'' (members_of inventory ''H1'') resolve = Inr h"
    "events_for_granularity ''W'' (members_of inventory ''W'') resolve = Inr w"
    "events_for_granularity ''D'' (members_of inventory ''D'') resolve = Inr d"
  using assms by (auto simp: granularity_streams_def collect_Inr granularity_order_def Cons_eq_map_conv)

lemma filter_all: "\<forall>e \<in> set es. f e = g \<Longrightarrow> filter (\<lambda>e. f e = h) es = (if g = h then es else [])"
  by (induction es) auto

lemma stream_members:
  assumes "granularity_streams inventory resolve = Inr streams" "g \<in> set granularity_order"
  shows "map ev_opened_at (filter (\<lambda>e. ev_granularity e = g) (sort_key event_key (concat streams))) = members_of inventory g
    \<and> map ev_completed_at (filter (\<lambda>e. ev_granularity e = g) (sort_key event_key (concat streams)))
        = map (resolve g) (members_of inventory g)"
proof -
  obtain h w d where s: "streams = [h, w, d]"
    and h: "events_for_granularity ''H1'' (members_of inventory ''H1'') resolve = Inr h"
    and w: "events_for_granularity ''W'' (members_of inventory ''W'') resolve = Inr w"
    and d: "events_for_granularity ''D'' (members_of inventory ''D'') resolve = Inr d"
    using granularity_streams_Inr [OF assms(1)] .
  note facts = events_for_granularity_Inr [OF h] events_for_granularity_Inr [OF w] events_for_granularity_Inr [OF d]
  have fs: "filter (\<lambda>e. ev_granularity e = g) (concat streams)
      = (if g = ''H1'' then h else if g = ''W'' then w else d)"
    using assms(2) facts
    by (auto simp: s granularity_order_def filter_all [of h ev_granularity "''H1''"]
        filter_all [of w ev_granularity "''W''"] filter_all [of d ev_granularity "''D''"])
  show ?thesis using assms(2) facts
    by (auto simp: filter_sort fs sort_key_id_if_sorted granularity_order_def)
qed

text \<open>Distinct completions per granularity.\<close>

definition distinct_completions :: "inventory \<Rightarrow> resolver \<Rightarrow> bool" where
  [model_defs]: "distinct_completions inventory resolve \<longleftrightarrow>
     list_all (\<lambda>g. distinct (map (resolve g) (members_of inventory g))) granularity_order"

lemma distinct_by_granularity:
  assumes "\<forall>e \<in> set es. ev_granularity e \<in> G"
    and "\<forall>g \<in> G. distinct (map ev_completed_at (filter (\<lambda>e. ev_granularity e = g) es))"
  shows "unambiguous es"
  using assms
proof (induction es)
  case (Cons e es)
  have "\<forall>g \<in> G. distinct (map ev_completed_at (filter (\<lambda>e. ev_granularity e = g) es))"
    using Cons.prems(2) by (metis (no_types, lifting) distinct.simps(2) filter.simps(2) list.simps(9))
  moreover have "distinct (map ev_completed_at (filter (\<lambda>f. ev_granularity f = ev_granularity e) (e # es)))"
    using Cons.prems(1) Cons.prems(2) [rule_format, of "ev_granularity e"] by simp
  ultimately show ?case using Cons by (auto simp: unambiguous_def)
qed (simp add: unambiguous_def)

lemma stream_unambiguous:
  assumes "granularity_streams inventory resolve = Inr streams" "distinct_completions inventory resolve"
  shows "unambiguous (sort_key event_key (concat streams))"
proof (rule distinct_by_granularity [of _ "set granularity_order"])
  obtain h w d where s: "streams = [h, w, d]"
    and h: "events_for_granularity ''H1'' (members_of inventory ''H1'') resolve = Inr h"
    and w: "events_for_granularity ''W'' (members_of inventory ''W'') resolve = Inr w"
    and d: "events_for_granularity ''D'' (members_of inventory ''D'') resolve = Inr d"
    using granularity_streams_Inr [OF assms(1)] .
  show "\<forall>e \<in> set (sort_key event_key (concat streams)). ev_granularity e \<in> set granularity_order"
    using events_for_granularity_Inr [OF h] events_for_granularity_Inr [OF w] events_for_granularity_Inr [OF d]
    by (auto simp: s granularity_order_def)
  show "\<forall>g \<in> set granularity_order. distinct
      (map ev_completed_at (filter (\<lambda>e. ev_granularity e = g) (sort_key event_key (concat streams))))"
    using stream_members [OF assms(1)] assms(2) by (simp add: distinct_completions_def list_all_iff)
qed

lemma canonical_sort: "canonical_order (sort_key event_key es)"
  by (simp add: canonical_order_def)

lemma batch_phases_subseq: "subseq (batch_phases es) phase_order"
  by (simp add: batch_phases_def phase_order_def)

section \<open>The binary searches\<close>

lemma bisect_spec:
  assumes "\<And>i j. i \<le> j \<Longrightarrow> j < length xs \<Longrightarrow> p (xs ! i) \<Longrightarrow> p (xs ! j)"
    and "lo \<le> hi" "hi \<le> length xs"
    and "\<And>i. i < lo \<Longrightarrow> \<not> p (xs ! i)" and "\<And>i. hi \<le> i \<Longrightarrow> i < length xs \<Longrightarrow> p (xs ! i)"
  shows "bisect p xs lo hi \<le> length xs \<and> (\<forall>i < bisect p xs lo hi. \<not> p (xs ! i))
    \<and> (\<forall>i. bisect p xs lo hi \<le> i \<and> i < length xs \<longrightarrow> p (xs ! i))"
  using assms
proof (induction p xs lo hi rule: bisect.induct)
  case (1 p xs lo hi)
  note mono = 1(3) and bounds = 1(4,5) and below = 1(6) and above = 1(7)
  let ?mid = "(lo + hi) div 2"
  consider "\<not> lo < hi" | "lo < hi" "p (xs ! ?mid)" | "lo < hi" "\<not> p (xs ! ?mid)" by blast
  then show ?case
  proof cases
    case 1
    then have "bisect p xs lo hi = lo" by (simp add: bisect.simps [of p xs lo hi])
    moreover have "lo = hi" using 1 bounds by simp
    ultimately show ?thesis using bounds below above by auto
  next
    case 2
    then have eq: "bisect p xs lo hi = bisect p xs lo ?mid"
      by (simp add: bisect.simps [of p xs lo hi] Let_def)
    have mid: "lo \<le> ?mid" "?mid \<le> length xs" using 2 bounds by auto
    have up: "p (xs ! i)" if "?mid \<le> i" "i < length xs" for i using mono [OF that 2(2)] .
    show ?thesis unfolding eq by (rule "1.IH"(1) [OF 2(1) refl 2(2) mono mid below up])
  next
    case 3
    then have eq: "bisect p xs lo hi = bisect p xs (?mid + 1) hi"
      by (simp add: bisect.simps [of p xs lo hi] Let_def)
    have mid: "?mid + 1 \<le> hi" "?mid < length xs" using 3 bounds by auto
    have down: "\<not> p (xs ! i)" if "i < ?mid + 1" for i
      using mono [of i ?mid] that mid(2) 3(2) by auto
    show ?thesis unfolding eq by (rule "1.IH"(2) [OF 3(1) refl 3(2) mono mid(1) bounds(2) down above])
  qed
qed

lemma filter_from_boundary:
  assumes "r \<le> length xs" "\<forall>i < r. \<not> p (xs ! i)" "\<forall>i. r \<le> i \<and> i < length xs \<longrightarrow> p (xs ! i)"
  shows "filter p xs = drop r xs"
proof -
  have "filter p (take r xs) = []" using assms(1,2) by (auto simp: filter_empty_conv in_set_conv_nth)
  moreover have "filter p (drop r xs) = drop r xs" using assms(3)
    by (auto simp: filter_id_conv in_set_conv_nth)
  ultimately show ?thesis by (metis append_Nil append_take_drop_id filter_append)
qed

lemma find_from_boundary:
  assumes "r \<le> length xs" "\<forall>i < r. \<not> p (xs ! i)" "\<forall>i. r \<le> i \<and> i < length xs \<longrightarrow> p (xs ! i)"
  shows "List.find p xs = (if r < length xs then Some (xs ! r) else None)"
  using assms by (auto simp: find_Some_iff find_None_iff in_set_conv_nth)

lemma sorted_up: "sorted xs \<Longrightarrow> i \<le> j \<Longrightarrow> j < length xs \<Longrightarrow> (xs :: instant list) ! i \<le> xs ! j"
  by (simp add: sorted_nth_mono)

lemma bisect_right_spec:
  assumes "sorted xs"
  shows "bisect_right xs t \<le> length xs \<and> (\<forall>i < bisect_right xs t. \<not> t < xs ! i)
    \<and> (\<forall>i. bisect_right xs t \<le> i \<and> i < length xs \<longrightarrow> t < xs ! i)"
proof -
  have "t < xs ! j" if "i \<le> j" "j < length xs" "t < xs ! i" for i j
    using sorted_up [OF assms that(1,2)] that(3) by simp
  then show ?thesis unfolding bisect_right_def by (rule bisect_spec) simp_all
qed

lemma bisect_left_spec:
  assumes "sorted xs"
  shows "bisect_left xs t \<le> length xs \<and> (\<forall>i < bisect_left xs t. \<not> t \<le> xs ! i)
    \<and> (\<forall>i. bisect_left xs t \<le> i \<and> i < length xs \<longrightarrow> t \<le> xs ! i)"
proof -
  have "\<not> xs ! j < t" if "i \<le> j" "j < length xs" "\<not> xs ! i < t" for i j
    using sorted_up [OF assms that(1,2)] that(3) by simp
  then have "bisect_left xs t \<le> length xs \<and> (\<forall>i < bisect_left xs t. \<not> \<not> xs ! i < t)
    \<and> (\<forall>i. bisect_left xs t \<le> i \<and> i < length xs \<longrightarrow> \<not> xs ! i < t)"
    unfolding bisect_left_def by (rule bisect_spec) simp_all
  then show ?thesis by (simp add: not_le not_less)
qed

lemma horizon_matches_reference:
  assumes "sorted (daily_completed ix)" "sorted (hourly_opened ix)" "0 < sessions"
  shows "maximum_exit_open ix t sessions = reference_maximum_exit_open ix t sessions"
proof -
  let ?d = "daily_completed ix" and ?h = "hourly_opened ix"
  let ?s = "bisect_right ?d t"
  have s: "?s \<le> length ?d" "\<forall>i < ?s. \<not> t < ?d ! i" "\<forall>i. ?s \<le> i \<and> i < length ?d \<longrightarrow> t < ?d ! i"
    using bisect_right_spec [OF assms(1), of t] by blast+
  have completions: "filter (\<lambda>c. t < c) ?d = drop ?s ?d" by (rule filter_from_boundary [OF s])
  let ?c = "?d ! (?s + sessions - 1)" and ?i = "bisect_left ?h (?d ! (?s + sessions - 1))"
  have i: "?i \<le> length ?h" "\<forall>i < ?i. \<not> ?c \<le> ?h ! i" "\<forall>i. ?i \<le> i \<and> i < length ?h \<longrightarrow> ?c \<le> ?h ! i"
    using bisect_left_spec [OF assms(2), of ?c] by blast+
  have find: "List.find (\<lambda>h. ?c \<le> h) ?h = (if ?i < length ?h then Some (?h ! ?i) else None)"
    by (rule find_from_boundary [OF i])
  show ?thesis
  proof (cases "?s + sessions - 1 < length ?d")
    case True
    then have "drop ?s ?d ! (sessions - 1) = ?c" using assms(3) s(1) by simp
    then show ?thesis using True assms(3) find
      by (auto simp: maximum_exit_open_def reference_maximum_exit_open_def completions Let_def)
  next
    case False
    then show ?thesis using assms(3) s(1)
      by (auto simp: maximum_exit_open_def reference_maximum_exit_open_def completions Let_def)
  qed
qed

section \<open>What an accepted snapshot guarantees\<close>

definition observed_member :: "inventory_row \<Rightarrow> bool" where
  [model_defs]: "observed_member r \<longleftrightarrow> ir_complete r \<and> ir_bid_present r \<and> ir_ask_present r
     \<and> ir_discovery_succeeded r \<and> ir_plan_sealed r"

lemma check_inventory_None:
  "check_inventory seen rows = None \<Longrightarrow> distinct (map row_key rows) \<and> (\<forall>r \<in> set rows. observed_member r)
     \<and> (\<forall>r \<in> set rows. row_key r \<notin> set seen)"
proof (induction seen rows rule: check_inventory.induct)
  case (2 seen r rs)
  from "2.prems" have ok: "row_key r \<notin> set seen" "observed_member r"
      "check_inventory (row_key r # seen) rs = None"
    by (simp_all add: observed_member_def split: if_split_asm)
  then have "\<not> (row_key r \<in> set seen \<or> \<not> (ir_complete r \<and> ir_bid_present r \<and> ir_ask_present r)
      \<or> \<not> ir_discovery_succeeded r \<or> \<not> ir_plan_sealed r)" by (simp add: observed_member_def)
  from "2.IH" [OF this ok(3)] have IH: "distinct (map row_key rs)" "\<forall>q \<in> set rs. observed_member q"
      "\<forall>q \<in> set rs. row_key q \<notin> set (row_key r # seen)" by blast+
  have "row_key r \<notin> row_key ` set rs" using IH(3) by force
  then show ?case using ok IH by simp
qed simp

lemma check_candles_None:
  "check_candles dataset instrument ids seen cs = None \<Longrightarrow> distinct (map candle_key cs)
     \<and> (\<forall>c \<in> set cs. \<exists>l. cr_lineage c = Some l \<and> lineage_ok dataset instrument ids c l)
     \<and> (\<forall>c \<in> set cs. candle_key c \<notin> set seen)"
proof (induction seen cs rule: check_candles.induct)
  case (2 dataset instrument ids seen c cs)
  from "2.prems" obtain l where l: "cr_lineage c = Some l" "candle_key c \<notin> set seen"
      "lineage_ok dataset instrument ids c l"
      "check_candles dataset instrument ids (candle_key c # seen) cs = None"
    by (simp split: option.split_asm if_split_asm)
  then have "distinct (map candle_key cs)
     \<and> (\<forall>c \<in> set cs. \<exists>l. cr_lineage c = Some l \<and> lineage_ok dataset instrument ids c l)
     \<and> (\<forall>d \<in> set cs. candle_key d \<notin> set (candle_key c # seen))"
    using "2.IH" by simp
  then show ?case using l by auto
qed simp

lemma load_snapshot_Inr:
  assumes "load_instrument_snapshot dataset instrument ranges rows candles conflict = Inr s"
  shows "\<not> conflict \<and> set (map candle_key candles) = set (map row_key rows)
    \<and> distinct (map row_key rows) \<and> distinct (map candle_key candles)
    \<and> (\<forall>r \<in> set rows. observed_member r)
    \<and> (\<forall>c \<in> set candles. \<exists>l. cr_lineage c = Some l
         \<and> lineage_ok dataset instrument (map (\<lambda>r. (row_key r, ir_inventory_id r)) rows) c l)
    \<and> sn_candles s = map (\<lambda>c. (candle_key c, c)) candles
    \<and> sn_inventory s = map (\<lambda>g. (g, map ir_timestamp (filter (\<lambda>r. ir_granularity r = g) rows))) granularity_order"
proof -
  let ?ids = "map (\<lambda>r. (row_key r, ir_inventory_id r)) rows"
  have inv: "check_inventory [] rows = None" and cs: "check_candles dataset instrument ?ids [] candles = None"
    and mem: "set (map candle_key candles) = set (map row_key rows)" and no: "\<not> conflict"
    and s: "sn_candles s = map (\<lambda>c. (candle_key c, c)) candles"
      "sn_inventory s = map (\<lambda>g. (g, map ir_timestamp (filter (\<lambda>r. ir_granularity r = g) rows))) granularity_order"
    using assms unfolding load_instrument_snapshot_def
    by (auto simp del: set_map split: if_split_asm option.split_asm)
  show ?thesis using check_inventory_None [OF inv] check_candles_None [OF cs] mem no s by blast
qed

lemma members_of_map: "g \<in> set gs \<Longrightarrow> members_of (map (\<lambda>g. (g, f g)) gs) g = f g"
  by (induction gs) (auto simp: members_of_def)

section \<open>Properties\<close>

text \<open>C1: The optimised completion stream (a heap merge of the three ordered inventories) returns
  exactly what the sorting reference returns, errors included, for every inventory and every
  completion resolver.\<close>

theorem completion_stream_is_reference:
  "completion_stream inventory resolve = reference_completion_stream inventory resolve"
  by (simp add: completion_stream_def reference_completion_stream_def merged_streams
      split: option.split sum.split)

text \<open>C2: When the stream of a sealed inventory is accepted and no granularity completes two members
  at one instant, the projection is total and passes the fail-closed completeness check: every
  member is admitted exactly once, in order, and the analysis runs are exactly the hourly members.\<close>

theorem sealed_admission_complete:
  assumes "completion_stream inventory resolve = Inr events" "distinct_completions inventory resolve"
  shows "\<exists>p. project_admission events = Inr p \<and> assert_complete_projection p inventory = None
    \<and> concat (map b_events (batches p)) = events"
proof -
  obtain streams where ok: "validate_inventory inventory = None"
    and streams: "granularity_streams inventory resolve = Inr streams"
    and events: "events = sort_key event_key (concat streams)"
    using assms(1) merged_streams by (auto simp: completion_stream_def split: option.splits sum.splits)
  obtain p where p: "project_admission events = Inr p"
    "admitted_members p = map (\<lambda>g. (g, map ev_opened_at (filter (\<lambda>e. ev_granularity e = g) events))) granularity_order"
    "analysis_timestamps p = map ev_opened_at (filter (\<lambda>e. ev_granularity e = ''H1'') events)"
    "concat (map b_events (batches p)) = events"
    using project_admission_total [OF canonical_sort stream_unambiguous [OF streams assms(2)]]
    unfolding events by blast
  have m: "map ev_opened_at (filter (\<lambda>e. ev_granularity e = g) events) = members_of inventory g"
    if "g \<in> set granularity_order" for g
    using stream_members [OF streams that] unfolding events by simp
  have "members_of (admitted_members p) g = members_of inventory g" if "g \<in> set granularity_order" for g
    using members_of_map [OF that] m [OF that] by (simp add: p(2))
  moreover have "analysis_timestamps p = members_of inventory ''H1''"
    using m [of "''H1''"] p(3) by (simp add: granularity_order_def)
  ultimately have "assert_complete_projection p inventory = None"
    using ok by (simp add: assert_complete_projection_def granularity_order_def)
  then show ?thesis using p by blast
qed

definition sample_inventory :: inventory where
  "sample_inventory = [(''H1'', [0, 1]), (''W'', [0]), (''D'', [0])]"

definition sample_resolver :: resolver where
  "sample_resolver g t = (if g = ''H1'' then t + 1 else t + 2)"

lemma sample_stream:
  "completion_stream sample_inventory sample_resolver =
     Inr [\<lparr>ev_completed_at = 1, ev_priority = 0, ev_granularity = ''H1'', ev_opened_at = 0\<rparr>,
          \<lparr>ev_completed_at = 2, ev_priority = 0, ev_granularity = ''H1'', ev_opened_at = 1\<rparr>,
          \<lparr>ev_completed_at = 2, ev_priority = 1, ev_granularity = ''W'', ev_opened_at = 0\<rparr>,
          \<lparr>ev_completed_at = 2, ev_priority = 2, ev_granularity = ''D'', ev_opened_at = 0\<rparr>]"
  by code_simp

lemma sample_distinct: "distinct_completions sample_inventory sample_resolver"
  by code_simp

theorem sealed_admission_complete_witness:
  "\<exists>p. project_admission
     [\<lparr>ev_completed_at = 1, ev_priority = 0, ev_granularity = ''H1'', ev_opened_at = 0\<rparr>,
      \<lparr>ev_completed_at = 2, ev_priority = 0, ev_granularity = ''H1'', ev_opened_at = 1\<rparr>,
      \<lparr>ev_completed_at = 2, ev_priority = 1, ev_granularity = ''W'', ev_opened_at = 0\<rparr>,
      \<lparr>ev_completed_at = 2, ev_priority = 2, ev_granularity = ''D'', ev_opened_at = 0\<rparr>] = Inr p
    \<and> assert_complete_projection p sample_inventory = None"
  using sealed_admission_complete [OF sample_stream sample_distinct] by blast

text \<open>On the horizon index of any projected stream, the two binary searches of the maximum exit
  give the same exit as the linear reference, for every entry instant and session count.\<close>

lemma horizon_is_reference:
  assumes "completion_stream inventory resolve = Inr events" "project_admission events = Inr p" "0 < sessions"
  shows "maximum_exit_open (horizon_of p) t sessions = reference_maximum_exit_open (horizon_of p) t sessions"
proof (rule horizon_matches_reference [OF _ _ assms(3)])
  obtain streams where ok: "validate_inventory inventory = None"
    and streams: "granularity_streams inventory resolve = Inr streams"
    and events: "events = sort_key event_key (concat streams)"
    using assms(1) merged_streams by (auto simp: completion_stream_def split: option.splits sum.splits)
  have runs: "list_all batch_ok (same_completion_runs events)"
    and p: "admitted_members p = map (\<lambda>g. (g, admitted_of (same_completion_runs events) g)) granularity_order"
      "concat (map b_events (batches p)) = events"
    using assms(2) by (auto simp: project_admission_def comp_def Let_def split: if_splits)
  have "sorted (map ev_completed_at events)"
    using canonical_sort [of "concat streams"] unfolding events canonical_order_def
    by (auto simp: sorted_wrt_map event_key_def less_eq_prod_def elim: sorted_wrt_mono_rel [rotated])
  then show "sorted (daily_completed (horizon_of p))"
    using sorted_filter [of ev_completed_at events] by (simp add: horizon_of_def p Let_def)
  have "admitted_of (same_completion_runs events) ''H1''
      = map ev_opened_at (filter (\<lambda>e. ev_granularity e = ''H1'') events)"
    using admitted_of_runs [OF runs] by simp
  also have "\<dots> = members_of inventory ''H1''"
    unfolding events using stream_members [OF streams, of "''H1''"] by (simp add: granularity_order_def)
  finally have "hourly_opened (horizon_of p) = members_of inventory ''H1''"
    by (simp add: horizon_of_def p granularity_order_def members_of_def [of "_ # _"] Let_def)
  moreover have "members_of inventory ''H1'' = sort (members_of inventory ''H1'')"
    using ok by (auto simp: validate_inventory_def granularity_order_def split: if_splits)
  ultimately show "sorted (hourly_opened (horizon_of p))" by (metis sorted_sort)
qed

definition sample_events :: "completion_event list" where
  "sample_events = projr (completion_stream sample_inventory sample_resolver)"

definition sample_projection :: admission_projection where
  "sample_projection = projr (project_admission sample_events)"

lemma sample_events: "completion_stream sample_inventory sample_resolver = Inr sample_events"
  by (simp add: sample_events_def sample_stream)

lemma sample_projection: "project_admission sample_events = Inr sample_projection"
proof -
  have "\<not> isl (project_admission sample_events)"
    unfolding sample_events_def sample_stream by code_simp
  then show ?thesis by (simp add: sample_projection_def sum.collapse(2))
qed

text \<open>C29: A snapshot is returned only when there is no conflict, the candles are exactly the sealed
  members (each once), every member was observed complete on both sides by a succeeded and
  sealed discovery, and every candle was ingested by the first attempt of the very chunk that
  discovered its member.\<close>

theorem snapshot_fail_closed:
  assumes "load_instrument_snapshot dataset instrument ranges rows candles conflict = Inr s"
  shows "\<not> conflict \<and> map fst (sn_candles s) = map candle_key candles
    \<and> distinct (map fst (sn_candles s)) \<and> distinct (map row_key rows)
    \<and> set (map fst (sn_candles s)) = set (map row_key rows)
    \<and> list_all observed_member rows
    \<and> list_all (\<lambda>c. \<exists>l. cr_lineage c = Some l \<and> cr_complete c \<and> run_succeeded l \<and> attempt_number l = 1
         \<and> run_dataset l = dataset \<and> chunk_instrument l = instrument
         \<and> chunk_inventory l = map_of (map (\<lambda>r. (row_key r, ir_inventory_id r)) rows) (candle_key c)) candles"
  using load_snapshot_Inr [OF assms] by (auto simp: list_all_iff comp_def lineage_ok_def)

definition sample_row :: inventory_row where
  "sample_row = \<lparr>ir_inventory_id = 7, ir_granularity = ''H1'', ir_timestamp = 0, ir_complete = True,
     ir_bid_present = True, ir_ask_present = True, ir_discovery_succeeded = True, ir_plan_sealed = True\<rparr>"

definition sample_candle_row :: candle_row where
  "sample_candle_row = \<lparr>cr_granularity = ''H1'', cr_timestamp = 0, cr_complete = True,
     cr_lineage = Some \<lparr>run_dataset = 3, run_succeeded = True, attempt_number = 1, chunk_dataset = 3,
       chunk_instrument = 2, chunk_granularity = ''H1'', chunk_inventory = Some 7\<rparr>\<rparr>"

definition sample_ranges :: "(string \<times> instant \<times> instant) list" where
  "sample_ranges = [(''H1'', 0, 1), (''W'', 0, 1), (''D'', 0, 1)]"

lemma sample_load:
  "load_instrument_snapshot 3 2 sample_ranges [sample_row] [sample_candle_row] False =
     Inr (projr (load_instrument_snapshot 3 2 sample_ranges [sample_row] [sample_candle_row] False))"
proof -
  have "\<not> isl (load_instrument_snapshot 3 2 sample_ranges [sample_row] [sample_candle_row] False)"
    by code_simp
  then show ?thesis by (simp add: sum.collapse(2))
qed

theorem snapshot_fail_closed_witness: "list_all observed_member [sample_row]"
  using snapshot_fail_closed [OF sample_load] by blast

text \<open>The phases of a batch are always a subsequence of the canonical phase order; in particular
  entry decisions come before any admission of the same instant, and sweeps are evaluated last.\<close>

lemma phases_in_canonical_order:
  "project_admission events = Inr p \<Longrightarrow> (t, phases) \<in> set (phase_trace p) \<Longrightarrow>
     subseq phases phase_order \<and> (EvaluateSweep \<in> set phases \<longleftrightarrow> H1EntryOpen \<in> set phases)"
proof -
  assume "project_admission events = Inr p" "(t, phases) \<in> set (phase_trace p)"
  then obtain es where "phases = batch_phases es"
    by (auto simp: project_admission_def Let_def split: if_splits)
  then show ?thesis using batch_phases_subseq by (auto simp: batch_phases_def)
qed

end
