(* ===== verification/Setups.thy ===== *)
theory Setups
  imports Calendar Canonical
begin

text \<open>
  The recommendation contract of \<^verbatim>\<open>forecasts/recommendations.py\<close>: the technical levels it reads
  (\<^verbatim>\<open>market/technicals.py\<close>), the deterministic setup, the validation of the model's output, the
  probabilities, the checks of \<^verbatim>\<open>Recommendation.clean\<close>, and the scoring of outcomes
  (\<^verbatim>\<open>forecasts/services.py\<close>). The database constraint \<^verbatim>\<open>recommendation_setup_shape_valid\<close> leaves
  two shapes, an abstention without levels and a direction with all of them, so the levels are one
  optional record. A raised \<^verbatim>\<open>ValidationError\<close> is \<open>Inl\<close> of an error.
\<close>

section \<open>Technical levels\<close>

record quote =
  q_bid_open :: decimal
  q_bid_high :: decimal
  q_bid_low :: decimal
  q_bid_close :: decimal
  q_ask_open :: decimal
  q_ask_high :: decimal
  q_ask_low :: decimal
  q_ask_close :: decimal

definition midpoint :: "decimal \<Rightarrow> decimal \<Rightarrow> decimal" where
  [model_defs]: "midpoint bid ask = rnd28 (rnd28 (bid + ask) / 2)"

definition midpoint_close :: "'a quote_scheme \<Rightarrow> decimal" where
  [model_defs]: "midpoint_close c = midpoint (q_bid_close c) (q_ask_close c)"

definition midpoint_high :: "'a quote_scheme \<Rightarrow> decimal" where
  [model_defs]: "midpoint_high c = midpoint (q_bid_high c) (q_ask_high c)"

definition midpoint_low :: "'a quote_scheme \<Rightarrow> decimal" where
  [model_defs]: "midpoint_low c = midpoint (q_bid_low c) (q_ask_low c)"

record technical_values =
  atr_14 :: "decimal option"
  ewma_20 :: "decimal option"
  prior_high :: "decimal option"
  prior_low :: "decimal option"
  support :: "decimal option"
  resistance :: "decimal option"

text \<open>The loop over the candles; the first candle's previous close is its own.\<close>

fun technical_ranges :: "decimal \<Rightarrow> 'a quote_scheme list \<Rightarrow> decimal list" where
  "technical_ranges previous [] = []"
| "technical_ranges previous (c # cs) =
     max (rnd28 (midpoint_high c - midpoint_low c))
       (max \<bar>rnd28 (midpoint_high c - previous)\<bar> \<bar>rnd28 (midpoint_low c - previous)\<bar>)
     # technical_ranges (midpoint_close c) cs"

definition ewma_alpha :: decimal where
  [model_defs]: "ewma_alpha = rnd28 (2 / 21)"

definition ewma_of :: "decimal list \<Rightarrow> decimal" where
  [model_defs]: "ewma_of closes =
     foldl (\<lambda>ewma close. rnd28 (rnd28 (ewma_alpha * close) + rnd28 (rnd28 (1 - ewma_alpha) * ewma)))
       (hd closes) (tl closes)"

text \<open>\<^verbatim>\<open>_pivots\<close>: the supports and the resistances.\<close>

definition pivot_group :: "'a quote_scheme list \<Rightarrow> nat \<Rightarrow> nat \<Rightarrow> 'a quote_scheme list" where
  [model_defs]: "pivot_group candles window i = slice (i - window) (i + window + 1) candles"

definition technical_pivots :: "'a quote_scheme list \<Rightarrow> nat \<Rightarrow> decimal list \<times> decimal list" where
  [model_defs]: "technical_pivots candles window =
     (let inner = [window..<length candles - window] in
      (map (\<lambda>i. midpoint_low (candles ! i))
         (filter (\<lambda>i. midpoint_low (candles ! i) = min_of (map midpoint_low (pivot_group candles window i))) inner),
       map (\<lambda>i. midpoint_high (candles ! i))
         (filter (\<lambda>i. midpoint_high (candles ! i) = max_of (map midpoint_high (pivot_group candles window i))) inner)))"

definition price_of_value :: "decimal \<Rightarrow> decimal" where
  [model_defs]: "price_of_value v = quantize 6 v"

definition calculate_technicals :: "'a quote_scheme list \<Rightarrow> technical_values" where
  [model_defs]: "calculate_technicals candles =
     (if candles = [] then \<lparr>atr_14 = None, ewma_20 = None, prior_high = None, prior_low = None,
        support = None, resistance = None\<rparr>
      else
        (let closes = map midpoint_close candles;
             ranges = technical_ranges (hd closes) candles;
             atr = rnd28 (py_sum rnd28 (last_n 14 ranges) / of_nat (min (length ranges) 14));
             previous = (if 1 < length candles then Some (candles ! (length candles - 2)) else None);
             (supports, resistances) = technical_pivots candles 2;
             latest = last closes;
             below = filter (\<lambda>v. v < latest) supports;
             above = filter (\<lambda>v. latest < v) resistances
         in \<lparr>atr_14 = Some (price_of_value atr), ewma_20 = Some (price_of_value (ewma_of closes)),
             prior_high = map_option (\<lambda>c. price_of_value (midpoint_high c)) previous,
             prior_low = map_option (\<lambda>c. price_of_value (midpoint_low c)) previous,
             support = (if below = [] then None else Some (price_of_value (max_of below))),
             resistance = (if above = [] then None else Some (price_of_value (min_of above)))\<rparr>))"

section \<open>Setups\<close>

datatype rec_action = Abstain | Buy | Sell

datatype entry_condition = AtOrBelow | AtOrAbove

record trade_setup =
  su_condition :: entry_condition
  su_entry :: decimal
  su_target :: decimal
  su_invalidation :: decimal

text \<open>\<^verbatim>\<open>value or fallback\<close>: a missing and a zero level fall back.\<close>

definition decimal_or :: "decimal option \<Rightarrow> decimal \<Rightarrow> decimal" where
  [model_defs]: "decimal_or v fallback =
     (case v of None \<Rightarrow> fallback | Some x \<Rightarrow> if x = 0 then fallback else x)"

text \<open>\<^verbatim>\<open>_deterministic_setup\<close> for a direction: the reference is the payload's midpoint or the outcome
  contract's, the levels those of the H4 technicals.\<close>

definition deterministic_setup ::
  "decimal option \<Rightarrow> decimal \<Rightarrow> decimal \<Rightarrow> decimal option \<Rightarrow> decimal option \<Rightarrow> rec_action \<Rightarrow> trade_setup option" where
  [model_defs]: "deterministic_setup payload_midpoint contract_midpoint neutral_band h4_support h4_resistance action =
     (let reference = quantize 6 (decimal_or payload_midpoint contract_midpoint);
          lower = rnd28 (reference - neutral_band);
          upper = rnd28 (reference + neutral_band);
          low_level = decimal_or h4_support lower;
          high_level = decimal_or h4_resistance upper
      in case action of
           Abstain \<Rightarrow> None
         | Buy \<Rightarrow> Some \<lparr>su_condition = AtOrBelow, su_entry = reference,
             su_target = quantize 6 (max high_level upper),
             su_invalidation = quantize 6 (min low_level lower)\<rparr>
         | Sell \<Rightarrow> Some \<lparr>su_condition = AtOrAbove, su_entry = reference,
             su_target = quantize 6 (min low_level lower),
             su_invalidation = quantize 6 (max high_level upper)\<rparr>)"

text \<open>The order that \<^verbatim>\<open>Recommendation.clean\<close> demands of the levels.\<close>

fun levels_ordered :: "rec_action \<Rightarrow> trade_setup option \<Rightarrow> bool" where
  "levels_ordered Abstain s = True"
| "levels_ordered Buy None = False"
| "levels_ordered Sell None = False"
| "levels_ordered Buy (Some s) \<longleftrightarrow> su_invalidation s < su_entry s \<and> su_entry s < su_target s"
| "levels_ordered Sell (Some s) \<longleftrightarrow> su_target s < su_entry s \<and> su_entry s < su_invalidation s"

section \<open>The model's output\<close>

text \<open>A value of the parsed JSON response.\<close>

datatype response = RInt int | RBool bool | RText string | RNull | RList "response list" | RObject "(string \<times> response) list"

datatype output_error =
    ContractMismatch | InvalidAction | InvalidProbabilities | UnavailableEvidence | UpNotHighest | DownNotHighest
  | TooFewCitations | NoFundamentalCitation | NumericLevelsSupplied | SetupWithReason
  | AbstentionWithCondition | AbstentionWithLevels | AbstentionWithoutReason | RisksRequired | FieldRequired string
  | UncheckedType

definition output_fields :: "string list" where
  [model_defs]: "output_fields =
     [''action'', ''probability_up_percent'', ''probability_neutral_percent'', ''probability_down_percent'',
      ''summary'', ''technical_case'', ''macro_case'', ''sentiment_case'', ''risks'', ''evidence_ids'',
      ''entry_condition'', ''entry_level'', ''target_level'', ''invalidation_level'', ''abstention_reason'']"

definition field :: "(string \<times> response) list \<Rightarrow> string \<Rightarrow> response" where
  [model_defs]: "field output name = (case map_of output name of None \<Rightarrow> RNull | Some v \<Rightarrow> v)"

definition action_of :: "response \<Rightarrow> rec_action option" where
  [model_defs]: "action_of v =
     (if v = RText ''abstain'' then Some Abstain else if v = RText ''buy'' then Some Buy
      else if v = RText ''sell'' then Some Sell else None)"

fun percent_of :: "response \<Rightarrow> int option" where
  "percent_of (RInt n) = (if 0 \<le> n \<and> n \<le> 100 then Some n else None)"
| "percent_of _ = None"

text \<open>Python truth of a value, and \<^verbatim>\<open>value.strip()\<close> being non-empty.\<close>

fun truthy :: "response \<Rightarrow> bool" where
  "truthy (RInt n) = (n \<noteq> 0)"
| "truthy (RBool b) = b"
| "truthy (RText s) = (s \<noteq> [])"
| "truthy RNull = False"
| "truthy (RList vs) = (vs \<noteq> [])"
| "truthy (RObject kvs) = (kvs \<noteq> [])"

definition blank_char :: "char \<Rightarrow> bool" where
  [model_defs]: "blank_char c \<longleftrightarrow>
     (let n = (of_char c :: nat) in (9 \<le> n \<and> n \<le> 13) \<or> (28 \<le> n \<and> n \<le> 32) \<or> n = 133 \<or> n = 160)"

fun written :: "response \<Rightarrow> bool" where
  "written (RText s) = list_ex (\<lambda>c. \<not> blank_char c) s"
| "written _ = False"

text \<open>The citations: \<open>None\<close> when one of them is unhashable, where \<^verbatim>\<open>set\<close> raises a TypeError.\<close>

fun citation_texts :: "response list \<Rightarrow> (string option) list option" where
  "citation_texts [] = Some []"
| "citation_texts (RText s # vs) = map_option ((#) (Some s)) (citation_texts vs)"
| "citation_texts (RList l # vs) = None"
| "citation_texts (RObject kvs # vs) = None"
| "citation_texts (v # vs) = map_option ((#) None) (citation_texts vs)"

definition cites_fundamental :: "string \<Rightarrow> bool" where
  [model_defs]: "cites_fundamental s \<longleftrightarrow>
     list_ex (\<lambda>p. take (length p) s = p) [''macro:'', ''news:'', ''event:'']"

definition level_fields :: "string list" where
  [model_defs]: "level_fields = [''entry_level'', ''target_level'', ''invalidation_level'']"

text \<open>The checks of a direction and of an abstention.\<close>

definition check_direction ::
  "(string \<times> response) list \<Rightarrow> rec_action \<Rightarrow> int \<Rightarrow> int \<Rightarrow> int \<Rightarrow> string list \<Rightarrow> output_error option" where
  [model_defs]: "check_direction output action up neutral down citations =
     (if action = Buy \<and> up < max neutral down then Some UpNotHighest
      else if action = Sell \<and> down < max up neutral then Some DownNotHighest
      else if length (remdups citations) < 2 \<or> ''technical:local-policy-v1'' \<notin> set citations
      then Some TooFewCitations
      else if \<not> list_ex cites_fundamental citations then Some NoFundamentalCitation
      else if field output ''entry_condition'' \<noteq> RText ''none''
           \<or> list_ex (\<lambda>name. field output name \<noteq> RNull) level_fields then Some NumericLevelsSupplied
      else if truthy (field output ''abstention_reason'') then Some SetupWithReason
      else None)"

definition check_abstention :: "(string \<times> response) list \<Rightarrow> output_error option" where
  [model_defs]: "check_abstention output =
     (if field output ''entry_condition'' \<noteq> RText ''none'' then Some AbstentionWithCondition
      else if list_ex (\<lambda>name. field output name \<noteq> RNull) level_fields then Some AbstentionWithLevels
      else if \<not> truthy (field output ''abstention_reason'') then Some AbstentionWithoutReason
      else None)"

definition check_texts :: "(string \<times> response) list \<Rightarrow> output_error option" where
  [model_defs]: "check_texts output =
     (case field output ''risks'' of
        RList (r # rs) \<Rightarrow>
          map_option FieldRequired (List.find (\<lambda>name. \<not> written (field output name))
            [''summary'', ''technical_case'', ''macro_case'', ''sentiment_case''])
      | _ \<Rightarrow> Some RisksRequired)"

record validated =
  vo_action :: rec_action
  vo_up :: int
  vo_neutral :: int
  vo_down :: int
  vo_citations :: "string list"

text \<open>\<^verbatim>\<open>_validate_output\<close> on a response with unique keys; the accepted output is returned with the
  values that the caller reads from it.\<close>

definition validate_output :: "response \<Rightarrow> string list \<Rightarrow> output_error + validated" where
  [model_defs]: "validate_output response allowed =
     (case response of
        RObject output \<Rightarrow>
          if set (map fst output) \<noteq> set output_fields then Inl ContractMismatch
          else
            (case action_of (field output ''action'') of
               None \<Rightarrow> Inl InvalidAction
             | Some action \<Rightarrow>
                 (case (percent_of (field output ''probability_up_percent''),
                        percent_of (field output ''probability_neutral_percent''),
                        percent_of (field output ''probability_down_percent'')) of
                    (Some up, Some neutral, Some down) \<Rightarrow>
                      if up + neutral + down \<noteq> 100 then Inl InvalidProbabilities
                      else
                        (case field output ''evidence_ids'' of
                           RList (v # vs) \<Rightarrow>
                             (case citation_texts (v # vs) of
                                None \<Rightarrow> Inl UncheckedType
                              | Some cs \<Rightarrow>
                                  if list_ex (\<lambda>c. c \<notin> set (map Some allowed)) cs then Inl UnavailableEvidence
                                  else
                                    (let citations = map the cs;
                                         shape = (if action = Abstain then check_abstention output
                                                  else check_direction output action up neutral down citations)
                                     in case shape of
                                          Some e \<Rightarrow> Inl e
                                        | None \<Rightarrow>
                                            (case check_texts output of
                                               Some e \<Rightarrow> Inl e
                                             | None \<Rightarrow> Inr \<lparr>vo_action = action, vo_up = up, vo_neutral = neutral,
                                                              vo_down = down, vo_citations = citations\<rparr>)))
                         | _ \<Rightarrow> Inl UnavailableEvidence)
                  | _ \<Rightarrow> Inl InvalidProbabilities))
      | _ \<Rightarrow> Inl ContractMismatch)"

text \<open>\<^verbatim>\<open>_probabilities\<close> and the confidence of the chosen action.\<close>

definition probability_of :: "int \<Rightarrow> decimal" where
  [model_defs]: "probability_of percent = quantize 4 (rnd28 (of_int percent / 100))"

definition confidence_percent :: "validated \<Rightarrow> int" where
  [model_defs]: "confidence_percent v =
     (case vo_action v of
        Buy \<Rightarrow> vo_up v | Sell \<Rightarrow> vo_down v | Abstain \<Rightarrow> max (vo_up v) (max (vo_neutral v) (vo_down v)))"

text \<open>The probability check of \<^verbatim>\<open>Recommendation.clean\<close>.\<close>

definition probabilities_complete :: "decimal \<Rightarrow> decimal \<Rightarrow> decimal \<Rightarrow> bool" where
  [model_defs]: "probabilities_complete up neutral down \<longleftrightarrow> rnd28 (rnd28 (up + neutral) + down) = 1"

section \<open>Scoring\<close>

datatype outcome = OutcomeUp | OutcomeNeutral | OutcomeDown

definition classify_change :: "decimal \<Rightarrow> decimal \<Rightarrow> outcome" where
  [model_defs]: "classify_change change neutral_band =
     (if neutral_band < change then OutcomeUp else if change < - neutral_band then OutcomeDown else OutcomeNeutral)"

definition multiclass_brier :: "decimal \<Rightarrow> decimal \<Rightarrow> decimal \<Rightarrow> outcome \<Rightarrow> decimal" where
  [model_defs]: "multiclass_brier up neutral down outcome =
     (let term = (\<lambda>(p, label). rnd28 ((rnd28 (p - (if label = outcome then 1 else 0))) ^ 2)) in
      quantize 6 (rnd28 (py_sum rnd28 (map term [(up, OutcomeUp), (neutral, OutcomeNeutral), (down, OutcomeDown)]) / 3)))"

section \<open>What the validation guarantees\<close>

lemma percent_of_Some: "percent_of v = Some n \<Longrightarrow> 0 \<le> n \<and> n \<le> 100"
  by (cases v) (auto split: if_splits)

lemma probability_of_exact:
  assumes "0 \<le> n" "n \<le> 100"
  shows "probability_of n = of_int n / 100"
proof -
  have g: "on_grid 4 (of_int n / 100 :: rat)"
    unfolding on_grid_iff by (rule exI [of _ "100 * n"]) simp
  then have "rnd28 (of_int n / 100) = of_int n / 100"
    by (rule rnd28_on_grid) (use assms in simp)
  then show ?thesis unfolding probability_of_def using quantize_on_grid [OF g] by metis
qed

lemma rnd28_percent: "0 \<le> n \<Longrightarrow> n \<le> 200 \<Longrightarrow> rnd28 (of_int n / 100) = of_int n / 100"
  by (rule rnd28_on_grid [of 2]) (auto simp: on_grid_iff)

lemma probabilities_of_percents:
  assumes "0 \<le> u" "0 \<le> n" "0 \<le> d" "u + n + d = 100"
  shows "probabilities_complete (probability_of u) (probability_of n) (probability_of d)"
proof -
  have s: "probability_of u + probability_of n = of_int (u + n) / 100"
    using assms by (simp add: probability_of_exact add_divide_distrib)
  have "of_int (u + n) / 100 + probability_of d = of_int (u + n + d) / 100"
    using assms(1-4) by (simp add: probability_of_exact add_divide_distrib)
  then have t: "of_int (u + n) / 100 + probability_of d = (1 :: rat)" using assms(4) by simp
  have "rnd28 (of_int (u + n) / 100) = of_int (u + n) / 100" "rnd28 1 = 1"
    using assms rnd28_percent [of "u + n"] rnd28_percent [of 100] by simp_all
  then show ?thesis unfolding probabilities_complete_def by (metis s t)
qed

lemma validate_output_cases:
  assumes "validate_output response allowed = Inr v"
  obtains reply where "response = RObject reply" "set (map fst reply) = set output_fields"
    "percent_of (field reply ''probability_up_percent'') = Some (vo_up v)"
    "percent_of (field reply ''probability_neutral_percent'') = Some (vo_neutral v)"
    "percent_of (field reply ''probability_down_percent'') = Some (vo_down v)"
    "vo_up v + vo_neutral v + vo_down v = 100"
    "set (vo_citations v) \<subseteq> set allowed" "vo_citations v \<noteq> []"
    "if vo_action v = Abstain then check_abstention reply = None
     else check_direction reply (vo_action v) (vo_up v) (vo_neutral v) (vo_down v) (vo_citations v) = None"
proof -
  obtain reply action up neutral down r rs cs where
    1: "response = RObject reply" "set (map fst reply) = set output_fields"
      "percent_of (field reply ''probability_up_percent'') = Some up"
      "percent_of (field reply ''probability_neutral_percent'') = Some neutral"
      "percent_of (field reply ''probability_down_percent'') = Some down"
      "up + neutral + down = 100" "citation_texts (r # rs) = Some cs"
      "\<not> list_ex (\<lambda>c. c \<notin> set (map Some allowed)) cs"
      "(if action = Abstain then check_abstention reply
        else check_direction reply action up neutral down (map the cs)) = None"
    and v: "v = \<lparr>vo_action = action, vo_up = up, vo_neutral = neutral, vo_down = down, vo_citations = map the cs\<rparr>"
    using assms unfolding validate_output_def Let_def
    by (auto split: response.splits if_splits option.splits list.splits)
  have "cs \<noteq> []" using 1(7) by (cases r) auto
  moreover have "set (map the cs) \<subseteq> set allowed" using 1(8) by (auto simp: list_ex_iff)
  ultimately show ?thesis using that [OF 1(1,2)] 1 v by (auto split: if_splits)
qed

text \<open>C40: An accepted model output always satisfies the recommendation contract: its three
  probabilities, printed to four decimals, lie between 0 and 1 and sum to exactly one, a direction
  carries the highest probability of its own outcome, and every citation is available evidence.\<close>

theorem accepted_output_meets_contract:
  assumes "validate_output response allowed = Inr v"
  shows "probabilities_complete (probability_of (vo_up v)) (probability_of (vo_neutral v)) (probability_of (vo_down v))
    \<and> (\<forall>p \<in> {vo_up v, vo_neutral v, vo_down v}. 0 \<le> probability_of p \<and> probability_of p \<le> 1)
    \<and> (vo_action v = Buy \<longrightarrow> max (vo_neutral v) (vo_down v) \<le> vo_up v)
    \<and> (vo_action v = Sell \<longrightarrow> max (vo_up v) (vo_neutral v) \<le> vo_down v)
    \<and> set (vo_citations v) \<subseteq> set allowed
    \<and> 0 \<le> confidence_percent v \<and> confidence_percent v \<le> 100"
proof (rule validate_output_cases [OF assms])
  fix reply
  assume p: "percent_of (field reply ''probability_up_percent'') = Some (vo_up v)"
    "percent_of (field reply ''probability_neutral_percent'') = Some (vo_neutral v)"
    "percent_of (field reply ''probability_down_percent'') = Some (vo_down v)"
    and total: "vo_up v + vo_neutral v + vo_down v = 100"
    and cites: "set (vo_citations v) \<subseteq> set allowed"
    and shape: "if vo_action v = Abstain then check_abstention reply = None
     else check_direction reply (vo_action v) (vo_up v) (vo_neutral v) (vo_down v) (vo_citations v) = None"
  note range = p [THEN percent_of_Some]
  have "0 \<le> probability_of q \<and> probability_of q \<le> 1" if "0 \<le> q \<and> q \<le> 100" for q
    using that by (simp add: probability_of_exact)
  moreover have "vo_action v = Buy \<longrightarrow> max (vo_neutral v) (vo_down v) \<le> vo_up v"
    "vo_action v = Sell \<longrightarrow> max (vo_up v) (vo_neutral v) \<le> vo_down v"
    using shape by (auto simp: check_direction_def not_less split: if_splits)
  moreover have "0 \<le> confidence_percent v \<and> confidence_percent v \<le> 100"
    using range by (auto simp: confidence_percent_def split: rec_action.split)
  ultimately show ?thesis using probabilities_of_percents range total cites by auto
qed

text \<open>Whatever the technical levels are, the deterministic setup of a positive neutral band has
  the order that a stored recommendation must have: a buy stops out below its entry and takes
  profit above it, a sell the other way round.\<close>

lemma deterministic_setup_is_ordered:
  assumes "on_grid 6 neutral_band" "0 < neutral_band" "neutral_band < 10 ^ 12"
    and "\<bar>quantize 6 (decimal_or payload_midpoint contract_midpoint)\<bar> < 10 ^ 12"
  shows "levels_ordered action
    (deterministic_setup payload_midpoint contract_midpoint neutral_band h4_support h4_resistance action)"
proof -
  define reference where "reference = quantize 6 (decimal_or payload_midpoint contract_midpoint)"
  have g: "on_grid 6 reference" "on_grid 6 (reference - neutral_band)" "on_grid 6 (reference + neutral_band)"
    using assms(1) by (auto simp: reference_def intro: on_grid_add on_grid_diff)
  have "\<bar>reference\<bar> < 10 ^ 12" using assms(4) by (simp add: reference_def)
  then have exact: "rnd28 (reference - neutral_band) = reference - neutral_band"
    "rnd28 (reference + neutral_band) = reference + neutral_band"
    using assms(2,3) by (auto intro!: rnd28_on_grid [OF g(2)] rnd28_on_grid [OF g(3)])
  have up: "reference < quantize 6 (max v (reference + neutral_band))" for v
    using quantize_ge_grid [OF g(3), of "max v (reference + neutral_band)"] assms(2) by simp
  have down: "quantize 6 (min v (reference - neutral_band)) < reference" for v
    using quantize_le_grid [OF g(2), of "min v (reference - neutral_band)"] assms(2) by simp
  show ?thesis
    by (cases action) (simp_all add: deterministic_setup_def Let_def exact up down flip: reference_def)
qed

definition sample_output :: response where
  "sample_output = RObject
     [(''action'', RText ''buy''), (''probability_up_percent'', RInt 50), (''probability_neutral_percent'', RInt 30),
      (''probability_down_percent'', RInt 20), (''summary'', RText ''s''), (''technical_case'', RText ''t''),
      (''macro_case'', RText ''m''), (''sentiment_case'', RText ''n''), (''risks'', RList [RText ''r'']),
      (''evidence_ids'', RList [RText ''technical:local-policy-v1'', RText ''macro:1'']),
      (''entry_condition'', RText ''none''), (''entry_level'', RNull), (''target_level'', RNull),
      (''invalidation_level'', RNull), (''abstention_reason'', RText '''')]"

lemma sample_output_accepted:
  "validate_output sample_output [''technical:local-policy-v1'', ''macro:1'']
     = Inr \<lparr>vo_action = Buy, vo_up = 50, vo_neutral = 30, vo_down = 20,
            vo_citations = [''technical:local-policy-v1'', ''macro:1'']\<rparr>"
  by code_simp

theorem accepted_output_meets_contract_witness:
  "probabilities_complete (probability_of 50) (probability_of 30) (probability_of 20)"
  using accepted_output_meets_contract [OF sample_output_accepted] by simp

end
