(* ===== verification/Fills.thy ===== *)
theory Fills
  imports Setups
begin

text \<open>
  The evidence half of \<^verbatim>\<open>forecasts/paper.py\<close>: rows of the candle and ingestion tables, conservative
  fills against the executable side of an hourly candle, barrier touches, the stop fill, the next
  market hour and the proof of hourly coverage. Rows are those of the queries; \<open>mr_run_succeeded\<close>
  and \<open>mr_run_finished\<close> are the columns of the row's ingestion run.
\<close>

section \<open>Rows\<close>

record market_row = quote +
  mr_id :: int
  mr_instrument :: int
  mr_granularity :: granularity
  mr_timestamp :: instant
  mr_complete :: bool
  mr_run_succeeded :: bool
  mr_run_finished :: "instant option"
  mr_sha :: string

record ingestion_row =
  ig_instrument :: int
  ig_granularity :: granularity
  ig_succeeded :: bool
  ig_from :: instant
  ig_to :: instant
  ig_finished :: "instant option"

record target_occurrence =
  to_id :: int
  to_reference_at :: instant
  to_horizon :: int

record recommendation =
  rec_id :: int
  rec_instrument :: int
  rec_version :: nat
  rec_action :: rec_action
  rec_setup :: trade_setup
  rec_generated_at :: instant
  rec_reference_at :: instant
  rec_expires_after :: nat
  rec_target :: "target_occurrence option"

text \<open>\<^verbatim>\<open>finished_at__lte=t\<close>: a null never matches.\<close>

definition finished_by :: "instant option \<Rightarrow> instant \<Rightarrow> bool" where
  [model_defs]: "finished_by finished t \<longleftrightarrow> (case finished of None \<Rightarrow> False | Some f \<Rightarrow> f \<le> t)"

section \<open>Fills\<close>

text \<open>\<^verbatim>\<open>_entry_fill\<close>: whether the level was already reached at the open, and the price.\<close>

definition entry_fill :: "rec_action \<Rightarrow> trade_setup \<Rightarrow> 'a quote_scheme \<Rightarrow> (bool \<times> decimal) option" where
  [model_defs]: "entry_fill action s c =
     (let buy = (action = Buy);
          side_open = (if buy then q_ask_open c else q_bid_open c);
          side_low = (if buy then q_ask_low c else q_bid_low c);
          side_high = (if buy then q_ask_high c else q_bid_high c);
          level = su_entry s
      in case su_condition s of
           AtOrBelow \<Rightarrow>
             if level < side_low then None
             else (let at_open = (side_open \<le> level);
                       fill = (if buy then level else if at_open then min level side_open else level)
                   in Some (at_open, quantize 6 fill))
         | AtOrAbove \<Rightarrow>
             if side_high < level then None
             else (let at_open = (level \<le> side_open);
                       fill = (if buy then (if at_open then max level side_open else level) else level)
                   in Some (at_open, quantize 6 fill)))"

text \<open>\<^verbatim>\<open>_exit_touches\<close>: the target touch and the stop touch of a candle.\<close>

definition exit_touches :: "rec_action \<Rightarrow> trade_setup \<Rightarrow> 'a quote_scheme \<Rightarrow> bool \<times> bool" where
  [model_defs]: "exit_touches action s c =
     (if action = Buy
      then (su_target s \<le> q_bid_high c, q_bid_low c \<le> su_invalidation s)
      else (q_ask_low c \<le> su_target s, su_invalidation s \<le> q_ask_high c))"

definition stop_fill :: "rec_action \<Rightarrow> trade_setup \<Rightarrow> 'a quote_scheme \<Rightarrow> decimal" where
  [model_defs]: "stop_fill action s c =
     (if action = Buy then quantize 6 (min (su_invalidation s) (q_bid_open c))
      else quantize 6 (max (su_invalidation s) (q_ask_open c)))"

section \<open>Hourly coverage\<close>

definition session_close_of :: "zone \<Rightarrow> instant \<Rightarrow> instant" where
  [model_defs]: "session_close_of z interval_start = to_utc z (to_local z interval_start + days 1)"

text \<open>\<^verbatim>\<open>replace(hour=17, minute=0, second=0, microsecond=0)\<close> of a wall time.\<close>

definition at_session_close :: "int \<Rightarrow> int" where
  [model_defs]: "at_session_close w = w - time_of_day w + hours 17"

definition next_market_wall :: "int \<Rightarrow> int" where
  [model_defs]: "next_market_wall w =
     (let l = w - w mod hours 1 + hours 1 in
      if weekday l = 4 \<and> 17 \<le> hour_of l then at_session_close (l + days 2)
      else if weekday l = 5 then at_session_close (l + days 1)
      else if weekday l = 6 \<and> hour_of l < 17 then at_session_close l
      else l)"

definition next_market_hour :: "zone \<Rightarrow> instant \<Rightarrow> instant" where
  [model_defs]: "next_market_hour z t = to_utc z (next_market_wall (to_local z t))"

definition is_weekend_gap :: "zone \<Rightarrow> instant \<Rightarrow> instant \<Rightarrow> bool" where
  [model_defs]: "is_weekend_gap z start finish \<longleftrightarrow>
     (let local_end = to_local z (start + hours 1); local_next = to_local z finish in
      weekday local_end = 4 \<and> hour_of local_end = 17 \<and> weekday local_next = 6 \<and> hour_of local_next = 17)"

text \<open>\<^verbatim>\<open>_has_coverage\<close>; \<open>as_of\<close> is the argument or the current instant, and constrains only the
  manifests of contract version 4.\<close>

definition manifest_covers :: "ingestion_row list \<Rightarrow> recommendation \<Rightarrow> instant \<Rightarrow> instant \<Rightarrow> bool" where
  [model_defs]: "manifest_covers runs r through as_of \<longleftrightarrow>
     list_ex (\<lambda>g. ig_instrument g = rec_instrument r \<and> ig_granularity g = GH1 \<and> ig_succeeded g
        \<and> ig_from g \<le> rec_generated_at r \<and> through \<le> ig_to g
        \<and> (rec_version r = 4 \<longrightarrow> finished_by (ig_finished g) as_of)) runs"

definition hours_adjacent :: "zone \<Rightarrow> instant \<Rightarrow> instant \<Rightarrow> bool" where
  [model_defs]: "hours_adjacent z a b \<longleftrightarrow> b - a = hours 1 \<or> is_weekend_gap z a b"

definition has_coverage ::
  "zone \<Rightarrow> ingestion_row list \<Rightarrow> recommendation \<Rightarrow> instant \<Rightarrow> market_row list \<Rightarrow> instant \<Rightarrow> bool" where
  [model_defs]: "has_coverage z runs r through candles as_of \<longleftrightarrow>
     manifest_covers runs r through as_of \<and> candles \<noteq> []
     \<and> mr_timestamp (hd candles) = next_market_hour z (rec_generated_at r)
     \<and> \<not> next_market_hour z (mr_timestamp (last candles)) < through
     \<and> adjacent_all (hours_adjacent z) (map mr_timestamp candles)"

section \<open>The endpoint of a target\<close>

text \<open>\<^verbatim>\<open>target_endpoint\<close> of \<^verbatim>\<open>forecasts/targets.py\<close>: \<open>None\<close> for an invalid horizon.\<close>

definition target_endpoint :: "zone \<Rightarrow> instant \<Rightarrow> int \<Rightarrow> instant option" where
  [model_defs]: "target_endpoint z reference horizon =
     (if 1 \<le> horizon \<and> horizon \<le> 100
      then Some (((\<lambda>t. the (registered_successor z t GD)) ^^ nat horizon) reference) else None)"

definition target_close :: "zone \<Rightarrow> target_occurrence \<Rightarrow> instant option" where
  [model_defs]: "target_close z target =
     Option.bind (target_endpoint z (to_reference_at target) (to_horizon target))
       (\<lambda>t. registered_candle_completion z t GD)"

text \<open>A recommendation without a target has no maturity; the code reads it for contract 4 only,
  whose recommendations have one.\<close>

definition target_maturity :: "zone \<Rightarrow> target_occurrence option \<Rightarrow> instant option" where
  [model_defs]: "target_maturity z target = Option.bind target (target_close z)"

section \<open>Fills are adverse\<close>

lemma adverse_entry:
  "entry_fill action s c = Some (at_open, price) \<Longrightarrow>
     if action = Buy then quantize 6 (su_entry s) \<le> price else price \<le> quantize 6 (su_entry s)"
  by (cases "su_condition s") (auto simp: entry_fill_def Let_def split: if_splits intro!: quantize_mono)

text \<open>Every simulated execution is adverse. A buy never fills better than its level, nor a sell,
  and a stop never exits better than the invalidation level, whatever the candle, the entry
  condition and the gap at the open; a fill is reported only when the candle traded at the level.\<close>

lemma fills_are_adverse:
  assumes "entry_fill action s c = Some (at_open, price)"
  shows "(action = Buy \<longrightarrow> quantize 6 (su_entry s) \<le> price \<and>
            (su_condition s = AtOrBelow \<longrightarrow> q_ask_low c \<le> su_entry s) \<and>
            (su_condition s = AtOrAbove \<longrightarrow> su_entry s \<le> q_ask_high c)) \<and>
         (action \<noteq> Buy \<longrightarrow> price \<le> quantize 6 (su_entry s) \<and>
            (su_condition s = AtOrBelow \<longrightarrow> q_bid_low c \<le> su_entry s) \<and>
            (su_condition s = AtOrAbove \<longrightarrow> su_entry s \<le> q_bid_high c)) \<and>
         (if action = Buy then stop_fill action s c \<le> quantize 6 (su_invalidation s)
          else quantize 6 (su_invalidation s) \<le> stop_fill action s c)"
  using assms
  by (cases "su_condition s") (auto simp: entry_fill_def stop_fill_def Let_def not_less
      split: if_splits intro!: quantize_mono)

definition sample_quote :: quote where
  [model_defs]: "sample_quote = \<lparr>q_bid_open = 10, q_bid_high = 12, q_bid_low = 7, q_bid_close = 9,
     q_ask_open = 11, q_ask_high = 13, q_ask_low = 8, q_ask_close = 10\<rparr>"

definition sample_setup :: trade_setup where
  [model_defs]: "sample_setup = \<lparr>su_condition = AtOrBelow, su_entry = 10, su_target = 15, su_invalidation = 8\<rparr>"

text \<open>The horizon of a target: each endpoint is the registered daily successor of the last.\<close>

lemma target_endpoint_aligned:
  assumes "faithful_zone z" "range_start_aligned (to_local z reference) GD" "target_endpoint z reference n = Some t"
  shows "range_start_aligned (to_local z t) GD \<and> to_local z reference + n * minutes 15 \<le> to_local z t"
proof -
  have "range_start_aligned (to_local z (((\<lambda>t. the (registered_successor z t GD)) ^^ k) reference)) GD
      \<and> to_local z reference + int k * minutes 15 \<le> to_local z (((\<lambda>t. the (registered_successor z t GD)) ^^ k) reference)" for k
  proof (induction k)
    case (Suc k)
    let ?t = "((\<lambda>t. the (registered_successor z t GD)) ^^ k) reference"
    from successor_registered [OF assms(1), of ?t GD] Suc
    show ?case by (auto simp: algebra_simps)
  qed (use assms(2) in simp)
  from this [of "nat n"] show ?thesis
    using assms(3) by (auto simp: target_endpoint_def split: if_splits)
qed

end
