(* ===== verification/Lifecycle.thy ===== *)
theory Lifecycle
  imports Fills
begin

text \<open>
  \<^verbatim>\<open>forecasts/lifecycle.py\<close>: the append-only state chain of a contract-4 recommendation, the checks
  of the facts that may end it, its projection at an instant, the risk projection and the closing
  of a cohort. A chain is the list of a recommendation's events, newest first, the order of the
  model's \<^verbatim>\<open>Meta\<close>. A \<^verbatim>\<open>ValidationError\<close> is \<open>Inl\<close> of its code; the transaction is rolled back, so
  nothing is changed. The identity digest is a parameter, and \<open>now\<close> is \<^verbatim>\<open>timezone.now()\<close>, read
  once per call.
\<close>

section \<open>States\<close>

datatype lifecycle_state =
    Abstained | AwaitingAssessment | PortfolioIneligible | AwaitingOwner | AdmittedAwaitingEntry | Entered
  | ClosedUnselected | AdmissionRevoked | CancelledState | TargetHit | InvalidatedState | ExpiredAfterEntry
  | ExpiredNotActivated | ExpiredUnobserved | MissingData | LegacyUnadjudicated

text \<open>\<^verbatim>\<open>TRANSITIONS\<close>; the legacy state is not one of its keys.\<close>

fun transitions :: "lifecycle_state \<Rightarrow> lifecycle_state list option" where
  "transitions AwaitingAssessment = Some [PortfolioIneligible, AwaitingOwner, CancelledState]"
| "transitions AwaitingOwner = Some [AdmittedAwaitingEntry, ClosedUnselected, CancelledState]"
| "transitions AdmittedAwaitingEntry =
     Some [Entered, AdmissionRevoked, ExpiredNotActivated, ExpiredUnobserved, MissingData, CancelledState]"
| "transitions Entered = Some [TargetHit, InvalidatedState, ExpiredAfterEntry, MissingData]"
| "transitions LegacyUnadjudicated = None"
| "transitions _ = Some []"

definition may_follow :: "lifecycle_state \<Rightarrow> lifecycle_state \<Rightarrow> bool" where
  [model_defs]: "may_follow s t \<longleftrightarrow> (case transitions s of None \<Rightarrow> False | Some ts \<Rightarrow> t \<in> set ts)"

definition is_terminal :: "lifecycle_state \<Rightarrow> bool" where
  [model_defs]: "is_terminal s \<longleftrightarrow> transitions s = Some []"

section \<open>Facts and sources\<close>

datatype paper_state =
    PaperLegacy | PaperPending | PaperEntered | PaperClosed | PaperExpiredUnobserved | PaperCancelled | PaperMissingData

text \<open>A \<^verbatim>\<open>PaperLifecycleEvent\<close> row. Of its details, the exact integers \<^verbatim>\<open>schema_version\<close> (nothing
  when the details are no object) and \<^verbatim>\<open>target_resolution_id\<close>.\<close>

record paper_fact =
  pf_id :: int
  pf_recommendation :: int
  pf_state :: paper_state
  pf_reason :: string
  pf_schema :: "int option"
  pf_resolution :: "int option"
  pf_occurred_at :: instant

record paper_entry =
  pe_id :: int
  pe_candle :: market_row
  pe_fill_price :: decimal
  pe_open_spread :: decimal
  pe_at_open :: bool
  pe_target_ignored :: bool
  pe_entered_at :: instant

datatype paper_outcome = OutTarget | OutInvalidated | OutExpired | OutNotActivated

record paper_result =
  pr_id :: int
  pr_recommendation :: int
  pr_entry :: "paper_entry option"
  pr_outcome :: paper_outcome
  pr_horizon :: "market_row option"
  pr_exit :: "market_row option"
  pr_exit_price :: "decimal option"
  pr_gross_pips :: "decimal option"
  pr_r_multiple :: "decimal option"
  pr_ambiguous :: bool
  pr_on_entry_candle :: bool
  pr_resolved_at :: instant

datatype resolution_outcome = Scored outcome | ResolutionMissing | ResolutionCancelled

record target_resolution =
  tr_id :: int
  tr_outcome :: resolution_outcome
  tr_horizon :: "market_row option"
  tr_midpoint :: "decimal option"
  tr_change :: "decimal option"
  tr_resolved_at :: instant

datatype event_source =
    FromRecommendation int | FromFact paper_fact | FromEntry int | FromResult paper_result
  | FromMember int | FromAdmission int | FromClosure int

fun source_type :: "event_source \<Rightarrow> string" where
  "source_type (FromRecommendation n) = ''Recommendation''"
| "source_type (FromFact f) = ''PaperLifecycleEvent''"
| "source_type (FromEntry n) = ''PaperTradeEntry''"
| "source_type (FromResult r) = ''PaperTradeResult''"
| "source_type (FromMember n) = ''PortfolioCohortMember''"
| "source_type (FromAdmission n) = ''PortfolioAdmissionEvent''"
| "source_type (FromClosure n) = ''CohortClosure''"

fun source_id :: "event_source \<Rightarrow> int" where
  "source_id (FromRecommendation n) = n"
| "source_id (FromFact f) = pf_id f"
| "source_id (FromEntry n) = n"
| "source_id (FromResult r) = pr_id r"
| "source_id (FromMember n) = n"
| "source_id (FromAdmission n) = n"
| "source_id (FromClosure n) = n"

record lifecycle_event =
  le_state :: lifecycle_state
  le_reason :: string
  le_source_type :: string
  le_source_id :: int
  le_occurred_at :: instant
  le_key :: string

text \<open>The tables that the checks read.\<close>

record tables =
  tb_candles :: "market_row list"
  tb_runs :: "ingestion_row list"

type_synonym key_digest = "int \<Rightarrow> lifecycle_state \<Rightarrow> string \<Rightarrow> int \<Rightarrow> string"

datatype lifecycle_error =
    LegacyTransitionForbidden | CoverageSourceRequired | InvalidCoverageDetails | InvalidCancellationEvidence
  | CoverageBeforeMaturity | MissingDailySource | InvalidCoverageReason | CoverageMismatch | ResultSourceRequired
  | ExpiryBeforeMaturity | ExpiryCoverageRequired | NonactivationContradicted | IllegalTransition | InvalidHorizon

section \<open>Coverage facts\<close>

text \<open>The hourly candles of the setup known at an instant.\<close>

definition hourly_evidence :: "tables \<Rightarrow> recommendation \<Rightarrow> instant \<Rightarrow> instant \<Rightarrow> market_row list" where
  [model_defs]: "hourly_evidence tb r maturity as_of =
     sort_key mr_timestamp
       (filter (\<lambda>c. mr_instrument c = rec_instrument r \<and> mr_granularity c = GH1 \<and> mr_complete c
          \<and> rec_generated_at r \<le> mr_timestamp c \<and> mr_timestamp c \<le> maturity - hours 1
          \<and> mr_run_succeeded c \<and> finished_by (mr_run_finished c) as_of) (tb_candles tb))"

definition entered_by :: "paper_entry option \<Rightarrow> instant \<Rightarrow> bool" where
  [model_defs]: "entered_by e t \<longleftrightarrow> (case e of None \<Rightarrow> False | Some e \<Rightarrow> pe_entered_at e \<le> t)"

definition validate_coverage_fact ::
  "zone \<Rightarrow> tables \<Rightarrow> recommendation \<Rightarrow> paper_entry option \<Rightarrow> target_resolution option \<Rightarrow> paper_fact \<Rightarrow> lifecycle_error option" where
  [model_defs]: "validate_coverage_fact z tb r entry shared pf =
     (if rec_version r \<noteq> 4 then None
      else if pf_schema pf \<noteq> Some 1 then Some InvalidCoverageDetails
      else if pf_state pf = PaperCancelled
      then (if entered_by entry (pf_occurred_at pf) \<or> pf_reason pf = [] then Some InvalidCancellationEvidence else None)
      else if pf_state pf \<noteq> PaperExpiredUnobserved \<and> pf_state pf \<noteq> PaperMissingData then None
      else
        (case target_maturity z (rec_target r) of
           None \<Rightarrow> Some InvalidHorizon
         | Some maturity \<Rightarrow>
             if pf_occurred_at pf < maturity then Some CoverageBeforeMaturity
             else if pf_reason pf = ''daily_horizon_unavailable''
             then (case shared of
                     None \<Rightarrow> Some MissingDailySource
                   | Some t \<Rightarrow>
                       if pf_state pf \<noteq> PaperMissingData \<or> tr_outcome t \<noteq> ResolutionMissing
                          \<or> pf_occurred_at pf < tr_resolved_at t \<or> pf_resolution pf \<noteq> Some (tr_id t)
                       then Some MissingDailySource else None)
             else if pf_reason pf \<noteq> ''hourly_coverage_unavailable'' then Some InvalidCoverageReason
             else
               (let expected = (if entered_by entry (pf_occurred_at pf) then PaperMissingData else PaperExpiredUnobserved);
                    candles = hourly_evidence tb r maturity (pf_occurred_at pf)
                in if pf_state pf \<noteq> expected
                      \<or> has_coverage z (tb_runs tb) r maturity candles (pf_occurred_at pf)
                   then Some CoverageMismatch else None)))"

definition validate_expiry_result ::
  "zone \<Rightarrow> tables \<Rightarrow> recommendation \<Rightarrow> paper_result \<Rightarrow> lifecycle_error option" where
  [model_defs]: "validate_expiry_result z tb r result =
     (case target_maturity z (rec_target r) of
        None \<Rightarrow> Some InvalidHorizon
      | Some maturity \<Rightarrow>
          if pr_resolved_at result < maturity then Some ExpiryBeforeMaturity
          else
            (let candles = hourly_evidence tb r maturity (pr_resolved_at result) in
             if \<not> has_coverage z (tb_runs tb) r maturity candles (pr_resolved_at result) then Some ExpiryCoverageRequired
             else if pr_outcome result = OutNotActivated
                  \<and> list_ex (\<lambda>c. entry_fill (rec_action r) (rec_setup r) c \<noteq> None) candles
             then Some NonactivationContradicted else None))"

section \<open>Transitions\<close>

definition initial_state :: "recommendation \<Rightarrow> lifecycle_state" where
  [model_defs]: "initial_state r = (if rec_action r = Abstain then Abstained else AwaitingAssessment)"

text \<open>The two guards on the source of the event.\<close>

definition coverage_guard ::
  "zone \<Rightarrow> tables \<Rightarrow> recommendation \<Rightarrow> paper_entry option \<Rightarrow> target_resolution option \<Rightarrow> lifecycle_state \<Rightarrow> event_source
     \<Rightarrow> lifecycle_error option" where
  [model_defs]: "coverage_guard z tb r entry shared state source =
     (if state \<in> {ExpiredUnobserved, MissingData, CancelledState}
      then (case source of
              FromFact f \<Rightarrow> if pf_recommendation f \<noteq> rec_id r then Some CoverageSourceRequired
                            else validate_coverage_fact z tb r entry shared f
            | _ \<Rightarrow> Some CoverageSourceRequired)
      else None)"

definition expiry_guard ::
  "zone \<Rightarrow> tables \<Rightarrow> recommendation \<Rightarrow> lifecycle_state \<Rightarrow> event_source \<Rightarrow> lifecycle_error option" where
  [model_defs]: "expiry_guard z tb r state source =
     (if state = ExpiredNotActivated
      then (case source of
              FromResult p \<Rightarrow> if pr_recommendation p \<noteq> rec_id r then Some ResultSourceRequired
                              else validate_expiry_result z tb r p
            | _ \<Rightarrow> Some ResultSourceRequired)
      else None)"

definition legal_step :: "recommendation \<Rightarrow> lifecycle_event list \<Rightarrow> lifecycle_state \<Rightarrow> instant \<Rightarrow> bool" where
  [model_defs]: "legal_step r chain state occurred \<longleftrightarrow>
     transitions state \<noteq> None \<and> rec_generated_at r \<le> occurred \<and>
     (case chain of
        [] \<Rightarrow> state = initial_state r
      | latest # _ \<Rightarrow> may_follow (le_state latest) state \<and> le_occurred_at latest \<le> occurred)"

text \<open>The event that is returned and the chain after it.\<close>

definition transition ::
  "key_digest \<Rightarrow> zone \<Rightarrow> tables \<Rightarrow> instant \<Rightarrow> recommendation \<Rightarrow> paper_entry option \<Rightarrow> target_resolution option
     \<Rightarrow> lifecycle_event list \<Rightarrow> lifecycle_state \<Rightarrow> string \<Rightarrow> event_source \<Rightarrow> instant option
     \<Rightarrow> lifecycle_error + (lifecycle_event \<times> lifecycle_event list)" where
  [model_defs]: "transition digest z tb now r entry shared chain state reason source occurred_at =
     (if rec_version r \<noteq> 4 then Inl LegacyTransitionForbidden
      else
        (case coverage_guard z tb r entry shared state source of
           Some e \<Rightarrow> Inl e
         | None \<Rightarrow>
             (let occurred = (case occurred_at of None \<Rightarrow> now | Some t \<Rightarrow> t);
                  key = digest (rec_id r) state (source_type source) (source_id source)
              in case List.find (\<lambda>e. le_key e = key) chain of
                   Some existing \<Rightarrow> Inr (existing, chain)
                 | None \<Rightarrow>
                     if chain \<noteq> [] \<and> le_state (hd chain) = state then Inr (hd chain, chain)
                     else
                       (case expiry_guard z tb r state source of
                          Some e \<Rightarrow> Inl e
                        | None \<Rightarrow>
                            if \<not> legal_step r chain state occurred then Inl IllegalTransition
                            else
                              (let event = \<lparr>le_state = state, le_reason = reason, le_source_type = source_type source,
                                     le_source_id = source_id source, le_occurred_at = occurred, le_key = key\<rparr>
                               in Inr (event, event # chain))))))"

text \<open>\<^verbatim>\<open>initialize\<close>: the disposition row, whether there is one, and the chain.\<close>

definition initialize ::
  "key_digest \<Rightarrow> zone \<Rightarrow> tables \<Rightarrow> instant \<Rightarrow> recommendation \<Rightarrow> paper_entry option \<Rightarrow> target_resolution option
     \<Rightarrow> bool \<times> lifecycle_event list \<Rightarrow> lifecycle_error + (bool \<times> lifecycle_event list)" where
  [model_defs]: "initialize digest z tb now r entry shared st =
     (if rec_version r \<noteq> 4 then Inr st
      else
        (case transition digest z tb now r entry shared (snd st) (initial_state r) ''issued''
                (FromRecommendation (rec_id r)) (Some (rec_generated_at r)) of
           Inl e \<Rightarrow> Inl e
         | Inr (event, chain) \<Rightarrow> Inr (fst st \<or> rec_action r \<noteq> Abstain, chain)))"

section \<open>Projection\<close>

datatype admission_state = Admitted | Revoked

record admission =
  ad_id :: int
  ad_state :: admission_state
  ad_occurred_at :: instant

datatype selection_mode = Automatic | OwnerSelected

record selection =
  se_id :: int
  se_mode :: selection_mode
  se_selected_at :: instant

record cohort =
  co_id :: int
  co_generated_at :: instant
  co_closed_at :: "instant option"
  co_selections :: "selection list"

text \<open>The rows that belong to one recommendation.\<close>

record rec_facts =
  rf_entry :: "paper_entry option"
  rf_result :: "paper_result option"
  rf_admissions :: "admission list"
  rf_cohort :: "cohort option"
  rf_chain :: "lifecycle_event list"
  rf_paper_facts :: "paper_fact list"

definition filter_option :: "('a \<Rightarrow> bool) \<Rightarrow> 'a option \<Rightarrow> 'a option" where
  [model_defs]: "filter_option p x = (case x of None \<Rightarrow> None | Some y \<Rightarrow> if p y then Some y else None)"

fun result_state :: "paper_outcome \<Rightarrow> lifecycle_state" where
  "result_state OutTarget = TargetHit"
| "result_state OutInvalidated = InvalidatedState"
| "result_state OutExpired = ExpiredAfterEntry"
| "result_state OutNotActivated = ExpiredNotActivated"

fun historical_state :: "paper_state \<Rightarrow> lifecycle_state option" where
  "historical_state PaperExpiredUnobserved = Some ExpiredUnobserved"
| "historical_state PaperMissingData = Some MissingData"
| "historical_state PaperCancelled = Some CancelledState"
| "historical_state _ = None"

text \<open>The state of a recommendation without a chain event at the cutoff.\<close>

definition legacy_state ::
  "recommendation \<Rightarrow> paper_entry option \<Rightarrow> paper_result option \<Rightarrow> admission option \<Rightarrow> paper_fact option
     \<Rightarrow> lifecycle_state \<times> string \<times> instant" where
  [model_defs]: "legacy_state r entry result adm historical =
     (if rec_action r = Abstain then (Abstained, ''recorded_abstention'', rec_generated_at r)
      else
        (case result of
           Some p \<Rightarrow> (result_state (pr_outcome p), ''recorded_result'', pr_resolved_at p)
         | None \<Rightarrow>
             (case Option.bind historical (\<lambda>f. map_option (\<lambda>s. (s, pf_reason f, pf_occurred_at f)) (historical_state (pf_state f))) of
                Some s \<Rightarrow> s
              | None \<Rightarrow>
                  (case entry of
                     Some e \<Rightarrow> (Entered, ''recorded_entry'', pe_entered_at e)
                   | None \<Rightarrow>
                       (case adm of
                          Some a \<Rightarrow> (if ad_state a = Admitted then AdmittedAwaitingEntry else AdmissionRevoked,
                                    ''recorded_admission'', ad_occurred_at a)
                        | None \<Rightarrow> (LegacyUnadjudicated, ''legacy_ambiguous'', rec_generated_at r))))))"

datatype coverage_status = CoverageMissing | CoverageVerified | CoverageNotAssessed

datatype cohort_status = CohortClosed | CohortOpen

record projection =
  pj_state :: lifecycle_state
  pj_reason :: string
  pj_effective_at :: instant
  pj_terminal :: bool
  pj_admission :: "admission_state option"
  pj_selection_mode :: "selection_mode option"
  pj_cohort_id :: "int option"
  pj_cohort_status :: "cohort_status option"
  pj_entry_id :: "int option"
  pj_result_id :: "int option"
  pj_coverage :: coverage_status
  pj_legacy :: bool

definition latest_admission :: "admission list \<Rightarrow> instant \<Rightarrow> admission option" where
  [model_defs]: "latest_admission as as_of =
     first_max_by (\<lambda>a. (ad_occurred_at a, ad_id a)) (filter (\<lambda>a. ad_occurred_at a \<le> as_of) as)"

definition latest_selection :: "selection list \<Rightarrow> instant \<Rightarrow> selection option" where
  [model_defs]: "latest_selection ss as_of =
     first_max_by (\<lambda>s. (se_selected_at s, se_id s)) (filter (\<lambda>s. se_selected_at s \<le> as_of) ss)"

definition latest_paper_fact :: "paper_fact list \<Rightarrow> instant \<Rightarrow> paper_fact option" where
  [model_defs]: "latest_paper_fact fs as_of =
     first_max_by (\<lambda>f. (pf_occurred_at f, pf_id f)) (filter (\<lambda>f. pf_occurred_at f \<le> as_of) fs)"

definition event_at :: "lifecycle_event list \<Rightarrow> instant \<Rightarrow> lifecycle_event option" where
  [model_defs]: "event_at chain as_of = List.find (\<lambda>e. le_occurred_at e \<le> as_of) chain"

definition project_lifecycle :: "recommendation \<Rightarrow> rec_facts \<Rightarrow> instant \<Rightarrow> projection" where
  [model_defs]: "project_lifecycle r f as_of =
     (let entry = filter_option (\<lambda>e. pe_entered_at e \<le> as_of) (rf_entry f);
          result = filter_option (\<lambda>p. pr_resolved_at p \<le> as_of) (rf_result f);
          adm = latest_admission (rf_admissions f) as_of;
          coh = filter_option (\<lambda>c. co_generated_at c \<le> as_of) (rf_cohort f);
          closure = Option.bind coh (\<lambda>c. filter_option (\<lambda>t. t \<le> as_of) (co_closed_at c));
          sel = Option.bind coh (\<lambda>c. latest_selection (co_selections c) as_of);
          event = (if rec_version r = 4 then event_at (rf_chain f) as_of else None);
          (state, reason, effective) =
            (case event of
               Some e \<Rightarrow> (le_state e, le_reason e, le_occurred_at e)
             | None \<Rightarrow> legacy_state r entry result adm (latest_paper_fact (rf_paper_facts f) as_of))
      in \<lparr>pj_state = state, pj_reason = reason, pj_effective_at = effective, pj_terminal = is_terminal state,
          pj_admission = map_option ad_state adm, pj_selection_mode = map_option se_mode sel,
          pj_cohort_id = map_option co_id coh,
          pj_cohort_status = (if closure \<noteq> None \<or> sel \<noteq> None then Some CohortClosed
                              else if coh \<noteq> None then Some CohortOpen else None),
          pj_entry_id = map_option pe_id entry, pj_result_id = map_option pr_id result,
          pj_coverage = (if state = MissingData \<or> state = ExpiredUnobserved then CoverageMissing
                         else if result \<noteq> None then CoverageVerified else CoverageNotAssessed),
          pj_legacy = (rec_version r \<noteq> 4)\<rparr>)"

definition current_risk_projection :: "recommendation \<Rightarrow> rec_facts \<Rightarrow> instant \<Rightarrow> projection option" where
  [model_defs]: "current_risk_projection r f as_of =
     (if rec_version r \<notin> {2, 3, 4} \<or> rec_action r = Abstain then None
      else
        (let p = project_lifecycle r f as_of in
         if pj_admission p \<noteq> Some Admitted \<or> pj_state p \<notin> {AdmittedAwaitingEntry, Entered} then None
         else Some p))"

section \<open>Closing a cohort\<close>

text \<open>\<^verbatim>\<open>close_cohort\<close> over the cohort's members in their order. The closure row is kept when it
  exists; a member still awaiting the owner is closed unselected.\<close>

type_synonym member_row = "recommendation \<times> rec_facts \<times> target_resolution option"

definition close_member ::
  "key_digest \<Rightarrow> zone \<Rightarrow> tables \<Rightarrow> instant \<Rightarrow> string \<Rightarrow> int \<Rightarrow> instant \<Rightarrow> member_row \<Rightarrow> lifecycle_error + member_row" where
  [model_defs]: "close_member digest z tb now reason closure_id as_of m =
     (let (r, f, shared) = m in
      if rec_version r = 4 \<and> pj_state (project_lifecycle r f as_of) = AwaitingOwner
      then (case transition digest z tb now r (rf_entry f) shared (rf_chain f) ClosedUnselected reason
                   (FromClosure closure_id) (Some as_of) of
              Inl e \<Rightarrow> Inl e
            | Inr (event, chain) \<Rightarrow> Inr (r, f\<lparr>rf_chain := chain\<rparr>, shared))
      else Inr m)"

fun close_members ::
  "key_digest \<Rightarrow> zone \<Rightarrow> tables \<Rightarrow> instant \<Rightarrow> string \<Rightarrow> int \<Rightarrow> instant \<Rightarrow> member_row list \<Rightarrow> lifecycle_error + member_row list" where
  "close_members digest z tb now reason closure_id as_of [] = Inr []"
| "close_members digest z tb now reason closure_id as_of (m # ms) =
     (case close_member digest z tb now reason closure_id as_of m of
        Inl e \<Rightarrow> Inl e
      | Inr m' \<Rightarrow>
          (case close_members digest z tb now reason closure_id as_of ms of
             Inl e \<Rightarrow> Inl e
           | Inr ms' \<Rightarrow> Inr (m' # ms')))"

definition close_cohort ::
  "key_digest \<Rightarrow> zone \<Rightarrow> tables \<Rightarrow> instant \<Rightarrow> string \<Rightarrow> int \<Rightarrow> instant \<Rightarrow> cohort \<Rightarrow> member_row list
     \<Rightarrow> lifecycle_error + (cohort \<times> member_row list)" where
  [model_defs]: "close_cohort digest z tb now reason closure_id as_of c members =
     (let c' = (case co_closed_at c of None \<Rightarrow> c\<lparr>co_closed_at := Some as_of\<rparr> | Some t \<Rightarrow> c) in
      case close_members digest z tb now reason closure_id as_of members of
        Inl e \<Rightarrow> Inl e
      | Inr ms \<Rightarrow> Inr (c', ms))"

section \<open>The chain is legal\<close>

text \<open>What any sequence of calls, in any order, with any sources, tables and instants, can build.\<close>

inductive chain_reachable :: "key_digest \<Rightarrow> zone \<Rightarrow> recommendation \<Rightarrow> lifecycle_event list \<Rightarrow> bool"
  for digest z r where
  empty_chain: "chain_reachable digest z r []"
| call: "chain_reachable digest z r chain \<Longrightarrow>
     transition digest z tb now r entry shared chain state reason source occurred_at = Inr (event, chain') \<Longrightarrow>
     chain_reachable digest z r chain'"

inductive_cases transition_call: "chain_reachable digest z r (e # chain)"

definition follows :: "lifecycle_event \<Rightarrow> lifecycle_event \<Rightarrow> bool" where
  "follows later earlier \<longleftrightarrow>
     may_follow (le_state earlier) (le_state later) \<and> le_occurred_at earlier \<le> le_occurred_at later"

definition chain_legal :: "recommendation \<Rightarrow> lifecycle_event list \<Rightarrow> bool" where
  "chain_legal r chain \<longleftrightarrow>
     (chain \<noteq> [] \<longrightarrow> le_state (last chain) = initial_state r) \<and>
     adjacent_all follows chain \<and>
     (\<forall>e \<in> set chain. rec_generated_at r \<le> le_occurred_at e)"

lemma transition_cases:
  assumes "transition digest z tb now r entry shared chain state reason source occurred_at = Inr (event, chain')"
  obtains (kept) "chain' = chain" "event \<in> set chain"
  | (appended) "chain' = event # chain" "le_state event = state" "legal_step r chain state (le_occurred_at event)"
      "coverage_guard z tb r entry shared state source = None" "expiry_guard z tb r state source = None"
proof -
  define key where "key = digest (rec_id r) state (source_type source) (source_id source)"
  have kept': ?thesis if "List.find (\<lambda>e. le_key e = key) chain = Some event" "chain' = chain"
    using that find_Some_iff [of "\<lambda>e. le_key e = key" chain event] nth_mem kept by metis
  have kept'': ?thesis if "chain \<noteq> []" "event = hd chain" "chain' = chain"
    using that kept hd_in_set by metis
  show ?thesis
    using assms unfolding transition_def Let_def key_def [symmetric]
    by (auto split: if_splits option.splits intro: kept' kept'' appended)
qed

lemma chain_legal_Cons:
  assumes "chain_legal r chain" "legal_step r chain (le_state event) (le_occurred_at event)"
  shows "chain_legal r (event # chain)"
  using assms by (auto simp: chain_legal_def legal_step_def follows_def adjacent_all_Cons split: list.splits)

lemma reachable_chain_legal: "chain_reachable digest z r chain \<Longrightarrow> chain_legal r chain"
proof (induction rule: chain_reachable.induct)
  case (call chain tb now entry shared state reason source occurred_at event chain')
  from call.hyps(2) show ?case
    by (rule transition_cases) (use call.IH chain_legal_Cons in auto)
qed (simp add: chain_legal_def)

text \<open>The transitions descend: each state has a height, so a chain has at most five events.\<close>

fun height :: "lifecycle_state \<Rightarrow> nat" where
  "height AwaitingAssessment = 4"
| "height AwaitingOwner = 3"
| "height AdmittedAwaitingEntry = 2"
| "height Entered = 1"
| "height _ = 0"

lemma may_follow_height: "may_follow s t \<Longrightarrow> height t < height s"
  by (cases s) (auto simp: may_follow_def)

lemma legal_chain_height:
  "adjacent_all follows (e # chain)
     \<Longrightarrow> height (le_state e) + length chain \<le> height (le_state (last (e # chain)))"
proof (induction chain arbitrary: e)
  case (Cons d chain)
  then have "height (le_state d) + length chain \<le> height (le_state (last (d # chain)))" by simp
  moreover have "height (le_state e) < height (le_state d)" using Cons.prems may_follow_height by (simp add: follows_def)
  ultimately show ?case by simp
qed simp

lemma legal_chain_sorted:
  "adjacent_all follows (e # chain)
     \<Longrightarrow> \<forall>d \<in> set chain. le_occurred_at d \<le> le_occurred_at e \<and> height (le_state e) < height (le_state d)"
proof (induction chain arbitrary: e)
  case (Cons d chain)
  then have "\<forall>c \<in> set chain. le_occurred_at c \<le> le_occurred_at d \<and> height (le_state d) < height (le_state c)" by simp
  moreover have "height (le_state e) < height (le_state d)" "le_occurred_at d \<le> le_occurred_at e"
    using Cons.prems may_follow_height by (simp_all add: follows_def)
  ultimately show ?case by auto
qed simp

lemma terminal_height: "is_terminal s \<Longrightarrow> height s = 0 \<and> \<not> may_follow s t"
  by (cases s) (auto simp: is_terminal_def may_follow_def)

text \<open>C33: Every chain that calls of \<^verbatim>\<open>transition\<close> can build, in any order and with any arguments,
  starts with the initial state of its recommendation, follows \<^verbatim>\<open>TRANSITIONS\<close> from event to event,
  never goes back in time or before the recommendation, and has at most five events.\<close>

theorem lifecycle_chain_is_legal:
  assumes "chain_reachable digest z r chain"
  shows "chain_legal r chain \<and> length chain \<le> 5"
proof -
  have legal: "chain_legal r chain" by (rule reachable_chain_legal [OF assms])
  have "length chain \<le> 5"
  proof (cases chain)
    case (Cons e es)
    then have "adjacent_all follows (e # es)" using legal by (simp add: chain_legal_def)
    then have "height (le_state e) + length es \<le> height (le_state (last (e # es)))"
      by (rule legal_chain_height)
    also have "\<dots> \<le> 4" using legal Cons by (simp add: chain_legal_def initial_state_def)
    finally show ?thesis using Cons by simp
  qed simp
  with legal show ?thesis ..
qed

text \<open>A terminal state is absorbing: once the newest event of a chain is terminal, a call either
  raises or returns an event that is already there, and the chain stays as it is.\<close>

lemma terminal_state_absorbs:
  assumes "is_terminal (le_state latest)"
    and "transition digest z tb now r entry shared (latest # chain) state reason source occurred_at = Inr (event, chain')"
  shows "chain' = latest # chain \<and> event \<in> set (latest # chain)"
  using assms(2)
proof (rule transition_cases)
  assume "legal_step r (latest # chain) state (le_occurred_at event)"
  then have False using assms(1) terminal_height by (simp add: legal_step_def)
  then show ?thesis ..
qed simp

lemma event_at_reachable:
  assumes "chain_legal r chain" "e \<in> set chain" "is_terminal (le_state e)" "le_occurred_at e \<le> t"
  shows "event_at chain t = Some e"
proof (cases chain)
  case (Cons d ds)
  have "adjacent_all follows (d # ds)" using assms(1) Cons by (simp add: chain_legal_def)
  then have "\<forall>c \<in> set ds. le_occurred_at c \<le> le_occurred_at d \<and> height (le_state d) < height (le_state c)"
    by (rule legal_chain_sorted)
  then have "e = d" using assms(2,3) Cons terminal_height by fastforce
  then show ?thesis using assms(4) Cons by (simp add: event_at_def)
qed (use assms in simp)

text \<open>Risk ends with the chain: at every instant from a terminal event of a reachable chain on,
  the recommendation projects to that terminal state and carries no current risk, whatever its
  admissions, entry, result and paper facts say.\<close>

lemma terminal_event_ends_risk:
  assumes "chain_reachable digest z r (rf_chain f)" "rec_version r = 4"
    and "e \<in> set (rf_chain f)" "is_terminal (le_state e)" "le_occurred_at e \<le> as_of"
  shows "pj_state (project_lifecycle r f as_of) = le_state e \<and> pj_terminal (project_lifecycle r f as_of)
    \<and> current_risk_projection r f as_of = None"
proof -
  have "event_at (rf_chain f) as_of = Some e"
    using reachable_chain_legal [OF assms(1)] assms(3-5) by (rule event_at_reachable)
  then have s: "pj_state (project_lifecycle r f as_of) = le_state e"
    using assms(2) by (simp add: project_lifecycle_def Let_def)
  have "le_state e \<notin> {AdmittedAwaitingEntry, Entered}" using assms(4) by (auto simp: is_terminal_def)
  moreover have "pj_terminal (project_lifecycle r f as_of) = is_terminal (pj_state (project_lifecycle r f as_of))"
    by (simp add: project_lifecycle_def Let_def split: prod.split)
  ultimately show ?thesis using s assms(4) by (simp add: current_risk_projection_def Let_def)
qed

definition sample_recommendation :: recommendation where
  [model_defs]: "sample_recommendation = \<lparr>rec_id = 1, rec_instrument = 1, rec_version = 4, rec_action = Buy,
     rec_setup = sample_setup, rec_generated_at = 0, rec_reference_at = 0, rec_expires_after = 5,
     rec_target = Some \<lparr>to_id = 1, to_reference_at = hours 22, to_horizon = 1\<rparr>\<rparr>"

definition sample_digest :: key_digest where
  [model_defs]: "sample_digest n s t k = (if s = AwaitingAssessment then ''issued'' else t)"

definition sample_tables :: tables where
  [model_defs]: "sample_tables = \<lparr>tb_candles = [], tb_runs = []\<rparr>"

definition issued_event :: lifecycle_event where
  [model_defs]: "issued_event = \<lparr>le_state = AwaitingAssessment, le_reason = ''issued'', le_source_type = ''Recommendation'',
     le_source_id = 1, le_occurred_at = 0, le_key = ''issued''\<rparr>"

definition ineligible_event :: lifecycle_event where
  [model_defs]: "ineligible_event = \<lparr>le_state = PortfolioIneligible, le_reason = ''missing_versioned_sizing'',
     le_source_type = ''Recommendation'', le_source_id = 1, le_occurred_at = 1, le_key = ''Recommendation''\<rparr>"

lemma sample_chain_reachable:
  "chain_reachable sample_digest (fixed_zone 0) sample_recommendation [ineligible_event, issued_event]"
proof -
  have 1: "transition sample_digest (fixed_zone 0) sample_tables 0 sample_recommendation None None []
      AwaitingAssessment ''issued'' (FromRecommendation 1) None = Inr (issued_event, [issued_event])"
    by (simp add: transition_def coverage_guard_def expiry_guard_def legal_step_def initial_state_def
        sample_recommendation_def sample_digest_def issued_event_def Let_def)
  have 2: "transition sample_digest (fixed_zone 0) sample_tables 1 sample_recommendation None None [issued_event]
      PortfolioIneligible ''missing_versioned_sizing'' (FromRecommendation 1) None
      = Inr (ineligible_event, [ineligible_event, issued_event])"
    by (simp add: transition_def coverage_guard_def expiry_guard_def legal_step_def may_follow_def
        sample_recommendation_def sample_digest_def issued_event_def ineligible_event_def Let_def)
  show ?thesis by (rule call [OF call [OF empty_chain 1] 2])
qed

theorem lifecycle_chain_is_legal_witness:
  "chain_legal sample_recommendation [ineligible_event, issued_event]"
  using lifecycle_chain_is_legal [OF sample_chain_reachable] by simp

definition sample_facts :: rec_facts where
  [model_defs]: "sample_facts = \<lparr>rf_entry = None, rf_result = None,
     rf_admissions = [\<lparr>ad_id = 1, ad_state = Admitted, ad_occurred_at = 0\<rparr>], rf_cohort = None,
     rf_chain = [ineligible_event, issued_event], rf_paper_facts = []\<rparr>"

end
