(* ===== verification/Targets.thy ===== *)
theory Targets
  imports Lifecycle
begin

text \<open>
  Shared outcome ownership, \<^verbatim>\<open>forecasts/targets.py\<close>: the eligible endpoint candle of a target, its
  one resolution, the validation that every stored resolution passes, and the directional outcome
  and score that a prediction derives from it. The content digests of the candles and the
  identity digest of the target are not modelled.
\<close>

record target =
  tg_occurrence :: target_occurrence
  tg_instrument :: int
  tg_reference_midpoint :: decimal
  tg_neutral_band :: decimal

definition endpoint_of :: "zone \<Rightarrow> target \<Rightarrow> instant option" where
  [model_defs]: "endpoint_of z t = target_endpoint z (to_reference_at (tg_occurrence t)) (to_horizon (tg_occurrence t))"

definition is_endpoint :: "target \<Rightarrow> instant \<Rightarrow> instant \<Rightarrow> market_row \<Rightarrow> bool" where
  [model_defs]: "is_endpoint t endpoint as_of c \<longleftrightarrow>
     mr_instrument c = tg_instrument t \<and> mr_granularity c = GD \<and> mr_timestamp c = endpoint \<and> mr_complete c
     \<and> mr_run_succeeded c \<and> finished_by (mr_run_finished c) as_of"

definition eligible_endpoint :: "zone \<Rightarrow> market_row list \<Rightarrow> target \<Rightarrow> instant \<Rightarrow> market_row option" where
  [model_defs]: "eligible_endpoint z rows t as_of =
     (case endpoint_of z t of
        None \<Rightarrow> None
      | Some endpoint \<Rightarrow>
          if as_of < the (registered_candle_completion z endpoint GD) then None
          else List.find (is_endpoint t endpoint as_of) rows)"

definition endpoint_midpoint :: "market_row \<Rightarrow> decimal" where
  [model_defs]: "endpoint_midpoint c = quantize 6 (midpoint_close c)"

text \<open>\<^verbatim>\<open>resolve_target\<close>: \<open>None\<close> when the target is not mature, or its resolution is later than the
  cutoff; otherwise the resolution and whether it is a new row. An invalid horizon raises.\<close>

datatype target_reply = NotResolved | Existing target_resolution | Created target_resolution

definition new_resolution :: "target \<Rightarrow> int \<Rightarrow> market_row option \<Rightarrow> instant \<Rightarrow> target_resolution" where
  [model_defs]: "new_resolution t new_id endpoint as_of =
     (let midpoint = map_option endpoint_midpoint endpoint;
          change = map_option (\<lambda>m. rnd28 (m - tg_reference_midpoint t)) midpoint
      in \<lparr>tr_id = new_id,
          tr_outcome = (case change of None \<Rightarrow> ResolutionMissing | Some d \<Rightarrow> Scored (classify_change d (tg_neutral_band t))),
          tr_horizon = endpoint, tr_midpoint = midpoint, tr_change = change, tr_resolved_at = as_of\<rparr>)"

definition resolve_target ::
  "zone \<Rightarrow> market_row list \<Rightarrow> target \<Rightarrow> int \<Rightarrow> target_resolution option \<Rightarrow> instant \<Rightarrow> target_reply option" where
  [model_defs]: "resolve_target z rows t new_id existing as_of =
     (case existing of
        Some r \<Rightarrow> Some (if tr_resolved_at r \<le> as_of then Existing r else NotResolved)
      | None \<Rightarrow>
          (case endpoint_of z t of
             None \<Rightarrow> None
           | Some endpoint \<Rightarrow>
               Some (if as_of < the (registered_candle_completion z endpoint GD) then NotResolved
                     else Created (new_resolution t new_id (eligible_endpoint z rows t as_of) as_of))))"

text \<open>\<^verbatim>\<open>validate_resolution\<close>, which \<^verbatim>\<open>TargetResolution.save\<close> runs; \<open>True\<close> when nothing is raised.\<close>

definition scored_endpoint_matches :: "zone \<Rightarrow> target \<Rightarrow> target_resolution \<Rightarrow> outcome \<Rightarrow> bool" where
  [model_defs]: "scored_endpoint_matches z t r label \<longleftrightarrow>
     (case (tr_horizon r, tr_midpoint r, tr_change r) of
        (Some c, Some m, Some d) \<Rightarrow>
          mr_complete c \<and> mr_run_succeeded c \<and> finished_by (mr_run_finished c) (tr_resolved_at r)
          \<and> mr_instrument c = tg_instrument t \<and> mr_granularity c = GD
          \<and> endpoint_of z t = Some (mr_timestamp c)
          \<and> \<not> tr_resolved_at r < the (registered_candle_completion z (mr_timestamp c) GD)
          \<and> m = endpoint_midpoint c \<and> d = rnd28 (m - tg_reference_midpoint t)
          \<and> label = classify_change d (tg_neutral_band t)
      | _ \<Rightarrow> False)"

definition validate_resolution :: "zone \<Rightarrow> market_row list \<Rightarrow> target \<Rightarrow> target_resolution \<Rightarrow> bool" where
  [model_defs]: "validate_resolution z rows t r \<longleftrightarrow>
     (case tr_outcome r of
        Scored label \<Rightarrow> scored_endpoint_matches z t r label
      | _ \<Rightarrow>
          tr_horizon r = None \<and> tr_midpoint r = None \<and> tr_change r = None
          \<and> (tr_outcome r = ResolutionMissing \<longrightarrow>
               (\<exists>endpoint \<in> set_option (endpoint_of z t).
                  \<not> tr_resolved_at r < the (registered_candle_completion z endpoint GD))
               \<and> eligible_endpoint z rows t (tr_resolved_at r) = None))"

text \<open>\<^verbatim>\<open>derive_resolution\<close>: what a prediction takes over from the shared resolution.\<close>

record derived =
  dv_outcome :: resolution_outcome
  dv_hit :: "bool option"
  dv_brier :: "decimal option"

definition derive_resolution ::
  "target_resolution \<Rightarrow> rec_action \<Rightarrow> decimal \<Rightarrow> decimal \<Rightarrow> decimal \<Rightarrow> derived" where
  [model_defs]: "derive_resolution shared action up neutral down =
     (case tr_outcome shared of
        Scored label \<Rightarrow>
          \<lparr>dv_outcome = Scored label,
           dv_hit = (if action = Abstain then None else Some (label = (if action = Buy then OutcomeUp else OutcomeDown))),
           dv_brier = Some (multiclass_brier up neutral down label)\<rparr>
      | other \<Rightarrow> \<lparr>dv_outcome = other, dv_hit = None, dv_brier = None\<rparr>)"

section \<open>A target has one valid outcome\<close>

lemma eligible_endpoint_Some:
  assumes "eligible_endpoint z rows t as_of = Some c"
  shows "\<exists>endpoint. endpoint_of z t = Some endpoint \<and> is_endpoint t endpoint as_of c
    \<and> \<not> as_of < the (registered_candle_completion z endpoint GD)"
  using assms by (auto simp: eligible_endpoint_def find_Some_iff split: option.splits if_splits)

text \<open>A resolution that \<^verbatim>\<open>resolve_target\<close> creates always passes the validation of its own
  table: it is scored exactly when an eligible endpoint candle was known by then, from that candle
  and no other, it is missing only at or after maturity without one, and from then on every later
  resolution of the target is this very row, whatever candles arrive.\<close>

lemma created_resolution_is_valid:
  assumes "resolve_target z rows t new_id existing as_of = Some (Created r)"
  shows "validate_resolution z rows t r \<and> tr_resolved_at r = as_of \<and> tr_horizon r = eligible_endpoint z rows t as_of
    \<and> (\<forall>rows' new_id' later. as_of \<le> later \<longrightarrow> resolve_target z rows' t new_id' (Some r) later = Some (Existing r))"
proof -
  obtain endpoint where e: "endpoint_of z t = Some endpoint"
    "\<not> as_of < the (registered_candle_completion z endpoint GD)"
    and r: "r = new_resolution t new_id (eligible_endpoint z rows t as_of) as_of"
    using assms by (auto simp: resolve_target_def split: option.splits if_splits)
  have "tr_resolved_at r = as_of" by (simp add: r new_resolution_def Let_def)
  then have final: "as_of \<le> later \<Longrightarrow> resolve_target z rows' t new_id' (Some r) later = Some (Existing r)"
    for rows' new_id' later by (simp add: resolve_target_def)
  show ?thesis
  proof (cases "eligible_endpoint z rows t as_of")
    case None
    then show ?thesis using e r final by (simp add: new_resolution_def validate_resolution_def Let_def)
  next
    case (Some c)
    then show ?thesis using eligible_endpoint_Some [OF Some] e r final
      by (auto simp: new_resolution_def validate_resolution_def scored_endpoint_matches_def is_endpoint_def Let_def)
  qed
qed

definition sample_target :: target where
  [model_defs]: "sample_target = \<lparr>tg_occurrence = \<lparr>to_id = 1, to_reference_at = hours 22, to_horizon = 1\<rparr>,
     tg_instrument = 1, tg_reference_midpoint = 1, tg_neutral_band = 1 / 10\<rparr>"

end
