(* ===== verification/Costs.thy ===== *)
theory Costs
  imports Fills
begin

text \<open>
  \<^verbatim>\<open>forecasts/costs.py\<close>: financing days crossed at the New York rollover, their range under the
  hour ambiguity of entry and exit, and the three cost scenarios of a paper result. A division by
  a zero risk, where Decimal raises, is \<open>None\<close>. The texts of the details are not modelled.
\<close>

definition pip_size :: decimal where [model_defs]: "pip_size = 1 / 10000"

section \<open>Financing days\<close>

definition date_of :: "zone \<Rightarrow> instant \<Rightarrow> int" where
  [model_defs]: "date_of z t = to_local z t div days 1"

text \<open>The body of the loop for one date: the days charged at its rollover.\<close>

definition rollover_of :: "zone \<Rightarrow> int \<Rightarrow> instant" where
  [model_defs]: "rollover_of z d = to_utc z (d * days 1 + hours 17)"

definition rollover_days :: "int \<Rightarrow> nat" where
  [model_defs]: "rollover_days d =
     (let wd = weekday (d * days 1) in if wd < 5 then (if wd = 2 then 3 else 1) else 0)"

definition charged_days :: "zone \<Rightarrow> instant \<Rightarrow> instant \<Rightarrow> int \<Rightarrow> nat" where
  [model_defs]: "charged_days z start finish d =
     (if start < rollover_of z d \<and> rollover_of z d < finish then rollover_days d else 0)"

definition financing_days_between :: "zone \<Rightarrow> instant \<Rightarrow> instant \<Rightarrow> nat" where
  [model_defs]: "financing_days_between z start finish =
     (if finish \<le> start then 0
      else sum_list (map (charged_days z start finish) [date_of z start..date_of z finish]))"

text \<open>\<^verbatim>\<open>financing_day_range\<close>: \<open>exit_at\<close> is the exit candle's start, or nothing when the trade expired
  at the close of the horizon session.\<close>

definition financing_day_range ::
  "zone \<Rightarrow> instant \<Rightarrow> bool \<Rightarrow> instant option \<Rightarrow> instant \<Rightarrow> nat \<times> nat" where
  [model_defs]: "financing_day_range z entry_start entry_at_open exit_at horizon_start =
     (let entry_end = (if entry_at_open then entry_start else entry_start + hours 1);
          exit_start = (case exit_at of None \<Rightarrow> session_close_of z horizon_start | Some t \<Rightarrow> t);
          exit_end = (case exit_at of None \<Rightarrow> session_close_of z horizon_start | Some t \<Rightarrow> t + hours 1)
      in (financing_days_between z entry_end exit_start, financing_days_between z entry_start exit_end))"

section \<open>Scenarios\<close>

datatype scenario = Optimistic | Base | Conservative

fun annual_financing_rate :: "scenario \<Rightarrow> decimal" where
  "annual_financing_rate Optimistic = 0"
| "annual_financing_rate Base = 3 / 100"
| "annual_financing_rate Conservative = 6 / 100"

fun commission_pips :: "scenario \<Rightarrow> decimal" where
  "commission_pips Optimistic = 0"
| "commission_pips Base = 1 / 2"
| "commission_pips Conservative = 1"

record cost_assessment =
  ca_minimum_days :: nat
  ca_maximum_days :: nat
  ca_net_pips :: "scenario \<Rightarrow> decimal"
  ca_net_r :: "scenario \<Rightarrow> decimal"

definition financing_pips :: "decimal \<Rightarrow> scenario \<Rightarrow> nat \<Rightarrow> decimal" where
  [model_defs]: "financing_pips fill_price s n =
     rnd28 (rnd28 (rnd28 (rnd28 (fill_price * annual_financing_rate s) * of_nat n) / 365) / pip_size)"

definition scenario_net_pips :: "decimal \<Rightarrow> decimal \<Rightarrow> nat \<times> nat \<Rightarrow> scenario \<Rightarrow> decimal" where
  [model_defs]: "scenario_net_pips fill_price gross_pips day_range s =
     (let n = (if s = Conservative then snd day_range else fst day_range);
          total_cost_pips = rnd28 (financing_pips fill_price s n + commission_pips s)
      in quantize 3 (rnd28 (gross_pips - total_cost_pips)))"

definition assess_costs ::
  "decimal \<Rightarrow> decimal \<Rightarrow> decimal \<Rightarrow> nat \<times> nat \<Rightarrow> cost_assessment option" where
  [model_defs]: "assess_costs fill_price invalidation gross_pips day_range =
     (let risk_pips = rnd28 (\<bar>rnd28 (fill_price - invalidation)\<bar> / pip_size) in
      if risk_pips = 0 then None
      else Some \<lparr>ca_minimum_days = fst day_range, ca_maximum_days = snd day_range,
        ca_net_pips = scenario_net_pips fill_price gross_pips day_range,
        ca_net_r = (\<lambda>s. quantize 4 (rnd28 (scenario_net_pips fill_price gross_pips day_range s / risk_pips)))\<rparr>)"

text \<open>\<^verbatim>\<open>PaperTradeCostAssessment.clean\<close>.\<close>

definition cost_assessment_valid :: "cost_assessment \<Rightarrow> bool" where
  [model_defs]: "cost_assessment_valid a \<longleftrightarrow> ca_minimum_days a \<le> ca_maximum_days a
     \<and> ca_net_pips a Base \<le> ca_net_pips a Optimistic \<and> ca_net_pips a Conservative \<le> ca_net_pips a Base
     \<and> ca_net_r a Base \<le> ca_net_r a Optimistic \<and> ca_net_r a Conservative \<le> ca_net_r a Base"

section \<open>The scenarios are ordered\<close>

text \<open>What the day range relies on: a later instant never has an earlier New York date. The clock
  is set back at 02:00, so no date is ever repeated.\<close>

definition date_monotone :: "zone \<Rightarrow> bool" where
  "date_monotone z \<longleftrightarrow> (\<forall>s t. s \<le> t \<longrightarrow> date_of z s \<le> date_of z t)"

lemma date_monotone_fixed_zone: "date_monotone (fixed_zone off)"
  by (simp add: date_monotone_def date_of_def fixed_zone_def zdiv_mono1 duration_defs)

lemma charged_days_mono:
  "start' \<le> start \<Longrightarrow> finish \<le> finish' \<Longrightarrow> charged_days z start finish d \<le> charged_days z start' finish' d"
  by (simp add: charged_days_def)

lemma sum_list_upto: "sum_list (map f [a..b]) = sum f {a..b :: int}"
  by (simp add: sum_list_distinct_conv_sum_set)

lemma financing_days_mono:
  assumes "date_monotone z" "start' \<le> start" "finish \<le> finish'"
  shows "financing_days_between z start finish \<le> financing_days_between z start' finish'"
proof (cases "finish \<le> start")
  case False
  have "date_of z start' \<le> date_of z start" "date_of z finish \<le> date_of z finish'"
    using assms by (auto simp: date_monotone_def)
  then have "sum (charged_days z start finish) {date_of z start..date_of z finish}
      \<le> sum (charged_days z start finish) {date_of z start'..date_of z finish'}"
    by (intro sum_mono2) auto
  also have "\<dots> \<le> sum (charged_days z start' finish') {date_of z start'..date_of z finish'}"
    by (intro sum_mono charged_days_mono assms)
  finally show ?thesis using False assms by (simp add: financing_days_between_def sum_list_upto)
qed (simp add: financing_days_between_def)

lemma financing_day_range_ordered:
  "date_monotone z \<Longrightarrow> fst (financing_day_range z entry at_open exit_at h) \<le> snd (financing_day_range z entry at_open exit_at h)"
  by (auto simp: financing_day_range_def Let_def hours_def minutes_def seconds_def
      split: option.split intro!: financing_days_mono)

lemma financing_pips_mono:
  assumes "0 \<le> fill_price" "annual_financing_rate s \<le> annual_financing_rate s'" "m \<le> n"
  shows "financing_pips fill_price s m \<le> financing_pips fill_price s' n"
proof -
  have "0 \<le> annual_financing_rate s" by (cases s) simp_all
  then show ?thesis unfolding financing_pips_def pip_size_def using assms
    by (intro ctx28.rnd_mono divide_right_mono mult_mono ctx28.rnd_nonneg mult_left_mono mult_nonneg_nonneg) auto
qed

lemma scenario_net_pips_antimono:
  assumes "0 \<le> fill_price" "fst r \<le> snd r" "annual_financing_rate s \<le> annual_financing_rate s'"
    "commission_pips s \<le> commission_pips s'" "s = Conservative \<longrightarrow> s' = Conservative"
  shows "scenario_net_pips fill_price gross_pips r s' \<le> scenario_net_pips fill_price gross_pips r s"
  unfolding scenario_net_pips_def Let_def using assms
  by (intro quantize_mono ctx28.rnd_mono diff_left_mono add_mono financing_pips_mono) auto

text \<open>The assessment of a paper result is always storable: on a zone whose dates never run
  backwards, with a fill price that is not negative, the day range is ordered and the three
  scenarios are ordered from optimistic to conservative, in pips and in multiples of the risk, so
  the model's own validation never rejects it.\<close>

lemma cost_scenarios_are_ordered:
  assumes "date_monotone z" "0 \<le> fill_price"
    and "assess_costs fill_price invalidation gross_pips (financing_day_range z entry at_open exit_at h) = Some a"
  shows "cost_assessment_valid a"
proof -
  let ?r = "financing_day_range z entry at_open exit_at h"
  let ?net = "scenario_net_pips fill_price gross_pips ?r"
  define risk where "risk = rnd28 (\<bar>rnd28 (fill_price - invalidation)\<bar> / pip_size)"
  have r: "fst ?r \<le> snd ?r" using assms(1) by (rule financing_day_range_ordered)
  have net: "?net Base \<le> ?net Optimistic" "?net Conservative \<le> ?net Base"
    by (rule scenario_net_pips_antimono [OF assms(2) r]; simp)+
  have "0 \<le> risk" by (simp add: risk_def pip_size_def)
  then have "quantize 4 (rnd28 (x / risk)) \<le> quantize 4 (rnd28 (y / risk))" if "x \<le> y" for x y
    using that by (intro quantize_mono ctx28.rnd_mono divide_right_mono) auto
  then show ?thesis using assms(3) net r
    by (auto simp: assess_costs_def cost_assessment_valid_def Let_def risk_def split: if_splits)
qed

end
