(* ===== verification/Paper.thy ===== *)
theory Paper
  imports Targets Costs
begin

text \<open>
  \<^verbatim>\<open>resolve_paper_trade\<close> of \<^verbatim>\<open>forecasts/paper.py\<close> over the rows of one recommendation: the entry, the
  result, the state chain, the paper facts, the shared target resolution and the cost assessment.
  Audit events and the texts of the details are not modelled. An exception is \<open>Inl\<close> of an error:
  the transaction is rolled back. The set of currently admitted recommendations is a parameter.
\<close>

record paper_store =
  st_entry :: "paper_entry option"
  st_result :: "paper_result option"
  st_chain :: "lifecycle_event list"
  st_facts :: "paper_fact list"
  st_admissions :: "admission list"
  st_cohort :: "cohort option"
  st_resolution :: "target_resolution option"
  st_costs :: "cost_assessment option"
  st_next_id :: int

datatype paper_error =
    LifecycleRefused lifecycle_error | FactBeforeRecommendation | ExpiryRefused lifecycle_error | NegativeOpenSpread
  | ZeroRisk | CostsRefused | NoHorizonSessions | InvalidTarget

datatype paper_reply = NoRecord | EntryRecord paper_entry | ResultRecord paper_result

text \<open>The environment of a call.\<close>

record paper_env =
  en_zone :: zone
  en_digest :: key_digest
  en_tables :: tables
  en_admitted :: bool
  en_target :: "target option"
  en_now :: instant

definition facts_of :: "paper_store \<Rightarrow> rec_facts" where
  [model_defs]: "facts_of st = \<lparr>rf_entry = st_entry st, rf_result = st_result st, rf_admissions = st_admissions st,
     rf_cohort = st_cohort st, rf_chain = st_chain st, rf_paper_facts = st_facts st\<rparr>"

definition fresh :: "paper_store \<Rightarrow> int \<times> paper_store" where
  [model_defs]: "fresh st = (st_next_id st, st\<lparr>st_next_id := st_next_id st + 1\<rparr>)"

section \<open>Recording the lifecycle\<close>

fun desired_state :: "paper_state \<Rightarrow> paper_store \<Rightarrow> lifecycle_state" where
  "desired_state PaperEntered st = Entered"
| "desired_state PaperExpiredUnobserved st = ExpiredUnobserved"
| "desired_state PaperMissingData st = MissingData"
| "desired_state PaperCancelled st = CancelledState"
| "desired_state PaperClosed st =
     (case st_result st of None \<Rightarrow> LegacyUnadjudicated | Some p \<Rightarrow> result_state (pr_outcome p))"
| "desired_state _ st = LegacyUnadjudicated"

text \<open>\<^verbatim>\<open>PaperLifecycleEvent.objects.get_or_create\<close> for a state, with the validation of a new row.\<close>

definition record_fact ::
  "paper_env \<Rightarrow> recommendation \<Rightarrow> paper_state \<Rightarrow> string \<Rightarrow> int option \<Rightarrow> instant \<Rightarrow> paper_store
     \<Rightarrow> paper_error + (paper_fact \<times> paper_store)" where
  [model_defs]: "record_fact env r state reason resolution occurred st =
     (case List.find (\<lambda>f. pf_state f = state) (st_facts st) of
        Some f \<Rightarrow> Inr (f, st)
      | None \<Rightarrow>
          (let (new_id, st) = fresh st;
               f = \<lparr>pf_id = new_id, pf_recommendation = rec_id r, pf_state = state, pf_reason = reason,
                    pf_schema = (if rec_version r = 4 then Some 1 else None), pf_resolution = resolution,
                    pf_occurred_at = occurred\<rparr>
           in if occurred < rec_generated_at r then Inl FactBeforeRecommendation
              else (case validate_coverage_fact (en_zone env) (en_tables env) r (st_entry st) (st_resolution st) f of
                      Some e \<Rightarrow> Inl (LifecycleRefused e)
                    | None \<Rightarrow> Inr (f, st\<lparr>st_facts := st_facts st @ [f]\<rparr>))))"

text \<open>The source of the event: the coverage fact, the entry or the result.\<close>

definition lifecycle_source ::
  "paper_env \<Rightarrow> recommendation \<Rightarrow> paper_state \<Rightarrow> string \<Rightarrow> int option \<Rightarrow> paper_store
     \<Rightarrow> paper_error + (event_source \<times> paper_store)" where
  [model_defs]: "lifecycle_source env r state reason resolution st =
     (if state \<in> {PaperExpiredUnobserved, PaperMissingData, PaperCancelled}
      then (case record_fact env r state reason resolution (en_now env) st of
              Inl e \<Rightarrow> Inl e
            | Inr (f, st) \<Rightarrow> Inr (FromFact f, st))
      else Inr (case (state, st_entry st, st_result st) of
                  (PaperEntered, Some e, _) \<Rightarrow> FromEntry (pe_id e)
                | (PaperClosed, _, Some p) \<Rightarrow> FromResult p
                | _ \<Rightarrow> FromRecommendation (rec_id r), st))"

definition record_lifecycle ::
  "paper_env \<Rightarrow> recommendation \<Rightarrow> paper_state \<Rightarrow> string \<Rightarrow> int option \<Rightarrow> paper_store \<Rightarrow> paper_error + paper_store" where
  [model_defs]: "record_lifecycle env r state reason resolution st =
     (if rec_version r = 4
      then (case lifecycle_source env r state reason resolution st of
              Inl e \<Rightarrow> Inl e
            | Inr (source, st) \<Rightarrow>
                (case transition (en_digest env) (en_zone env) (en_tables env) (en_now env) r (st_entry st)
                        (st_resolution st) (st_chain st) (desired_state state st)
                        (if reason = '''' then ''paper_fact'' else reason) source None of
                   Inl e \<Rightarrow> Inl (LifecycleRefused e)
                 | Inr (event, chain) \<Rightarrow> Inr (st\<lparr>st_chain := chain\<rparr>)))
      else (case record_fact env r state reason resolution (max (en_now env) (rec_generated_at r)) st of
              Inl e \<Rightarrow> Inl e
            | Inr (f, st) \<Rightarrow> Inr st))"

section \<open>Results\<close>

definition signed_change :: "rec_action \<Rightarrow> decimal \<Rightarrow> decimal \<Rightarrow> decimal" where
  [model_defs]: "signed_change action fill_price exit_price =
     (if action = Buy then rnd28 (exit_price - fill_price) else rnd28 (fill_price - exit_price))"

definition gross_pips_of :: "decimal \<Rightarrow> decimal" where
  [model_defs]: "gross_pips_of change = quantize 3 (rnd28 (change / pip_size))"

definition r_multiple_of :: "decimal \<Rightarrow> decimal \<Rightarrow> decimal" where
  [model_defs]: "r_multiple_of change risk = quantize 4 (rnd28 (change / risk))"

text \<open>\<^verbatim>\<open>create_cost_assessment\<close> of a result with an entry.\<close>

definition create_cost_assessment ::
  "zone \<Rightarrow> recommendation \<Rightarrow> paper_entry \<Rightarrow> paper_result \<Rightarrow> paper_store \<Rightarrow> paper_error + paper_store" where
  [model_defs]: "create_cost_assessment z r entry p st =
     (case st_costs st of
        Some c \<Rightarrow> Inr st
      | None \<Rightarrow>
          (case assess_costs (pe_fill_price entry) (su_invalidation (rec_setup r)) (the (pr_gross_pips p))
                  (financing_day_range z (mr_timestamp (pe_candle entry)) (pe_at_open entry)
                     (if pr_outcome p = OutExpired then None else map_option mr_timestamp (pr_exit p))
                     (case pr_horizon p of None \<Rightarrow> 0 | Some h \<Rightarrow> mr_timestamp h)) of
             None \<Rightarrow> Inl ZeroRisk
           | Some c \<Rightarrow> if cost_assessment_valid c then Inr (st\<lparr>st_costs := Some c\<rparr>) else Inl CostsRefused))"

definition create_result ::
  "paper_env \<Rightarrow> recommendation \<Rightarrow> paper_entry \<Rightarrow> paper_outcome \<Rightarrow> market_row \<Rightarrow> decimal \<Rightarrow> market_row option
     \<Rightarrow> bool \<Rightarrow> bool \<Rightarrow> paper_store \<Rightarrow> paper_error + (paper_reply \<times> paper_store)" where
  [model_defs]: "create_result env r entry out exit_candle exit_price horizon ambiguous on_entry st =
     (let exit_price = quantize 6 exit_price;
          change = signed_change (rec_action r) (pe_fill_price entry) exit_price;
          risk = \<bar>rnd28 (pe_fill_price entry - su_invalidation (rec_setup r))\<bar>;
          (new_id, st) = fresh st;
          p = \<lparr>pr_id = new_id, pr_recommendation = rec_id r, pr_entry = Some entry, pr_outcome = out,
               pr_horizon = horizon, pr_exit = Some exit_candle, pr_exit_price = Some exit_price,
               pr_gross_pips = Some (gross_pips_of change), pr_r_multiple = Some (r_multiple_of change risk),
               pr_ambiguous = ambiguous, pr_on_entry_candle = on_entry, pr_resolved_at = en_now env\<rparr>
      in if risk = 0 then Inl ZeroRisk
         else
           (case (if rec_version r = 4 \<and> out = OutExpired then validate_expiry_result (en_zone env) (en_tables env) r p else None) of
              Some e \<Rightarrow> Inl (ExpiryRefused e)
            | None \<Rightarrow>
                (case record_lifecycle env r PaperClosed '''' None (st\<lparr>st_result := Some p\<rparr>) of
                   Inl e \<Rightarrow> Inl e
                 | Inr st \<Rightarrow>
                     (case create_cost_assessment (en_zone env) r entry p st of
                        Inl e \<Rightarrow> Inl e
                      | Inr st \<Rightarrow> Inr (ResultRecord p, st)))))"

section \<open>Scanning the candles\<close>

text \<open>The first candle that fills the entry, with the fill and the candles after it.\<close>

fun entry_scan :: "rec_action \<Rightarrow> trade_setup \<Rightarrow> market_row list \<Rightarrow> (market_row \<times> bool \<times> decimal \<times> market_row list) option" where
  "entry_scan action s [] = None"
| "entry_scan action s (c # cs) =
     (case entry_fill action s c of
        Some (at_open, price) \<Rightarrow> Some (c, at_open, price, cs)
      | None \<Rightarrow> entry_scan action s cs)"

text \<open>The first candle that touches a barrier after the entry; a stop has precedence.\<close>

fun exit_scan :: "rec_action \<Rightarrow> trade_setup \<Rightarrow> market_row list \<Rightarrow> (paper_outcome \<times> market_row \<times> decimal \<times> bool) option" where
  "exit_scan action s [] = None"
| "exit_scan action s (c # cs) =
     (let (target_hit, stop_hit) = exit_touches action s c in
      if stop_hit then Some (OutInvalidated, c, stop_fill action s c, target_hit)
      else if target_hit then Some (OutTarget, c, su_target s, False)
      else exit_scan action s cs)"

text \<open>The candles after the entry candle, all of them when it is not among them.\<close>

definition after_entry :: "paper_entry \<Rightarrow> market_row list \<Rightarrow> market_row list" where
  [model_defs]: "after_entry e candles =
     (case find_index (\<lambda>c. mr_id c = mr_id (pe_candle e)) candles of
        None \<Rightarrow> candles
      | Some i \<Rightarrow> drop (i + 1) candles)"

section \<open>Resolution\<close>

definition horizon_candle :: "paper_env \<Rightarrow> recommendation \<Rightarrow> paper_error + market_row option" where
  [model_defs]: "horizon_candle env r =
     (let daily = filter (\<lambda>c. mr_instrument c = rec_instrument r \<and> mr_granularity c = GD \<and> mr_complete c)
            (tb_candles (en_tables env))
      in case rec_target r of
           Some t \<Rightarrow>
             (case target_endpoint (en_zone env) (to_reference_at t) (to_horizon t) of
                None \<Rightarrow> Inl InvalidTarget
              | Some endpoint \<Rightarrow>
                  Inr (List.find (\<lambda>c. mr_timestamp c = endpoint \<and> finished_by (mr_run_finished c) (en_now env)) daily))
         | None \<Rightarrow>
             (let later = take (rec_expires_after r) (sort_key mr_timestamp
                    (filter (\<lambda>c. rec_reference_at r < mr_timestamp c \<and> mr_run_succeeded c) daily))
              in if rec_expires_after r = 0 then Inl NoHorizonSessions
                 else Inr (if length later = rec_expires_after r then Some (last later) else None)))"

definition trade_candles :: "paper_env \<Rightarrow> recommendation \<Rightarrow> instant option \<Rightarrow> market_row list" where
  [model_defs]: "trade_candles env r expires_at =
     sort_key mr_timestamp
       (filter (\<lambda>c. mr_instrument c = rec_instrument r \<and> mr_granularity c = GH1 \<and> rec_generated_at r \<le> mr_timestamp c
          \<and> (if rec_version r = 4
             then mr_complete c \<and> mr_run_succeeded c \<and> finished_by (mr_run_finished c) (en_now env)
               \<and> mr_timestamp c \<le> min (en_now env) (case expires_at of None \<Rightarrow> en_now env | Some t \<Rightarrow> t) - hours 1
             else (case expires_at of None \<Rightarrow> True | Some t \<Rightarrow> mr_timestamp c \<le> t - hours 1)))
         (tb_candles (en_tables env)))"

definition entry_reply :: "bool \<Rightarrow> paper_store \<Rightarrow> paper_reply" where
  [model_defs]: "entry_reply created st =
     (if created then (case st_entry st of None \<Rightarrow> NoRecord | Some e \<Rightarrow> EntryRecord e) else NoRecord)"

text \<open>A lifecycle record that is made only under a condition.\<close>

definition record_when ::
  "bool \<Rightarrow> paper_env \<Rightarrow> recommendation \<Rightarrow> paper_state \<Rightarrow> string \<Rightarrow> int option \<Rightarrow> paper_store \<Rightarrow> paper_error + paper_store" where
  [model_defs]: "record_when condition env r state reason resolution st =
     (if condition then record_lifecycle env r state reason resolution st else Inr st)"

text \<open>The new entry at a candle.\<close>

definition enter_trade ::
  "paper_env \<Rightarrow> recommendation \<Rightarrow> market_row \<Rightarrow> bool \<Rightarrow> decimal \<Rightarrow> paper_store \<Rightarrow> paper_error + (paper_entry \<times> paper_store)" where
  [model_defs]: "enter_trade env r c at_open price st =
     (let (target_hit, stop_hit) = exit_touches (rec_action r) (rec_setup r) c;
          spread = quantize 6 (rnd28 (q_ask_open c - q_bid_open c));
          (new_id, st) = fresh st;
          e = \<lparr>pe_id = new_id, pe_candle = c, pe_fill_price = price, pe_open_spread = spread, pe_at_open = at_open,
               pe_target_ignored = (target_hit \<and> \<not> stop_hit \<and> \<not> at_open), pe_entered_at = en_now env\<rparr>
      in if spread < 0 then Inl NegativeOpenSpread
         else (case record_lifecycle env r PaperEntered '''' None (st\<lparr>st_entry := Some e\<rparr>) of
                 Inl x \<Rightarrow> Inl x
               | Inr st \<Rightarrow> Inr (e, st)))"

text \<open>The exit on the entry candle itself: the stop at once, the target only when the trade was
  entered at the open.\<close>

definition exit_on_entry ::
  "paper_env \<Rightarrow> recommendation \<Rightarrow> market_row option \<Rightarrow> paper_entry \<Rightarrow> paper_store
     \<Rightarrow> (paper_error + (paper_reply \<times> paper_store)) option" where
  [model_defs]: "exit_on_entry env r horizon e st =
     (let c = pe_candle e; (target_hit, stop_hit) = exit_touches (rec_action r) (rec_setup r) c in
      if stop_hit then Some (create_result env r e OutInvalidated c (stop_fill (rec_action r) (rec_setup r) c) horizon
                               target_hit True st)
      else if target_hit \<and> pe_at_open e
      then Some (create_result env r e OutTarget c (su_target (rec_setup r)) horizon False True st)
      else None)"

text \<open>The end of the function, when no barrier decided the trade.\<close>

definition not_activated ::
  "paper_env \<Rightarrow> recommendation \<Rightarrow> market_row \<Rightarrow> paper_store \<Rightarrow> paper_error + (paper_reply \<times> paper_store)" where
  [model_defs]: "not_activated env r horizon st =
     (let (new_id, st) = fresh st;
          p = \<lparr>pr_id = new_id, pr_recommendation = rec_id r, pr_entry = None, pr_outcome = OutNotActivated,
               pr_horizon = Some horizon, pr_exit = None, pr_exit_price = None, pr_gross_pips = None,
               pr_r_multiple = None, pr_ambiguous = False, pr_on_entry_candle = False, pr_resolved_at = en_now env\<rparr>
      in case (if rec_version r = 4 then validate_expiry_result (en_zone env) (en_tables env) r p else None) of
           Some e \<Rightarrow> Inl (ExpiryRefused e)
         | None \<Rightarrow>
             (case record_lifecycle env r PaperClosed '''' None (st\<lparr>st_result := Some p\<rparr>) of
                Inl e \<Rightarrow> Inl e
              | Inr st \<Rightarrow> Inr (ResultRecord p, st)))"

definition unobserved ::
  "paper_env \<Rightarrow> recommendation \<Rightarrow> market_row option \<Rightarrow> instant option \<Rightarrow> bool \<Rightarrow> paper_store
     \<Rightarrow> paper_error + (paper_reply \<times> paper_store)" where
  [model_defs]: "unobserved env r horizon expires_at created st =
     (case record_when (horizon = None \<and> rec_generated_at r + days 14 < en_now env) env r PaperMissingData
             ''daily_horizon_unavailable'' None st of
        Inl e \<Rightarrow> Inl e
      | Inr st \<Rightarrow>
          (case record_when (\<exists>t \<in> set_option expires_at. t + (if rec_version r = 4 then 0 else hours 24) \<le> en_now env)
                  env r (if rec_version r = 4 \<and> st_entry st \<noteq> None then PaperMissingData else PaperExpiredUnobserved)
                  ''hourly_coverage_unavailable'' None st of
             Inl e \<Rightarrow> Inl e
           | Inr st \<Rightarrow> Inr (entry_reply created st, st)))"

definition close_out ::
  "paper_env \<Rightarrow> recommendation \<Rightarrow> market_row option \<Rightarrow> instant option \<Rightarrow> market_row list \<Rightarrow> target_resolution option
     \<Rightarrow> bool \<Rightarrow> paper_store \<Rightarrow> paper_error + (paper_reply \<times> paper_store)" where
  [model_defs]: "close_out env r horizon expires_at candles shared created st =
     (case filter_option (\<lambda>t. tr_outcome t = ResolutionMissing) shared of
        Some t \<Rightarrow>
          (case record_lifecycle env r PaperMissingData ''daily_horizon_unavailable'' (Some (tr_id t)) st of
             Inl e \<Rightarrow> Inl e
           | Inr st \<Rightarrow> Inr (entry_reply created st, st))
      | None \<Rightarrow>
          (case (horizon, expires_at) of
             (Some h, Some t) \<Rightarrow>
               if \<not> has_coverage (en_zone env) (tb_runs (en_tables env)) r t candles (en_now env)
               then unobserved env r horizon expires_at created st
               else (case st_entry st of
                       None \<Rightarrow> not_activated env r h st
                     | Some e \<Rightarrow> create_result env r e OutExpired h
                         (if rec_action r = Buy then q_bid_close h else q_ask_close h) horizon False False st)
           | _ \<Rightarrow> unobserved env r horizon expires_at created st))"

text \<open>The decision over the candles, from the entry on.\<close>

definition decide_trade ::
  "paper_env \<Rightarrow> recommendation \<Rightarrow> market_row option \<Rightarrow> instant option \<Rightarrow> market_row list \<Rightarrow> target_resolution option
     \<Rightarrow> paper_store \<Rightarrow> paper_error + (paper_reply \<times> paper_store)" where
  [model_defs]: "decide_trade env r horizon expires_at candles shared st =
     (let continue = (\<lambda>e rest created st.
            case exit_scan (rec_action r) (rec_setup r) rest of
              Some (out, c, price, ambiguous) \<Rightarrow> create_result env r e out c price horizon ambiguous False st
            | None \<Rightarrow> close_out env r horizon expires_at candles shared created st)
      in case st_entry st of
           Some e \<Rightarrow> continue e (after_entry e candles) False st
         | None \<Rightarrow>
             (case entry_scan (rec_action r) (rec_setup r) candles of
                None \<Rightarrow> close_out env r horizon expires_at candles shared False st
              | Some (c, at_open, price, rest) \<Rightarrow>
                  (case enter_trade env r c at_open price st of
                     Inl x \<Rightarrow> Inl x
                   | Inr (e, st) \<Rightarrow>
                       (case exit_on_entry env r horizon e st of
                          Some result \<Rightarrow> result
                        | None \<Rightarrow> continue e rest True st))))"

text \<open>The gap in the hourly evidence.\<close>

definition uncovered :: "paper_env \<Rightarrow> recommendation \<Rightarrow> market_row list \<Rightarrow> bool" where
  [model_defs]: "uncovered env r candles \<longleftrightarrow>
     candles \<noteq> [] \<and> \<not> has_coverage (en_zone env) (tb_runs (en_tables env)) r (mr_timestamp (last candles) + hours 1)
       candles (en_now env)"

text \<open>The shared resolution of contract 4, with the expiry of the target.\<close>

definition share_target :: "paper_env \<Rightarrow> recommendation \<Rightarrow> paper_store \<Rightarrow> paper_error + (target_resolution option \<times> instant option \<times> paper_store)" where
  [model_defs]: "share_target env r st =
     (case (en_target env, target_maturity (en_zone env) (rec_target r)) of
        (Some t, Some maturity) \<Rightarrow>
          (case resolve_target (en_zone env) (tb_candles (en_tables env)) t (st_next_id st) (st_resolution st) (en_now env) of
             None \<Rightarrow> Inl InvalidTarget
           | Some NotResolved \<Rightarrow> Inr (None, Some maturity, st)
           | Some (Existing s) \<Rightarrow> Inr (Some s, Some maturity, st)
           | Some (Created s) \<Rightarrow>
               Inr (Some s, Some maturity, st\<lparr>st_resolution := Some s, st_next_id := st_next_id st + 1\<rparr>))
      | _ \<Rightarrow> Inl InvalidTarget)"

definition may_resolve :: "paper_env \<Rightarrow> recommendation \<Rightarrow> paper_store \<Rightarrow> bool" where
  [model_defs]: "may_resolve env r st \<longleftrightarrow>
     rec_version r \<in> {2, 3, 4} \<and> rec_action r \<noteq> Abstain \<and> en_admitted env \<and>
     (if rec_version r = 4
      then pj_state (project_lifecycle r (facts_of st) (en_now env)) \<in> {AdmittedAwaitingEntry, Entered}
      else (case first_max_by (\<lambda>f. (pf_occurred_at f, pf_id f)) (st_facts st) of
              None \<Rightarrow> False
            | Some f \<Rightarrow> pf_state f \<notin> {PaperLegacy, PaperExpiredUnobserved, PaperCancelled, PaperMissingData}))"

definition resolve_paper_trade ::
  "paper_env \<Rightarrow> recommendation \<Rightarrow> paper_store \<Rightarrow> paper_error + (paper_reply \<times> paper_store)" where
  [model_defs]: "resolve_paper_trade env r st =
     (case st_result st of
        Some p \<Rightarrow> Inr (ResultRecord p, st)
      | None \<Rightarrow>
          if \<not> may_resolve env r st then Inr (NoRecord, st)
          else
            (case horizon_candle env r of
               Inl e \<Rightarrow> Inl e
             | Inr horizon \<Rightarrow>
                 (case (if rec_version r = 4 then share_target env r st
                        else Inr (None, map_option (\<lambda>h. session_close_of (en_zone env) (mr_timestamp h)) horizon, st)) of
                    Inl e \<Rightarrow> Inl e
                  | Inr (shared, expires_at, st) \<Rightarrow>
                      (let candles = trade_candles env r expires_at in
                       if uncovered env r candles
                       then (case record_when (rec_version r = 4 \<and> (\<exists>t \<in> set_option expires_at. t \<le> en_now env)) env r
                                    (if st_entry st \<noteq> None then PaperMissingData else PaperExpiredUnobserved)
                                    ''hourly_coverage_unavailable'' None st of
                               Inl e \<Rightarrow> Inl e
                             | Inr st \<Rightarrow> Inr (NoRecord, st))
                       else decide_trade env r horizon expires_at candles shared st))))"

section \<open>Stored facts are final\<close>

text \<open>What a call may do to the rows: the entry, the result and the shared resolution are written
  once, paper facts and chain events are only added, and the chain is one that \<open>transition\<close> builds.\<close>

definition store_extends :: "paper_env \<Rightarrow> recommendation \<Rightarrow> paper_store \<Rightarrow> paper_store \<Rightarrow> bool" where
  "store_extends env r st st' \<longleftrightarrow>
     (\<forall>e. st_entry st = Some e \<longrightarrow> st_entry st' = Some e) \<and>
     (\<forall>p. st_result st = Some p \<longrightarrow> st_result st' = Some p) \<and>
     (\<forall>t. st_resolution st = Some t \<longrightarrow> st_resolution st' = Some t) \<and>
     (\<exists>events. st_chain st' = events @ st_chain st) \<and> (\<exists>facts. st_facts st' = st_facts st @ facts) \<and>
     (chain_reachable (en_digest env) (en_zone env) r (st_chain st) \<longrightarrow>
      chain_reachable (en_digest env) (en_zone env) r (st_chain st'))"

lemma store_extends_refl [simp]: "store_extends env r st st"
  by (simp add: store_extends_def)

lemma store_extends_trans [trans]:
  "store_extends env r a b \<Longrightarrow> store_extends env r b c \<Longrightarrow> store_extends env r a c"
  unfolding store_extends_def by (metis append_assoc)

text \<open>The rows that recording leaves alone.\<close>

definition same_trade :: "paper_store \<Rightarrow> paper_store \<Rightarrow> bool" where
  "same_trade st st' \<longleftrightarrow> st_entry st' = st_entry st \<and> st_result st' = st_result st
     \<and> st_resolution st' = st_resolution st \<and> st_costs st' = st_costs st"

lemma record_fact_frame:
  assumes "record_fact env r state reason resolution occurred st = Inr (f, st')"
  shows "store_extends env r st st' \<and> same_trade st st' \<and> st_chain st' = st_chain st"
  using assms
  by (auto simp: record_fact_def fresh_def Let_def store_extends_def same_trade_def split: option.splits if_splits)

lemma lifecycle_source_frame:
  assumes "lifecycle_source env r state reason resolution st = Inr (source, st')"
  shows "store_extends env r st st' \<and> same_trade st st' \<and> st_chain st' = st_chain st"
proof (cases "state \<in> {PaperExpiredUnobserved, PaperMissingData, PaperCancelled}")
  case True
  then obtain f where "record_fact env r state reason resolution (en_now env) st = Inr (f, st')"
    using assms by (auto simp: lifecycle_source_def split: sum.splits)
  then show ?thesis by (rule record_fact_frame)
next
  case False
  then show ?thesis using assms by (auto simp: lifecycle_source_def same_trade_def)
qed

lemma transition_extends:
  assumes "transition digest z tb now r entry shared chain state reason source occurred_at = Inr (event, chain')"
  shows "(\<exists>events. chain' = events @ chain) \<and> (chain_reachable digest z r chain \<longrightarrow> chain_reachable digest z r chain')"
proof -
  from assms have "chain_reachable digest z r chain \<longrightarrow> chain_reachable digest z r chain'" by (blast intro: call)
  moreover from assms have "\<exists>events. chain' = events @ chain"
    by (rule transition_cases) (auto intro: exI [of _ "[]"] exI [of _ "[event]"])
  ultimately show ?thesis by blast
qed

lemma record_lifecycle_frame:
  assumes "record_lifecycle env r state reason resolution st = Inr st'"
  shows "store_extends env r st st' \<and> same_trade st st'"
proof (cases "rec_version r = 4")
  case True
  then obtain source st1 event chain where
    1: "lifecycle_source env r state reason resolution st = Inr (source, st1)"
    and 2: "transition (en_digest env) (en_zone env) (en_tables env) (en_now env) r (st_entry st1) (st_resolution st1)
        (st_chain st1) (desired_state state st1) (if reason = '''' then ''paper_fact'' else reason) source None
        = Inr (event, chain)"
    and st': "st' = st1\<lparr>st_chain := chain\<rparr>"
    using assms by (auto simp: record_lifecycle_def split: sum.splits prod.splits)
  have "store_extends env r st1 st'"
    using transition_extends [OF 2] st' by (simp add: store_extends_def)
  then show ?thesis using lifecycle_source_frame [OF 1] st' store_extends_trans
    by (fastforce simp: same_trade_def)
next
  case False
  then obtain f where "record_fact env r state reason resolution (max (en_now env) (rec_generated_at r)) st = Inr (f, st')"
    using assms by (auto simp: record_lifecycle_def split: sum.splits)
  then show ?thesis using record_fact_frame by blast
qed

lemma record_when_frame:
  "record_when condition env r state reason resolution st = Inr st' \<Longrightarrow> store_extends env r st st' \<and> same_trade st st'"
  by (cases condition) (auto simp: record_when_def same_trade_def dest: record_lifecycle_frame)

lemma cost_frame:
  "create_cost_assessment z r e p st = Inr st' \<Longrightarrow> store_extends env r st st' \<and> st_result st' = st_result st"
  by (auto simp: create_cost_assessment_def store_extends_def split: option.splits if_splits)

lemma store_result_extends:
  "st_result st = None \<Longrightarrow> store_extends env r st (st\<lparr>st_next_id := n, st_result := Some p\<rparr>)"
  by (simp add: store_extends_def)

lemma create_result_extends:
  assumes "create_result env r e out c price horizon ambiguous on_entry st = Inr (reply, st')" "st_result st = None"
  shows "store_extends env r st st' \<and> (\<exists>p. reply = ResultRecord p \<and> st_result st' = Some p)"
proof -
  obtain p st1 where p: "record_lifecycle env r PaperClosed '''' None
        (st\<lparr>st_next_id := st_next_id st + 1, st_result := Some p\<rparr>) = Inr st1"
    "create_cost_assessment (en_zone env) r e p st1 = Inr st'" "reply = ResultRecord p"
    using assms(1) by (auto simp: create_result_def fresh_def Let_def split: if_splits option.splits sum.splits)
  note f = record_lifecycle_frame [OF p(1)] and g = cost_frame [OF p(2), of env]
  have "store_extends env r st st'"
    using store_result_extends [OF assms(2)] f g store_extends_trans by blast
  moreover have "st_result st' = Some p" using f g by (simp add: same_trade_def)
  ultimately show ?thesis using p(3) by blast
qed

lemma not_activated_extends:
  assumes "not_activated env r horizon st = Inr (reply, st')" "st_result st = None"
  shows "store_extends env r st st'"
proof -
  obtain p where "record_lifecycle env r PaperClosed '''' None
        (st\<lparr>st_next_id := st_next_id st + 1, st_result := Some p\<rparr>) = Inr st'"
    using assms(1) by (auto simp: not_activated_def fresh_def Let_def split: option.splits sum.splits if_splits)
  then show ?thesis using store_result_extends [OF assms(2)] record_lifecycle_frame store_extends_trans by blast
qed

lemma unobserved_extends:
  assumes "unobserved env r horizon expires_at created st = Inr (reply, st')"
  shows "store_extends env r st st'"
  using assms store_extends_trans
  by (auto simp: unobserved_def split: sum.splits dest!: record_when_frame)

lemma close_out_extends:
  assumes "close_out env r horizon expires_at candles shared created st = Inr (reply, st')" "st_result st = None"
  shows "store_extends env r st st'"
  using assms
  by (auto simp: close_out_def split: option.splits sum.splits if_splits
      dest!: record_lifecycle_frame intro: unobserved_extends not_activated_extends dest: create_result_extends)

lemma enter_trade_extends:
  assumes "enter_trade env r c at_open price st = Inr (e, st')" "st_entry st = None"
  shows "store_extends env r st st' \<and> st_entry st' = Some e \<and> st_result st' = st_result st
    \<and> pe_candle e = c \<and> pe_fill_price e = price \<and> pe_at_open e = at_open"
proof -
  obtain n where 1: "record_lifecycle env r PaperEntered '''' None (st\<lparr>st_next_id := n, st_entry := Some e\<rparr>) = Inr st'"
    and e: "pe_candle e = c" "pe_fill_price e = price" "pe_at_open e = at_open"
    using assms(1) by (auto simp: enter_trade_def fresh_def Let_def split: if_splits sum.splits prod.splits)
  have "store_extends env r st (st\<lparr>st_next_id := n, st_entry := Some e\<rparr>)"
    using assms(2) by (simp add: store_extends_def)
  then show ?thesis using record_lifecycle_frame [OF 1] store_extends_trans e by (fastforce simp: same_trade_def)
qed

lemma exit_on_entry_extends:
  assumes "exit_on_entry env r horizon e st = Some (Inr (reply, st'))" "st_result st = None"
  shows "store_extends env r st st'"
  using assms create_result_extends by (auto simp: exit_on_entry_def Let_def split: prod.splits if_splits)

lemma decide_trade_extends:
  assumes "decide_trade env r horizon expires_at candles shared st = Inr (reply, st')" "st_result st = None"
  shows "store_extends env r st st'"
proof (cases "st_entry st")
  case (Some e)
  then show ?thesis using assms create_result_extends close_out_extends
    by (fastforce simp: decide_trade_def Let_def split: option.splits)
next
  case None
  show ?thesis
  proof (cases "entry_scan (rec_action r) (rec_setup r) candles")
    case scan: None
    then show ?thesis using assms None close_out_extends by (simp add: decide_trade_def Let_def)
  next
    case (Some hit)
    obtain c at_open price rest where hit: "hit = (c, at_open, price, rest)" by (cases hit)
    obtain e st1 where e: "enter_trade env r c at_open price st = Inr (e, st1)"
      using assms(1) None Some hit by (auto simp: decide_trade_def Let_def split: sum.splits)
    note f = enter_trade_extends [OF e None]
    have r1: "st_result st1 = None" using f assms(2) by simp
    have "store_extends env r st1 st'"
      using assms(1) None Some hit e r1 create_result_extends close_out_extends exit_on_entry_extends
      by (fastforce simp: decide_trade_def Let_def split: option.splits)
    then show ?thesis using f store_extends_trans by blast
  qed
qed

lemma share_target_extends:
  "share_target env r st = Inr (shared, expires_at, st') \<Longrightarrow> store_extends env r st st' \<and> st_result st' = st_result st"
  by (auto simp: share_target_def resolve_target_def store_extends_def split: option.splits target_reply.splits if_splits)

lemma resolve_paper_trade_extends:
  assumes "resolve_paper_trade env r st = Inr (reply, st')" "st_result st = None"
  shows "store_extends env r st st'"
proof (cases "may_resolve env r st")
  case True
  then obtain horizon shared expires_at st1 where
    1: "horizon_candle env r = Inr horizon"
    "(if rec_version r = 4 then share_target env r st
      else Inr (None, map_option (\<lambda>h. session_close_of (en_zone env) (mr_timestamp h)) horizon, st))
        = Inr (shared, expires_at, st1)"
    using assms by (auto simp: resolve_paper_trade_def split: sum.splits)
  have s1: "store_extends env r st st1 \<and> st_result st1 = None"
    using 1(2) assms(2) share_target_extends by (fastforce split: if_splits)
  have "store_extends env r st1 st'"
  proof (cases "uncovered env r (trade_candles env r expires_at)")
    case gap: True
    then show ?thesis using assms True 1
      by (auto simp: resolve_paper_trade_def Let_def split: sum.splits dest!: record_when_frame)
  next
    case False
    then show ?thesis using assms True 1 s1
      by (auto simp: resolve_paper_trade_def Let_def intro: decide_trade_extends)
  qed
  then show ?thesis using s1 store_extends_trans by blast
next
  case False
  then show ?thesis using assms by (simp add: resolve_paper_trade_def)
qed

text \<open>C4: Paper evidence is final. Whatever candles, runs, cutoffs and admissions a later call sees,
  an entry, a result and a shared resolution that are stored stay as they are, paper facts and
  chain events are only added, the state chain stays one that \<open>transition\<close> builds, and once there is
  a result every call returns it and changes nothing at all.\<close>

theorem paper_evidence_is_final:
  assumes "resolve_paper_trade env r st = Inr (reply, st')"
  shows "store_extends env r st st' \<and> (\<forall>p. st_result st = Some p \<longrightarrow> reply = ResultRecord p \<and> st' = st)"
proof (cases "st_result st")
  case None
  then show ?thesis using resolve_paper_trade_extends [OF assms] by simp
next
  case (Some p)
  then show ?thesis using assms by (simp add: resolve_paper_trade_def)
qed

section \<open>The first touch decides\<close>

text \<open>C31: The exit is decided by the first candle after the entry that touches a barrier, and the stop
  has precedence: no earlier candle touches either barrier, the trade is invalidated exactly when
  that candle touches the stop, at the stop's fill, and otherwise takes profit at the target.\<close>

theorem first_touch_decides:
  "exit_scan action s candles = Some (out, c, price, ambiguous) \<longleftrightarrow>
     (\<exists>before after. candles = before @ c # after
        \<and> (\<forall>d \<in> set before. exit_touches action s d = (False, False))
        \<and> (if snd (exit_touches action s c)
           then out = OutInvalidated \<and> price = stop_fill action s c \<and> ambiguous = fst (exit_touches action s c)
           else fst (exit_touches action s c) \<and> out = OutTarget \<and> price = su_target s \<and> \<not> ambiguous))"
  (is "_ \<longleftrightarrow> (\<exists>before after. candles = before @ c # after \<and> _ before \<and> ?D)")
proof (induction candles)
  case (Cons d ds)
  let ?clear = "\<lambda>before. \<forall>e \<in> set before. exit_touches action s e = (False, False)"
  have split: "(\<exists>before after. d # ds = before @ c # after \<and> ?clear before \<and> ?D) \<longleftrightarrow>
      d = c \<and> ?D \<or> exit_touches action s d = (False, False) \<and>
        (\<exists>before after. ds = before @ c # after \<and> ?clear before \<and> ?D)" (is "?l \<longleftrightarrow> ?r")
  proof
    assume ?l
    then obtain before after where b: "d # ds = before @ c # after" "?clear before" "?D" by blast
    then show ?r by (cases before) auto
  next
    assume ?r
    then show ?l
    proof
      assume "d = c \<and> ?D"
      then have "d # ds = [] @ c # ds \<and> ?clear [] \<and> ?D" by simp
      then show ?l by blast
    next
      assume "exit_touches action s d = (False, False) \<and> (\<exists>before after. ds = before @ c # after \<and> ?clear before \<and> ?D)"
      then obtain before after where "d # ds = (d # before) @ c # after" "?clear (d # before)" "?D" by auto
      then show ?l by blast
    qed
  qed
  obtain target_hit stop_hit where t: "exit_touches action s d = (target_hit, stop_hit)" by (cases "exit_touches action s d")
  show ?case unfolding split using Cons.IH t by (cases stop_hit; cases target_hit) auto
qed simp

section \<open>A stopped trade loses at least its risk\<close>

lemma stop_change:
  assumes "on_grid 6 (su_invalidation s)" "entry_fill action s c = Some (at_open, price)"
  shows "signed_change action price (quantize 6 (stop_fill action s d)) \<le> - (if action = Buy then rnd28 (price - su_invalidation s)
     else rnd28 (su_invalidation s - price))"
proof (cases "action = Buy")
  case True
  have "stop_fill action s d \<le> su_invalidation s"
    using True assms(1) by (auto simp: stop_fill_def intro: quantize_le_grid)
  then have "rnd28 (stop_fill action s d - price) \<le> rnd28 (- (price - su_invalidation s))"
    by (intro ctx28.rnd_mono) simp
  then show ?thesis using True by (simp add: signed_change_def stop_fill_def flip: ctx28.rnd_minus)
next
  case False
  have "su_invalidation s \<le> stop_fill action s d"
    using False assms(1) by (auto simp: stop_fill_def intro: quantize_ge_grid)
  then have "rnd28 (price - stop_fill action s d) \<le> rnd28 (- (su_invalidation s - price))"
    by (intro ctx28.rnd_mono) simp
  then show ?thesis using False by (simp add: signed_change_def stop_fill_def flip: ctx28.rnd_minus)
qed

text \<open>C32: A trade that is stopped out loses at least one risk unit. For a stored recommendation
  (levels on the price grid, in order), an entry at any reported fill and an exit at the stop fill of
  any candle, the recorded multiple of the risk is at most minus one, and the risk is not zero, so
  the record is always made.\<close>

theorem stopped_trade_loses_its_risk:
  assumes "levels_ordered action (Some s)" "action \<noteq> Abstain"
    and "on_grid 6 (su_entry s)" "on_grid 6 (su_invalidation s)"
    and "entry_fill action s c = Some (at_open, price)"
  shows "rnd28 (price - su_invalidation s) \<noteq> 0
    \<and> r_multiple_of (signed_change action price (quantize 6 (stop_fill action s d))) \<bar>rnd28 (price - su_invalidation s)\<bar> \<le> -1"
proof -
  define risk where "risk = \<bar>rnd28 (price - su_invalidation s)\<bar>"
  define change where "change = signed_change action price (quantize 6 (stop_fill action s d))"
  have e: "quantize 6 (su_entry s) = su_entry s" using assms(3) by (rule quantize_on_grid)
  have "if action = Buy then su_invalidation s < price else price < su_invalidation s"
    using assms(1,2) adverse_entry [OF assms(5)] e by (cases action) auto
  then have r: "risk = (if action = Buy then rnd28 (price - su_invalidation s) else rnd28 (su_invalidation s - price))"
    "0 < risk"
    using ctx28.rnd_minus [of "price - su_invalidation s"] by (auto simp: risk_def)
  have "change \<le> - risk" unfolding change_def r(1) by (rule stop_change [OF assms(4,5)])
  then have "change / risk \<le> - 1" using r(2) by (simp add: divide_le_eq)
  then have "rnd28 (change / risk) \<le> rnd28 (- 1)" by (rule ctx28.rnd_mono)
  moreover have "rnd28 (- 1) = - 1" using ctx28.rnd_minus [of 1] rnd28_on_grid [of 0 1] by (simp add: on_grid_def)
  ultimately have "r_multiple_of change risk \<le> quantize 4 (- 1)" unfolding r_multiple_of_def
    by (intro quantize_mono) simp
  also have "quantize 4 (- 1) = - 1" using quantize_minus [of 4 1] by simp
  finally show ?thesis using r(2) by (auto simp: change_def risk_def)
qed

section \<open>Concrete calls\<close>

text \<open>An hourly candle that fills the entry and touches neither barrier.\<close>

definition sample_row :: market_row where
  [model_defs]: "sample_row = \<lparr>q_bid_open = 10, q_bid_high = 12, q_bid_low = 9, q_bid_close = 9,
     q_ask_open = 11, q_ask_high = 13, q_ask_low = 10, q_ask_close = 10, mr_id = 1, mr_instrument = 1,
     mr_granularity = GH1, mr_timestamp = hours 1, mr_complete = True, mr_run_succeeded = True,
     mr_run_finished = Some (hours 2), mr_sha = ''''\<rparr>"

definition stop_row :: market_row where
  [model_defs]: "stop_row = sample_row\<lparr>q_bid_low := 7, mr_id := 2, mr_timestamp := hours 2\<rparr>"

definition sample_env :: paper_env where
  [model_defs]: "sample_env = \<lparr>en_zone = fixed_zone 0, en_digest = sample_digest,
     en_tables = \<lparr>tb_candles = [sample_row], tb_runs = [\<lparr>ig_instrument = 1, ig_granularity = GH1, ig_succeeded = True,
       ig_from = 0, ig_to = hours 3, ig_finished = Some (hours 2)\<rparr>]\<rparr>,
     en_admitted = True, en_target = None, en_now = hours 3\<rparr>"

definition second_contract :: recommendation where
  [model_defs]: "second_contract = sample_recommendation\<lparr>rec_version := 2, rec_target := None\<rparr>"

definition pending_store :: paper_store where
  [model_defs]: "pending_store = \<lparr>st_entry = None, st_result = None, st_chain = [],
     st_facts = [\<lparr>pf_id = 1, pf_recommendation = 1, pf_state = PaperPending, pf_reason = '''', pf_schema = None,
       pf_resolution = None, pf_occurred_at = 0\<rparr>],
     st_admissions = [], st_cohort = None, st_resolution = None, st_costs = None, st_next_id = 2\<rparr>"

lemma sample_call:
  "\<exists>e st. resolve_paper_trade sample_env second_contract pending_store = Inr (EntryRecord e, st)"
proof -
  have may: "may_resolve sample_env second_contract pending_store"
    by (simp add: may_resolve_def second_contract_def pending_store_def sample_env_def sample_recommendation_def)
  have horizon: "horizon_candle sample_env second_contract = Inr None"
    by (simp add: horizon_candle_def second_contract_def sample_env_def sample_recommendation_def sample_row_def)
  have candles: "trade_candles sample_env second_contract None = [sample_row]"
    by (simp add: trade_candles_def second_contract_def sample_env_def sample_recommendation_def sample_row_def duration_defs)
  have covered: "\<not> uncovered sample_env second_contract [sample_row]"
    by (simp add: uncovered_def has_coverage_def manifest_covers_def second_contract_def sample_env_def
        sample_recommendation_def sample_row_def next_market_hour_def next_market_wall_def fixed_zone_def
        weekday_def hour_of_def time_of_day_def duration_defs Let_def)
  have fill: "entry_fill Buy sample_setup sample_row = Some (False, 10)"
    by (simp add: entry_fill_def sample_setup_def sample_row_def Let_def)
  have touch: "exit_touches Buy sample_setup sample_row = (False, False)"
    by (simp add: exit_touches_def sample_setup_def sample_row_def)
  have action: "rec_action second_contract = Buy" "rec_setup second_contract = sample_setup"
    by (simp_all add: second_contract_def sample_recommendation_def)
  have "0 \<le> rnd28 (q_ask_open sample_row - q_bid_open sample_row)"
    by (intro ctx28.rnd_nonneg) (simp add: sample_row_def)
  then have "quantize 6 0 \<le> quantize 6 (rnd28 (q_ask_open sample_row - q_bid_open sample_row))" by (rule quantize_mono)
  then have spread: "\<not> quantize 6 (rnd28 (q_ask_open sample_row - q_bid_open sample_row)) < 0" by simp
  have "\<exists>e st. enter_trade sample_env second_contract sample_row False 10 pending_store = Inr (e, st) \<and> st_entry st = Some e
      \<and> pe_candle e = sample_row"
    by (simp add: enter_trade_def action touch spread fresh_def record_lifecycle_def record_fact_def
        validate_coverage_fact_def Let_def)
      (simp add: fresh_def validate_coverage_fact_def second_contract_def sample_recommendation_def sample_env_def
        pending_store_def duration_defs Let_def)
  then obtain e st where e: "enter_trade sample_env second_contract sample_row False 10 pending_store = Inr (e, st)"
    "st_entry st = Some e" "pe_candle e = sample_row" by blast
  have stay: "exit_on_entry sample_env second_contract None e st = None"
    by (simp add: exit_on_entry_def action touch e)
  have last: "close_out sample_env second_contract None None [sample_row] None True st = Inr (EntryRecord e, st)"
    by (simp add: close_out_def filter_option_def unobserved_def record_when_def entry_reply_def e
        second_contract_def sample_env_def sample_recommendation_def duration_defs)
  have rows: "st_result pending_store = None" "st_entry pending_store = None" "rec_version second_contract = 2"
    by (simp_all add: pending_store_def second_contract_def)
  show ?thesis
    by (simp add: resolve_paper_trade_def rows may horizon candles covered decide_trade_def action fill e stay last Let_def)
qed

theorem paper_evidence_is_final_witness:
  "\<exists>e st. resolve_paper_trade sample_env second_contract pending_store = Inr (EntryRecord e, st)
     \<and> store_extends sample_env second_contract pending_store st"
proof -
  obtain e st where c: "resolve_paper_trade sample_env second_contract pending_store = Inr (EntryRecord e, st)"
    using sample_call by blast
  from paper_evidence_is_final [OF c] c show ?thesis by blast
qed

theorem first_touch_decides_witness:
  "\<exists>before after. [sample_row, stop_row] = before @ stop_row # after"
proof -
  have "exit_scan Buy sample_setup [sample_row, stop_row] = Some (OutInvalidated, stop_row, stop_fill Buy sample_setup stop_row, False)"
    by (simp add: exit_touches_def sample_setup_def sample_row_def stop_row_def)
  from first_touch_decides [THEN iffD1, OF this] show ?thesis by blast
qed

theorem stopped_trade_loses_its_risk_witness:
  "r_multiple_of (signed_change Buy 10 (quantize 6 (stop_fill Buy sample_setup stop_row)))
     \<bar>rnd28 (10 - su_invalidation sample_setup)\<bar> \<le> -1"
proof -
  have l: "levels_ordered Buy (Some sample_setup)" "Buy \<noteq> Abstain"
    by (simp_all add: sample_setup_def)
  have g: "on_grid 6 (su_entry sample_setup)" "on_grid 6 (su_invalidation sample_setup)"
    by (simp_all add: sample_setup_def on_grid_iff)
  have fill: "entry_fill Buy sample_setup sample_row = Some (False, 10)"
    by (simp add: entry_fill_def sample_setup_def sample_row_def Let_def)
  from stopped_trade_loses_its_risk [OF l g fill, where d = stop_row] show ?thesis by simp
qed

end
