(* ===== verification/Sizing.thy ===== *)
theory Sizing
  imports Lifecycle
begin

text \<open>
  Position sizing, \<^verbatim>\<open>forecasts/sizing.py\<close>: the conversion of the quote currency to the account
  currency by a breadth-first search over the newest hourly candles known at an instant, the number
  of whole units that the risk cap funds, and the validation of \<^verbatim>\<open>PositionSizeAdvice\<close>. A raised
  exception is \<open>Inl\<close> of an error. The evidence of a step of the path is the instrument's code, the
  candle and the orientation; the printed rates and timestamps are not modelled.
\<close>

section \<open>Policy\<close>

definition model_equity_cad :: decimal where [model_defs]: "model_equity_cad = 25000"
definition risk_fraction :: decimal where [model_defs]: "risk_fraction = 5 / 1000"
definition setup_risk_cap_cad :: decimal where [model_defs]: "setup_risk_cap_cad = 125"
definition aggregate_risk_cap_cad :: decimal where [model_defs]: "aggregate_risk_cap_cad = 500"
definition currency_direction_risk_cap_cad :: decimal where
  [model_defs]: "currency_direction_risk_cap_cad = 250"

text \<open>\<^verbatim>\<open>quantize(rounding=ROUND_HALF_UP)\<close>: halves go away from zero.\<close>

definition quantize_half_up :: "nat \<Rightarrow> rat \<Rightarrow> decimal" where
  [model_defs]: "quantize_half_up n x = sgn x * (of_int \<lfloor>\<bar>x\<bar> * 10 ^ n + 1 / 2\<rfloor> / 10 ^ n)"

section \<open>The size\<close>

datatype sizing_error = NoStopDistance | NoConversionRate | CapTooSmall | NoConversionPath | DivisionByZero | AdviceRefused

definition calculate_size :: "decimal \<Rightarrow> decimal \<Rightarrow> decimal \<Rightarrow> sizing_error + (decimal \<times> int \<times> decimal)" where
  [model_defs]: "calculate_size entry_level invalidation_level conversion_rate =
     (let stop_distance = \<bar>rnd28 (entry_level - invalidation_level)\<bar> in
      if stop_distance \<le> 0 then Inl NoStopDistance
      else if conversion_rate \<le> 0 then Inl NoConversionRate
      else
        (let unit_risk = rnd28 (stop_distance * conversion_rate);
             units = \<lfloor>rnd28 (setup_risk_cap_cad / unit_risk)\<rfloor>;
             projected = quantize_half_up 2 (rnd28 (of_int units * unit_risk))
         in if units < 1 then Inl CapTooSmall
            else Inr (stop_distance, units, min projected setup_risk_cap_cad)))"

section \<open>The conversion path\<close>

record instrument =
  in_id :: int
  in_code :: string
  in_base :: string
  in_quote :: string

datatype orientation = Direct | Inverse

record step_evidence =
  ev_instrument :: string
  ev_candle :: int
  ev_orientation :: orientation
  ev_from :: string
  ev_to :: string
  ev_rate :: decimal

text \<open>The newest hourly candle of an instrument that is known at the instant.\<close>

definition newest_candle :: "market_row list \<Rightarrow> instrument \<Rightarrow> instant \<Rightarrow> market_row option" where
  [model_defs]: "newest_candle rows i as_of =
     first_max_by (\<lambda>c. (mr_timestamp c, mr_id c))
       (filter (\<lambda>c. mr_instrument c = in_id i \<and> mr_granularity c = GH1 \<and> mr_timestamp c \<le> as_of
          \<and> finished_by (mr_run_finished c) as_of) rows)"

text \<open>The two directions of an instrument's candle, in the order in which the graph gets them.\<close>

definition edges_of_candle :: "instrument \<Rightarrow> market_row \<Rightarrow> step_evidence list" where
  [model_defs]: "edges_of_candle i c =
     [\<lparr>ev_instrument = in_code i, ev_candle = mr_id c, ev_orientation = Direct, ev_from = in_base i,
       ev_to = in_quote i, ev_rate = midpoint_close c\<rparr>,
      \<lparr>ev_instrument = in_code i, ev_candle = mr_id c, ev_orientation = Inverse, ev_from = in_quote i,
       ev_to = in_base i, ev_rate = rnd28 (1 / midpoint_close c)\<rparr>]"

text \<open>All edges, \<open>None\<close> when a midpoint of zero is inverted; \<open>instruments\<close> are the active ones in their
  order.\<close>

fun conversion_edges :: "market_row list \<Rightarrow> instant \<Rightarrow> instrument list \<Rightarrow> step_evidence list option" where
  "conversion_edges rows as_of [] = Some []"
| "conversion_edges rows as_of (i # is) =
     (case newest_candle rows i as_of of
        None \<Rightarrow> conversion_edges rows as_of is
      | Some c \<Rightarrow>
          if midpoint_close c = 0 then None
          else map_option (\<lambda>es. edges_of_candle i c @ es) (conversion_edges rows as_of is))"

type_synonym visit = "string \<times> decimal \<times> step_evidence list"

text \<open>The loop over the edges of the currency that was popped: a path to CAD ends the search, every
  other unvisited currency joins the queue.\<close>

fun visit_edges ::
  "decimal \<Rightarrow> step_evidence list \<Rightarrow> step_evidence list \<Rightarrow> string list \<Rightarrow> visit list
     \<Rightarrow> (decimal \<times> step_evidence list) + (string list \<times> visit list)" where
  "visit_edges accumulated path [] visited queue = Inr (visited, queue)"
| "visit_edges accumulated path (e # es) visited queue =
     (if ev_to e \<in> set visited then visit_edges accumulated path es visited queue
      else
        (let rate = rnd28 (accumulated * ev_rate e); next_path = path @ [e] in
         if ev_to e = ''CAD'' then Inl (quantize 8 rate, next_path)
         else visit_edges accumulated path es (ev_to e # visited) (queue @ [(ev_to e, rate, next_path)])))"

definition unvisited :: "step_evidence list \<Rightarrow> string list \<Rightarrow> nat" where
  "unvisited edges visited = card (set (map ev_to edges) - set visited)"

lemma unvisited_Cons:
  assumes "x \<in> set (map ev_to edges)" "x \<notin> set visited"
  shows "unvisited edges visited = Suc (unvisited edges (x # visited))"
proof -
  have "set (map ev_to edges) - set (x # visited) = set (map ev_to edges) - set visited - {x}" by auto
  then show ?thesis using assms unfolding unvisited_def by (metis DiffI List.finite_set card.remove finite_Diff)
qed

lemma visit_edges_progress:
  assumes "visit_edges accumulated path es visited queue = Inr (visited', queue')" "set es \<subseteq> set edges"
  shows "unvisited edges visited' + length queue' = unvisited edges visited + length queue"
  using assms
proof (induction es arbitrary: visited queue)
  case (Cons e es)
  show ?case
  proof (cases "ev_to e \<in> set visited")
    case False
    then have "unvisited edges visited = Suc (unvisited edges (ev_to e # visited))"
      using Cons.prems(2) by (intro unvisited_Cons) auto
    moreover have "unvisited edges visited' + length queue'
        = unvisited edges (ev_to e # visited) + length (queue @ [(ev_to e, rnd28 (accumulated * ev_rate e), path @ [e])])"
      using Cons.prems False by (intro Cons.IH) (auto simp: Let_def split: if_splits)
    ultimately show ?thesis by simp
  qed (use Cons in auto)
qed simp

lemma filter_progress:
  "visit_edges accumulated path (filter p edges) visited queue = Inr (visited', queue')
     \<Longrightarrow> unvisited edges visited' + length queue' < unvisited edges visited + length (item # queue)"
  using visit_edges_progress [of accumulated path "filter p edges" visited queue visited' queue' edges] by simp

text \<open>The loop over the queue; \<open>None\<close> when the queue is empty, and an exception is raised.\<close>

function search ::
  "step_evidence list \<Rightarrow> string list \<Rightarrow> visit list \<Rightarrow> (decimal \<times> step_evidence list) option" where
  "search edges visited [] = None"
| "search edges visited ((currency, accumulated, path) # queue) =
     (case visit_edges accumulated path (filter (\<lambda>e. ev_from e = currency) edges) visited queue of
        Inl result \<Rightarrow> Some result
      | Inr (visited', queue') \<Rightarrow> search edges visited' queue')"
  by pat_completeness auto

termination search
  by (relation "measure (\<lambda>(edges, visited, queue). unvisited edges visited + length queue)")
    (use filter_progress in auto)

definition quote_to_cad ::
  "market_row list \<Rightarrow> instrument list \<Rightarrow> string \<Rightarrow> instant \<Rightarrow> sizing_error + (decimal \<times> step_evidence list)" where
  [model_defs]: "quote_to_cad rows instruments currency as_of =
     (if currency = ''CAD'' then Inr (1, [])
      else
        (case conversion_edges rows as_of instruments of
           None \<Rightarrow> Inl DivisionByZero
         | Some edges \<Rightarrow>
             (case search edges [currency] [(currency, 1, [])] of
                None \<Rightarrow> Inl NoConversionPath
              | Some result \<Rightarrow> Inr result)))"

section \<open>The search finds a path exactly when there is one\<close>

fun walk :: "step_evidence list \<Rightarrow> string \<Rightarrow> step_evidence list \<Rightarrow> string \<Rightarrow> bool" where
  "walk edges a [] b \<longleftrightarrow> a = b"
| "walk edges a (e # es) b \<longleftrightarrow> e \<in> set edges \<and> ev_from e = a \<and> walk edges (ev_to e) es b"

definition rate_along :: "step_evidence list \<Rightarrow> decimal" where
  [model_defs]: "rate_along path = foldl (\<lambda>r e. rnd28 (r * ev_rate e)) 1 path"

lemma walk_append: "walk edges a (p @ q) c \<longleftrightarrow> (\<exists>b. walk edges a p b \<and> walk edges b q c)"
  by (induction p arbitrary: a) auto

text \<open>An entry of the queue: a path from the start over visited currencies, with its rate.\<close>

definition genuine_visit :: "step_evidence list \<Rightarrow> string \<Rightarrow> string list \<Rightarrow> visit \<Rightarrow> bool" where
  "genuine_visit edges start visited v \<longleftrightarrow>
     (case v of (currency, rate, path) \<Rightarrow>
        walk edges start path currency \<and> rate = rate_along path \<and> distinct (start # map ev_to path)
        \<and> set (start # map ev_to path) \<subseteq> set visited)"

lemma genuine_visit_mono:
  "genuine_visit edges start visited v \<Longrightarrow> set visited \<subseteq> set visited' \<Longrightarrow> genuine_visit edges start visited' v"
  by (auto simp: genuine_visit_def)

lemma genuine_visit_step:
  assumes "genuine_visit edges start visited (currency, rate, path)" "e \<in> set edges" "ev_from e = currency"
    and "ev_to e \<notin> set visited"
  shows "genuine_visit edges start (ev_to e # visited) (ev_to e, rnd28 (rate * ev_rate e), path @ [e])"
  using assms by (auto simp: genuine_visit_def walk_append rate_along_def)

text \<open>What the inner loop keeps: genuine entries, and CAD unvisited.\<close>

lemma visit_edges_sound:
  assumes "genuine_visit edges start visited (currency, rate, path)" "set es \<subseteq> set edges"
    and "\<forall>e \<in> set es. ev_from e = currency" "\<forall>v \<in> set queue. genuine_visit edges start visited v"
    and "''CAD'' \<notin> set visited"
  shows "case visit_edges rate path es visited queue of
       Inl (result, p) \<Rightarrow> walk edges start p ''CAD'' \<and> distinct (start # map ev_to p) \<and> result = quantize 8 (rate_along p)
     | Inr (visited', queue') \<Rightarrow> ''CAD'' \<notin> set visited' \<and> (\<forall>v \<in> set queue'. genuine_visit edges start visited' v)"
  using assms
proof (induction es arbitrary: visited queue)
  case (Cons e es)
  let ?v = "(ev_to e, rnd28 (rate * ev_rate e), path @ [e])"
  show ?case
  proof (cases "ev_to e \<in> set visited")
    case False
    then have v: "genuine_visit edges start (ev_to e # visited) ?v"
      using Cons.prems by (intro genuine_visit_step) auto
    show ?thesis
    proof (cases "ev_to e = ''CAD''")
      case True
      then show ?thesis using v False by (simp add: genuine_visit_def)
    next
      case no_cad: False
      have "\<forall>v \<in> set (queue @ [?v]). genuine_visit edges start (ev_to e # visited) v"
        using Cons.prems(4) v by (auto intro: genuine_visit_mono)
      moreover have "genuine_visit edges start (ev_to e # visited) (currency, rate, path)"
        using Cons.prems(1) by (auto intro: genuine_visit_mono)
      ultimately show ?thesis using Cons.prems Cons.IH [of "ev_to e # visited" "queue @ [?v]"] False no_cad
        by (simp add: Let_def)
    qed
  qed (use Cons in auto)
qed simp

text \<open>What it visits: at its end every edge of the currency leads to a visited one, and what is new is
  queued.\<close>

lemma visit_edges_visits:
  assumes "visit_edges rate path es visited queue = Inr (visited', queue')"
  shows "set visited \<subseteq> set visited' \<and> (\<forall>e \<in> set es. ev_to e \<in> set visited')
    \<and> fst ` set queue \<subseteq> fst ` set queue' \<and> set visited' \<subseteq> set visited \<union> fst ` set queue'"
  using assms
proof (induction es arbitrary: visited queue)
  case (Cons e es)
  show ?case
  proof (cases "ev_to e \<in> set visited")
    case True
    with Cons.IH [of visited queue] Cons.prems show ?thesis by auto
  next
    case False
    then have "visit_edges rate path es (ev_to e # visited) (queue @ [(ev_to e, rnd28 (rate * ev_rate e), path @ [e])])
        = Inr (visited', queue')"
      using Cons.prems by (auto simp: Let_def split: if_splits)
    from Cons.IH [OF this] show ?thesis by auto
  qed
qed simp

definition searched :: "step_evidence list \<Rightarrow> string list \<Rightarrow> visit list \<Rightarrow> bool" where
  "searched edges visited queue \<longleftrightarrow>
     (\<forall>e \<in> set edges. ev_from e \<in> set visited \<longrightarrow> ev_from e \<in> fst ` set queue \<or> ev_to e \<in> set visited)"

lemma searched_step:
  assumes "searched edges visited ((currency, rate, path) # queue)"
    and "visit_edges rate path (filter (\<lambda>e. ev_from e = currency) edges) visited queue = Inr (visited', queue')"
  shows "searched edges visited' queue'"
proof -
  note v = visit_edges_visits [OF assms(2)]
  show ?thesis unfolding searched_def
  proof (intro ballI impI)
    fix e assume e: "e \<in> set edges" "ev_from e \<in> set visited'"
    show "ev_from e \<in> fst ` set queue' \<or> ev_to e \<in> set visited'"
    proof (cases "ev_from e \<in> set visited")
      case True
      then have "ev_from e = currency \<or> ev_from e \<in> fst ` set queue \<or> ev_to e \<in> set visited"
        using assms(1) e(1) by (auto simp: searched_def)
      then show ?thesis using v e(1) by auto
    qed (use v e in auto)
  qed
qed

lemma closed_no_walk:
  assumes "\<forall>e \<in> set edges. ev_from e \<in> V \<longrightarrow> ev_to e \<in> V" "a \<in> V" "b \<notin> V"
  shows "\<not> walk edges a p b"
  using assms(2) by (induction p arbitrary: a) (use assms in auto)

lemma search_correct:
  assumes "start \<in> set visited" "''CAD'' \<notin> set visited" "searched edges visited queue"
    and "\<forall>v \<in> set queue. genuine_visit edges start visited v"
  shows "case search edges visited queue of
       None \<Rightarrow> \<not> (\<exists>p. walk edges start p ''CAD'')
     | Some (result, p) \<Rightarrow> walk edges start p ''CAD'' \<and> distinct (start # map ev_to p) \<and> result = quantize 8 (rate_along p)"
  using assms
proof (induction edges visited queue rule: search.induct)
  case (1 edges visited)
  then have "\<forall>e \<in> set edges. ev_from e \<in> set visited \<longrightarrow> ev_to e \<in> set visited" by (simp add: searched_def)
  then show ?case using closed_no_walk 1 by simp
next
  case (2 edges visited currency rate path queue)
  let ?r = "visit_edges rate path (filter (\<lambda>e. ev_from e = currency) edges) visited queue"
  have s: "case ?r of
       Inl (result, p) \<Rightarrow> walk edges start p ''CAD'' \<and> distinct (start # map ev_to p) \<and> result = quantize 8 (rate_along p)
     | Inr (visited', queue') \<Rightarrow> ''CAD'' \<notin> set visited' \<and> (\<forall>v \<in> set queue'. genuine_visit edges start visited' v)"
    using "2.prems" by (intro visit_edges_sound) auto
  show ?case
  proof (cases ?r)
    case (Inr r)
    obtain visited' queue' where r: "?r = Inr (visited', queue')" using Inr by (cases r) simp
    then show ?thesis
      using "2.IH" [OF r refl] "2.prems" s searched_step [OF "2.prems"(3) r] visit_edges_visits [OF r] by auto
  qed (use s in auto)
qed

lemma conversion_edges_known:
  "conversion_edges rows as_of instruments = Some edges \<Longrightarrow> e \<in> set edges \<Longrightarrow>
     \<exists>i \<in> set instruments. \<exists>c \<in> set rows. mr_instrument c = in_id i \<and> mr_granularity c = GH1 \<and> mr_timestamp c \<le> as_of
       \<and> finished_by (mr_run_finished c) as_of \<and> e \<in> set (edges_of_candle i c)"
proof (induction instruments arbitrary: edges)
  case (Cons i instruments)
  show ?case
  proof (cases "newest_candle rows i as_of")
    case (Some c)
    then have c: "c \<in> set rows" "mr_instrument c = in_id i" "mr_granularity c = GH1" "mr_timestamp c \<le> as_of"
      "finished_by (mr_run_finished c) as_of"
      by (auto simp: newest_candle_def dest!: first_max_by_Some)
    obtain es where "conversion_edges rows as_of instruments = Some es" "edges = edges_of_candle i c @ es"
      using Cons.prems(1) Some by (auto split: if_splits)
    then show ?thesis using Cons.IH [of es] Cons.prems(2) c by auto
  qed (use Cons in auto)
qed simp

text \<open>C36: The conversion search is sound and complete. With the graph of the candles known at the
  instant, it fails exactly when no chain of instruments leads from the currency to CAD; otherwise
  it returns a chain that visits no currency twice, whose every step is a direct or an inverted
  midpoint of an hourly candle of an active instrument that was stored by the instant, and whose
  rate is the rounded product along the chain.\<close>

theorem conversion_search_is_complete:
  assumes "conversion_edges rows as_of instruments = Some edges" "currency \<noteq> ''CAD''"
  shows "case quote_to_cad rows instruments currency as_of of
      Inl e \<Rightarrow> e = NoConversionPath \<and> \<not> (\<exists>p. walk edges currency p ''CAD'')
    | Inr (rate, p) \<Rightarrow> walk edges currency p ''CAD'' \<and> distinct (currency # map ev_to p)
        \<and> rate = quantize 8 (rate_along p)
        \<and> (\<forall>e \<in> set p. \<exists>i \<in> set instruments. \<exists>c \<in> set rows. mr_instrument c = in_id i \<and> mr_timestamp c \<le> as_of
             \<and> finished_by (mr_run_finished c) as_of \<and> e \<in> set (edges_of_candle i c))"
proof -
  have walk_edges: "e \<in> set edges" if "walk edges a p b" "e \<in> set p" for a p b e
    using that by (induction p arbitrary: a) auto
  have "case search edges [currency] [(currency, 1, [])] of
       None \<Rightarrow> \<not> (\<exists>p. walk edges currency p ''CAD'')
     | Some (result, p) \<Rightarrow> walk edges currency p ''CAD'' \<and> distinct (currency # map ev_to p) \<and> result = quantize 8 (rate_along p)"
    using assms(2) by (intro search_correct) (auto simp: searched_def genuine_visit_def rate_along_def)
  then show ?thesis using assms walk_edges conversion_edges_known [OF assms(1)]
    by (auto simp: quote_to_cad_def split: option.splits prod.splits) blast+
qed

section \<open>The size is the largest that the cap funds\<close>

definition advice_valid :: "decimal \<Rightarrow> decimal \<Rightarrow> decimal \<Rightarrow> decimal \<times> int \<times> decimal \<Rightarrow> bool" where
  [model_defs]: "advice_valid entry_level invalidation_level rate advice \<longleftrightarrow>
     (case advice of (stop_distance, units, projected) \<Rightarrow>
        stop_distance = \<bar>rnd28 (entry_level - invalidation_level)\<bar>
        \<and> setup_risk_cap_cad = quantize_half_up 2 (rnd28 (model_equity_cad * risk_fraction))
        \<and> projected = quantize_half_up 2 (rnd28 (rnd28 (of_int units * stop_distance) * rate))
        \<and> 0 < stop_distance \<and> 0 < rate \<and> 0 < units \<and> 0 < projected \<and> projected \<le> setup_risk_cap_cad
        \<and> 0 < model_equity_cad \<and> 0 < risk_fraction \<and> risk_fraction \<le> 1 \<and> 0 < setup_risk_cap_cad
        \<and> setup_risk_cap_cad \<le> aggregate_risk_cap_cad \<and> setup_risk_cap_cad \<le> currency_direction_risk_cap_cad)"

text \<open>\<^verbatim>\<open>size_recommendation\<close>: the advice of the policy when there is one, nothing for an abstention, and
  otherwise a new advice, which its model validates; \<open>currency\<close> is the quote currency of the
  recommendation's instrument.\<close>

record size_advice =
  sa_stop :: decimal
  sa_units :: int
  sa_risk :: decimal
  sa_rate :: decimal
  sa_path :: "step_evidence list"
  sa_sized_at :: instant

definition size_recommendation ::
  "market_row list \<Rightarrow> instrument list \<Rightarrow> string \<Rightarrow> recommendation \<Rightarrow> size_advice option \<Rightarrow> instant
     \<Rightarrow> sizing_error + size_advice option" where
  [model_defs]: "size_recommendation rows instruments currency r existing sized_at =
     (if existing \<noteq> None then Inr existing
      else if rec_version r \<notin> {2, 3, 4} \<or> rec_action r = Abstain then Inr None
      else
        (case quote_to_cad rows instruments currency sized_at of
           Inl e \<Rightarrow> Inl e
         | Inr (rate, path) \<Rightarrow>
             (case calculate_size (su_entry (rec_setup r)) (su_invalidation (rec_setup r)) rate of
                Inl e \<Rightarrow> Inl e
              | Inr (stop_distance, units, projected) \<Rightarrow>
                  if sized_at < rec_generated_at r
                     \<or> \<not> advice_valid (su_entry (rec_setup r)) (su_invalidation (rec_setup r)) rate (stop_distance, units, projected)
                  then Inl AdviceRefused
                  else Inr (Some \<lparr>sa_stop = stop_distance, sa_units = units, sa_risk = projected, sa_rate = rate,
                     sa_path = path, sa_sized_at = sized_at\<rparr>))))"

lemma on_grid_mult:
  assumes "on_grid m x" "on_grid n y"
  shows "on_grid (m + n) (x * y)"
proof -
  obtain j k :: int where "x = of_int j / 10 ^ m" "y = of_int k / 10 ^ n"
    using assms by (auto simp: on_grid_iff)
  then have "x * y = of_int (j * k) / 10 ^ (m + n)" by (simp add: power_add)
  then show ?thesis unfolding on_grid_iff by blast
qed

lemma on_grid_of_int: "on_grid 0 (of_int k)"
  by (simp add: on_grid_def)

lemma on_grid_abs: "on_grid n x \<Longrightarrow> on_grid n \<bar>x\<bar>"
  unfolding on_grid_iff by (metis abs_divide abs_numeral of_int_abs power_abs)

lemma on_grid_above:
  assumes "on_grid n x" "on_grid n y" "y < x"
  shows "y + 1 / 10 ^ n \<le> x"
proof -
  obtain j k :: int where jk: "x = of_int j / 10 ^ n" "y = of_int k / 10 ^ n"
    using assms(1,2) by (auto simp: on_grid_iff)
  then have "k < j" using assms(3) by (simp add: divide_less_cancel)
  then have "(of_int (k + 1) :: rat) \<le> of_int j" by (subst of_int_le_iff) simp
  then show ?thesis unfolding jk by (simp add: divide_right_mono flip: add_divide_distrib)
qed

lemma on_grid_mono:
  assumes "on_grid m x" "m \<le> n"
  shows "on_grid n x"
proof -
  obtain j :: int where j: "x = of_int j / 10 ^ m" using assms(1) by (auto simp: on_grid_iff)
  have "(10::rat) ^ n = 10 ^ m * 10 ^ (n - m)" using assms(2) by (simp flip: power_add)
  then have "x = of_int (j * 10 ^ (n - m)) / 10 ^ n" using j by simp
  then show ?thesis unfolding on_grid_iff by blast
qed

lemma quantize_half_up_nonneg: "0 \<le> x \<Longrightarrow> quantize_half_up n x = of_int \<lfloor>x * 10 ^ n + 1 / 2\<rfloor> / 10 ^ n"
  by (cases "x = 0") (simp_all add: quantize_half_up_def floor_eq_iff)

lemma quantize_half_up_mono: "0 \<le> x \<Longrightarrow> x \<le> y \<Longrightarrow> quantize_half_up n x \<le> quantize_half_up n y"
  by (simp add: quantize_half_up_nonneg divide_right_mono floor_mono)

lemma quantize_half_up_of_nat: "quantize_half_up 2 (of_nat k) = of_nat k"
proof -
  have "\<lfloor>(of_nat k :: rat) * 10 ^ 2 + 1 / 2\<rfloor> = int k * 100" by (rule floor_unique) simp_all
  then show ?thesis by (simp add: quantize_half_up_nonneg)
qed

text \<open>The quotient: rounding the division never changes the number of units.\<close>

lemma units_bounds:
  assumes "on_grid 14 u" "0 < u" "1 \<le> \<lfloor>rnd28 (125 / u)\<rfloor>"
  shows "of_int \<lfloor>rnd28 (125 / u)\<rfloor> * u \<le> 125" "125 < (of_int \<lfloor>rnd28 (125 / u)\<rfloor> + 1) * u"
proof -
  define n where "n = \<lfloor>rnd28 (125 / u)\<rfloor>"
  have n: "of_int n \<le> rnd28 (125 / u)" "rnd28 (125 / u) < of_int n + 1" unfolding n_def by linarith+
  have "\<bar>rnd28 (125 / u) - 125 / u\<bar> \<le> \<bar>125 / u\<bar> * (10 / (2 * 10 ^ 28))"
    by (rule ctx_round_relative_error) simp
  then have "rnd28 (125 / u) \<le> 125 / u * (1 + 10 / (2 * 10 ^ 28))"
    using assms(2) by (simp add: abs_le_iff algebra_simps)
  then have "of_int n \<le> 125 / u * (1 + 10 / (2 * 10 ^ 28))" using n(1) by simp
  then have "of_int n * u \<le> 125 / u * (1 + 10 / (2 * 10 ^ 28)) * u"
    using assms(2) by (intro mult_right_mono) simp_all
  also have "125 / u * (1 + 10 / (2 * 10 ^ 28)) * u = 125 * (1 + 10 / (2 * 10 ^ 28))" using assms(2) by simp
  also have "\<dots> < 125 + 1 / 10 ^ 14" by simp
  finally have close: "of_int n * u < 125 + 1 / 10 ^ 14" .
  have "on_grid 14 (of_int n * u)" using on_grid_mult [OF on_grid_of_int assms(1), of n] by simp
  moreover have "on_grid 14 125" using on_grid_mono [OF on_grid_of_int [of 125], of 14] by simp
  ultimately have "\<not> 125 < of_int n * u" using close on_grid_above [of 14 "of_int n * u" 125] by force
  then show le: "of_int \<lfloor>rnd28 (125 / u)\<rfloor> * u \<le> 125" by (simp add: n_def)
  have "0 + 1 / 10 ^ 14 \<le> u" by (rule on_grid_above [OF assms(1) _ assms(2)]) (simp add: on_grid_def)
  then have "of_int n * (1 / 10 ^ 14) \<le> of_int n * u" using assms(3) by (intro mult_left_mono) (simp_all add: n_def)
  also have "of_int n * u \<le> 125" using le by (simp only: n_def)
  finally have "(of_int n :: rat) \<le> of_int (125 * 10 ^ 14)" by (simp add: divide_le_eq)
  then have "n \<le> 125 * 10 ^ 14" by (subst (asm) of_int_le_iff)
  then have "(of_int \<bar>n + 1\<bar> :: rat) \<le> of_int (125 * 10 ^ 14 + 1)"
    using assms(3) unfolding of_int_le_iff n_def by linarith
  then have "rnd28 (of_int (n + 1)) = of_int (n + 1)"
    by (intro rnd28_on_grid [OF on_grid_of_int]) (simp del: of_int_add)
  then have "\<not> of_int (n + 1) \<le> 125 / u" using n(2) ctx28.rnd_mono [of "of_int (n + 1)" "125 / u"] by auto
  then have "125 / u < of_int n + 1" by simp
  then show "125 < (of_int \<lfloor>rnd28 (125 / u)\<rfloor> + 1) * u" using assms(2) by (simp add: n_def divide_less_eq)
qed

lemma unit_risk_exact:
  assumes "on_grid 14 v" "0 < v" "1 \<le> \<lfloor>rnd28 (125 / rnd28 v)\<rfloor>"
  shows "rnd28 v = v"
proof (rule rnd28_on_grid [OF assms(1)])
  have "v < 150"
  proof (rule ccontr)
    assume "\<not> v < 150"
    then have "rnd28 150 \<le> rnd28 v" by (intro ctx28.rnd_mono) simp
    moreover have "rnd28 150 = 150" using rnd28_on_grid [OF on_grid_of_int [of 150]] by simp
    ultimately have "125 / rnd28 v \<le> 125 / 150" by (intro divide_left_mono) (use assms(2) in simp_all)
    then have "rnd28 (125 / rnd28 v) \<le> rnd28 (9 / 10)" by (intro ctx28.rnd_mono) simp
    moreover have "rnd28 (9 / 10) = 9 / 10" by (rule rnd28_on_grid [of 1]) (simp_all add: on_grid_def)
    ultimately show False using assms(3) by (simp add: le_floor_iff)
  qed
  then show "\<bar>v\<bar> * 10 ^ 14 < 10 ^ 28" using assms(2) by simp
qed

text \<open>C34: The size is the largest that the risk cap funds, and the advice is storable. For levels on
  the price grid and a rate on the rate grid, the units of a returned size cost at most the cap and
  one unit more would cost more, exactly and not only up to rounding; the projected risk is their
  cost rounded to cents, and every check of the advice's model holds, so the minimum with the cap
  never changes the projected risk.\<close>

theorem size_is_largest_funded:
  assumes "on_grid 6 entry_level" "on_grid 6 invalidation_level" "\<bar>entry_level - invalidation_level\<bar> < 10 ^ 22"
    and "on_grid 8 rate" "calculate_size entry_level invalidation_level rate = Inr (stop_distance, units, projected)"
  shows "advice_valid entry_level invalidation_level rate (stop_distance, units, projected)
    \<and> of_int units * (\<bar>entry_level - invalidation_level\<bar> * rate) \<le> setup_risk_cap_cad
    \<and> setup_risk_cap_cad < of_int (units + 1) * (\<bar>entry_level - invalidation_level\<bar> * rate)
    \<and> projected = quantize_half_up 2 (of_int units * (\<bar>entry_level - invalidation_level\<bar> * rate))"
proof -
  define s where "s = \<bar>entry_level - invalidation_level\<bar>"
  have sg: "on_grid 6 s" unfolding s_def by (intro on_grid_abs on_grid_diff assms)
  have stop: "\<bar>rnd28 (entry_level - invalidation_level)\<bar> = s"
    using rnd28_on_grid [OF sg] assms(3) by (simp add: s_def ctx28.rnd_abs)
  have pos: "0 < s" "0 < rate" using assms(5) stop by (auto simp: calculate_size_def Let_def split: if_splits)
  have grid: "on_grid 14 (s * rate)" using on_grid_mult [OF sg assms(4)] by simp
  have "1 \<le> \<lfloor>rnd28 (125 / rnd28 (s * rate))\<rfloor>"
    using assms(5) stop by (auto simp: calculate_size_def Let_def setup_risk_cap_cad_def split: if_splits)
  note n = unit_risk_exact [OF grid _ this] this
  have exact: "rnd28 (s * rate) = s * rate" using pos by (intro n(1)) simp
  have units: "units = \<lfloor>rnd28 (125 / (s * rate))\<rfloor>" "1 \<le> units" "stop_distance = s"
    "projected = min (quantize_half_up 2 (rnd28 (of_int units * (s * rate)))) 125"
    using assms(5) stop exact by (auto simp: calculate_size_def Let_def setup_risk_cap_cad_def split: if_splits)
  have bounds: "of_int units * (s * rate) \<le> 125" "125 < (of_int units + 1) * (s * rate)"
    using units_bounds [OF grid _ n(2) [unfolded exact]] pos by (simp_all add: units(1))
  have ug: "on_grid 14 (of_int units * (s * rate))" using on_grid_mult [OF on_grid_of_int grid, of units] by simp
  have nonneg: "0 \<le> of_int units * (s * rate)" using pos units(2) by simp
  have "\<bar>of_int units * (s * rate)\<bar> * 10 ^ 14 \<le> 125 * 10 ^ 14"
    by (rule mult_right_mono) (use bounds(1) nonneg in \<open>simp_all only: abs_of_nonneg\<close>, simp)
  also have "\<dots> < (10 ^ 28 :: rat)" by simp
  finally have cost: "rnd28 (of_int units * (s * rate)) = of_int units * (s * rate)" by (rule rnd28_on_grid [OF ug])
  have "0 + 1 / 10 ^ 8 \<le> rate" by (rule on_grid_above [OF assms(4) _ pos(2)]) (simp add: on_grid_def)
  then have "of_int units * s * (1 / 10 ^ 8) \<le> of_int units * s * rate"
    using pos units(2) by (intro mult_left_mono) simp_all
  then have small: "of_int units * s \<le> 125 * 10 ^ 8" using bounds(1) by (simp add: mult.assoc)
  have "\<bar>of_int units * s\<bar> * 10 ^ 6 \<le> (125 * 10 ^ 8) * 10 ^ 6"
    by (rule mult_right_mono) (use small pos units(2) in \<open>simp_all add: abs_of_nonneg\<close>)
  also have "\<dots> < (10 ^ 28 :: rat)" by simp
  finally have "rnd28 (of_int units * s) = of_int units * s"
    using on_grid_mult [OF on_grid_of_int sg, of units] by (intro rnd28_on_grid [of 6]) simp_all
  then have same: "rnd28 (rnd28 (of_int units * s) * rate) = of_int units * (s * rate)"
    using cost by (simp add: mult.assoc)
  have le: "quantize_half_up 2 (of_int units * (s * rate)) \<le> 125"
    using quantize_half_up_mono [OF nonneg bounds(1), of 2] quantize_half_up_of_nat [of 125] by simp
  have "(of_int units + 1) * (s * rate) \<le> (2 * of_int units) * (s * rate)"
    using pos units(2) by (intro mult_right_mono) simp_all
  then have "1 \<le> of_int units * (s * rate)" using bounds(2) by simp
  then have "quantize_half_up 2 1 \<le> quantize_half_up 2 (of_int units * (s * rate))" by (intro quantize_half_up_mono) simp_all
  then have gt: "0 < quantize_half_up 2 (of_int units * (s * rate))" using quantize_half_up_of_nat [of 1] by simp
  have cap: "setup_risk_cap_cad = quantize_half_up 2 (rnd28 (model_equity_cad * risk_fraction))"
    using quantize_half_up_of_nat [of 125] rnd28_on_grid [OF on_grid_of_int [of 125]]
    by (simp add: setup_risk_cap_cad_def model_equity_cad_def risk_fraction_def)
  show ?thesis unfolding s_def [symmetric] advice_valid_def
    using units bounds pos stop le gt cap same cost
    by (simp add: setup_risk_cap_cad_def model_equity_cad_def risk_fraction_def aggregate_risk_cap_cad_def
        currency_direction_risk_cap_cad_def)
qed

theorem size_is_largest_funded_witness:
  "\<exists>stop units projected. calculate_size (11 / 10) 1 (3 / 2) = Inr (stop, units, projected)
     \<and> projected = quantize_half_up 2 (of_int units * (\<bar>11 / 10 - 1\<bar> * (3 / 2)))"
proof -
  have s: "rnd28 (1 / 10) = 1 / 10" "rnd28 (3 / 20) = 3 / 20"
    by (rule rnd28_on_grid [of 2]; simp add: on_grid_def)+
  have "rnd28 1 \<le> rnd28 (2500 / 3)" by (intro ctx28.rnd_mono) simp
  moreover have "rnd28 1 = 1" using rnd28_on_grid [OF on_grid_of_int [of 1]] by simp
  ultimately have "1 \<le> \<lfloor>rnd28 (2500 / 3)\<rfloor>" by simp
  then have "\<exists>r. calculate_size (11 / 10) 1 (3 / 2) = Inr r"
    by (simp add: calculate_size_def Let_def s setup_risk_cap_cad_def) (rule exI [of _ "1 / 10"], simp)
  then obtain stop units projected where c: "calculate_size (11 / 10) 1 (3 / 2) = Inr (stop, units, projected)"
    by (metis prod_cases3)
  have "on_grid 6 (11 / 10)" "on_grid 6 1" "\<bar>11 / 10 - 1 :: rat\<bar> < 10 ^ 22" "on_grid 8 (3 / 2)"
    by (simp_all add: on_grid_def)
  from size_is_largest_funded [OF this c] c show ?thesis by blast
qed

definition eur_usd :: instrument where
  [model_defs]: "eur_usd = \<lparr>in_id = 1, in_code = ''EUR_USD'', in_base = ''EUR'', in_quote = ''USD''\<rparr>"

definition usd_cad :: instrument where
  [model_defs]: "usd_cad = \<lparr>in_id = 2, in_code = ''USD_CAD'', in_base = ''USD'', in_quote = ''CAD''\<rparr>"

definition hourly_row :: "int \<Rightarrow> market_row" where
  [model_defs]: "hourly_row i = \<lparr>q_bid_open = 1, q_bid_high = 1, q_bid_low = 1, q_bid_close = 1,
     q_ask_open = 1, q_ask_high = 1, q_ask_low = 1, q_ask_close = 1, mr_id = i, mr_instrument = i,
     mr_granularity = GH1, mr_timestamp = 0, mr_complete = True, mr_run_succeeded = True,
     mr_run_finished = Some 1, mr_sha = ''''\<rparr>"

theorem conversion_search_is_complete_witness:
  "\<exists>rate p. quote_to_cad [hourly_row 1, hourly_row 2] [eur_usd, usd_cad] ''EUR'' 2 = Inr (rate, p)
     \<and> rate = quantize 8 (rate_along p)"
proof -
  let ?e = "edges_of_candle eur_usd (hourly_row 1) @ edges_of_candle usd_cad (hourly_row 2)"
  have "newest_candle [hourly_row 1, hourly_row 2] eur_usd 2 = Some (hourly_row 1)"
    "newest_candle [hourly_row 1, hourly_row 2] usd_cad 2 = Some (hourly_row 2)"
    by (simp_all add: newest_candle_def eur_usd_def usd_cad_def hourly_row_def finished_by_def)
  moreover have "midpoint_close (hourly_row i) \<noteq> 0" for i
    by (simp add: midpoint_close_def midpoint_def hourly_row_def)
  ultimately have e: "conversion_edges [hourly_row 1, hourly_row 2] 2 [eur_usd, usd_cad] = Some ?e" by simp
  have "walk ?e ''EUR'' [hd (edges_of_candle eur_usd (hourly_row 1)), hd (edges_of_candle usd_cad (hourly_row 2))] ''CAD''"
    by (simp add: edges_of_candle_def eur_usd_def usd_cad_def)
  then have "\<exists>p. walk ?e ''EUR'' p ''CAD''" by blast
  then show ?thesis using conversion_search_is_complete [OF e, of "''EUR''"]
    by (auto split: sum.splits prod.splits)
qed

end
