(* ===== verification/Jobs.thy ===== *)
theory Jobs
  imports Calendar
begin

text \<open>
  The durable job queue of \<^verbatim>\<open>operations/services.py\<close>: scheduled jobs, their occurrences, worker leases,
  retries and the append-only failure records. A queue is the rows of the three tables; each call is
  one transaction, so calls do not overlap. An idempotency key is the pair that its text is printed
  from. Of an error, the code and summary that are stored for it are parameters of \<^verbatim>\<open>finish_job\<close>, which
  takes the worker that finishes; \<open>finish_call\<close> is the call with its fallbacks for the worker.
\<close>

section \<open>Rows\<close>

datatype missed_run_policy = RunLatest | RunAll | RunSkip

text \<open>The schedule: an interval in seconds, which may be unset, or a wall time of day in a zone.\<close>

datatype schedule = Interval "int option" | Daily zone duration

record scheduled_job =
  sj_id :: int
  sj_task :: string
  sj_schedule :: schedule
  sj_policy :: missed_run_policy
  sj_next_run_at :: instant
  sj_enabled :: bool

datatype job_status = Queued | Running | Succeeded | Failed

record occurrence =
  oc_id :: int
  oc_key :: "int \<times> instant"
  oc_task :: string
  oc_status :: job_status
  oc_attempts :: nat
  oc_max_attempts :: nat
  oc_scheduled_for :: instant
  oc_available_at :: instant
  oc_started_at :: "instant option"
  oc_finished_at :: "instant option"
  oc_lease_owner :: string
  oc_lease_expires :: "instant option"
  oc_heartbeat :: "instant option"
  oc_deadline :: "instant option"
  oc_timeout_seconds :: nat
  oc_lateness_seconds :: int
  oc_skipped :: nat
  oc_error_code :: string
  oc_error_summary :: string

record failure =
  fa_occurrence :: int
  fa_attempt :: nat
  fa_code :: string
  fa_terminal :: bool
  fa_occurred_at :: instant

record queue =
  qu_jobs :: "scheduled_job list"
  qu_occurrences :: "occurrence list"
  qu_failures :: "failure list"
  qu_next_id :: int

definition lease_duration :: duration where [model_defs]: "lease_duration = minutes 5"
definition max_catchup_occurrences :: nat where [model_defs]: "max_catchup_occurrences = 1000"

section \<open>Due occurrences\<close>

text \<open>\<^verbatim>\<open>_advance\<close> of a daily job: the same wall time of the next local date.\<close>

definition advance_daily :: "zone \<Rightarrow> duration \<Rightarrow> instant \<Rightarrow> instant" where
  [model_defs]: "advance_daily z local_time t = to_utc z ((to_local z t div days 1 + 1) * days 1 + local_time)"

text \<open>The loop over the due instants of a daily job: the due ones in reverse order and the next.\<close>

partial_function (option) daily_due :: "zone \<Rightarrow> duration \<Rightarrow> instant \<Rightarrow> instant \<Rightarrow> instant list \<Rightarrow> (instant list \<times> instant) option" where
  "daily_due z local_time now cursor due =
     (if cursor \<le> now then daily_due z local_time now (advance_daily z local_time cursor) (cursor # due)
      else Some (rev due, cursor))"

text \<open>The number of due instants and the next run of an interval job.\<close>

definition interval_due_count :: "duration \<Rightarrow> instant \<Rightarrow> instant \<Rightarrow> int" where
  [model_defs]: "interval_due_count interval cursor now = (now - cursor) div interval + 1"

definition select_due :: "missed_run_policy \<Rightarrow> instant list \<Rightarrow> instant list" where
  [model_defs]: "select_due policy due =
     (case policy of
        RunAll \<Rightarrow> last_n max_catchup_occurrences due
      | RunLatest \<Rightarrow> last_n 1 due
      | RunSkip \<Rightarrow> [])"

definition select_interval :: "missed_run_policy \<Rightarrow> duration \<Rightarrow> instant \<Rightarrow> int \<Rightarrow> instant list" where
  [model_defs]: "select_interval policy interval cursor due_count =
     (case policy of
        RunAll \<Rightarrow> map (\<lambda>i. cursor + i * interval) [max 0 (due_count - int max_catchup_occurrences)..due_count - 1]
      | RunLatest \<Rightarrow> [cursor + (due_count - 1) * interval]
      | RunSkip \<Rightarrow> [])"

datatype job_error = NoInterval | DailyNeverEnds | NoSuchOccurrence | NoDeadline

text \<open>The selected instants, the number of skipped ones and the next run of a due job. An unset
  interval is a \<^verbatim>\<open>TypeError\<close>, a zero interval a \<^verbatim>\<open>ZeroDivisionError\<close>.\<close>

definition due_runs :: "scheduled_job \<Rightarrow> instant \<Rightarrow> job_error + (instant list \<times> int \<times> instant)" where
  [model_defs]: "due_runs job now =
     (case sj_schedule job of
        Interval s \<Rightarrow>
          (case s of
             None \<Rightarrow> Inl NoInterval
           | Some secs \<Rightarrow>
               if secs = 0 then Inl NoInterval
               else
                 (let interval = seconds secs;
                      due_count = interval_due_count interval (sj_next_run_at job) now;
                      selected = select_interval (sj_policy job) interval (sj_next_run_at job) due_count
                  in Inr (selected, due_count - int (length selected), sj_next_run_at job + due_count * interval)))
      | Daily z local_time \<Rightarrow>
          (case daily_due z local_time now (sj_next_run_at job) [] of
             None \<Rightarrow> Inl DailyNeverEnds
           | Some (due, next_run) \<Rightarrow>
               (let selected = select_due (sj_policy job) due in
                Inr (selected, int (length due) - int (length selected), next_run))))"

section \<open>Enqueueing\<close>

text \<open>\<^verbatim>\<open>JobOccurrence.objects.get_or_create\<close> for one selected instant: the new occurrences so far and
  the queue.\<close>

definition new_occurrence :: "int \<Rightarrow> scheduled_job \<Rightarrow> instant \<Rightarrow> int \<Rightarrow> instant \<Rightarrow> occurrence" where
  [model_defs]: "new_occurrence new_id job now skipped scheduled_for =
     \<lparr>oc_id = new_id, oc_key = (sj_id job, scheduled_for), oc_task = sj_task job, oc_status = Queued,
      oc_attempts = 0, oc_max_attempts = 3, oc_scheduled_for = scheduled_for, oc_available_at = now,
      oc_started_at = None, oc_finished_at = None, oc_lease_owner = '''', oc_lease_expires = None,
      oc_heartbeat = None, oc_deadline = None, oc_timeout_seconds = 900,
      oc_lateness_seconds = max 0 ((now - scheduled_for) div seconds 1), oc_skipped = nat skipped,
      oc_error_code = '''', oc_error_summary = ''''\<rparr>"

definition get_or_create_occurrence ::
  "scheduled_job \<Rightarrow> instant \<Rightarrow> int \<Rightarrow> instant \<Rightarrow> occurrence list \<times> queue \<Rightarrow> occurrence list \<times> queue" where
  [model_defs]: "get_or_create_occurrence job now skipped scheduled_for st =
     (let (created, q) = st in
      if list_ex (\<lambda>x. oc_key x = (sj_id job, scheduled_for)) (qu_occurrences q) then (created, q)
      else
        (let x = new_occurrence (qu_next_id q) job now skipped scheduled_for in
         (created @ [x], q\<lparr>qu_occurrences := qu_occurrences q @ [x], qu_next_id := qu_next_id q + 1\<rparr>)))"

definition set_next_run :: "int \<Rightarrow> instant \<Rightarrow> queue \<Rightarrow> queue" where
  [model_defs]: "set_next_run job_id next_run q =
     q\<lparr>qu_jobs := map (\<lambda>j. if sj_id j = job_id then j\<lparr>sj_next_run_at := next_run\<rparr> else j) (qu_jobs q)\<rparr>"

definition enqueue_job :: "instant \<Rightarrow> scheduled_job \<Rightarrow> occurrence list \<times> queue \<Rightarrow> job_error + (occurrence list \<times> queue)" where
  [model_defs]: "enqueue_job now job st =
     (case due_runs job now of
        Inl e \<Rightarrow> Inl e
      | Inr (selected, skipped, next_run) \<Rightarrow>
          Inr (fold (get_or_create_occurrence job now skipped) selected
                 (fst st, set_next_run (sj_id job) next_run (snd st))))"

fun enqueue_jobs :: "instant \<Rightarrow> scheduled_job list \<Rightarrow> occurrence list \<times> queue \<Rightarrow> job_error + (occurrence list \<times> queue)" where
  "enqueue_jobs now [] st = Inr st"
| "enqueue_jobs now (job # jobs) st =
     (case enqueue_job now job st of Inl e \<Rightarrow> Inl e | Inr st' \<Rightarrow> enqueue_jobs now jobs st')"

text \<open>\<^verbatim>\<open>enqueue_due_jobs\<close>: the due jobs are in the order of their next run.\<close>

definition enqueue_due_jobs :: "instant \<Rightarrow> queue \<Rightarrow> job_error + (occurrence list \<times> queue)" where
  [model_defs]: "enqueue_due_jobs now q =
     enqueue_jobs now (sort_key sj_next_run_at (filter (\<lambda>j. sj_enabled j \<and> sj_next_run_at j \<le> now) (qu_jobs q))) ([], q)"

section \<open>Claiming\<close>

text \<open>A nullable instant at or before another: a null never matches.\<close>

definition reached :: "instant option \<Rightarrow> instant \<Rightarrow> bool" where
  [model_defs]: "reached v now \<longleftrightarrow> (case v of None \<Rightarrow> False | Some t \<Rightarrow> t \<le> now)"

definition lease_lost :: "instant \<Rightarrow> occurrence \<Rightarrow> bool" where
  [model_defs]: "lease_lost now x \<longleftrightarrow>
     oc_status x = Running \<and>
     (oc_lease_owner x = '''' \<or> oc_lease_expires x = None \<or> reached (oc_lease_expires x) now \<or> reached (oc_deadline x) now)"

text \<open>\<^verbatim>\<open>TaskFailure.objects.get_or_create\<close>.\<close>

definition record_failure :: "failure \<Rightarrow> failure list \<Rightarrow> failure list" where
  [model_defs]: "record_failure f fs =
     (if list_ex (\<lambda>g. fa_occurrence g = fa_occurrence f \<and> fa_attempt g = fa_attempt f) fs then fs else fs @ [f])"

definition set_occurrence :: "occurrence \<Rightarrow> queue \<Rightarrow> queue" where
  [model_defs]: "set_occurrence x q = q\<lparr>qu_occurrences := map (\<lambda>y. if oc_id y = oc_id x then x else y) (qu_occurrences q)\<rparr>"

text \<open>A stale occurrence: its last attempt failed, and it is queued again or failed for good.\<close>

definition exhausted :: "occurrence \<Rightarrow> bool" where
  [model_defs]: "exhausted x \<longleftrightarrow> oc_max_attempts x \<le> oc_attempts x"

definition reclaimed :: "instant \<Rightarrow> occurrence \<Rightarrow> occurrence" where
  [model_defs]: "reclaimed now x =
     (let x = x\<lparr>oc_lease_owner := '''', oc_lease_expires := None, oc_heartbeat := None,
            oc_error_code := ''lease_expired'', oc_error_summary := ''Worker lease expired''\<rparr>
      in if exhausted x then x\<lparr>oc_status := Failed, oc_finished_at := Some now\<rparr>
         else x\<lparr>oc_status := Queued, oc_available_at := now\<rparr>)"

definition reclaim :: "instant \<Rightarrow> occurrence \<Rightarrow> queue \<Rightarrow> queue" where
  [model_defs]: "reclaim now x q =
     (let q = set_occurrence (reclaimed now x) q in
      if oc_attempts x = 0 then q
      else q\<lparr>qu_failures := record_failure \<lparr>fa_occurrence = oc_id x, fa_attempt = oc_attempts x, fa_code = ''lease_expired'',
             fa_terminal = exhausted x, fa_occurred_at = now\<rparr> (qu_failures q)\<rparr>)"

definition reclaim_all :: "instant \<Rightarrow> queue \<Rightarrow> queue" where
  [model_defs]: "reclaim_all now q = fold (reclaim now) (filter (lease_lost now) (qu_occurrences q)) q"

definition claimable :: "instant \<Rightarrow> occurrence \<Rightarrow> bool" where
  [model_defs]: "claimable now x \<longleftrightarrow> oc_status x = Queued \<and> oc_available_at x \<le> now"

definition claimed :: "string \<Rightarrow> instant \<Rightarrow> duration \<Rightarrow> occurrence \<Rightarrow> occurrence" where
  [model_defs]: "claimed worker now lease x =
     x\<lparr>oc_status := Running, oc_attempts := oc_attempts x + 1, oc_started_at := Some now, oc_lease_owner := worker,
       oc_heartbeat := Some now, oc_lease_expires := Some (now + lease),
       oc_deadline := Some (now + seconds (int (oc_timeout_seconds x))), oc_error_code := '''', oc_error_summary := ''''\<rparr>"

definition claim_next_job :: "string \<Rightarrow> instant \<Rightarrow> duration \<Rightarrow> queue \<Rightarrow> occurrence option \<times> queue" where
  [model_defs]: "claim_next_job worker now lease q =
     (let q = reclaim_all now q in
      case first_min_by (\<lambda>x. (oc_available_at x, oc_id x)) (filter (claimable now) (qu_occurrences q)) of
        None \<Rightarrow> (None, q)
      | Some x \<Rightarrow> (Some (claimed worker now lease x), set_occurrence (claimed worker now lease x) q))"

section \<open>Heartbeat and completion\<close>

definition find_occurrence :: "queue \<Rightarrow> int \<Rightarrow> occurrence option" where
  [model_defs]: "find_occurrence q n = List.find (\<lambda>x. oc_id x = n) (qu_occurrences q)"

definition holds_lease :: "string \<Rightarrow> occurrence \<Rightarrow> bool" where
  [model_defs]: "holds_lease worker x \<longleftrightarrow> oc_status x = Running \<and> oc_lease_owner x = worker"

definition heartbeat_job :: "int \<Rightarrow> string \<Rightarrow> instant \<Rightarrow> duration \<Rightarrow> queue \<Rightarrow> job_error + (bool \<times> queue)" where
  [model_defs]: "heartbeat_job n worker now lease q =
     (case find_occurrence q n of
        None \<Rightarrow> Inl NoSuchOccurrence
      | Some x \<Rightarrow>
          if \<not> holds_lease worker x then Inr (False, q)
          else if reached (oc_deadline x) now then Inr (False, set_occurrence (x\<lparr>oc_lease_expires := Some now\<rparr>) q)
          else (case oc_deadline x of
                  None \<Rightarrow> Inl NoDeadline
                | Some deadline \<Rightarrow>
                    Inr (True, set_occurrence (x\<lparr>oc_heartbeat := Some now, oc_lease_expires := Some (min (now + lease) deadline)\<rparr>) q)))"

text \<open>The delay before a retry: 30 seconds, doubled with every attempt.\<close>

definition retry_delay :: "nat \<Rightarrow> duration" where
  [model_defs]: "retry_delay attempts = (if attempts = 0 then seconds 15 else seconds (30 * 2 ^ (attempts - 1)))"

definition finished :: "instant \<Rightarrow> (string \<times> string) option \<Rightarrow> occurrence \<Rightarrow> occurrence" where
  [model_defs]: "finished now err x =
     (let x = x\<lparr>oc_lease_owner := '''', oc_lease_expires := None, oc_heartbeat := None\<rparr>;
          x = (if err \<noteq> None \<and> \<not> exhausted x
               then x\<lparr>oc_status := Queued, oc_available_at := now + retry_delay (oc_attempts x)\<rparr>
               else x\<lparr>oc_status := (if err \<noteq> None then Failed else Succeeded), oc_finished_at := Some now\<rparr>)
      in case err of
           None \<Rightarrow> x\<lparr>oc_error_code := '''', oc_error_summary := ''''\<rparr>
         | Some (code, summary) \<Rightarrow> x\<lparr>oc_error_code := code, oc_error_summary := summary\<rparr>)"

definition finish_job :: "int \<Rightarrow> string \<Rightarrow> instant \<Rightarrow> (string \<times> string) option \<Rightarrow> queue \<Rightarrow> job_error + (bool \<times> queue)" where
  [model_defs]: "finish_job n worker now err q =
     (case find_occurrence q n of
        None \<Rightarrow> Inl NoSuchOccurrence
      | Some x \<Rightarrow>
          if \<not> holds_lease worker x then Inr (False, q)
          else
            (let q = set_occurrence (finished now err x) q in
             Inr (True, case err of
                          None \<Rightarrow> q
                        | Some (code, summary) \<Rightarrow>
                            q\<lparr>qu_failures := record_failure \<lparr>fa_occurrence = oc_id x, fa_attempt = oc_attempts x,
                               fa_code = code, fa_terminal = exhausted x, fa_occurred_at = now\<rparr> (qu_failures q)\<rparr>)))"

text \<open>Who finishes: the worker that is passed, else the owner on the copy of the row that the caller holds, else
  the legacy worker. The older call, which passes the error in the place of the worker, passes none.\<close>

definition finish_worker :: "string option \<Rightarrow> string \<Rightarrow> string" where
  [model_defs]: "finish_worker passed held =
     (case passed of
        Some w \<Rightarrow> if w \<noteq> '''' then w else if held \<noteq> '''' then held else ''legacy-worker''
      | None \<Rightarrow> if held \<noteq> '''' then held else ''legacy-worker'')"

definition finish_call ::
  "occurrence \<Rightarrow> string option \<Rightarrow> instant \<Rightarrow> (string \<times> string) option \<Rightarrow> queue \<Rightarrow> job_error + (bool \<times> queue)" where
  [model_defs]: "finish_call held passed now err q = finish_job (oc_id held) (finish_worker passed (oc_lease_owner held)) now err q"

lemma finish_worker_named [simp]: "finish_worker passed held \<noteq> ''''"
  by (simp add: finish_worker_def split: option.splits)

text \<open>A caller that passes no worker and holds an old copy of the row, from before another worker claimed it, is refused.\<close>

lemma finish_call_stale:
  assumes "find_occurrence q (oc_id held) = Some x" "oc_lease_owner x \<noteq> oc_lease_owner held" "oc_lease_owner held \<noteq> ''''"
  shows "finish_call held None now err q = Inr (False, q)"
  using assms by (simp add: finish_call_def finish_worker_def finish_job_def holds_lease_def)

section \<open>The invariant of the queue\<close>

text \<open>The attempts of an occurrence that have failed: all that were started, but for the one that runs
  or has succeeded.\<close>

definition failed_attempts :: "occurrence \<Rightarrow> nat set" where
  "failed_attempts x = (if oc_status x \<in> {Running, Succeeded} then {1..<oc_attempts x} else {1..oc_attempts x})"

definition occurrence_ok :: "occurrence \<Rightarrow> bool" where
  "occurrence_ok x \<longleftrightarrow>
     oc_attempts x \<le> oc_max_attempts x \<and>
     (case oc_status x of
        Queued \<Rightarrow> oc_attempts x < oc_max_attempts x \<and> oc_lease_owner x = ''''
      | Running \<Rightarrow> 0 < oc_attempts x \<and> oc_lease_expires x \<noteq> None \<and> oc_deadline x \<noteq> None
      | Succeeded \<Rightarrow> 0 < oc_attempts x \<and> oc_finished_at x \<noteq> None \<and> oc_lease_owner x = ''''
      | Failed \<Rightarrow> oc_attempts x = oc_max_attempts x \<and> oc_finished_at x \<noteq> None \<and> oc_lease_owner x = '''')"

text \<open>The failure log of one occurrence.\<close>

definition log_of :: "failure list \<Rightarrow> int \<Rightarrow> failure list" where
  "log_of fs n = filter (\<lambda>f. fa_occurrence f = n) fs"

definition log_ok :: "failure list \<Rightarrow> occurrence \<Rightarrow> bool" where
  "log_ok fs x \<longleftrightarrow> distinct (map fa_attempt (log_of fs (oc_id x)))
     \<and> set (map fa_attempt (log_of fs (oc_id x))) = failed_attempts x
     \<and> (\<forall>f \<in> set (log_of fs (oc_id x)). fa_terminal f \<longleftrightarrow> fa_attempt f = oc_max_attempts x)"

definition queue_ok :: "queue \<Rightarrow> bool" where
  "queue_ok q \<longleftrightarrow>
     distinct (map oc_id (qu_occurrences q)) \<and> distinct (map oc_key (qu_occurrences q)) \<and>
     (\<forall>x \<in> set (qu_occurrences q). oc_id x < qu_next_id q \<and> occurrence_ok x \<and> log_ok (qu_failures q) x) \<and>
     (\<forall>f \<in> set (qu_failures q). fa_occurrence f < qu_next_id q)"

lemma set_occurrence_ids [simp]: "map oc_id (qu_occurrences (set_occurrence y q)) = map oc_id (qu_occurrences q)"
  by (simp add: set_occurrence_def)

lemma set_occurrence_rows:
  assumes "distinct (map oc_id (qu_occurrences q))" "x \<in> set (qu_occurrences q)" "oc_id y = oc_id x"
  shows "qu_occurrences (set_occurrence y q) = map (\<lambda>z. if z = x then y else z) (qu_occurrences q)"
  using assms by (auto simp: set_occurrence_def distinct_map inj_on_def)

lemma set_occurrence_frame [simp]:
  "qu_failures (set_occurrence y q) = qu_failures q" "qu_next_id (set_occurrence y q) = qu_next_id q"
  "qu_jobs (set_occurrence y q) = qu_jobs q"
  by (simp_all add: set_occurrence_def)

lemma record_failure_other: "n \<noteq> fa_occurrence f \<Longrightarrow> log_of (record_failure f fs) n = log_of fs n"
  by (simp add: record_failure_def log_of_def)

lemma record_failure_new:
  assumes "fa_attempt f \<notin> set (map fa_attempt (log_of fs (fa_occurrence f)))"
  shows "log_of (record_failure f fs) (fa_occurrence f) = log_of fs (fa_occurrence f) @ [f]"
proof -
  have "\<not> list_ex (\<lambda>g. fa_occurrence g = fa_occurrence f \<and> fa_attempt g = fa_attempt f) fs"
  proof
    assume "list_ex (\<lambda>g. fa_occurrence g = fa_occurrence f \<and> fa_attempt g = fa_attempt f) fs"
    then obtain g where "g \<in> set (log_of fs (fa_occurrence f))" "fa_attempt g = fa_attempt f"
      by (auto simp: list_ex_iff log_of_def)
    then show False using assms image_eqI [of "fa_attempt f" fa_attempt g] by simp
  qed
  then show ?thesis by (simp add: record_failure_def log_of_def)
qed

lemma record_failure_set: "set (record_failure f fs) \<subseteq> insert f (set fs)"
  by (auto simp: record_failure_def)

text \<open>Replacing one row, with its log.\<close>

lemma queue_ok_update:
  assumes "queue_ok q" "x \<in> set (qu_occurrences q)" "oc_id y = oc_id x" "oc_key y = oc_key x"
    and "occurrence_ok y" "log_ok fs y" "\<And>n. n \<noteq> oc_id x \<Longrightarrow> log_of fs n = log_of (qu_failures q) n"
    and "\<forall>f \<in> set fs. fa_occurrence f < qu_next_id q"
  shows "queue_ok (set_occurrence y q\<lparr>qu_failures := fs\<rparr>)"
proof -
  have rows: "qu_occurrences (set_occurrence y q) = map (\<lambda>z. if z = x then y else z) (qu_occurrences q)"
    using assms by (intro set_occurrence_rows) (auto simp: queue_ok_def)
  let ?q = "set_occurrence y q\<lparr>qu_failures := fs\<rparr>"
  have ids: "map oc_id (qu_occurrences ?q) = map oc_id (qu_occurrences q)" by simp
  have keys: "map oc_key (qu_occurrences ?q) = map oc_key (qu_occurrences q)"
    using rows assms(4) by simp
  have "log_ok fs z" if "z \<in> set (qu_occurrences q)" "z \<noteq> x" for z
  proof -
    have "oc_id z \<noteq> oc_id x" using assms(1,2) that by (auto simp: queue_ok_def distinct_map inj_on_def)
    then show ?thesis using assms(1,7) that by (simp add: queue_ok_def log_ok_def)
  qed
  moreover have "oc_id y < qu_next_id q" using assms by (auto simp: queue_ok_def)
  ultimately show ?thesis using assms unfolding queue_ok_def ids keys by (auto simp: rows)
qed

text \<open>A row whose log stays the same, and a running row whose attempt fails.\<close>

lemma queue_ok_set:
  assumes "queue_ok q" "x \<in> set (qu_occurrences q)" "oc_id y = oc_id x" "oc_key y = oc_key x"
    and "occurrence_ok y" "failed_attempts y = failed_attempts x" "oc_max_attempts y = oc_max_attempts x"
  shows "queue_ok (set_occurrence y q)"
proof -
  have "queue_ok (set_occurrence y q\<lparr>qu_failures := qu_failures q\<rparr>)"
    using assms by (intro queue_ok_update [where x = x]) (auto simp: queue_ok_def log_ok_def)
  moreover have "set_occurrence y q\<lparr>qu_failures := qu_failures q\<rparr> = set_occurrence y q"
    by (simp add: set_occurrence_def)
  ultimately show ?thesis by simp
qed

lemma queue_ok_fail:
  assumes "queue_ok q" "x \<in> set (qu_occurrences q)" "oc_status x = Running"
    and "oc_id y = oc_id x" "oc_key y = oc_key x" "oc_max_attempts y = oc_max_attempts x" "oc_attempts y = oc_attempts x"
    and "occurrence_ok y" "oc_status y \<in> {Queued, Failed}"
    and "fa_occurrence f = oc_id x" "fa_attempt f = oc_attempts x" "fa_terminal f = exhausted x"
  shows "queue_ok (set_occurrence y q\<lparr>qu_failures := record_failure f (qu_failures q)\<rparr>)"
proof (rule queue_ok_update [where x = x])
  have x: "occurrence_ok x" "log_ok (qu_failures q) x" "oc_id x < qu_next_id q"
    using assms(1,2) by (auto simp: queue_ok_def)
  then have "fa_attempt f \<notin> set (map fa_attempt (log_of (qu_failures q) (fa_occurrence f)))"
    using assms by (simp add: log_ok_def failed_attempts_def)
  note log = record_failure_new [OF this]
  have "0 < oc_attempts x" using x(1) assms(3) by (simp add: occurrence_ok_def)
  then have "failed_attempts y = insert (oc_attempts x) (failed_attempts x)"
    using assms by (auto simp: failed_attempts_def)
  moreover have "exhausted x \<longleftrightarrow> oc_attempts x = oc_max_attempts x"
    using x(1) by (auto simp: exhausted_def occurrence_ok_def)
  ultimately show "log_ok (record_failure f (qu_failures q)) y"
    using x(2) log assms by (auto simp: log_ok_def failed_attempts_def)
  show "\<forall>f \<in> set (record_failure f (qu_failures q)). fa_occurrence f < qu_next_id q"
    using assms(1,10) x(3) record_failure_set [of f "qu_failures q"] by (auto simp: queue_ok_def)
qed (use assms record_failure_other in auto)

lemma reclaimed_fields [simp]:
  "oc_id (reclaimed now x) = oc_id x" "oc_key (reclaimed now x) = oc_key x"
  "oc_max_attempts (reclaimed now x) = oc_max_attempts x" "oc_attempts (reclaimed now x) = oc_attempts x"
  "oc_status (reclaimed now x) = (if exhausted x then Failed else Queued)"
  by (simp_all add: reclaimed_def Let_def exhausted_def)

lemma finished_fields [simp]:
  "oc_id (finished now err x) = oc_id x" "oc_key (finished now err x) = oc_key x"
  "oc_max_attempts (finished now err x) = oc_max_attempts x" "oc_attempts (finished now err x) = oc_attempts x"
  "oc_status (finished now err x) = (if err = None then Succeeded else if exhausted x then Failed else Queued)"
  by (simp_all add: finished_def Let_def exhausted_def split: option.split)

lemma reclaimed_ok: "occurrence_ok x \<Longrightarrow> occurrence_ok (reclaimed now x)"
  by (auto simp: reclaimed_def occurrence_ok_def exhausted_def Let_def)

lemma finished_ok: "occurrence_ok x \<Longrightarrow> oc_status x = Running \<Longrightarrow> occurrence_ok (finished now err x)"
  by (auto simp: finished_def occurrence_ok_def exhausted_def Let_def split: option.split)

lemma queue_ok_reclaim:
  assumes "queue_ok q" "x \<in> set (qu_occurrences q)" "oc_status x = Running"
  shows "queue_ok (reclaim now x q)"
proof -
  have "occurrence_ok x" using assms(1,2) by (simp add: queue_ok_def)
  then have "0 < oc_attempts x" "occurrence_ok (reclaimed now x)"
    using assms(3) reclaimed_ok by (simp_all add: occurrence_ok_def)
  then show ?thesis using queue_ok_fail [OF assms, of "reclaimed now x"] by (simp add: reclaim_def Let_def)
qed

text \<open>The rows after the stale ones are reclaimed.\<close>

lemma reclaim_rows:
  assumes "distinct (map oc_id (qu_occurrences q))" "x \<in> set (qu_occurrences q)"
  shows "qu_occurrences (reclaim now x q) = map (\<lambda>z. if oc_id z = oc_id x then reclaimed now z else z) (qu_occurrences q)"
proof -
  have "qu_occurrences (reclaim now x q) = map (\<lambda>z. if z = x then reclaimed now x else z) (qu_occurrences q)"
    using set_occurrence_rows [OF assms, of "reclaimed now x"] by (simp add: reclaim_def Let_def)
  also have "\<dots> = map (\<lambda>z. if oc_id z = oc_id x then reclaimed now z else z) (qu_occurrences q)"
    using assms by (auto simp: distinct_map inj_on_def)
  finally show ?thesis .
qed

lemma reclaim_fold:
  assumes "queue_ok q" "set xs \<subseteq> set (qu_occurrences q)" "\<forall>x \<in> set xs. oc_status x = Running" "distinct (map oc_id xs)"
  shows "queue_ok (fold (reclaim now) xs q) \<and> qu_next_id (fold (reclaim now) xs q) = qu_next_id q
    \<and> qu_occurrences (fold (reclaim now) xs q)
      = map (\<lambda>z. if oc_id z \<in> oc_id ` set xs then reclaimed now z else z) (qu_occurrences q)"
  using assms
proof (induction xs arbitrary: q)
  case (Cons x xs)
  have ids: "distinct (map oc_id (qu_occurrences q))" using Cons.prems(1) by (simp add: queue_ok_def)
  have x: "x \<in> set (qu_occurrences q)" using Cons.prems(2) by simp
  note rows = reclaim_rows [OF ids x, of now]
  have "set xs \<subseteq> set (qu_occurrences (reclaim now x q))"
  proof
    fix y assume "y \<in> set xs"
    then have "y \<in> set (qu_occurrences q)" "oc_id y \<in> oc_id ` set xs" using Cons.prems by auto
    moreover have "oc_id x \<notin> oc_id ` set xs" using Cons.prems(4) by simp
    ultimately have "y \<in> set (qu_occurrences q)" "oc_id y \<noteq> oc_id x" by metis+
    then show "y \<in> set (qu_occurrences (reclaim now x q))" unfolding rows by (auto intro!: image_eqI [of _ _ y])
  qed
  moreover have "queue_ok (reclaim now x q)" using Cons.prems x by (intro queue_ok_reclaim) auto
  moreover have "qu_next_id (reclaim now x q) = qu_next_id q" by (simp add: reclaim_def Let_def)
  ultimately have "queue_ok (fold (reclaim now) xs (reclaim now x q))
      \<and> qu_next_id (fold (reclaim now) xs (reclaim now x q)) = qu_next_id q
      \<and> qu_occurrences (fold (reclaim now) xs (reclaim now x q))
        = map (\<lambda>z. if oc_id z \<in> oc_id ` set xs then reclaimed now z else z) (qu_occurrences (reclaim now x q))"
    using Cons.IH [of "reclaim now x q"] Cons.prems by simp
  then show ?case using Cons.prems(4) unfolding rows by auto
qed simp

lemma reclaim_all_rows:
  assumes "queue_ok q"
  shows "queue_ok (reclaim_all now q)" "qu_next_id (reclaim_all now q) = qu_next_id q"
    "qu_occurrences (reclaim_all now q) = map (\<lambda>z. if lease_lost now z then reclaimed now z else z) (qu_occurrences q)"
proof -
  let ?xs = "filter (lease_lost now) (qu_occurrences q)"
  have ids: "distinct (map oc_id (qu_occurrences q))" using assms by (simp add: queue_ok_def)
  then have "distinct (map oc_id ?xs)" by (simp add: distinct_map_filter)
  then have r: "queue_ok (reclaim_all now q) \<and> qu_next_id (reclaim_all now q) = qu_next_id q
      \<and> qu_occurrences (reclaim_all now q) = map (\<lambda>z. if oc_id z \<in> oc_id ` set ?xs then reclaimed now z else z) (qu_occurrences q)"
    unfolding reclaim_all_def using assms by (intro reclaim_fold) (auto simp: lease_lost_def)
  have "oc_id z \<in> oc_id ` set ?xs \<longleftrightarrow> lease_lost now z" if "z \<in> set (qu_occurrences q)" for z
    using that ids by (auto simp: distinct_map inj_on_def)
  then show "qu_occurrences (reclaim_all now q) = map (\<lambda>z. if lease_lost now z then reclaimed now z else z) (qu_occurrences q)"
    using r by simp
  show "queue_ok (reclaim_all now q)" "qu_next_id (reclaim_all now q) = qu_next_id q" using r by simp_all
qed

lemma claimed_ok: "occurrence_ok x \<Longrightarrow> oc_status x = Queued \<Longrightarrow> occurrence_ok (claimed worker now lease x)"
  by (auto simp: claimed_def occurrence_ok_def)

lemma claim_cases:
  assumes "queue_ok q" "claim_next_job worker now lease q = (r, q')"
  obtains (idle) "r = None" "q' = reclaim_all now q" "\<forall>x \<in> set (qu_occurrences (reclaim_all now q)). \<not> claimable now x"
  | (job) x where "x \<in> set (qu_occurrences (reclaim_all now q))" "claimable now x" "r = Some (claimed worker now lease x)"
      "q' = set_occurrence (claimed worker now lease x) (reclaim_all now q)"
      "\<forall>y \<in> set (qu_occurrences (reclaim_all now q)). claimable now y \<longrightarrow> (oc_available_at x, oc_id x) \<le> (oc_available_at y, oc_id y)"
proof (cases "first_min_by (\<lambda>x. (oc_available_at x, oc_id x)) (filter (claimable now) (qu_occurrences (reclaim_all now q)))")
  case None
  then show ?thesis using idle assms(2) by (auto simp: claim_next_job_def Let_def filter_empty_conv)
next
  case (Some x)
  then show ?thesis using job [of x] first_min_by_Some [OF Some] assms(2) by (auto simp: claim_next_job_def Let_def)
qed

lemma queue_ok_claim:
  assumes "queue_ok q" "claim_next_job worker now lease q = (r, q')"
  shows "queue_ok q'"
proof -
  note ok = reclaim_all_rows(1) [OF assms(1), of now]
  show ?thesis
  proof (rule claim_cases [OF assms])
    fix x assume x: "x \<in> set (qu_occurrences (reclaim_all now q))" "claimable now x"
      "q' = set_occurrence (claimed worker now lease x) (reclaim_all now q)"
    have "occurrence_ok x" using ok x(1) by (simp add: queue_ok_def)
    then have "occurrence_ok (claimed worker now lease x)" using x(2) claimed_ok by (simp add: claimable_def)
    moreover have "failed_attempts (claimed worker now lease x) = failed_attempts x"
      using x(2) by (auto simp: failed_attempts_def claimed_def claimable_def)
    ultimately show ?thesis unfolding x(3) by (intro queue_ok_set [OF ok x(1)]) (simp_all add: claimed_def)
  qed (use ok in simp)
qed

lemma find_occurrence_Some: "find_occurrence q n = Some x \<Longrightarrow> x \<in> set (qu_occurrences q) \<and> oc_id x = n"
  by (auto simp: find_occurrence_def find_Some_iff)

lemma queue_ok_heartbeat:
  assumes "queue_ok q" "heartbeat_job n worker now lease q = Inr (b, q')"
  shows "queue_ok q'"
proof (cases "find_occurrence q n")
  case (Some x)
  note x = find_occurrence_Some [OF Some]
  have "queue_ok (set_occurrence y q)"
    if "holds_lease worker x" "y = x\<lparr>oc_lease_expires := Some t\<rparr> \<or> y = x\<lparr>oc_heartbeat := Some now, oc_lease_expires := Some t\<rparr>"
    for y t
    using that assms(1) x
    by (intro queue_ok_set [of q x]) (auto simp: queue_ok_def occurrence_ok_def failed_attempts_def holds_lease_def)
  then show ?thesis using assms Some by (auto simp: heartbeat_job_def split: if_splits option.splits)
qed (use assms in \<open>simp add: heartbeat_job_def\<close>)

lemma queue_ok_finish:
  assumes "queue_ok q" "finish_job n worker now err q = Inr (b, q')"
  shows "queue_ok q'"
proof (cases "find_occurrence q n")
  case (Some x)
  note x = find_occurrence_Some [OF Some]
  show ?thesis
  proof (cases "holds_lease worker x")
    case True
    then have run: "oc_status x = Running" "occurrence_ok (finished now err x)"
      using assms(1) x finished_ok by (auto simp: holds_lease_def queue_ok_def)
    show ?thesis
    proof (cases err)
      case None
      then have "queue_ok (set_occurrence (finished now err x) q)"
        using assms(1) x run by (intro queue_ok_set [of q x]) (auto simp: failed_attempts_def)
      then show ?thesis using assms(2) Some True None by (auto simp: finish_job_def Let_def)
    next
      case err: (Some e)
      obtain code summary where e: "e = (code, summary)" by (cases e)
      have q': "q' = set_occurrence (finished now err x) q\<lparr>qu_failures := record_failure
          \<lparr>fa_occurrence = oc_id x, fa_attempt = oc_attempts x, fa_code = code, fa_terminal = exhausted x,
           fa_occurred_at = now\<rparr> (qu_failures q)\<rparr>"
        using assms(2) Some True err e by (simp add: finish_job_def Let_def)
      show ?thesis unfolding q'
        by (rule queue_ok_fail [OF assms(1) conjunct1 [OF x] run(1)]) (use run(2) err in auto)
    qed
  qed (use assms Some in \<open>simp add: finish_job_def\<close>)
qed (use assms in \<open>simp add: finish_job_def\<close>)

lemma new_occurrence_ok: "occurrence_ok (new_occurrence n job now skipped t)" "failed_attempts (new_occurrence n job now skipped t) = {}"
  by (simp_all add: new_occurrence_def occurrence_ok_def failed_attempts_def)

lemma queue_ok_create:
  assumes "queue_ok q"
  shows "queue_ok (snd (get_or_create_occurrence job now skipped t (created, q)))"
proof (cases "list_ex (\<lambda>x. oc_key x = (sj_id job, t)) (qu_occurrences q)")
  case False
  let ?x = "new_occurrence (qu_next_id q) job now skipped t"
  have "log_of (qu_failures q) (qu_next_id q) = []"
    using assms by (fastforce simp: queue_ok_def log_of_def filter_empty_conv)
  then have "log_ok (qu_failures q) ?x"
    by (simp add: log_ok_def new_occurrence_ok(2)) (simp add: new_occurrence_def)
  then show ?thesis using assms False new_occurrence_ok(1)
    by (fastforce simp: get_or_create_occurrence_def queue_ok_def list_ex_iff new_occurrence_def Let_def image_iff)
qed (use assms in \<open>simp add: get_or_create_occurrence_def\<close>)

lemma queue_ok_create_all:
  "queue_ok (snd st) \<Longrightarrow> queue_ok (snd (fold (get_or_create_occurrence job now skipped) ts st))"
proof (induction ts arbitrary: st)
  case (Cons t ts)
  then show ?case using queue_ok_create [of "snd st" job now skipped t "fst st"] by simp
qed simp

lemma queue_ok_jobs [simp]: "queue_ok (q\<lparr>qu_jobs := js\<rparr>) = queue_ok q"
  by (simp add: queue_ok_def)

lemma queue_ok_enqueue_jobs:
  "enqueue_jobs now jobs st = Inr st' \<Longrightarrow> queue_ok (snd st) \<Longrightarrow> queue_ok (snd st')"
proof (induction jobs arbitrary: st)
  case (Cons job jobs)
  then obtain st'' where e: "enqueue_job now job st = Inr st''" "enqueue_jobs now jobs st'' = Inr st'"
    by (auto split: sum.splits)
  then have "queue_ok (snd st'')" using Cons.prems(2) queue_ok_create_all
    by (fastforce simp: enqueue_job_def set_next_run_def split: sum.splits)
  then show ?case by (rule Cons.IH [OF e(2)])
qed simp

text \<open>One call, of any worker, with any clock and lease duration, or an edit of the schedules.\<close>

inductive queue_step :: "queue \<Rightarrow> queue \<Rightarrow> bool" where
  edit: "queue_step q (q\<lparr>qu_jobs := js\<rparr>)"
| enqueue: "enqueue_due_jobs now q = Inr (created, q') \<Longrightarrow> queue_step q q'"
| claim: "claim_next_job worker now lease q = (r, q') \<Longrightarrow> queue_step q q'"
| beat: "heartbeat_job n worker now lease q = Inr (b, q') \<Longrightarrow> queue_step q q'"
| finish: "finish_job n worker now err q = Inr (b, q') \<Longrightarrow> queue_step q q'"

inductive_cases queue_stepE [consumes 1]: "queue_step q q'"

inductive queue_reachable :: "queue \<Rightarrow> bool" where
  start: "qu_occurrences q = [] \<Longrightarrow> qu_failures q = [] \<Longrightarrow> queue_reachable q"
| step: "queue_reachable q \<Longrightarrow> queue_step q q' \<Longrightarrow> queue_reachable q'"

lemma queue_ok_step: "queue_step q q' \<Longrightarrow> queue_ok q \<Longrightarrow> queue_ok q'"
proof (induction rule: queue_step.induct)
  case (enqueue now q created q')
  then show ?case using queue_ok_enqueue_jobs by (fastforce simp: enqueue_due_jobs_def)
next
  case claim
  then show ?case by (blast intro: queue_ok_claim)
next
  case beat
  then show ?case by (blast intro: queue_ok_heartbeat)
next
  case finish
  then show ?case by (blast intro: queue_ok_finish)
qed simp

lemma reachable_ok: "queue_reachable q \<Longrightarrow> queue_ok q"
proof (induction rule: queue_reachable.induct)
  case (start q)
  then show ?case by (simp add: queue_ok_def)
qed (rule queue_ok_step)

text \<open>C27: The queue never loses, repeats or overruns an attempt. In every reachable queue the keys of
  the occurrences are distinct, no occurrence has more attempts than it is allowed, a queued one has
  attempts left and a failed one none, and the failure log of each occurrence holds exactly one
  record for each attempt that failed or lost its lease, terminal exactly for the last allowed one.\<close>

theorem queue_invariant:
  assumes "queue_reachable q"
  shows "distinct (map oc_key (qu_occurrences q))
    \<and> (\<forall>x \<in> set (qu_occurrences q). oc_attempts x \<le> oc_max_attempts x
        \<and> (oc_status x = Queued \<longrightarrow> oc_attempts x < oc_max_attempts x)
        \<and> (oc_status x = Failed \<longrightarrow> oc_attempts x = oc_max_attempts x)
        \<and> (oc_status x = Running \<longrightarrow> oc_lease_expires x \<noteq> None \<and> oc_deadline x \<noteq> None)
        \<and> log_ok (qu_failures q) x)"
  using reachable_ok [OF assms] by (auto simp: queue_ok_def occurrence_ok_def split: job_status.splits)

section \<open>Leases are exclusive\<close>

text \<open>C3: A live lease is exclusive. While an occurrence runs with an owner, before its lease and its
  deadline are over, no claim, of any worker and with any lease duration, returns it or changes it,
  and a heartbeat or a completion by anyone but the owner reports failure and changes nothing.\<close>

theorem live_lease_is_exclusive:
  assumes "queue_reachable q" "x \<in> set (qu_occurrences q)" "oc_status x = Running" "oc_lease_owner x \<noteq> ''''"
    and "\<not> reached (oc_lease_expires x) now" "\<not> reached (oc_deadline x) now"
  shows "x \<in> set (qu_occurrences (snd (claim_next_job worker now lease q)))
    \<and> (\<forall>y. fst (claim_next_job worker now lease q) = Some y \<longrightarrow> oc_id y \<noteq> oc_id x)
    \<and> (other \<noteq> oc_lease_owner x \<longrightarrow>
         heartbeat_job (oc_id x) other now lease q = Inr (False, q) \<and> finish_job (oc_id x) other now err q = Inr (False, q))"
proof -
  have ok: "queue_ok q" by (rule reachable_ok [OF assms(1)])
  have live: "\<not> lease_lost now x"
    using ok assms(2-6) by (auto simp: lease_lost_def queue_ok_def occurrence_ok_def)
  note rows = reclaim_all_rows [OF ok, of now]
  have x: "x \<in> set (qu_occurrences (reclaim_all now q))" using assms(2) live unfolding rows(3) by force
  have ids: "distinct (map oc_id (qu_occurrences (reclaim_all now q)))" using rows(1) by (simp add: queue_ok_def)
  obtain r q' where c: "claim_next_job worker now lease q = (r, q')" by (cases "claim_next_job worker now lease q")
  have claim: "x \<in> set (qu_occurrences q') \<and> (\<forall>y. r = Some y \<longrightarrow> oc_id y \<noteq> oc_id x)"
  proof (rule claim_cases [OF ok c])
    fix y assume y: "y \<in> set (qu_occurrences (reclaim_all now q))" "claimable now y" "r = Some (claimed worker now lease y)"
      "q' = set_occurrence (claimed worker now lease y) (reclaim_all now q)"
    have "oc_id y \<noteq> oc_id x"
      using ids x y(1,2) assms(3) by (auto simp: distinct_map inj_on_def claimable_def)
    then show ?thesis using x y by (auto simp: set_occurrence_def claimed_def intro!: image_eqI [of _ _ x])
  qed (use x in simp)
  have "find_occurrence q (oc_id x) = Some x"
  proof -
    obtain y where y: "find_occurrence q (oc_id x) = Some y"
      using assms(2) by (fastforce simp: find_occurrence_def find_None_iff)
    then show ?thesis using find_occurrence_Some [OF y] assms(2) ok by (auto simp: queue_ok_def distinct_map inj_on_def)
  qed
  then show ?thesis using claim c by (auto simp: heartbeat_job_def finish_job_def holds_lease_def)
qed

section \<open>No work is left behind\<close>

text \<open>C28: Claiming conserves work. A claim returns an occurrence exactly when one is queued and
  available, or was left behind by a worker with attempts left; it is one of the earliest available
  of them, now running for the claimer with one more attempt. No lost lease survives a claim: an
  exhausted occurrence has failed, and another is queued and available at once, or is the one claimed.\<close>

theorem claim_conserves_work:
  assumes "queue_reachable q" "claim_next_job worker now lease q = (r, q')"
  shows "(r \<noteq> None \<longleftrightarrow> (\<exists>x \<in> set (qu_occurrences q). claimable now x \<or> lease_lost now x \<and> \<not> exhausted x))
    \<and> (\<forall>y. r = Some y \<longrightarrow> y \<in> set (qu_occurrences q') \<and> holds_lease worker y
        \<and> (\<forall>x \<in> set (qu_occurrences q). claimable now x \<longrightarrow> oc_available_at y \<le> oc_available_at x)
        \<and> (\<exists>x \<in> set (qu_occurrences q). oc_id y = oc_id x \<and> oc_attempts y = Suc (oc_attempts x)))
    \<and> (\<forall>x \<in> set (qu_occurrences q). lease_lost now x \<longrightarrow>
        (\<exists>y \<in> set (qu_occurrences q'). oc_id y = oc_id x
          \<and> (if exhausted x then oc_status y = Failed else r = Some y \<or> claimable now y)))"
proof -
  have ok: "queue_ok q" by (rule reachable_ok [OF assms(1)])
  note rows = reclaim_all_rows [OF ok, of now]
  have lost: "reclaimed now x \<in> set (qu_occurrences (reclaim_all now q))" if "x \<in> set (qu_occurrences q)" "lease_lost now x" for x
    using that unfolding rows(3) by force
  have kept: "x \<in> set (qu_occurrences (reclaim_all now q))" if "x \<in> set (qu_occurrences q)" "\<not> lease_lost now x" for x
    using that unfolding rows(3) by force
  have again: "claimable now (reclaimed now x) \<longleftrightarrow> \<not> exhausted x" for x
    by (auto simp: claimable_def reclaimed_def Let_def exhausted_def)
  have from_old: "\<exists>x \<in> set (qu_occurrences q). oc_id y = oc_id x \<and> oc_attempts y = oc_attempts x
      \<and> (claimable now x \<or> lease_lost now x \<and> \<not> exhausted x)"
    if "y \<in> set (qu_occurrences (reclaim_all now q))" "claimable now y" for y
    using that again unfolding rows(3) by (auto split: if_splits)
  have not_lost: "\<not> lease_lost now x" if "claimable now x" for x
    using that by (simp add: claimable_def lease_lost_def)
  show ?thesis
  proof (rule claim_cases [OF ok assms(2)])
    assume idle: "r = None" "q' = reclaim_all now q" "\<forall>x \<in> set (qu_occurrences (reclaim_all now q)). \<not> claimable now x"
    have "\<not> (claimable now x \<or> lease_lost now x \<and> \<not> exhausted x)" if "x \<in> set (qu_occurrences q)" for x
      using that lost kept again not_lost idle(3) by blast
    note none = this
    have "\<exists>y \<in> set (qu_occurrences q'). oc_id y = oc_id x \<and> (if exhausted x then oc_status y = Failed else r = Some y \<or> claimable now y)"
      if "x \<in> set (qu_occurrences q)" "lease_lost now x" for x
      by (rule bexI [of _ "reclaimed now x"]) (use that none lost idle(2) in auto)
    then show ?thesis using idle(1) none by simp
  next
    fix x assume x: "x \<in> set (qu_occurrences (reclaim_all now q))" "claimable now x" "r = Some (claimed worker now lease x)"
      "q' = set_occurrence (claimed worker now lease x) (reclaim_all now q)"
      "\<forall>y \<in> set (qu_occurrences (reclaim_all now q)). claimable now y \<longrightarrow> (oc_available_at x, oc_id x) \<le> (oc_available_at y, oc_id y)"
    let ?y = "claimed worker now lease x"
    have q': "qu_occurrences q' = map (\<lambda>z. if z = x then ?y else z) (qu_occurrences (reclaim_all now q))"
      unfolding x(4) using rows(1) x(1) by (intro set_occurrence_rows) (auto simp: queue_ok_def claimed_def)
    have y: "?y \<in> set (qu_occurrences q')" unfolding q' using x(1) by force
    have fields: "holds_lease worker ?y" "oc_id ?y = oc_id x" "oc_available_at ?y = oc_available_at x"
      "oc_attempts ?y = Suc (oc_attempts x)" by (simp_all add: holds_lease_def claimed_def)
    have early: "oc_available_at x \<le> oc_available_at z" if "z \<in> set (qu_occurrences q)" "claimable now z" for z
      using x(5) kept [OF that(1) not_lost [OF that(2)]] that(2) by fastforce
    have "\<exists>w \<in> set (qu_occurrences q'). oc_id w = oc_id z \<and> (if exhausted z then oc_status w = Failed else Some ?y = Some w \<or> claimable now w)"
      if z: "z \<in> set (qu_occurrences q)" "lease_lost now z" for z
    proof (cases "reclaimed now z = x")
      case True
      then have "\<not> exhausted z" using x(2) again by metis
      moreover have "oc_id ?y = oc_id z" using True fields(2) by auto
      ultimately show ?thesis using y by auto
    next
      case False
      then have "reclaimed now z \<in> set (qu_occurrences q')" unfolding q' using lost [OF z] by force
      then show ?thesis by (intro bexI [of _ "reclaimed now z"]) (use again in auto)
    qed
    moreover have "\<exists>z \<in> set (qu_occurrences q). oc_id ?y = oc_id z \<and> oc_attempts ?y = Suc (oc_attempts z)"
      using from_old [OF x(1,2)] fields(2,4) by auto
    moreover have "\<exists>z \<in> set (qu_occurrences q). claimable now z \<or> lease_lost now z \<and> \<not> exhausted z"
      using from_old [OF x(1,2)] by auto
    ultimately show ?thesis unfolding x(3) option.inject using y fields(1,3) early by (intro conjI) auto
  qed
qed

section \<open>Enqueueing is idempotent\<close>

lemma interval_next_run:
  assumes "0 < interval" "cursor \<le> now"
  shows "0 < interval_due_count interval cursor now"
    and "cursor + (interval_due_count interval cursor now - 1) * interval \<le> now"
    and "now < cursor + interval_due_count interval cursor now * interval"
proof -
  define d where "d = (now - cursor) div interval"
  define m where "m = (now - cursor) mod interval"
  have "now - cursor = d * interval + m" by (simp add: d_def m_def)
  moreover have "0 \<le> m" "m < interval" using assms(1) by (simp_all add: m_def)
  ultimately show "cursor + (interval_due_count interval cursor now - 1) * interval \<le> now"
    "now < cursor + interval_due_count interval cursor now * interval"
    by (simp_all add: interval_due_count_def algebra_simps flip: d_def)
  show "0 < interval_due_count interval cursor now"
    using assms by (simp add: interval_due_count_def pos_imp_zdiv_nonneg_iff)
qed

definition daily_outcome :: "zone \<Rightarrow> duration \<Rightarrow> instant \<Rightarrow> instant \<Rightarrow> instant list \<Rightarrow> instant list \<times> instant \<Rightarrow> bool" where
  "daily_outcome z local_time now cursor due r \<longleftrightarrow>
     (\<forall>t \<in> set due. t \<le> now) \<longrightarrow> now < snd r \<and> (\<forall>t \<in> set (fst r). t \<le> now)"

lemma daily_due_outcome:
  assumes "daily_due z local_time now cursor due = Some r"
  shows "daily_outcome z local_time now cursor due r"
proof (rule daily_due.raw_induct [where P = daily_outcome, OF _ assms])
  fix rec z l n c d r
  assume IH: "\<And>z l n c d r. rec z l n c d = Some r \<Longrightarrow> daily_outcome z l n c d r"
    and eq: "(if c \<le> n then rec z l n (advance_daily z l c) (c # d) else Some (rev d, c)) = Some r"
  show "daily_outcome z l n c d r"
  proof (cases "c \<le> n")
    case True
    then have "daily_outcome z l n (advance_daily z l c) (c # d) r" using eq by (intro IH) simp
    then show ?thesis using True by (simp add: daily_outcome_def)
  next
    case False
    then show ?thesis using eq by (auto simp: daily_outcome_def)
  qed
qed

text \<open>The selected instants are due, and the next run is not.\<close>

lemma due_runs_next:
  assumes "due_runs job now = Inr (selected, skipped, next_run)" "sj_next_run_at job \<le> now"
    and "\<forall>s. sj_schedule job = Interval (Some s) \<longrightarrow> 0 \<le> s"
  shows "now < next_run \<and> (\<forall>t \<in> set selected. t \<le> now)"
proof (cases "sj_schedule job")
  case (Interval s)
  then obtain secs where s: "s = Some secs" "0 < secs" using assms(1,3) by (auto simp: due_runs_def split: option.splits if_splits)
  let ?c = "sj_next_run_at job"
  have i: "0 < seconds secs" using s(2) by (simp add: seconds_def)
  define n where "n = interval_due_count (seconds secs) ?c now"
  have r: "selected = select_interval (sj_policy job) (seconds secs) ?c n" "next_run = ?c + n * seconds secs"
    using assms(1) Interval s by (simp_all add: due_runs_def n_def Let_def)
  note b = interval_next_run [OF i assms(2)]
  have "?c + k * seconds secs \<le> now" if "k \<le> n - 1" for k
    using b(2) mult_right_mono [OF that less_imp_le [OF i]] by (simp add: n_def)
  then show ?thesis using b(3) r by (auto simp: select_interval_def n_def split: missed_run_policy.splits)
next
  case (Daily z local_time)
  then obtain due where d: "daily_due z local_time now (sj_next_run_at job) [] = Some (due, next_run)"
    "selected = select_due (sj_policy job) due"
    using assms(1) by (auto simp: due_runs_def Let_def split: option.splits)
  have "set selected \<subseteq> set due"
    unfolding d(2) by (auto simp: select_due_def last_n_def split: missed_run_policy.splits dest: in_set_dropD)
  then show ?thesis using daily_due_outcome [OF d(1)] by (auto simp: daily_outcome_def)
qed

lemma create_all_frame:
  "qu_jobs (snd (fold (get_or_create_occurrence job now skipped) ts st)) = qu_jobs (snd st)
    \<and> set (qu_occurrences (snd st)) \<subseteq> set (qu_occurrences (snd (fold (get_or_create_occurrence job now skipped) ts st)))"
proof (induction ts arbitrary: st)
  case (Cons t ts)
  have "qu_jobs (snd (get_or_create_occurrence job now skipped t st)) = qu_jobs (snd st)
    \<and> set (qu_occurrences (snd st)) \<subseteq> set (qu_occurrences (snd (get_or_create_occurrence job now skipped t st)))"
    by (auto simp: get_or_create_occurrence_def Let_def split: prod.split)
  then show ?case using Cons.IH [of "get_or_create_occurrence job now skipped t st"] by auto
qed simp

text \<open>What was created so far: due, queued rows of the queue that were not there at the start.\<close>

definition fresh_rows :: "instant \<Rightarrow> occurrence list \<Rightarrow> occurrence list \<times> queue \<Rightarrow> bool" where
  "fresh_rows now old st \<longleftrightarrow> set old \<subseteq> set (qu_occurrences (snd st)) \<and>
     (\<forall>x \<in> set (fst st). x \<in> set (qu_occurrences (snd st)) \<and> x \<notin> set old \<and> oc_status x = Queued
        \<and> oc_scheduled_for x \<le> now \<and> oc_key x = (fst (oc_key x), oc_scheduled_for x))"

lemma fresh_rows_create:
  assumes "fresh_rows now old st" "t \<le> now"
  shows "fresh_rows now old (get_or_create_occurrence job now skipped t st)"
proof -
  obtain created q where st: "st = (created, q)" by (cases st)
  show ?thesis
  proof (cases "list_ex (\<lambda>x. oc_key x = (sj_id job, t)) (qu_occurrences q)")
    case False
    let ?x = "new_occurrence (qu_next_id q) job now skipped t"
    have "oc_key ?x = (sj_id job, t)" by (simp add: new_occurrence_def)
    then have "?x \<notin> set (qu_occurrences q)" using False by (auto simp: list_ex_iff)
    then have "?x \<notin> set old" using assms(1) st by (auto simp: fresh_rows_def)
    moreover have "oc_status ?x = Queued" "oc_scheduled_for ?x = t" "oc_key ?x = (fst (oc_key ?x), t)"
      by (simp_all add: new_occurrence_def)
    ultimately show ?thesis using assms False st
      by (auto simp: get_or_create_occurrence_def fresh_rows_def Let_def)
  qed (use assms st in \<open>simp add: get_or_create_occurrence_def\<close>)
qed

lemma fresh_rows_create_all:
  "fresh_rows now old st \<Longrightarrow> \<forall>t \<in> set ts. t \<le> now \<Longrightarrow> fresh_rows now old (fold (get_or_create_occurrence job now skipped) ts st)"
  by (induction ts arbitrary: st) (simp_all add: fresh_rows_create)

definition due_job :: "instant \<Rightarrow> scheduled_job \<Rightarrow> bool" where
  "due_job now job \<longleftrightarrow> sj_next_run_at job \<le> now \<and> (\<forall>s. sj_schedule job = Interval (Some s) \<longrightarrow> 0 \<le> s)"

lemma enqueue_jobs_effect:
  assumes "enqueue_jobs now js st = Inr st'" "\<forall>j \<in> set js. due_job now j" "fresh_rows now old st"
  shows "fresh_rows now old st' \<and>
    (\<forall>j \<in> set (qu_jobs (snd st')). \<exists>k \<in> set (qu_jobs (snd st)). sj_id j = sj_id k \<and> sj_enabled j = sj_enabled k
       \<and> (if sj_id j \<in> sj_id ` set js then now < sj_next_run_at j else j = k))"
  using assms
proof (induction js arbitrary: st)
  case (Cons job js)
  obtain st'' where e: "enqueue_job now job st = Inr st''" "enqueue_jobs now js st'' = Inr st'"
    using Cons.prems(1) by (auto split: sum.splits)
  then obtain selected skipped next_run where d: "due_runs job now = Inr (selected, skipped, next_run)"
    and st'': "st'' = fold (get_or_create_occurrence job now skipped) selected (fst st, set_next_run (sj_id job) next_run (snd st))"
    by (auto simp: enqueue_job_def split: sum.splits)
  have due: "now < next_run" "\<forall>t \<in> set selected. t \<le> now"
    using due_runs_next [OF d] Cons.prems(2) by (auto simp: due_job_def)
  have "fresh_rows now old (fst st, set_next_run (sj_id job) next_run (snd st))"
    using Cons.prems(3) by (simp add: fresh_rows_def set_next_run_def)
  then have "fresh_rows now old st''" unfolding st'' using due(2) by (rule fresh_rows_create_all)
  then have IH: "fresh_rows now old st' \<and>
      (\<forall>j \<in> set (qu_jobs (snd st')). \<exists>k \<in> set (qu_jobs (snd st'')). sj_id j = sj_id k \<and> sj_enabled j = sj_enabled k
         \<and> (if sj_id j \<in> sj_id ` set js then now < sj_next_run_at j else j = k))"
    using Cons.IH [OF e(2)] Cons.prems(2) by simp
  have jobs: "qu_jobs (snd st'') = map (\<lambda>j. if sj_id j = sj_id job then j\<lparr>sj_next_run_at := next_run\<rparr> else j) (qu_jobs (snd st))"
    unfolding st'' by (simp add: create_all_frame set_next_run_def)
  have "\<exists>k \<in> set (qu_jobs (snd st)). sj_id j = sj_id k \<and> sj_enabled j = sj_enabled k
       \<and> (if sj_id j \<in> sj_id ` set (job # js) then now < sj_next_run_at j else j = k)"
    if j: "j \<in> set (qu_jobs (snd st'))" for j
  proof -
    obtain k' where k': "k' \<in> set (qu_jobs (snd st''))" "sj_id j = sj_id k'" "sj_enabled j = sj_enabled k'"
      "if sj_id j \<in> sj_id ` set js then now < sj_next_run_at j else j = k'"
      using bspec [OF conjunct2 [OF IH] j] by blast
    obtain k where k: "k \<in> set (qu_jobs (snd st))" "k' = (if sj_id k = sj_id job then k\<lparr>sj_next_run_at := next_run\<rparr> else k)"
      using k'(1) unfolding jobs set_map by (rule imageE)
    show ?thesis by (rule bexI [OF _ k(1)]) (use k' k(2) due(1) in \<open>auto split: if_splits\<close>)
  qed
  then show ?case using IH by blast
qed auto

text \<open>Enqueueing is idempotent and catches up. A call creates only queued occurrences for instants
  that are due, under keys that were not there, whatever the policy and however many runs were
  missed; afterwards no enabled job is due, so a second call at the same instant creates nothing and
  changes nothing.\<close>

lemma enqueue_is_idempotent:
  assumes "enqueue_due_jobs now q = Inr (created, q')"
    and "\<forall>j \<in> set (qu_jobs q). \<forall>s. sj_schedule j = Interval (Some s) \<longrightarrow> 0 \<le> s" "distinct (map sj_id (qu_jobs q))"
  shows "enqueue_due_jobs now q' = Inr ([], q')
    \<and> (\<forall>x \<in> set created. x \<in> set (qu_occurrences q') \<and> x \<notin> set (qu_occurrences q) \<and> oc_status x = Queued
         \<and> oc_scheduled_for x \<le> now)"
proof -
  let ?js = "sort_key sj_next_run_at (filter (\<lambda>j. sj_enabled j \<and> sj_next_run_at j \<le> now) (qu_jobs q))"
  have run: "enqueue_jobs now ?js ([], q) = Inr (created, q')" using assms(1) by (simp add: enqueue_due_jobs_def)
  have due: "\<forall>j \<in> set ?js. due_job now j" using assms(2) by (auto simp: due_job_def)
  have old: "fresh_rows now (qu_occurrences q) ([], q)" by (simp add: fresh_rows_def)
  note effect = enqueue_jobs_effect [OF run due old]
  have "\<not> (sj_enabled j \<and> sj_next_run_at j \<le> now)" if j: "j \<in> set (qu_jobs q')" for j
  proof -
    obtain k where k: "k \<in> set (qu_jobs q)" "sj_id j = sj_id k" "sj_enabled j = sj_enabled k"
      "if sj_id j \<in> sj_id ` set ?js then now < sj_next_run_at j else j = k"
      using bspec [OF conjunct2 [OF effect], of j] j unfolding snd_conv by blast
    show ?thesis
    proof (cases "sj_id j \<in> sj_id ` set ?js")
      case False
      then have "j = k" using k(4) by simp
      then show ?thesis using False k(1) by auto
    qed (use k(4) in auto)
  qed
  then have "filter (\<lambda>j. sj_enabled j \<and> sj_next_run_at j \<le> now) (qu_jobs q') = []" by (simp add: filter_empty_conv)
  then have "enqueue_due_jobs now q' = Inr ([], q')" by (simp add: enqueue_due_jobs_def)
  then show ?thesis using effect by (auto simp: fresh_rows_def)
qed

section \<open>Finished occurrences are final\<close>

lemma set_other:
  assumes "queue_ok q" "x \<in> set (qu_occurrences q)" "y \<in> set (qu_occurrences q)" "oc_id z = oc_id y" "x \<noteq> y"
  shows "x \<in> set (qu_occurrences (set_occurrence z q))"
proof -
  have "oc_id x \<noteq> oc_id z" using assms by (auto simp: queue_ok_def distinct_map inj_on_def)
  then show ?thesis using assms(2) by (auto simp: set_occurrence_def intro!: image_eqI [of _ _ x])
qed

text \<open>A finished occurrence is final: no call, by anyone and at any time, changes an occurrence that
  has succeeded or failed for good.\<close>

lemma finished_occurrence_is_final:
  assumes "queue_reachable q" "queue_step q q'" "x \<in> set (qu_occurrences q)" "oc_status x \<in> {Succeeded, Failed}"
  shows "x \<in> set (qu_occurrences q')"
proof -
  have ok: "queue_ok q" by (rule reachable_ok [OF assms(1)])
  show ?thesis using assms(2)
  proof (cases rule: queue_step.cases)
    case (enqueue now created)
    have frame: "set (qu_occurrences (snd st)) \<subseteq> set (qu_occurrences (snd st'))" if "enqueue_jobs now js st = Inr st'" for js st st'
      using that
    proof (induction js arbitrary: st)
      case (Cons job js)
      then obtain st'' where e: "enqueue_job now job st = Inr st''" "enqueue_jobs now js st'' = Inr st'"
        by (auto split: sum.splits)
      have "set (qu_occurrences (snd st)) \<subseteq> set (qu_occurrences (snd st''))"
        using e(1) conjunct2 [OF create_all_frame] by (fastforce simp: enqueue_job_def set_next_run_def split: sum.splits)
      then show ?case using Cons.IH [OF e(2)] by simp
    qed simp
    show ?thesis using frame [OF enqueue [unfolded enqueue_due_jobs_def]] assms(3) by auto
  next
    case (claim worker now lease r)
    note rows = reclaim_all_rows [OF ok, of now]
    have "\<not> lease_lost now x" using assms(4) by (auto simp: lease_lost_def)
    then have x: "x \<in> set (qu_occurrences (reclaim_all now q))" using assms(3) unfolding rows(3) by force
    show ?thesis
    proof (rule claim_cases [OF ok claim])
      fix y assume y: "y \<in> set (qu_occurrences (reclaim_all now q))" "claimable now y"
        "q' = set_occurrence (claimed worker now lease y) (reclaim_all now q)"
      show ?thesis unfolding y(3)
        by (rule set_other [OF rows(1) x y(1)]) (use y(2) assms(4) in \<open>auto simp: claimed_def claimable_def\<close>)
    qed (use x in simp)
  next
    case (beat n worker now lease b)
    then obtain y where y: "find_occurrence q n = Some y" by (auto simp: heartbeat_job_def split: option.splits)
    have "x \<in> set (qu_occurrences (set_occurrence z q))" if "oc_id z = oc_id y" "oc_status y = Running" for z
      using find_occurrence_Some [OF y] that assms(3,4) by (intro set_other [OF ok, of x y]) auto
    then show ?thesis using beat y assms(3) by (auto simp: heartbeat_job_def holds_lease_def split: if_splits option.splits)
  next
    case (finish n worker now err b)
    then obtain y where y: "find_occurrence q n = Some y" by (auto simp: finish_job_def split: option.splits)
    have "x \<in> set (qu_occurrences (set_occurrence (finished now err y) q))" if "oc_status y = Running"
      using find_occurrence_Some [OF y] that assms(3,4) by (intro set_other [OF ok, of x y]) auto
    then show ?thesis using finish y assms(3)
      by (auto simp: finish_job_def holds_lease_def Let_def split: if_splits option.splits)
  qed (use assms in simp)
qed

section \<open>The daily loop ends\<close>

text \<open>What a daily schedule relies on: the wall time of a date is converted to an instant of that date.\<close>

definition keeps_dates :: "zone \<Rightarrow> duration \<Rightarrow> bool" where
  "keeps_dates z local_time \<longleftrightarrow> (\<forall>d. to_local z (to_utc z (d * days 1 + local_time)) div days 1 = d)"

lemma keeps_dates_fixed_zone: "0 \<le> local_time \<Longrightarrow> local_time < days 1 \<Longrightarrow> keeps_dates (fixed_zone off) local_time"
  by (simp add: keeps_dates_def fixed_zone_def duration_defs)

text \<open>The catch-up loop of a daily job always ends, however long the scheduler was down: it
  returns the due instants and a next run that lies in the future.\<close>

lemma daily_catchup_returns:
  assumes "keeps_dates z local_time" "bounded_offset z"
  shows "\<exists>r. daily_due z local_time now cursor due = Some r \<and> ((\<forall>t \<in> set due. t \<le> now) \<longrightarrow> now < snd r)"
proof -
  define rank where "rank = (\<lambda>t. nat (now div days 1 + 2 - to_local z t div days 1))"
  have "\<exists>r. daily_due z local_time now cursor due = Some r"
  proof (induction "rank cursor" arbitrary: cursor due rule: less_induct)
    case less
    show ?case
    proof (cases "cursor \<le> now")
      case True
      have day: "to_local z (advance_daily z local_time cursor) div days 1 = to_local z cursor div days 1 + 1"
        using assms(1) by (simp add: advance_daily_def keeps_dates_def)
      have "\<bar>to_local z cursor - cursor\<bar> < days 1" using assms(2) by (simp add: bounded_offset_def)
      then have "to_local z cursor \<le> now + days 1" using True by linarith
      then have "to_local z cursor div days 1 \<le> (now + days 1) div days 1" by (intro zdiv_mono1) (simp_all add: duration_defs)
      also have "(now + days 1) div days 1 = now div days 1 + 1" by (simp add: duration_defs)
      finally have "rank (advance_daily z local_time cursor) < rank cursor" by (simp add: rank_def day)
      from less [OF this, of "cursor # due"] show ?thesis using True
        by (subst daily_due.simps) simp
    next
      case False
      then show ?thesis by (subst daily_due.simps) simp
    qed
  qed
  then show ?thesis using daily_due_outcome by (force simp: daily_outcome_def)
qed

section \<open>A concrete queue\<close>

definition sample_job :: scheduled_job where
  [model_defs]: "sample_job = \<lparr>sj_id = 1, sj_task = ''market.ingest_oanda'', sj_schedule = Interval (Some 60), sj_policy = RunLatest,
     sj_next_run_at = 0, sj_enabled = True\<rparr>"

definition idle_queue :: queue where
  [model_defs]: "idle_queue = \<lparr>qu_jobs = [sample_job], qu_occurrences = [], qu_failures = [], qu_next_id = 1\<rparr>"

definition first_run :: occurrence where
  [model_defs]: "first_run = new_occurrence 1 sample_job 0 0 0"

definition queued_queue :: queue where
  [model_defs]: "queued_queue = \<lparr>qu_jobs = [sample_job\<lparr>sj_next_run_at := minutes 1\<rparr>], qu_occurrences = [first_run],
     qu_failures = [], qu_next_id = 2\<rparr>"

definition running_queue :: queue where
  [model_defs]: "running_queue = queued_queue\<lparr>qu_occurrences := [claimed ''w'' 0 lease_duration first_run]\<rparr>"

lemma sample_enqueue: "enqueue_due_jobs 0 idle_queue = Inr ([first_run], queued_queue)"
proof -
  have "due_runs sample_job 0 = Inr ([0], 0, minutes 1)"
    by (simp add: due_runs_def sample_job_def interval_due_count_def select_interval_def duration_defs Let_def)
  then show ?thesis
    by (simp add: enqueue_due_jobs_def idle_queue_def enqueue_job_def get_or_create_occurrence_def set_next_run_def
        queued_queue_def first_run_def Let_def) (simp add: sample_job_def)
qed

lemma first_run_fields [simp]: "oc_status first_run = Queued" "oc_available_at first_run = 0" "oc_id first_run = 1"
  "oc_timeout_seconds first_run = 900"
  by (simp_all add: first_run_def new_occurrence_def)

lemma sample_claim: "claim_next_job ''w'' 0 lease_duration queued_queue
    = (Some (claimed ''w'' 0 lease_duration first_run), running_queue)"
  by (simp add: claim_next_job_def reclaim_all_def lease_lost_def claimable_def queued_queue_def running_queue_def
      set_occurrence_def Let_def claimed_def)

lemma sample_reachable: "queue_reachable queued_queue" "queue_reachable running_queue"
proof -
  have "queue_reachable idle_queue" by (rule start) (simp_all add: idle_queue_def)
  then show q: "queue_reachable queued_queue" by (rule step) (rule queue_step.enqueue [OF sample_enqueue])
  then show "queue_reachable running_queue" by (rule step) (rule queue_step.claim [OF sample_claim])
qed

theorem queue_invariant_witness:
  "log_ok (qu_failures running_queue) (claimed ''w'' 0 lease_duration first_run) \<and>
   oc_attempts (claimed ''w'' 0 lease_duration first_run) \<le> oc_max_attempts (claimed ''w'' 0 lease_duration first_run)"
  using queue_invariant [OF sample_reachable(2)] by (simp add: running_queue_def)

theorem live_lease_is_exclusive_witness:
  "finish_job 1 ''v'' 1 None running_queue = Inr (False, running_queue)"
proof -
  let ?x = "claimed ''w'' 0 lease_duration first_run"
  have "?x \<in> set (qu_occurrences running_queue)" "oc_status ?x = Running" "oc_lease_owner ?x \<noteq> ''''"
    "\<not> reached (oc_lease_expires ?x) 1" "\<not> reached (oc_deadline ?x) 1"
    by (simp_all add: running_queue_def claimed_def reached_def lease_duration_def duration_defs)
  from live_lease_is_exclusive [OF sample_reachable(2) this, of _ _ "''v''"] show ?thesis by (simp add: claimed_def)
qed

theorem claim_conserves_work_witness:
  "claimed ''w'' 0 lease_duration first_run \<in> set (qu_occurrences running_queue)"
  using claim_conserves_work [OF sample_reachable(1) sample_claim] by simp

end
