(* ===== verification/Outbox.thy ===== *)
theory Outbox
  imports Jobs
begin

text \<open>
  The outbox of \<^verbatim>\<open>operations/services.py\<close>: messages that are sent under a lease, and the record of each
  delivery attempt. A row that \<^verbatim>\<open>get\<close> does not find is \<open>Inl\<close> of an error; the calls are transactions.
  Channel, template and payload only travel with a message and are one parameter.
\<close>

section \<open>Rows\<close>

datatype message_status = Pending | Sending | Sent | MessageFailed | MessageUncertain

datatype delivery_outcome = Started | DeliverySucceeded | DeliveryFailed | DeliveryUncertain

record 'p message =
  ms_id :: int
  ms_key :: string
  ms_payload :: 'p
  ms_not_before :: instant
  ms_status :: message_status
  ms_attempts :: nat
  ms_max_attempts :: nat
  ms_owner :: string
  ms_lease_expires :: "instant option"
  ms_heartbeat :: "instant option"
  ms_completed_at :: "instant option"

record delivery =
  de_message :: int
  de_attempt :: nat
  de_worker :: string
  de_outcome :: delivery_outcome
  de_error :: string
  de_summary :: string
  de_started_at :: instant
  de_finished_at :: "instant option"

record 'p outbox =
  ob_messages :: "'p message list"
  ob_deliveries :: "delivery list"
  ob_next_id :: int

datatype outbox_error = NoSuchMessage | NoSuchDelivery

section \<open>Operations\<close>

definition enqueue_outbox :: "string \<Rightarrow> 'p \<Rightarrow> instant \<Rightarrow> 'p outbox \<Rightarrow> 'p message \<times> 'p outbox" where
  [model_defs]: "enqueue_outbox key payload not_before b =
     (case List.find (\<lambda>m. ms_key m = key) (ob_messages b) of
        Some m \<Rightarrow> (m, b)
      | None \<Rightarrow>
          (let m = \<lparr>ms_id = ob_next_id b, ms_key = key, ms_payload = payload, ms_not_before = not_before,
                 ms_status = Pending, ms_attempts = 0, ms_max_attempts = 3, ms_owner = '''',
                 ms_lease_expires = None, ms_heartbeat = None, ms_completed_at = None\<rparr>
           in (m, b\<lparr>ob_messages := ob_messages b @ [m], ob_next_id := ob_next_id b + 1\<rparr>)))"

definition deliverable :: "instant \<Rightarrow> 'p message \<Rightarrow> bool" where
  [model_defs]: "deliverable now m \<longleftrightarrow>
     (ms_status m = Pending \<or> ms_status m = Sending \<and> reached (ms_lease_expires m) now) \<and> ms_not_before m \<le> now"

definition set_message :: "'p message \<Rightarrow> 'p outbox \<Rightarrow> 'p outbox" where
  [model_defs]: "set_message m b = b\<lparr>ob_messages := map (\<lambda>k. if ms_id k = ms_id m then m else k) (ob_messages b)\<rparr>"

definition find_delivery :: "'p outbox \<Rightarrow> int \<Rightarrow> nat \<Rightarrow> delivery option" where
  [model_defs]: "find_delivery b n i = List.find (\<lambda>d. de_message d = n \<and> de_attempt d = i) (ob_deliveries b)"

definition set_delivery :: "delivery \<Rightarrow> 'p outbox \<Rightarrow> 'p outbox" where
  [model_defs]: "set_delivery d b = b\<lparr>ob_deliveries := map (\<lambda>e. if de_message e = de_message d \<and> de_attempt e = de_attempt d
     then d else e) (ob_deliveries b)\<rparr>"

text \<open>The attempt whose lease ran out has an uncertain outcome.\<close>

definition abandon_delivery :: "instant \<Rightarrow> 'p message \<Rightarrow> 'p outbox \<Rightarrow> outbox_error + 'p outbox" where
  [model_defs]: "abandon_delivery now m b =
     (if ms_status m \<noteq> Sending then Inr b
      else (case find_delivery b (ms_id m) (ms_attempts m) of
              None \<Rightarrow> Inl NoSuchDelivery
            | Some d \<Rightarrow> Inr (set_delivery (d\<lparr>de_outcome := DeliveryUncertain, de_error := ''lease_expired'',
                de_summary := ''Delivery lease expired before its outcome was recorded'',
                de_finished_at := Some now\<rparr>) b)))"

definition sending :: "string \<Rightarrow> instant \<Rightarrow> duration \<Rightarrow> 'p message \<Rightarrow> 'p message" where
  [model_defs]: "sending worker now lease m =
     m\<lparr>ms_status := Sending, ms_attempts := ms_attempts m + 1, ms_owner := worker, ms_heartbeat := Some now,
       ms_lease_expires := Some (now + lease)\<rparr>"

definition new_delivery :: "string \<Rightarrow> instant \<Rightarrow> 'p message \<Rightarrow> delivery" where
  [model_defs]: "new_delivery worker now m =
     \<lparr>de_message = ms_id m, de_attempt = ms_attempts m, de_worker = worker, de_outcome = Started, de_error = '''',
      de_summary = '''', de_started_at = now, de_finished_at = None\<rparr>"

definition claim_outbox ::
  "string \<Rightarrow> instant \<Rightarrow> duration \<Rightarrow> 'p outbox \<Rightarrow> outbox_error + ('p message option \<times> 'p outbox)" where
  [model_defs]: "claim_outbox worker now lease b =
     (case first_min_by (\<lambda>m. (ms_not_before m, ms_id m)) (filter (deliverable now) (ob_messages b)) of
        None \<Rightarrow> Inr (None, b)
      | Some m \<Rightarrow>
          if ms_max_attempts m \<le> ms_attempts m
          then Inr (None, set_message (m\<lparr>ms_status := MessageFailed, ms_completed_at := Some now\<rparr>) b)
          else (case abandon_delivery now m b of
                  Inl e \<Rightarrow> Inl e
                | Inr b \<Rightarrow>
                    (let m = sending worker now lease m; b = set_message m b in
                     Inr (Some m, b\<lparr>ob_deliveries := ob_deliveries b @ [new_delivery worker now m]\<rparr>))))"

text \<open>The row of a message after an outcome.\<close>

definition delivered :: "instant \<Rightarrow> delivery_outcome \<Rightarrow> 'p message \<Rightarrow> 'p message" where
  [model_defs]: "delivered now result m =
     (let m = (if result = DeliverySucceeded then m\<lparr>ms_status := Sent, ms_completed_at := Some now\<rparr>
               else if result = DeliveryUncertain then m\<lparr>ms_status := MessageUncertain, ms_completed_at := Some now\<rparr>
               else if ms_max_attempts m \<le> ms_attempts m then m\<lparr>ms_status := MessageFailed, ms_completed_at := Some now\<rparr>
               else m\<lparr>ms_status := Pending, ms_not_before := now + retry_delay (ms_attempts m)\<rparr>)
      in m\<lparr>ms_owner := '''', ms_lease_expires := None, ms_heartbeat := None\<rparr>)"

definition finish_outbox ::
  "int \<Rightarrow> string \<Rightarrow> instant \<Rightarrow> delivery_outcome \<Rightarrow> string \<Rightarrow> string \<Rightarrow> 'p outbox \<Rightarrow> outbox_error + (bool \<times> 'p outbox)" where
  [model_defs]: "finish_outbox n worker now result code summary b =
     (case List.find (\<lambda>m. ms_id m = n) (ob_messages b) of
        None \<Rightarrow> Inl NoSuchMessage
      | Some m \<Rightarrow>
          if \<not> (ms_status m = Sending \<and> ms_owner m = worker) then Inr (False, b)
          else (case find_delivery b n (ms_attempts m) of
                  None \<Rightarrow> Inl NoSuchDelivery
                | Some d \<Rightarrow>
                    Inr (True, set_message (delivered now result m)
                      (set_delivery (d\<lparr>de_outcome := result, de_error := code, de_summary := take 240 summary,
                         de_finished_at := Some now\<rparr>) b))))"

section \<open>The invariant of the outbox\<close>

text \<open>The delivery records of a message are those of its attempts, once each. Only the current attempt
  of a message that is being sent, or the last one of a message that was given up, may be without an
  outcome.\<close>

definition deliveries_of :: "'p outbox \<Rightarrow> int \<Rightarrow> delivery list" where
  "deliveries_of b n = filter (\<lambda>d. de_message d = n) (ob_deliveries b)"

definition message_ok :: "delivery list \<Rightarrow> 'p message \<Rightarrow> bool" where
  "message_ok ds m \<longleftrightarrow>
     ms_attempts m \<le> ms_max_attempts m \<and>
     map de_attempt ds = [1..<ms_attempts m + 1] \<and>
     (\<forall>d \<in> set ds. de_finished_at d = None \<longrightarrow> de_attempt d = ms_attempts m \<and> ms_status m \<in> {Sending, MessageFailed}) \<and>
     (ms_status m = Sending \<longrightarrow> 0 < ms_attempts m \<and> ms_lease_expires m \<noteq> None) \<and>
     (ms_status m = Pending \<longrightarrow> ms_attempts m < ms_max_attempts m) \<and>
     (ms_status m \<in> {Sent, MessageFailed, MessageUncertain} \<longrightarrow> ms_completed_at m \<noteq> None)"

definition outbox_ok :: "'p outbox \<Rightarrow> bool" where
  "outbox_ok b \<longleftrightarrow>
     distinct (map ms_id (ob_messages b)) \<and> distinct (map ms_key (ob_messages b)) \<and>
     (\<forall>m \<in> set (ob_messages b). ms_id m < ob_next_id b \<and> message_ok (deliveries_of b (ms_id m)) m) \<and>
     (\<forall>d \<in> set (ob_deliveries b). de_message d < ob_next_id b)"

inductive outbox_step :: "'p outbox \<Rightarrow> 'p outbox \<Rightarrow> bool" where
  post: "enqueue_outbox key payload not_before b = (m, b') \<Longrightarrow> outbox_step b b'"
| take: "claim_outbox worker now lease b = Inr (r, b') \<Longrightarrow> outbox_step b b'"
| report: "finish_outbox n worker now result code summary b = Inr (ok, b') \<Longrightarrow> outbox_step b b'"

inductive outbox_reachable :: "'p outbox \<Rightarrow> bool" where
  start: "ob_messages b = [] \<Longrightarrow> ob_deliveries b = [] \<Longrightarrow> outbox_reachable b"
| step: "outbox_reachable b \<Longrightarrow> outbox_step b b' \<Longrightarrow> outbox_reachable b'"

text \<open>Replacing one message, with its deliveries.\<close>

lemma set_message_rows:
  assumes "distinct (map ms_id (ob_messages b))" "m \<in> set (ob_messages b)" "ms_id k = ms_id m"
  shows "ob_messages (set_message k b) = map (\<lambda>j. if j = m then k else j) (ob_messages b)"
  using assms by (auto simp: set_message_def distinct_map inj_on_def)

lemma outbox_ok_update:
  assumes "outbox_ok b" "m \<in> set (ob_messages b)" "ms_id k = ms_id m" "ms_key k = ms_key m"
    and "ob_messages b' = ob_messages (set_message k b)" "ob_next_id b' = ob_next_id b"
    and "\<And>n. n \<noteq> ms_id m \<Longrightarrow> deliveries_of b' n = deliveries_of b n"
    and "\<forall>d \<in> set (ob_deliveries b'). de_message d < ob_next_id b"
    and "message_ok (deliveries_of b' (ms_id m)) k"
  shows "outbox_ok b'"
proof -
  have ids: "distinct (map ms_id (ob_messages b))" using assms(1) by (simp add: outbox_ok_def)
  have rows: "ob_messages b' = map (\<lambda>j. if j = m then k else j) (ob_messages b)"
    unfolding assms(5) by (rule set_message_rows [OF ids assms(2,3)])
  have cols: "map ms_id (ob_messages b') = map ms_id (ob_messages b)" "map ms_key (ob_messages b') = map ms_key (ob_messages b)"
    using assms(3,4) by (auto simp: rows)
  have "message_ok (deliveries_of b' (ms_id j)) j" if "j \<in> set (ob_messages b)" "j \<noteq> m" for j
  proof -
    have "ms_id j \<noteq> ms_id m" using ids assms(2) that by (auto simp: distinct_map inj_on_def)
    then show ?thesis using assms(1,7) that by (simp add: outbox_ok_def)
  qed
  then show ?thesis using assms(1-3,6,8,9) unfolding outbox_ok_def cols by (auto simp: rows)
qed
lemma set_delivery_of:
  "deliveries_of (set_delivery d b) n =
     (if n = de_message d then map (\<lambda>e. if de_attempt e = de_attempt d then d else e) (deliveries_of b n)
      else deliveries_of b n)"
proof -
  have "filter (\<lambda>e. de_message e = n) (map (\<lambda>e. if de_message e = de_message d \<and> de_attempt e = de_attempt d then d else e) ds)
      = (if n = de_message d then map (\<lambda>e. if de_attempt e = de_attempt d then d else e) (filter (\<lambda>e. de_message e = n) ds)
         else filter (\<lambda>e. de_message e = n) ds)" for ds
    by (induction ds) auto
  then show ?thesis by (simp add: deliveries_of_def set_delivery_def)
qed

lemma find_delivery_Some:
  "find_delivery b n i = Some d \<Longrightarrow> d \<in> set (deliveries_of b n) \<and> de_message d = n \<and> de_attempt d = i"
  by (auto simp: find_delivery_def deliveries_of_def find_Some_iff)

lemma find_delivery_attempt:
  assumes "message_ok (deliveries_of b n) m" "0 < ms_attempts m"
  shows "\<exists>d. find_delivery b n (ms_attempts m) = Some d"
proof -
  have "ms_attempts m \<in> set (map de_attempt (deliveries_of b n))" using assms by (auto simp: message_ok_def)
  then show ?thesis
    by (auto simp: find_delivery_def deliveries_of_def find_None_iff simp flip: not_None_eq)
qed

lemma set_delivery_frame [simp]:
  "ob_messages (set_delivery d b) = ob_messages b" "ob_next_id (set_delivery d b) = ob_next_id b"
  "ob_deliveries (set_message m b) = ob_deliveries b" "ob_next_id (set_message m b) = ob_next_id b"
  "deliveries_of (set_message m b) n = deliveries_of b n" "ob_messages (set_message m (set_delivery d b)) = ob_messages (set_message m b)"
  by (simp_all add: set_delivery_def set_message_def deliveries_of_def)

lemma set_delivery_bound:
  "\<forall>d \<in> set (ob_deliveries b). de_message d < k \<Longrightarrow> \<forall>d \<in> set (ob_deliveries (set_delivery e b)). de_message d < k"
  by (auto simp: set_delivery_def)

text \<open>The deliveries of a message whose current attempt got an outcome.\<close>

lemma message_ok_settled:
  assumes "message_ok ds m" "de_attempt d = ms_attempts m" "de_finished_at d \<noteq> None"
  shows "map de_attempt (map (\<lambda>e. if de_attempt e = de_attempt d then d else e) ds) = [1..<ms_attempts m + 1]"
    and "\<forall>e \<in> set (map (\<lambda>e. if de_attempt e = de_attempt d then d else e) ds). de_finished_at e \<noteq> None"
proof -
  have "map de_attempt (map (\<lambda>e. if de_attempt e = de_attempt d then d else e) ds) = map de_attempt ds" by simp
  then show "map de_attempt (map (\<lambda>e. if de_attempt e = de_attempt d then d else e) ds) = [1..<ms_attempts m + 1]"
    using assms(1) by (simp only: message_ok_def)
  show "\<forall>e \<in> set (map (\<lambda>e. if de_attempt e = de_attempt d then d else e) ds). de_finished_at e \<noteq> None"
    using assms by (auto simp: message_ok_def)
qed

lemma outbox_ok_finish:
  assumes "outbox_ok b" "finish_outbox n worker now result code summary b = Inr (ok, b')"
  shows "outbox_ok b'"
proof (cases "List.find (\<lambda>m. ms_id m = n) (ob_messages b)")
  case (Some m)
  then have m: "m \<in> set (ob_messages b)" "ms_id m = n" by (auto simp: find_Some_iff)
  have mok: "message_ok (deliveries_of b n) m" using assms(1) m by (auto simp: outbox_ok_def)
  show ?thesis
  proof (cases "ms_status m = Sending \<and> ms_owner m = worker")
    case True
    then obtain d where d: "find_delivery b n (ms_attempts m) = Some d"
      using find_delivery_attempt [OF mok] mok by (auto simp: message_ok_def)
    let ?d = "d\<lparr>de_outcome := result, de_error := code, de_summary := take 240 summary, de_finished_at := Some now\<rparr>"
    have b': "b' = set_message (delivered now result m) (set_delivery ?d b)"
      using assms(2) Some True d by (auto simp: finish_outbox_def split: if_splits)
    have dm: "de_message ?d = n" "de_attempt ?d = ms_attempts m" "de_finished_at ?d \<noteq> None"
      using find_delivery_Some [OF d] by simp_all
    have ds: "deliveries_of b' n = map (\<lambda>e. if de_attempt e = de_attempt ?d then ?d else e) (deliveries_of b n)"
      unfolding b' using dm(1) by (simp add: set_delivery_of)
    note settled = message_ok_settled [OF mok dm(2,3)]
    show ?thesis
    proof (rule outbox_ok_update [OF assms(1) m(1)])
      show "message_ok (deliveries_of b' (ms_id m)) (delivered now result m)"
        unfolding m(2) ds message_ok_def settled(1) using settled(2) mok True
        by (auto simp: delivered_def Let_def message_ok_def)
      show "\<forall>d \<in> set (ob_deliveries b'). de_message d < ob_next_id b"
        using assms(1) set_delivery_bound [of b "ob_next_id b" ?d] by (simp add: b' outbox_ok_def)
    qed (use dm(1) m(2) in \<open>simp_all add: b' set_delivery_of delivered_def Let_def\<close>)
  qed (use assms Some in \<open>simp add: finish_outbox_def\<close>)
qed (use assms in \<open>simp add: finish_outbox_def\<close>)

lemma outbox_ok_claim:
  assumes "outbox_ok b" "claim_outbox worker now lease b = Inr (r, b')"
  shows "outbox_ok b'"
proof (cases "first_min_by (\<lambda>m. (ms_not_before m, ms_id m)) (filter (deliverable now) (ob_messages b))")
  case (Some m)
  then have m: "m \<in> set (ob_messages b)" "deliverable now m" by (auto dest!: first_min_by_Some)
  have mok: "message_ok (deliveries_of b (ms_id m)) m" and next_id: "ms_id m < ob_next_id b"
    using assms(1) m(1) by (auto simp: outbox_ok_def)
  show ?thesis
  proof (cases "ms_max_attempts m \<le> ms_attempts m")
    case True
    then have b': "b' = set_message (m\<lparr>ms_status := MessageFailed, ms_completed_at := Some now\<rparr>) b"
      using assms(2) Some by (simp add: claim_outbox_def)
    show ?thesis
    proof (rule outbox_ok_update [OF assms(1) m(1)])
      show "message_ok (deliveries_of b' (ms_id m)) (m\<lparr>ms_status := MessageFailed, ms_completed_at := Some now\<rparr>)"
        using mok by (auto simp: b' message_ok_def)
    qed (use assms(1) in \<open>simp_all add: b' outbox_ok_def\<close>)
  next
    case False
    then obtain b1 where b1: "abandon_delivery now m b = Inr b1"
      and b': "b' = set_message (sending worker now lease m) b1\<lparr>ob_deliveries := ob_deliveries b1 @ [new_delivery worker now (sending worker now lease m)]\<rparr>"
      using assms(2) Some by (auto simp: claim_outbox_def Let_def split: sum.splits)
    have frame: "ob_messages b1 = ob_messages b \<and> ob_next_id b1 = ob_next_id b
        \<and> (\<forall>d \<in> set (ob_deliveries b1). de_message d < ob_next_id b)
        \<and> (\<forall>k. k \<noteq> ms_id m \<longrightarrow> deliveries_of b1 k = deliveries_of b k)
        \<and> map de_attempt (deliveries_of b1 (ms_id m)) = [1..<ms_attempts m + 1]
        \<and> (\<forall>d \<in> set (deliveries_of b1 (ms_id m)). de_finished_at d \<noteq> None)"
    proof (cases "ms_status m = Sending")
      case True
      then obtain d where d: "find_delivery b (ms_id m) (ms_attempts m) = Some d"
        using find_delivery_attempt [OF mok] mok by (auto simp: message_ok_def)
      let ?d = "d\<lparr>de_outcome := DeliveryUncertain, de_error := ''lease_expired'',
        de_summary := ''Delivery lease expired before its outcome was recorded'', de_finished_at := Some now\<rparr>"
      have b1': "b1 = set_delivery ?d b" using b1 True d by (simp add: abandon_delivery_def)
      have dm: "de_message ?d = ms_id m" "de_attempt ?d = ms_attempts m" "de_finished_at ?d \<noteq> None"
        using find_delivery_Some [OF d] by simp_all
      have ds: "deliveries_of b1 (ms_id m) = map (\<lambda>e. if de_attempt e = de_attempt ?d then ?d else e) (deliveries_of b (ms_id m))"
        unfolding b1' using dm(1) by (simp add: set_delivery_of)
      note settled = message_ok_settled [OF mok dm(2,3)]
      have "deliveries_of b1 k = deliveries_of b k" if "k \<noteq> ms_id m" for k
        unfolding b1' set_delivery_of dm(1) using that by simp
      moreover have "\<forall>d \<in> set (ob_deliveries b1). de_message d < ob_next_id b"
        unfolding b1' using assms(1) by (intro set_delivery_bound) (simp add: outbox_ok_def)
      ultimately show ?thesis using settled unfolding ds by (simp add: b1')
    next
      case False
      then have "b1 = b" "ms_status m = Pending" using b1 m(2) by (auto simp: abandon_delivery_def deliverable_def)
      then show ?thesis using mok assms(1) by (auto simp: message_ok_def outbox_ok_def)
    qed
    have ds: "deliveries_of b' (ms_id m) = deliveries_of b1 (ms_id m) @ [new_delivery worker now (sending worker now lease m)]"
      by (simp add: b' deliveries_of_def new_delivery_def sending_def)
    have "map de_attempt (deliveries_of b' (ms_id m)) = [1..<Suc (ms_attempts m) + 1]"
      unfolding ds using frame by (simp add: new_delivery_def sending_def)
    then have "message_ok (deliveries_of b' (ms_id m)) (sending worker now lease m)"
      using frame False mok unfolding message_ok_def ds by (auto simp: sending_def new_delivery_def)
    moreover have "deliveries_of b' k = deliveries_of b k" if "k \<noteq> ms_id m" for k
      using frame that by (simp add: b' deliveries_of_def new_delivery_def sending_def)
    ultimately show ?thesis using frame next_id
      by (intro outbox_ok_update [OF assms(1) m(1), where k = "sending worker now lease m"])
        (auto simp: b' sending_def new_delivery_def set_message_def)
  qed
qed (use assms in \<open>simp add: claim_outbox_def\<close>)

lemma outbox_ok_enqueue:
  assumes "outbox_ok b" "enqueue_outbox key payload not_before b = (m, b')"
  shows "outbox_ok b'"
proof (cases "List.find (\<lambda>m. ms_key m = key) (ob_messages b)")
  case None
  have none: "deliveries_of b (ob_next_id b) = []"
    using assms(1) by (fastforce simp: outbox_ok_def deliveries_of_def filter_empty_conv)
  have b': "ob_messages b' = ob_messages b @ [m]" "ob_deliveries b' = ob_deliveries b" "ob_next_id b' = ob_next_id b + 1"
    and m: "ms_id m = ob_next_id b" "ms_key m = key" "message_ok [] m"
    using assms(2) None by (auto simp: enqueue_outbox_def Let_def message_ok_def)
  have "deliveries_of b' n = deliveries_of b n" for n by (simp add: deliveries_of_def b')
  moreover have "key \<notin> ms_key ` set (ob_messages b)" using None by (auto simp: find_None_iff)
  moreover have "ob_next_id b \<notin> ms_id ` set (ob_messages b)" using assms(1) by (auto simp: outbox_ok_def)
  ultimately show ?thesis using assms(1) m none unfolding outbox_ok_def by (auto simp: b')
qed (use assms in \<open>simp add: enqueue_outbox_def\<close>)

lemma outbox_ok_step: "outbox_step b b' \<Longrightarrow> outbox_ok b \<Longrightarrow> outbox_ok b'"
proof (induction rule: outbox_step.induct)
  case post
  then show ?case by (blast intro: outbox_ok_enqueue)
next
  case take
  then show ?case by (blast intro: outbox_ok_claim)
next
  case report
  then show ?case by (blast intro: outbox_ok_finish)
qed

lemma outbox_reachable_ok: "outbox_reachable b \<Longrightarrow> outbox_ok b"
proof (induction rule: outbox_reachable.induct)
  case (start b)
  then show ?case by (simp add: outbox_ok_def)
qed (rule outbox_ok_step)

text \<open>C37: Every send is accounted for, and none is sent too often. In every reachable outbox no message
  has more attempts than it is allowed, its delivery records are exactly those of its attempts in
  their order, and a record without an outcome belongs to the current attempt of a message that is
  being sent or to the last one of a message that was given up; a finish that reports an outcome is
  never refused for a missing record.\<close>

theorem deliveries_are_accounted_for:
  assumes "outbox_reachable b" "m \<in> set (ob_messages b)"
  shows "ms_attempts m \<le> ms_max_attempts m
    \<and> map de_attempt (deliveries_of b (ms_id m)) = [1..<ms_attempts m + 1]
    \<and> (\<forall>d \<in> set (deliveries_of b (ms_id m)). de_finished_at d = None \<longrightarrow>
         de_attempt d = ms_attempts m \<and> ms_status m \<in> {Sending, MessageFailed})
    \<and> finish_outbox (ms_id m) worker now result code summary b \<noteq> Inl NoSuchDelivery"
proof -
  have ok: "outbox_ok b" by (rule outbox_reachable_ok [OF assms(1)])
  then have mok: "message_ok (deliveries_of b (ms_id m)) m" using assms(2) by (simp add: outbox_ok_def)
  have "finish_outbox (ms_id m) worker now result code summary b \<noteq> Inl NoSuchDelivery"
  proof (cases "List.find (\<lambda>k. ms_id k = ms_id m) (ob_messages b)")
    case (Some k)
    then have "k = m" using ok assms(2) by (auto simp: find_Some_iff outbox_ok_def distinct_map inj_on_def)
    then show ?thesis using Some mok find_delivery_attempt [OF mok]
      by (auto simp: finish_outbox_def message_ok_def split: option.splits)
  qed (simp add: finish_outbox_def)
  then show ?thesis using mok by (auto simp: message_ok_def)
qed

text \<open>A message with an outcome, or that was given up, is never taken again.\<close>

lemma settled_message_is_final:
  assumes "outbox_ok b" "outbox_step b b'" "m \<in> set (ob_messages b)" "ms_status m \<notin> {Pending, Sending}"
  shows "m \<in> set (ob_messages b')"
proof -
  have other: "m \<in> set (ob_messages (set_message k b))" if "n \<in> set (ob_messages b)" "ms_id k = ms_id n" "m \<noteq> n" for n k
  proof -
    have "ms_id m \<noteq> ms_id k" using assms(1,3) that by (auto simp: outbox_ok_def distinct_map inj_on_def)
    then show ?thesis using assms(3) by (auto simp: set_message_def intro!: image_eqI [of _ _ m])
  qed
  show ?thesis using assms(2)
  proof (cases rule: outbox_step.cases)
    case (take worker now lease r)
    then show ?thesis
    proof (cases "first_min_by (\<lambda>m. (ms_not_before m, ms_id m)) (filter (deliverable now) (ob_messages b))")
      case (Some n)
      then have n: "n \<in> set (ob_messages b)" "m \<noteq> n" using assms(4) by (auto dest!: first_min_by_Some simp: deliverable_def)
      have "\<exists>k. ms_id k = ms_id n \<and> ob_messages b' = ob_messages (set_message k b)"
      proof (cases "ms_max_attempts n \<le> ms_attempts n")
        case True
        then show ?thesis using take Some
          by (intro exI [of _ "n\<lparr>ms_status := MessageFailed, ms_completed_at := Some now\<rparr>"]) (auto simp: claim_outbox_def)
      next
        case False
        then show ?thesis using take Some
          by (intro exI [of _ "sending worker now lease n"])
            (auto simp: claim_outbox_def abandon_delivery_def Let_def sending_def split: if_splits option.splits)
      qed
      then show ?thesis using other [OF n(1) _ n(2)] by metis
    qed (use assms in \<open>simp add: claim_outbox_def\<close>)
  next
    case (report n worker now result code summary ok)
    then obtain k where k: "List.find (\<lambda>m. ms_id m = n) (ob_messages b) = Some k"
      by (auto simp: finish_outbox_def split: option.splits)
    then have "k \<in> set (ob_messages b)" by (auto simp: find_Some_iff)
    moreover have "ms_id (delivered now result k) = ms_id k" by (simp add: delivered_def Let_def)
    moreover have "b' = b \<or> ms_status k = Sending \<and> ob_messages b' = ob_messages (set_message (delivered now result k) b)"
      using report k by (auto simp: finish_outbox_def split: if_splits option.splits)
    ultimately show ?thesis using assms(3,4) other [of k "delivered now result k"] by (cases "m = k") auto
  qed (use assms in \<open>auto simp: enqueue_outbox_def Let_def split: option.splits\<close>)
qed

section \<open>A given up message\<close>

definition last_try :: "unit message" where
  [model_defs]: "last_try = \<lparr>ms_id = 1, ms_key = ''owner-email:1'', ms_payload = (), ms_not_before = 0, ms_status = Sending,
     ms_attempts = 3, ms_max_attempts = 3, ms_owner = ''w'', ms_lease_expires = Some 5, ms_heartbeat = Some 0,
     ms_completed_at = None\<rparr>"

definition last_delivery :: delivery where
  [model_defs]: "last_delivery = \<lparr>de_message = 1, de_attempt = 3, de_worker = ''w'', de_outcome = Started, de_error = '''',
     de_summary = '''', de_started_at = 0, de_finished_at = None\<rparr>"

text \<open>When the lease of the last allowed attempt runs out, the message fails, but its delivery record
  stays \<^verbatim>\<open>started\<close> for ever, where that of an earlier attempt becomes uncertain.\<close>

lemma given_up_delivery_stays_started:
  "claim_outbox ''v'' 9 lease_duration \<lparr>ob_messages = [last_try], ob_deliveries = [last_delivery], ob_next_id = 2\<rparr>
     = Inr (None, \<lparr>ob_messages = [last_try\<lparr>ms_status := MessageFailed, ms_completed_at := Some 9\<rparr>],
         ob_deliveries = [last_delivery], ob_next_id = 2\<rparr>)"
  by (simp add: claim_outbox_def deliverable_def reached_def set_message_def last_try_def)

definition empty_outbox :: "unit outbox" where
  [model_defs]: "empty_outbox = \<lparr>ob_messages = [], ob_deliveries = [], ob_next_id = 1\<rparr>"

theorem deliveries_are_accounted_for_witness:
  "\<exists>(b :: unit outbox) m. outbox_reachable b \<and> m \<in> set (ob_messages b) \<and> ms_attempts m = 1 \<and> map de_attempt (deliveries_of b (ms_id m)) = [1]"
proof -
  obtain m b where e: "enqueue_outbox ''k'' () 0 empty_outbox = (m, b)" "ob_messages b = [m]" "ob_deliveries b = []"
    "ms_status m = Pending" "ms_not_before m = 0" "ms_attempts m = 0" "ms_max_attempts m = 3"
    by (simp add: enqueue_outbox_def empty_outbox_def Let_def)
  have "outbox_reachable empty_outbox" by (rule start) (simp_all add: empty_outbox_def)
  then have b: "outbox_reachable b" by (rule step) (rule post [OF e(1)])
  obtain b' where c: "claim_outbox ''w'' 0 lease_duration b = Inr (Some (sending ''w'' 0 lease_duration m), b')"
    "ob_messages b' = [sending ''w'' 0 lease_duration m]"
    using e by (simp add: claim_outbox_def deliverable_def abandon_delivery_def set_message_def sending_def Let_def)
  have r: "outbox_reachable b'" by (rule step [OF b take [OF c(1)]])
  have m: "sending ''w'' 0 lease_duration m \<in> set (ob_messages b')" "ms_attempts (sending ''w'' 0 lease_duration m) = 1"
    using c(2) e(6) by (simp_all add: sending_def)
  have "[1..<1 + 1] = [1 :: nat]" by simp
  then have "map de_attempt (deliveries_of b' (ms_id (sending ''w'' 0 lease_duration m))) = [1]"
    using deliveries_are_accounted_for [OF r m(1)] unfolding m(2) by metis
  with r m show ?thesis by (intro exI [of _ b'] exI [of _ "sending ''w'' 0 lease_duration m"] conjI) simp_all
qed

end
