(* ===== verification/Sums.thy ===== *)
theory Sums
  imports Decimals
begin

text \<open>
  Sums of money. \<^verbatim>\<open>sum(...)\<close> and \<^verbatim>\<open>+=\<close> over Decimals round every partial sum to the precision of the
  context; a sum of values on a column's grid that stays below ten to the 22 is nevertheless exact, so
  its terms may be permuted and left out.
\<close>

lemma rnd28_small:
  assumes "on_grid n x" "n \<le> 6" "0 \<le> x" "x < 10 ^ 22"
  shows "rnd28 x = x"
proof (rule rnd28_on_grid [OF assms(1)])
  have "(10 :: rat) ^ n \<le> 10 ^ 6" using assms(2) by (intro power_increasing) simp_all
  then have "x * 10 ^ n < 10 ^ 22 * 10 ^ 6" using assms(3,4) by (intro mult_less_le_imp_less) simp_all
  then show "\<bar>x\<bar> * 10 ^ n < 10 ^ 28" using assms(3) by simp
qed

text \<open>A rounded sum of grid values that stays small is exact.\<close>

lemma large_rnd28: "10 ^ 22 \<le> x \<Longrightarrow> 10 ^ 22 \<le> rnd28 x"
proof -
  have "rnd28 (10 ^ 22) = 10 ^ 22" by (rule rnd28_on_grid [of 0]) (simp_all add: on_grid_def)
  then show "10 ^ 22 \<le> x \<Longrightarrow> 10 ^ 22 \<le> rnd28 x" using ctx28.rnd_mono [of "10 ^ 22" x] by simp
qed

lemma sum_stays_large: "10 ^ 22 \<le> acc \<Longrightarrow> \<forall>x \<in> set xs. 0 \<le> x \<Longrightarrow> 10 ^ 22 \<le> sum_from rnd28 acc xs"
proof (induction xs arbitrary: acc)
  case (Cons x xs)
  then have "10 ^ 22 \<le> rnd28 (acc + x)" by (intro large_rnd28) simp
  then show ?case using Cons.IH [of "rnd28 (acc + x)"] Cons.prems(2) by simp
qed simp

lemma py_sum_exact:
  "\<forall>x \<in> set xs. on_grid n x \<and> 0 \<le> x \<Longrightarrow> n \<le> 6 \<Longrightarrow> on_grid n acc \<Longrightarrow> 0 \<le> acc \<Longrightarrow> sum_from rnd28 acc xs < 10 ^ 22
     \<Longrightarrow> sum_from rnd28 acc xs = acc + sum_list xs"
proof (induction xs arbitrary: acc)
  case (Cons x xs)
  have grid: "on_grid n (acc + x)" and pos: "0 \<le> acc + x" using Cons.prems by (auto intro: on_grid_add)
  have "acc + x < 10 ^ 22"
    using sum_stays_large [OF large_rnd28, of "acc + x" xs] Cons.prems(1,5) by force
  then have "rnd28 (acc + x) = acc + x" using rnd28_small [OF grid Cons.prems(2) pos] by simp
  then show ?case using Cons.IH [of "acc + x"] Cons.prems grid pos by simp
qed simp

lemma py_sum_exact_iff:
  assumes "\<forall>x \<in> set xs. on_grid n x \<and> 0 \<le> x" "n \<le> 6" "cap < 10 ^ 22"
  shows "py_sum rnd28 xs \<le> cap \<longleftrightarrow> sum_list xs \<le> cap"
proof
  assume "py_sum rnd28 xs \<le> cap"
  then show "sum_list xs \<le> cap" using py_sum_exact [OF assms(1,2), of 0] assms(3) by (simp add: on_grid_def)
next
  assume "sum_list xs \<le> cap"
  moreover have "py_sum rnd28 xs = sum_list xs" if "sum_list xs < 10 ^ 22"
  proof -
    have "on_grid n acc \<Longrightarrow> 0 \<le> acc \<Longrightarrow> acc + sum_list ys < 10 ^ 22 \<Longrightarrow> set ys \<subseteq> set xs
        \<Longrightarrow> sum_from rnd28 acc ys = acc + sum_list ys" for acc ys
    proof (induction ys arbitrary: acc)
      case (Cons y ys)
      have y: "on_grid n y" "0 \<le> y" using assms(1) Cons.prems(4) by auto
      have rest: "0 \<le> sum_list ys" using assms(1) Cons.prems(4) by (intro sum_list_nonneg) auto
      have g: "on_grid n (acc + y)" using Cons.prems(1) y(1) by (rule on_grid_add)
      have "acc + y < 10 ^ 22" using Cons.prems(3) rest by simp
      then have "rnd28 (acc + y) = acc + y" using rnd28_small [OF g assms(2)] Cons.prems(2) y(2) by simp
      then show ?case using Cons.IH [OF g] Cons.prems y(2) by (simp add: add.assoc)
    qed simp
    from this [of 0 xs] show ?thesis using that by (simp add: on_grid_def)
  qed
  ultimately show "py_sum rnd28 xs \<le> cap" using assms(3) by simp
qed

end
