(* ===== verification/Budget.thy ===== *)
theory Budget
  imports Calendar Setups Sums
begin

text \<open>
  The provider budget: the reservations of \<^verbatim>\<open>operations/services.py\<close>, the accounts of
  \<^verbatim>\<open>operations/accounting.py\<close>, and the paid call of \<^verbatim>\<open>forecasts/recommendations.py\<close> that goes through
  them. Each ledger operation is a transaction of its own, so a refused call keeps what was committed
  before it. Amounts are numeric columns; how the database rounds a value into a column of that
  scale is the parameter \<open>column\<close> (\<open>None\<close>: numeric overflow).
\<close>

section \<open>Rows\<close>

datatype money_status = Reserved | Settled | Released | Unsettled

datatype call_outcome = NotRecorded | PendingOutcome | ResponseValidated | ResponseRejected | RunCapOutcome | ProviderFailed

record provider_budget =
  pb_id :: int
  pb_provider :: string
  pb_purpose :: string
  pb_daily_cap :: decimal
  pb_monthly_cap :: decimal

record reservation =
  rs_id :: int
  rs_budget :: int
  rs_key :: string
  rs_estimated :: decimal
  rs_actual :: "decimal option"
  rs_status :: money_status
  rs_outcome :: call_outcome
  rs_requested_model :: string
  rs_returned_model :: string
  rs_pricing :: string
  rs_usage :: string
  rs_budget_at :: instant

record ledger =
  lg_budgets :: "provider_budget list"
  lg_reservations :: "reservation list"
  lg_next_id :: int

datatype budget_error = NoSuchBudget | NoSuchReservation | NumericOverflow | NoAmount

type_synonym column = "nat \<Rightarrow> decimal \<Rightarrow> decimal option"

text \<open>A numeric column of twelve digits rounds to the nearest value of its scale, or refuses.\<close>

definition faithful_column :: "column \<Rightarrow> bool" where
  "faithful_column column \<longleftrightarrow>
     (\<forall>n x y. column n x = Some y \<longrightarrow> on_grid n y \<and> \<bar>y\<bar> * 10 ^ n < 10 ^ 12 \<and> \<bar>y - x\<bar> \<le> 1 / (2 * 10 ^ n))"

section \<open>Reservations\<close>

definition zero_or :: "decimal option \<Rightarrow> decimal" where
  [model_defs]: "zero_or x = (case x of None \<Rightarrow> 0 | Some v \<Rightarrow> v)"

text \<open>\<^verbatim>\<open>_reservation_amount\<close>; a settled row without an amount is \<open>None\<close>, which \<^verbatim>\<open>sum\<close> cannot add.\<close>

definition reservation_amount :: "reservation \<Rightarrow> decimal option" where
  [model_defs]: "reservation_amount row =
     (case rs_status row of
        Settled \<Rightarrow> rs_actual row
      | Unsettled \<Rightarrow> Some (case rs_actual row of None \<Rightarrow> rs_estimated row | Some a \<Rightarrow> a)
      | Reserved \<Rightarrow> Some (rs_estimated row)
      | Released \<Rightarrow> Some 0)"

definition utc_day :: "instant \<Rightarrow> int" where
  [model_defs]: "utc_day t = t div days 1"

definition rows_in :: "(instant \<Rightarrow> int) \<Rightarrow> int \<Rightarrow> instant \<Rightarrow> ledger \<Rightarrow> reservation list" where
  [model_defs]: "rows_in period b now l =
     filter (\<lambda>r. rs_budget r = b \<and> rs_status r \<noteq> Released \<and> period (rs_budget_at r) = period now) (lg_reservations l)"

definition committed :: "reservation list \<Rightarrow> decimal option" where
  [model_defs]: "committed rows = map_option (py_sum rnd28) (those (map reservation_amount rows))"

definition find_budget :: "string \<Rightarrow> string \<Rightarrow> ledger \<Rightarrow> provider_budget option" where
  [model_defs]: "find_budget provider purpose l =
     List.find (\<lambda>b. pb_provider b = provider \<and> pb_purpose b = purpose) (lg_budgets l)"

definition new_reservation ::
  "int \<Rightarrow> provider_budget \<Rightarrow> string \<Rightarrow> decimal \<Rightarrow> instant \<Rightarrow> string \<Rightarrow> string \<Rightarrow> reservation" where
  [model_defs]: "new_reservation n b key estimate now model pricing =
     \<lparr>rs_id = n, rs_budget = pb_id b, rs_key = key, rs_estimated = estimate, rs_actual = None, rs_status = Reserved,
      rs_outcome = PendingOutcome, rs_requested_model = take 120 model, rs_returned_model = '''',
      rs_pricing = take 80 pricing, rs_usage = '''', rs_budget_at = now\<rparr>"

text \<open>The reply of \<^verbatim>\<open>reserve_provider_budget\<close>: nothing when a cap would be exceeded, and the row with
  \<^verbatim>\<open>_was_created\<close> otherwise.\<close>

definition reserve_provider_budget ::
  "column \<Rightarrow> string \<Rightarrow> string \<Rightarrow> string \<Rightarrow> decimal \<Rightarrow> instant \<Rightarrow> string \<Rightarrow> string \<Rightarrow> ledger
     \<Rightarrow> budget_error + ((bool \<times> reservation) option \<times> ledger)" where
  [model_defs]: "reserve_provider_budget column provider purpose key estimate now model pricing l =
     (case List.find (\<lambda>r. rs_key r = key) (lg_reservations l) of
        Some r \<Rightarrow> Inr (Some (False, r), l)
      | None \<Rightarrow>
          (case find_budget provider purpose l of
             None \<Rightarrow> Inl NoSuchBudget
           | Some b \<Rightarrow>
               (case (committed (rows_in utc_day (pb_id b) now l), committed (rows_in month_index (pb_id b) now l)) of
                  (Some daily, Some monthly) \<Rightarrow>
                    if pb_daily_cap b < rnd28 (daily + estimate) \<or> pb_monthly_cap b < rnd28 (monthly + estimate)
                    then Inr (None, l)
                    else
                      (case column 6 estimate of
                         None \<Rightarrow> Inl NumericOverflow
                       | Some stored \<Rightarrow>
                           (let r = new_reservation (lg_next_id l) b key stored now model pricing in
                            Inr (Some (True, r),
                              l\<lparr>lg_reservations := lg_reservations l @ [r], lg_next_id := lg_next_id l + 1\<rparr>)))
                | _ \<Rightarrow> Inl NoAmount)))"

definition set_reservation :: "reservation \<Rightarrow> ledger \<Rightarrow> ledger" where
  [model_defs]: "set_reservation r l =
     l\<lparr>lg_reservations := map (\<lambda>k. if rs_id k = rs_id r then r else k) (lg_reservations l)\<rparr>"

definition find_reservation :: "int \<Rightarrow> ledger \<Rightarrow> reservation option" where
  [model_defs]: "find_reservation n l = List.find (\<lambda>r. rs_id r = n) (lg_reservations l)"

definition stamp :: "nat \<Rightarrow> string option \<Rightarrow> string \<Rightarrow> string" where
  [model_defs]: "stamp limit given old = (case given of None \<Rightarrow> old | Some s \<Rightarrow> take limit s)"

definition settle_provider_budget ::
  "column \<Rightarrow> int \<Rightarrow> decimal \<Rightarrow> string option \<Rightarrow> string option \<Rightarrow> string option \<Rightarrow> ledger
     \<Rightarrow> budget_error + (bool \<times> ledger)" where
  [model_defs]: "settle_provider_budget column n actual model usage pricing l =
     (case find_reservation n l of
        None \<Rightarrow> Inl NoSuchReservation
      | Some r \<Rightarrow>
          if rs_status r \<noteq> Reserved then Inr (False, l)
          else
            (case column 6 actual of
               None \<Rightarrow> Inl NumericOverflow
             | Some stored \<Rightarrow>
                 Inr (True, set_reservation (r\<lparr>rs_status := Settled, rs_actual := Some stored,
                   rs_returned_model := stamp 120 model (rs_returned_model r),
                   rs_usage := stamp 160 usage (rs_usage r),
                   rs_pricing := (if rs_pricing r = '''' then stamp 80 pricing (rs_pricing r) else rs_pricing r)\<rparr>) l)))"

definition record_reservation_outcome :: "int \<Rightarrow> call_outcome \<Rightarrow> ledger \<Rightarrow> budget_error + (bool \<times> ledger)" where
  [model_defs]: "record_reservation_outcome n result l =
     (case find_reservation n l of
        None \<Rightarrow> Inl NoSuchReservation
      | Some r \<Rightarrow>
          if rs_outcome r \<notin> {NotRecorded, PendingOutcome} then Inr (False, l)
          else if rs_outcome r = NotRecorded then Inr (False, l)
          else Inr (True, set_reservation (r\<lparr>rs_outcome := result\<rparr>) l))"

definition release_provider_budget :: "int \<Rightarrow> ledger \<Rightarrow> budget_error + (bool \<times> ledger)" where
  [model_defs]: "release_provider_budget n l =
     (case find_reservation n l of
        None \<Rightarrow> Inl NoSuchReservation
      | Some r \<Rightarrow>
          if rs_status r \<noteq> Reserved then Inr (False, l)
          else Inr (True, set_reservation (r\<lparr>rs_status := Released\<rparr>) l))"

definition mark_provider_budget_uncertain ::
  "column \<Rightarrow> int \<Rightarrow> decimal option \<Rightarrow> ledger \<Rightarrow> budget_error + (bool \<times> ledger)" where
  [model_defs]: "mark_provider_budget_uncertain column n actual l =
     (case find_reservation n l of
        None \<Rightarrow> Inl NoSuchReservation
      | Some r \<Rightarrow>
          if rs_status r \<noteq> Reserved then Inr (False, l)
          else
            (case actual of
               None \<Rightarrow> Inr (True, set_reservation (r\<lparr>rs_status := Unsettled, rs_actual := None\<rparr>) l)
             | Some a \<Rightarrow>
                 (case column 6 a of
                    None \<Rightarrow> Inl NumericOverflow
                  | Some stored \<Rightarrow>
                      Inr (True, set_reservation (r\<lparr>rs_status := Unsettled, rs_actual := Some stored\<rparr>) l))))"

section \<open>Accounts\<close>

text \<open>\<^verbatim>\<open>_committed\<close> and the fold of \<^verbatim>\<open>provider_accounts\<close> over the rows of one budget and period.\<close>

definition committed_amount :: "reservation \<Rightarrow> decimal" where
  [model_defs]: "committed_amount row =
     (case rs_status row of
        Settled \<Rightarrow> zero_or (rs_actual row)
      | Unsettled \<Rightarrow> (case rs_actual row of None \<Rightarrow> rs_estimated row | Some a \<Rightarrow> a)
      | Reserved \<Rightarrow> rs_estimated row
      | Released \<Rightarrow> 0)"

record account =
  ac_committed :: decimal
  ac_reserved_count :: nat
  ac_reserved :: decimal
  ac_settled_count :: nat
  ac_settled :: decimal
  ac_uncertain_count :: nat
  ac_uncertain :: decimal
  ac_released_count :: nat
  ac_validated_count :: nat
  ac_rejected_count :: nat
  ac_not_recorded_count :: nat
  ac_failed_paid_count :: nat
  ac_failed_paid :: decimal
  ac_reconciled :: nat
  ac_settled_without :: nat

definition empty_account :: account where
  [model_defs]: "empty_account =
     \<lparr>ac_committed = 0, ac_reserved_count = 0, ac_reserved = 0, ac_settled_count = 0, ac_settled = 0,
      ac_uncertain_count = 0, ac_uncertain = 0, ac_released_count = 0, ac_validated_count = 0, ac_rejected_count = 0,
      ac_not_recorded_count = 0, ac_failed_paid_count = 0, ac_failed_paid = 0, ac_reconciled = 0, ac_settled_without = 0\<rparr>"

definition count_status :: "reservation \<Rightarrow> account \<Rightarrow> account" where
  [model_defs]: "count_status row a =
     (case rs_status row of
        Reserved \<Rightarrow> a\<lparr>ac_reserved_count := ac_reserved_count a + 1, ac_reserved := rnd28 (ac_reserved a + rs_estimated row)\<rparr>
      | Settled \<Rightarrow> a\<lparr>ac_settled_count := ac_settled_count a + 1, ac_settled := rnd28 (ac_settled a + zero_or (rs_actual row))\<rparr>
      | Unsettled \<Rightarrow> a\<lparr>ac_uncertain_count := ac_uncertain_count a + 1,
                      ac_uncertain := rnd28 (ac_uncertain a + committed_amount row)\<rparr>
      | Released \<Rightarrow> a\<lparr>ac_released_count := ac_released_count a + 1\<rparr>)"

definition count_outcome :: "reservation \<Rightarrow> account \<Rightarrow> account" where
  [model_defs]: "count_outcome row a =
     (case rs_outcome row of
        ResponseValidated \<Rightarrow> a\<lparr>ac_validated_count := ac_validated_count a + 1\<rparr>
      | ResponseRejected \<Rightarrow> a\<lparr>ac_rejected_count := ac_rejected_count a + 1\<rparr>
      | RunCapOutcome \<Rightarrow> a
      | ProviderFailed \<Rightarrow> a
      | NotRecorded \<Rightarrow> a\<lparr>ac_not_recorded_count := ac_not_recorded_count a + 1\<rparr>
      | PendingOutcome \<Rightarrow> a)"

definition count_paid_failure :: "reservation \<Rightarrow> account \<Rightarrow> account" where
  [model_defs]: "count_paid_failure row a =
     (if rs_status row = Settled \<and> rs_outcome row \<in> {ResponseRejected, RunCapOutcome}
      then a\<lparr>ac_failed_paid_count := ac_failed_paid_count a + 1,
             ac_failed_paid := rnd28 (ac_failed_paid a + zero_or (rs_actual row))\<rparr>
      else a)"

definition recommendation_prefix :: string where
  [model_defs]: "recommendation_prefix = ''recommendation:''"

definition reconcile :: "string list \<Rightarrow> reservation \<Rightarrow> account \<Rightarrow> account" where
  [model_defs]: "reconcile keys row a =
     (if take (length recommendation_prefix) (rs_key row) \<noteq> recommendation_prefix then a
      else if rs_key row \<in> set (map ((@) recommendation_prefix) keys) then a\<lparr>ac_reconciled := ac_reconciled a + 1\<rparr>
      else if rs_status row = Settled then a\<lparr>ac_settled_without := ac_settled_without a + 1\<rparr>
      else a)"

definition account_row :: "string list \<Rightarrow> account \<Rightarrow> reservation \<Rightarrow> account" where
  [model_defs]: "account_row keys a row =
     reconcile keys row (count_paid_failure row (count_outcome row (count_status row
       (a\<lparr>ac_committed := rnd28 (ac_committed a + committed_amount row)\<rparr>))))"

text \<open>The rows of a budget are visited newest first.\<close>

definition account_of :: "string list \<Rightarrow> (instant \<Rightarrow> int) \<Rightarrow> provider_budget \<Rightarrow> instant \<Rightarrow> ledger \<Rightarrow> account" where
  [model_defs]: "account_of keys period b now l =
     foldl (account_row keys) empty_account
       (filter (\<lambda>r. period (rs_budget_at r) = period now)
         (sort_key (\<lambda>r. (- rs_budget_at r, - rs_id r)) (filter (\<lambda>r. rs_budget r = pb_id b) (lg_reservations l))))"

definition cap_used_percent :: "account \<Rightarrow> decimal \<Rightarrow> decimal option" where
  [model_defs]: "cap_used_percent a cap =
     (if cap = 0 then None else Some (quantize 1 (rnd28 (rnd28 (ac_committed a * 100) / cap))))"

section \<open>The paid call\<close>

record price_settings =
  ps_input_usd :: decimal
  ps_output_usd :: decimal
  ps_max_output_tokens :: int
  ps_max_run_cost :: decimal
  ps_daily_budget :: decimal
  ps_monthly_budget :: decimal
  ps_pricing_version :: string

text \<open>\<^verbatim>\<open>_cost\<close>: the sum is rounded to six decimals before it is divided by a million.\<close>

definition cost_of :: "price_settings \<Rightarrow> int \<Rightarrow> int \<Rightarrow> decimal" where
  [model_defs]: "cost_of s input_tokens output_tokens =
     rnd28 (quantize 6 (rnd28 (rnd28 (of_int input_tokens * ps_input_usd s) + rnd28 (of_int output_tokens * ps_output_usd s)))
            / 1000000)"

datatype call_error =
    RequestOverCap | SpendCapReached | InProgress | KeyConsumed | LedgerFailed budget_error
  | ProviderRaised | ResponseOverCap | OutputRefused output_error | NotStored

definition ensure_budget ::
  "column \<Rightarrow> price_settings \<Rightarrow> string \<Rightarrow> string \<Rightarrow> ledger \<Rightarrow> budget_error + ledger" where
  [model_defs]: "ensure_budget column s provider purpose l =
     (case find_budget provider purpose l of
        Some b \<Rightarrow> Inr l
      | None \<Rightarrow>
          (case (column 4 (ps_daily_budget s), column 4 (ps_monthly_budget s)) of
             (Some daily, Some monthly) \<Rightarrow>
               Inr (l\<lparr>lg_budgets := lg_budgets l @ [\<lparr>pb_id = lg_next_id l, pb_provider = provider, pb_purpose = purpose,
                        pb_daily_cap = daily, pb_monthly_cap = monthly\<rparr>],
                      lg_next_id := lg_next_id l + 1\<rparr>)
           | _ \<Rightarrow> Inl NumericOverflow))"

text \<open>\<^verbatim>\<open>_reserve_recommendation_budget\<close>; the length of the serialised input and the prompt together is
  given in characters.\<close>

definition reserve_recommendation_budget ::
  "column \<Rightarrow> price_settings \<Rightarrow> string \<Rightarrow> string \<Rightarrow> string \<Rightarrow> int \<Rightarrow> instant \<Rightarrow> ledger
     \<Rightarrow> (call_error + reservation) \<times> ledger" where
  [model_defs]: "reserve_recommendation_budget column s provider model key characters generated_at l =
     (let estimated = cost_of s ((characters + 3) div 4) (ps_max_output_tokens s) in
      if ps_max_run_cost s < estimated then (Inl RequestOverCap, l)
      else
        (case ensure_budget column s provider ''recommendation'' l of
           Inl e \<Rightarrow> (Inl (LedgerFailed e), l)
         | Inr l \<Rightarrow>
             (case reserve_provider_budget column provider ''recommendation'' (recommendation_prefix @ key) estimated
                     generated_at model (ps_pricing_version s) l of
                Inl e \<Rightarrow> (Inl (LedgerFailed e), l)
              | Inr (None, l) \<Rightarrow> (Inl SpendCapReached, l)
              | Inr (Some (created, r), l) \<Rightarrow>
                  if created then (Inr r, l)
                  else if rs_status r = Reserved then (Inl InProgress, l)
                  else (Inl KeyConsumed, l))))"

record provider_result =
  pr_output :: response
  pr_response_id :: string
  pr_input_tokens :: int
  pr_output_tokens :: int
  pr_model :: string

text \<open>One ledger operation of the call: its result is not looked at, an error ends the call.\<close>

definition after_ledger ::
  "budget_error + (bool \<times> ledger) \<Rightarrow> ledger \<Rightarrow> (ledger \<Rightarrow> (call_error + 'a) \<times> ledger) \<Rightarrow> (call_error + 'a) \<times> ledger" where
  [model_defs]: "after_ledger op l continue =
     (case op of Inl e \<Rightarrow> (Inl (LedgerFailed e), l) | Inr (done, l') \<Rightarrow> continue l')"

text \<open>The body of \<^verbatim>\<open>generate_recommendation\<close> from the provider's reply on. The provider's reply is a
  parameter (\<open>None\<close>: it raised), and so is whether the records of an accepted response could be stored.\<close>

definition paid_call ::
  "column \<Rightarrow> price_settings \<Rightarrow> string list \<Rightarrow> reservation \<Rightarrow> provider_result option \<Rightarrow> bool \<Rightarrow> ledger
     \<Rightarrow> (call_error + validated) \<times> ledger" where
  [model_defs]: "paid_call column s allowed r reply storable l =
     (case reply of
        None \<Rightarrow>
          after_ledger (mark_provider_budget_uncertain column (rs_id r) None l) l (\<lambda>l.
            after_ledger (record_reservation_outcome (rs_id r) ProviderFailed l) l (\<lambda>l. (Inl ProviderRaised, l)))
      | Some result \<Rightarrow>
          (let cost = cost_of s (pr_input_tokens result) (pr_output_tokens result) in
           after_ledger (settle_provider_budget column (rs_id r) cost (Some (pr_model result))
                           (Some (pr_response_id result)) (Some (ps_pricing_version s)) l) l (\<lambda>l.
             if ps_max_run_cost s < cost
             then after_ledger (record_reservation_outcome (rs_id r) RunCapOutcome l) l (\<lambda>l. (Inl ResponseOverCap, l))
             else
               (case validate_output (pr_output result) allowed of
                  Inl UncheckedType \<Rightarrow> (Inl (OutputRefused UncheckedType), l)
                | Inl e \<Rightarrow>
                    after_ledger (record_reservation_outcome (rs_id r) ResponseRejected l) l (\<lambda>l. (Inl (OutputRefused e), l))
                | Inr v \<Rightarrow>
                    if \<not> storable then (Inl NotStored, l)
                    else after_ledger (record_reservation_outcome (rs_id r) ResponseValidated l) l (\<lambda>l. (Inr v, l))))))"

definition generate_with_budget ::
  "column \<Rightarrow> price_settings \<Rightarrow> string \<Rightarrow> string \<Rightarrow> string \<Rightarrow> int \<Rightarrow> instant \<Rightarrow> string list \<Rightarrow> provider_result option \<Rightarrow> bool
     \<Rightarrow> ledger \<Rightarrow> (call_error + validated) \<times> ledger" where
  [model_defs]: "generate_with_budget column s provider model key characters generated_at allowed reply storable l =
     (case reserve_recommendation_budget column s provider model key characters generated_at l of
        (Inl e, l) \<Rightarrow> (Inl e, l)
      | (Inr r, l) \<Rightarrow> paid_call column s allowed r reply storable l)"

section \<open>The ledger never commits more than its caps\<close>

lemma column_grid: "faithful_column column \<Longrightarrow> column n x = Some y \<Longrightarrow> on_grid n y"
  by (auto simp: faithful_column_def)

lemma column_error: "faithful_column column \<Longrightarrow> column n x = Some y \<Longrightarrow> \<bar>y - x\<bar> \<le> 1 / (2 * 10 ^ n)"
  by (auto simp: faithful_column_def)

lemma column_small: "faithful_column column \<Longrightarrow> column n x = Some y \<Longrightarrow> \<bar>y\<bar> * 10 ^ n < 10 ^ 12"
  by (auto simp: faithful_column_def)

text \<open>On the grid, below the half step above a grid value is at most that value.\<close>

lemma grid_below:
  assumes "on_grid n x" "on_grid n y" "x * 10 ^ n < y * 10 ^ n + 1"
  shows "x \<le> y"
proof -
  obtain i j :: int where ij: "x = of_int i / 10 ^ n" "y = of_int j / 10 ^ n"
    using assms(1,2) unfolding on_grid_iff by blast
  then have "(of_int i :: rat) < of_int (j + 1)" using assms(3) by simp
  then have "i \<le> j" by (simp only: of_int_less_iff)
  then show ?thesis by (simp add: ij divide_right_mono)
qed

lemma column_nonneg:
  assumes "faithful_column column" "column n x = Some y" "0 \<le> x"
  shows "0 \<le> y"
proof (rule grid_below [of n 0 y])
  have "- y \<le> 1 / (2 * 10 ^ n)" using column_error [OF assms(1,2)] assms(3) by linarith
  then have "- y * 10 ^ n \<le> 1 / 2" by (simp add: field_simps)
  then show "0 * 10 ^ n < y * 10 ^ n + 1" by simp
qed (use column_grid [OF assms(1,2)] in \<open>simp_all add: on_grid_def\<close>)

text \<open>What a row has committed up to its estimate, and what it took beyond it.\<close>

definition funded :: "reservation \<Rightarrow> decimal" where
  "funded r = min (committed_amount r) (rs_estimated r)"

definition overrun :: "reservation \<Rightarrow> decimal" where
  "overrun r = max 0 (committed_amount r - rs_estimated r)"

lemma committed_split: "committed_amount r = funded r + overrun r"
  by (simp add: funded_def overrun_def)

definition in_period :: "(instant \<Rightarrow> int) \<Rightarrow> int \<Rightarrow> int \<Rightarrow> reservation \<Rightarrow> bool" where
  "in_period period b d r \<longleftrightarrow> rs_budget r = b \<and> period (rs_budget_at r) = d"

definition total_of :: "(reservation \<Rightarrow> decimal) \<Rightarrow> (instant \<Rightarrow> int) \<Rightarrow> int \<Rightarrow> int \<Rightarrow> ledger \<Rightarrow> decimal" where
  "total_of f period b d l = sum_list (map f (filter (in_period period b d) (lg_reservations l)))"

definition row_ok :: "reservation \<Rightarrow> bool" where
  "row_ok r \<longleftrightarrow>
     on_grid 6 (rs_estimated r) \<and> 0 \<le> rs_estimated r \<and>
     (case rs_actual r of None \<Rightarrow> rs_status r \<noteq> Settled | Some a \<Rightarrow> on_grid 6 a \<and> 0 \<le> a)"

definition budget_ok :: "provider_budget \<Rightarrow> bool" where
  "budget_ok b \<longleftrightarrow> on_grid 4 (pb_daily_cap b) \<and> on_grid 4 (pb_monthly_cap b) \<and>
     0 \<le> pb_daily_cap b \<and> 0 \<le> pb_monthly_cap b \<and> pb_daily_cap b < 10 ^ 8 \<and> pb_monthly_cap b < 10 ^ 8"

definition ledger_ok :: "ledger \<Rightarrow> bool" where
  "ledger_ok l \<longleftrightarrow>
     distinct (map rs_id (lg_reservations l)) \<and> distinct (map rs_key (lg_reservations l)) \<and>
     distinct (map pb_id (lg_budgets l)) \<and>
     (\<forall>r \<in> set (lg_reservations l). row_ok r \<and> rs_id r < lg_next_id l \<and> rs_budget r < lg_next_id l) \<and>
     (\<forall>b \<in> set (lg_budgets l). budget_ok b \<and> pb_id b < lg_next_id l \<and>
        (\<forall>d. total_of funded utc_day (pb_id b) d l \<le> pb_daily_cap b \<and>
             total_of funded month_index (pb_id b) d l \<le> pb_monthly_cap b))"

lemma row_amount: "row_ok r \<Longrightarrow> reservation_amount r = Some (committed_amount r)"
  by (auto simp: row_ok_def reservation_amount_def committed_amount_def zero_or_def split: money_status.split option.splits)

lemma committed_row: "row_ok r \<Longrightarrow> on_grid 6 (committed_amount r) \<and> 0 \<le> committed_amount r"
  by (auto simp: row_ok_def committed_amount_def zero_or_def on_grid_def split: money_status.split option.splits)

lemma those_amounts: "\<forall>r \<in> set rows. row_ok r \<Longrightarrow> those (map reservation_amount rows) = Some (map committed_amount rows)"
  by (induction rows) (simp_all add: row_amount)

text \<open>A reservation that the check lets through stays within the cap once it is stored.\<close>

lemma reservation_fits:
  assumes "faithful_column column" "column 6 estimate = Some stored" "0 \<le> estimate"
    and "\<forall>r \<in> set rows. row_ok r" "committed rows = Some sumup" "rnd28 (sumup + estimate) \<le> cap"
    and "on_grid 4 cap" "0 \<le> cap" "cap < 10 ^ 8"
  shows "sum_list (map committed_amount rows) + stored \<le> cap"
proof -
  have amounts: "\<forall>x \<in> set (map committed_amount rows). on_grid 6 x \<and> 0 \<le> x"
    using assms(4) committed_row by auto
  have sumup: "sumup = py_sum rnd28 (map committed_amount rows)"
    using assms(5) those_amounts [OF assms(4)] by (simp add: committed_def)
  have "\<not> 10 ^ 22 \<le> sumup + estimate" using large_rnd28 [of "sumup + estimate"] assms(6,9) by (auto dest: order_trans)
  then have "sumup < 10 ^ 22" using assms(3) by linarith
  then have exact: "sumup = sum_list (map committed_amount rows)"
    using py_sum_exact [OF amounts, of 0] sumup by (simp add: on_grid_def)
  have grid: "on_grid 6 sumup" using amounts unfolding exact by (induction rows) (auto simp: on_grid_def [of 6 0] intro: on_grid_add)
  have cap6: "on_grid 6 cap"
  proof -
    obtain k :: int where "cap = of_int k / 10 ^ 4" using assms(7) unfolding on_grid_iff by blast
    then have "cap = of_int (k * 100) / 10 ^ 6" by simp
    then show ?thesis unfolding on_grid_iff by blast
  qed
  let ?half = "1 / (2 * 10 ^ 6) :: rat"
  have "sumup + estimate < cap + ?half"
  proof (rule ccontr)
    assume "\<not> sumup + estimate < cap + ?half"
    then have "rnd28 (cap + ?half) \<le> rnd28 (sumup + estimate)" by (intro ctx28.rnd_mono) simp
    moreover have "rnd28 (cap + ?half) = cap + ?half"
    proof (rule rnd28_on_grid [of 7])
      obtain k :: int where "cap = of_int k / 10 ^ 6" using cap6 unfolding on_grid_iff by blast
      then have "cap + ?half = of_int (k * 10 + 5) / 10 ^ 7" by (simp add: field_simps)
      then show "on_grid 7 (cap + ?half)" unfolding on_grid_iff by blast
    qed (use assms(8,9) in simp)
    ultimately show False using assms(6) by simp
  qed
  moreover have "stored - estimate \<le> ?half" using column_error [OF assms(1,2)] by (simp only: abs_le_iff)
  ultimately have "sumup + stored < cap + 1 / 10 ^ 6" by (simp add: field_simps)
  moreover have "on_grid 6 (sumup + stored)" by (rule on_grid_add [OF grid column_grid [OF assms(1,2)]])
  ultimately have "sumup + stored \<le> cap" by (intro grid_below [OF _ cap6]) (simp_all add: field_simps)
  then show ?thesis by (simp add: exact)
qed

section \<open>Reachable ledgers\<close>

inductive ledger_step :: "column \<Rightarrow> ledger \<Rightarrow> ledger \<Rightarrow> bool" for column where
  open_budget: "ensure_budget column s provider purpose l = Inr l' \<Longrightarrow> 0 \<le> ps_daily_budget s
     \<Longrightarrow> 0 \<le> ps_monthly_budget s \<Longrightarrow> ledger_step column l l'"
| reserve: "reserve_provider_budget column provider purpose key estimate now model pricing l = Inr (res, l')
     \<Longrightarrow> 0 \<le> estimate \<Longrightarrow> ledger_step column l l'"
| settle: "settle_provider_budget column n actual model usage pricing l = Inr (ok, l') \<Longrightarrow> 0 \<le> actual
     \<Longrightarrow> ledger_step column l l'"
| label: "record_reservation_outcome n result l = Inr (ok, l') \<Longrightarrow> ledger_step column l l'"
| release: "release_provider_budget n l = Inr (ok, l') \<Longrightarrow> ledger_step column l l'"
| doubt: "mark_provider_budget_uncertain column n actual l = Inr (ok, l') \<Longrightarrow> 0 \<le> zero_or actual
     \<Longrightarrow> ledger_step column l l'"

inductive ledger_reachable :: "column \<Rightarrow> ledger \<Rightarrow> bool" for column where
  start: "ledger_reachable column \<lparr>lg_budgets = [], lg_reservations = [], lg_next_id = 1\<rparr>"
| step: "ledger_reachable column l \<Longrightarrow> ledger_step column l l' \<Longrightarrow> ledger_reachable column l'"

lemma find_reservation_SomeD: "find_reservation n l = Some r \<Longrightarrow> r \<in> set (lg_reservations l) \<and> rs_id r = n"
  by (auto simp: find_reservation_def find_Some_iff)

lemma find_budget_SomeD: "find_budget provider purpose l = Some b \<Longrightarrow> b \<in> set (lg_budgets l)"
  by (auto simp: find_budget_def find_Some_iff)

lemma set_reservation_simps [simp]:
  "lg_budgets (set_reservation r l) = lg_budgets l" "lg_next_id (set_reservation r l) = lg_next_id l"
  by (simp_all add: set_reservation_def)

lemma total_as_sum: "total_of f period b d l = (\<Sum>r\<leftarrow>lg_reservations l. if in_period period b d r then f r else 0)"
  unfolding total_of_def by (induction "lg_reservations l" arbitrary: l) (simp_all add: sum_list_map_filter' sum_list_map_filter)

lemma set_reservation_ids:
  assumes "rs_id r' = rs_id r"
  shows "map rs_id (lg_reservations (set_reservation r' l)) = map rs_id (lg_reservations l)"
  by (auto simp: set_reservation_def)

text \<open>A row may be replaced by one of the same identity that funds no more.\<close>

lemma ledger_ok_set:
  assumes "ledger_ok l" "r \<in> set (lg_reservations l)" "row_ok r'" "funded r' \<le> funded r"
    and same: "rs_id r' = rs_id r" "rs_key r' = rs_key r" "rs_budget r' = rs_budget r" "rs_budget_at r' = rs_budget_at r"
  shows "ledger_ok (set_reservation r' l)"
proof -
  let ?swap = "\<lambda>k. if rs_id k = rs_id r' then r' else k"
  have d: "distinct (map rs_id (lg_reservations l))" using assms(1) by (simp add: ledger_ok_def)
  have only: "k = r" if "k \<in> set (lg_reservations l)" "rs_id k = rs_id r'" for k
    using d that assms(2) same(1) by (metis distinct_map inj_onD)
  have rows: "lg_reservations (set_reservation r' l) = map ?swap (lg_reservations l)" by (simp add: set_reservation_def)
  have keys: "map rs_key (map ?swap (lg_reservations l)) = map rs_key (lg_reservations l)"
    using only same(2) by (auto simp: comp_def)
  have ids: "map rs_id (map ?swap (lg_reservations l)) = map rs_id (lg_reservations l)" by (auto simp: comp_def)
  have totals: "total_of funded period b e (set_reservation r' l) \<le> total_of funded period b e l" for period b e
    unfolding total_as_sum rows map_map comp_def
    by (rule sum_list_mono) (use only same assms(4) in \<open>auto simp: in_period_def\<close>)
  have inside: "row_ok k \<and> rs_id k < lg_next_id l \<and> rs_budget k < lg_next_id l" if "k \<in> set (map ?swap (lg_reservations l))" for k
    using that assms(1,2,3) same by (auto simp: ledger_ok_def)
  show ?thesis
    unfolding ledger_ok_def set_reservation_simps rows keys ids
    using assms(1) inside totals unfolding ledger_ok_def by (meson order_trans)
qed

lemma ledger_ok_append:
  assumes "ledger_ok l" "b \<in> set (lg_budgets l)" "row_ok r" "rs_id r = lg_next_id l" "rs_budget r = pb_id b"
    and "rs_key r \<notin> rs_key ` set (lg_reservations l)"
    and "total_of committed_amount utc_day (pb_id b) (utc_day (rs_budget_at r)) l + funded r \<le> pb_daily_cap b"
    and "total_of committed_amount month_index (pb_id b) (month_index (rs_budget_at r)) l + funded r \<le> pb_monthly_cap b"
  shows "ledger_ok (l\<lparr>lg_reservations := lg_reservations l @ [r], lg_next_id := lg_next_id l + 1\<rparr>)"
proof -
  have le: "total_of funded period c d l \<le> total_of committed_amount period c d l" for period c d
    unfolding total_of_def by (rule sum_list_mono) (simp add: funded_def)
  have d: "distinct (map pb_id (lg_budgets l))" using assms(1) by (simp add: ledger_ok_def)
  have only: "c = b" if "c \<in> set (lg_budgets l)" "pb_id c = pb_id b" for c
    using d that assms(2) by (metis distinct_map inj_onD)
  have fresh: "rs_id k < lg_next_id l" "rs_budget k < lg_next_id l" "row_ok k" if "k \<in> set (lg_reservations l)" for k
    using that assms(1) by (auto simp: ledger_ok_def)
  have budget: "budget_ok c \<and> pb_id c < lg_next_id l" if "c \<in> set (lg_budgets l)" for c
    using that assms(1) by (auto simp: ledger_ok_def)
  let ?l = "l\<lparr>lg_reservations := lg_reservations l @ [r], lg_next_id := lg_next_id l + 1\<rparr>"
  have caps: "total_of funded utc_day (pb_id c) e ?l \<le> pb_daily_cap c \<and> total_of funded month_index (pb_id c) e ?l \<le> pb_monthly_cap c"
    if c: "c \<in> set (lg_budgets l)" for c e
  proof -
    have old: "total_of funded utc_day (pb_id c) e l \<le> pb_daily_cap c" "total_of funded month_index (pb_id c) e l \<le> pb_monthly_cap c"
      using c assms(1) by (auto simp: ledger_ok_def)
    have new: "total_of funded period (pb_id c) e ?l = total_of funded period (pb_id c) e l
        + (if in_period period (pb_id c) e r then funded r else 0)" for period
      by (simp add: total_of_def)
    have fits: "total_of funded period (pb_id c) e ?l \<le> cap c"
      if "total_of funded period (pb_id c) e l \<le> cap c"
        and room: "total_of committed_amount period (pb_id b) (period (rs_budget_at r)) l + funded r \<le> cap b" for period cap
    proof (cases "in_period period (pb_id c) e r")
      case True
      then have "pb_id c = pb_id b" and e: "e = period (rs_budget_at r)" using assms(5) by (auto simp: in_period_def)
      then have eq: "c = b" "e = period (rs_budget_at r)" using only [OF c] by blast+
      have "total_of funded period (pb_id c) e l \<le> total_of committed_amount period (pb_id b) (period (rs_budget_at r)) l"
        unfolding eq by (rule le)
      moreover have "cap c = cap b" using eq(1) by simp
      ultimately show ?thesis using True room unfolding new by simp
    qed (use that(1) new in simp)
    show ?thesis using fits [OF old(1) assms(7)] fits [OF old(2) assms(8)] by blast
  qed
  have "rs_id r \<notin> rs_id ` set (lg_reservations l)" using fresh(1) assms(4) by force
  then have "distinct (map rs_id (lg_reservations ?l))" "distinct (map rs_key (lg_reservations ?l))"
    using assms(1,6) by (simp_all add: ledger_ok_def)
  moreover have "row_ok k \<and> rs_id k < lg_next_id ?l \<and> rs_budget k < lg_next_id ?l" if "k \<in> set (lg_reservations ?l)" for k
    using that fresh [of k] assms(3,4,5) budget [OF assms(2)] by auto
  moreover have "budget_ok c \<and> pb_id c < lg_next_id ?l" if "c \<in> set (lg_budgets ?l)" for c
    using that budget [of c] by auto
  ultimately show ?thesis unfolding ledger_ok_def using d caps by simp
qed

lemma rows_total:
  "sum_list (map committed_amount (rows_in period b now l)) = total_of committed_amount period b (period now) l"
proof -
  have "sum_list (map committed_amount (filter (\<lambda>r. rs_budget r = b \<and> rs_status r \<noteq> Released \<and> period (rs_budget_at r) = e) rows))
      = sum_list (map committed_amount (filter (in_period period b e) rows))" for e rows
    by (induction rows) (auto simp: in_period_def committed_amount_def)
  then show ?thesis by (simp add: rows_in_def total_of_def)
qed

lemma reserve_ok:
  assumes "faithful_column column" "ledger_ok l" "0 \<le> estimate"
    and "reserve_provider_budget column provider purpose key estimate now model pricing l = Inr (res, l')"
  shows "ledger_ok l' \<and> (\<forall>r. res = Some (True, r) \<longrightarrow> (\<exists>b \<in> set (lg_budgets l').
      pb_id b = rs_budget r \<and> rs_budget_at r = now \<and>
      total_of committed_amount utc_day (pb_id b) (utc_day now) l' \<le> pb_daily_cap b \<and>
      total_of committed_amount month_index (pb_id b) (month_index now) l' \<le> pb_monthly_cap b))"
proof (cases "List.find (\<lambda>r. rs_key r = key) (lg_reservations l)")
  case (Some r)
  then show ?thesis using assms(2,4) by (auto simp: reserve_provider_budget_def)
next
  case None
  then have key: "key \<notin> rs_key ` set (lg_reservations l)" by (auto simp: find_None_iff)
  obtain b daily monthly where b: "find_budget provider purpose l = Some b"
    and c: "committed (rows_in utc_day (pb_id b) now l) = Some daily" "committed (rows_in month_index (pb_id b) now l) = Some monthly"
    using assms(4) None by (auto simp: reserve_provider_budget_def split: option.splits)
  note run = assms(4) [unfolded reserve_provider_budget_def None b c option.case prod.case]
  show ?thesis
  proof (cases "pb_daily_cap b < rnd28 (daily + estimate) \<or> pb_monthly_cap b < rnd28 (monthly + estimate)")
    case True
    then show ?thesis using run assms(2) by auto
  next
    case False
    then obtain stored where s: "column 6 estimate = Some stored" using run by (auto split: option.splits)
    let ?r = "new_reservation (lg_next_id l) b key stored now model pricing"
    have out: "res = Some (True, ?r)"
      "l' = l\<lparr>lg_reservations := lg_reservations l @ [?r], lg_next_id := lg_next_id l + 1\<rparr>"
      using run False s by (auto simp: Let_def)
    have bl: "b \<in> set (lg_budgets l)" by (rule find_budget_SomeD [OF b])
    then have bk: "budget_ok b" and rows: "\<forall>k \<in> set (lg_reservations l). row_ok k" using assms(2) by (auto simp: ledger_ok_def)
    have pos: "0 \<le> stored" by (rule column_nonneg [OF assms(1) s assms(3)])
    have ok: "row_ok ?r" using column_grid [OF assms(1) s] pos by (simp add: row_ok_def new_reservation_def)
    have fits: "total_of committed_amount period (pb_id b) (period now) l + stored \<le> cap"
      if "committed (rows_in period (pb_id b) now l) = Some t" "rnd28 (t + estimate) \<le> cap" "on_grid 4 cap" "0 \<le> cap" "cap < 10 ^ 8"
      for period t cap
      using reservation_fits [OF assms(1) s assms(3) _ that] rows unfolding rows_total by (simp add: rows_in_def)
    have new: "committed_amount ?r = stored" "funded ?r = stored" "rs_budget ?r = pb_id b" "rs_budget_at ?r = now"
      "rs_key ?r = key" "rs_id ?r = lg_next_id l"
      by (simp_all add: committed_amount_def funded_def new_reservation_def)
    have day: "total_of committed_amount utc_day (pb_id b) (utc_day now) l + stored \<le> pb_daily_cap b"
      using fits [OF c(1)] False bk by (simp add: budget_ok_def)
    have month: "total_of committed_amount month_index (pb_id b) (month_index now) l + stored \<le> pb_monthly_cap b"
      using fits [OF c(2)] False bk by (simp add: budget_ok_def)
    have "ledger_ok l'"
      unfolding out(2) using ledger_ok_append [OF assms(2) bl ok] day month key unfolding new by simp
    moreover have "total_of committed_amount period (pb_id b) (period now) l' = total_of committed_amount period (pb_id b) (period now) l + stored"
      for period by (simp add: out(2) total_of_def in_period_def new)
    ultimately show ?thesis using day month bl by (auto simp: out new)
  qed
qed

lemma ensure_budget_ok:
  assumes "faithful_column column" "ledger_ok l" "ensure_budget column s provider purpose l = Inr l'"
    and "0 \<le> ps_daily_budget s" "0 \<le> ps_monthly_budget s"
  shows "ledger_ok l'"
proof (cases "find_budget provider purpose l")
  case None
  then obtain daily monthly where c: "column 4 (ps_daily_budget s) = Some daily" "column 4 (ps_monthly_budget s) = Some monthly"
    and l': "l' = l\<lparr>lg_budgets := lg_budgets l @ [\<lparr>pb_id = lg_next_id l, pb_provider = provider, pb_purpose = purpose,
                        pb_daily_cap = daily, pb_monthly_cap = monthly\<rparr>], lg_next_id := lg_next_id l + 1\<rparr>"
    using assms(3) by (auto simp: ensure_budget_def split: option.splits)
  have caps: "0 \<le> daily" "0 \<le> monthly" "on_grid 4 daily" "on_grid 4 monthly" "daily < 10 ^ 8" "monthly < 10 ^ 8"
    using column_nonneg [OF assms(1)] column_grid [OF assms(1)] column_small [OF assms(1)] c assms(4,5)
    by (fastforce dest: column_small [OF assms(1)])+
  have none: "filter (in_period period (lg_next_id l) d) (lg_reservations l) = []" for period d
    using assms(2) by (auto simp: ledger_ok_def in_period_def filter_empty_conv)
  show ?thesis
    using assms(2) caps none by (auto simp: ledger_ok_def l' budget_ok_def total_of_def)
qed (use assms in \<open>simp add: ensure_budget_def\<close>)

lemma set_status_ok:
  assumes "faithful_column column" "ledger_ok l" "find_reservation n l = Some r" "rs_status r = Reserved"
    and "case actual of None \<Rightarrow> rs_status r' \<noteq> Settled | Some a \<Rightarrow> 0 \<le> a \<and> column 6 a = rs_actual r' \<and> rs_actual r' \<noteq> None"
    and "actual = None \<Longrightarrow> rs_actual r' = None"
    and same: "rs_id r' = rs_id r" "rs_key r' = rs_key r" "rs_budget r' = rs_budget r" "rs_budget_at r' = rs_budget_at r"
      "rs_estimated r' = rs_estimated r"
  shows "ledger_ok (set_reservation r' l)"
proof (rule ledger_ok_set [OF assms(2)])
  show r: "r \<in> set (lg_reservations l)" using find_reservation_SomeD [OF assms(3)] by simp
  then have ok: "row_ok r" using assms(2) by (simp add: ledger_ok_def)
  show "row_ok r'"
    using ok assms(5,6) same column_grid [OF assms(1)] column_nonneg [OF assms(1)]
    by (cases actual) (auto simp: row_ok_def)
  show "funded r' \<le> funded r"
    using assms(4) by (simp add: funded_def committed_amount_def same)
qed (use same in simp_all)

lemma ledger_step_ok:
  assumes "faithful_column column" "ledger_step column l l'" "ledger_ok l"
  shows "ledger_ok l'"
  using assms(2,3)
proof cases
  case (open_budget s provider purpose)
  then show ?thesis using ensure_budget_ok [OF assms(1,3)] by blast
next
  case (reserve provider purpose key estimate now model pricing res)
  then show ?thesis using reserve_ok [OF assms(1,3)] by blast
next
  case (settle n actual model usage pricing ok)
  then show ?thesis
    using assms(3) set_status_ok [OF assms(1,3), where actual = "Some actual"]
    by (auto simp: settle_provider_budget_def split: option.splits if_splits)
next
  case (label n result ok)
  then obtain r where r: "find_reservation n l = Some r" "l' = l \<or> l' = set_reservation (r\<lparr>rs_outcome := result\<rparr>) l"
    by (auto simp: record_reservation_outcome_def split: option.splits if_splits)
  have "r \<in> set (lg_reservations l)" "row_ok r"
    using find_reservation_SomeD [OF r(1)] assms(3) by (auto simp: ledger_ok_def)
  then have "ledger_ok (set_reservation (r\<lparr>rs_outcome := result\<rparr>) l)"
    by (intro ledger_ok_set [OF assms(3)]) (auto simp: row_ok_def funded_def committed_amount_def split: money_status.splits option.splits)
  then show ?thesis using r(2) assms(3) by blast
next
  case (release n ok)
  then obtain r where r: "find_reservation n l = Some r" "l' = l \<or> rs_status r = Reserved \<and> l' = set_reservation (r\<lparr>rs_status := Released\<rparr>) l"
    by (auto simp: release_provider_budget_def split: option.splits if_splits)
  have m: "r \<in> set (lg_reservations l)" "row_ok r"
    using find_reservation_SomeD [OF r(1)] assms(3) by (auto simp: ledger_ok_def)
  have "ledger_ok (set_reservation (r\<lparr>rs_status := Released\<rparr>) l)" if "rs_status r = Reserved"
    using m that by (intro ledger_ok_set [OF assms(3)]) (auto simp: row_ok_def funded_def committed_amount_def split: option.splits)
  then show ?thesis using r(2) assms(3) by blast
next
  case (doubt n actual ok)
  then show ?thesis
    using assms(3) set_status_ok [OF assms(1,3), where actual = None] set_status_ok [OF assms(1,3), where actual = actual]
    by (cases actual) (auto simp: mark_provider_budget_uncertain_def zero_or_def split: option.splits if_splits)
qed

lemma ledger_reachable_ok: "ledger_reachable column l \<Longrightarrow> faithful_column column \<Longrightarrow> ledger_ok l"
proof (induction rule: ledger_reachable.induct)
  case start
  show ?case by (simp add: ledger_ok_def)
next
  case (step l l')
  then show ?case by (blast intro: ledger_step_ok)
qed

text \<open>C6: Provider spending stays within its caps. In every reachable ledger the amounts that a
  budget has committed on any day, and in any month, exceed its cap at most by what paid calls cost
  beyond their own estimates, never by an estimate; and a reservation that is granted leaves the day
  and the month within their caps outright, the rounding of the context and of the column included.\<close>

theorem spending_stays_within_caps:
  assumes "faithful_column column" "ledger_reachable column l" "b \<in> set (lg_budgets l)"
  shows "total_of committed_amount utc_day (pb_id b) d l \<le> pb_daily_cap b + total_of overrun utc_day (pb_id b) d l \<and>
    total_of committed_amount month_index (pb_id b) d l \<le> pb_monthly_cap b + total_of overrun month_index (pb_id b) d l \<and>
    (0 \<le> estimate \<longrightarrow> reserve_provider_budget column provider purpose key estimate now model pricing l = Inr (Some (True, r), l')
       \<longrightarrow> (\<exists>c \<in> set (lg_budgets l'). pb_id c = rs_budget r \<and>
             total_of committed_amount utc_day (pb_id c) (utc_day now) l' \<le> pb_daily_cap c \<and>
             total_of committed_amount month_index (pb_id c) (month_index now) l' \<le> pb_monthly_cap c))"
proof -
  have ok: "ledger_ok l" by (rule ledger_reachable_ok [OF assms(2,1)])
  have split: "total_of committed_amount period c d l = total_of funded period c d l + total_of overrun period c d l" for period c
    unfolding total_of_def by (simp add: committed_split [abs_def] sum_list_addf)
  have "total_of funded utc_day (pb_id b) d l \<le> pb_daily_cap b" "total_of funded month_index (pb_id b) d l \<le> pb_monthly_cap b"
    using ok assms(3) by (auto simp: ledger_ok_def)
  then show ?thesis unfolding split using reserve_ok [OF assms(1) ok] by fastforce
qed

section \<open>A key is paid for once\<close>

lemma find_reservation_set:
  "find_reservation (rs_id r) l \<noteq> None \<Longrightarrow> find_reservation (rs_id r) (set_reservation r l) = Some r"
proof -
  have "List.find (\<lambda>k. rs_id k = rs_id r) rows \<noteq> None
      \<Longrightarrow> List.find (\<lambda>k. rs_id k = rs_id r) (map (\<lambda>k. if rs_id k = rs_id r then r else k) rows) = Some r" for rows
    by (induction rows) auto
  then show "find_reservation (rs_id r) l \<noteq> None \<Longrightarrow> find_reservation (rs_id r) (set_reservation r l) = Some r"
    by (simp add: find_reservation_def set_reservation_def)
qed

lemma set_reservation_keys:
  assumes "distinct (map rs_id (lg_reservations l))" "find_reservation (rs_id r') l = Some r" "rs_key r' = rs_key r"
  shows "map rs_key (lg_reservations (set_reservation r' l)) = map rs_key (lg_reservations l)"
proof -
  have "k = r" if "k \<in> set (lg_reservations l)" "rs_id k = rs_id r'" for k
    using assms(1) find_reservation_SomeD [OF assms(2)] that by (metis distinct_map inj_onD)
  then show ?thesis using assms(3) by (auto simp: set_reservation_def)
qed

text \<open>What the ledger shows of the row of a call, given its result.\<close>

fun recorded_as :: "call_error + validated \<Rightarrow> money_status \<times> call_outcome" where
  "recorded_as (Inr v) = (Settled, ResponseValidated)"
| "recorded_as (Inl ProviderRaised) = (Unsettled, ProviderFailed)"
| "recorded_as (Inl ResponseOverCap) = (Settled, RunCapOutcome)"
| "recorded_as (Inl (OutputRefused e)) = (Settled, if e = UncheckedType then PendingOutcome else ResponseRejected)"
| "recorded_as (Inl NotStored) = (Settled, PendingOutcome)"
| "recorded_as (Inl e) = (Reserved, PendingOutcome)"

lemma paid_call_records:
  assumes "distinct (map rs_id (lg_reservations l))" "find_reservation (rs_id r) l = Some r"
    and "rs_status r = Reserved" "rs_outcome r = PendingOutcome"
    and "paid_call column s allowed r reply storable l = (res, l')"
  shows "\<exists>r'. find_reservation (rs_id r) l' = Some r' \<and> rs_key r' = rs_key r \<and>
      (rs_status r', rs_outcome r') = recorded_as res \<and>
      lg_budgets l' = lg_budgets l \<and> map rs_key (lg_reservations l') = map rs_key (lg_reservations l) \<and>
      (\<forall>v. res = Inr v \<longrightarrow> (\<exists>p. reply = Some p \<and> storable \<and> validate_output (pr_output p) allowed = Inr v \<and>
         cost_of s (pr_input_tokens p) (pr_output_tokens p) \<le> ps_max_run_cost s \<and>
         rs_actual r' = column 6 (cost_of s (pr_input_tokens p) (pr_output_tokens p))))"
proof -
  have first: "find_reservation (rs_id r) (set_reservation q l) = Some q" if "rs_id q = rs_id r" for q
    using find_reservation_set [of q l] assms(2) that by simp
  have then_keys: "map rs_key (lg_reservations (set_reservation q l)) = map rs_key (lg_reservations l)"
    if "rs_id q = rs_id r" "rs_key q = rs_key r" for q
    using set_reservation_keys [OF assms(1), of q r] assms(2) that by simp
  have second: "find_reservation (rs_id r) (set_reservation p (set_reservation q l)) = Some p"
    if "rs_id q = rs_id r" "rs_id p = rs_id r" for p q
    using find_reservation_set [of p "set_reservation q l"] first [of q] that by simp
  have d2: "distinct (map rs_id (lg_reservations (set_reservation q l)))" if "rs_id q = rs_id r" for q
    using assms(1) set_reservation_ids [OF that] by simp
  have keys2: "map rs_key (lg_reservations (set_reservation p (set_reservation q l))) = map rs_key (lg_reservations l)"
    if "rs_id q = rs_id r" "rs_id p = rs_id r" "rs_key q = rs_key r" "rs_key p = rs_key r" for p q
    using set_reservation_keys [OF d2 [OF that(1)], of p q] first [of q] then_keys [of q] that by simp
  note ops = mark_provider_budget_uncertain_def settle_provider_budget_def record_reservation_outcome_def after_ledger_def
  show ?thesis
  proof (cases reply)
    case None
    then show ?thesis using assms(5) by (auto simp: paid_call_def ops assms(2-4) first second keys2)
  next
    case (Some p)
    let ?cost = "cost_of s (pr_input_tokens p) (pr_output_tokens p)"
    show ?thesis
    proof (cases "column 6 ?cost")
      case None
      then show ?thesis using assms(2-5) Some by (auto simp: paid_call_def ops)
    next
      case stored: (Some a)
      show ?thesis
      proof (cases "ps_max_run_cost s < ?cost")
        case True
        then show ?thesis using assms(5) Some stored by (auto simp: paid_call_def ops assms(2-4) first second keys2)
      next
        case False
        show ?thesis
        proof (cases "validate_output (pr_output p) allowed")
          case (Inl e)
          then show ?thesis using assms(5) Some stored False
            by (cases e) (auto simp: paid_call_def ops assms(2-4) first second keys2 then_keys)
        next
          case (Inr v)
          then show ?thesis using assms(5) Some stored False
            by (cases storable) (auto simp: paid_call_def ops assms(2-4) first second keys2 then_keys)
        qed
      qed
    qed
  qed
qed

lemma find_snoc: "List.find P (xs @ [x]) = (case List.find P xs of None \<Rightarrow> if P x then Some x else None | Some y \<Rightarrow> Some y)"
  by (induction xs) simp_all

lemma ensure_budget_rows: "ensure_budget column s provider purpose l = Inr l' \<Longrightarrow> lg_reservations l' = lg_reservations l
    \<and> find_budget provider purpose l' \<noteq> None"
  by (auto simp: ensure_budget_def find_budget_def find_snoc split: option.splits)

text \<open>A new reservation is found under its identity, a known key is refused.\<close>

lemma reserve_new:
  assumes "ledger_ok l" "reserve_provider_budget column provider purpose key estimate now model pricing l = Inr (Some (True, r), l')"
  shows "find_reservation (rs_id r) l' = Some r \<and> rs_key r = key \<and> rs_status r = Reserved \<and> rs_outcome r = PendingOutcome \<and>
    lg_budgets l' = lg_budgets l \<and> distinct (map rs_id (lg_reservations l')) \<and> map rs_key (lg_reservations l') = map rs_key (lg_reservations l) @ [key]"
proof -
  have fresh: "rs_id k < lg_next_id l" if "k \<in> set (lg_reservations l)" for k using assms(1) that by (simp add: ledger_ok_def)
  then have "lg_next_id l \<notin> rs_id ` set (lg_reservations l)" by force
  moreover have "List.find (\<lambda>k. rs_id k = lg_next_id l) (lg_reservations l) = None"
    using fresh by (force simp: find_None_iff)
  ultimately show ?thesis
    using assms(1) assms(2)
    by (auto simp: reserve_provider_budget_def new_reservation_def find_reservation_def Let_def ledger_ok_def find_snoc
        split: option.splits if_splits)
qed

lemma reserve_replies:
  assumes "List.find (\<lambda>r. rs_key r = key) (lg_reservations l) = None"
  obtains e where "reserve_provider_budget column provider purpose key estimate now model pricing l = Inl e"
  | "reserve_provider_budget column provider purpose key estimate now model pricing l = Inr (None, l)"
  | r l' where "reserve_provider_budget column provider purpose key estimate now model pricing l = Inr (Some (True, r), l')"
proof -
  let ?reserve = "reserve_provider_budget column provider purpose key estimate now model pricing l"
  have "(\<exists>e. ?reserve = Inl e) \<or> ?reserve = Inr (None, l) \<or> (\<exists>r l'. ?reserve = Inr (Some (True, r), l'))"
    using assms by (simp add: reserve_provider_budget_def Let_def split: option.split if_split)
  then show ?thesis using that by blast
qed

lemma reserve_known:
  assumes "List.find (\<lambda>r. rs_key r = recommendation_prefix @ key) (lg_reservations l) = Some r"
    and "find_budget provider ''recommendation'' l \<noteq> None"
  shows "generate_with_budget column s provider model key chars t allowed reply storable l =
    (Inl (if ps_max_run_cost s < cost_of s ((chars + 3) div 4) (ps_max_output_tokens s) then RequestOverCap
          else if rs_status r = Reserved then InProgress else KeyConsumed), l)"
  using assms by (auto simp: generate_with_budget_def reserve_recommendation_budget_def ensure_budget_def
      reserve_provider_budget_def Let_def)

text \<open>C9: A response is paid for once. A call under a new key either is refused before the provider is
  asked and leaves the reservations alone, or leaves exactly one row under the key that shows how the
  call ended; an accepted output was within the cost cap of a run, and its row carries its cost. From
  then on every call under the key, whatever it would send or receive, is refused and changes nothing.\<close>

theorem response_is_paid_once:
  assumes "faithful_column column" "ledger_reachable column l"
    and "recommendation_prefix @ key \<notin> rs_key ` set (lg_reservations l)"
    and "0 \<le> ps_daily_budget s" "0 \<le> ps_monthly_budget s"
    and "generate_with_budget column s provider model key chars t allowed reply storable l = (res, l')"
  shows "if recommendation_prefix @ key \<in> rs_key ` set (lg_reservations l')
    then (\<exists>r \<in> set (lg_reservations l'). rs_key r = recommendation_prefix @ key \<and>
            (rs_status r, rs_outcome r) = recorded_as res \<and>
            (\<forall>v. res = Inr v \<longrightarrow> (\<exists>p. reply = Some p \<and> validate_output (pr_output p) allowed = Inr v \<and>
               cost_of s (pr_input_tokens p) (pr_output_tokens p) \<le> ps_max_run_cost s \<and>
               rs_actual r = column 6 (cost_of s (pr_input_tokens p) (pr_output_tokens p)))) \<and>
            distinct (map rs_key (lg_reservations l'))) \<and>
            (\<forall>s chars t allowed reply storable. \<exists>e \<in> {RequestOverCap, InProgress, KeyConsumed}.
               generate_with_budget column s provider model key chars t allowed reply storable l' = (Inl e, l'))
    else lg_reservations l' = lg_reservations l \<and> (\<exists>e \<in> {RequestOverCap, SpendCapReached} \<union> range LedgerFailed. res = Inl e)"
proof -
  let ?key = "recommendation_prefix @ key"
  let ?cost = "cost_of s ((chars + 3) div 4) (ps_max_output_tokens s)"
  have ok: "ledger_ok l" by (rule ledger_reachable_ok [OF assms(2,1)])
  have refused: ?thesis if "lg_reservations l' = lg_reservations l" "res = Inl e" "e \<in> {RequestOverCap, SpendCapReached} \<union> range LedgerFailed" for e
    using that assms(3) by auto
  note call = assms(6) [unfolded generate_with_budget_def reserve_recommendation_budget_def Let_def]
  show ?thesis
  proof (cases "ps_max_run_cost s < ?cost")
    case True
    then show ?thesis using call by (intro refused) auto
  next
    case False
    show ?thesis
    proof (cases "ensure_budget column s provider ''recommendation'' l")
      case (Inl e)
      then show ?thesis using call False by (intro refused) auto
    next
      case (Inr l1)
      have rows: "lg_reservations l1 = lg_reservations l" and b: "find_budget provider ''recommendation'' l1 \<noteq> None"
        using ensure_budget_rows [OF Inr] by auto
      have ok1: "ledger_ok l1" by (rule ensure_budget_ok [OF assms(1) ok Inr assms(4,5)])
      let ?reserve = "reserve_provider_budget column provider ''recommendation'' ?key ?cost t model (ps_pricing_version s) l1"
      have new: "List.find (\<lambda>r. rs_key r = ?key) (lg_reservations l1) = None"
        using assms(3) unfolding rows find_None_iff by force
      show ?thesis using new
      proof (cases rule: reserve_replies [of ?key l1 column provider "''recommendation''" ?cost t model "ps_pricing_version s"])
        case 1
        then show ?thesis using call False Inr rows by (intro refused) auto
      next
        case 2
        then show ?thesis using call False Inr rows by (intro refused) auto
      next
        case (3 r l2)
        note made = reserve_new [OF ok1 3]
        have paid: "paid_call column s allowed r reply storable l2 = (res, l')" using call False Inr 3 by simp
        obtain r' where r': "find_reservation (rs_id r) l' = Some r'" "rs_key r' = ?key" "(rs_status r', rs_outcome r') = recorded_as res"
          "lg_budgets l' = lg_budgets l1" and keys: "map rs_key (lg_reservations l') = map rs_key (lg_reservations l) @ [?key]"
          and accepted: "\<forall>v. res = Inr v \<longrightarrow> (\<exists>p. reply = Some p \<and> storable \<and> validate_output (pr_output p) allowed = Inr v \<and>
             cost_of s (pr_input_tokens p) (pr_output_tokens p) \<le> ps_max_run_cost s \<and>
             rs_actual r' = column 6 (cost_of s (pr_input_tokens p) (pr_output_tokens p)))"
          using paid_call_records [OF _ _ _ _ paid] made rows by auto
        have mem: "r' \<in> set (lg_reservations l')" using find_reservation_SomeD [OF r'(1)] by simp
        have d: "distinct (map rs_key (lg_reservations l'))" using ok assms(3) unfolding keys by (simp add: ledger_ok_def)
        have known: "\<exists>q. List.find (\<lambda>r. rs_key r = ?key) (lg_reservations l') = Some q"
          using mem r'(2) by (cases "List.find (\<lambda>r. rs_key r = ?key) (lg_reservations l')") (auto simp: find_None_iff)
        have budget: "find_budget provider ''recommendation'' l' \<noteq> None" using b r'(4) by (simp add: find_budget_def)
        have again: "\<exists>e \<in> {RequestOverCap, InProgress, KeyConsumed}.
            generate_with_budget column s provider model key chars t allowed reply storable l' = (Inl e, l')"
          for s chars t allowed reply storable
          using known reserve_known [OF _ budget] by fastforce
        have inside: "?key \<in> rs_key ` set (lg_reservations l')" using mem r'(2) by force
        have "\<forall>v. res = Inr v \<longrightarrow> (\<exists>p. reply = Some p \<and> validate_output (pr_output p) allowed = Inr v \<and>
             cost_of s (pr_input_tokens p) (pr_output_tokens p) \<le> ps_max_run_cost s \<and>
             rs_actual r' = column 6 (cost_of s (pr_input_tokens p) (pr_output_tokens p)))" using accepted by blast
        with mem r'(2,3) d have row: "\<exists>r \<in> set (lg_reservations l'). rs_key r = ?key \<and>
            (rs_status r, rs_outcome r) = recorded_as res \<and>
            (\<forall>v. res = Inr v \<longrightarrow> (\<exists>p. reply = Some p \<and> validate_output (pr_output p) allowed = Inr v \<and>
               cost_of s (pr_input_tokens p) (pr_output_tokens p) \<le> ps_max_run_cost s \<and>
               rs_actual r = column 6 (cost_of s (pr_input_tokens p) (pr_output_tokens p)))) \<and>
            distinct (map rs_key (lg_reservations l'))" by (intro bexI [of _ r']) (rule conjI | assumption)+
        show ?thesis unfolding if_P [OF inside] using row again by blast
      qed
    qed
  qed
qed

section \<open>A concrete ledger\<close>

definition sample_column :: column where
  "sample_column n x = (let y = quantize n x in if \<bar>y\<bar> * 10 ^ n < 10 ^ 12 then Some y else None)"

lemma sample_column_faithful: "faithful_column sample_column"
  by (auto simp: faithful_column_def sample_column_def Let_def quantize_error split: if_splits)

definition sample_prices :: price_settings where
  "sample_prices = \<lparr>ps_input_usd = 2, ps_output_usd = 10, ps_max_output_tokens = 6000, ps_max_run_cost = 1 / 10,
     ps_daily_budget = 2, ps_monthly_budget = 40, ps_pricing_version = ''v1''\<rparr>"

definition sample_ledger :: ledger where
  "sample_ledger = \<lparr>lg_budgets = [\<lparr>pb_id = 1, pb_provider = ''anthropic'', pb_purpose = ''recommendation'', pb_daily_cap = 2, pb_monthly_cap = 40\<rparr>],
     lg_reservations = [], lg_next_id = 2\<rparr>"

definition sample_row :: reservation where
  "sample_row = \<lparr>rs_id = 2, rs_budget = 1, rs_key = ''k'', rs_estimated = 2, rs_actual = None, rs_status = Reserved,
      rs_outcome = PendingOutcome, rs_requested_model = ''m'', rs_returned_model = '''',
      rs_pricing = ''v1'', rs_usage = '''', rs_budget_at = 0\<rparr>"

lemma sample_open: "ledger_reachable sample_column sample_ledger"
proof (rule ledger_reachable.step [OF ledger_reachable.start])
  show "ledger_step sample_column \<lparr>lg_budgets = [], lg_reservations = [], lg_next_id = 1\<rparr> sample_ledger"
    by (rule ledger_step.open_budget [of _ sample_prices "''anthropic''" "''recommendation''"])
      (simp_all add: ensure_budget_def find_budget_def sample_prices_def sample_ledger_def sample_column_def Let_def)
qed

lemma rnd28_2: "rnd28 2 = 2"
  by (rule rnd28_on_grid [of 0]) (simp_all add: on_grid_def)

lemma sample_reserve:
  "reserve_provider_budget sample_column ''anthropic'' ''recommendation'' ''k'' 2 0 ''m'' ''v1'' sample_ledger
    = Inr (Some (True, sample_row), sample_ledger\<lparr>lg_reservations := [sample_row], lg_next_id := 3\<rparr>)"
  by (simp add: reserve_provider_budget_def sample_ledger_def find_budget_def rows_in_def committed_def rnd28_2
      sample_column_def new_reservation_def sample_row_def Let_def)

theorem spending_stays_within_caps_witness:
  "total_of committed_amount utc_day 1 0 (sample_ledger\<lparr>lg_reservations := [sample_row], lg_next_id := 3\<rparr>) \<le> 2"
  using spending_stays_within_caps [OF sample_column_faithful sample_open, where estimate = 2] sample_reserve
  by (fastforce simp: sample_ledger_def sample_row_def utc_day_def)

lemma sample_cost: "cost_of sample_prices 1000 6000 = 31 / 500"
  by (simp add: sample_prices_def cost_of_def) code_simp

theorem response_is_paid_once_witness:
  "\<exists>e l. generate_with_budget sample_column sample_prices ''anthropic'' ''m'' ''k'' 3998 0 [] None True sample_ledger = (Inl e, l) \<and>
     e = ProviderRaised \<and>
     fst (generate_with_budget sample_column sample_prices ''anthropic'' ''m'' ''k'' 3998 0 [] None True l) \<noteq> Inl ProviderRaised"
proof -
  let ?call = "generate_with_budget sample_column sample_prices ''anthropic'' ''m'' ''k'' 3998 0 [] None True"
  obtain res l where call: "?call sample_ledger = (res, l)" by fastforce
  have grid: "on_grid 6 (31 / 500)" by (simp add: on_grid_def)
  have "quantize 6 (31 / 500) = 31 / 500" "rnd28 (31 / 500) = 31 / 500"
    by (rule quantize_on_grid [OF grid], rule rnd28_on_grid [OF grid]) simp
  moreover have "ps_max_run_cost sample_prices = 1 / 10" "ps_max_output_tokens sample_prices = 6000"
    "ps_pricing_version sample_prices = ''v1''" by (simp_all add: sample_prices_def)
  ultimately have "fst (?call sample_ledger) = Inl ProviderRaised"
    by (simp add: generate_with_budget_def reserve_recommendation_budget_def sample_cost ensure_budget_def find_budget_def
        sample_ledger_def reserve_provider_budget_def rows_in_def committed_def sample_column_def new_reservation_def Let_def
        paid_call_def after_ledger_def mark_provider_budget_uncertain_def record_reservation_outcome_def find_reservation_def
        set_reservation_def)
  then have res: "res = Inl ProviderRaised" using call by simp
  note once = response_is_paid_once [OF sample_column_faithful sample_open _ _ _ call]
  have "\<exists>e \<in> {RequestOverCap, InProgress, KeyConsumed}. ?call l = (Inl e, l)"
  proof (cases "recommendation_prefix @ ''k'' \<in> rs_key ` set (lg_reservations l)")
    case True
    then show ?thesis using once by (simp add: sample_ledger_def sample_prices_def)
  next
    case False
    then show ?thesis using once res by (auto simp: sample_ledger_def sample_prices_def)
  qed
  then show ?thesis using call res by auto
qed

end
