(* ===== verification/Exposure.thy ===== *)
theory Exposure
  imports Sizing "HOL-Library.Char_ord" "HOL-Library.List_Lexorder"
begin

text \<open>
  \<^verbatim>\<open>forecasts/exposure.py\<close>: the currency legs of a recommendation and the report of the exposure that
  the current setups carry, by currency and side, against the advisory caps. A setup is the
  recommendation with the rows that belong to it: its facts, its instrument and its size. A currency's
  entry of the report's \<^verbatim>\<open>defaultdict\<close> is computed from the setups that have a leg in it.
\<close>

section \<open>Setups and legs\<close>

text \<open>The size row that the report reads; sizing has one policy, so a recommendation has at most one.\<close>

record setup_row =
  sr_rec :: recommendation
  sr_facts :: rec_facts
  sr_instrument :: instrument
  sr_size :: "size_advice option"
  sr_shared :: "target_resolution option"

type_synonym leg = "string \<times> int"

definition decompose_pair :: "string \<Rightarrow> string \<Rightarrow> rec_action \<Rightarrow> leg list" where
  [model_defs]: "decompose_pair base quote action =
     (case action of
        Buy \<Rightarrow> [(base, 1), (quote, -1)]
      | Sell \<Rightarrow> [(base, -1), (quote, 1)]
      | Abstain \<Rightarrow> [])"

definition legs_of :: "setup_row \<Rightarrow> leg list" where
  [model_defs]: "legs_of s = decompose_pair (in_base (sr_instrument s)) (in_quote (sr_instrument s)) (rec_action (sr_rec s))"

definition carries_risk :: "instant \<Rightarrow> setup_row \<Rightarrow> bool" where
  [model_defs]: "carries_risk as_of s \<longleftrightarrow> current_risk_projection (sr_rec s) (sr_facts s) as_of \<noteq> None"

section \<open>The report\<close>

text \<open>The setups on one side of a currency, once for each leg there, in the order of the loop, and the
  sum of their risks; a setup without a size adds nothing.\<close>

definition side_setups :: "setup_row list \<Rightarrow> leg \<Rightarrow> setup_row list" where
  [model_defs]: "side_setups setups leg = concat (map (\<lambda>s. map (\<lambda>l. s) (filter (\<lambda>l. l = leg) (legs_of s))) setups)"

definition sized_risks :: "setup_row list \<Rightarrow> decimal list" where
  [model_defs]: "sized_risks setups = map sa_risk (List.map_filter sr_size setups)"

definition side_risk :: "setup_row list \<Rightarrow> leg \<Rightarrow> decimal" where
  [model_defs]: "side_risk setups leg = py_sum rnd28 (sized_risks (side_setups setups leg))"

datatype exposure_state = OverBudget | Conflict | Duplicate | SizingMissing | Clear

record currency_row =
  cr_currency :: string
  cr_long_count :: nat
  cr_short_count :: nat
  cr_gross_count :: nat
  cr_net_count :: int
  cr_long_risk :: decimal
  cr_short_risk :: decimal
  cr_net_risk :: decimal
  cr_net_risk_abs :: decimal
  cr_largest_side_risk :: decimal
  cr_largest_side :: nat
  cr_over_budget :: bool
  cr_has_conflict :: bool
  cr_has_duplicate :: bool
  cr_state :: exposure_state

definition currency_setup_budget :: nat where
  [model_defs]: "currency_setup_budget = 2"

definition currency_state :: "bool \<Rightarrow> bool \<Rightarrow> bool \<Rightarrow> exposure_state" where
  [model_defs]: "currency_state over_budget has_conflict has_duplicate =
     (if over_budget then OverBudget else if has_conflict then Conflict else if has_duplicate then Duplicate else Clear)"

definition currency_report :: "nat \<Rightarrow> setup_row list \<Rightarrow> string \<Rightarrow> currency_row" where
  [model_defs]: "currency_report budget setups currency =
     (let long_setups = side_setups setups (currency, 1);
          short_setups = side_setups setups (currency, -1);
          long_risk = side_risk setups (currency, 1);
          short_risk = side_risk setups (currency, -1);
          largest_side = max (length long_setups) (length short_setups);
          largest_risk = max long_risk short_risk;
          over_budget = (budget < largest_side \<or> currency_direction_risk_cap_cad < largest_risk);
          has_conflict = (long_setups \<noteq> [] \<and> short_setups \<noteq> []);
          has_duplicate = (1 < largest_side)
      in \<lparr>cr_currency = currency, cr_long_count = length long_setups, cr_short_count = length short_setups,
          cr_gross_count = length long_setups + length short_setups,
          cr_net_count = int (length long_setups) - int (length short_setups),
          cr_long_risk = long_risk, cr_short_risk = short_risk,
          cr_net_risk = rnd28 (long_risk - short_risk), cr_net_risk_abs = \<bar>rnd28 (long_risk - short_risk)\<bar>,
          cr_largest_side_risk = largest_risk, cr_largest_side = largest_side,
          cr_over_budget = over_budget, cr_has_conflict = has_conflict, cr_has_duplicate = has_duplicate,
          cr_state = currency_state over_budget has_conflict has_duplicate\<rparr>)"

record exposure_report =
  er_setups :: "setup_row list"
  er_currencies :: "currency_row list"
  er_over_budget :: nat
  er_conflicts :: nat
  er_duplicates :: nat
  er_total_risk :: decimal
  er_aggregate_over_budget :: bool
  er_sizing_missing :: nat
  er_status :: exposure_state

definition report_status :: "nat \<Rightarrow> bool \<Rightarrow> nat \<Rightarrow> nat \<Rightarrow> nat \<Rightarrow> exposure_state" where
  [model_defs]: "report_status over_budget aggregate_over conflicts duplicates missing =
     (if 0 < over_budget \<or> aggregate_over then OverBudget
      else if 0 < conflicts then Conflict
      else if 0 < duplicates then Duplicate
      else if 0 < missing then SizingMissing
      else Clear)"

definition report_currencies :: "setup_row list \<Rightarrow> string list" where
  [model_defs]: "report_currencies setups = sort (remdups (map fst (concat (map legs_of setups))))"

definition build_exposure_report :: "setup_row list \<Rightarrow> nat \<Rightarrow> instant \<Rightarrow> exposure_report" where
  [model_defs]: "build_exposure_report rows budget as_of =
     (let setups = filter (carries_risk as_of) rows;
          total_risk = py_sum rnd28 (sized_risks setups);
          missing = length (filter (\<lambda>s. sr_size s = None) setups);
          currencies = map (currency_report budget setups) (report_currencies setups);
          over_budget = length (filter cr_over_budget currencies);
          conflicts = length (filter cr_has_conflict currencies);
          duplicates = length (filter cr_has_duplicate currencies);
          aggregate_over = (aggregate_risk_cap_cad < total_risk)
      in \<lparr>er_setups = setups, er_currencies = currencies, er_over_budget = over_budget, er_conflicts = conflicts,
          er_duplicates = duplicates, er_total_risk = total_risk, er_aggregate_over_budget = aggregate_over,
          er_sizing_missing = missing,
          er_status = report_status over_budget aggregate_over conflicts duplicates missing\<rparr>)"

definition active_directional_recommendations :: "setup_row list \<Rightarrow> instant \<Rightarrow> setup_row list" where
  [model_defs]: "active_directional_recommendations rows as_of =
     filter (\<lambda>s. map_option ad_state (latest_admission (rf_admissions (sr_facts s)) as_of) = Some Admitted
                \<and> rec_version (sr_rec s) \<in> {2, 3, 4} \<and> rec_action (sr_rec s) \<in> {Buy, Sell} \<and> carries_risk as_of s) rows"

section \<open>The report is balanced\<close>

lemma count_legs: "count_list legs leg = length (filter (\<lambda>l. l = leg) legs)"
  by (induction legs) auto

lemma length_side_setups: "length (side_setups setups leg) = count_list (concat (map legs_of setups)) leg"
  by (induction setups) (simp_all add: side_setups_def count_legs)

lemma count_by_currency:
  assumes "distinct cs" "fst ` set legs \<subseteq> set cs"
  shows "(\<Sum>c\<leftarrow>cs. count_list legs (c, d)) = length (filter (\<lambda>l. snd l = d) legs)"
  using assms(2)
proof (induction legs)
  case (Cons l legs)
  have "(\<Sum>c\<leftarrow>cs. if l = (c, d) then 1 else 0) = (if snd l = d \<and> fst l \<in> set cs then 1 else (0 :: nat))"
    using assms(1) by (induction cs) (auto split: prod.splits)
  moreover have "(\<Sum>c\<leftarrow>cs. count_list (l # legs) (c, d)) = (\<Sum>c\<leftarrow>cs. count_list legs (c, d)) + (\<Sum>c\<leftarrow>cs. if l = (c, d) then 1 else 0)"
    by (induction cs) auto
  ultimately show ?case using Cons by auto
qed simp

lemma directed_legs:
  "\<forall>s \<in> set setups. rec_action (sr_rec s) \<noteq> Abstain \<Longrightarrow> d \<in> {1, -1}
     \<Longrightarrow> length (filter (\<lambda>l. snd l = d) (concat (map legs_of setups))) = length setups"
  by (induction setups) (auto simp: legs_of_def decompose_pair_def split: rec_action.split)

lemma carries_risk_direction: "carries_risk as_of s \<Longrightarrow> rec_action (sr_rec s) \<noteq> Abstain"
  by (auto simp: carries_risk_def current_risk_projection_def split: if_splits)

lemma currency_clear: "cr_state (currency_report currency_setup_budget setups c) = Clear \<longleftrightarrow>
    length (side_setups setups (c, 1)) + length (side_setups setups (c, -1)) \<le> 1 \<and>
    side_risk setups (c, 1) \<le> currency_direction_risk_cap_cad \<and> side_risk setups (c, -1) \<le> currency_direction_risk_cap_cad"
  by (cases "side_setups setups (c, 1)"; cases "side_setups setups (c, -1)")
    (auto simp: currency_report_def currency_state_def Let_def currency_setup_budget_def not_less)

lemma currency_flags: "(\<not> cr_over_budget k \<and> \<not> cr_has_conflict k \<and> \<not> cr_has_duplicate k) = (cr_state k = Clear)"
  if "k = currency_report budget setups c"
  by (auto simp: that currency_report_def currency_state_def Let_def)

text \<open>C8: The exposure report is balanced and its verdict is exact. Every setup that carries risk is
  counted once long and once short over the currencies, so the net counts cancel; and the report is
  clear exactly when every setup is sized, the total risk is within the aggregate cap, no currency
  has more than one leg, and none carries more risk on a side than its cap.\<close>

theorem exposure_report_is_balanced:
  fixes rows as_of
  defines "e \<equiv> build_exposure_report rows currency_setup_budget as_of"
  shows "sum_list (map cr_long_count (er_currencies e)) = length (filter (carries_risk as_of) rows) \<and>
    sum_list (map cr_short_count (er_currencies e)) = length (filter (carries_risk as_of) rows) \<and>
    sum_list (map cr_net_count (er_currencies e)) = 0 \<and>
    (er_status e = Clear \<longleftrightarrow>
       (\<forall>s \<in> set rows. carries_risk as_of s \<longrightarrow> sr_size s \<noteq> None) \<and> er_total_risk e \<le> aggregate_risk_cap_cad \<and>
       (\<forall>k \<in> set (er_currencies e). cr_gross_count k \<le> 1 \<and> cr_largest_side_risk k \<le> currency_direction_risk_cap_cad))"
proof -
  let ?s = "filter (carries_risk as_of) rows"
  let ?c = "report_currencies ?s"
  have cs: "er_currencies e = map (currency_report currency_setup_budget ?s) ?c" by (simp add: e_def build_exposure_report_def Let_def)
  have counts: "cr_long_count (currency_report b ?s c) = count_list (concat (map legs_of ?s)) (c, 1)"
    "cr_short_count (currency_report b ?s c) = count_list (concat (map legs_of ?s)) (c, -1)"
    "cr_net_count (currency_report b ?s c) = int (cr_long_count (currency_report b ?s c)) - int (cr_short_count (currency_report b ?s c))" for b c
    by (simp_all add: currency_report_def Let_def length_side_setups)
  have d: "distinct ?c" "fst ` set (concat (map legs_of ?s)) \<subseteq> set ?c" by (auto simp: report_currencies_def)
  have dir: "\<forall>s \<in> set ?s. rec_action (sr_rec s) \<noteq> Abstain" using carries_risk_direction by auto
  have long: "sum_list (map cr_long_count (er_currencies e)) = length ?s"
    unfolding cs map_map comp_def counts using count_by_currency [OF d, of 1] directed_legs [OF dir, of 1] by simp
  have short: "sum_list (map cr_short_count (er_currencies e)) = length ?s"
    unfolding cs map_map comp_def counts using count_by_currency [OF d, of "-1"] directed_legs [OF dir, of "-1"] by simp
  have sums: "sum_list (map cr_net_count ks) = int (sum_list (map cr_long_count ks)) - int (sum_list (map cr_short_count ks))"
    if "\<forall>k \<in> set ks. cr_net_count k = int (cr_long_count k) - int (cr_short_count k)" for ks
    using that by (induction ks) simp_all
  have net: "sum_list (map cr_net_count (er_currencies e)) = 0"
    using sums [of "er_currencies e"] long short counts(3) by (simp add: cs)
  have clear: "er_status e = Clear \<longleftrightarrow> (\<forall>s \<in> set ?s. sr_size s \<noteq> None) \<and> er_total_risk e \<le> aggregate_risk_cap_cad \<and>
      (\<forall>k \<in> set (er_currencies e). \<not> cr_over_budget k \<and> \<not> cr_has_conflict k \<and> \<not> cr_has_duplicate k)"
    by (auto simp: e_def build_exposure_report_def report_status_def Let_def filter_empty_conv not_less)
  have row: "(\<not> cr_over_budget k \<and> \<not> cr_has_conflict k \<and> \<not> cr_has_duplicate k) \<longleftrightarrow>
      cr_gross_count k \<le> 1 \<and> cr_largest_side_risk k \<le> currency_direction_risk_cap_cad" if inside: "k \<in> set (er_currencies e)" for k
  proof -
    obtain c where k: "k = currency_report currency_setup_budget ?s c" using inside unfolding cs by auto
    show ?thesis unfolding currency_flags [OF k] unfolding k currency_clear by (simp add: currency_report_def Let_def)
  qed
  show ?thesis using long short net clear row by simp blast
qed

section \<open>A concrete setup\<close>

text \<open>A recommendation of the second contract that was admitted and has neither entry nor result.\<close>

definition held_setup :: setup_row where
  "held_setup = \<lparr>sr_rec = sample_recommendation\<lparr>rec_version := 2\<rparr>,
     sr_facts = sample_facts\<lparr>rf_chain := []\<rparr>,
     sr_instrument = \<lparr>in_id = 1, in_code = ''EUR_USD'', in_base = ''EUR'', in_quote = ''USD''\<rparr>,
     sr_size = Some \<lparr>sa_stop = 1, sa_units = 100, sa_risk = 100, sa_rate = 1, sa_path = [], sa_sized_at = 0\<rparr>,
     sr_shared = None\<rparr>"

lemma held_setup_risk: "carries_risk 5 held_setup"
  by (simp add: carries_risk_def current_risk_projection_def held_setup_def project_lifecycle_def legacy_state_def
      latest_admission_def latest_paper_fact_def filter_option_def sample_facts_def sample_recommendation_def Let_def)

theorem exposure_report_is_balanced_witness:
  "sum_list (map cr_long_count (er_currencies (build_exposure_report [held_setup] currency_setup_budget 5))) = 1"
  using exposure_report_is_balanced [of "[held_setup]" 5] held_setup_risk by simp

end
