(* ===== verification/Portfolio.thy ===== *)
theory Portfolio
  imports Exposure Sums
begin

text \<open>
  \<^verbatim>\<open>forecasts/portfolio.py\<close> and \<^verbatim>\<open>reconcile_lifecycle\<close> of \<^verbatim>\<open>forecasts/lifecycle.py\<close>: which directional
  setups enter the paper portfolio. A batch of new
  recommendations becomes a cohort; when it fits the risk caps beside what is already admitted it is
  selected automatically, and the owner selects from it otherwise. The state holds the setups in the
  order of their primary key, the cohorts with their members, selections and closure, the activation of
  the policy and the notices sent. The cohort columns of a setup's facts are not read by these
  operations and are left empty. Every call is one transaction; \<open>Inl\<close> rolls it back. Audit events are
  not modelled, the digest of a selection key is a parameter. The members of a cohort are visited in the
  order they were added (the code follows the display order of their instruments; every visit changes
  its own setup only).

  The last part shows that the caps hold in every reachable portfolio: \<open>rows_related\<close>, \<open>closure_only\<close> and
  \<open>calm_step\<close> say what an operation leaves alone, \<open>portfolio_ok\<close> is the invariant of the rows and
  \<open>in_order\<close> adds the caps.
\<close>

section \<open>State\<close>

record cohort_member =
  mb_id :: int
  mb_rec :: int
  mb_risk :: decimal
  mb_legs :: "leg list"

datatype selection_key = AutoKey int | OwnerKey int int string

record selection_row =
  sl_id :: int
  sl_supersedes :: "int option"
  sl_mode :: selection_mode
  sl_key :: selection_key
  sl_selected_at :: instant
  sl_members :: "int list"

record closure_row =
  cl_id :: int
  cl_reason :: string
  cl_superseding :: "int option"
  cl_closed_at :: instant

record cohort_row =
  ch_id :: int
  ch_key :: "int list"
  ch_generated_at :: instant
  ch_deadline :: "instant option"
  ch_base_total :: decimal
  ch_base_sides :: "(leg \<times> decimal) list"
  ch_members :: "cohort_member list"
  ch_selections :: "selection_row list"
  ch_closure :: "closure_row option"

record portfolio =
  po_setups :: "setup_row list"
  po_cohorts :: "cohort_row list"
  po_activation :: "instant option"
  po_notices :: "int list"
  po_next_id :: int

record portfolio_env =
  pv_digest :: key_digest
  pv_selection_digest :: "int list \<Rightarrow> string"
  pv_zone :: zone
  pv_tables :: tables
  pv_now :: instant

datatype portfolio_error =
    NotOwner | OutsideCohort | CohortNotOpen | ExceedsPolicy | SizingIncomplete | CandidateUnsized | DuplicateMember
  | RevocationNotPending | NoDecisionDeadline | NoSuchSetup | NoSuchCohort | LifecycleFailed lifecycle_error

abbreviation setup_id :: "setup_row \<Rightarrow> int" where
  "setup_id s \<equiv> rec_id (sr_rec s)"

text \<open>A loop of fallible statements over a state.\<close>

fun run_all :: "('a \<Rightarrow> 's \<Rightarrow> 'e + 's) \<Rightarrow> 'a list \<Rightarrow> 's \<Rightarrow> 'e + 's" where
  "run_all f [] st = Inr st"
| "run_all f (x # xs) st = (case f x st of Inl e \<Rightarrow> Inl e | Inr st \<Rightarrow> run_all f xs st)"

definition find_setup :: "int \<Rightarrow> portfolio \<Rightarrow> setup_row option" where
  [model_defs]: "find_setup n st = List.find (\<lambda>s. setup_id s = n) (po_setups st)"

definition set_facts :: "int \<Rightarrow> (rec_facts \<Rightarrow> rec_facts) \<Rightarrow> portfolio \<Rightarrow> portfolio" where
  [model_defs]: "set_facts n f st =
     st\<lparr>po_setups := map (\<lambda>s. if setup_id s = n then s\<lparr>sr_facts := f (sr_facts s)\<rparr> else s) (po_setups st)\<rparr>"

definition find_cohort :: "int \<Rightarrow> portfolio \<Rightarrow> cohort_row option" where
  [model_defs]: "find_cohort n st = List.find (\<lambda>c. ch_id c = n) (po_cohorts st)"

definition set_cohort :: "cohort_row \<Rightarrow> portfolio \<Rightarrow> portfolio" where
  [model_defs]: "set_cohort c st = st\<lparr>po_cohorts := map (\<lambda>k. if ch_id k = ch_id c then c else k) (po_cohorts st)\<rparr>"

section \<open>Capacity\<close>

definition admitted_at :: "instant \<Rightarrow> setup_row \<Rightarrow> bool" where
  [model_defs]: "admitted_at as_of s \<longleftrightarrow>
     map_option ad_state (latest_admission (rf_admissions (sr_facts s)) as_of) = Some Admitted"

definition active_admitted :: "int list \<Rightarrow> instant \<Rightarrow> portfolio \<Rightarrow> setup_row list" where
  [model_defs]: "active_admitted excluding as_of st =
     filter (\<lambda>s. admitted_at as_of s \<and> setup_id s \<notin> set excluding \<and> carries_risk as_of s) (po_setups st)"

text \<open>\<^verbatim>\<open>_capacity_usage\<close>: the total and the directional sums, or the error of a setup without a size.\<close>

definition capacity_usage :: "setup_row list \<Rightarrow> (decimal \<times> (leg \<times> decimal) list) option" where
  [model_defs]: "capacity_usage rows =
     (if list_ex (\<lambda>s. sr_size s = None) rows then None
      else Some (py_sum rnd28 (sized_risks rows),
                 map (\<lambda>l. (l, side_risk rows l)) (remdups (concat (map legs_of rows)))))"

definition fits :: "setup_row list \<Rightarrow> bool option" where
  [model_defs]: "fits rows =
     map_option (\<lambda>(total, sides). total \<le> aggregate_risk_cap_cad
                   \<and> list_all (\<lambda>(l, risk). risk \<le> currency_direction_risk_cap_cad) sides) (capacity_usage rows)"

definition selection_fits_snapshot :: "cohort_row \<Rightarrow> cohort_member list \<Rightarrow> bool" where
  [model_defs]: "selection_fits_snapshot c selected =
     (let total = sum_from rnd28 (ch_base_total c) (map mb_risk selected);
          base = (\<lambda>l. case map_of (ch_base_sides c) l of None \<Rightarrow> 0 | Some r \<Rightarrow> r);
          added = (\<lambda>l. concat (map (\<lambda>m. map (\<lambda>k. mb_risk m) (filter (\<lambda>k. k = l) (mb_legs m))) selected))
      in total \<le> aggregate_risk_cap_cad \<and>
         list_all (\<lambda>l. sum_from rnd28 (base l) (added l) \<le> currency_direction_risk_cap_cad)
           (map fst (ch_base_sides c) @ concat (map mb_legs selected)))"

definition owner_decision_deadline :: "zone \<Rightarrow> recommendation \<Rightarrow> instant option" where
  [model_defs]: "owner_decision_deadline z r =
     map_option (min (rec_generated_at r + hours 24)) (target_maturity z (rec_target r))"

section \<open>Events of a setup\<close>

definition setup_state :: "instant \<Rightarrow> setup_row \<Rightarrow> lifecycle_state" where
  [model_defs]: "setup_state as_of s = pj_state (project_lifecycle (sr_rec s) (sr_facts s) as_of)"

definition transition_setup ::
  "portfolio_env \<Rightarrow> lifecycle_state \<Rightarrow> string \<Rightarrow> event_source \<Rightarrow> instant option \<Rightarrow> int \<Rightarrow> portfolio
     \<Rightarrow> portfolio_error + portfolio" where
  [model_defs]: "transition_setup env state reason source occurred n st =
     (case find_setup n st of
        None \<Rightarrow> Inl NoSuchSetup
      | Some s \<Rightarrow>
          (case transition (pv_digest env) (pv_zone env) (pv_tables env) (pv_now env) (sr_rec s) (rf_entry (sr_facts s))
                  (sr_shared s) (rf_chain (sr_facts s)) state reason source occurred of
             Inl e \<Rightarrow> Inl (LifecycleFailed e)
           | Inr (event, chain) \<Rightarrow> Inr (set_facts n (\<lambda>f. f\<lparr>rf_chain := chain\<rparr>) st)))"

definition take_id :: "portfolio \<Rightarrow> int \<times> portfolio" where
  [model_defs]: "take_id st = (po_next_id st, st\<lparr>po_next_id := po_next_id st + 1\<rparr>)"

text \<open>An admission event; a revocation of a contract-4 setup must find it admitted and not entered.\<close>

definition revocable :: "instant \<Rightarrow> setup_row \<Rightarrow> bool" where
  [model_defs]: "revocable t s \<longleftrightarrow> rec_version (sr_rec s) \<noteq> 4 \<or>
     (case event_at (rf_chain (sr_facts s)) t of None \<Rightarrow> False | Some e \<Rightarrow> le_state e = AdmittedAwaitingEntry)
     \<and> \<not> entered_by (rf_entry (sr_facts s)) t"

definition record_admission ::
  "portfolio_env \<Rightarrow> admission_state \<Rightarrow> int \<Rightarrow> portfolio \<Rightarrow> portfolio_error + portfolio" where
  [model_defs]: "record_admission env state n st =
     (case find_setup n st of
        None \<Rightarrow> Inl NoSuchSetup
      | Some s \<Rightarrow>
          if state = Revoked \<and> \<not> revocable (pv_now env) s then Inl RevocationNotPending
          else
            (let (i, st) = take_id st in
             Inr (set_facts n (\<lambda>f. f\<lparr>rf_admissions := rf_admissions f @
                    [\<lparr>ad_id = i, ad_state = state, ad_occurred_at = pv_now env\<rparr>]\<rparr>) st)))"

section \<open>Closing a cohort\<close>

text \<open>\<^verbatim>\<open>close_cohort\<close> on the stored cohort: the closure is created unless there is one, and every member
  that still awaits the owner is closed unselected.\<close>

definition close_unselected ::
  "portfolio_env \<Rightarrow> string \<Rightarrow> int \<Rightarrow> instant \<Rightarrow> cohort_member \<Rightarrow> portfolio \<Rightarrow> portfolio_error + portfolio" where
  [model_defs]: "close_unselected env reason closure as_of m st =
     (case find_setup (mb_rec m) st of
        None \<Rightarrow> Inl NoSuchSetup
      | Some s \<Rightarrow>
          if rec_version (sr_rec s) = 4 \<and> setup_state as_of s = AwaitingOwner
          then transition_setup env ClosedUnselected reason (FromClosure closure) (Some as_of) (mb_rec m) st
          else Inr st)"

definition close_stored_cohort ::
  "portfolio_env \<Rightarrow> string \<Rightarrow> int option \<Rightarrow> instant \<Rightarrow> int \<Rightarrow> portfolio \<Rightarrow> portfolio_error + portfolio" where
  [model_defs]: "close_stored_cohort env reason superseding as_of n st =
     (case find_cohort n st of
        None \<Rightarrow> Inl NoSuchCohort
      | Some c \<Rightarrow>
          (let (closure, st) =
             (case ch_closure c of
                Some k \<Rightarrow> (cl_id k, st)
              | None \<Rightarrow>
                  (let (i, st) = take_id st in
                   (i, set_cohort (c\<lparr>ch_closure := Some \<lparr>cl_id = i, cl_reason = reason, cl_superseding = superseding,
                     cl_closed_at = as_of\<rparr>\<rparr>) st)))
           in run_all (close_unselected env reason closure as_of) (ch_members c) st))"

section \<open>Recording a selection\<close>

definition latest_selection_row :: "cohort_row \<Rightarrow> selection_row option" where
  [model_defs]: "latest_selection_row c = first_max_by (\<lambda>s. (sl_selected_at s, sl_id s)) (ch_selections c)"

definition admission_source :: "setup_row \<Rightarrow> event_source" where
  [model_defs]: "admission_source s =
     (case first_max_by (\<lambda>a. (ad_occurred_at a, ad_id a)) (rf_admissions (sr_facts s)) of
        None \<Rightarrow> FromRecommendation (setup_id s) | Some a \<Rightarrow> FromAdmission (ad_id a))"

text \<open>The state of a member after the selection.\<close>

definition settle_member ::
  "portfolio_env \<Rightarrow> int list \<Rightarrow> cohort_member \<Rightarrow> portfolio \<Rightarrow> portfolio_error + portfolio" where
  [model_defs]: "settle_member env selected m st =
     (case find_setup (mb_rec m) st of
        None \<Rightarrow> Inl NoSuchSetup
      | Some s \<Rightarrow>
          if rec_version (sr_rec s) \<noteq> 4 then Inr st
          else if mb_rec m \<in> set selected \<and> setup_state (pv_now env) s = AwaitingOwner
          then transition_setup env AdmittedAwaitingEntry ''selected'' (admission_source s) None (mb_rec m) st
          else if mb_rec m \<notin> set selected \<and> setup_state (pv_now env) s = AdmittedAwaitingEntry
          then transition_setup env AdmissionRevoked ''revoked'' (admission_source s) None (mb_rec m) st
          else Inr st)"

definition record_selection ::
  "portfolio_env \<Rightarrow> int \<Rightarrow> int list \<Rightarrow> selection_mode \<Rightarrow> selection_row option \<Rightarrow> selection_key \<Rightarrow> portfolio
     \<Rightarrow> portfolio_error + (selection_row \<times> portfolio)" where
  [model_defs]: "record_selection env n selected mode supersedes key st =
     (case find_cohort n st of
        None \<Rightarrow> Inl NoSuchCohort
      | Some c \<Rightarrow>
          (let (i, st) = take_id st;
               ids = sort (remdups selected);
               previous = (case supersedes of None \<Rightarrow> [] | Some s \<Rightarrow> sl_members s);
               row = \<lparr>sl_id = i, sl_supersedes = map_option sl_id supersedes, sl_mode = mode, sl_key = key,
                      sl_selected_at = pv_now env, sl_members = ids\<rparr>;
               st = set_cohort (c\<lparr>ch_selections := ch_selections c @ [row]\<rparr>) st
           in case run_all (record_admission env Admitted) (filter (\<lambda>k. k \<notin> set previous) ids) st of
                Inl e \<Rightarrow> Inl e
              | Inr st \<Rightarrow>
                  (case run_all (record_admission env Revoked) (sort (remdups (filter (\<lambda>k. k \<notin> set ids) previous))) st of
                     Inl e \<Rightarrow> Inl e
                   | Inr st \<Rightarrow>
                       (case run_all (settle_member env ids) (ch_members c) st of
                          Inl e \<Rightarrow> Inl e
                        | Inr st \<Rightarrow>
                            if ch_deadline c = None then Inr (row, st)
                            else map_sum id (Pair row) (close_stored_cohort env ''selection_recorded'' None (pv_now env) n st)))))"

section \<open>Assessing a batch\<close>

definition target_id :: "setup_row \<Rightarrow> int option" where
  [model_defs]: "target_id s = map_option to_id (rec_target (sr_rec s))"

definition open_target_decision :: "setup_row \<Rightarrow> portfolio \<Rightarrow> bool" where
  [model_defs]: "open_target_decision s st \<longleftrightarrow>
     list_ex (\<lambda>c. ch_closure c = None \<and>
        list_ex (\<lambda>m. case find_setup (mb_rec m) st of None \<Rightarrow> False
                     | Some k \<Rightarrow> target_id k \<noteq> None \<and> target_id k = target_id s) (ch_members c)) (po_cohorts st)"

definition ineligible_reason ::
  "portfolio_env \<Rightarrow> instant \<Rightarrow> setup_row \<Rightarrow> portfolio \<Rightarrow> portfolio_error + string option" where
  [model_defs]: "ineligible_reason env generated_at s st =
     (if (case po_activation st of None \<Rightarrow> True | Some t \<Rightarrow> rec_generated_at (sr_rec s) < t)
      then Inr (Some ''policy_not_effective'')
      else
        (case owner_decision_deadline (pv_zone env) (sr_rec s) of
           None \<Rightarrow> Inl NoDecisionDeadline
         | Some deadline \<Rightarrow>
             Inr (if deadline \<le> generated_at then Some ''decision_window_expired''
                  else if sr_size s = None then Some ''missing_versioned_sizing''
                  else if open_target_decision s st then Some ''existing_open_target_decision''
                  else None)))"

text \<open>One recommendation of contract 4: the eligible ones are collected in order.\<close>

definition screen_setup ::
  "portfolio_env \<Rightarrow> instant \<Rightarrow> int \<Rightarrow> int list \<times> portfolio \<Rightarrow> portfolio_error + (int list \<times> portfolio)" where
  [model_defs]: "screen_setup env generated_at n acc =
     (let (eligible, st) = acc in
      case find_setup n st of
        None \<Rightarrow> Inl NoSuchSetup
      | Some s \<Rightarrow>
          if rec_action (sr_rec s) = Abstain \<or> setup_state (pv_now env) s \<noteq> AwaitingAssessment then Inr acc
          else
            (case ineligible_reason env generated_at s st of
               Inl e \<Rightarrow> Inl e
             | Inr None \<Rightarrow> Inr (eligible @ [n], st)
             | Inr (Some reason) \<Rightarrow>
                 map_sum id (Pair eligible)
                   (transition_setup env PortfolioIneligible reason (FromRecommendation n) None n st)))"

definition assessed_already :: "int \<Rightarrow> portfolio \<Rightarrow> bool" where
  [model_defs]: "assessed_already n st \<longleftrightarrow> list_ex (\<lambda>c. list_ex (\<lambda>m. mb_rec m = n) (ch_members c)) (po_cohorts st)"

text \<open>The member row of a candidate and its transition; a recommendation is a member once.\<close>

definition add_member ::
  "portfolio_env \<Rightarrow> int \<Rightarrow> setup_row \<Rightarrow> portfolio \<Rightarrow> portfolio_error + portfolio" where
  [model_defs]: "add_member env cohort s st =
     (case (sr_size s, find_cohort cohort st) of
        (None, _) \<Rightarrow> Inl CandidateUnsized
      | (_, None) \<Rightarrow> Inl NoSuchCohort
      | (Some advice, Some c) \<Rightarrow>
          if assessed_already (setup_id s) st then Inl DuplicateMember
          else (let (i, st) = take_id st;
               st = set_cohort (c\<lparr>ch_members := ch_members c @
                      [\<lparr>mb_id = i, mb_rec = setup_id s, mb_risk = sa_risk advice, mb_legs = legs_of s\<rparr>]\<rparr>) st
           in if rec_version (sr_rec s) = 4
              then transition_setup env AwaitingOwner ''cohort_member'' (FromMember i) None (setup_id s) st
              else Inr st))"

definition superseded_cohorts :: "cohort_row \<Rightarrow> setup_row list \<Rightarrow> portfolio \<Rightarrow> int list" where
  [model_defs]: "superseded_cohorts new candidates st =
     map ch_id (sort_key (\<lambda>c. (- ch_generated_at c, - ch_id c))
       (filter (\<lambda>c. ch_closure c = None \<and> ch_deadline c \<noteq> None \<and> ch_generated_at c < ch_generated_at new \<and> ch_id c \<noteq> ch_id new
          \<and> list_ex (\<lambda>m. case find_setup (mb_rec m) st of None \<Rightarrow> False
               | Some k \<Rightarrow> rec_instrument (sr_rec k) \<in> (rec_instrument \<circ> sr_rec) ` set candidates) (ch_members c)) (po_cohorts st)))"

definition deadline_of :: "zone \<Rightarrow> bool \<Rightarrow> setup_row list \<Rightarrow> instant option option" where
  [model_defs]: "deadline_of z prospective candidates =
     (if \<not> prospective then Some None
      else map_option (\<lambda>ds. Some (Min (set ds))) (those (map (owner_decision_deadline z \<circ> sr_rec) candidates)))"

definition new_cohort :: "int \<Rightarrow> int list \<Rightarrow> instant \<Rightarrow> instant option \<Rightarrow> decimal \<times> (leg \<times> decimal) list \<Rightarrow> cohort_row" where
  [model_defs]: "new_cohort n key generated_at deadline base =
     \<lparr>ch_id = n, ch_key = key, ch_generated_at = generated_at, ch_deadline = deadline, ch_base_total = fst base,
      ch_base_sides = snd base, ch_members = [], ch_selections = [], ch_closure = None\<rparr>"

text \<open>The cohort of the candidates: its rows, the cohorts it supersedes, and the selection when all fit.\<close>

definition form_cohort ::
  "portfolio_env \<Rightarrow> instant \<Rightarrow> bool \<Rightarrow> setup_row list \<Rightarrow> portfolio \<Rightarrow> portfolio_error + (int option \<times> portfolio)" where
  [model_defs]: "form_cohort env generated_at prospective candidates st =
     (let ids = map setup_id candidates; base = active_admitted ids (pv_now env) st in
      case (capacity_usage base, deadline_of (pv_zone env) prospective candidates) of
        (None, _) \<Rightarrow> Inl SizingIncomplete
      | (_, None) \<Rightarrow> Inl NoDecisionDeadline
      | (Some usage, Some deadline) \<Rightarrow>
          (let (n, st) = take_id st;
               c = new_cohort n (sort ids) generated_at deadline usage
           in case run_all (add_member env n) candidates (st\<lparr>po_cohorts := po_cohorts st @ [c]\<rparr>) of
                Inl e \<Rightarrow> Inl e
              | Inr st \<Rightarrow>
                  (case run_all (close_stored_cohort env ''new_target_superseded'' (Some n) (pv_now env))
                          (if prospective then superseded_cohorts c candidates st else []) st of
                     Inl e \<Rightarrow> Inl e
                   | Inr st \<Rightarrow>
                       (case fits (base @ candidates) of
                          None \<Rightarrow> Inl SizingIncomplete
                        | Some True \<Rightarrow>
                            map_sum id (\<lambda>(row, st). (Some n, st)) (record_selection env n ids Automatic None (AutoKey n) st)
                        | Some False \<Rightarrow> Inr (Some n, st\<lparr>po_notices := List.insert n (po_notices st)\<rparr>)))))"

definition candidate_rows :: "int list \<Rightarrow> instant \<Rightarrow> portfolio \<Rightarrow> setup_row list" where
  [model_defs]: "candidate_rows ids effective_at st =
     filter (\<lambda>s. effective_at \<le> rec_generated_at (sr_rec s) \<and> \<not> assessed_already (setup_id s) st
                \<and> rec_action (sr_rec s) \<in> {Buy, Sell}) (List.map_filter (\<lambda>n. find_setup n st) ids)"

text \<open>\<^verbatim>\<open>assess_recommendation_batch\<close>: the cohort of the reply by its identity.\<close>

definition assess_recommendation_batch ::
  "portfolio_env \<Rightarrow> int list \<Rightarrow> instant \<Rightarrow> portfolio \<Rightarrow> portfolio_error + (int option \<times> portfolio)" where
  [model_defs]: "assess_recommendation_batch env ids generated_at st =
     (let version = (\<lambda>n. map_option (rec_version \<circ> sr_rec) (find_setup n st));
          prospective = filter (\<lambda>n. version n = Some 4) ids;
          legacy = filter (\<lambda>n. version n \<noteq> Some 4) ids
      in case run_all (screen_setup env generated_at) prospective ([], st) of
           Inl e \<Rightarrow> Inl e
         | Inr (eligible, st) \<Rightarrow>
             if prospective \<noteq> [] \<and> eligible @ legacy = [] then Inr (None, st)
             else
               (let effective_at = (case po_activation st of None \<Rightarrow> pv_now env | Some t \<Rightarrow> t);
                    st = st\<lparr>po_activation := Some effective_at\<rparr>;
                    candidates = candidate_rows (eligible @ legacy) effective_at st
                in if candidates = [] then Inr (None, st)
                   else
                     (case List.find (\<lambda>c. ch_key c = sort (map setup_id candidates)) (po_cohorts st) of
                        Some c \<Rightarrow> Inr (Some (ch_id c), st)
                      | None \<Rightarrow> form_cohort env generated_at (prospective \<noteq> []) candidates st)))"

section \<open>The owner's selection\<close>

definition triggers :: "market_row \<Rightarrow> recommendation \<Rightarrow> instant \<Rightarrow> bool" where
  [model_defs]: "triggers c r as_of \<longleftrightarrow>
     mr_instrument c = rec_instrument r \<and> mr_granularity c = GH1 \<and> rec_generated_at r \<le> mr_timestamp c
     \<and> mr_timestamp c \<le> as_of - hours 1 \<and> finished_by (mr_run_finished c) as_of \<and> mr_run_succeeded c \<and> mr_complete c
     \<and> (if rec_action r = Buy then q_ask_low c \<le> su_entry (rec_setup r) else su_entry (rec_setup r) \<le> q_bid_high c)"

definition cohort_has_triggered :: "portfolio_env \<Rightarrow> cohort_row \<Rightarrow> instant \<Rightarrow> portfolio \<Rightarrow> bool" where
  [model_defs]: "cohort_has_triggered env c as_of st \<longleftrightarrow>
     list_ex (\<lambda>m. case find_setup (mb_rec m) st of None \<Rightarrow> False
        | Some s \<Rightarrow> list_ex (\<lambda>k. triggers k (sr_rec s) as_of) (tb_candles (pv_tables env))) (ch_members c)"

definition paper_terminal :: "setup_row \<Rightarrow> bool" where
  [model_defs]: "paper_terminal s \<longleftrightarrow>
     (case first_max_by (\<lambda>f. (pf_occurred_at f, pf_id f)) (rf_paper_facts (sr_facts s)) of
        None \<Rightarrow> False
      | Some f \<Rightarrow> pf_state f \<in> {PaperEntered, PaperClosed, PaperExpiredUnobserved, PaperCancelled, PaperMissingData})"

definition cohort_is_open :: "portfolio_env \<Rightarrow> cohort_row \<Rightarrow> portfolio \<Rightarrow> bool" where
  [model_defs]: "cohort_is_open env c st \<longleftrightarrow>
     (let selected = latest_selection_row c in
      \<not> (\<exists>s \<in> set_option selected. sl_mode s = Automatic) \<and>
      (case ch_deadline c of
         None \<Rightarrow> True
       | Some deadline \<Rightarrow> ch_closure c = None \<and> pv_now env < deadline \<and> selected = None) \<and>
      \<not> list_ex (\<lambda>m. case find_setup (mb_rec m) st of None \<Rightarrow> False | Some s \<Rightarrow> paper_terminal s) (ch_members c) \<and>
      \<not> cohort_has_triggered env c (pv_now env) st)"

definition select_portfolio_cohort ::
  "portfolio_env \<Rightarrow> bool \<Rightarrow> int \<Rightarrow> int list \<Rightarrow> portfolio \<Rightarrow> portfolio_error + (selection_row \<times> portfolio)" where
  [model_defs]: "select_portfolio_cohort env owner n wanted st =
     (if \<not> owner then Inl NotOwner
      else
        (case find_cohort n st of
           None \<Rightarrow> Inl NoSuchCohort
         | Some c \<Rightarrow>
             (let member_ids = map mb_rec (ch_members c); selected = sort (remdups wanted); newest = latest_selection_row c in
              if \<not> set selected \<subseteq> set member_ids then Inl OutsideCohort
              else
                (case filter_option (\<lambda>s. set (sl_members s) = set selected) newest of
                   Some s \<Rightarrow> Inr (s, st)
                 | None \<Rightarrow>
                     (let key = OwnerKey n (case newest of None \<Rightarrow> 0 | Some s \<Rightarrow> sl_id s) (pv_selection_digest env selected) in
                      case List.find (\<lambda>s. sl_key s = key) (concat (map ch_selections (po_cohorts st))) of
                        Some s \<Rightarrow> Inr (s, st)
                      | None \<Rightarrow>
                          if \<not> cohort_is_open env c st then Inl CohortNotOpen
                          else if \<not> selection_fits_snapshot c (filter (\<lambda>m. mb_rec m \<in> set selected) (ch_members c))
                          then Inl ExceedsPolicy
                          else
                            (case fits (active_admitted member_ids (pv_now env) st @
                                List.map_filter (\<lambda>m. if mb_rec m \<in> set selected then find_setup (mb_rec m) st else None)
                                  (ch_members c)) of
                               None \<Rightarrow> Inl SizingIncomplete
                             | Some ok \<Rightarrow>
                                 if \<not> ok then Inl ExceedsPolicy
                                 else record_selection env n selected OwnerSelected newest key st)))))) "

section \<open>Reconciliation\<close>

text \<open>\<^verbatim>\<open>reconcile_lifecycle\<close> of \<^verbatim>\<open>forecasts/lifecycle.py\<close>, which drives the calls above. The cancellation of a
  setup whose assessment window has passed: the fact is created unless there is one of that state.\<close>

definition cancellation_fact :: "portfolio_env \<Rightarrow> instant \<Rightarrow> setup_row \<Rightarrow> portfolio \<Rightarrow> portfolio_error + (paper_fact \<times> portfolio)" where
  [model_defs]: "cancellation_fact env as_of s st =
     (case List.find (\<lambda>f. pf_state f = PaperCancelled) (rf_paper_facts (sr_facts s)) of
        Some f \<Rightarrow> Inr (f, st)
      | None \<Rightarrow>
          (let (i, st) = take_id st;
               f = \<lparr>pf_id = i, pf_recommendation = setup_id s, pf_state = PaperCancelled, pf_reason = ''assessment_window_expired'',
                    pf_schema = Some 1, pf_resolution = None, pf_occurred_at = as_of\<rparr>
           in case validate_coverage_fact (pv_zone env) (pv_tables env) (sr_rec s) (rf_entry (sr_facts s)) (sr_shared s) f of
                Some e \<Rightarrow> Inl (LifecycleFailed e)
              | None \<Rightarrow> Inr (f, set_facts (setup_id s) (\<lambda>g. g\<lparr>rf_paper_facts := rf_paper_facts g @ [f]\<rparr>) st)))"

definition reconcile_assessment :: "portfolio_env \<Rightarrow> instant \<Rightarrow> setup_row \<Rightarrow> portfolio \<Rightarrow> portfolio_error + portfolio" where
  [model_defs]: "reconcile_assessment env as_of s st =
     (if rec_generated_at (sr_rec s) + hours 24 \<le> as_of
      then (case cancellation_fact env as_of s st of
              Inl e \<Rightarrow> Inl e
            | Inr (f, st) \<Rightarrow>
                transition_setup env CancelledState ''assessment_window_expired'' (FromFact f) (Some as_of) (setup_id s) st)
      else map_sum id snd (assess_recommendation_batch env [setup_id s] as_of st))"

text \<open>The entry and the result that are known at the cutoff.\<close>

definition reconcile_trade :: "portfolio_env \<Rightarrow> instant \<Rightarrow> int \<Rightarrow> portfolio \<Rightarrow> portfolio_error + portfolio" where
  [model_defs]: "reconcile_trade env as_of n st =
     (case find_setup n st of
        None \<Rightarrow> Inl NoSuchSetup
      | Some s \<Rightarrow>
          (let entry = filter_option (\<lambda>e. pe_entered_at e \<le> as_of) (rf_entry (sr_facts s));
               result = filter_option (\<lambda>p. pr_resolved_at p \<le> as_of) (rf_result (sr_facts s));
               entered = (case entry of
                 Some e \<Rightarrow>
                   if setup_state as_of s = AdmittedAwaitingEntry
                   then transition_setup env Entered ''paper_entry'' (FromEntry (pe_id e)) (Some as_of) n st
                   else Inr st
               | None \<Rightarrow> Inr st)
           in case entered of
                Inl e \<Rightarrow> Inl e
              | Inr st \<Rightarrow>
                  (case result of
                     None \<Rightarrow> Inr st
                   | Some p \<Rightarrow>
                       transition_setup env (result_state (pr_outcome p)) ''paper_result'' (FromResult p) (Some as_of) n st)))"

definition reconcile_setup :: "portfolio_env \<Rightarrow> instant \<Rightarrow> int \<Rightarrow> portfolio \<Rightarrow> portfolio_error + portfolio" where
  [model_defs]: "reconcile_setup env as_of n st =
     (case find_setup n st of
        None \<Rightarrow> Inl NoSuchSetup
      | Some s \<Rightarrow>
          (case initialize (pv_digest env) (pv_zone env) (pv_tables env) (pv_now env) (sr_rec s) (rf_entry (sr_facts s))
                  (sr_shared s) (False, rf_chain (sr_facts s)) of
             Inl e \<Rightarrow> Inl (LifecycleFailed e)
           | Inr (disposed, chain) \<Rightarrow>
               (let s = s\<lparr>sr_facts := (sr_facts s)\<lparr>rf_chain := chain\<rparr>\<rparr>;
                    st = set_facts n (\<lambda>f. f\<lparr>rf_chain := chain\<rparr>) st;
                    assessed = (if setup_state as_of s = AwaitingAssessment then reconcile_assessment env as_of s st else Inr st)
                in case assessed of Inl e \<Rightarrow> Inl e | Inr st \<Rightarrow> reconcile_trade env as_of n st)))"

definition reconcile_cohort :: "portfolio_env \<Rightarrow> instant \<Rightarrow> int \<Rightarrow> portfolio \<Rightarrow> portfolio_error + portfolio" where
  [model_defs]: "reconcile_cohort env as_of n st =
     (case find_cohort n st of
        None \<Rightarrow> Inl NoSuchCohort
      | Some c \<Rightarrow>
          if (\<exists>t \<in> set_option (ch_deadline c). t \<le> as_of) then close_stored_cohort env ''decision_deadline'' None as_of n st
          else if cohort_has_triggered env c as_of st
          then close_stored_cohort env ''entry_trigger_before_selection'' None as_of n st
          else Inr st)"

definition reconcile_lifecycle :: "portfolio_env \<Rightarrow> int option \<Rightarrow> instant \<Rightarrow> portfolio \<Rightarrow> portfolio_error + portfolio" where
  [model_defs]: "reconcile_lifecycle env only as_of st =
     (let due = sort_key (\<lambda>s. (- rec_generated_at (sr_rec s), - setup_id s)) (filter (\<lambda>s. rec_version (sr_rec s) = 4
            \<and> rec_generated_at (sr_rec s) \<le> as_of
            \<and> (case only of None \<Rightarrow> True | Some i \<Rightarrow> rec_instrument (sr_rec s) = i)) (po_setups st))
      in case run_all (reconcile_setup env as_of) (map setup_id due) st of
           Inl e \<Rightarrow> Inl e
         | Inr st \<Rightarrow>
             run_all (reconcile_cohort env as_of)
               (map ch_id (sort_key (\<lambda>c. (- ch_generated_at c, - ch_id c))
                 (filter (\<lambda>c. ch_deadline c \<noteq> None \<and> ch_generated_at c \<le> as_of \<and> ch_closure c = None) (po_cohorts st)))) st)"

section \<open>Exact loads\<close>

text \<open>What a setup weighs does not change with its facts: its identity, its risk and its legs.\<close>

type_synonym load = "int \<times> decimal option \<times> leg list"

definition load_of :: "setup_row \<Rightarrow> load" where
  "load_of s = (setup_id s, map_option sa_risk (sr_size s), legs_of s)"

definition weight :: "load \<Rightarrow> decimal" where
  "weight k = (case fst (snd k) of None \<Rightarrow> 0 | Some r \<Rightarrow> r)"

definition side_weight :: "leg \<Rightarrow> load \<Rightarrow> decimal" where
  "side_weight l k = of_nat (count_list (snd (snd k)) l) * weight k"

definition within_caps :: "load list \<Rightarrow> bool" where
  "within_caps ks \<longleftrightarrow>
     (\<forall>k \<in> set ks. fst (snd k) \<noteq> None) \<and> sum_list (map weight ks) \<le> aggregate_risk_cap_cad \<and>
     (\<forall>l. sum_list (map (side_weight l) ks) \<le> currency_direction_risk_cap_cad)"

definition risk_ok :: "setup_row \<Rightarrow> bool" where
  "risk_ok s \<longleftrightarrow> (\<forall>a \<in> set_option (sr_size s). on_grid 2 (sa_risk a) \<and> 0 \<le> sa_risk a)"

lemma sized_risks_Cons: "sized_risks (s # rows) = (case sr_size s of None \<Rightarrow> [] | Some a \<Rightarrow> [sa_risk a]) @ sized_risks rows"
  by (simp add: sized_risks_def List.map_filter_simps split: option.split)

lemma sized_risks_append: "sized_risks (xs @ ys) = sized_risks xs @ sized_risks ys"
  by (induction xs) (simp_all add: sized_risks_Cons, simp add: sized_risks_def List.map_filter_simps)

lemma sized_risks_weight: "sum_list (sized_risks rows) = sum_list (map (weight \<circ> load_of) rows)"
  by (induction rows) (simp_all add: sized_risks_Cons weight_def load_of_def split: option.split, simp add: sized_risks_def List.map_filter_simps)

lemma sized_risks_ok: "\<forall>s \<in> set rows. risk_ok s \<Longrightarrow> \<forall>x \<in> set (sized_risks rows). on_grid 2 x \<and> 0 \<le> x"
  by (induction rows) (auto simp: sized_risks_Cons risk_ok_def split: option.splits, simp_all add: sized_risks_def List.map_filter_simps)

lemma side_setups_subset: "set (side_setups rows l) \<subseteq> set rows"
  by (auto simp: side_setups_def)

lemma side_weight_sum: "sum_list (sized_risks (side_setups rows l)) = sum_list (map (side_weight l \<circ> load_of) rows)"
proof (induction rows)
  case (Cons s rows)
  have "sum_list (map (weight \<circ> load_of) (map (\<lambda>k. s) ks)) = of_nat (length ks) * weight (load_of s)" for ks :: "leg list"
    by (induction ks) (simp_all add: distrib_right)
  then have "sum_list (sized_risks (map (\<lambda>k. s) (filter (\<lambda>k. k = l) (legs_of s)))) = side_weight l (load_of s)"
    unfolding sized_risks_weight side_weight_def
    by (simp add: load_of_def count_legs)
  then show ?case using Cons by (simp add: side_setups_def sized_risks_append)
qed (simp add: side_setups_def sized_risks_def List.map_filter_simps)

lemma side_weight_absent: "l \<notin> set (concat (map legs_of rows)) \<Longrightarrow> sum_list (map (side_weight l \<circ> load_of) rows) = 0"
  by (induction rows) (auto simp: side_weight_def load_of_def)

lemma fits_iff:
  assumes "\<forall>s \<in> set rows. risk_ok s"
  shows "fits rows = Some True \<longleftrightarrow> within_caps (map load_of rows)"
proof -
  have caps: "aggregate_risk_cap_cad < 10 ^ 22" "currency_direction_risk_cap_cad < 10 ^ 22" "0 \<le> currency_direction_risk_cap_cad"
    by (simp_all add: aggregate_risk_cap_cad_def currency_direction_risk_cap_cad_def)
  have sub: "\<forall>s \<in> set (side_setups rows l). risk_ok s" for l using assms side_setups_subset by blast
  have total: "py_sum rnd28 (sized_risks rows) \<le> aggregate_risk_cap_cad \<longleftrightarrow> sum_list (map (weight \<circ> load_of) rows) \<le> aggregate_risk_cap_cad"
    unfolding sized_risks_weight [symmetric] by (rule py_sum_exact_iff [OF sized_risks_ok [OF assms] _ caps(1)]) simp
  have side: "side_risk rows l \<le> currency_direction_risk_cap_cad
      \<longleftrightarrow> sum_list (map (side_weight l \<circ> load_of) rows) \<le> currency_direction_risk_cap_cad" for l
    unfolding side_risk_def side_weight_sum [symmetric] by (rule py_sum_exact_iff [OF sized_risks_ok [OF sub] _ caps(2)]) simp
  have all: "(\<forall>l \<in> set (concat (map legs_of rows)). sum_list (map (side_weight l \<circ> load_of) rows) \<le> currency_direction_risk_cap_cad)
      \<longleftrightarrow> (\<forall>l. sum_list (map (side_weight l \<circ> load_of) rows) \<le> currency_direction_risk_cap_cad)"
    using side_weight_absent [of _ rows] caps(3) by metis
  have sized: "list_ex (\<lambda>s. sr_size s = None) rows \<longleftrightarrow> (\<exists>k \<in> set (map load_of rows). fst (snd k) = None)"
    by (auto simp: list_ex_iff load_of_def)
  show ?thesis
    unfolding within_caps_def map_map all [symmetric]
    by (simp add: fits_def capacity_usage_def sized list_all_iff total side)
qed

text \<open>Leaving setups out keeps the rest within the caps.\<close>

lemma sum_set_le_sum_list:
  fixes f :: "'a \<Rightarrow> decimal"
  assumes "\<forall>x \<in> set ys. 0 \<le> f x" "distinct xs" "set xs \<subseteq> set ys"
  shows "sum_list (map f xs) \<le> sum_list (map f ys)"
proof -
  have "sum f (set ys) \<le> sum_list (map f ys)" if "\<forall>x \<in> set ys. 0 \<le> f x" for ys
    using that
  proof (induction ys)
    case (Cons y ys)
    then show ?case by (cases "y \<in> set ys") (auto simp: insert_absorb)
  qed simp
  moreover have "sum f (set xs) \<le> sum f (set ys)" using assms by (intro sum_mono2) auto
  ultimately show ?thesis using assms(1,2) by (simp add: sum_list_distinct_conv_sum_set) fastforce
qed

lemma within_caps_subset:
  assumes "within_caps ks" "\<forall>k \<in> set ks. 0 \<le> weight k" "distinct js" "set js \<subseteq> set ks"
  shows "within_caps js"
proof -
  have "sum_list (map weight js) \<le> sum_list (map weight ks)" by (rule sum_set_le_sum_list [OF assms(2-4)])
  moreover have "sum_list (map (side_weight l) js) \<le> sum_list (map (side_weight l) ks)" for l
    by (rule sum_set_le_sum_list [OF _ assms(3,4)]) (use assms(2) in \<open>simp add: side_weight_def\<close>)
  ultimately show ?thesis using assms(1,4) unfolding within_caps_def by (meson order_trans subsetD)
qed

section \<open>What the operations leave alone\<close>

definition rows_related :: "(setup_row \<Rightarrow> setup_row \<Rightarrow> bool) \<Rightarrow> portfolio \<Rightarrow> portfolio \<Rightarrow> bool" where
  "rows_related P st st' \<longleftrightarrow> list_all2 (\<lambda>s s'. (\<exists>f. s' = s\<lparr>sr_facts := f\<rparr>) \<and> P s s') (po_setups st) (po_setups st')"

text \<open>Only the rows of these setups change; no row starts to carry risk at the instant, and no admission
  changes.\<close>

definition only :: "int set \<Rightarrow> setup_row \<Rightarrow> setup_row \<Rightarrow> bool" where
  "only K s s' \<longleftrightarrow> (setup_id s \<notin> K \<longrightarrow> s' = s)"

definition calm :: "instant \<Rightarrow> setup_row \<Rightarrow> setup_row \<Rightarrow> bool" where
  "calm t s s' \<longleftrightarrow> rf_admissions (sr_facts s') = rf_admissions (sr_facts s) \<and> (carries_risk t s' \<longrightarrow> carries_risk t s)"

definition same_admissions :: "setup_row \<Rightarrow> setup_row \<Rightarrow> bool" where
  "same_admissions s s' \<longleftrightarrow> rf_admissions (sr_facts s') = rf_admissions (sr_facts s)"

lemma rows_related_refl: "(\<And>s. P s s) \<Longrightarrow> rows_related P st st"
  unfolding rows_related_def by (rule list_all2_refl) (metis setup_row.surjective setup_row.update_convs(2))

lemma rows_related_trans:
  assumes "\<And>s s' s''. P s s' \<Longrightarrow> P s' s'' \<Longrightarrow> setup_id s' = setup_id s \<Longrightarrow> P s s''"
    and "rows_related P st st'" "rows_related P st' st''"
  shows "rows_related P st st''"
  using assms(2,3) unfolding rows_related_def
  by (rule list_all2_trans [rotated]) (use assms(1) in fastforce)

lemma only_refl: "only K s s" by (simp add: only_def)
lemma calm_refl: "calm t s s" by (simp add: calm_def)
lemma same_admissions_refl: "same_admissions s s" by (simp add: same_admissions_def)
lemma only_trans: "only K s s' \<Longrightarrow> only K s' s'' \<Longrightarrow> setup_id s' = setup_id s \<Longrightarrow> only K s s''" by (simp add: only_def)
lemma calm_trans: "calm t s s' \<Longrightarrow> calm t s' s'' \<Longrightarrow> calm t s s''" by (simp add: calm_def)
lemma same_admissions_trans: "same_admissions s s' \<Longrightarrow> same_admissions s' s'' \<Longrightarrow> same_admissions s s''"
  by (simp add: same_admissions_def)

lemmas rows_refl = only_refl calm_refl same_admissions_refl

lemma only_rows_trans: "rows_related (only K) st st' \<Longrightarrow> rows_related (only K) st' st'' \<Longrightarrow> rows_related (only K) st st''"
  by (erule (1) rows_related_trans [rotated]) (rule only_trans)

lemma calm_rows_trans: "rows_related (calm t) st st' \<Longrightarrow> rows_related (calm t) st' st'' \<Longrightarrow> rows_related (calm t) st st''"
  by (erule (1) rows_related_trans [rotated]) (rule calm_trans)

lemma admission_rows_trans:
  "rows_related same_admissions st st' \<Longrightarrow> rows_related same_admissions st' st'' \<Longrightarrow> rows_related same_admissions st st''"
  by (erule (1) rows_related_trans [rotated]) (rule same_admissions_trans)

lemma rows_related_mono: "rows_related P st st' \<Longrightarrow> (\<And>s s'. P s s' \<Longrightarrow> Q s s') \<Longrightarrow> rows_related Q st st'"
  unfolding rows_related_def by (erule list_all2_mono) blast

lemma rows_ids:
  assumes "rows_related P st st'"
  shows "map setup_id (po_setups st') = map setup_id (po_setups st)"
proof -
  have "list_all2 (\<lambda>s s'. setup_id s' = setup_id s) (po_setups st) (po_setups st')"
    using assms unfolding rows_related_def by (rule list_all2_mono) auto
  then show ?thesis by (induction rule: list_all2_induct) simp_all
qed

lemma rows_back:
  assumes "rows_related P st st'" "s' \<in> set (po_setups st')"
  obtains s f where "s \<in> set (po_setups st)" "s' = s\<lparr>sr_facts := f\<rparr>" "P s s'"
proof -
  obtain i where "i < length (po_setups st')" "s' = po_setups st' ! i" using assms(2) by (auto simp: in_set_conv_nth)
  then show ?thesis using assms(1) that [of "po_setups st ! i"] unfolding rows_related_def
    by (auto simp: list_all2_conv_all_nth)
qed

text \<open>One operation changes the facts of one setup.\<close>

lemma set_facts_rows:
  assumes "\<And>s. s \<in> set (po_setups st) \<Longrightarrow> P s (if setup_id s = n then s\<lparr>sr_facts := f (sr_facts s)\<rparr> else s)"
  shows "rows_related P st (set_facts n f st)"
proof -
  have "\<exists>g. s = s\<lparr>sr_facts := g\<rparr>" for s :: setup_row by (metis setup_row.surjective setup_row.update_convs(2))
  then show ?thesis using assms unfolding rows_related_def set_facts_def
    by (auto simp: list_all2_conv_all_nth)
qed

definition same_cohorts :: "portfolio \<Rightarrow> portfolio \<Rightarrow> bool" where
  "same_cohorts st st' \<longleftrightarrow> po_cohorts st' = po_cohorts st \<and> po_next_id st \<le> po_next_id st'"

lemma same_cohorts_refl: "same_cohorts st st" by (simp add: same_cohorts_def)
lemma same_cohorts_trans: "same_cohorts st st' \<Longrightarrow> same_cohorts st' st'' \<Longrightarrow> same_cohorts st st''" by (simp add: same_cohorts_def)

lemma set_facts_frame [simp]:
  "po_cohorts (set_facts n f st) = po_cohorts st" "po_next_id (set_facts n f st) = po_next_id st"
  "po_activation (set_facts n f st) = po_activation st"
  by (simp_all add: set_facts_def)

lemma find_setup_SomeD: "find_setup n st = Some s \<Longrightarrow> s \<in> set (po_setups st) \<and> setup_id s = n"
  by (auto simp: find_setup_def find_Some_iff)

text \<open>A transition to anything but the admitted state starts no risk.\<close>

lemma transition_quiet:
  assumes "transition digest z tb now r entry shared chain state reason source occurred = Inr (event, chain')"
    and "state \<noteq> AdmittedAwaitingEntry" "rf_chain f = chain"
    and "current_risk_projection r (f\<lparr>rf_chain := chain'\<rparr>) t \<noteq> None"
  shows "current_risk_projection r f t \<noteq> None"
proof -
  have v4: "rec_version r = 4" using assms(1) by (auto simp: transition_def split: if_splits)
  consider "chain' = chain" | e where "chain' = e # chain" "le_state e = state" "legal_step r chain state (le_occurred_at e)"
    using assms(1) by (auto simp: transition_def Let_def split: if_splits option.splits)
  then show ?thesis
  proof cases
    case 1
    then have "f\<lparr>rf_chain := chain'\<rparr> = f" using assms(3) by (cases f) simp
    then show ?thesis using assms(4) by simp
  next
    case (2 e)
    have state: "pj_state (project_lifecycle r g t) = le_state e" if "event_at (rf_chain g) t = Some e" for g e
      using that by (simp add: project_lifecycle_def Let_def v4)
    have adm: "pj_admission (project_lifecycle r (f\<lparr>rf_chain := c\<rparr>) t) = pj_admission (project_lifecycle r f t)" for c
      by (simp add: project_lifecycle_def Let_def split: prod.split)
    show ?thesis
    proof (cases "le_occurred_at e \<le> t")
      case True
      then have "pj_state (project_lifecycle r (f\<lparr>rf_chain := chain'\<rparr>) t) = state"
        using state [of "f\<lparr>rf_chain := chain'\<rparr>" e] by (simp add: event_at_def 2)
      then have s: "state = Entered" "pj_admission (project_lifecycle r f t) = Some Admitted" "rec_action r \<noteq> Abstain"
        using assms(2,4) adm by (auto simp: current_risk_projection_def Let_def split: if_splits)
      then obtain prev rest where p: "chain = prev # rest" "may_follow (le_state prev) Entered" "le_occurred_at prev \<le> le_occurred_at e"
        using 2(3) by (cases chain) (auto simp: legal_step_def initial_state_def split: if_splits)
      then have "le_state prev = AdmittedAwaitingEntry" by (cases "le_state prev") (auto simp: may_follow_def)
      moreover have "event_at chain t = Some prev" using p True by (simp add: event_at_def)
      ultimately have "pj_state (project_lifecycle r f t) = AdmittedAwaitingEntry" using state [of f] assms(3) by simp
      then show ?thesis using s(2,3) v4 by (simp add: current_risk_projection_def Let_def)
    next
      case False
      then have "project_lifecycle r (f\<lparr>rf_chain := chain'\<rparr>) t = project_lifecycle r f t"
        using assms(3) by (simp add: project_lifecycle_def 2 event_at_def cong: option.case_cong)
      then have "current_risk_projection r (f\<lparr>rf_chain := chain'\<rparr>) t = current_risk_projection r f t"
        by (simp only: current_risk_projection_def)
      then show ?thesis using assms(4) by simp
    qed
  qed
qed

lemma transition_setup_frame:
  assumes "transition_setup env state reason source occurred n st = Inr st'" "distinct (map setup_id (po_setups st))"
  shows "rows_related (only {n}) st st' \<and> rows_related same_admissions st st' \<and> same_cohorts st st' \<and>
    (state \<noteq> AdmittedAwaitingEntry \<longrightarrow> rows_related (calm t) st st')"
proof -
  obtain s event chain where s: "find_setup n st = Some s"
    and tr: "transition (pv_digest env) (pv_zone env) (pv_tables env) (pv_now env) (sr_rec s) (rf_entry (sr_facts s))
       (sr_shared s) (rf_chain (sr_facts s)) state reason source occurred = Inr (event, chain)"
    and st': "st' = set_facts n (\<lambda>f. f\<lparr>rf_chain := chain\<rparr>) st"
    using assms(1) by (auto simp: transition_setup_def split: option.splits sum.splits)
  have same: "k = s" if "k \<in> set (po_setups st)" "setup_id k = n" for k
    using that find_setup_SomeD [OF s] assms(2) by (metis (no_types, lifting) distinct_map inj_onD)
  have "carries_risk t s" if "state \<noteq> AdmittedAwaitingEntry" "carries_risk t (s\<lparr>sr_facts := (sr_facts s)\<lparr>rf_chain := chain\<rparr>\<rparr>)"
    using transition_quiet [OF tr that(1) refl] that(2) by (simp add: carries_risk_def)
  moreover have "rows_related P st st'" if "\<And>k. P k k" "P s (s\<lparr>sr_facts := (sr_facts s)\<lparr>rf_chain := chain\<rparr>\<rparr>)" for P
    unfolding st' by (rule set_facts_rows) (use that same in auto)
  ultimately show ?thesis
    using find_setup_SomeD [OF s] by (simp add: only_def same_admissions_def calm_def same_cohorts_def st')
qed

section \<open>Admissions\<close>

definition last_state :: "instant \<Rightarrow> setup_row \<Rightarrow> admission_state option" where
  "last_state t s = map_option ad_state (latest_admission (rf_admissions (sr_facts s)) t)"

definition stamped :: "instant \<Rightarrow> portfolio \<Rightarrow> bool" where
  "stamped t st \<longleftrightarrow> (\<forall>s \<in> set (po_setups st). \<forall>a \<in> set (rf_admissions (sr_facts s)). ad_occurred_at a \<le> t \<and> ad_id a < po_next_id st)"

lemma latest_admission_append:
  assumes "\<forall>a \<in> set as. ad_occurred_at a \<le> t \<and> ad_id a < i" "ad_id b = i" "ad_occurred_at b = t"
  shows "latest_admission (as @ [b]) t = Some b"
proof -
  let ?k = "\<lambda>a. (ad_occurred_at a, ad_id a)"
  obtain m where m: "latest_admission (as @ [b]) t = Some m"
    using assms(3) unfolding latest_admission_def by (cases "filter (\<lambda>a. ad_occurred_at a \<le> t) (as @ [b])") auto
  then have "m \<in> set (filter (\<lambda>a. ad_occurred_at a \<le> t) (as @ [b]))" "?k b \<le> ?k m"
    using first_max_by_Some [of ?k] assms(3) unfolding latest_admission_def by fastforce+
  then have "m = b" using assms by force
  then show ?thesis using m by simp
qed

lemma record_admission_frame:
  assumes "record_admission env state n st = Inr st'" "distinct (map setup_id (po_setups st))" "stamped (pv_now env) st"
  shows "rows_related (only {n}) st st' \<and> same_cohorts st st' \<and> stamped (pv_now env) st' \<and>
    (\<forall>s \<in> set (po_setups st'). setup_id s = n \<longrightarrow> last_state (pv_now env) s = Some state)"
proof -
  let ?a = "\<lparr>ad_id = po_next_id st, ad_state = state, ad_occurred_at = pv_now env\<rparr>"
  have st': "st' = set_facts n (\<lambda>f. f\<lparr>rf_admissions := rf_admissions f @ [?a]\<rparr>) (st\<lparr>po_next_id := po_next_id st + 1\<rparr>)"
    using assms(1) by (auto simp: record_admission_def take_id_def Let_def split: option.splits if_splits)
  have rows: "rows_related P st st'" if "\<And>s. P s (if setup_id s = n then s\<lparr>sr_facts := (sr_facts s)\<lparr>rf_admissions := rf_admissions (sr_facts s) @ [?a]\<rparr>\<rparr> else s)" for P
    using set_facts_rows [of "st\<lparr>po_next_id := po_next_id st + 1\<rparr>" P n "\<lambda>f. f\<lparr>rf_admissions := rf_admissions f @ [?a]\<rparr>"] that
    unfolding st' rows_related_def by simp
  have "stamped (pv_now env) st'" using assms(3) unfolding st' stamped_def set_facts_def by fastforce
  have new: "latest_admission (rf_admissions (sr_facts s) @ [?a]) (pv_now env) = Some ?a" if "s \<in> set (po_setups st)" for s
    using that assms(3) by (intro latest_admission_append [where i = "po_next_id st"]) (auto simp: stamped_def)
  have "last_state (pv_now env) s' = Some state" if s': "s' \<in> set (po_setups st')" "setup_id s' = n" for s'
  proof -
    obtain s where s: "s \<in> set (po_setups st)"
      "s' = (if setup_id s = n then s\<lparr>sr_facts := (sr_facts s)\<lparr>rf_admissions := rf_admissions (sr_facts s) @ [?a]\<rparr>\<rparr> else s)"
      using s'(1) unfolding st' set_facts_def by auto
    then have "setup_id s = n" using s'(2) by (simp split: if_splits)
    then show ?thesis using new [OF s(1)] s(2) by (simp add: last_state_def)
  qed
  with \<open>stamped (pv_now env) st'\<close> show ?thesis
    using rows [of "only {n}"]
    by (simp add: only_def same_cohorts_def st')
qed

lemma run_admissions_frame:
  "run_all (record_admission env state) ks st = Inr st' \<Longrightarrow> distinct (map setup_id (po_setups st)) \<Longrightarrow> stamped (pv_now env) st
    \<Longrightarrow> rows_related (only (set ks)) st st' \<and> same_cohorts st st' \<and> stamped (pv_now env) st' \<and>
    (\<forall>s \<in> set (po_setups st'). setup_id s \<in> set ks \<longrightarrow> last_state (pv_now env) s = Some state)"
proof (induction ks arbitrary: st)
  case Nil
  then show ?case by (simp add: only_refl rows_related_refl same_cohorts_refl)
next
  case (Cons k ks)
  obtain mid where mid: "record_admission env state k st = Inr mid" "run_all (record_admission env state) ks mid = Inr st'"
    using Cons.prems(1) by (auto split: sum.splits)
  note one = record_admission_frame [OF mid(1) Cons.prems(2,3)]
  have "distinct (map setup_id (po_setups mid))" using rows_ids one Cons.prems(2) by metis
  note rest = Cons.IH [OF mid(2) this] one
  have "rows_related (only (set (k # ks))) st st'"
    by (rule only_rows_trans [where st' = mid]) (use rest in \<open>auto elim!: rows_related_mono simp: only_def\<close>)
  moreover have "last_state (pv_now env) s = Some state" if s: "s \<in> set (po_setups st')" "setup_id s \<in> set (k # ks)" for s
  proof (cases "setup_id s \<in> set ks")
    case True
    then show ?thesis using rest s(1) by blast
  next
    case False
    have "rows_related (only (set ks)) mid st'" using rest by blast
    then obtain q f where q: "q \<in> set (po_setups mid)" "s = q\<lparr>sr_facts := f\<rparr>" "only (set ks) q s"
      using s(1) by (rule rows_back)
    then show ?thesis using False s(2) one by (auto simp: only_def)
  qed
  ultimately show ?case using rest by (auto intro: same_cohorts_trans)
qed

section \<open>Selections and closures\<close>

lemma only_rows_mono: "rows_related (only K) st st' \<Longrightarrow> K \<subseteq> K' \<Longrightarrow> rows_related (only K') st st'"
  by (erule rows_related_mono) (auto simp: only_def)

text \<open>A loop keeps a relation that each of its statements keeps.\<close>

lemma run_all_relates:
  assumes "run_all f xs st = Inr st'" "R st" "\<And>x mid mid'. x \<in> set xs \<Longrightarrow> R mid \<Longrightarrow> f x mid = Inr mid' \<Longrightarrow> R mid'"
  shows "R st'"
  using assms(1,2,3)
proof (induction xs arbitrary: st)
  case (Cons x xs)
  obtain mid where "f x st = Inr mid" "run_all f xs mid = Inr st'" using Cons.prems(1) by (auto split: sum.splits)
  then show ?case using Cons.IH [of mid] Cons.prems(2,3) by (meson list.set_intros(1,2))
qed simp

text \<open>What settling and closing do to the setups: only members change, no admission does.\<close>

definition settles :: "int set \<Rightarrow> portfolio \<Rightarrow> portfolio \<Rightarrow> bool" where
  "settles K st st' \<longleftrightarrow> rows_related (only K) st st' \<and> rows_related same_admissions st st' \<and> same_cohorts st st'"

lemma settles_refl: "settles K st st"
  by (simp add: settles_def rows_related_refl rows_refl same_cohorts_refl)

lemma settles_trans: "settles K st st' \<Longrightarrow> settles K st' st'' \<Longrightarrow> settles K st st''"
  unfolding settles_def by (blast intro: only_rows_trans admission_rows_trans same_cohorts_trans)

lemma settles_distinct: "settles K st st' \<Longrightarrow> distinct (map setup_id (po_setups st)) \<Longrightarrow> distinct (map setup_id (po_setups st'))"
  unfolding settles_def using rows_ids by metis

lemma transition_settles:
  "transition_setup env state reason source occurred n st = Inr st' \<Longrightarrow> distinct (map setup_id (po_setups st)) \<Longrightarrow> n \<in> K
     \<Longrightarrow> settles K st st'"
  unfolding settles_def using transition_setup_frame only_rows_mono by blast

lemma settle_member_settles:
  "settle_member env ids m st = Inr st' \<Longrightarrow> distinct (map setup_id (po_setups st)) \<Longrightarrow> mb_rec m \<in> K \<Longrightarrow> settles K st st'"
  by (auto simp: settle_member_def settles_refl intro: transition_settles split: option.splits if_splits)

lemma close_unselected_settles:
  "close_unselected env reason closure as_of m st = Inr st' \<Longrightarrow> distinct (map setup_id (po_setups st)) \<Longrightarrow> mb_rec m \<in> K
     \<Longrightarrow> settles K st st' \<and> rows_related (calm t) st st'"
  by (auto simp: close_unselected_def settles_refl rows_related_refl calm_refl intro: transition_settles
      dest: transition_setup_frame split: option.splits if_splits)

lemma run_settles:
  assumes "run_all f xs st = Inr st'" "distinct (map setup_id (po_setups st))"
    and "\<And>x mid mid'. x \<in> set xs \<Longrightarrow> f x mid = Inr mid' \<Longrightarrow> distinct (map setup_id (po_setups mid)) \<Longrightarrow> settles K mid mid'"
  shows "settles K st st'"
proof -
  let ?R = "\<lambda>mid. settles K st mid \<and> distinct (map setup_id (po_setups mid))"
  have "?R st'" using assms(1)
  proof (rule run_all_relates [where R = ?R])
    show "?R st" using assms(2) settles_refl by blast
  next
    fix x mid mid' assume "x \<in> set xs" "?R mid" "f x mid = Inr mid'"
    then show "?R mid'" using assms(3) settles_trans settles_distinct by blast
  qed
  then show ?thesis ..
qed

text \<open>Closing a cohort changes only closures, and no row starts to carry risk.\<close>

definition core :: "cohort_row \<Rightarrow> int \<times> cohort_member list \<times> selection_row list" where
  "core c = (ch_id c, ch_members c, ch_selections c)"

definition closure_only :: "portfolio \<Rightarrow> portfolio \<Rightarrow> bool" where
  "closure_only st st' \<longleftrightarrow> map core (po_cohorts st') = map core (po_cohorts st) \<and> po_next_id st \<le> po_next_id st'"

lemma closure_only_refl: "closure_only st st"
  by (simp add: closure_only_def)

lemma closure_only_trans: "closure_only st st' \<Longrightarrow> closure_only st' st'' \<Longrightarrow> closure_only st st''"
  by (simp add: closure_only_def)

lemma same_cohorts_closure: "same_cohorts st st' \<Longrightarrow> closure_only st st'"
  by (simp add: same_cohorts_def closure_only_def)

lemma find_cohort_SomeD: "find_cohort n st = Some c \<Longrightarrow> c \<in> set (po_cohorts st) \<and> ch_id c = n"
  by (auto simp: find_cohort_def find_Some_iff)

lemma set_closure:
  assumes "find_cohort n st = Some c" "distinct (map ch_id (po_cohorts st))" "po_cohorts st' = po_cohorts st" "po_next_id st \<le> po_next_id st'"
  shows "closure_only st (set_cohort (c\<lparr>ch_closure := k\<rparr>) st')"
proof -
  have "d = c" if "d \<in> set (po_cohorts st)" "ch_id d = ch_id c" for d
    using that find_cohort_SomeD [OF assms(1)] assms(2) by (metis (no_types, lifting) distinct_map inj_onD)
  then show ?thesis
    using assms(3,4) by (auto simp: closure_only_def set_cohort_def core_def)
qed

lemma close_stored_cohort_frame:
  assumes "close_stored_cohort env reason superseding as_of n st = Inr st'"
    and "distinct (map setup_id (po_setups st))" "distinct (map ch_id (po_cohorts st))"
  shows "rows_related (calm t) st st' \<and> closure_only st st' \<and>
    (\<forall>c. find_cohort n st = Some c \<longrightarrow> rows_related (only (mb_rec ` set (ch_members c))) st st')"
proof -
  obtain c where c: "find_cohort n st = Some c" using assms(1) by (auto simp: close_stored_cohort_def split: option.splits)
  obtain closure mid where mid: "po_setups mid = po_setups st" "closure_only st mid"
    and run: "run_all (close_unselected env reason closure as_of) (ch_members c) mid = Inr st'"
  proof (cases "ch_closure c")
    case (Some k)
    then show ?thesis using assms(1) c that [of st] closure_only_refl by (auto simp: close_stored_cohort_def)
  next
    case None
    let ?mid = "set_cohort (c\<lparr>ch_closure := Some \<lparr>cl_id = po_next_id st, cl_reason = reason, cl_superseding = superseding,
                     cl_closed_at = as_of\<rparr>\<rparr>) (st\<lparr>po_next_id := po_next_id st + 1\<rparr>)"
    show ?thesis
    proof (rule that [of ?mid])
      show "closure_only st ?mid" by (rule set_closure [OF c assms(3)]) simp_all
      show "run_all (close_unselected env reason (po_next_id st) as_of) (ch_members c) ?mid = Inr st'"
        using assms(1) c None by (simp add: close_stored_cohort_def take_id_def Let_def)
    qed (simp add: set_cohort_def)
  qed
  let ?K = "mb_rec ` set (ch_members c)"
  let ?R = "\<lambda>q. settles ?K mid q \<and> rows_related (calm t) mid q \<and> distinct (map setup_id (po_setups q))"
  have "?R st'" using run
  proof (rule run_all_relates [where R = ?R])
    show "?R mid" using assms(2) by (simp add: settles_refl rows_related_refl calm_refl mid)
  next
    fix x q q' assume x: "x \<in> set (ch_members c)" "?R q" "close_unselected env reason closure as_of x q = Inr q'"
    then have "settles ?K q q'" "rows_related (calm t) q q'" using close_unselected_settles [of env reason closure as_of x q q' ?K t] by auto
    then show "?R q'" using x(2) settles_trans settles_distinct calm_rows_trans by blast
  qed
  then show ?thesis
    using c mid closure_only_trans [OF mid(2) same_cohorts_closure]
    unfolding settles_def rows_related_def by auto
qed

section \<open>The portfolio invariant\<close>

definition members_of :: "cohort_row \<Rightarrow> int set" where
  "members_of c = mb_rec ` set (ch_members c)"

definition chosen :: "cohort_row \<Rightarrow> int set" where
  "chosen c = (case latest_selection_row c of None \<Rightarrow> {} | Some x \<Rightarrow> set (sl_members x))"

lemma core_members: "core c = core d \<Longrightarrow> members_of c = members_of d \<and> chosen c = chosen d \<and> ch_id c = ch_id d \<and> ch_selections c = ch_selections d"
  by (simp add: core_def members_of_def chosen_def latest_selection_row_def)

text \<open>Members belong to one cohort, selections choose among the members, and an admitted setup is in the
  latest selection of its cohort.\<close>

definition cohorts_ok :: "instant \<Rightarrow> int \<Rightarrow> cohort_row list \<Rightarrow> bool" where
  "cohorts_ok t next cs \<longleftrightarrow>
     distinct (map ch_id cs) \<and>
     (\<forall>c \<in> set cs. ch_id c < next \<and>
        (\<forall>x \<in> set (ch_selections c). sl_selected_at x \<le> t \<and> sl_id x < next \<and> set (sl_members x) \<subseteq> members_of c)) \<and>
     (\<forall>c \<in> set cs. \<forall>d \<in> set cs. members_of c \<inter> members_of d \<noteq> {} \<longrightarrow> ch_id c = ch_id d)"

definition linked :: "instant \<Rightarrow> cohort_row list \<Rightarrow> setup_row \<Rightarrow> bool" where
  "linked t cs s \<longleftrightarrow> (last_state t s = Some Admitted \<longrightarrow> (\<exists>c \<in> set cs. setup_id s \<in> members_of c \<inter> chosen c))"

definition portfolio_ok :: "instant \<Rightarrow> portfolio \<Rightarrow> bool" where
  "portfolio_ok t st \<longleftrightarrow>
     distinct (map setup_id (po_setups st)) \<and> (\<forall>s \<in> set (po_setups st). risk_ok s) \<and> stamped t st \<and>
     cohorts_ok t (po_next_id st) (po_cohorts st) \<and> (\<forall>s \<in> set (po_setups st). linked t (po_cohorts st) s)"

lemma core_in: "map core cs' = map core cs \<Longrightarrow> c' \<in> set cs' \<Longrightarrow> \<exists>c \<in> set cs. core c = core c'"
  by (metis (no_types, lifting) image_iff list.set_map)

lemma cohorts_ok_core:
  assumes "cohorts_ok t next cs" "map core cs' = map core cs" "next \<le> next'"
  shows "cohorts_ok t next' cs'"
proof -
  have ids: "map ch_id cs' = map ch_id cs"
    using arg_cong [OF assms(2), of "map fst"] by (simp add: core_def comp_def)
  have one: "ch_id c' < next' \<and> (\<forall>x \<in> set (ch_selections c'). sl_selected_at x \<le> t \<and> sl_id x < next' \<and> set (sl_members x) \<subseteq> members_of c')"
    if inside: "c' \<in> set cs'" for c'
  proof -
    obtain c where c: "c \<in> set cs" "core c = core c'" using core_in [OF assms(2) inside] by blast
    then have old: "ch_id c < next" "\<forall>x \<in> set (ch_selections c). sl_selected_at x \<le> t \<and> sl_id x < next \<and> set (sl_members x) \<subseteq> members_of c"
      using assms(1) unfolding cohorts_ok_def by blast+
    have same: "members_of c' = members_of c" "ch_id c' = ch_id c" "ch_selections c' = ch_selections c"
      using core_members [OF c(2)] by simp_all
    show ?thesis unfolding same using old assms(3) by auto
  qed
  have two: "ch_id c' = ch_id d'" if inside: "c' \<in> set cs'" "d' \<in> set cs'" "members_of c' \<inter> members_of d' \<noteq> {}" for c' d'
  proof -
    obtain c where c: "c \<in> set cs" "core c = core c'" using core_in [OF assms(2) inside(1)] by blast
    obtain d where d: "d \<in> set cs" "core d = core d'" using core_in [OF assms(2) inside(2)] by blast
    have "members_of c \<inter> members_of d \<noteq> {}" using inside(3) core_members [OF c(2)] core_members [OF d(2)] by simp
    then have "ch_id c = ch_id d" using assms(1) c(1) d(1) unfolding cohorts_ok_def by blast
    then show ?thesis using core_members [OF c(2)] core_members [OF d(2)] by simp
  qed
  show ?thesis using assms(1) one two unfolding cohorts_ok_def ids by blast
qed

lemma linked_core: "linked t cs s \<Longrightarrow> map core cs' = map core cs \<Longrightarrow> last_state t s' = last_state t s \<Longrightarrow> setup_id s' = setup_id s
    \<Longrightarrow> linked t cs' s'"
  unfolding linked_def using core_in [of cs cs'] core_members by (metis (no_types, lifting))

lemma rows_load:
  assumes "rows_related P st st'"
  shows "map load_of (po_setups st') = map load_of (po_setups st)" "\<forall>s \<in> set (po_setups st). risk_ok s \<Longrightarrow> \<forall>s \<in> set (po_setups st'). risk_ok s"
proof -
  have "list_all2 (\<lambda>s s'. load_of s' = load_of s) (po_setups st) (po_setups st')"
    using assms unfolding rows_related_def by (rule list_all2_mono) (auto simp: load_of_def legs_of_def)
  then show "map load_of (po_setups st') = map load_of (po_setups st)" by (induction rule: list_all2_induct) simp_all
  assume ok: "\<forall>s \<in> set (po_setups st). risk_ok s"
  show "\<forall>s \<in> set (po_setups st'). risk_ok s"
  proof
    fix s' assume "s' \<in> set (po_setups st')"
    then obtain s f where "s \<in> set (po_setups st)" "s' = s\<lparr>sr_facts := f\<rparr>" "P s s'" using assms by (elim rows_back)
    then show "risk_ok s'" using ok by (simp add: risk_ok_def)
  qed
qed

lemma same_last_state: "same_admissions s s' \<Longrightarrow> last_state t s' = last_state t s"
  by (simp add: same_admissions_def last_state_def)

lemma stamped_same:
  assumes "rows_related same_admissions st st'" "po_next_id st \<le> po_next_id st'" "stamped t st"
  shows "stamped t st'"
  unfolding stamped_def
proof (intro ballI)
  fix s' a assume "s' \<in> set (po_setups st')" and a: "a \<in> set (rf_admissions (sr_facts s'))"
  then obtain s f where "s \<in> set (po_setups st)" "s' = s\<lparr>sr_facts := f\<rparr>" "same_admissions s s'" using assms(1) by (elim rows_back)
  then show "ad_occurred_at a \<le> t \<and> ad_id a < po_next_id st'" using assms(2,3) a unfolding stamped_def same_admissions_def by fastforce
qed

lemma cohorts_ok_select:
  assumes ok: "cohorts_ok t next cs" and c: "c \<in> set cs" and row: "sl_id row = next" "sl_selected_at row = t" "set (sl_members row) \<subseteq> members_of c"
  shows "cohorts_ok t (next + 1) (map (\<lambda>k. if ch_id k = ch_id c then c\<lparr>ch_selections := ch_selections c @ [row]\<rparr> else k) cs)"
    (is "cohorts_ok t _ (map ?swap cs)")
proof -
  have only: "k = c" if "k \<in> set cs" "ch_id k = ch_id c" for k
    using that c ok unfolding cohorts_ok_def by (metis distinct_map inj_onD)
  have same: "members_of (?swap k) = members_of k" "ch_id (?swap k) = ch_id k" if "k \<in> set cs" for k
    using only [OF that] by (auto simp: members_of_def)
  have ids: "map ch_id (map ?swap cs) = map ch_id cs" using same(2) by simp
  have "ch_id k < next \<and> (\<forall>x \<in> set (ch_selections k). sl_selected_at x \<le> t \<and> sl_id x < next \<and> set (sl_members x) \<subseteq> members_of k)"
    if "k \<in> set cs" for k using ok that unfolding cohorts_ok_def by blast
  then have one: "ch_id (?swap k) < next + 1 \<and> (\<forall>x \<in> set (ch_selections (?swap k)). sl_selected_at x \<le> t \<and> sl_id x < next + 1 \<and>
      set (sl_members x) \<subseteq> members_of (?swap k))" if k: "k \<in> set cs" for k
    unfolding same(1) [OF k] same(2) [OF k] using only [OF k] row k by fastforce
  have two: "ch_id (?swap k) = ch_id (?swap d)" if "k \<in> set cs" "d \<in> set cs" "members_of (?swap k) \<inter> members_of (?swap d) \<noteq> {}" for k d
    using that(3) ok that(1,2) unfolding same(1) [OF that(1)] same(1) [OF that(2)] same(2) [OF that(1)] same(2) [OF that(2)]
    unfolding cohorts_ok_def by blast
  have "distinct (map ch_id cs)" using ok unfolding cohorts_ok_def by blast
  then show ?thesis unfolding cohorts_ok_def ids set_map ball_simps using one two by blast
qed

text \<open>Operations that only change facts, no admission and no cohort but its closure, keep the invariant.\<close>

lemma portfolio_ok_quiet:
  assumes "portfolio_ok t st" "rows_related same_admissions st st'" "closure_only st st'"
  shows "portfolio_ok t st'"
proof -
  have rows: "linked t (po_cohorts st') s' \<and> (\<forall>a \<in> set (rf_admissions (sr_facts s')). ad_occurred_at a \<le> t \<and> ad_id a < po_next_id st')"
    if inside: "s' \<in> set (po_setups st')" for s'
  proof -
    obtain s f where s: "s \<in> set (po_setups st)" "s' = s\<lparr>sr_facts := f\<rparr>" "same_admissions s s'"
      using assms(2) inside by (elim rows_back)
    have "linked t (po_cohorts st') s'"
      using linked_core [of t "po_cohorts st" s "po_cohorts st'" s'] assms(1,3) s same_last_state [OF s(3)]
      by (simp add: portfolio_ok_def closure_only_def)
    then show ?thesis using assms(1,3) s unfolding portfolio_ok_def stamped_def closure_only_def same_admissions_def by fastforce
  qed
  have "distinct (map setup_id (po_setups st'))" using rows_ids [OF assms(2)] assms(1) by (simp add: portfolio_ok_def)
  then show ?thesis
    using rows rows_load(2) [OF assms(2)] cohorts_ok_core [of t "po_next_id st" "po_cohorts st" "po_cohorts st'" "po_next_id st'"] assms(1,3)
    unfolding portfolio_ok_def stamped_def closure_only_def by blast
qed

section \<open>A recorded selection\<close>

lemma latest_selection_append:
  assumes "\<forall>x \<in> set (ch_selections c). sl_selected_at x \<le> t \<and> sl_id x < i" "sl_id row = i" "sl_selected_at row = t"
  shows "latest_selection_row (c\<lparr>ch_selections := ch_selections c @ [row]\<rparr>) = Some row"
proof -
  let ?k = "\<lambda>s. (sl_selected_at s, sl_id s)"
  let ?xs = "ch_selections c @ [row]"
  obtain m where m: "first_max_by ?k ?xs = Some m" by (cases ?xs) auto
  then have "m \<in> set ?xs" "?k row \<le> ?k m" using first_max_by_Some [OF m] by auto
  then have "m = row" using assms by force
  then show ?thesis using m by (simp add: latest_selection_row_def)
qed

lemma chosen_members: "cohorts_ok t n cs \<Longrightarrow> c \<in> set cs \<Longrightarrow> chosen c \<subseteq> members_of c"
  using first_max_by_Some unfolding chosen_def latest_selection_row_def cohorts_ok_def by (fastforce split: option.splits)

text \<open>The statements of \<open>record_selection\<close>, one after the other.\<close>

lemma record_selection_steps:
  assumes "record_selection env n selected mode supersedes key st = Inr (row, st')" "find_cohort n st = Some c"
  obtains st1 st2 st3 st4 where
    "row = \<lparr>sl_id = po_next_id st, sl_supersedes = map_option sl_id supersedes, sl_mode = mode, sl_key = key,
        sl_selected_at = pv_now env, sl_members = sort (remdups selected)\<rparr>"
    "st1 = set_cohort (c\<lparr>ch_selections := ch_selections c @ [row]\<rparr>) (st\<lparr>po_next_id := po_next_id st + 1\<rparr>)"
    "run_all (record_admission env Admitted)
       (filter (\<lambda>k. k \<notin> (case supersedes of None \<Rightarrow> {} | Some s \<Rightarrow> set (sl_members s))) (sort (remdups selected))) st1 = Inr st2"
    "run_all (record_admission env Revoked)
       (sort (remdups (filter (\<lambda>k. k \<notin> set selected) (case supersedes of None \<Rightarrow> [] | Some s \<Rightarrow> sl_members s)))) st2 = Inr st3"
    "run_all (settle_member env (sort (remdups selected))) (ch_members c) st3 = Inr st4"
    "st' = st4 \<or> close_stored_cohort env ''selection_recorded'' None (pv_now env) n st4 = Inr st'"
proof -
  let ?row = "\<lparr>sl_id = po_next_id st, sl_supersedes = map_option sl_id supersedes, sl_mode = mode, sl_key = key,
        sl_selected_at = pv_now env, sl_members = sort (remdups selected)\<rparr>"
  let ?st1 = "set_cohort (c\<lparr>ch_selections := ch_selections c @ [?row]\<rparr>) (st\<lparr>po_next_id := po_next_id st + 1\<rparr>)"
  have prev: "set (case supersedes of None \<Rightarrow> [] | Some s \<Rightarrow> sl_members s) = (case supersedes of None \<Rightarrow> {} | Some s \<Rightarrow> set (sl_members s))"
    by (simp split: option.split)
  note run = assms(1) [unfolded record_selection_def assms(2) option.case take_id_def Let_def prod.case prev set_sort set_remdups]
  obtain st2 where 2: "run_all (record_admission env Admitted)
       (filter (\<lambda>k. k \<notin> (case supersedes of None \<Rightarrow> {} | Some s \<Rightarrow> set (sl_members s))) (sort (remdups selected))) ?st1 = Inr st2"
    using run by (auto split: sum.splits)
  obtain st3 where 3: "run_all (record_admission env Revoked)
       (sort (remdups (filter (\<lambda>k. k \<notin> set selected) (case supersedes of None \<Rightarrow> [] | Some s \<Rightarrow> sl_members s)))) st2 = Inr st3"
    using run [unfolded 2 sum.case] by (auto split: sum.splits)
  obtain st4 where 4: "run_all (settle_member env (sort (remdups selected))) (ch_members c) st3 = Inr st4"
    using run [unfolded 2 3 sum.case] by (auto split: sum.splits)
  have "row = ?row \<and> (st' = st4 \<or> close_stored_cohort env ''selection_recorded'' None (pv_now env) n st4 = Inr st')"
    using run [unfolded 2 3 4 sum.case] by (auto split: if_splits simp: map_sum_def split: sum.splits)
  then show ?thesis using 2 3 4 that [of ?st1 st2 st3 st4] by simp
qed

lemma set_cohort_setups [simp]: "po_setups (set_cohort c st) = po_setups st" "po_next_id (set_cohort c st) = po_next_id st"
  by (simp_all add: set_cohort_def)

lemma find_cohort_core:
  "map core (po_cohorts st') = map core (po_cohorts st) \<Longrightarrow> find_cohort n st = Some c \<Longrightarrow> \<exists>c'. find_cohort n st' = Some c' \<and> core c' = core c"
proof -
  have "map core cs' = map core cs \<Longrightarrow> List.find (\<lambda>c. ch_id c = n) cs = Some c \<Longrightarrow> \<exists>c'. List.find (\<lambda>c. ch_id c = n) cs' = Some c' \<and> core c' = core c" for cs cs'
  proof (induction cs arbitrary: cs')
    case (Cons d cs)
    then obtain d' ds where "cs' = d' # ds" "core d' = core d" "map core ds = map core cs" by auto
    then show ?case using Cons core_members [of d' d] by (auto split: if_splits)
  qed simp
  then show "map core (po_cohorts st') = map core (po_cohorts st) \<Longrightarrow> find_cohort n st = Some c \<Longrightarrow> \<exists>c'. find_cohort n st' = Some c' \<and> core c' = core c"
    by (simp add: find_cohort_def)
qed

text \<open>After the selection an admitted setup is selected, or it belongs to another cohort and its row is
  unchanged.\<close>

lemma record_selection_effect:
  assumes ok: "portfolio_ok (pv_now env) st" and c: "find_cohort n st = Some c" and sel: "set selected \<subseteq> members_of c"
    and run: "record_selection env n selected mode (latest_selection_row c) key st = Inr (row, st')"
  shows "portfolio_ok (pv_now env) st' \<and> rows_related (only (members_of c)) st st' \<and>
    (\<forall>s \<in> set (po_setups st'). last_state (pv_now env) s = Some Admitted \<longrightarrow>
       setup_id s \<in> set selected \<or> setup_id s \<notin> members_of c \<and> s \<in> set (po_setups st))"
proof -
  let ?t = "pv_now env"
  obtain st1 st2 st3 st4 where row: "sl_id row = po_next_id st" "sl_selected_at row = ?t" "sl_members row = sort (remdups selected)"
    and st1: "st1 = set_cohort (c\<lparr>ch_selections := ch_selections c @ [row]\<rparr>) (st\<lparr>po_next_id := po_next_id st + 1\<rparr>)"
    and 2: "run_all (record_admission env Admitted) (filter (\<lambda>k. k \<notin> chosen c) (sort (remdups selected))) st1 = Inr st2"
    and 3: "run_all (record_admission env Revoked)
       (sort (remdups (filter (\<lambda>k. k \<notin> set selected) (case latest_selection_row c of None \<Rightarrow> [] | Some s \<Rightarrow> sl_members s)))) st2 = Inr st3"
    and 4: "run_all (settle_member env (sort (remdups selected))) (ch_members c) st3 = Inr st4"
    and 5: "st' = st4 \<or> close_stored_cohort env ''selection_recorded'' None ?t n st4 = Inr st'"
    using run c by (rule record_selection_steps) (simp add: chosen_def)
  let ?revoked = "sort (remdups (filter (\<lambda>k. k \<notin> set selected) (case latest_selection_row c of None \<Rightarrow> [] | Some s \<Rightarrow> sl_members s)))"
  have revoked: "set ?revoked = chosen c - set selected" by (auto simp: chosen_def split: option.split)
  have cs: "cohorts_ok ?t (po_next_id st) (po_cohorts st)" and cin: "c \<in> set (po_cohorts st)" and cid: "ch_id c = n"
    using ok find_cohort_SomeD [OF c] by (auto simp: portfolio_ok_def)
  have prev: "chosen c \<subseteq> members_of c" by (rule chosen_members [OF cs cin])
  have d: "distinct (map setup_id (po_setups st1))" using ok by (simp add: st1 portfolio_ok_def)
  have stamp: "stamped ?t st1" using ok by (fastforce simp: st1 portfolio_ok_def stamped_def)
  note admitted = run_admissions_frame [OF 2 d stamp]
  have d2: "distinct (map setup_id (po_setups st2))" using rows_ids admitted d by metis
  note revoke = run_admissions_frame [OF 3 d2] 
  have adm2: "stamped ?t st2" "rows_related (only (set selected - chosen c)) st1 st2" "same_cohorts st1 st2"
    using admitted by (auto elim!: only_rows_mono)
  have adm3: "stamped ?t st3" "rows_related (only (chosen c - set selected)) st2 st3" "same_cohorts st2 st3"
    "\<forall>s \<in> set (po_setups st3). setup_id s \<in> chosen c - set selected \<longrightarrow> last_state ?t s = Some Revoked"
    using revoke [OF adm2(1)] unfolding revoked by auto
  have d3: "distinct (map setup_id (po_setups st3))" using rows_ids adm3(2) d2 by metis
  have settle: "settles (members_of c) st3 st4"
    using 4 d3 by (rule run_settles) (auto intro: settle_member_settles simp: members_of_def)
  have d4: "distinct (map setup_id (po_setups st4))" by (rule settles_distinct [OF settle d3])
  have cohorts4: "po_cohorts st4 = po_cohorts st1" using adm2 adm3 settle by (simp add: same_cohorts_def settles_def)
  have cores1: "\<exists>c1. find_cohort n st1 = Some c1 \<and> ch_members c1 = ch_members c"
  proof -
    have "List.find (\<lambda>k. ch_id k = n) cs = Some c \<Longrightarrow> \<exists>c1. List.find (\<lambda>k. ch_id k = n) (map (\<lambda>k. if ch_id k = ch_id c
        then c\<lparr>ch_selections := ch_selections c @ [row]\<rparr> else k) cs) = Some c1 \<and> ch_members c1 = ch_members c" for cs
      by (induction cs) (auto simp: cid split: if_splits)
    then show ?thesis using c by (simp add: find_cohort_def st1 set_cohort_def)
  qed
  have ids1: "map ch_id (po_cohorts st1) = map ch_id (po_cohorts st)" by (auto simp: st1 set_cohort_def)
  have last: "rows_related (only (members_of c)) st4 st' \<and> rows_related same_admissions st4 st' \<and> closure_only st4 st'"
    using 5
  proof
    assume "st' = st4"
    then show ?thesis by (simp add: rows_related_refl rows_refl closure_only_refl)
  next
    assume close: "close_stored_cohort env ''selection_recorded'' None ?t n st4 = Inr st'"
    have "distinct (map ch_id (po_cohorts st4))" using cs unfolding cohorts4 ids1 cohorts_ok_def by blast
    note frame = close_stored_cohort_frame [OF close d4 this]
    obtain c1 where "find_cohort n st4 = Some c1" "ch_members c1 = ch_members c"
      using cores1 cohorts4 by (auto simp: find_cohort_def)
    then have "rows_related (only (members_of c)) st4 st'" using frame by (auto simp: members_of_def)
    then show ?thesis using frame rows_related_mono [of "calm ?t" st4 st' same_admissions]
      by (auto simp: calm_def same_admissions_def)
  qed
  have sub: "set selected - chosen c \<subseteq> members_of c" "chosen c - set selected \<subseteq> members_of c" using sel prev by blast+
  have from_st: "rows_related P st1 q = rows_related P st q" for P q by (simp add: rows_related_def st1)
  have rows: "rows_related (only (members_of c)) st st'"
    using only_rows_mono [OF adm2(2) sub(1)] only_rows_mono [OF adm3(2) sub(2)] settle last
    unfolding from_st [symmetric] settles_def by (blast intro: only_rows_trans)
  have same34: "rows_related same_admissions st3 st'"
    using settle last unfolding settles_def by (blast intro: admission_rows_trans)
  have outside: "setup_id s \<notin> members_of c \<and> s \<in> set (po_setups st)"
    if s: "s \<in> set (po_setups st')" "last_state ?t s = Some Admitted" "setup_id s \<notin> set selected" for s
  proof -
    obtain q f where q: "q \<in> set (po_setups st3)" "s = q\<lparr>sr_facts := f\<rparr>" "same_admissions q s" using same34 s(1) by (elim rows_back)
    have lq: "last_state ?t q = Some Admitted" "setup_id q = setup_id s" using s(2) q same_last_state [OF q(3)] by simp_all
    then have no: "setup_id s \<notin> chosen c" using adm3(4) q(1) s(3) by fastforce
    obtain q2 f2 where q2: "q2 \<in> set (po_setups st2)" "q = q2\<lparr>sr_facts := f2\<rparr>" "only (chosen c - set selected) q2 q"
      using adm3(2) q(1) by (elim rows_back)
    then have "q = q2" using no lq(2) by (simp add: only_def)
    obtain q1 f1 where q1: "q1 \<in> set (po_setups st1)" "q2 = q1\<lparr>sr_facts := f1\<rparr>" "only (set selected - chosen c) q1 q2"
      using adm2(2) q2(1) by (elim rows_back)
    then have "q2 = q1" using s(3) lq(2) \<open>q = q2\<close> by (simp add: only_def)
    then have "q \<in> set (po_setups st)" using q1(1) \<open>q = q2\<close> by (simp add: st1)
    then obtain e where e: "e \<in> set (po_cohorts st)" "setup_id s \<in> members_of e \<inter> chosen e"
      using ok lq by (auto simp: portfolio_ok_def linked_def)
    have "setup_id s \<notin> members_of c"
    proof
      assume "setup_id s \<in> members_of c"
      then have "ch_id e = ch_id c" using cs e cin unfolding cohorts_ok_def by blast
      then have "e = c" using cs e(1) cin unfolding cohorts_ok_def by (metis distinct_map inj_onD)
      then show False using e(2) no by simp
    qed
    moreover obtain r g where "r \<in> set (po_setups st)" "s = r\<lparr>sr_facts := g\<rparr>" "only (members_of c) r s" using rows s(1) by (elim rows_back)
    ultimately show ?thesis by (auto simp: only_def)
  qed
  have next1: "po_next_id st1 = po_next_id st + 1" by (simp add: st1)
  have later: "po_next_id st1 \<le> po_next_id st'" "po_next_id st3 \<le> po_next_id st'"
    using adm2(3) adm3(3) settle last by (auto simp: same_cohorts_def closure_only_def settles_def)
  have cores: "map core (po_cohorts st') = map core (po_cohorts st1)" using last cohorts4 by (simp add: closure_only_def)
  have "cohorts_ok ?t (po_next_id st1) (po_cohorts st1)"
    using cohorts_ok_select [OF cs cin row(1,2)] sel row(3) by (simp add: next1) (simp add: st1 set_cohort_def)
  then have cs': "cohorts_ok ?t (po_next_id st') (po_cohorts st')" by (rule cohorts_ok_core [OF _ cores later(1)])
  have link: "linked ?t (po_cohorts st') s" if s: "s \<in> set (po_setups st')" for s
  proof (rule linked_core [OF _ cores refl refl])
    show "linked ?t (po_cohorts st1) s"
      unfolding linked_def
    proof
      assume a: "last_state ?t s = Some Admitted"
      show "\<exists>c \<in> set (po_cohorts st1). setup_id s \<in> members_of c \<inter> chosen c"
      proof (cases "setup_id s \<in> set selected")
        case True
        let ?c = "c\<lparr>ch_selections := ch_selections c @ [row]\<rparr>"
        have "?c \<in> set (po_cohorts st1)" using cin by (auto simp: st1 set_cohort_def)
        moreover have "latest_selection_row ?c = Some row"
          using cs cin row(1,2) by (intro latest_selection_append [where t = ?t and i = "po_next_id st"]) (auto simp: cohorts_ok_def)
        ultimately show ?thesis using True sel row(3) by (intro bexI [of _ ?c]) (auto simp: chosen_def members_of_def)
      next
        case False
        note o = outside [OF s a False]
        then obtain e where e: "e \<in> set (po_cohorts st)" "setup_id s \<in> members_of e \<inter> chosen e"
          using ok a by (auto simp: portfolio_ok_def linked_def)
        have "ch_id e \<noteq> ch_id c"
        proof
          assume "ch_id e = ch_id c"
          then have "e = c" using cs e(1) cin unfolding cohorts_ok_def by (metis distinct_map inj_onD)
          then show False using e(2) o by simp
        qed
        then have "e \<in> set (po_cohorts st1)" using e(1) by (auto simp: st1 set_cohort_def)
        then show ?thesis using e(2) by blast
      qed
    qed
  qed
  have "distinct (map setup_id (po_setups st'))" "\<forall>s \<in> set (po_setups st'). risk_ok s"
    using rows_ids [OF rows] rows_load(2) [OF rows] ok by (simp_all add: portfolio_ok_def)
  then show ?thesis
    using stamped_same [OF same34 later(2) adm3(1)] cs' link rows outside by (auto simp: portfolio_ok_def)
qed

section \<open>The portfolio stays within its caps\<close>

definition active_loads :: "instant \<Rightarrow> portfolio \<Rightarrow> load list" where
  "active_loads t st = map load_of (active_admitted [] t st)"

lemma admitted_last: "admitted_at t s \<longleftrightarrow> last_state t s = Some Admitted"
  by (simp add: admitted_at_def last_state_def)

lemma load_weight: "risk_ok s \<Longrightarrow> 0 \<le> weight (load_of s)"
  by (auto simp: risk_ok_def weight_def load_of_def split: option.split)

lemma active_distinct:
  assumes "distinct (map setup_id (po_setups st))"
  shows "distinct (active_loads t st)"
proof -
  have "distinct (map fst (map load_of xs))" if "distinct (map setup_id xs)" for xs
    using that by (simp add: load_of_def comp_def)
  then have "distinct (map load_of xs)" if "distinct (map setup_id xs)" for xs using that distinct_map by blast
  moreover have "distinct (map setup_id (filter P xs))" if "distinct (map setup_id xs)" for P and xs :: "setup_row list"
    using that by (induction xs) auto
  ultimately show ?thesis using assms unfolding active_loads_def active_admitted_def by blast
qed

text \<open>The active setups are within the caps when each of them is one of these rows.\<close>

lemma active_within:
  assumes "portfolio_ok t st" "within_caps (map load_of rows)" "\<forall>s \<in> set rows. risk_ok s"
    and "\<And>s. s \<in> set (po_setups st) \<Longrightarrow> last_state t s = Some Admitted \<Longrightarrow> carries_risk t s \<Longrightarrow> load_of s \<in> load_of ` set rows"
  shows "within_caps (active_loads t st)"
proof (rule within_caps_subset [OF assms(2)])
  show "\<forall>k \<in> set (map load_of rows). 0 \<le> weight k" using assms(3) load_weight by auto
  show "distinct (active_loads t st)" using assms(1) active_distinct by (simp add: portfolio_ok_def)
  show "set (active_loads t st) \<subseteq> set (map load_of rows)"
    using assms(4) by (auto simp: active_loads_def active_admitted_def admitted_last)
qed

text \<open>Calm operations keep both.\<close>

lemma calm_same: "rows_related (calm t) st st' \<Longrightarrow> rows_related same_admissions st st'"
  by (erule rows_related_mono) (simp add: calm_def same_admissions_def)

lemma calm_active:
  assumes "rows_related (calm t) st st'" "s' \<in> set (po_setups st')" "last_state t s' = Some Admitted" "carries_risk t s'"
  obtains s where "s \<in> set (po_setups st)" "load_of s = load_of s'" "setup_id s = setup_id s'"
    "last_state t s = Some Admitted" "carries_risk t s"
proof -
  obtain s f where s: "s \<in> set (po_setups st)" "s' = s\<lparr>sr_facts := f\<rparr>" "calm t s s'" using assms(1,2) by (elim rows_back)
  then have "load_of s = load_of s'" "setup_id s = setup_id s'" "last_state t s = Some Admitted" "carries_risk t s"
    using assms(3,4) by (simp_all add: load_of_def legs_of_def calm_def last_state_def)
  then show ?thesis by (rule that [OF s(1)])
qed

lemma calm_within:
  assumes "portfolio_ok t st" "rows_related (calm t) st st'" "closure_only st st'" "within_caps (active_loads t st)"
  shows "portfolio_ok t st' \<and> within_caps (active_loads t st')"
proof -
  have ok: "portfolio_ok t st'" using portfolio_ok_quiet assms calm_same by blast
  moreover have "within_caps (active_loads t st')"
  proof (rule active_within [OF ok])
    show "within_caps (map load_of (active_admitted [] t st))" using assms(4) by (simp add: active_loads_def)
    show "\<forall>s \<in> set (active_admitted [] t st). risk_ok s" using assms(1) by (auto simp: portfolio_ok_def active_admitted_def)
    fix s' assume "s' \<in> set (po_setups st')" "last_state t s' = Some Admitted" "carries_risk t s'"
    then obtain s where "s \<in> set (po_setups st)" "load_of s = load_of s'" "last_state t s = Some Admitted" "carries_risk t s"
      using assms(2) by (elim calm_active)
    then show "load_of s' \<in> load_of ` set (active_admitted [] t st)"
      by (intro image_eqI [of _ _ s]) (simp_all add: active_admitted_def admitted_last)
  qed
  ultimately show ?thesis ..
qed

lemma find_setup_in:
  "distinct (map setup_id (po_setups st)) \<Longrightarrow> s \<in> set (po_setups st) \<Longrightarrow> find_setup (setup_id s) st = Some s"
proof -
  have "distinct (map setup_id xs) \<Longrightarrow> s \<in> set xs \<Longrightarrow> List.find (\<lambda>k. setup_id k = setup_id s) xs = Some s" for xs
    by (induction xs) force+
  then show "distinct (map setup_id (po_setups st)) \<Longrightarrow> s \<in> set (po_setups st) \<Longrightarrow> find_setup (setup_id s) st = Some s"
    by (simp add: find_setup_def)
qed

lemma selected_setups:
  "set (List.map_filter (\<lambda>m. if mb_rec m \<in> S then find_setup (mb_rec m) st else None) ms) \<subseteq> set (po_setups st)"
  by (induction ms) (auto simp: List.map_filter_simps dest: find_setup_SomeD split: option.splits)

lemma map_filter_in: "m \<in> set ms \<Longrightarrow> f m = Some s \<Longrightarrow> s \<in> set (List.map_filter f ms)"
  by (induction ms) (auto simp: List.map_filter_simps split: option.split)

text \<open>The owner's selection.\<close>

lemma select_within:
  assumes ok: "portfolio_ok (pv_now env) st" and within: "within_caps (active_loads (pv_now env) st)"
    and run: "select_portfolio_cohort env owner n wanted st = Inr (row, st')"
  shows "portfolio_ok (pv_now env) st' \<and> within_caps (active_loads (pv_now env) st')"
proof (cases "st' = st")
  case False
  let ?t = "pv_now env"
  let ?sel = "sort (remdups wanted)"
  obtain c where c: "find_cohort n st = Some c" using run by (auto simp: select_portfolio_cohort_def split: if_splits option.splits)
  let ?rows = "active_admitted (map mb_rec (ch_members c)) ?t st @
      List.map_filter (\<lambda>m. if mb_rec m \<in> set ?sel then find_setup (mb_rec m) st else None) (ch_members c)"
  have sub: "set ?sel \<subseteq> members_of c" and fit: "fits ?rows = Some True"
    and rec: "\<exists>key. record_selection env n ?sel OwnerSelected (latest_selection_row c) key st = Inr (row, st')"
    using run c False by (auto simp: select_portfolio_cohort_def Let_def members_of_def split: if_splits option.splits)
  obtain key where key: "record_selection env n ?sel OwnerSelected (latest_selection_row c) key st = Inr (row, st')" using rec by blast
  note effect = record_selection_effect [OF ok c sub key]
  have "set ?rows \<subseteq> set (po_setups st)"
    using selected_setups [of "set ?sel" st "ch_members c"] by (auto simp: active_admitted_def)
  then have risks: "\<forall>s \<in> set ?rows. risk_ok s" using ok by (auto simp: portfolio_ok_def)
  have "within_caps (active_loads ?t st')"
  proof (rule active_within)
    show "portfolio_ok ?t st'" using effect by blast
    show "within_caps (map load_of ?rows)" using fits_iff [OF risks] fit by blast
    show "\<forall>s \<in> set ?rows. risk_ok s" by (rule risks)
    fix s' assume s': "s' \<in> set (po_setups st')" "last_state ?t s' = Some Admitted" "carries_risk ?t s'"
    obtain s f where s: "s \<in> set (po_setups st)" "s' = s\<lparr>sr_facts := f\<rparr>" "only (members_of c) s s'"
      using effect s'(1) by (blast elim: rows_back)
    have load: "load_of s' = load_of s" by (simp add: s(2) load_of_def legs_of_def)
    show "load_of s' \<in> load_of ` set ?rows"
    proof (cases "setup_id s' \<in> set ?sel")
      case True
      then obtain m where m: "m \<in> set (ch_members c)" "mb_rec m = setup_id s" using sub s(2) by (auto simp: members_of_def)
      have "find_setup (setup_id s) st = Some s" using ok s(1) by (intro find_setup_in) (simp_all add: portfolio_ok_def)
      then have "s \<in> set ?rows" using m True s(2) by (auto intro!: map_filter_in [of m])
      then show ?thesis using load by blast
    next
      case False
      then have o: "setup_id s' \<notin> members_of c" "s' \<in> set (po_setups st)" using effect s' by blast+
      then have "s' \<in> set ?rows" using s' by (simp add: active_admitted_def admitted_last members_of_def)
      then show ?thesis by blast
    qed
  qed
  then show ?thesis using effect by blast
qed (use ok within in simp)

text \<open>A batch: screening is calm, and so are the members' transitions and the closures.\<close>

lemma portfolio_distinct: "portfolio_ok t st \<Longrightarrow> distinct (map setup_id (po_setups st))"
  "portfolio_ok t st \<Longrightarrow> distinct (map ch_id (po_cohorts st))"
  by (simp_all add: portfolio_ok_def cohorts_ok_def)

definition calm_step :: "instant \<Rightarrow> portfolio \<Rightarrow> portfolio \<Rightarrow> bool" where
  "calm_step t st st' \<longleftrightarrow> rows_related (calm t) st st' \<and> closure_only st st'"

lemma calm_step_refl: "calm_step t st st"
  by (simp add: calm_step_def rows_related_refl calm_refl closure_only_refl)

lemma calm_step_trans: "calm_step t st st' \<Longrightarrow> calm_step t st' st'' \<Longrightarrow> calm_step t st st''"
  unfolding calm_step_def using calm_rows_trans closure_only_trans by blast

lemma calm_step_ok: "portfolio_ok t st \<Longrightarrow> calm_step t st st' \<Longrightarrow> portfolio_ok t st'"
  unfolding calm_step_def using portfolio_ok_quiet calm_same by blast

lemma transition_calm_step:
  "transition_setup env state reason source occurred n st = Inr st' \<Longrightarrow> portfolio_ok t st \<Longrightarrow> state \<noteq> AdmittedAwaitingEntry
     \<Longrightarrow> calm_step t st st'"
  unfolding calm_step_def using transition_setup_frame same_cohorts_closure portfolio_distinct(1) by blast

lemma close_calm_step:
  "close_stored_cohort env reason superseding as_of n st = Inr st' \<Longrightarrow> portfolio_ok t st \<Longrightarrow> calm_step t st st'"
  unfolding calm_step_def using close_stored_cohort_frame portfolio_distinct by blast

lemma run_calm:
  assumes "run_all f xs st = Inr st'" "portfolio_ok t st"
    and "\<And>x mid mid'. f x mid = Inr mid' \<Longrightarrow> portfolio_ok t mid \<Longrightarrow> calm_step t mid mid'"
  shows "calm_step t st st'"
proof -
  let ?R = "\<lambda>q. calm_step t st q \<and> portfolio_ok t q"
  have "?R st'" using assms(1)
  proof (rule run_all_relates [where R = ?R])
    show "?R st" using assms(2) calm_step_refl by blast
  next
    fix x q q' assume "?R q" "f x q = Inr q'"
    then show "?R q'" using assms(3) calm_step_trans calm_step_ok by blast
  qed
  then show ?thesis ..
qed

lemma screen_calm:
  assumes "run_all (screen_setup env generated_at) ids acc = Inr acc'" "portfolio_ok t (snd acc)"
  shows "calm_step t (snd acc) (snd acc')"
proof -
  let ?R = "\<lambda>q. calm_step t (snd acc) (snd q) \<and> portfolio_ok t (snd q)"
  have "?R acc'" using assms(1)
  proof (rule run_all_relates [where R = ?R])
    show "?R acc" using assms(2) calm_step_refl by blast
  next
    fix n q q' assume q: "?R q" "screen_setup env generated_at n q = Inr q'"
    have "calm_step t (snd q) (snd q')"
      using q transition_calm_step [of env PortfolioIneligible _ _ _ n "snd q" "snd q'" t]
      by (cases q) (auto simp: screen_setup_def map_sum_def calm_step_refl split: option.splits if_splits sum.splits)
    then show "?R q'" using q(1) calm_step_trans calm_step_ok by blast
  qed
  then show ?thesis ..
qed

text \<open>Adding members.\<close>

lemma cohorts_ok_member:
  assumes ok: "cohorts_ok t next cs" and c: "c \<in> set cs" and fresh: "\<forall>d \<in> set cs. mb_rec m \<notin> members_of d"
  shows "cohorts_ok t (next + 1) (map (\<lambda>k. if ch_id k = ch_id c then c\<lparr>ch_members := ch_members c @ [m]\<rparr> else k) cs)"
    (is "cohorts_ok t _ (map ?swap cs)")
proof -
  have only: "k = c" if "k \<in> set cs" "ch_id k = ch_id c" for k
    using that c ok unfolding cohorts_ok_def by (metis distinct_map inj_onD)
  have same: "members_of (?swap k) = members_of k \<union> (if k = c then {mb_rec m} else {})" "ch_id (?swap k) = ch_id k"
    "ch_selections (?swap k) = ch_selections k" if "k \<in> set cs" for k
    using only [OF that] by (auto simp: members_of_def)
  have ids: "map ch_id (map ?swap cs) = map ch_id cs" using same(2) by simp
  have old: "ch_id k < next \<and> (\<forall>x \<in> set (ch_selections k). sl_selected_at x \<le> t \<and> sl_id x < next \<and> set (sl_members x) \<subseteq> members_of k)"
    if "k \<in> set cs" for k using ok that unfolding cohorts_ok_def by blast
  have one: "ch_id (?swap k) < next + 1 \<and> (\<forall>x \<in> set (ch_selections (?swap k)). sl_selected_at x \<le> t \<and> sl_id x < next + 1 \<and>
      set (sl_members x) \<subseteq> members_of (?swap k))" if k: "k \<in> set cs" for k
    unfolding same(1) [OF k] same(2) [OF k] same(3) [OF k] using old [OF k] by fastforce
  have two: "ch_id (?swap k) = ch_id (?swap d)" if kd: "k \<in> set cs" "d \<in> set cs" "members_of (?swap k) \<inter> members_of (?swap d) \<noteq> {}" for k d
  proof -
    have "k = d \<or> members_of k \<inter> members_of d \<noteq> {}"
      using kd(3) fresh kd(1,2) unfolding same(1) [OF kd(1)] same(1) [OF kd(2)] by (auto split: if_splits)
    then have "ch_id k = ch_id d" using ok kd(1,2) unfolding cohorts_ok_def by blast
    then show ?thesis unfolding same(2) [OF kd(1)] same(2) [OF kd(2)] .
  qed
  have "distinct (map ch_id cs)" using ok unfolding cohorts_ok_def by blast
  then show ?thesis unfolding cohorts_ok_def ids set_map ball_simps using one two by blast
qed

lemma linked_grow:
  assumes "linked t cs s" "\<And>c. c \<in> set cs \<Longrightarrow> \<exists>d \<in> set ds. members_of c \<subseteq> members_of d \<and> chosen c = chosen d"
  shows "linked t ds s"
  unfolding linked_def
proof
  assume "last_state t s = Some Admitted"
  then obtain c where c: "c \<in> set cs" "setup_id s \<in> members_of c" "setup_id s \<in> chosen c" using assms(1) by (auto simp: linked_def)
  then obtain d where "d \<in> set ds" "members_of c \<subseteq> members_of d" "chosen c = chosen d" using assms(2) by blast
  then show "\<exists>c \<in> set ds. setup_id s \<in> members_of c \<inter> chosen c" using c by blast
qed

lemma add_member_ok:
  assumes "add_member env n s st = Inr st'" "portfolio_ok t st" "find_cohort n st = Some c"
  shows "portfolio_ok t st' \<and> rows_related (calm t) st st' \<and>
    (\<exists>c'. find_cohort n st' = Some c' \<and> ch_selections c' = ch_selections c \<and> members_of c' = insert (setup_id s) (members_of c))"
proof -
  obtain advice where a: "sr_size s = Some advice" using assms(1) by (auto simp: add_member_def split: option.splits)
  let ?m = "\<lparr>mb_id = po_next_id st, mb_rec = setup_id s, mb_risk = sa_risk advice, mb_legs = legs_of s\<rparr>"
  let ?c = "c\<lparr>ch_members := ch_members c @ [?m]\<rparr>"
  let ?mid = "set_cohort ?c (st\<lparr>po_next_id := po_next_id st + 1\<rparr>)"
  have new: "\<not> assessed_already (setup_id s) st" and run: "if rec_version (sr_rec s) = 4
      then transition_setup env AwaitingOwner ''cohort_member'' (FromMember (po_next_id st)) None (setup_id s) ?mid = Inr st'
      else st' = ?mid"
    using assms(1) a assms(3) by (auto simp: add_member_def take_id_def Let_def split: if_splits)
  have cin: "c \<in> set (po_cohorts st)" "ch_id c = n" using find_cohort_SomeD [OF assms(3)] by auto
  have cs: "cohorts_ok t (po_next_id st) (po_cohorts st)" using assms(2) by (simp add: portfolio_ok_def)
  have "\<forall>d \<in> set (po_cohorts st). mb_rec ?m \<notin> members_of d" using new by (fastforce simp: assessed_already_def list_ex_iff members_of_def)
  then have cs': "cohorts_ok t (po_next_id ?mid) (po_cohorts ?mid)"
    using cohorts_ok_member [OF cs cin(1), of ?m] by (simp add: set_cohort_def)
  have grow: "\<exists>e \<in> set (po_cohorts ?mid). members_of d \<subseteq> members_of e \<and> chosen d = chosen e" if d: "d \<in> set (po_cohorts st)" for d
  proof (cases "ch_id d = ch_id c")
    case True
    then have "d = c" using cs d cin(1) unfolding cohorts_ok_def by (metis distinct_map inj_onD)
    moreover have "?c \<in> set (po_cohorts ?mid)" using cin(1) by (auto simp: set_cohort_def)
    ultimately show ?thesis by (intro bexI [of _ ?c]) (auto simp: members_of_def chosen_def latest_selection_row_def)
  next
    case False
    then show ?thesis using d by (intro bexI [of _ d]) (auto simp: set_cohort_def)
  qed
  have "stamped t ?mid" using assms(2) unfolding portfolio_ok_def stamped_def by fastforce
  moreover have "linked t (po_cohorts ?mid) q" if "q \<in> set (po_setups st)" for q
  proof (rule linked_grow)
    show "linked t (po_cohorts st) q" using assms(2) that by (simp add: portfolio_ok_def)
  qed (rule grow)
  ultimately have ok: "portfolio_ok t ?mid"
    using assms(2) cs' by (simp add: portfolio_ok_def)
  have "List.find (\<lambda>k. ch_id k = n) xs = Some c \<Longrightarrow> List.find (\<lambda>k. ch_id k = n) (map (\<lambda>k. if ch_id k = ch_id ?c then ?c else k) xs) = Some ?c" for xs
    by (induction xs) (auto simp: cin(2) split: if_splits)
  then have found: "find_cohort n ?mid = Some ?c" using assms(3) by (simp add: find_cohort_def set_cohort_def)
  have "calm_step t ?mid st'"
    using run transition_calm_step [OF _ ok] calm_step_refl by (auto split: if_splits)
  then have fin: "portfolio_ok t st'" "rows_related (calm t) ?mid st'" "map core (po_cohorts st') = map core (po_cohorts ?mid)"
    using calm_step_ok [OF ok] by (auto simp: calm_step_def closure_only_def)
  obtain c' where "find_cohort n st' = Some c'" "core c' = core ?c" using find_cohort_core [OF fin(3) found] by blast
  then have "find_cohort n st' = Some c' \<and> ch_selections c' = ch_selections c \<and> members_of c' = insert (setup_id s) (members_of c)"
    using core_members [of c' ?c] by (auto simp: members_of_def)
  moreover have "rows_related (calm t) st st'" using fin(2) by (simp add: rows_related_def)
  ultimately show ?thesis using fin(1) by blast
qed

lemma add_members_ok:
  "run_all (add_member env n) rows st = Inr st' \<Longrightarrow> portfolio_ok t st \<Longrightarrow> find_cohort n st = Some c
    \<Longrightarrow> portfolio_ok t st' \<and> rows_related (calm t) st st' \<and>
    (\<exists>c'. find_cohort n st' = Some c' \<and> ch_selections c' = ch_selections c \<and> members_of c' = members_of c \<union> setup_id ` set rows)"
proof (induction rows arbitrary: st c)
  case Nil
  then show ?case by (simp add: rows_related_refl calm_refl)
next
  case (Cons s rows)
  obtain mid where mid: "add_member env n s st = Inr mid" "run_all (add_member env n) rows mid = Inr st'"
    using Cons.prems(1) by (auto split: sum.splits)
  obtain d where d: "portfolio_ok t mid" "rows_related (calm t) st mid" "find_cohort n mid = Some d" "ch_selections d = ch_selections c"
    "members_of d = insert (setup_id s) (members_of c)"
    using add_member_ok [OF mid(1) Cons.prems(2,3)] by blast
  then show ?case using Cons.IH [OF mid(2) d(1,3)] calm_rows_trans [OF d(2)] by auto
qed

lemma new_cohort_ok:
  assumes "portfolio_ok t st" "ch_id c = po_next_id st" "ch_members c = []" "ch_selections c = []"
    and st': "po_setups st' = po_setups st" "po_next_id st' = po_next_id st + 1" "po_cohorts st' = po_cohorts st @ [c]"
  shows "portfolio_ok t st' \<and> find_cohort (ch_id c) st' = Some c"
proof -
  have cs: "cohorts_ok t (po_next_id st) (po_cohorts st)" using assms(1) by (simp add: portfolio_ok_def)
  have fresh: "ch_id d < po_next_id st" if "d \<in> set (po_cohorts st)" for d using cs that unfolding cohorts_ok_def by blast
  then have notin: "ch_id c \<notin> ch_id ` set (po_cohorts st)" using assms(2) by force
  have none: "members_of c = {}" using assms(3) by (simp add: members_of_def)
  have ids: "distinct (map ch_id (po_cohorts st @ [c]))" using cs notin by (simp add: cohorts_ok_def)
  have rows: "\<forall>d \<in> set (po_cohorts st @ [c]). ch_id d < po_next_id st + 1 \<and>
      (\<forall>x \<in> set (ch_selections d). sl_selected_at x \<le> t \<and> sl_id x < po_next_id st + 1 \<and> set (sl_members x) \<subseteq> members_of d)"
    using cs assms(2,4) unfolding cohorts_ok_def by fastforce
  have "\<forall>d \<in> set (po_cohorts st @ [c]). \<forall>e \<in> set (po_cohorts st @ [c]). members_of d \<inter> members_of e \<noteq> {} \<longrightarrow> ch_id d = ch_id e"
    using cs none unfolding cohorts_ok_def by simp
  then have "cohorts_ok t (po_next_id st + 1) (po_cohorts st @ [c])"
    using ids rows unfolding cohorts_ok_def by blast
  moreover have "stamped t st'" using assms(1) st'(1,2) unfolding portfolio_ok_def stamped_def by fastforce
  moreover have "linked t (po_cohorts st') q" if "q \<in> set (po_setups st)" for q
  proof (rule linked_grow)
    show "linked t (po_cohorts st) q" using assms(1) that by (simp add: portfolio_ok_def)
  qed (auto simp: st')
  moreover have "List.find (\<lambda>k. ch_id k = n) (xs @ [c]) = Some c" if "n \<notin> ch_id ` set xs" "ch_id c = n" for n and xs :: "cohort_row list"
    using that by (induction xs) auto
  then have "find_cohort (ch_id c) st' = Some c" using notin by (simp add: find_cohort_def st')
  ultimately show ?thesis using assms(1) by (simp add: portfolio_ok_def st')
qed

lemma form_cohort_within:
  assumes ok: "portfolio_ok (pv_now env) st" and within: "within_caps (active_loads (pv_now env) st)"
    and cand: "set candidates \<subseteq> set (po_setups st)"
    and run: "form_cohort env generated_at prospective candidates st = Inr (r, st')"
  shows "portfolio_ok (pv_now env) st' \<and> within_caps (active_loads (pv_now env) st')"
proof -
  let ?t = "pv_now env"
  let ?ids = "map setup_id candidates"
  let ?base = "active_admitted ?ids ?t st"
  let ?n = "po_next_id st"
  obtain usage deadline where usage: "capacity_usage ?base = Some usage" "deadline_of (pv_zone env) prospective candidates = Some deadline"
    using run by (auto simp: form_cohort_def Let_def split: option.splits)
  let ?c = "new_cohort ?n (sort ?ids) generated_at deadline usage"
  let ?st1 = "st\<lparr>po_next_id := ?n + 1, po_cohorts := po_cohorts st @ [?c]\<rparr>"
  note defs = form_cohort_def Let_def usage take_id_def
  obtain st2 where 2: "run_all (add_member env ?n) candidates ?st1 = Inr st2"
    using run by (auto simp: defs split: sum.splits)
  obtain st3 where 3: "run_all (close_stored_cohort env ''new_target_superseded'' (Some ?n) ?t)
      (if prospective then superseded_cohorts ?c candidates st2 else []) st2 = Inr st3"
    using run 2 by (auto simp: defs split: sum.splits)
  have end_: "fits (?base @ candidates) = Some True \<and> (\<exists>row. record_selection env ?n ?ids Automatic None (AutoKey ?n) st3 = Inr (row, st'))
      \<or> st' = st3\<lparr>po_notices := List.insert ?n (po_notices st3)\<rparr>"
    using run by (auto simp: defs 2 3 map_sum_def split: option.splits bool.splits sum.splits)
  have ok1: "portfolio_ok ?t ?st1" and found: "find_cohort ?n ?st1 = Some ?c"
    using new_cohort_ok [OF ok, of ?c ?st1] by (simp_all add: new_cohort_def)
  obtain c2 where c2: "portfolio_ok ?t st2" "rows_related (calm ?t) ?st1 st2" "find_cohort ?n st2 = Some c2"
    "ch_selections c2 = []" "members_of c2 = set ?ids"
    using add_members_ok [OF 2 ok1 found] by (auto simp: new_cohort_def members_of_def)
  have step3: "calm_step ?t st2 st3" by (rule run_calm [OF 3 c2(1) close_calm_step])
  have ok3: "portfolio_ok ?t st3" by (rule calm_step_ok [OF c2(1) step3])
  obtain c3 where c3: "find_cohort ?n st3 = Some c3" "core c3 = core c2"
    using find_cohort_core [OF _ c2(3), of st3] step3 by (auto simp: calm_step_def closure_only_def)
  have mem3: "members_of c3 = set ?ids" "latest_selection_row c3 = None"
    using core_members [OF c3(2)] c2(4,5) by (simp_all add: latest_selection_row_def)
  have calm: "rows_related (calm ?t) st st3"
    using calm_rows_trans [OF c2(2)] step3 by (simp add: calm_step_def rows_related_def)
  have risks: "\<forall>s \<in> set (?base @ candidates). risk_ok s" using ok cand by (auto simp: portfolio_ok_def active_admitted_def)
  have within3: "within_caps (active_loads ?t st3)"
  proof (rule active_within [OF ok3])
    show "within_caps (map load_of (active_admitted [] ?t st))" using within by (simp add: active_loads_def)
    show "\<forall>s \<in> set (active_admitted [] ?t st). risk_ok s" using ok by (auto simp: portfolio_ok_def active_admitted_def)
    fix s' assume "s' \<in> set (po_setups st3)" "last_state ?t s' = Some Admitted" "carries_risk ?t s'"
    then obtain s where "s \<in> set (po_setups st)" "load_of s = load_of s'" "last_state ?t s = Some Admitted" "carries_risk ?t s"
      using calm by (elim calm_active)
    then show "load_of s' \<in> load_of ` set (active_admitted [] ?t st)"
      by (intro image_eqI [of _ _ s]) (simp_all add: active_admitted_def admitted_last)
  qed
  show ?thesis using end_
  proof (elim disjE conjE exE)
    fix row assume fit: "fits (?base @ candidates) = Some True"
      and rec: "record_selection env ?n ?ids Automatic None (AutoKey ?n) st3 = Inr (row, st')"
    have sub: "set ?ids \<subseteq> members_of c3" using mem3(1) by simp
    note effect = record_selection_effect [OF ok3 c3(1) sub rec [folded mem3(2)]]
    have "within_caps (active_loads ?t st')"
    proof (rule active_within)
      show "portfolio_ok ?t st'" using effect by blast
      show "within_caps (map load_of (?base @ candidates))" using fits_iff [OF risks] fit by blast
      show "\<forall>s \<in> set (?base @ candidates). risk_ok s" by (rule risks)
      fix s' assume s': "s' \<in> set (po_setups st')" "last_state ?t s' = Some Admitted" "carries_risk ?t s'"
      show "load_of s' \<in> load_of ` set (?base @ candidates)"
      proof (cases "setup_id s' \<in> set ?ids")
        case True
        then obtain k where k: "k \<in> set candidates" "setup_id k = setup_id s'" by auto
        have "map load_of (po_setups st') = map load_of (po_setups st)"
          using effect rows_load(1) [OF calm] rows_load(1) [of "only (members_of c3)" st3 st'] by simp
        then have "load_of s' \<in> load_of ` set (po_setups st)" using s'(1) by (metis image_eqI list.set_map)
        then obtain q where q: "q \<in> set (po_setups st)" "load_of q = load_of s'" by auto
        then have "setup_id q = setup_id k" using k(2) by (simp add: load_of_def)
        then have "q = k" using portfolio_distinct(1) [OF ok] q(1) k(1) cand by (metis (no_types, lifting) distinct_map inj_onD subsetD)
        with q(2) k(1) show ?thesis by (intro image_eqI [of _ _ k]) simp_all
      next
        case False
        then have "s' \<in> set (po_setups st3)" using effect s' by blast
        then obtain s where "s \<in> set (po_setups st)" "load_of s = load_of s'" "setup_id s = setup_id s'"
          "last_state ?t s = Some Admitted" "carries_risk ?t s"
          using calm_active [OF calm _ s'(2,3)] by blast
        then have "s \<in> set ?base" using False by (simp add: active_admitted_def admitted_last)
        then show ?thesis using \<open>load_of s = load_of s'\<close> by (metis Un_iff image_eqI set_append)
      qed
    qed
    then show ?thesis using effect by blast
  next
    assume "st' = st3\<lparr>po_notices := List.insert ?n (po_notices st3)\<rparr>"
    then show ?thesis using ok3 within3
      by (simp add: portfolio_ok_def stamped_def active_loads_def active_admitted_def)
  qed
qed

lemma candidate_rows_in: "set (candidate_rows ids t st) \<subseteq> set (po_setups st)"
proof -
  have "set (List.map_filter (\<lambda>n. find_setup n st) ids) \<subseteq> set (po_setups st)"
    by (induction ids) (auto simp: List.map_filter_simps dest: find_setup_SomeD split: option.splits)
  then show ?thesis by (auto simp: candidate_rows_def)
qed

lemma assess_within:
  assumes ok: "portfolio_ok (pv_now env) st" and within: "within_caps (active_loads (pv_now env) st)"
    and run: "assess_recommendation_batch env ids generated_at st = Inr (r, st')"
  shows "portfolio_ok (pv_now env) st' \<and> within_caps (active_loads (pv_now env) st')"
proof -
  let ?t = "pv_now env"
  obtain eligible st1 where 1: "run_all (screen_setup env generated_at)
      (filter (\<lambda>n. map_option (rec_version \<circ> sr_rec) (find_setup n st) = Some 4) ids) ([], st) = Inr (eligible, st1)"
    using run by (auto simp: assess_recommendation_batch_def Let_def split: sum.splits)
  have "calm_step ?t st st1" using screen_calm [OF 1, of ?t] ok by simp
  then have ok1: "portfolio_ok ?t st1 \<and> within_caps (active_loads ?t st1)"
    using calm_within [OF ok _ _ within] by (simp add: calm_step_def)
  define st2 where "st2 = st1\<lparr>po_activation := Some (case po_activation st1 of None \<Rightarrow> ?t | Some t \<Rightarrow> t)\<rparr>"
  have ok2: "portfolio_ok ?t st2" "within_caps (active_loads ?t st2)"
    using ok1 by (simp_all add: st2_def portfolio_ok_def stamped_def active_loads_def active_admitted_def)
  have "st' = st1 \<or> st' = st2 \<or> (\<exists>p ks u. form_cohort env generated_at p (candidate_rows ks u st2) st2 = Inr (r, st'))"
    using run [unfolded assess_recommendation_batch_def Let_def 1 sum.case prod.case, folded st2_def]
    by (auto split: if_splits option.splits)
  then show ?thesis using ok1 ok2 form_cohort_within [OF ok2 candidate_rows_in] by blast
qed

text \<open>Reconciliation: the first event, a cancellation fact and the events of a trade are calm; a batch it
  runs keeps the caps.\<close>

lemma initialize_quiet:
  assumes "initialize digest z tb now r entry shared (False, rf_chain f) = Inr (d, chain')"
    and "current_risk_projection r (f\<lparr>rf_chain := chain'\<rparr>) t \<noteq> None"
  shows "current_risk_projection r f t \<noteq> None"
proof (cases "rec_version r = 4")
  case True
  have start: "initial_state r \<noteq> AdmittedAwaitingEntry" by (simp add: initial_state_def)
  obtain event where "transition digest z tb now r entry shared (rf_chain f) (initial_state r) ''issued''
      (FromRecommendation (rec_id r)) (Some (rec_generated_at r)) = Inr (event, chain')"
    using assms(1) True by (auto simp: initialize_def split: sum.splits)
  then show ?thesis using transition_quiet [OF _ start refl assms(2)] by blast
next
  case False
  then have "f\<lparr>rf_chain := chain'\<rparr> = f" using assms(1) by (cases f) (auto simp: initialize_def)
  then show ?thesis using assms(2) by simp
qed

lemma first_max_by_append: "first_max_by k (xs @ [y]) = Some y \<or> first_max_by k (xs @ [y]) = first_max_by k xs"
  by (cases xs) simp_all

lemma cancellation_calm:
  assumes "pf_state g = PaperCancelled"
  shows "calm t s (s\<lparr>sr_facts := (sr_facts s)\<lparr>rf_paper_facts := rf_paper_facts (sr_facts s) @ [g]\<rparr>\<rparr>)" (is "calm t s ?s'")
proof -
  let ?r = "sr_rec s"
  let ?f = "sr_facts s"
  let ?g = "sr_facts ?s'"
  have same: "project_lifecycle ?r ?g t = project_lifecycle ?r ?f t"
    if "latest_paper_fact (rf_paper_facts ?g) t = latest_paper_fact (rf_paper_facts ?f) t \<or> rec_version ?r = 4 \<and> event_at (rf_chain ?f) t \<noteq> None"
    using that by (elim disjE conjE exE) (auto simp: project_lifecycle_def cong: option.case_cong)
  have cases: "latest_paper_fact (rf_paper_facts ?g) t = Some g \<or> latest_paper_fact (rf_paper_facts ?g) t = latest_paper_fact (rf_paper_facts ?f) t"
    using first_max_by_append [of "\<lambda>f. (pf_occurred_at f, pf_id f)" "filter (\<lambda>f. pf_occurred_at f \<le> t) (rf_paper_facts ?f)" g]
    by (auto simp: latest_paper_fact_def)
  have "carries_risk t s" if risk: "carries_risk t ?s'"
  proof (cases "latest_paper_fact (rf_paper_facts ?g) t = latest_paper_fact (rf_paper_facts ?f) t
      \<or> (rec_version ?r = 4 \<and> event_at (rf_chain ?f) t \<noteq> None)")
    case True
    then have "carries_risk t ?s' = carries_risk t s" using same by (simp add: carries_risk_def current_risk_projection_def Let_def)
    then show ?thesis using risk by simp
  next
    case False
    then have latest: "latest_paper_fact (rf_paper_facts ?g) t = Some g" using cases by blast
    define result where "result = filter_option (\<lambda>p. pr_resolved_at p \<le> t) (rf_result ?f)"
    have "pj_state (project_lifecycle ?r ?g t) = fst (legacy_state ?r (filter_option (\<lambda>e. pe_entered_at e \<le> t) (rf_entry ?f)) result
        (latest_admission (rf_admissions ?f) t) (Some g))"
      using False latest by (auto simp: project_lifecycle_def Let_def result_def split: prod.split)
    then have "pj_state (project_lifecycle ?r ?g t) \<notin> {AdmittedAwaitingEntry, Entered}"
      using assms by (auto simp: legacy_state_def split: option.splits if_splits elim!: result_state.elims)
    then show ?thesis using risk by (simp add: carries_risk_def current_risk_projection_def Let_def split: if_splits)
  qed
  then show ?thesis by (simp add: calm_def)
qed

definition in_order :: "instant \<Rightarrow> portfolio \<Rightarrow> bool" where
  "in_order t st \<longleftrightarrow> portfolio_ok t st \<and> within_caps (active_loads t st)"

lemma in_order_ok: "in_order t st \<Longrightarrow> portfolio_ok t st"
  by (simp add: in_order_def)

lemma calm_step_in_order: "in_order t st \<Longrightarrow> calm_step t st st' \<Longrightarrow> in_order t st'"
  unfolding in_order_def calm_step_def using calm_within by blast

lemma transition_in_order:
  "transition_setup env state reason source occurred n st = Inr st' \<Longrightarrow> in_order t st \<Longrightarrow> state \<noteq> AdmittedAwaitingEntry \<Longrightarrow> in_order t st'"
  by (blast intro: calm_step_in_order transition_calm_step in_order_ok)

lemma assess_in_order:
  "assess_recommendation_batch env ids generated_at st = Inr (r, st') \<Longrightarrow> in_order (pv_now env) st \<Longrightarrow> in_order (pv_now env) st'"
  unfolding in_order_def by (blast dest: assess_within)

lemma select_in_order:
  "select_portfolio_cohort env owner n wanted st = Inr (row, st') \<Longrightarrow> in_order (pv_now env) st \<Longrightarrow> in_order (pv_now env) st'"
  unfolding in_order_def by (blast dest: select_within)

lemma set_facts_calm:
  assumes "portfolio_ok t st" "find_setup n st = Some s" "calm t s (s\<lparr>sr_facts := f (sr_facts s)\<rparr>)"
  shows "calm_step t st (set_facts n f st)"
proof -
  have "k = s" if "k \<in> set (po_setups st)" "setup_id k = n" for k
    using that find_setup_SomeD [OF assms(2)] portfolio_distinct(1) [OF assms(1)] by (metis (no_types, lifting) distinct_map inj_onD)
  then have "rows_related (calm t) st (set_facts n f st)"
    using assms(3) by (intro set_facts_rows) (auto simp: calm_refl)
  then show ?thesis by (simp add: calm_step_def closure_only_def)
qed

lemma cancellation_in_order:
  assumes "cancellation_fact env as_of s st = Inr (f, st')" "in_order t st"
  shows "in_order t st'"
proof (cases "List.find (\<lambda>f. pf_state f = PaperCancelled) (rf_paper_facts (sr_facts s))")
  case None
  let ?g = "\<lparr>pf_id = po_next_id st, pf_recommendation = setup_id s, pf_state = PaperCancelled,
      pf_reason = ''assessment_window_expired'', pf_schema = Some 1, pf_resolution = None, pf_occurred_at = as_of\<rparr>"
  have "pf_state ?g = PaperCancelled \<and>
      st' = set_facts (setup_id s) (\<lambda>f. f\<lparr>rf_paper_facts := rf_paper_facts f @ [?g]\<rparr>) (st\<lparr>po_next_id := po_next_id st + 1\<rparr>)"
    using assms(1) None by (auto simp: cancellation_fact_def take_id_def Let_def split: option.splits)
  then obtain g where g: "pf_state g = PaperCancelled"
      "st' = set_facts (setup_id s) (\<lambda>f. f\<lparr>rf_paper_facts := rf_paper_facts f @ [g]\<rparr>) (st\<lparr>po_next_id := po_next_id st + 1\<rparr>)"
    by blast
  have "rows_related (calm t) st st'"
    unfolding g(2) using cancellation_calm [OF g(1)] set_facts_rows [of "st\<lparr>po_next_id := po_next_id st + 1\<rparr>" "calm t"]
    by (auto simp: rows_related_def calm_refl)
  then have "calm_step t st st'" by (simp add: calm_step_def closure_only_def g(2))
  then show ?thesis using calm_step_in_order assms(2) by blast
qed (use assms in \<open>simp add: cancellation_fact_def\<close>)

lemma reconcile_assessment_in_order:
  assumes "reconcile_assessment env as_of s st = Inr st'" "in_order (pv_now env) st"
  shows "in_order (pv_now env) st'"
proof (cases "rec_generated_at (sr_rec s) + hours 24 \<le> as_of")
  case True
  then obtain f mid where mid: "cancellation_fact env as_of s st = Inr (f, mid)"
      "transition_setup env CancelledState ''assessment_window_expired'' (FromFact f) (Some as_of) (setup_id s) mid = Inr st'"
    using assms(1) by (auto simp: reconcile_assessment_def split: sum.splits)
  then show ?thesis using transition_in_order [OF mid(2) cancellation_in_order [OF mid(1) assms(2)]] by simp
next
  case False
  then obtain r where "assess_recommendation_batch env [setup_id s] as_of st = Inr (r, st')"
    using assms(1) by (auto simp: reconcile_assessment_def map_sum_def split: sum.splits)
  then show ?thesis using assms(2) by (rule assess_in_order)
qed

lemma result_not_admitted: "result_state r \<noteq> AdmittedAwaitingEntry"
  by (cases r) simp_all

lemma reconcile_trade_in_order:
  assumes "reconcile_trade env as_of n st = Inr st'" "in_order t st"
  shows "in_order t st'"
proof -
  have step: "in_order t q'" if "transition_setup env state reason source occurred n q = Inr q'" "in_order t q"
      "state = Entered \<or> (\<exists>r. state = result_state r)" for state reason source occurred q q'
    using transition_in_order [OF that(1,2)] that(3) result_not_admitted by auto
  obtain s where "find_setup n st = Some s" using assms(1) by (auto simp: reconcile_trade_def split: option.splits)
  then obtain mid where mid: "mid = st \<or> (\<exists>src. transition_setup env Entered ''paper_entry'' src (Some as_of) n st = Inr mid)"
      "st' = mid \<or> (\<exists>p src. transition_setup env (result_state p) ''paper_result'' src (Some as_of) n mid = Inr st')"
    using assms(1) by (auto simp: reconcile_trade_def Let_def split: option.splits if_splits sum.splits)
  have "in_order t mid" using mid(1) assms(2) step by blast
  then show ?thesis using mid(2) step by blast
qed

lemma reconcile_setup_in_order:
  assumes "reconcile_setup env as_of n st = Inr st'" "in_order (pv_now env) st"
  shows "in_order (pv_now env) st'"
proof -
  let ?t = "pv_now env"
  obtain s d chain where s: "find_setup n st = Some s"
    and init: "initialize (pv_digest env) (pv_zone env) (pv_tables env) (pv_now env) (sr_rec s) (rf_entry (sr_facts s))
        (sr_shared s) (False, rf_chain (sr_facts s)) = Inr (d, chain)"
    using assms(1) by (auto simp: reconcile_setup_def split: option.splits sum.splits)
  let ?s = "s\<lparr>sr_facts := (sr_facts s)\<lparr>rf_chain := chain\<rparr>\<rparr>"
  let ?st = "set_facts n (\<lambda>f. f\<lparr>rf_chain := chain\<rparr>) st"
  obtain mid where mid: "mid = ?st \<or> reconcile_assessment env as_of ?s ?st = Inr mid" "reconcile_trade env as_of n mid = Inr st'"
    using assms(1) s init by (auto simp: reconcile_setup_def Let_def split: if_splits sum.splits)
  have "calm ?t s ?s" using initialize_quiet [OF init] by (simp add: calm_def carries_risk_def)
  then have "calm_step ?t st ?st" by (rule set_facts_calm [OF in_order_ok [OF assms(2)] s])
  then have "in_order ?t ?st" by (rule calm_step_in_order [OF assms(2)])
  then have "in_order ?t mid" using mid(1) reconcile_assessment_in_order by blast
  then show ?thesis using mid(2) by (rule reconcile_trade_in_order [rotated])
qed

lemma reconcile_cohort_in_order:
  assumes "reconcile_cohort env as_of n st = Inr st'" "in_order t st"
  shows "in_order t st'"
proof -
  have "st' = st \<or> (\<exists>reason. close_stored_cohort env reason None as_of n st = Inr st')"
    using assms(1) by (auto simp: reconcile_cohort_def split: option.splits if_splits)
  then show ?thesis using assms(2) by (blast intro: calm_step_in_order close_calm_step in_order_ok)
qed

lemma run_all_in_order:
  assumes "run_all f xs st = Inr st'" "in_order t st" "\<And>x q q'. f x q = Inr q' \<Longrightarrow> in_order t q \<Longrightarrow> in_order t q'"
  shows "in_order t st'"
  using assms(1,2) by (rule run_all_relates) (rule assms(3))

lemma reconcile_in_order:
  assumes "reconcile_lifecycle env which as_of st = Inr st'" "in_order (pv_now env) st"
  shows "in_order (pv_now env) st'"
proof -
  obtain ns ms mid where mid: "run_all (reconcile_setup env as_of) ns st = Inr mid" "run_all (reconcile_cohort env as_of) ms mid = Inr st'"
    using assms(1) by (auto simp: reconcile_lifecycle_def Let_def split: sum.splits)
  have "in_order (pv_now env) mid" by (rule run_all_in_order [OF mid(1) assms(2) reconcile_setup_in_order])
  then show ?thesis by (rule run_all_in_order [OF mid(2) _ reconcile_cohort_in_order])
qed

section \<open>Reachable portfolios\<close>

text \<open>What the other components do while time passes: setups are issued, without admissions and with a risk on
  the grid of cents; facts are added to a setup, never an admission, and never so that it starts to carry risk
  (only the transition to the admitted state does, \<open>transition_quiet\<close>); cohorts are left alone.\<close>

definition elsewhere :: "instant \<Rightarrow> portfolio \<Rightarrow> instant \<Rightarrow> portfolio \<Rightarrow> bool" where
  "elsewhere t st t' st' \<longleftrightarrow>
     t \<le> t' \<and> po_cohorts st' = po_cohorts st \<and> po_next_id st \<le> po_next_id st' \<and> distinct (map setup_id (po_setups st')) \<and>
     (\<exists>kept issued. po_setups st' = kept @ issued \<and>
        list_all2 (\<lambda>s s'. (\<exists>f. s' = s\<lparr>sr_facts := f\<rparr>) \<and> same_admissions s s' \<and> (carries_risk t' s' \<longrightarrow> carries_risk t s))
          (po_setups st) kept \<and>
        (\<forall>s \<in> set issued. rf_admissions (sr_facts s) = [] \<and> risk_ok s))"

inductive portfolio_reachable :: "instant \<Rightarrow> portfolio \<Rightarrow> bool" where
  start: "portfolio_reachable t \<lparr>po_setups = [], po_cohorts = [], po_activation = None, po_notices = [], po_next_id = n\<rparr>"
| assess: "portfolio_reachable (pv_now env) st \<Longrightarrow> assess_recommendation_batch env ids generated_at st = Inr (r, st')
     \<Longrightarrow> portfolio_reachable (pv_now env) st'"
| select: "portfolio_reachable (pv_now env) st \<Longrightarrow> select_portfolio_cohort env owner k wanted st = Inr (row, st')
     \<Longrightarrow> portfolio_reachable (pv_now env) st'"
| reconcile: "portfolio_reachable (pv_now env) st \<Longrightarrow> reconcile_lifecycle env which as_of st = Inr st'
     \<Longrightarrow> portfolio_reachable (pv_now env) st'"
| others: "portfolio_reachable t st \<Longrightarrow> elsewhere t st t' st' \<Longrightarrow> portfolio_reachable t' st'"

lemma last_state_later:
  assumes "\<forall>a \<in> set (rf_admissions (sr_facts s)). ad_occurred_at a \<le> t" "t \<le> t'" "same_admissions s s'"
  shows "last_state t' s' = last_state t s"
proof -
  have "filter (\<lambda>a. ad_occurred_at a \<le> u) (rf_admissions (sr_facts s)) = rf_admissions (sr_facts s)" if "t \<le> u" for u
    using assms(1) that by (fastforce simp: filter_id_conv)
  then show ?thesis using assms(2,3) by (simp add: last_state_def latest_admission_def same_admissions_def)
qed

lemma elsewhere_in_order:
  assumes ok: "in_order t st" and run: "elsewhere t st t' st'"
  shows "in_order t' st'"
proof -
  have p: "portfolio_ok t st" and within: "within_caps (active_loads t st)" using ok by (simp_all add: in_order_def)
  have mono: "t \<le> t'" "po_next_id st \<le> po_next_id st'" "po_cohorts st' = po_cohorts st" using run by (simp_all add: elsewhere_def)
  have stamps: "\<forall>a \<in> set (rf_admissions (sr_facts s)). ad_occurred_at a \<le> t \<and> ad_id a < po_next_id st" if "s \<in> set (po_setups st)" for s
    using p that by (simp add: portfolio_ok_def stamped_def)
  have origin: "rf_admissions (sr_facts s') = [] \<and> risk_ok s' \<or>
      (\<exists>s f. s \<in> set (po_setups st) \<and> s' = s\<lparr>sr_facts := f\<rparr> \<and> same_admissions s s' \<and> (carries_risk t' s' \<longrightarrow> carries_risk t s))"
    if "s' \<in> set (po_setups st')" for s'
  proof -
    obtain kept issued where k: "po_setups st' = kept @ issued"
      "list_all2 (\<lambda>s s'. (\<exists>f. s' = s\<lparr>sr_facts := f\<rparr>) \<and> same_admissions s s' \<and> (carries_risk t' s' \<longrightarrow> carries_risk t s)) (po_setups st) kept"
      "\<forall>s \<in> set issued. rf_admissions (sr_facts s) = [] \<and> risk_ok s"
      using run unfolding elsewhere_def by blast
    show ?thesis
    proof (cases "s' \<in> set issued")
      case False
      then have "s' \<in> set kept" using that k(1) by simp
      then obtain i where i: "i < length kept" "kept ! i = s'" by (auto simp: in_set_conv_nth)
      then have "po_setups st ! i \<in> set (po_setups st)" using k(2) by (simp add: list_all2_conv_all_nth)
      then show ?thesis using list_all2_nthD2 [OF k(2) i(1)] i(2) by blast
    qed (use k(3) in blast)
  qed
  have rows: "risk_ok s' \<and> linked t' (po_cohorts st') s' \<and> (\<forall>a \<in> set (rf_admissions (sr_facts s')). ad_occurred_at a \<le> t' \<and> ad_id a < po_next_id st') \<and>
      (last_state t' s' = Some Admitted \<and> carries_risk t' s' \<longrightarrow> load_of s' \<in> load_of ` set (active_admitted [] t st))"
    if inside: "s' \<in> set (po_setups st')" for s'
    using origin [OF inside]
  proof (elim disjE exE conjE)
    assume "rf_admissions (sr_facts s') = []" "risk_ok s'"
    then show ?thesis by (simp add: linked_def last_state_def latest_admission_def)
  next
    fix s f assume s: "s \<in> set (po_setups st)" "s' = s\<lparr>sr_facts := f\<rparr>" "same_admissions s s'" "carries_risk t' s' \<longrightarrow> carries_risk t s"
    have same: "last_state t' s' = last_state t s" using last_state_later [OF _ mono(1) s(3)] stamps [OF s(1)] by blast
    have "risk_ok s" "linked t (po_cohorts st) s" using p s(1) by (simp_all add: portfolio_ok_def)
    moreover have "load_of s' \<in> load_of ` set (active_admitted [] t st)" if "last_state t' s' = Some Admitted" "carries_risk t' s'"
    proof (rule image_eqI)
      show "load_of s' = load_of s" by (simp add: s(2) load_of_def legs_of_def)
      show "s \<in> set (active_admitted [] t st)" using that s(1,4) same by (simp add: active_admitted_def admitted_last)
    qed
    ultimately show ?thesis using stamps [OF s(1)] s(2,3) mono same
      by (auto simp: risk_ok_def linked_def same_admissions_def)
  qed
  have "cohorts_ok t' (po_next_id st') (po_cohorts st')"
    using p mono unfolding portfolio_ok_def cohorts_ok_def mono(3) by (meson order_less_le_trans order_trans)
  then have ok': "portfolio_ok t' st'"
    using rows run by (simp add: portfolio_ok_def stamped_def elsewhere_def)
  have "within_caps (active_loads t' st')"
  proof (rule active_within [OF ok'])
    show "within_caps (map load_of (active_admitted [] t st))" using within by (simp add: active_loads_def)
    show "\<forall>s \<in> set (active_admitted [] t st). risk_ok s" using p by (auto simp: portfolio_ok_def active_admitted_def)
  qed (use rows in blast)
  then show ?thesis using ok' by (simp add: in_order_def)
qed

lemma start_in_order:
  "in_order t \<lparr>po_setups = [], po_cohorts = [], po_activation = None, po_notices = [], po_next_id = n\<rparr>"
  by (simp add: in_order_def portfolio_ok_def stamped_def cohorts_ok_def within_caps_def active_loads_def active_admitted_def
      aggregate_risk_cap_cad_def currency_direction_risk_cap_cad_def)

lemma reachable_in_order: "portfolio_reachable t st \<Longrightarrow> in_order t st"
proof (induction rule: portfolio_reachable.induct)
  case (assess env st ids generated_at r st')
  then show ?case by (blast intro: assess_in_order)
next
  case (select env st owner k wanted row st')
  then show ?case by (blast intro: select_in_order)
next
  case (reconcile env st which as_of st')
  then show ?case by (blast intro: reconcile_in_order)
next
  case (others t st t' st')
  then show ?case by (blast intro: elsewhere_in_order)
qed (rule start_in_order)

text \<open>C7: Over any history of batches, owner selections and reconciliations, interleaved with whatever the
  other components do under \<open>elsewhere\<close>, the setups that are admitted and carry risk stay within policy: their
  capacity check of \<^verbatim>\<open>portfolio.py\<close> succeeds, their exact total is at most the aggregate cap and the exact
  total of each direction of each currency at most the directional cap.\<close>

theorem portfolio_stays_within_caps:
  assumes "portfolio_reachable t st"
  shows "fits (active_admitted [] t st) = Some True \<and> within_caps (map load_of (active_admitted [] t st))"
proof -
  have ok: "portfolio_ok t st" "within_caps (map load_of (active_admitted [] t st))"
    using reachable_in_order [OF assms] by (simp_all add: in_order_def active_loads_def)
  have "\<forall>s \<in> set (active_admitted [] t st). risk_ok s" using ok(1) by (auto simp: portfolio_ok_def active_admitted_def)
  then show ?thesis using fits_iff ok(2) by blast
qed

text \<open>A history with an admission: the setup is issued, and the batch selects it since it fits.\<close>

definition offered_setup :: setup_row where
  "offered_setup = held_setup\<lparr>sr_rec := (sr_rec held_setup)\<lparr>rec_generated_at := 5\<rparr>,
     sr_facts := (sr_facts held_setup)\<lparr>rf_admissions := []\<rparr>\<rparr>"

definition selected_portfolio :: portfolio where
  "selected_portfolio = \<lparr>
     po_setups = [offered_setup\<lparr>sr_facts := (sr_facts offered_setup)\<lparr>rf_admissions :=
        [\<lparr>ad_id = 3, ad_state = Admitted, ad_occurred_at = 5\<rparr>]\<rparr>\<rparr>],
     po_cohorts = [\<lparr>ch_id = 0, ch_key = [1], ch_generated_at = 5, ch_deadline = None, ch_base_total = 0, ch_base_sides = [],
        ch_members = [\<lparr>mb_id = 1, mb_rec = 1, mb_risk = 100, mb_legs = [(''EUR'', 1), (''USD'', -1)]\<rparr>],
        ch_selections = [\<lparr>sl_id = 2, sl_supersedes = None, sl_mode = Automatic, sl_key = AutoKey 0, sl_selected_at = 5,
           sl_members = [1]\<rparr>],
        ch_closure = None\<rparr>],
     po_activation = Some 5, po_notices = [], po_next_id = 4\<rparr>"

lemma offered_facts [simp]:
  "rec_id (sr_rec offered_setup) = 1" "rec_version (sr_rec offered_setup) = 2" "rec_generated_at (sr_rec offered_setup) = 5"
  "rec_action (sr_rec offered_setup) = Buy" "rf_admissions (sr_facts offered_setup) = []"
  "sr_size offered_setup = Some \<lparr>sa_stop = 1, sa_units = 100, sa_risk = 100, sa_rate = 1, sa_path = [], sa_sized_at = 0\<rparr>"
  "legs_of offered_setup = [(''EUR'', 1), (''USD'', -1)]"
  by (simp_all add: offered_setup_def held_setup_def sample_recommendation_def legs_of_def decompose_pair_def)

lemma offered_fits: "fits [offered_setup] = Some True"
  by (simp add: fits_def capacity_usage_def sized_risks_def side_risk_def side_setups_def List.map_filter_simps
      aggregate_risk_cap_cad_def currency_direction_risk_cap_cad_def) code_simp

lemma batch_selects:
  "assess_recommendation_batch env [1] 5 \<lparr>po_setups = [offered_setup], po_cohorts = [], po_activation = None, po_notices = [],
      po_next_id = 0\<rparr> = Inr (Some 0, selected_portfolio)" if "pv_now env = 5"
proof -
  note offered = offered_fits
  show ?thesis using that
    by (simp add: assess_recommendation_batch_def candidate_rows_def List.map_filter_simps find_setup_def assessed_already_def
        form_cohort_def active_admitted_def admitted_at_def latest_admission_def capacity_usage_def sized_risks_def deadline_of_def take_id_def
        new_cohort_def add_member_def find_cohort_def set_cohort_def offered record_selection_def record_admission_def set_facts_def
        settle_member_def selected_portfolio_def Let_def)
qed

lemma offered_risk:
  "active_admitted [] 5 selected_portfolio = po_setups selected_portfolio"
  by (simp add: active_admitted_def selected_portfolio_def admitted_at_def latest_admission_def carries_risk_def current_risk_projection_def
      project_lifecycle_def legacy_state_def latest_paper_fact_def filter_option_def Let_def, simp add: offered_setup_def held_setup_def
      sample_facts_def latest_paper_fact_def)

theorem portfolio_stays_within_caps_witness:
  "portfolio_reachable 5 selected_portfolio \<and> active_admitted [] 5 selected_portfolio \<noteq> [] \<and>
   fits (active_admitted [] 5 selected_portfolio) = Some True"
proof -
  let ?env = "undefined\<lparr>pv_now := 5\<rparr>"
  let ?empty = "\<lparr>po_setups = [], po_cohorts = [], po_activation = None, po_notices = [], po_next_id = 0\<rparr>"
  let ?issued = "?empty\<lparr>po_setups := [offered_setup]\<rparr>"
  have "elsewhere 0 ?empty 5 ?issued" by (simp add: elsewhere_def risk_ok_def) code_simp
  then have "portfolio_reachable (pv_now ?env) ?issued"
    using portfolio_reachable.others [OF portfolio_reachable.start] by simp
  then have "portfolio_reachable (pv_now ?env) selected_portfolio"
    using portfolio_reachable.assess [of ?env ?issued "[1]" 5 "Some 0" selected_portfolio] batch_selects [of ?env] by simp
  then have reached: "portfolio_reachable 5 selected_portfolio" by simp
  have "po_setups selected_portfolio \<noteq> []" by (simp add: selected_portfolio_def)
  then show ?thesis using reached portfolio_stays_within_caps [OF reached] unfolding offered_risk by blast
qed

end
