(* ===== verification/Trend.thy ===== *)
theory Trend
  imports Features
begin

text \<open>
  \<^verbatim>\<open>market/strategy/contracts.py\<close> (the continuous forecast), \<^verbatim>\<open>costs.py\<close> and \<^verbatim>\<open>trend.py\<close>: the daily trend
  forecasts. All arithmetic runs in the context of \<^verbatim>\<open>arithmetic\<close>, \<open>rnd34\<close>. A \<^verbatim>\<open>ValueError\<close> is a
  \<open>strategy_error\<close>; an \<^verbatim>\<open>Unavailable\<close> result is \<open>Unavailable reason\<close> of \<open>feature\<close>, its strategy name the
  caller's constant. Prices are finite; the square of a price difference has fewer than 34 digits, so it is
  rounded once.

  The lemmas: an exponential average stays between the extremes of its values whatever is rounded, the
  square root is correctly rounded, and a forecast never violates its contract.
\<close>

datatype strategy_error =
    EmaInputs | InvalidPreviousForecast | ForecastBounds | ForecastMissingness
  | CostPeriod | InvalidCost | InvalidLatency | IncompleteRoundtrip
  | SetupInterval | SetupChronology | SetupPrice | SetupGeometry | NoSuccessor
  | RiskBounds | UnsupportedPullback | UnsupportedRisk | LimitAttribution | CalendarInterval

definition and_then :: "'e + 'a \<Rightarrow> ('a \<Rightarrow> 'e + 'b) \<Rightarrow> 'e + 'b" where
  [model_defs]: "and_then r f = (case r of Inl e \<Rightarrow> Inl e | Inr x \<Rightarrow> f x)"

lemma and_then_simps [simp]: "and_then (Inl e) f = Inl e" "and_then (Inr x) f = f x"
  by (simp_all add: and_then_def)

lemma and_then_Inr: "and_then r f = Inr y \<longleftrightarrow> (\<exists>x. r = Inr x \<and> f x = Inr y)"
  by (cases r) simp_all

section \<open>The square root\<close>

text \<open>\<^verbatim>\<open>Decimal.sqrt\<close>: the root rounded half to even to the 34 digits of the context. \<open>int_sqrt\<close> is the
  integer root by bisection.\<close>

function sqrt_between :: "int \<Rightarrow> int \<Rightarrow> int \<Rightarrow> int" where
  "sqrt_between lo hi n =
     (if hi \<le> lo + 1 then lo
      else (let m = (lo + hi) div 2 in if m * m \<le> n then sqrt_between m hi n else sqrt_between lo m n))"
  by pat_completeness auto
termination
  by (relation "measure (\<lambda>(lo, hi, n). nat (hi - lo))") auto

declare sqrt_between.simps [simp del]

definition int_sqrt :: "int \<Rightarrow> int" where
  [model_defs]: "int_sqrt n = sqrt_between 0 (n + 1) n"

definition sqrt_quantum :: "decimal \<Rightarrow> decimal" where
  [model_defs]: "sqrt_quantum x = 10 powi (adjusted x div 2 - 33)"

definition dec_sqrt :: "decimal \<Rightarrow> decimal" where
  [model_defs]: "dec_sqrt x =
     (if x \<le> 0 then 0
      else
        (let q = sqrt_quantum x; y = x / (q * q); r = int_sqrt \<lfloor>y\<rfloor>; half = (of_int r + 1 / 2) * (of_int r + 1 / 2)
         in of_int (if y < half then r else if half < y then r + 1 else if even r then r else r + 1) * q))"

lemma sqrt_between_bounds:
  "lo * lo \<le> n \<Longrightarrow> n < hi * hi \<Longrightarrow> 0 \<le> lo \<Longrightarrow> lo < hi
     \<Longrightarrow> 0 \<le> sqrt_between lo hi n \<and> sqrt_between lo hi n * sqrt_between lo hi n \<le> n \<and>
       n < (sqrt_between lo hi n + 1) * (sqrt_between lo hi n + 1)"
proof (induction lo hi n rule: sqrt_between.induct)
  case (1 lo hi n)
  show ?case
  proof (cases "hi \<le> lo + 1")
    case True
    then have "hi = lo + 1" "sqrt_between lo hi n = lo" using "1.prems"(4) by (simp_all add: sqrt_between.simps [of lo hi n])
    then show ?thesis using "1.prems" by simp
  next
    case False
    let ?m = "(lo + hi) div 2"
    have m: "lo < ?m" "?m < hi" using False by linarith+
    show ?thesis
    proof (cases "?m * ?m \<le> n")
      case True
      then have "sqrt_between lo hi n = sqrt_between ?m hi n" using False by (simp add: sqrt_between.simps [of lo hi n] Let_def)
      then show ?thesis using "1.IH"(1) [OF False refl True] True m "1.prems" by simp
    next
      case small: False
      then have "sqrt_between lo hi n = sqrt_between lo ?m n" using False by (simp add: sqrt_between.simps [of lo hi n] Let_def)
      then show ?thesis using "1.IH"(2) [OF False refl small] small m "1.prems" by simp
    qed
  qed
qed

lemma int_sqrt_bounds:
  assumes "0 \<le> n"
  shows "0 \<le> int_sqrt n" "int_sqrt n * int_sqrt n \<le> n" "n < (int_sqrt n + 1) * (int_sqrt n + 1)"
proof -
  have "0 \<le> n * n" using assms by simp
  moreover have "(n + 1) * (n + 1) = n * n + n + n + 1" by (simp add: algebra_simps)
  ultimately have "n < (n + 1) * (n + 1)" using assms by linarith
  then show "0 \<le> int_sqrt n" "int_sqrt n * int_sqrt n \<le> n" "n < (int_sqrt n + 1) * (int_sqrt n + 1)"
    using sqrt_between_bounds [of 0 n "n + 1"] assms unfolding int_sqrt_def by simp_all
qed

text \<open>The scaled argument of a positive value: its root has 34 digits.\<close>

lemma sqrt_scale:
  assumes "0 < x"
  defines "y \<equiv> x / (sqrt_quantum x * sqrt_quantum x)"
  shows "10 ^ 66 \<le> y"
proof -
  let ?e = "adjusted x div 2"
  have "2 * ?e \<le> adjusted x" by linarith
  then have "(10 :: rat) powi (2 * ?e) \<le> 10 powi adjusted x" by (intro power_int_increasing) auto
  then have lo: "(10 :: rat) powi (2 * ?e) \<le> x" using adjusted_bounds(1) [OF assms(1)] by linarith
  have "sqrt_quantum x * sqrt_quantum x = 10 powi (2 * ?e - 66)"
    unfolding sqrt_quantum_def by (simp flip: power_int_add)
  moreover have "(10 :: rat) ^ 66 * 10 powi (2 * ?e - 66) = 10 powi (2 * ?e)"
    by (simp add: power_int_diff)
  ultimately have "10 ^ 66 * (sqrt_quantum x * sqrt_quantum x) \<le> x" using lo by simp
  moreover have "0 < sqrt_quantum x * sqrt_quantum x" by (simp add: sqrt_quantum_def)
  ultimately show ?thesis unfolding y_def by (simp add: pos_le_divide_eq)
qed

text \<open>Correct rounding: in units of the last place the square of the result is within a half unit of the argument's root.\<close>

lemma dec_sqrt_nearest:
  assumes "0 < x"
  obtains r where "dec_sqrt x = of_int r * sqrt_quantum x" "0 < r"
    "(of_int r - 1 / 2) * (of_int r - 1 / 2) * (sqrt_quantum x * sqrt_quantum x) \<le> x"
    "x \<le> (of_int r + 1 / 2) * (of_int r + 1 / 2) * (sqrt_quantum x * sqrt_quantum x)"
proof -
  let ?q = "sqrt_quantum x"
  let ?y = "x / (?q * ?q)"
  let ?s = "int_sqrt \<lfloor>?y\<rfloor>"
  let ?half = "(of_int ?s + 1 / 2) * (of_int ?s + 1 / 2) :: rat"
  define r where "r = (if ?y < ?half then ?s else if ?half < ?y then ?s + 1 else if even ?s then ?s else ?s + 1)"
  have q: "0 < ?q * ?q" by (simp add: sqrt_quantum_def)
  have big: "10 ^ 66 \<le> ?y" by (rule sqrt_scale [OF assms])
  then have y: "0 \<le> \<lfloor>?y\<rfloor>" by simp
  note s = int_sqrt_bounds [OF y]
  have "1 \<le> \<lfloor>?y\<rfloor>" using big by (simp add: le_floor_iff)
  then have "?s \<noteq> 0" using s(3) by auto
  then have pos: "0 < ?s" using s(1) by simp
  have lo: "of_int ?s * of_int ?s \<le> ?y"
  proof -
    have "(of_int (?s * ?s) :: rat) \<le> of_int \<lfloor>?y\<rfloor>" using s(2) by (simp only: of_int_le_iff)
    then show ?thesis by simp linarith
  qed
  have hi: "?y < (of_int ?s + 1) * (of_int ?s + 1)"
  proof -
    have "\<lfloor>?y\<rfloor> + 1 \<le> (?s + 1) * (?s + 1)" using s(3) by linarith
    then have "(of_int (\<lfloor>?y\<rfloor> + 1) :: rat) \<le> of_int ((?s + 1) * (?s + 1))" by (simp only: of_int_le_iff)
    moreover have "?y < of_int (\<lfloor>?y\<rfloor> + 1)" by linarith
    ultimately show ?thesis by simp
  qed
  have low: "(of_int r - 1 / 2) * (of_int r - 1 / 2) \<le> ?y"
  proof (cases "r = ?s")
    case True
    have "(of_int ?s - 1 / 2) * (of_int ?s - 1 / 2) \<le> (of_int ?s * of_int ?s :: rat)" using pos by (intro mult_mono) auto
    then show ?thesis using True lo by simp
  next
    case False
    then have "r = ?s + 1" "?half \<le> ?y" by (auto simp: r_def split: if_splits)
    then show ?thesis by (simp add: algebra_simps)
  qed
  have high: "?y \<le> (of_int r + 1 / 2) * (of_int r + 1 / 2)"
  proof (cases "r = ?s")
    case True
    then show ?thesis by (auto simp: r_def split: if_splits)
  next
    case False
    then have "r = ?s + 1" by (auto simp: r_def split: if_splits)
    moreover have "(of_int ?s + 1) * (of_int ?s + 1) \<le> ((of_int ?s + 1) + 1 / 2) * ((of_int ?s + 1) + 1 / 2 :: rat)"
      using pos by (intro mult_mono) auto
    ultimately show ?thesis using hi by simp
  qed
  show ?thesis
  proof (rule that)
    show "dec_sqrt x = of_int r * ?q" using assms by (simp add: dec_sqrt_def Let_def r_def)
    show "0 < r" using pos by (auto simp: r_def)
    show "(of_int r - 1 / 2) * (of_int r - 1 / 2) * (?q * ?q) \<le> x" using low q by (simp add: pos_le_divide_eq)
    show "x \<le> (of_int r + 1 / 2) * (of_int r + 1 / 2) * (?q * ?q)" using high q by (simp add: pos_divide_le_eq)
  qed
qed

lemma dec_sqrt_pos: "0 < x \<Longrightarrow> 0 < dec_sqrt x"
  by (rule dec_sqrt_nearest [of x]) (simp_all add: sqrt_quantum_def)

section \<open>Cost evidence\<close>

record cost_evidence =
  ce_component :: string
  ce_source :: string
  ce_version :: string
  ce_sha :: string
  ce_quote :: string
  ce_known_at :: instant
  ce_valid_from :: instant
  ce_valid_through :: instant
  ce_spread :: "decimal option"
  ce_commission :: "decimal option"
  ce_slippage :: "decimal option"
  ce_reserve :: "decimal option"
  ce_latency :: "int option"

text \<open>\<^verbatim>\<open>CostEvidence.__post_init__\<close>: the error it raises.\<close>

definition check_cost_evidence :: "cost_evidence \<Rightarrow> strategy_error option" where
  [model_defs]: "check_cost_evidence c =
     (if ce_valid_through c < ce_valid_from c then Some CostPeriod
      else if list_ex (\<lambda>v. \<exists>x \<in> set_option v. x < 0) [ce_spread c, ce_commission c, ce_slippage c, ce_reserve c]
      then Some InvalidCost
      else if (\<exists>s \<in> set_option (ce_latency c). s < 0) then Some InvalidLatency
      else None)"

text \<open>\<^verbatim>\<open>CostEvidence.readiness\<close>: \<open>None\<close> when the evidence may be used at the cutoff.\<close>

definition cost_readiness :: "cost_evidence \<Rightarrow> instant \<Rightarrow> string \<Rightarrow> string option" where
  [model_defs]: "cost_readiness c cutoff component =
     (if ce_source c = [] \<or> ce_version c = [] \<or> length (ce_sha c) \<noteq> 64 \<or> ce_quote c = []
      then Some ''cost_provenance_unavailable''
      else if ce_component c \<noteq> component then Some ''cost_component_mismatch''
      else if cutoff < ce_known_at c \<or> \<not> (ce_valid_from c \<le> cutoff \<and> cutoff \<le> ce_valid_through c)
      then Some ''cost_not_available_at_cutoff''
      else if ce_spread c = None \<or> ce_commission c = None \<or> ce_slippage c = None \<or> ce_reserve c = None \<or> ce_latency c = None
      then Some ''incomplete_cost_evidence''
      else None)"

definition cost_roundtrip :: "cost_evidence \<Rightarrow> strategy_error + decimal" where
  [model_defs]: "cost_roundtrip c =
     (case (ce_spread c, ce_commission c, ce_slippage c, ce_reserve c) of
        (Some spread, Some commission, Some slippage, Some reserve) \<Rightarrow>
          Inr (rnd34 (rnd34 (spread + rnd34 (2 * rnd34 (commission + slippage))) + reserve))
      | _ \<Rightarrow> Inl IncompleteRoundtrip)"

section \<open>Averages\<close>

fun ema_from :: "decimal \<Rightarrow> decimal \<Rightarrow> decimal list \<Rightarrow> decimal" where
  "ema_from alpha v [] = v"
| "ema_from alpha v (x # xs) = ema_from alpha (rnd34 (v + rnd34 (alpha * rnd34 (x - v)))) xs"

definition ema :: "decimal list \<Rightarrow> nat \<Rightarrow> strategy_error + decimal" where
  [model_defs]: "ema values period =
     (case values of
        [] \<Rightarrow> Inl EmaInputs
      | v # vs \<Rightarrow> if period < 1 then Inl EmaInputs else Inr (rnd34 (ema_from (rnd34 (2 / of_nat (period + 1))) v vs)))"

fun squared_differences :: "decimal list \<Rightarrow> decimal list" where
  "squared_differences (a # b # xs) = rnd34 (rnd34 (b - a) * rnd34 (b - a)) # squared_differences (b # xs)"
| "squared_differences _ = []"

definition sigma :: "decimal list \<Rightarrow> strategy_error + decimal option" where
  [model_defs]: "sigma closes =
     (if length closes < 97 then Inr None
      else and_then (ema (squared_differences closes) 32)
        (\<lambda>variance. Inr (if 0 < variance then Some (dec_sqrt variance) else None)))"

definition cap :: "decimal \<Rightarrow> decimal" where
  [model_defs]: "cap v = max (-20) (min 20 v)"

definition buffer :: "decimal \<Rightarrow> decimal \<Rightarrow> strategy_error + decimal" where
  [model_defs]: "buffer target previous =
     (if 20 < \<bar>previous\<bar> then Inl InvalidPreviousForecast
      else (let difference = rnd34 (target - previous) in
            Inr (if \<bar>difference\<bar> \<le> 1 then previous else rnd34 (target - (if 0 < difference then 1 else -1)))))"

section \<open>Forecasts\<close>

record component =
  cp_name :: string
  cp_raw :: "decimal option"
  cp_capped :: "decimal option"
  cp_exclusion :: "string option"

record forecast =
  fc_value :: "decimal option"
  fc_buffered :: "decimal option"
  fc_components :: "component list"
  fc_reason :: "string option"

text \<open>\<^verbatim>\<open>ContinuousForecast\<close> with its \<^verbatim>\<open>__post_init__\<close>.\<close>

definition make_forecast :: "decimal option \<Rightarrow> decimal option \<Rightarrow> component list \<Rightarrow> string option \<Rightarrow> strategy_error + forecast" where
  [model_defs]: "make_forecast v b components reason =
     (if list_ex (\<lambda>v. \<exists>x \<in> set_option v. 20 < \<bar>x\<bar>) [v, b] then Inl ForecastBounds
      else if (v = None) \<noteq> (reason \<noteq> None) \<or> (v = None) \<noteq> (b = None) then Inl ForecastMissingness
      else Inr \<lparr>fc_value = v, fc_buffered = b, fc_components = components, fc_reason = reason\<rparr>)"

definition combine :: "component list \<Rightarrow> decimal \<Rightarrow> strategy_error + forecast" where
  [model_defs]: "combine components previous =
     (let included = List.map_filter (\<lambda>c. if cp_exclusion c = None then cp_capped c else None) components in
      if included = [] then make_forecast None None components (Some ''no_affordable_available_components'')
      else
        (let v = cap (rnd34 (py_sum rnd34 included / of_nat (length included)))
         in and_then (buffer v previous) (\<lambda>b. make_forecast (Some v) (Some b) components None)))"

type_synonym cost_table = "(string \<times> cost_evidence) list"

definition component_exclusion ::
  "string \<Rightarrow> decimal option \<Rightarrow> cost_table \<Rightarrow> instant \<Rightarrow> strategy_error + string option" where
  [model_defs]: "component_exclusion name volatility costs cutoff =
     (case volatility of
        None \<Rightarrow> Inr (Some ''volatility_unavailable'')
      | Some vol \<Rightarrow>
          (case map_of costs name of
             None \<Rightarrow> Inr (Some ''cost_unavailable'')
           | Some cost \<Rightarrow>
               (case cost_readiness cost cutoff name of
                  Some reason \<Rightarrow> Inr (Some reason)
                | None \<Rightarrow>
                    and_then (cost_roundtrip cost)
                      (\<lambda>roundtrip. Inr (if 1 / 10 < rnd34 (roundtrip / vol) then Some ''unaffordable'' else None)))))"

definition component_of ::
  "string \<Rightarrow> decimal option \<Rightarrow> decimal option \<Rightarrow> cost_table \<Rightarrow> instant \<Rightarrow> strategy_error + component" where
  [model_defs]: "component_of name raw volatility costs cutoff =
     (case raw of
        None \<Rightarrow> Inr \<lparr>cp_name = name, cp_raw = None, cp_capped = None, cp_exclusion = Some ''warmup_or_zero_range''\<rparr>
      | Some r \<Rightarrow>
          and_then (component_exclusion name volatility costs cutoff)
            (\<lambda>reason. Inr \<lparr>cp_name = name, cp_raw = raw, cp_capped = Some (cap r), cp_exclusion = reason\<rparr>))"

fun collect :: "('a \<Rightarrow> 'e + 'b) \<Rightarrow> 'a list \<Rightarrow> 'e + 'b list" where
  "collect f [] = Inr []"
| "collect f (x # xs) = and_then (f x) (\<lambda>y. and_then (collect f xs) (\<lambda>ys. Inr (y # ys)))"

section \<open>EWMAC\<close>

definition speeds :: "(nat \<times> nat \<times> decimal) list" where
  [model_defs]: "speeds = [(2, 8, 106 / 10), (4, 16, 75 / 10), (8, 32, 53 / 10), (16, 64, 375 / 100), (32, 128, 265 / 100),
     (64, 256, 1875 / 1000)]"

definition crossover_raw :: "decimal list \<Rightarrow> decimal option \<Rightarrow> nat \<Rightarrow> nat \<Rightarrow> decimal \<Rightarrow> strategy_error + decimal option" where
  [model_defs]: "crossover_raw closes volatility fast slow scalar =
     (case volatility of
        Some vol \<Rightarrow>
          if max (3 * slow) 97 \<le> length closes
          then and_then (ema closes fast) (\<lambda>f. and_then (ema closes slow)
                 (\<lambda>s. Inr (Some (rnd34 (rnd34 (scalar * rnd34 (f - s)) / vol)))))
          else Inr None
      | None \<Rightarrow> Inr None)"

definition crossover_component ::
  "decimal list \<Rightarrow> decimal option \<Rightarrow> cost_table \<Rightarrow> instant \<Rightarrow> nat \<times> nat \<times> decimal \<Rightarrow> strategy_error + component" where
  [model_defs]: "crossover_component closes volatility costs cutoff speed =
     (case speed of (fast, slow, scalar) \<Rightarrow>
        and_then (crossover_raw closes volatility fast slow scalar)
          (\<lambda>raw. component_of (''ewmac-'' @ show_nat fast @ ''-'' @ show_nat slow) raw volatility costs cutoff))"

definition ewmac :: "zone \<Rightarrow> bar list \<Rightarrow> cost_table \<Rightarrow> instant \<Rightarrow> decimal \<Rightarrow> strategy_error + forecast" where
  [model_defs]: "ewmac z bars costs cutoff previous =
     (let closes = (if contiguous z bars then map b_close bars else []) in
      and_then (sigma closes)
        (\<lambda>volatility. and_then (collect (crossover_component closes volatility costs cutoff) speeds)
          (\<lambda>components. combine components previous)))"

section \<open>Breakout\<close>

definition horizons :: "nat list" where
  [model_defs]: "horizons = [10, 20, 40, 80, 160, 320]"

text \<open>One window of the loop over \<^verbatim>\<open>end\<close>: a window without range restarts the values.\<close>

definition breakout_step :: "bar list \<Rightarrow> nat \<Rightarrow> nat \<Rightarrow> decimal list \<Rightarrow> decimal list" where
  [model_defs]: "breakout_step bars horizon last_end values =
     (let window = slice (last_end - horizon) last_end bars;
          high = max_of (map b_high window);
          low = min_of (map b_low window)
      in if high = low then []
         else values @ [rnd34 (rnd34 (40 * rnd34 (b_close (last window) - rnd34 (rnd34 (high + low) / 2))) / rnd34 (high - low))])"

definition breakout_values :: "bar list \<Rightarrow> nat \<Rightarrow> decimal list" where
  [model_defs]: "breakout_values bars horizon = fold (breakout_step bars horizon) [horizon..<length bars + 1] []"

definition breakout_raw :: "bar list \<Rightarrow> nat \<Rightarrow> strategy_error + decimal option" where
  [model_defs]: "breakout_raw bars horizon =
     (let period = (horizon + 3) div 4; values = breakout_values bars horizon
      in if 3 * period \<le> length values then and_then (ema values period) (\<lambda>v. Inr (Some v)) else Inr None)"

definition breakout_component ::
  "bar list \<Rightarrow> decimal option \<Rightarrow> cost_table \<Rightarrow> instant \<Rightarrow> nat \<Rightarrow> strategy_error + component" where
  [model_defs]: "breakout_component bars volatility costs cutoff horizon =
     and_then (breakout_raw bars horizon)
       (\<lambda>raw. component_of (''breakout-'' @ show_nat horizon) raw volatility costs cutoff)"

definition breakout :: "zone \<Rightarrow> bar list \<Rightarrow> cost_table \<Rightarrow> instant \<Rightarrow> decimal \<Rightarrow> strategy_error + forecast" where
  [model_defs]: "breakout z bars costs cutoff previous =
     (let bars = (if contiguous z bars then bars else []) in
      and_then (sigma (map b_close bars))
        (\<lambda>volatility. and_then (collect (breakout_component bars volatility costs cutoff) horizons)
          (\<lambda>components. combine components previous)))"

section \<open>Averages stay within their values\<close>

lemma ctx_round_idem:
  assumes "0 < p"
  shows "ctx_round p (ctx_round p x) = ctx_round p x"
proof -
  have pos: "ctx_round p (ctx_round p y) = ctx_round p y" if y: "0 < y" for y
  proof -
    let ?n = "round_half_even (y / ctx_quantum p y)"
    define k where "k = adjusted \<bar>y\<bar> + 1 - int p"
    have k: "ctx_quantum p y = 10 powi k" unfolding k_def ctx_quantum_def by (rule refl)
    have k2: "adjusted y + 1 = int p + k" using y unfolding k_def by simp
    have r: "ctx_round p y = of_int ?n * 10 powi k" using y by (simp add: ctx_round_def k)
    have scale: "(10 :: rat) powi (int p + k) = 10 ^ p * 10 powi k" by (simp add: power_int_add)
    have "of_int ?n * (10 :: rat) powi k \<le> 10 ^ p * 10 powi k"
      using ctx_round_decade(2) [OF y assms] unfolding r k2 scale .
    then have "(of_int ?n :: rat) \<le> of_int (10 ^ p)" by simp
    then have le: "?n \<le> 10 ^ p" by (simp only: of_int_le_iff)
    have "0 \<le> ?n" using y by (intro round_half_even_nonneg) (simp add: less_imp_le)
    show ?thesis
    proof (cases "?n = 10 ^ p")
      case True
      have "ctx_round p y = of_int 1 * 10 powi (int p + k)" unfolding scale using r True by simp
      then show ?thesis by (rule ctx_round_exact) (use assms in simp)
    next
      case False
      then have "\<bar>?n\<bar> < 10 ^ p" using le \<open>0 \<le> ?n\<close> by simp
      then show ?thesis using ctx_round_exact [OF r] by blast
    qed
  qed
  consider "x = 0" | "0 < x" | "0 < - x" by linarith
  then show ?thesis
  proof cases
    case 3
    then have "ctx_round p (ctx_round p (- x)) = ctx_round p (- x)" by (rule pos)
    then show ?thesis by (simp add: ctx_round_minus)
  qed (simp_all add: pos)
qed

lemma rnd34_idem [simp]: "rnd34 (rnd34 x) = rnd34 x"
  by (rule ctx_round_idem) simp

definition smoothed :: "decimal \<Rightarrow> decimal \<Rightarrow> decimal \<Rightarrow> decimal" where
  "smoothed alpha v x = rnd34 (v + rnd34 (alpha * rnd34 (x - v)))"

lemma smoothed_minus: "smoothed alpha (- v) (- x) = - smoothed alpha v x"
proof -
  have d: "rnd34 (- x - - v) = - rnd34 (x - v)" using ctx_round_minus [of 34 "x - v"] by simp
  have e: "rnd34 (alpha * (- rnd34 (x - v))) = - rnd34 (alpha * rnd34 (x - v))"
    using ctx_round_minus [of 34 "alpha * rnd34 (x - v)"] by simp
  have "rnd34 (- v + - rnd34 (alpha * rnd34 (x - v))) = - rnd34 (v + rnd34 (alpha * rnd34 (x - v)))"
    using ctx_round_minus [of 34 "v + rnd34 (alpha * rnd34 (x - v))"] by simp
  then show ?thesis unfolding smoothed_def d e .
qed

lemma rnd34_slack: "0 \<le> y \<Longrightarrow> rnd34 y \<le> y * (11 / 10)"
proof -
  assume y: "0 \<le> y"
  have "\<bar>rnd34 y - y\<bar> \<le> y * (10 / (2 * 10 ^ 34))" using ctx_round_relative_error [of 34 y] y by simp
  also have "\<dots> \<le> y * (1 / 10)" using y by (intro mult_left_mono) simp_all
  finally show ?thesis by linarith
qed

text \<open>Two roundings enlarge the step by less than the factor leaves room for.\<close>

lemma smoothed_up:
  assumes "0 \<le> alpha" "alpha \<le> 7 / 10" "rnd34 v = v" "rnd34 x = x" "v \<le> x"
  shows "v \<le> smoothed alpha v x" "smoothed alpha v x \<le> x"
proof -
  let ?d = "rnd34 (x - v)"
  let ?e = "rnd34 (alpha * ?d)"
  have d: "0 \<le> ?d" using assms(5) by simp
  have "?d \<le> (x - v) * (11 / 10)" using assms(5) by (intro rnd34_slack) simp
  then have "alpha * ?d \<le> 7 / 10 * ((x - v) * (11 / 10))" using assms(1,2,5) d by (intro mult_mono) auto
  moreover have nonneg: "0 \<le> alpha * ?d" using assms(1) d by simp
  then have "?e \<le> alpha * ?d * (11 / 10)" by (rule rnd34_slack)
  ultimately have "?e \<le> x - v" using assms(5) by simp
  then have "rnd34 (v + ?e) \<le> rnd34 x" by (intro ctx34.rnd_mono) simp
  then show "smoothed alpha v x \<le> x" using assms(4) by (simp add: smoothed_def)
  have "rnd34 v \<le> rnd34 (v + ?e)" using nonneg by (intro ctx34.rnd_mono) simp
  then show "v \<le> smoothed alpha v x" using assms(3) by (simp add: smoothed_def)
qed

lemma smoothed_between:
  assumes "0 \<le> alpha" "alpha \<le> 7 / 10" "rnd34 v = v" "rnd34 x = x"
  shows "min v x \<le> smoothed alpha v x \<and> smoothed alpha v x \<le> max v x"
proof (cases "v \<le> x")
  case True
  then show ?thesis using smoothed_up [OF assms] by simp
next
  case False
  then have "- v \<le> smoothed alpha (- v) (- x)" "smoothed alpha (- v) (- x) \<le> - x"
    using smoothed_up [OF assms(1,2), of "- v" "- x"] assms(3,4) by (simp_all add: ctx_round_minus)
  then show ?thesis using False by (simp add: smoothed_minus)
qed

lemma ema_from_between:
  assumes "0 \<le> alpha" "alpha \<le> 7 / 10"
  shows "rnd34 v = v \<Longrightarrow> \<forall>x \<in> set xs. rnd34 x = x \<Longrightarrow> \<forall>x \<in> insert v (set xs). lo \<le> x \<and> x \<le> hi
    \<Longrightarrow> lo \<le> ema_from alpha v xs \<and> ema_from alpha v xs \<le> hi \<and> rnd34 (ema_from alpha v xs) = ema_from alpha v xs"
proof (induction xs arbitrary: v)
  case (Cons x xs)
  have "min v x \<le> smoothed alpha v x \<and> smoothed alpha v x \<le> max v x"
    using Cons.prems by (intro smoothed_between [OF assms]) auto
  then have "lo \<le> smoothed alpha v x \<and> smoothed alpha v x \<le> hi" using Cons.prems(3) by (auto simp: min_def max_def split: if_splits)
  moreover have "rnd34 (smoothed alpha v x) = smoothed alpha v x" by (simp add: smoothed_def)
  ultimately have "lo \<le> ema_from alpha (smoothed alpha v x) xs \<and> ema_from alpha (smoothed alpha v x) xs \<le> hi \<and>
      rnd34 (ema_from alpha (smoothed alpha v x) xs) = ema_from alpha (smoothed alpha v x) xs"
    using Cons.prems by (intro Cons.IH) auto
  then show ?case by (simp add: smoothed_def)
qed simp

lemma ema_alpha:
  assumes "2 \<le> period"
  shows "0 \<le> rnd34 (2 / of_nat (period + 1))" "rnd34 (2 / of_nat (period + 1)) \<le> 7 / 10"
proof -
  have "(2 :: rat) / of_nat (period + 1) \<le> 7 / 10" using assms by (simp add: field_simps)
  then have "rnd34 (2 / of_nat (period + 1)) \<le> rnd34 (7 / 10)" by (rule ctx34.rnd_mono)
  also have "rnd34 (7 / 10) = 7 / 10" by (rule ctx_round_exact [of _ 7 "-1"]) (simp_all add: power_int_minus)
  finally show "rnd34 (2 / of_nat (period + 1)) \<le> 7 / 10" .
qed simp

text \<open>An exponential average of prices never leaves the range of the prices it averages: the roundings of
  its steps cannot push it past the smallest or the largest value.\<close>

lemma ema_stays_within_values:
  assumes "values \<noteq> []" "2 \<le> period" "\<forall>x \<in> set values. rnd34 x = x"
  shows "\<exists>v. ema values period = Inr v \<and> min_of values \<le> v \<and> v \<le> max_of values"
proof -
  obtain v vs where v: "values = v # vs" using assms(1) by (cases "values") auto
  have "\<forall>x \<in> insert v (set vs). min_of values \<le> x \<and> x \<le> max_of values"
    using min_of_le max_of_ge v by (metis list.simps(15))
  then show ?thesis
    using ema_from_between [OF ema_alpha [OF assms(2)], of v vs "min_of values" "max_of values"] assms(2,3) v
    by (simp add: ema_def)
qed

text \<open>The spans of the program.\<close>

section \<open>Forecasts are sound\<close>

lemma rnd34_numerals [simp]: "rnd34 1 = 1" "rnd34 20 = 20" "rnd34 (- 20) = - 20"
  using ctx_round_exact [of 1 1 0 34] ctx_round_exact [of 20 20 0 34] ctx_round_exact [of "- 20" "- 20" 0 34] by simp_all

lemma cap_bounds: "- 20 \<le> cap v" "cap v \<le> 20"
  by (simp_all add: cap_def)

lemma rnd34_cap: "rnd34 v = v \<Longrightarrow> rnd34 (cap v) = cap v"
  by (simp add: cap_def ctx34.rnd_max ctx34.rnd_min)

text \<open>The buffer follows the target without passing it.\<close>

lemma buffer_between:
  assumes "\<bar>previous\<bar> \<le> 20" "rnd34 previous = previous" "rnd34 target = target"
  shows "\<exists>b. buffer target previous = Inr b \<and> min previous target \<le> b \<and> b \<le> max previous target"
proof -
  let ?d = "rnd34 (target - previous)"
  have up: "1 < target - previous" if "1 < ?d" using that ctx34.rnd_mono [of "target - previous" 1] by fastforce
  have down: "target - previous < - 1" if "?d < - 1"
    using that ctx34.rnd_mono [of "- 1" "target - previous"] ctx_round_minus [of 34 1] by fastforce
  have "previous \<le> rnd34 (target - 1) \<and> rnd34 (target - 1) \<le> target" if "1 < ?d"
    using ctx34.rnd_mono [of previous "target - 1"] ctx34.rnd_mono [of "target - 1" target] up [OF that] assms(2,3) by simp
  moreover have "target \<le> rnd34 (target + 1) \<and> rnd34 (target + 1) \<le> previous" if "?d < - 1"
    using ctx34.rnd_mono [of "target + 1" previous] ctx34.rnd_mono [of target "target + 1"] down [OF that] assms(2,3) by simp
  moreover have "buffer target previous = Inr (if \<bar>?d\<bar> \<le> 1 then previous else if 0 < ?d then rnd34 (target - 1) else rnd34 (target + 1))"
    using assms(1) by (simp add: buffer_def Let_def)
  moreover have "\<bar>?d\<bar> \<le> 1 \<or> 1 < ?d \<and> \<not> \<bar>?d\<bar> \<le> 1 \<and> 0 < ?d \<or> ?d < - 1 \<and> \<not> \<bar>?d\<bar> \<le> 1 \<and> \<not> 0 < ?d" by linarith
  ultimately show ?thesis by (elim disjE conjE) (simp_all only: if_True if_False, auto)
qed

definition included :: "component list \<Rightarrow> decimal list" where
  "included components = List.map_filter (\<lambda>c. if cp_exclusion c = None then cp_capped c else None) components"

text \<open>A forecast is missing exactly when nothing is included; otherwise it is the capped mean of the included
  components, and the buffered value lies between the previous and the new one.\<close>

definition well_combined :: "decimal \<Rightarrow> forecast \<Rightarrow> bool" where
  "well_combined previous fc \<longleftrightarrow>
     (if included (fc_components fc) = [] then fc_value fc = None \<and> fc_buffered fc = None
      else (\<exists>v b. fc_value fc = Some v \<and> fc_buffered fc = Some b \<and>
        v = cap (rnd34 (py_sum rnd34 (included (fc_components fc)) / of_nat (length (included (fc_components fc))))) \<and>
        \<bar>v\<bar> \<le> 20 \<and> \<bar>b\<bar> \<le> 20 \<and> min previous v \<le> b \<and> b \<le> max previous v))"

lemma combine_sound:
  assumes "\<bar>previous\<bar> \<le> 20" "rnd34 previous = previous"
  shows "\<exists>fc. combine components previous = Inr fc \<and> fc_components fc = components \<and> well_combined previous fc"
proof (cases "included components = []")
  case True
  then show ?thesis by (simp add: combine_def make_forecast_def well_combined_def included_def)
next
  case False
  let ?v = "cap (rnd34 (py_sum rnd34 (included components) / of_nat (length (included components))))"
  obtain b where b: "buffer ?v previous = Inr b" "min previous ?v \<le> b" "b \<le> max previous ?v"
    using buffer_between [OF assms rnd34_cap] by (meson rnd34_idem)
  have v: "\<bar>?v\<bar> \<le> 20" using cap_bounds abs_le_iff minus_le_iff by blast
  then have "\<bar>b\<bar> \<le> 20" using b(2,3) assms(1) by (auto simp: min_def max_def split: if_splits)
  then show ?thesis using False b v
    by (simp add: combine_def make_forecast_def well_combined_def included_def Let_def)
qed

text \<open>A component is included only on evidence that is ready at the cutoff and affordable.\<close>

definition affordable :: "cost_table \<Rightarrow> instant \<Rightarrow> decimal option \<Rightarrow> component \<Rightarrow> bool" where
  "affordable costs cutoff volatility c \<longleftrightarrow>
     (\<exists>vol cost r. volatility = Some vol \<and> map_of costs (cp_name c) = Some cost \<and>
        cost_readiness cost cutoff (cp_name c) = None \<and> cost_roundtrip cost = Inr r \<and> rnd34 (r / vol) \<le> 1 / 10)"

lemma ready_roundtrip: "cost_readiness c cutoff name = None \<Longrightarrow> \<exists>r. cost_roundtrip c = Inr r"
  by (auto simp: cost_readiness_def cost_roundtrip_def split: if_splits)

lemma component_sound:
  "\<exists>c. component_of name raw volatility costs cutoff = Inr c \<and> (cp_exclusion c = None \<longrightarrow> affordable costs cutoff volatility c)"
proof (cases raw)
  case None
  then show ?thesis by (simp add: component_of_def)
next
  case (Some r)
  have "\<exists>reason. component_exclusion name volatility costs cutoff = Inr reason \<and>
      (reason = None \<longrightarrow> affordable costs cutoff volatility \<lparr>cp_name = name, cp_raw = raw, cp_capped = Some (cap r), cp_exclusion = None\<rparr>)"
    using ready_roundtrip by (fastforce simp: component_exclusion_def affordable_def split: option.split)
  then show ?thesis using Some by (auto simp: component_of_def)
qed

lemma collect_sound: "(\<And>x. x \<in> set xs \<Longrightarrow> \<exists>y. f x = Inr y \<and> P y) \<Longrightarrow> \<exists>ys. collect f xs = Inr ys \<and> (\<forall>y \<in> set ys. P y)"
proof (induction xs)
  case (Cons x xs)
  obtain y where "f x = Inr y" "P y" using Cons.prems by force
  moreover obtain ys where "collect f xs = Inr ys" "\<forall>y \<in> set ys. P y" using Cons by force
  ultimately show ?case by simp
qed simp

lemma ema_total: "xs \<noteq> [] \<Longrightarrow> 1 \<le> n \<Longrightarrow> \<exists>v. ema xs n = Inr v"
  by (cases xs) (simp_all add: ema_def)

lemma squared_differences_nonempty: "2 \<le> length xs \<Longrightarrow> squared_differences xs \<noteq> []"
  by (cases xs rule: squared_differences.cases) simp_all

lemma sigma_total: "\<exists>v. sigma closes = Inr v \<and> (\<forall>x. v = Some x \<longrightarrow> 0 < x)"
proof (cases "length closes < 97")
  case False
  then obtain v where "ema (squared_differences closes) 32 = Inr v"
    using ema_total [OF squared_differences_nonempty, of closes 32] by auto
  then show ?thesis using False dec_sqrt_pos by (simp add: sigma_def)
qed (simp add: sigma_def)

lemma crossover_total: "1 \<le> fast \<Longrightarrow> 1 \<le> slow \<Longrightarrow> \<exists>raw. crossover_raw closes volatility fast slow scalar = Inr raw"
proof (cases "max (3 * slow) 97 \<le> length closes")
  case True
  assume spans: "1 \<le> fast" "1 \<le> slow"
  have "closes \<noteq> []" using True by auto
  then obtain f s where "ema closes fast = Inr f" "ema closes slow = Inr s" using ema_total spans by blast
  then show ?thesis using True by (simp add: crossover_raw_def split: option.split)
qed (auto simp: crossover_raw_def split: option.split)

lemma breakout_total: "1 \<le> horizon \<Longrightarrow> \<exists>raw. breakout_raw bars horizon = Inr raw"
proof (cases "3 * ((horizon + 3) div 4) \<le> length (breakout_values bars horizon)")
  case True
  assume "1 \<le> horizon"
  then have p: "1 \<le> (horizon + 3) div 4" by simp
  then have "breakout_values bars horizon \<noteq> []" using True by auto
  then obtain v where "ema (breakout_values bars horizon) ((horizon + 3) div 4) = Inr v" using ema_total p by blast
  then show ?thesis using True by (simp add: breakout_raw_def Let_def)
qed (simp add: breakout_raw_def Let_def)

text \<open>Both forecasts.\<close>

definition sound_forecast :: "zone \<Rightarrow> bar list \<Rightarrow> cost_table \<Rightarrow> instant \<Rightarrow> decimal \<Rightarrow> forecast \<Rightarrow> bool" where
  "sound_forecast z bars costs cutoff previous fc \<longleftrightarrow>
     well_combined previous fc \<and>
     (\<forall>volatility. sigma (if contiguous z bars then map b_close bars else []) = Inr volatility \<longrightarrow>
        (\<forall>c \<in> set (fc_components fc). cp_exclusion c = None \<longrightarrow> affordable costs cutoff volatility c))"

lemma forecast_sound:
  assumes "\<bar>previous\<bar> \<le> 20" "rnd34 previous = previous"
    and "\<And>v x. x \<in> set xs \<Longrightarrow> \<exists>c. f v x = Inr c \<and> (cp_exclusion c = None \<longrightarrow> affordable costs cutoff v c)"
    and "sigma (if contiguous z bars then map b_close bars else []) = Inr vol"
  shows "\<exists>fc. and_then (collect (f vol) xs) (\<lambda>cs. combine cs previous) = Inr fc \<and> sound_forecast z bars costs cutoff previous fc"
proof -
  obtain cs where cs: "collect (f vol) xs = Inr cs" "\<forall>c \<in> set cs. cp_exclusion c = None \<longrightarrow> affordable costs cutoff vol c"
    using collect_sound [of xs "f vol" "\<lambda>c. cp_exclusion c = None \<longrightarrow> affordable costs cutoff vol c"] assms(3) by blast
  obtain fc where "combine cs previous = Inr fc" "fc_components fc = cs" "well_combined previous fc"
    using combine_sound [OF assms(1,2)] by blast
  then show ?thesis using cs assms(4) by (auto simp: sound_forecast_def)
qed

text \<open>C14: A trend forecast always comes out and keeps its contract. From a previous forecast within the bounds
  neither \<^verbatim>\<open>ewmac\<close> nor \<^verbatim>\<open>breakout\<close> raises, whatever the bars and the cost evidence; the forecast is missing exactly
  when no component is included, otherwise it is the capped mean of the included ones within twenty, its buffered
  value lies between the previous forecast and the new one, and a component is included only when its cost
  evidence is ready at the cutoff and a round trip costs at most a tenth of the volatility.\<close>

theorem trend_forecasts_are_sound:
  assumes "\<bar>previous\<bar> \<le> 20" "rnd34 previous = previous"
  shows "(\<exists>fc. ewmac z bars costs cutoff previous = Inr fc \<and> sound_forecast z bars costs cutoff previous fc) \<and>
    (\<exists>fc. breakout z bars costs cutoff previous = Inr fc \<and> sound_forecast z bars costs cutoff previous fc)"
proof -
  let ?closes = "if contiguous z bars then map b_close bars else []"
  let ?bars = "if contiguous z bars then bars else []"
  obtain vol where vol: "sigma ?closes = Inr vol" using sigma_total by blast
  have closes: "map b_close ?bars = ?closes" by simp
  have "\<exists>c. crossover_component ?closes v costs cutoff x = Inr c \<and> (cp_exclusion c = None \<longrightarrow> affordable costs cutoff v c)"
    if "x \<in> set speeds" for v x
  proof -
    obtain fast slow scalar where x: "x = (fast, slow, scalar)" by (cases x)
    then have "1 \<le> fast" "1 \<le> slow" using that by (auto simp: speeds_def)
    then obtain raw where "crossover_raw ?closes v fast slow scalar = Inr raw" using crossover_total by blast
    then show ?thesis using component_sound x by (simp add: crossover_component_def)
  qed
  from forecast_sound [OF assms, of speeds "\<lambda>v. crossover_component ?closes v costs cutoff", OF this vol]
  have one: "\<exists>fc. ewmac z bars costs cutoff previous = Inr fc \<and> sound_forecast z bars costs cutoff previous fc"
    unfolding ewmac_def Let_def vol and_then_simps .
  have "\<exists>c. breakout_component ?bars v costs cutoff x = Inr c \<and> (cp_exclusion c = None \<longrightarrow> affordable costs cutoff v c)"
    if "x \<in> set horizons" for v x
  proof -
    have "1 \<le> x" using that by (auto simp: horizons_def)
    then obtain raw where "breakout_raw ?bars x = Inr raw" using breakout_total by blast
    then show ?thesis using component_sound by (simp add: breakout_component_def)
  qed
  from forecast_sound [OF assms, of horizons "\<lambda>v. breakout_component ?bars v costs cutoff", OF this vol]
  have two: "\<exists>fc. breakout z bars costs cutoff previous = Inr fc \<and> sound_forecast z bars costs cutoff previous fc"
    unfolding breakout_def Let_def closes vol and_then_simps .
  show ?thesis using one two by (rule conjI)
qed

theorem trend_forecasts_are_sound_witness:
  "\<exists>fc. ewmac (fixed_zone 0) [] [] 0 5 = Inr fc \<and> sound_forecast (fixed_zone 0) [] [] 0 5 fc"
proof -
  have "rnd34 5 = 5" using ctx_round_exact [of 5 5 0 34] by simp
  then show ?thesis using trend_forecasts_are_sound [of 5] by simp
qed

end
