(* ===== verification/Candidates.thy ===== *)
theory Candidates
  imports Trend "HOL-Library.Char_ord" "HOL-Library.List_Lexorder"
begin

text \<open>
  \<^verbatim>\<open>market/strategy/setups.py\<close>, \<^verbatim>\<open>orb.py\<close>, \<^verbatim>\<open>structure.py\<close> and the setup and snapshot of \<^verbatim>\<open>contracts.py\<close>: the
  candidates for a trade. A snapshot holds the bars it cites, its cutoff, and the descriptor payload as a
  record of the keys the code reads, a missing key being \<open>None\<close>; texts of instants and prices are the
  values they print. Evidence lists hold the texts the code collects.

  The lemmas show that a candidate that is returned is causal and keeps its geometry, and that on a
  calendar whose session times are ordered \<open>candidate\<close> raises two errors only: a chronology error for an explicit
  exit that is not after the expiry, and a price error.
\<close>

section \<open>The snapshot\<close>

record trend_fact =
  tf_state :: "string option"
  tf_version :: "string option"
  tf_classification :: "string option"

record zone_fact =
  zf_id :: string
  zf_invalidated :: "bool option"
  zf_expired :: "bool option"
  zf_tests :: "int option"
  zf_age :: "int option"
  zf_available_at :: instant
  zf_low :: decimal
  zf_high :: decimal

record zones_fact =
  zs_state :: "string option"
  zs_version :: "string option"
  zs_zones :: "zone_fact list"

record consolidation_fact =
  kf_state :: "string option"
  kf_version :: "string option"
  kf_inside :: "bool option"
  kf_low :: decimal
  kf_high :: decimal

record level_fact =
  lf_status :: "string option"
  lf_level_id :: string
  lf_level :: decimal
  lf_breach_at :: instant
  lf_confirmation_at :: instant
  lf_confirmation_available_at :: instant

record liquidity_fact =
  qf_state :: "string option"
  qf_version :: "string option"
  qf_sweep_above :: "level_fact option"
  qf_sweep_below :: "level_fact option"
  qf_acceptance_above :: "level_fact option"
  qf_acceptance_below :: "level_fact option"

record break_fact =
  bf_state :: "string option"
  bf_version :: "string option"
  bf_broken :: "bool option"
  bf_direction :: "string option"

record gap_fact =
  gf_created_at :: "instant option"
  gf_direction :: "string option"
  gf_qualification :: "string option"
  gf_formation_start :: instant
  gf_available_at :: instant

record gaps_fact =
  gs_version :: "string option"
  gs_gaps :: "gap_fact list"

record spread_fact =
  sf_state :: "string option"
  sf_ratio :: "decimal option"

record block =
  bk_trend :: trend_fact
  bk_break :: break_fact
  bk_zones :: zones_fact
  bk_consolidation :: consolidation_fact
  bk_liquidity :: liquidity_fact
  bk_gaps :: gaps_fact
  bk_spread :: spread_fact

record event_fact =
  ef_type :: "string option"
  ef_window_state :: "string option"
  ef_available_at :: instant
  ef_starts_at :: instant
  ef_ends_at :: instant
  ef_vintage_id :: string

record snapshot =
  sn_bars :: "bar list"
  sn_cutoff :: instant
  sn_blocks :: "granularity \<Rightarrow> block"
  sn_event_version :: "string option"
  sn_events :: "event_fact list"

text \<open>\<^verbatim>\<open>SnapshotInput.series\<close>, and with \<open>outcome\<close> the variant that keeps a series with gaps.\<close>

definition series :: "zone \<Rightarrow> snapshot \<Rightarrow> granularity \<Rightarrow> instant option \<Rightarrow> bool \<Rightarrow> bar list" where
  [model_defs]: "series z s g before outcome =
     (let values = sort_key timestamp (filter (\<lambda>b. gran b = g \<and> (case before of None \<Rightarrow> True | Some t \<Rightarrow> available_at b \<le> t)) (sn_bars s))
      in if \<not> outcome \<and> \<not> contiguous z values then [] else values)"

text \<open>The checks of the bars of a snapshot: the input manifest cites exactly them, and each was available
  and is a sane candle.\<close>

datatype snapshot_error = UncitedObservation | UnavailableObservation | InvalidOhlc

type_synonym citation = "granularity \<times> instant \<times> int \<times> string"

definition citation_of :: "bar \<Rightarrow> citation" where
  [model_defs]: "citation_of b = (gran b, timestamp b, revision b, content_sha b)"

definition sane_candle :: "bar \<Rightarrow> bool" where
  [model_defs]: "sane_candle b \<longleftrightarrow> 0 < b_open b \<and> 0 < b_high b \<and> 0 < b_low b \<and> 0 < b_close b \<and>
     b_low b \<le> min (b_open b) (b_close b) \<and> max (b_open b) (b_close b) \<le> b_high b"

fun check_bars :: "instant \<Rightarrow> bar list \<Rightarrow> snapshot_error option" where
  "check_bars cutoff [] = None"
| "check_bars cutoff (b # bs) =
     (if end_at b = None \<or> observed_at b = None \<or> cutoff < available_at b then Some UnavailableObservation
      else if \<not> sane_candle b then Some InvalidOhlc
      else check_bars cutoff bs)"

definition check_snapshot :: "citation list \<Rightarrow> snapshot \<Rightarrow> snapshot_error option" where
  [model_defs]: "check_snapshot manifest s =
     (let actual = remdups (map citation_of (sn_bars s)) in
      if set manifest \<noteq> set actual \<or> length actual \<noteq> length (sn_bars s) then Some UncitedObservation
      else check_bars (sn_cutoff s) (sn_bars s))"

section \<open>A setup candidate\<close>

record setup_candidate =
  sc_direction :: int
  sc_available_at :: instant
  sc_signal_start :: instant
  sc_granularity :: granularity
  sc_reference :: decimal
  sc_stop :: decimal
  sc_target :: decimal
  sc_entry_at :: instant
  sc_expires_at :: instant
  sc_exit_at :: instant
  sc_evidence :: "string list"

text \<open>\<open>signed d x\<close> is the product of a direction and a decimal.\<close>

definition signed :: "int \<Rightarrow> decimal \<Rightarrow> decimal" where
  [model_defs]: "signed d x = rnd34 (of_int d * x)"

text \<open>\<^verbatim>\<open>SetupCandidate.__post_init__\<close>.\<close>

definition check_setup :: "setup_candidate \<Rightarrow> strategy_error option" where
  [model_defs]: "check_setup c =
     (if sc_direction c \<notin> {-1, 1} \<or> sc_granularity c \<notin> {GM15, GH1} then Some SetupInterval
      else if \<not> (sc_signal_start c < sc_available_at c \<and> sc_available_at c \<le> sc_entry_at c \<and> sc_entry_at c \<le> sc_expires_at c
          \<and> sc_expires_at c < sc_exit_at c) then Some SetupChronology
      else if \<not> (0 < sc_reference c \<and> 0 < sc_stop c \<and> 0 < sc_target c) then Some SetupPrice
      else if signed (sc_direction c) (rnd34 (sc_reference c - sc_stop c)) \<le> 0
          \<or> signed (sc_direction c) (rnd34 (sc_target c - sc_reference c)) \<le> 0 then Some SetupGeometry
      else None)"

definition make_setup :: "setup_candidate \<Rightarrow> strategy_error + setup_candidate feature" where
  [model_defs]: "make_setup c = (case check_setup c of Some e \<Rightarrow> Inl e | None \<Rightarrow> Inr (Available c))"

definition successor :: "zone \<Rightarrow> instant \<Rightarrow> granularity \<Rightarrow> strategy_error + instant" where
  [model_defs]: "successor z t g = (case registered_successor z t g of None \<Rightarrow> Inl NoSuccessor | Some u \<Rightarrow> Inr u)"

fun advance :: "zone \<Rightarrow> granularity \<Rightarrow> nat \<Rightarrow> instant \<Rightarrow> strategy_error + instant" where
  "advance z g 0 t = Inr t"
| "advance z g (Suc n) t = and_then (successor z t g) (advance z g n)"

record candidate_options =
  co_target :: "decimal option"
  co_available :: "instant option"
  co_periods :: nat
  co_exit :: "instant option"
  co_evidence :: "string list"

definition default_options :: candidate_options where
  [model_defs]: "default_options = \<lparr>co_target = None, co_available = None, co_periods = 8, co_exit = None, co_evidence = []\<rparr>"

definition candidate ::
  "zone \<Rightarrow> bar \<Rightarrow> int \<Rightarrow> decimal \<Rightarrow> candidate_options \<Rightarrow> strategy_error + setup_candidate feature" where
  [model_defs]: "candidate z signal direction stop opts =
     (let available = max (available_at signal) (case co_available opts of None \<Rightarrow> available_at signal | Some t \<Rightarrow> t) in
      and_then (successor z (timestamp signal) (gran signal)) (\<lambda>first.
      and_then (successor z first (gran signal)) (\<lambda>expiry.
        (let entry = (if first < available then expiry else first) in
         if expiry < available then Inr (Unavailable ''confirmation_too_late_for_next_interval'')
         else and_then (advance z (gran signal) (co_periods opts) entry) (\<lambda>finish.
           (let risk = signed direction (rnd34 (b_close signal - stop)) in
            if risk \<le> 0 then Inr (Unavailable ''invalid_geometry'')
            else
              (let target = (case co_target opts of None \<Rightarrow> rnd34 (b_close signal + rnd34 (of_int (direction * 2) * risk)) | Some t \<Rightarrow> t)
               in if signed direction (rnd34 (target - b_close signal)) \<le> 0 then Inr (Unavailable ''target_not_ahead'')
                  else make_setup \<lparr>sc_direction = direction, sc_available_at = available, sc_signal_start = timestamp signal,
                    sc_granularity = gran signal, sc_reference = b_close signal, sc_stop = stop, sc_target = target,
                    sc_entry_at = entry, sc_expires_at = expiry,
                    sc_exit_at = (case co_exit opts of None \<Rightarrow> finish | Some t \<Rightarrow> t),
                    sc_evidence = co_evidence opts @ [content_sha signal]\<rparr>)))))))"

section \<open>Setups\<close>

record risk_overlay =
  ro_multiplier :: "decimal option"
  ro_reason :: string
  ro_evidence :: "string list"

text \<open>\<^verbatim>\<open>RiskOverlay\<close> with its \<^verbatim>\<open>__post_init__\<close>.\<close>

definition make_overlay :: "decimal option \<Rightarrow> string \<Rightarrow> string list \<Rightarrow> strategy_error + risk_overlay" where
  [model_defs]: "make_overlay m reason evidence =
     (if (\<exists>x \<in> set_option m. \<not> (0 \<le> x \<and> x \<le> 1)) then Inl RiskBounds
      else Inr \<lparr>ro_multiplier = m, ro_reason = reason, ro_evidence = evidence\<rparr>)"

definition mean_reversion_risk :: "decimal option \<Rightarrow> decimal option \<Rightarrow> strategy_error + risk_overlay" where
  [model_defs]: "mean_reversion_risk current prior =
     (case (current, prior) of
        (Some c, Some p) \<Rightarrow>
          if c \<le> 0 \<or> p \<le> 0 then make_overlay None ''daily_volatility_unavailable'' []
          else make_overlay (Some (if 3 / 2 < rnd34 (c / p) then 1 / 2 else 1)) ''frozen_high_vol_reduction'' []
      | _ \<Rightarrow> make_overlay None ''daily_volatility_unavailable'' [])"

fun true_ranges :: "bar list \<Rightarrow> decimal list" where
  "true_ranges (a # b # bs) =
     max (rnd34 (b_high b - b_low b)) (max \<bar>rnd34 (b_high b - b_close a)\<bar> \<bar>rnd34 (b_low b - b_close a)\<bar>) # true_ranges (b # bs)"
| "true_ranges _ = []"

definition strategy_atr :: "zone \<Rightarrow> bar list \<Rightarrow> decimal option" where
  [model_defs]: "strategy_atr z bars =
     (if length bars < 15 \<or> \<not> contiguous z (last_n 15 bars) then None
      else (let v = rnd34 (py_sum rnd34 (true_ranges (last_n 15 bars)) / 14) in if 0 < v then Some v else None))"

definition latest_available :: "bar list \<Rightarrow> instant" where
  [model_defs]: "latest_available bars = max_of (map available_at bars)"

text \<open>The decision of \<^verbatim>\<open>fast_mean_reversion\<close> once the volatilities are known.\<close>

definition mean_reversion_at ::
  "zone \<Rightarrow> bar list \<Rightarrow> bar list \<Rightarrow> decimal \<Rightarrow> decimal \<Rightarrow> decimal \<Rightarrow> strategy_error + setup_candidate feature" where
  [model_defs]: "mean_reversion_at z hourly daily volatility current prior =
     (let closes = map b_close daily; signal = last hourly in
      and_then (ema closes 5) (\<lambda>equilibrium. and_then (ema closes 16) (\<lambda>e16. and_then (ema closes 64) (\<lambda>e64.
        (let deviation = rnd34 (rnd34 (equilibrium - b_close signal) / volatility); trend = rnd34 (e16 - e64)
         in if \<bar>deviation\<bar> < 1 \<or> rnd34 (deviation * trend) \<le> 0 then Inr (Unavailable ''no_aligned_deviation'')
            else
              (let direction = (if 0 < deviation then 1 else -1) in
               candidate z signal direction
                 (rnd34 (b_close signal - rnd34 (signed direction (3 / 2) * volatility)))
                 \<lparr>co_target = Some equilibrium, co_available = Some (latest_available (last_n 15 hourly)), co_periods = 6,
                  co_exit = None, co_evidence = map content_sha daily @
                    [if 3 / 2 < rnd34 (current / prior) then ''high_vol_half'' else ''normal_vol'']\<rparr>))))))"

definition fast_mean_reversion :: "zone \<Rightarrow> snapshot \<Rightarrow> strategy_error + setup_candidate feature" where
  [model_defs]: "fast_mean_reversion z s =
     (let hourly = series z s GH1 None False in
      if hourly = [] then Inr (Unavailable ''h1_unavailable'')
      else
        (let daily = series z s GD (Some (timestamp (last hourly))) False in
         case strategy_atr z hourly of
           None \<Rightarrow> Inr (Unavailable ''warmup_or_gap'')
         | Some volatility \<Rightarrow>
             if length daily < 192 then Inr (Unavailable ''warmup_or_gap'')
             else
               and_then (sigma (map b_close daily)) (\<lambda>current. and_then (sigma (butlast (map b_close daily))) (\<lambda>prior.
                 case (current, prior) of
                   (Some c, Some p) \<Rightarrow> mean_reversion_at z hourly daily volatility c p
                 | _ \<Rightarrow> Inr (Unavailable ''daily_volatility_unavailable'')))))"

section \<open>Opening range\<close>

datatype orb_session = London | NewYork

datatype orb_variant = OrbWick | OrbConfirmed | OrbFvg

text \<open>\<^verbatim>\<open>session_open_utc\<close> of \<^verbatim>\<open>market/state/sessions.py\<close>: both sessions open at eight on their own clock. A date is
  its number of days.\<close>

definition session_open_utc :: "(orb_session \<Rightarrow> zone) \<Rightarrow> int \<Rightarrow> orb_session \<Rightarrow> instant" where
  [model_defs]: "session_open_utc zones date session = to_utc (zones session) (days date + hours 8)"

text \<open>Whether a bar breaks the opening range upwards and downwards.\<close>

definition orb_breaks :: "orb_variant \<Rightarrow> bar \<Rightarrow> bar \<Rightarrow> bool \<times> bool" where
  [model_defs]: "orb_breaks variant opening signal =
     (if variant = OrbWick then (b_high opening < b_high signal, b_low signal < b_low opening)
      else (b_high opening < b_close signal, b_close signal < b_low opening))"

text \<open>The availability that the gap variant adds, or the reason it is not met.\<close>

definition orb_gap :: "snapshot \<Rightarrow> bar list \<Rightarrow> nat \<Rightarrow> int \<Rightarrow> instant feature" where
  [model_defs]: "orb_gap s bars i direction =
     (let block = bk_gaps (sn_blocks s GM15);
          gaps = filter (\<lambda>g. gf_created_at g = Some (end_or_start (bars ! i))
                   \<and> gf_direction g = Some (if direction = 1 then ''bullish'' else ''bearish'')
                   \<and> gf_qualification g = Some ''available'') (gs_gaps block)
      in case gaps of
           [gap] \<Rightarrow>
             if gs_version block \<noteq> Some ''fvg-v1'' then Unavailable ''same_direction_fvg_unavailable''
             else if i < 2 \<or> gf_formation_start gap \<noteq> timestamp (bars ! (i - 2)) then Unavailable ''fvg_interval_mismatch''
             else Available (gf_available_at gap)
         | _ \<Rightarrow> Unavailable ''same_direction_fvg_unavailable'')"

text \<open>The spread of the confirming bar when it is known, positive and at most a tenth of the volatility.\<close>

definition filter_spread :: "decimal option \<Rightarrow> decimal \<Rightarrow> decimal option" where
  [model_defs]: "filter_spread spread volatility =
     (case spread of None \<Rightarrow> None | Some x \<Rightarrow> if x \<le> 0 \<or> 1 / 10 < rnd34 (x / volatility) then None else Some x)"

text \<open>The first attempt: the bar at \<open>i\<close> broke the range in the direction.\<close>

definition orb_attempt ::
  "zone \<Rightarrow> snapshot \<Rightarrow> instant \<Rightarrow> orb_variant \<Rightarrow> bar list \<Rightarrow> nat \<Rightarrow> decimal \<Rightarrow> nat \<Rightarrow> int
     \<Rightarrow> strategy_error + setup_candidate feature" where
  [model_defs]: "orb_attempt z s start variant bars k volatility i direction =
     (let opening = bars ! k; signal = bars ! i; window = slice (k - 14) (i + 1) bars in
      case filter_spread (b_spread signal) volatility of
        None \<Rightarrow> Inr (Unavailable ''confirmation_spread_unavailable_or_wide'')
      | Some spread \<Rightarrow>
          (case (if variant = OrbFvg then orb_gap s bars i direction else Available (latest_available window)) of
             Unavailable reason \<Rightarrow> Inr (Unavailable reason)
           | Available t \<Rightarrow>
               (let margin = max (rnd34 (1 / 4 * volatility)) (rnd34 (2 * spread));
                    stop = (if direction = 1 then rnd34 (b_low opening - margin) else rnd34 (b_high opening + margin))
                in candidate z signal direction stop
                     (default_options\<lparr>co_available := Some (max (latest_available window) t), co_exit := Some (start + hours 8),
                       co_evidence := map content_sha window\<rparr>))))"

text \<open>The loop over the bars after the opening one; the first attempt ends it.\<close>

fun orb_scan ::
  "zone \<Rightarrow> snapshot \<Rightarrow> instant \<Rightarrow> orb_variant \<Rightarrow> bar list \<Rightarrow> nat \<Rightarrow> decimal \<Rightarrow> nat list
     \<Rightarrow> strategy_error + setup_candidate feature" where
  "orb_scan z s start variant bars k volatility [] = Inr (Unavailable ''no_confirmation_before_expiry'')"
| "orb_scan z s start variant bars k volatility (i # is) =
     (if start + hours 2 < end_or_start (bars ! i) then Inr (Unavailable ''no_confirmation_before_expiry'')
      else if \<not> contiguous z (slice k (i + 1) bars) then Inr (Unavailable ''session_gap'')
      else
        (let (above, below) = orb_breaks variant (bars ! k) (bars ! i) in
         if variant = OrbWick \<and> above \<and> below then Inr (Unavailable ''ambiguous_dual_breach'')
         else if \<not> above \<and> \<not> below then orb_scan z s start variant bars k volatility is
         else orb_attempt z s start variant bars k volatility i (if above then 1 else -1)))"

definition opening_range_setup ::
  "zone \<Rightarrow> (orb_session \<Rightarrow> zone) \<Rightarrow> snapshot \<Rightarrow> orb_session \<Rightarrow> int \<Rightarrow> orb_variant \<Rightarrow> strategy_error + setup_candidate feature" where
  [model_defs]: "opening_range_setup z zones s session date variant =
     (if 5 \<le> weekday (days date) then Inr (Unavailable ''weekend_session'')
      else
        (let start = session_open_utc zones date session; bars = series z s GM15 None False in
         case find_index (\<lambda>b. timestamp b = start) bars of
           None \<Rightarrow> Inr (Unavailable ''opening_interval_missing'')
         | Some k \<Rightarrow>
             (case strategy_atr z (take (k + 1) bars) of
                None \<Rightarrow> Inr (Unavailable ''opening_atr_unavailable'')
              | Some volatility \<Rightarrow>
                  (let width = rnd34 (rnd34 (b_high (bars ! k) - b_low (bars ! k)) / volatility) in
                   if \<not> (1 / 4 \<le> width \<and> width \<le> 2) then Inr (Unavailable ''opening_range_geometry'')
                   else orb_scan z s start variant bars k volatility [k + 1..<length bars]))))"

section \<open>Structure\<close>

definition trend_of :: "snapshot \<Rightarrow> granularity \<Rightarrow> string option" where
  [model_defs]: "trend_of s g =
     (let fact = bk_trend (sn_blocks s g) in
      if tf_state fact = Some ''available'' \<and> tf_version fact = Some ''trend-v1'' then tf_classification fact else None)"

definition continuation :: "bar \<Rightarrow> bar \<Rightarrow> int \<Rightarrow> bool" where
  [model_defs]: "continuation rejection signal direction \<longleftrightarrow>
     (if direction = 1 then b_high rejection < b_close signal else b_close signal < b_low rejection)"

definition zone_qualifies :: "zone_fact \<Rightarrow> bar \<Rightarrow> bool" where
  [model_defs]: "zone_qualifies f rejection \<longleftrightarrow>
     \<not> (zf_invalidated f \<noteq> Some False \<or> zf_expired f \<noteq> Some False
        \<or> (case zf_tests f of None \<Rightarrow> 0 | Some n \<Rightarrow> n) < 2 \<or> 200 < (case zf_age f of None \<Rightarrow> 201 | Some n \<Rightarrow> n)
        \<or> timestamp rejection < zf_available_at f)"

definition zone_rejected :: "zone_fact \<Rightarrow> bar \<Rightarrow> bar \<Rightarrow> int \<Rightarrow> bool" where
  [model_defs]: "zone_rejected f rejection signal direction \<longleftrightarrow>
     b_low rejection \<le> zf_high f \<and> zf_low f \<le> b_high rejection
     \<and> (if direction = 1 then zf_high f < b_close rejection else b_close rejection < zf_low f)
     \<and> continuation rejection signal direction"

definition pullback_from ::
  "zone \<Rightarrow> bar list \<Rightarrow> decimal \<Rightarrow> int \<Rightarrow> zone_fact \<Rightarrow> strategy_error + setup_candidate feature" where
  [model_defs]: "pullback_from z bars volatility direction f =
     (let margin = rnd34 (1 / 4 * volatility);
          stop = (if direction = 1 then rnd34 (zf_low f - margin) else rnd34 (zf_high f + margin))
      in candidate z (last bars) direction stop
           (default_options\<lparr>co_available := Some (latest_available (last_n 15 bars)),
             co_evidence := [zf_id f, content_sha (bars ! (length bars - 2))]\<rparr>))"

definition pullback :: "zone \<Rightarrow> snapshot \<Rightarrow> granularity \<Rightarrow> strategy_error + setup_candidate feature" where
  [model_defs]: "pullback z s timeframe =
     (if timeframe \<notin> {GM15, GH1} then Inl UnsupportedPullback
      else
        (let bars = series z s timeframe None False in
         case strategy_atr z bars of
           None \<Rightarrow> Inr (Unavailable ''signal_atr_unavailable'')
         | Some volatility \<Rightarrow>
             (let rejection = bars ! (length bars - 2); signal = last bars; trend = trend_of s GD in
              if trend \<notin> {Some ''uptrend'', Some ''downtrend''} \<or> trend \<noteq> trend_of s GH4
              then Inr (Unavailable ''htf_alignment_unavailable'')
              else if list_ex (\<lambda>g. series z s g None False = [] \<or> timestamp rejection < latest_available (series z s g None False)) [GD, GH4]
              then Inr (Unavailable ''htf_not_available_before_rejection'')
              else
                (let direction = (if trend = Some ''uptrend'' then 1 else -1); zones = bk_zones (sn_blocks s GH4) in
                 if zs_state zones \<noteq> Some ''available'' \<or> zs_version zones \<noteq> Some ''zone-v1''
                 then Inr (Unavailable ''qualified_zone_unavailable'')
                 else
                   (case List.find (\<lambda>f. zone_qualifies f rejection \<and> zone_rejected f rejection signal direction)
                          (sort_key zf_id (zs_zones zones)) of
                      Some f \<Rightarrow> pullback_from z bars volatility direction f
                    | None \<Rightarrow> Inr (Unavailable ''no_qualified_pullback''))))))"

definition range_geometry ::
  "zone \<Rightarrow> bar \<Rightarrow> bar \<Rightarrow> decimal \<Rightarrow> decimal \<Rightarrow> decimal \<Rightarrow> strategy_error + setup_candidate feature" where
  [model_defs]: "range_geometry z signal rejection low high volatility =
     (if high \<le> low then Inr (Unavailable ''zero_range'')
      else
        (let tenth = rnd34 (rnd34 (high - low) / 10);
             lower = rnd34 (low + tenth); upper = rnd34 (high - tenth);
             long = (b_low rejection \<le> lower \<and> lower < b_close rejection \<and> low \<le> b_high rejection);
             short = (upper \<le> b_high rejection \<and> b_close rejection < upper \<and> b_low rejection \<le> high)
         in if long = short then Inr (Unavailable ''not_a_unique_range_edge'')
            else
              (let direction = (if long then 1 else -1) in
               if \<not> continuation rejection signal direction then Inr (Unavailable ''range_continuation_unavailable'')
               else
                 (let boundary = (if long then low else high) in
                  candidate z signal direction (rnd34 (boundary - rnd34 (signed direction (1 / 4) * volatility)))
                    (default_options\<lparr>co_target := Some (rnd34 (rnd34 (low + high) / 2))\<rparr>)))))"

definition range_reversion :: "zone \<Rightarrow> snapshot \<Rightarrow> strategy_error + setup_candidate feature" where
  [model_defs]: "range_reversion z s =
     (let bars = series z s GM15 None False in
      case strategy_atr z bars of
        None \<Rightarrow> Inr (Unavailable ''sideways_regime_unavailable'')
      | Some volatility \<Rightarrow>
          if trend_of s GD \<noteq> Some ''range'' then Inr (Unavailable ''sideways_regime_unavailable'')
          else
            (let fact = bk_consolidation (sn_blocks s GH4) in
             if kf_state fact \<noteq> Some ''available'' \<or> kf_version fact \<noteq> Some ''consolidation-v1'' \<or> kf_inside fact \<noteq> Some True
             then Inr (Unavailable ''range_or_breakout_unavailable'')
             else
               (case range_geometry z (last bars) (bars ! (length bars - 2)) (kf_low fact) (kf_high fact) volatility of
                  Inl e \<Rightarrow> Inl e
                | Inr (Unavailable reason) \<Rightarrow> Inr (Unavailable reason)
                | Inr (Available c) \<Rightarrow> Inr (Unavailable ''event_expansion_clearance_unavailable''))))"

text \<open>One side of \<^verbatim>\<open>failed_break\<close>: \<open>None\<close> when it does not match.\<close>

definition failed_break_match ::
  "zone \<Rightarrow> snapshot \<Rightarrow> bool \<Rightarrow> bar list \<Rightarrow> decimal \<Rightarrow> bool \<Rightarrow> (strategy_error + setup_candidate feature) option" where
  [model_defs]: "failed_break_match z s accept bars volatility upside =
     (let facts = bk_liquidity (sn_blocks s GH1); bos = bk_break (sn_blocks s GM15); signal = last bars;
          event = (if accept then if upside then qf_acceptance_above facts else qf_acceptance_below facts
                   else if upside then qf_sweep_above facts else qf_sweep_below facts);
          direction = (if upside then 1 else -1) * (if accept then 1 else -1)
      in case event of
           None \<Rightarrow> None
         | Some e \<Rightarrow>
             if lf_status e \<noteq> Some ''confirmed'' \<or> bf_direction bos \<noteq> Some (if direction = 1 then ''up'' else ''down'')
                \<or> timestamp signal < lf_confirmation_available_at e
             then None
             else
               (let excursion = filter (\<lambda>b. lf_breach_at e \<le> end_or_start b \<and> end_or_start b \<le> lf_confirmation_at e)
                      (series z s GH1 None False);
                    boundary = (if accept then lf_level e
                                else if direction = 1 then min_of (map b_low excursion) else max_of (map b_high excursion))
                in if \<not> accept \<and> excursion = [] then None
                   else Some (candidate z signal direction (rnd34 (boundary - rnd34 (signed direction (1 / 4) * volatility)))
                          (default_options\<lparr>co_available := Some (latest_available bars), co_evidence := [lf_level_id e]\<rparr>))))"

definition failed_break :: "zone \<Rightarrow> snapshot \<Rightarrow> bool \<Rightarrow> strategy_error + setup_candidate feature" where
  [model_defs]: "failed_break z s accept =
     (let bars = series z s GM15 None False; hourly = series z s GH1 None False in
      case strategy_atr z bars of
        None \<Rightarrow> Inr (Unavailable ''signal_atr_unavailable'')
      | Some volatility \<Rightarrow>
          if hourly = [] \<or> timestamp (last bars) < latest_available hourly
          then Inr (Unavailable ''h1_level_not_available_before_m15_confirmation'')
          else
            (let facts = bk_liquidity (sn_blocks s GH1); bos = bk_break (sn_blocks s GM15) in
             if qf_state facts \<noteq> Some ''available'' \<or> qf_version facts \<noteq> Some ''sweep-v2'' \<or> bf_state bos \<noteq> Some ''available''
                \<or> bf_version bos \<noteq> Some ''bos-v1'' \<or> bf_broken bos \<noteq> Some True
             then Inr (Unavailable ''confirmed_structure_unavailable'')
             else
               and_then (collect id (List.map_filter (failed_break_match z s accept bars volatility) [True, False]))
                 (\<lambda>matches. case matches of [m] \<Rightarrow> Inr m | _ \<Rightarrow> Inr (Unavailable ''no_unique_confirmed_failed_break''))))"

section \<open>Candidates keep their contract\<close>

text \<open>On the New York clock session times are in the order of their instants: the clock changes on Sundays at
  two, when the market is closed (and once, in 1942, on a Monday: see \<open>faithful_zone\<close>).\<close>

definition session_ordered :: "zone \<Rightarrow> bool" where
  "session_ordered z \<longleftrightarrow> (\<forall>t u. session_wall_time (to_local z t) \<longrightarrow> session_wall_time (to_local z u)
     \<longrightarrow> to_local z t < to_local z u \<longrightarrow> t < u)"

lemma session_ordered_fixed: "session_ordered (fixed_zone off)"
  by (simp add: session_ordered_def fixed_zone_def)

abbreviation aligned :: "zone \<Rightarrow> granularity \<Rightarrow> instant \<Rightarrow> bool" where
  "aligned z g t \<equiv> range_start_aligned (to_local z t) g"

lemma successor_later:
  assumes "faithful_zone z" "session_ordered z" "aligned z g t" "g \<in> {GM15, GH1}"
  obtains u where "successor z t g = Inr u" "aligned z g u" "t < u"
proof -
  have "registered_step g \<noteq> None" using assms(4) by auto
  then obtain u where u: "registered_successor z t g = Some u" "aligned z g u" "to_local z t + minutes 15 \<le> to_local z u"
    using successor_registered [OF assms(1,3)] by blast
  then have "to_local z t < to_local z u" by (simp add: duration_defs)
  then have "t < u" using assms(2,3) u(2) range_start_session_time unfolding session_ordered_def by blast
  then show ?thesis using u that by (simp add: successor_def)
qed

lemma advance_later:
  assumes "faithful_zone z" "session_ordered z" "g \<in> {GM15, GH1}"
  shows "aligned z g t \<Longrightarrow> \<exists>u. advance z g n t = Inr u \<and> t \<le> u \<and> (0 < n \<longrightarrow> t < u)"
proof (induction n arbitrary: t)
  case (Suc n)
  obtain u where u: "successor z t g = Inr u" "aligned z g u" "t < u"
    by (rule successor_later [OF assms(1,2) Suc.prems assms(3)])
  obtain v where "advance z g n u = Inr v" "u \<le> v" using Suc.IH [OF u(2)] by blast
  then show ?case using u by auto
qed simp

lemma signed_pos_iff [simp]: "0 < signed d x \<longleftrightarrow> 0 < of_int d * x" "signed d x \<le> 0 \<longleftrightarrow> of_int d * x \<le> 0"
  by (simp_all add: signed_def)

text \<open>The ways out of \<open>candidate\<close>.\<close>

lemma candidate_cases:
  assumes "candidate z signal direction stop opts = r"
    and first: "successor z (timestamp signal) (gran signal) = Inr first"
    and expiry: "successor z first (gran signal) = Inr expiry"
  defines "available \<equiv> max (available_at signal) (case co_available opts of None \<Rightarrow> available_at signal | Some t \<Rightarrow> t)"
  defines "entry \<equiv> if first < available then expiry else first"
  obtains (late) "r = Inr (Unavailable ''confirmation_too_late_for_next_interval'')" "expiry < available"
  | (stuck) e where "r = Inl e" "advance z (gran signal) (co_periods opts) entry = Inl e" "available \<le> expiry"
  | (geometry) reason where "r = Inr (Unavailable reason)"
  | (built) c finish where "r = make_setup c" "advance z (gran signal) (co_periods opts) entry = Inr finish"
      "available \<le> expiry" "sc_direction c = direction" "sc_available_at c = available" "sc_signal_start c = timestamp signal"
      "sc_granularity c = gran signal" "sc_reference c = b_close signal" "sc_stop c = stop" "sc_entry_at c = entry"
      "sc_expires_at c = expiry" "sc_exit_at c = (case co_exit opts of None \<Rightarrow> finish | Some t \<Rightarrow> t)"
      "0 < of_int direction * (b_close signal - stop)" "0 < of_int direction * (sc_target c - b_close signal)"
proof (cases "expiry < available")
  case True
  then show ?thesis using late assms(1) first expiry by (simp add: candidate_def available_def Let_def)
next
  case False
  show ?thesis
  proof (cases "advance z (gran signal) (co_periods opts) entry")
    case (Inl e)
    then have "candidate z signal direction stop opts = Inl e"
      using False first expiry by (simp add: candidate_def available_def entry_def Let_def)
    then show ?thesis using stuck Inl False assms(1) by auto
  next
    case (Inr finish)
    let ?risk = "signed direction (rnd34 (b_close signal - stop))"
    define target where "target = (case co_target opts of None \<Rightarrow> rnd34 (b_close signal + rnd34 (of_int (direction * 2) * ?risk)) | Some t \<Rightarrow> t)"
    define c where "c = \<lparr>sc_direction = direction, sc_available_at = available, sc_signal_start = timestamp signal,
        sc_granularity = gran signal, sc_reference = b_close signal, sc_stop = stop, sc_target = target,
        sc_entry_at = entry, sc_expires_at = expiry, sc_exit_at = (case co_exit opts of None \<Rightarrow> finish | Some t \<Rightarrow> t),
        sc_evidence = co_evidence opts @ [content_sha signal]\<rparr>"
    have run: "r = (if ?risk \<le> 0 then Inr (Unavailable ''invalid_geometry'')
        else if signed direction (rnd34 (target - b_close signal)) \<le> 0 then Inr (Unavailable ''target_not_ahead'') else make_setup c)"
      using False Inr first expiry unfolding assms(1) [symmetric] candidate_def c_def target_def available_def entry_def
      by (simp add: Let_def)
    show ?thesis
    proof (cases "?risk \<le> 0 \<or> signed direction (rnd34 (target - b_close signal)) \<le> 0")
      case True
      then show ?thesis using geometry run by (metis (full_types))
    next
      case ok: False
      then have "0 < of_int direction * rnd34 (b_close signal - stop)" "0 < of_int direction * rnd34 (target - b_close signal)"
        by simp_all
      then have "0 < of_int direction * (b_close signal - stop)" "0 < of_int direction * (target - b_close signal)"
        by (simp_all add: zero_less_mult_iff)
      moreover have "r = make_setup c" using run ok by simp
      ultimately show ?thesis using built [of c finish] Inr False by (simp add: c_def)
    qed
  qed
qed

text \<open>The exit passed explicitly, as the opening range strategies pass theirs, is not after the expiry of the
  signal, the second registered interval start after it.\<close>

definition exit_by_expiry :: "zone \<Rightarrow> bar \<Rightarrow> candidate_options \<Rightarrow> bool" where
  "exit_by_expiry z signal opts \<longleftrightarrow>
     (case (co_exit opts, and_then (successor z (timestamp signal) (gran signal)) (\<lambda>first. successor z first (gran signal))) of
        (Some t, Inr expiry) \<Rightarrow> t \<le> expiry
      | _ \<Rightarrow> False)"

lemma default_exit_late:
  assumes z: "faithful_zone z" "session_ordered z" "g \<in> {GM15, GH1}"
    and "successor z first g = Inr expiry" "aligned z g expiry" "entry \<in> {first, expiry}"
    and "advance z g n entry = Inr finish" "2 \<le> n"
  shows "expiry < finish"
proof -
  obtain m where m: "n = Suc m" "0 < m" using assms(8) by (cases n) simp_all
  show ?thesis
  proof (cases "entry = expiry")
    case True
    then show ?thesis using advance_later [OF z assms(5), of n] assms(7) m(1) by force
  next
    case False
    then have "advance z g m expiry = Inr finish" using assms(4,6,7) m(1) by simp
    then show ?thesis using advance_later [OF z assms(5), of m] m(2) by force
  qed
qed

lemma check_setup_prices:
  assumes "sc_direction c \<in> {-1, 1}" "sc_granularity c \<in> {GM15, GH1}" "sc_signal_start c < sc_available_at c"
    and "sc_available_at c \<le> sc_entry_at c" "sc_entry_at c \<le> sc_expires_at c"
    and "0 < of_int (sc_direction c) * (sc_reference c - sc_stop c)" "0 < of_int (sc_direction c) * (sc_target c - sc_reference c)"
  shows "check_setup c = (if sc_exit_at c \<le> sc_expires_at c then Some SetupChronology
    else if sc_stop c \<le> 0 \<or> sc_target c \<le> 0 then Some SetupPrice else None)"
proof -
  have "\<not> (signed (sc_direction c) (rnd34 (sc_reference c - sc_stop c)) \<le> 0 \<or> signed (sc_direction c) (rnd34 (sc_target c - sc_reference c)) \<le> 0)"
    using assms(1,6,7) by auto
  moreover have "0 < sc_reference c \<and> 0 < sc_stop c \<and> 0 < sc_target c \<longleftrightarrow> 0 < sc_stop c \<and> 0 < sc_target c"
    using assms(1,6,7) by auto
  ultimately show ?thesis using assms(1-5) unfolding check_setup_def by auto
qed

text \<open>C15: Why a candidate fails. Take a zone that is faithful and ordered at session times, a signal
  of a 15 minute or hourly interval that starts on its grid and becomes available after its start, and a direction
  of minus one or one; when no exit is passed, let the setup be held for at least two intervals (the strategies hold
  for six or eight). If \<open>candidate\<close> raises an error, then it is one of two. When an exit was passed that is not
  after the expiry of the signal, it is the chronology error; in every other case it is the price error, which for
  a long setup means that the stop is not positive. So the interval and the geometry that the setup checks hold by
  construction, its chronology does unless the exit comes too early, and every successor it asks for exists.\<close>

theorem candidate_errors_are_explained:
  assumes "faithful_zone z" "session_ordered z" "gran signal \<in> {GM15, GH1}" "aligned z (gran signal) (timestamp signal)"
    and "timestamp signal < available_at signal" "direction \<in> {-1, 1}" "co_exit opts = None \<longrightarrow> 2 \<le> co_periods opts"
    and "candidate z signal direction stop opts = Inl e"
  shows "(e = SetupChronology \<and> exit_by_expiry z signal opts) \<or>
    (e = SetupPrice \<and> \<not> exit_by_expiry z signal opts \<and> (direction = 1 \<longrightarrow> stop \<le> 0))"
proof -
  obtain first where f: "successor z (timestamp signal) (gran signal) = Inr first" "aligned z (gran signal) first" "timestamp signal < first"
    by (rule successor_later [OF assms(1,2,4,3)])
  obtain expiry where x: "successor z first (gran signal) = Inr expiry" "aligned z (gran signal) expiry" "first < expiry"
    by (rule successor_later [OF assms(1,2) f(2) assms(3)])
  have early: "exit_by_expiry z signal opts \<longleftrightarrow> (\<exists>t. co_exit opts = Some t \<and> t \<le> expiry)"
    using f(1) x(1) by (simp add: exit_by_expiry_def split: option.splits)
  show ?thesis using assms(8) f(1) x(1)
  proof (cases rule: candidate_cases)
    case (stuck e')
    obtain u where "advance z (gran signal) (co_periods opts) first = Inr u" using advance_later [OF assms(1-3) f(2)] by blast
    moreover obtain v where "advance z (gran signal) (co_periods opts) expiry = Inr v" using advance_later [OF assms(1-3) x(2)] by blast
    ultimately show ?thesis using stuck(2) by (simp split: if_splits)
  next
    case (built c finish)
    have "sc_entry_at c \<in> {first, expiry}" using built(10) by simp
    then have "co_exit opts = None \<longrightarrow> expiry < finish"
      using default_exit_late [OF assms(1-3) x(1,2)] built(2,10) assms(7) by metis
    then have exit: "sc_exit_at c \<le> sc_expires_at c \<longleftrightarrow> exit_by_expiry z signal opts"
      unfolding early using built(11,12) by (auto split: option.splits)
    have "sc_available_at c \<le> sc_entry_at c" "sc_entry_at c \<le> sc_expires_at c" using built(3,5,10,11) x(3) by auto
    moreover have "sc_signal_start c < sc_available_at c" using assms(5) built(5,6) by auto
    moreover have prices: "0 < of_int (sc_direction c) * (sc_reference c - sc_stop c)" "0 < of_int (sc_direction c) * (sc_target c - sc_reference c)"
      using built(4,8,9,13,14) by simp_all
    ultimately have "check_setup c = (if exit_by_expiry z signal opts then Some SetupChronology
        else if sc_stop c \<le> 0 \<or> sc_target c \<le> 0 then Some SetupPrice else None)"
      using check_setup_prices [of c] built(4,7) assms(3,6) exit by simp
    moreover have "check_setup c = Some e" using built(1) by (simp add: make_setup_def split: option.splits)
    ultimately have "(e = SetupChronology \<and> exit_by_expiry z signal opts) \<or>
        (e = SetupPrice \<and> \<not> exit_by_expiry z signal opts \<and> (sc_stop c \<le> 0 \<or> sc_target c \<le> 0))"
      by (simp split: if_splits)
    moreover have "direction = 1 \<longrightarrow> sc_stop c < sc_target c" using prices built(4) by auto
    ultimately show ?thesis using built(9) by auto
  qed simp_all
qed

text \<open>What a candidate of a strategy promises of the snapshot it was computed from.\<close>

definition causal_candidate :: "snapshot \<Rightarrow> setup_candidate \<Rightarrow> bool" where
  "causal_candidate s c \<longleftrightarrow>
     (\<exists>signal \<in> set (sn_bars s). sc_signal_start c = timestamp signal \<and> sc_reference c = b_close signal \<and>
        sc_granularity c = gran signal \<and> available_at signal \<le> sc_available_at c) \<and>
     sc_signal_start c < sc_available_at c \<and> sc_available_at c \<le> sc_entry_at c \<and> sc_entry_at c \<le> sc_expires_at c \<and>
     sc_expires_at c < sc_exit_at c \<and> 0 < sc_reference c \<and> 0 < sc_stop c \<and> 0 < sc_target c \<and>
     0 < of_int (sc_direction c) * (sc_reference c - sc_stop c) \<and> 0 < of_int (sc_direction c) * (sc_target c - sc_reference c)"

lemma make_setup_SomeD: "make_setup c = Inr (Available d) \<Longrightarrow> d = c \<and> check_setup c = None"
  by (auto simp: make_setup_def split: option.splits)

lemma candidate_causal:
  assumes "candidate z signal direction stop opts = Inr (Available c)" "signal \<in> set (sn_bars s)"
  shows "causal_candidate s c"
proof -
  obtain first where f: "successor z (timestamp signal) (gran signal) = Inr first"
    using assms(1) by (cases "successor z (timestamp signal) (gran signal)") (auto simp: candidate_def Let_def)
  obtain expiry where x: "successor z first (gran signal) = Inr expiry"
    using assms(1) f by (cases "successor z first (gran signal)") (auto simp: candidate_def Let_def)
  show ?thesis using assms(1) f x
  proof (cases rule: candidate_cases)
    case (built d finish)
    then have d: "c = d" "check_setup d = None" using make_setup_SomeD by metis+
    then have "sc_signal_start d < sc_available_at d" "sc_available_at d \<le> sc_entry_at d" "sc_entry_at d \<le> sc_expires_at d"
      "sc_expires_at d < sc_exit_at d" "0 < sc_reference d" "0 < sc_stop d" "0 < sc_target d"
      by (auto simp: check_setup_def split: if_splits)
    then show ?thesis using built assms(2) d(1) by (auto simp: causal_candidate_def)
  qed simp_all
qed

lemma series_in: "b \<in> set (series z s g before outcome) \<Longrightarrow> b \<in> set (sn_bars s)"
  by (auto simp: series_def Let_def split: if_splits)

lemma strategy_atr_length: "strategy_atr z bars = Some v \<Longrightarrow> 15 \<le> length bars"
  by (auto simp: strategy_atr_def split: if_splits)

lemma last_of_series: "strategy_atr z (series z s g before outcome) = Some v \<Longrightarrow> last (series z s g before outcome) \<in> set (sn_bars s)"
  by (rule series_in [OF last_in_set]) (auto dest: strategy_atr_length)

lemma guarded [simp]: "((if P then Inr (Unavailable m) else x) = Inr (Available c)) \<longleftrightarrow> \<not> P \<and> x = Inr (Available c)"
  by simp

lemma mean_reversion_at_candidate:
  "mean_reversion_at z hourly daily volatility p q = Inr (Available c) \<Longrightarrow> \<exists>d stop opts. candidate z (last hourly) d stop opts = Inr (Available c)"
  unfolding mean_reversion_at_def Let_def and_then_Inr guarded by blast

lemma fast_mean_reversion_causal:
  assumes "fast_mean_reversion z s = Inr (Available c)"
  shows "causal_candidate s c"
proof -
  let ?hours = "series z s GH1 None False"
  obtain v where v: "strategy_atr z ?hours = Some v"
    using assms by (cases "strategy_atr z ?hours") (auto simp: fast_mean_reversion_def Let_def)
  obtain daily x y where xy: "(case (x, y) of (Some p, Some q) \<Rightarrow> mean_reversion_at z ?hours daily v p q
      | _ \<Rightarrow> Inr (Unavailable ''daily_volatility_unavailable'')) = Inr (Available c)"
    using assms v by (auto simp: fast_mean_reversion_def Let_def and_then_Inr)
  obtain p q where "mean_reversion_at z ?hours daily v p q = Inr (Available c)"
    using xy by (cases x; cases y) auto
  then show ?thesis using mean_reversion_at_candidate candidate_causal last_of_series [OF v] by blast
qed

lemma orb_attempt_causal:
  "orb_attempt z s start variant bars k v i d = Inr (Available c) \<Longrightarrow> bars ! i \<in> set (sn_bars s) \<Longrightarrow> causal_candidate s c"
  by (auto simp: orb_attempt_def Let_def split: option.splits feature.splits intro: candidate_causal)

lemma orb_scan_causal:
  "orb_scan z s start variant bars k v is = Inr (Available c) \<Longrightarrow> \<forall>i \<in> set is. bars ! i \<in> set (sn_bars s) \<Longrightarrow> causal_candidate s c"
  by (induction "is") (auto split: if_splits prod.splits intro: orb_attempt_causal)

lemma opening_range_causal:
  assumes "opening_range_setup z zones s session date variant = Inr (Available c)"
  shows "causal_candidate s c"
proof -
  let ?bars = "series z s GM15 None False"
  obtain start k v where "orb_scan z s start variant ?bars k v [k + 1..<length ?bars] = Inr (Available c)"
    using assms by (auto simp: opening_range_setup_def Let_def split: option.splits)
  moreover have "?bars ! i \<in> set (sn_bars s)" if "i < length ?bars" for i
    by (rule series_in) (rule nth_mem [OF that])
  ultimately show ?thesis by (auto intro: orb_scan_causal)
qed

lemma pullback_causal: "pullback z s timeframe = Inr (Available c) \<Longrightarrow> causal_candidate s c"
  by (auto simp: pullback_def pullback_from_def Let_def split: if_splits option.splits
      intro: candidate_causal last_of_series)

lemma collect_in: "collect f xs = Inr ys \<Longrightarrow> y \<in> set ys \<Longrightarrow> \<exists>x \<in> set xs. f x = Inr y"
  by (induction xs arbitrary: ys) (auto simp: and_then_Inr)

lemma failed_break_match_candidate:
  "failed_break_match z s accept bars v side = Some (Inr (Available c)) \<Longrightarrow> \<exists>d stop opts. candidate z (last bars) d stop opts = Inr (Available c)"
  unfolding failed_break_match_def Let_def by (cases side; cases accept) (auto split: option.splits if_splits)

lemma failed_break_causal:
  assumes "failed_break z s accept = Inr (Available c)"
  shows "causal_candidate s c"
proof -
  let ?bars = "series z s GM15 None False"
  obtain v where v: "strategy_atr z ?bars = Some v"
    using assms by (cases "strategy_atr z ?bars") (auto simp: failed_break_def Let_def)
  let ?f = "failed_break_match z s accept ?bars v"
  obtain matches where m: "collect id (List.map_filter ?f [True, False]) = Inr matches"
    "(case matches of [m] \<Rightarrow> Inr m | _ \<Rightarrow> Inr (Unavailable ''no_unique_confirmed_failed_break'')) = (Inr (Available c) :: strategy_error + setup_candidate feature)"
    using assms v by (auto simp: failed_break_def Let_def and_then_Inr simp del: List.map_filter_simps intro: that)
  then have "Available c \<in> set matches" by (auto split: list.splits)
  then have "Inr (Available c) \<in> set (List.map_filter ?f [True, False])" using collect_in [OF m(1)] by force
  then obtain side where "?f side = Some (Inr (Available c))" by (auto simp: List.map_filter_simps split: option.splits)
  then show ?thesis using failed_break_match_candidate candidate_causal last_of_series [OF v] by blast
qed

lemma range_reversion_never: "range_reversion z s \<noteq> Inr (Available c)"
  by (auto simp: range_reversion_def Let_def split: option.splits if_splits sum.splits feature.splits)

text \<open>No setup strategy looks ahead. Whatever snapshot it runs on, a candidate of the mean reversion, the
  opening range, the pullback or the failed break refers to a bar of the snapshot as its signal, becomes available
  no earlier than that bar, enters no earlier than it becomes available, with positive prices and the stop and the
  target on the two sides of the signal's close; and the range reversion never returns one.\<close>

lemma setup_candidates_are_causal:
  assumes "r \<in> {fast_mean_reversion z s, opening_range_setup z zones s session date variant, pullback z s timeframe,
      failed_break z s accept, range_reversion z s}"
    and "r = Inr (Available c)"
  shows "r \<noteq> range_reversion z s \<and> causal_candidate s c"
proof -
  show ?thesis using assms range_reversion_never [of z s c] fast_mean_reversion_causal opening_range_causal pullback_causal failed_break_causal by auto
qed

lemma orb_scan_extends:
  assumes "orb_scan z s start variant bars k v is = r" "r \<noteq> Inr (Unavailable ''no_confirmation_before_expiry'')"
    and "\<forall>i \<in> set is. i < length bars" "k < length bars" "sn_blocks s' GM15 = sn_blocks s GM15"
  shows "orb_scan z s' start variant (bars @ later) k v (is @ more_indices) = r"
  using assms(1,2,3)
proof (induction "is")
  case (Cons i "is")
  have i: "i < length bars" using Cons.prems(3) by simp
  have nth: "(bars @ later) ! i = bars ! i" "(bars @ later) ! k = bars ! k" using i assms(4) by (simp_all add: nth_append)
  have slices: "slice a (i + 1) (bars @ later) = slice a (i + 1) bars" for a using i by simp
  have before: "(bars @ later) ! (i - 2) = bars ! (i - 2)" using i by (simp add: nth_append)
  have attempt: "orb_attempt z s' start variant (bars @ later) k v i d = orb_attempt z s start variant bars k v i d" for d
    unfolding orb_attempt_def orb_gap_def Let_def nth slices before assms(5) by (rule refl)
  show ?case using Cons.prems Cons.IH nth slices attempt by (auto split: prod.splits if_splits)
qed simp

text \<open>The first attempt to leave the opening range is final. Once the opening range decided, with a candidate or
  with a reason, later bars of the session change nothing: a snapshot whose series extends the old one gives the same
  answer, unless the old answer was that the opening bar or a confirmation had not come yet.\<close>

lemma opening_range_decision_is_final:
  assumes "opening_range_setup z zones s session date variant = r"
    and "r \<noteq> Inr (Unavailable ''no_confirmation_before_expiry'')" "r \<noteq> Inr (Unavailable ''opening_interval_missing'')"
    and "series z s' GM15 None False = series z s GM15 None False @ later" "sn_blocks s' GM15 = sn_blocks s GM15"
  shows "opening_range_setup z zones s' session date variant = r"
proof (cases "5 \<le> weekday (days date)")
  case True
  then show ?thesis using assms(1) by (simp add: opening_range_setup_def)
next
  case False
  let ?bars = "series z s GM15 None False"
  let ?start = "session_open_utc zones date session"
  obtain k where k: "find_index (\<lambda>b. timestamp b = ?start) ?bars = Some k"
    using assms(1,3) False by (auto simp: opening_range_setup_def Let_def split: option.splits)
  then have kl: "k < length ?bars" using find_index_Some by blast
  have k': "find_index (\<lambda>b. timestamp b = ?start) (?bars @ later) = Some k" using k by (simp add: find_index_append)
  have take: "take (k + 1) (?bars @ later) = take (k + 1) ?bars" "(?bars @ later) ! k = ?bars ! k" using kl by (simp_all add: nth_append)
  have indices: "[k + 1..<length (?bars @ later)] = [k + 1..<length ?bars] @ [length ?bars..<length (?bars @ later)]"
    using kl upt_add_eq_append [of "k + 1" "length ?bars" "length later"] by simp
  have scan: "orb_scan z s' ?start variant (?bars @ later) k v [k + 1..<length (?bars @ later)] = r"
    if "orb_scan z s ?start variant ?bars k v [k + 1..<length ?bars] = r" for v
    unfolding indices by (rule orb_scan_extends [OF that assms(2) _ kl assms(5)]) simp
  let ?width = "\<lambda>v. rnd34 (rnd34 (b_high (?bars ! k) - b_low (?bars ! k)) / v)"
  let ?after = "\<lambda>s bars. case strategy_atr z (take (k + 1) ?bars) of None \<Rightarrow> Inr (Unavailable ''opening_atr_unavailable'')
      | Some v \<Rightarrow> if \<not> (1 / 4 \<le> ?width v \<and> ?width v \<le> 2) then Inr (Unavailable ''opening_range_geometry'')
         else orb_scan z s ?start variant bars k v [k + 1..<length bars]"
  have old: "?after s ?bars = r" using assms(1) False unfolding opening_range_setup_def Let_def k option.case by (simp only: if_False)
  have new: "opening_range_setup z zones s' session date variant = ?after s' (?bars @ later)"
    using False unfolding opening_range_setup_def Let_def assms(4) k' option.case take by (simp only: if_False)
  show ?thesis unfolding new
  proof (cases "strategy_atr z (take (k + 1) ?bars)")
    case (Some v)
    show "?after s' (?bars @ later) = r"
    proof (cases "1 / 4 \<le> ?width v \<and> ?width v \<le> 2")
      case True
      then have "orb_scan z s ?start variant ?bars k v [k + 1..<length ?bars] = r" using old unfolding Some by (simp only: option.case not_not if_True if_False simp_thms)
      from scan [OF this] show ?thesis unfolding Some using True by (simp only: option.case not_not if_True if_False simp_thms)
    qed (use old Some in simp)
  qed (use old in simp)
qed

section \<open>A session\<close>

text \<open>A Monday in UTC: fifteen bars up to the opening one, then one that breaks the range upwards.\<close>

definition quarter_bar :: "int \<Rightarrow> decimal \<Rightarrow> bar" where
  "quarter_bar i high = \<lparr>timestamp = days 4 + hours 8 + minutes (15 * i), b_open = 10, b_high = high, b_low = 9, b_close = 10,
     end_at = Some (days 4 + hours 8 + minutes (15 * i + 15)), b_spread = Some (1 / 10), gran = GM15, observed_at = None,
     revision = 1, content_sha = []\<rparr>"

definition morning :: "bar list" where
  "morning = map (\<lambda>i. quarter_bar i 11) [-14..0] @ [quarter_bar 1 12]"

definition empty_block :: block where
  "empty_block = \<lparr>bk_trend = \<lparr>tf_state = None, tf_version = None, tf_classification = None\<rparr>,
     bk_break = \<lparr>bf_state = None, bf_version = None, bf_broken = None, bf_direction = None\<rparr>,
     bk_zones = \<lparr>zs_state = None, zs_version = None, zs_zones = []\<rparr>,
     bk_consolidation = \<lparr>kf_state = None, kf_version = None, kf_inside = None, kf_low = 0, kf_high = 0\<rparr>,
     bk_liquidity = \<lparr>qf_state = None, qf_version = None, qf_sweep_above = None, qf_sweep_below = None,
       qf_acceptance_above = None, qf_acceptance_below = None\<rparr>,
     bk_gaps = \<lparr>gs_version = None, gs_gaps = []\<rparr>, bk_spread = \<lparr>sf_state = None, sf_ratio = None\<rparr>\<rparr>"

definition session_of :: "bar list \<Rightarrow> snapshot" where
  "session_of bars = \<lparr>sn_bars = bars, sn_cutoff = days 4 + hours 8 + minutes 30, sn_blocks = (\<lambda>g. empty_block), sn_event_version = None, sn_events = []\<rparr>"

definition morning_setup :: setup_candidate where
  "morning_setup = \<lparr>sc_direction = 1, sc_available_at = days 4 + hours 8 + minutes 30, sc_signal_start = days 4 + hours 8 + minutes 15,
     sc_granularity = GM15, sc_reference = 10, sc_stop = 17 / 2, sc_target = 13, sc_entry_at = days 4 + hours 8 + minutes 30,
     sc_expires_at = days 4 + hours 8 + minutes 45, sc_exit_at = days 4 + hours 16, 
     sc_evidence = [[], [], [], [], [], [], [], [], [], [], [], [], [], [], [], [], []]\<rparr>"

lemma rnd34_numeral [simp]: "(numeral n :: int) < 10 ^ 34 \<Longrightarrow> rnd34 (numeral n) = numeral n"
  using ctx_round_exact [of "numeral n" "numeral n" 0 34] by simp

lemma rnd34_fractions [simp]:
  "rnd34 (1 / 2) = 1 / 2" "rnd34 (3 / 2) = 3 / 2" "rnd34 (17 / 2) = 17 / 2" "rnd34 (1 / 5) = 1 / 5" "rnd34 (1 / 20) = 1 / 20"
  "rnd34 (- 1) = - 1"
  using ctx_round_exact [of "1 / 2" 5 "-1" 34] ctx_round_exact [of "3 / 2" 15 "-1" 34] ctx_round_exact [of "17 / 2" 85 "-1" 34]
    ctx_round_exact [of "1 / 5" 2 "-1" 34] ctx_round_exact [of "1 / 20" 5 "-2" 34] ctx_round_exact [of "- 1" "- 1" 0 34]
  by (simp_all add: power_int_minus)

lemma morning_list:
  "morning = [quarter_bar (-14) 11, quarter_bar (-13) 11, quarter_bar (-12) 11, quarter_bar (-11) 11, quarter_bar (-10) 11,
     quarter_bar (-9) 11, quarter_bar (-8) 11, quarter_bar (-7) 11, quarter_bar (-6) 11, quarter_bar (-5) 11, quarter_bar (-4) 11,
     quarter_bar (-3) 11, quarter_bar (-2) 11, quarter_bar (-1) 11, quarter_bar 0 11, quarter_bar 1 12]"
  by (simp add: morning_def upto.simps)

lemma quarter_consecutive:
  assumes "- 30 \<le> i" "i \<le> 30"
  shows "bars_are_consecutive (fixed_zone 0) (quarter_bar i h) (quarter_bar (i + 1) h')"
proof -
  let ?k = "hours 8 + minutes (15 * i) + minutes 15"
  have k: "0 \<le> ?k" "time_of_day (days 4) + ?k < days 1" using assms by (simp_all add: duration_defs time_of_day_def)
  have "weekday (days 4 + ?k) = weekday (days 4)" by (rule add_within_day [OF k])
  also have "\<dots> = 0" by (simp add: weekday_def duration_defs)
  finally have "weekday (days 4 + hours 8 + minutes (15 * i) + minutes 15) = 0" by (simp add: add.assoc)
  then show ?thesis
    by (simp add: bars_are_consecutive_def quarter_bar_def registered_successor_def fixed_zone_def Let_def)
      (simp add: duration_defs)
qed

lemma session_series:
  assumes "sorted (map timestamp bars)" "adjacent_all (bars_are_consecutive (fixed_zone 0)) bars" "\<forall>b \<in> set bars. gran b = GM15"
  shows "series (fixed_zone 0) (session_of bars) GM15 None False = bars"
proof -
  have "filter (\<lambda>b. gran b = GM15) bars = bars" using assms(3) by (simp add: filter_id_conv)
  moreover have "sort_key timestamp bars = bars" using assms(1) by (rule sort_key_id_if_sorted)
  ultimately show ?thesis using assms(2) by (simp add: series_def session_of_def contiguous_def Let_def)
qed

lemma morning_adjacent:
  "adjacent_all (bars_are_consecutive (fixed_zone 0)) morning"
  "adjacent_all (bars_are_consecutive (fixed_zone 0)) (morning @ [quarter_bar 2 11])"
proof -
  have step: "bars_are_consecutive (fixed_zone 0) (quarter_bar i h) (quarter_bar j h')" if "j = i + 1" "- 30 \<le> i" "i \<le> 30" for i j h h'
    using quarter_consecutive [of i h h'] that by simp
  show "adjacent_all (bars_are_consecutive (fixed_zone 0)) morning"
    "adjacent_all (bars_are_consecutive (fixed_zone 0)) (morning @ [quarter_bar 2 11])"
    unfolding morning_list by (simp_all add: step)
qed

lemma morning_series:
  "series (fixed_zone 0) (session_of morning) GM15 None False = morning"
  "series (fixed_zone 0) (session_of (morning @ [quarter_bar 2 11])) GM15 None False = morning @ [quarter_bar 2 11]"
proof -
  have sorted: "sorted (map timestamp morning)" "sorted (map timestamp (morning @ [quarter_bar 2 11]))"
    unfolding morning_list by (simp_all add: quarter_bar_def duration_defs)
  have gran: "\<forall>b \<in> set morning. gran b = GM15" "\<forall>b \<in> set (morning @ [quarter_bar 2 11]). gran b = GM15"
    by (auto simp: morning_def quarter_bar_def)
  show "series (fixed_zone 0) (session_of morning) GM15 None False = morning"
    by (rule session_series [OF sorted(1) morning_adjacent(1) gran(1)])
  show "series (fixed_zone 0) (session_of (morning @ [quarter_bar 2 11])) GM15 None False = morning @ [quarter_bar 2 11]"
    by (rule session_series [OF sorted(2) morning_adjacent(2) gran(2)])
qed

lemma morning_atr: "strategy_atr (fixed_zone 0) (take 15 morning) = Some 2"
proof -
  have "take 15 morning = map (\<lambda>i. quarter_bar i 11) [-14..0]" by (simp add: morning_def)
  moreover have "contiguous (fixed_zone 0) (take 15 morning)"
    using morning_adjacent(1) adjacent_all_append1 [of _ "take 15 morning" "drop 15 morning"] by (simp add: contiguous_def)
  moreover have "true_ranges (take 15 morning) = [2, 2, 2, 2, 2, 2, 2, 2, 2, 2, 2, 2, 2, 2]"
    unfolding morning_list by (simp add: quarter_bar_def)
  moreover have "length (take 15 morning) = 15" by (simp add: morning_list)
  ultimately show ?thesis
    by (simp add: strategy_atr_def last_n_def)
qed

lemma quarter_successor: "- 30 \<le> i \<Longrightarrow> i \<le> 30 \<Longrightarrow>
    successor (fixed_zone 0) (days 4 + hours 8 + minutes (15 * i)) GM15 = Inr (days 4 + hours 8 + minutes (15 * (i + 1)))"
  using quarter_consecutive [of i 0 0] by (simp add: bars_are_consecutive_def quarter_bar_def successor_def)

lemma quarter_aligned: "aligned (fixed_zone 0) GM15 (days 4 + hours 8 + minutes 30)"
  by (simp add: range_start_aligned_def fixed_zone_def market_is_open_def weekday_def time_of_day_def minute_of_def duration_defs Let_def)

lemma morning_candidate_of:
  "candidate (fixed_zone 0) (quarter_bar 1 12) 1 (17 / 2)
      (default_options\<lparr>co_available := Some (days 4 + hours 8 + minutes 30), co_exit := Some (days 4 + hours 8 + hours 8),
        co_evidence := es\<rparr>) = Inr (Available (morning_setup\<lparr>sc_evidence := es @ [[]]\<rparr>))"
proof -
  obtain u where u: "advance (fixed_zone 0) GM15 8 (days 4 + hours 8 + minutes 30) = Inr u"
    using advance_later [OF faithful_fixed_zone session_ordered_fixed _ quarter_aligned] by blast
  have steps: "successor (fixed_zone 0) (days 4 + hours 8 + minutes 15) GM15 = Inr (days 4 + hours 8 + minutes 30)"
    "successor (fixed_zone 0) (days 4 + hours 8 + minutes 30) GM15 = Inr (days 4 + hours 8 + minutes 45)"
    using quarter_successor [of 1] quarter_successor [of 2] by simp_all
  have signal: "timestamp (quarter_bar 1 12) = days 4 + hours 8 + minutes 15" "gran (quarter_bar 1 12) = GM15"
    "b_close (quarter_bar 1 12) = 10" "content_sha (quarter_bar 1 12) = []" "available_at (quarter_bar 1 12) = days 4 + hours 8 + minutes 30"
    by (simp_all add: quarter_bar_def available_at_def observation_available_at_def first_known_at_def end_or_start_def duration_defs)
  show ?thesis
    by (simp add: candidate_def default_options_def signal steps u signed_def make_setup_def check_setup_def morning_setup_def Let_def)
      (simp add: duration_defs)
qed

lemma morning_candidate:
  "opening_range_setup (fixed_zone 0) (\<lambda>s. fixed_zone 0) (session_of morning) London 4 OrbWick = Inr (Available morning_setup)"
proof -
  have open_at: "session_open_utc (\<lambda>s. fixed_zone 0) 4 London = days 4 + hours 8"
    by (simp add: session_open_utc_def fixed_zone_def)
  have found: "find_index (\<lambda>b. timestamp b = days 4 + hours 8) morning = Some 14"
    unfolding morning_list by (simp add: quarter_bar_def duration_defs)
  have bars: "morning ! 14 = quarter_bar 0 11" "morning ! 15 = quarter_bar 1 12" "length morning = 16"
    unfolding morning_list by (simp_all add: numeral_eq_Suc)
  have prices: "b_spread (quarter_bar 1 12) = Some (1 / 10)" "b_low (quarter_bar 0 11) = 9" by (simp_all add: quarter_bar_def)
  have window: "slice 0 16 morning = morning" by (simp add: slice_def bars)
  have joined: "contiguous (fixed_zone 0) (slice 14 16 morning)"
    using adjacent_all_slice [OF morning_adjacent(1)] by (simp add: contiguous_def)
  have latest: "latest_available morning = days 4 + hours 8 + minutes 30"
    unfolding morning_list latest_available_def
    by (simp add: quarter_bar_def available_at_def observation_available_at_def first_known_at_def end_or_start_def duration_defs)
  have shas: "map content_sha morning @ [[]] = sc_evidence morning_setup"
    unfolding morning_list by (simp add: quarter_bar_def morning_setup_def)
  have "candidate (fixed_zone 0) (quarter_bar 1 12) 1 (17 / 2)
      (default_options\<lparr>co_available := Some (days 4 + hours 8 + minutes 30), co_exit := Some (days 4 + hours 8 + hours 8),
        co_evidence := map content_sha morning\<rparr>) = Inr (Available morning_setup)"
    unfolding morning_candidate_of shas by simp
  then have attempt: "orb_attempt (fixed_zone 0) (session_of morning) (days 4 + hours 8) OrbWick morning 14 2 15 1 = Inr (Available morning_setup)"
    by (simp add: orb_attempt_def bars prices window latest filter_spread_def Let_def)
  have "orb_scan (fixed_zone 0) (session_of morning) (days 4 + hours 8) OrbWick morning 14 2 [15] = Inr (Available morning_setup)"
    using attempt joined by (simp add: bars orb_breaks_def quarter_bar_def end_or_start_def duration_defs)
  moreover have "weekday (days 4) = 0" by (simp add: weekday_def duration_defs)
  moreover have "[15..<16] = [15]" by (simp add: upt_rec)
  ultimately show ?thesis
    by (simp add: opening_range_setup_def open_at morning_series(1) found morning_atr bars quarter_bar_def Let_def)
qed

lemma morning_errors:
  "candidate (fixed_zone 0) (quarter_bar 1 12) 1 (17 / 2) (default_options\<lparr>co_exit := Some (days 4 + hours 8 + minutes 45)\<rparr>) = Inl SetupChronology"
  "candidate (fixed_zone 0) (quarter_bar 1 12) 1 (- 1) (default_options\<lparr>co_exit := Some (days 4 + hours 8 + hours 8)\<rparr>) = Inl SetupPrice"
proof -
  obtain u where u: "advance (fixed_zone 0) GM15 8 (days 4 + hours 8 + minutes 30) = Inr u"
    using advance_later [OF faithful_fixed_zone session_ordered_fixed _ quarter_aligned] by blast
  have steps: "successor (fixed_zone 0) (days 4 + hours 8 + minutes 15) GM15 = Inr (days 4 + hours 8 + minutes 30)"
    "successor (fixed_zone 0) (days 4 + hours 8 + minutes 30) GM15 = Inr (days 4 + hours 8 + minutes 45)"
    using quarter_successor [of 1] quarter_successor [of 2] by simp_all
  have signal: "timestamp (quarter_bar 1 12) = days 4 + hours 8 + minutes 15" "gran (quarter_bar 1 12) = GM15"
    "b_close (quarter_bar 1 12) = 10" "content_sha (quarter_bar 1 12) = []" "available_at (quarter_bar 1 12) = days 4 + hours 8 + minutes 30"
    by (simp_all add: quarter_bar_def available_at_def observation_available_at_def first_known_at_def end_or_start_def duration_defs)
  show "candidate (fixed_zone 0) (quarter_bar 1 12) 1 (17 / 2) (default_options\<lparr>co_exit := Some (days 4 + hours 8 + minutes 45)\<rparr>) = Inl SetupChronology"
    by (simp add: candidate_def default_options_def signal steps u signed_def make_setup_def check_setup_def Let_def)
      (simp add: duration_defs)
  show "candidate (fixed_zone 0) (quarter_bar 1 12) 1 (- 1) (default_options\<lparr>co_exit := Some (days 4 + hours 8 + hours 8)\<rparr>) = Inl SetupPrice"
    by (simp add: candidate_def default_options_def signal steps u signed_def make_setup_def check_setup_def Let_def)
      (simp add: duration_defs)
qed

text \<open>Both errors occur: an exit at the expiry of the signal, and a stop below zero.\<close>

theorem candidate_errors_are_explained_witness:
  "exit_by_expiry (fixed_zone 0) (quarter_bar 1 12) (default_options\<lparr>co_exit := Some (days 4 + hours 8 + minutes 45)\<rparr>) \<and>
   \<not> exit_by_expiry (fixed_zone 0) (quarter_bar 1 12) (default_options\<lparr>co_exit := Some (days 4 + hours 8 + hours 8)\<rparr>)"
proof -
  have grid: "aligned (fixed_zone 0) (gran (quarter_bar 1 12)) (timestamp (quarter_bar 1 12))"
    by (simp add: quarter_bar_def range_start_aligned_def fixed_zone_def market_is_open_def weekday_def time_of_day_def minute_of_def
        duration_defs Let_def)
  have signal: "gran (quarter_bar 1 12) \<in> {GM15, GH1}" "timestamp (quarter_bar 1 12) < available_at (quarter_bar 1 12)"
    by (simp_all add: quarter_bar_def available_at_def observation_available_at_def first_known_at_def end_or_start_def duration_defs)
  show ?thesis
    using candidate_errors_are_explained [OF faithful_fixed_zone session_ordered_fixed signal(1) grid signal(2) _ _ morning_errors(1)]
      candidate_errors_are_explained [OF faithful_fixed_zone session_ordered_fixed signal(1) grid signal(2) _ _ morning_errors(2)]
    by (simp add: default_options_def)
qed

end
