(* ===== verification/Overlays.thy ===== *)
theory Overlays
  imports Candidates
begin

text \<open>
  \<^verbatim>\<open>market/strategy/risk.py\<close> and \<^verbatim>\<open>evaluate.py\<close>: the risk overlays, which may only reduce the baseline risk, and
  the dispatch over the strategies. The GARCH solver is third-party code: the parameter \<open>solver\<close> tells how
  its call ended. The encoding of the outputs as canonical JSON and its schema validation are not modelled.
\<close>

section \<open>Events and spread\<close>

definition event_names :: "string list" where
  [model_defs]: "event_names = [''FOMC Interest Rate Decision'', ''Bank of Canada Interest Rate Decision'',
     ''Bank of England Interest Rate Decision'', ''ECB Interest Rate Decision'', ''CPI'', ''Consumer Price Index'',
     ''Employment Situation'', ''Labour Force Survey'', ''GDP'', ''Gross Domestic Product'']"

definition event_active :: "instant \<Rightarrow> event_fact \<Rightarrow> bool" where
  [model_defs]: "event_active cutoff e \<longleftrightarrow>
     ef_type e \<in> Some ` set event_names \<and> ef_window_state e = Some ''available'' \<and> ef_available_at e \<le> cutoff \<and>
     ef_starts_at e \<le> cutoff \<and> cutoff \<le> ef_ends_at e"

definition macro_overlay :: "snapshot \<Rightarrow> strategy_error + risk_overlay" where
  [model_defs]: "macro_overlay s =
     (if sn_event_version s \<noteq> Some ''event-state-v2'' then make_overlay None ''event_version_unavailable'' []
      else
        (let active = map ef_vintage_id (filter (event_active (sn_cutoff s)) (sn_events s)) in
         if active \<noteq> [] then make_overlay (Some 0) ''named_event_pause'' (sort active)
         else
           (let spread = bk_spread (sn_blocks s GM15);
                ratio = (if sf_state spread = Some ''available'' then sf_ratio spread else None)
            in if (\<exists>x \<in> set_option ratio. 1 / 10 < x) then make_overlay (Some 0) ''wide_spread_pause'' []
               else if (\<exists>x \<in> set_option ratio. 1 / 20 < x) then make_overlay (Some (1 / 2)) ''spread_reduction_calendar_unknown'' []
               else make_overlay None ''event_coverage_unattested'' [])))"

definition surprise_readiness :: "string" where
  [model_defs]: "surprise_readiness = ''pit_consensus_release_pair_unavailable''"

definition carry_readiness :: "string" where
  [model_defs]: "carry_readiness = ''pit_forwards_financing_rollover_ranking_unavailable''"

section \<open>Volatility\<close>

definition risk_ratio :: "decimal option \<Rightarrow> decimal option \<Rightarrow> strategy_error + risk_overlay" where
  [model_defs]: "risk_ratio baseline current =
     (case (baseline, current) of
        (Some b, Some c) \<Rightarrow>
          if b \<le> 0 \<or> c \<le> 0 then make_overlay None ''volatility_unavailable'' []
          else make_overlay (Some (min 1 (rnd34 (b / c)))) ''capped_at_baseline'' []
      | _ \<Rightarrow> make_overlay None ''volatility_unavailable'' [])"

fun percent_returns :: "bar list \<Rightarrow> decimal list" where
  "percent_returns (a # b # bs) = rnd34 (100 * rnd34 (rnd34 (b_close b / b_close a) - 1)) # percent_returns (b # bs)"
| "percent_returns _ = []"

definition root_mean_square :: "decimal list \<Rightarrow> strategy_error + decimal" where
  [model_defs]: "root_mean_square returns = and_then (ema (map (\<lambda>r. rnd34 (r * r)) returns) 32) (\<lambda>v. Inr (dec_sqrt v))"

text \<open>How a call of the solver ends; a variance that is not finite is \<open>None\<close>.\<close>

datatype solver_result =
    SolverVersion | SolverDependency | SolverFailure | NotConverged | SolverVariance "decimal option"

definition garch_overlay :: "(decimal list \<Rightarrow> solver_result) \<Rightarrow> decimal list \<Rightarrow> decimal \<Rightarrow> strategy_error + risk_overlay" where
  [model_defs]: "garch_overlay solver returns baseline =
     (if \<not> (250 \<le> length returns \<and> length returns \<le> 399) then make_overlay None ''garch_warmup_or_nonfinite'' []
      else
        (case solver returns of
           SolverVersion \<Rightarrow> make_overlay None ''solver_version_unavailable'' []
         | SolverDependency \<Rightarrow> make_overlay None ''solver_dependency_unavailable'' []
         | SolverFailure \<Rightarrow> make_overlay None ''garch_solver_failure'' []
         | NotConverged \<Rightarrow> make_overlay None ''garch_nonconvergence'' []
         | SolverVariance None \<Rightarrow> make_overlay None ''garch_invalid_variance'' []
         | SolverVariance (Some v) \<Rightarrow>
             if v \<le> 0 then make_overlay None ''garch_invalid_variance'' []
             else risk_ratio (Some baseline) (Some (dec_sqrt v))))"

definition volatility_overlay ::
  "zone \<Rightarrow> (decimal list \<Rightarrow> solver_result) \<Rightarrow> snapshot \<Rightarrow> string \<Rightarrow> strategy_error + risk_overlay" where
  [model_defs]: "volatility_overlay z solver s strategy =
     (if strategy = ''fixed-risk-v1'' then make_overlay (Some 1) ''fixed_baseline_only'' []
      else
        (let daily = series z s GD None False in
         if length daily < 98 then make_overlay None ''daily_warmup_unavailable'' []
         else
           (let returns = percent_returns daily in
            and_then (root_mean_square (butlast returns)) (\<lambda>baseline.
              if strategy = ''ewma-risk-v1''
              then and_then (root_mean_square returns) (\<lambda>current. risk_ratio (Some baseline) (Some current))
              else if strategy \<noteq> ''garch-t-risk-v1'' then Inl UnsupportedRisk
              else garch_overlay solver returns baseline))))"

section \<open>Dispatch\<close>

datatype strategy =
    Ewmac | Breakout | FastMeanReversion | Pullback granularity | RangeReversion | FailedBreak bool | CarryReadiness | MacroRisk
  | VolatilityRisk string | OpeningRange orb_variant orb_session

datatype strategy_output =
    ForecastOutput forecast | SetupOutput setup_candidate | OverlayOutput risk_overlay | UnavailableOutput string

datatype evaluation_error = DuplicateComponentCost | CostCurrencyMismatch | StrategyFailed strategy_error

text \<open>The dates of the sessions are those of their own clock at the cutoff.\<close>

record evaluation_env =
  ev_zone :: zone
  ev_session_zone :: "orb_session \<Rightarrow> zone"
  ev_solver :: "decimal list \<Rightarrow> solver_result"

definition setup_output :: "setup_candidate feature \<Rightarrow> strategy_output" where
  [model_defs]: "setup_output r = (case r of Unavailable reason \<Rightarrow> UnavailableOutput reason | Available c \<Rightarrow> SetupOutput c)"

text \<open>The forecast that goes with a mean reversion setup, reduced by the overlay.\<close>

definition reversion_forecast :: "zone \<Rightarrow> bar list \<Rightarrow> bar list \<Rightarrow> risk_overlay \<Rightarrow> strategy_error + strategy_output list" where
  [model_defs]: "reversion_forecast z hourly daily reduction =
     (case (strategy_atr z hourly, ro_multiplier reduction) of
        (Some volatility, Some m) \<Rightarrow>
          and_then (ema (map b_close daily) 5) (\<lambda>e.
            (let raw = rnd34 (rnd34 (10 * rnd34 (e - b_close (last hourly))) / volatility); v = rnd34 (cap raw * m) in
             and_then (make_forecast (Some v) (Some v)
                 [\<lparr>cp_name = ''h1-deviation'', cp_raw = Some raw, cp_capped = Some v, cp_exclusion = None\<rparr>] None)
               (\<lambda>f. Inr [ForecastOutput f])))
      | _ \<Rightarrow> Inr [])"

definition reversion_outputs :: "evaluation_env \<Rightarrow> snapshot \<Rightarrow> strategy_error + strategy_output list" where
  [model_defs]: "reversion_outputs env s =
     (let hourly = series (ev_zone env) s GH1 None False;
          daily = (if hourly = [] then [] else series (ev_zone env) s GD (Some (timestamp (last hourly))) False);
          closes = map b_close daily
      in and_then (fast_mean_reversion (ev_zone env) s) (\<lambda>built.
         and_then (sigma closes) (\<lambda>current. and_then (sigma (butlast closes)) (\<lambda>prior.
         and_then (mean_reversion_risk current prior) (\<lambda>reduction.
         and_then (if is_available built then reversion_forecast (ev_zone env) hourly daily reduction else Inr [])
           (\<lambda>forecasts. Inr (setup_output built # OverlayOutput reduction # forecasts)))))))"

definition strategy_outputs ::
  "evaluation_env \<Rightarrow> snapshot \<Rightarrow> cost_table \<Rightarrow> decimal \<Rightarrow> strategy \<Rightarrow> strategy_error + strategy_output list" where
  [model_defs]: "strategy_outputs env s costs previous strategy =
     (let z = ev_zone env;
          one = (\<lambda>r. and_then r (\<lambda>c. Inr [setup_output c]))
      in case strategy of
           Ewmac \<Rightarrow> and_then (ewmac z (series z s GD None False) costs (sn_cutoff s) previous) (\<lambda>f. Inr [ForecastOutput f])
         | Breakout \<Rightarrow> and_then (breakout z (series z s GD None False) costs (sn_cutoff s) previous) (\<lambda>f. Inr [ForecastOutput f])
         | FastMeanReversion \<Rightarrow> reversion_outputs env s
         | OpeningRange variant session \<Rightarrow>
             one (opening_range_setup z (ev_session_zone env) s session
                    (to_local (ev_session_zone env session) (sn_cutoff s) div days 1) variant)
         | Pullback g \<Rightarrow> one (pullback z s g)
         | RangeReversion \<Rightarrow> one (range_reversion z s)
         | FailedBreak accept \<Rightarrow> one (failed_break z s accept)
         | CarryReadiness \<Rightarrow> Inr [UnavailableOutput carry_readiness]
         | MacroRisk \<Rightarrow> and_then (macro_overlay s) (\<lambda>overlay. Inr [OverlayOutput overlay, UnavailableOutput surprise_readiness])
         | VolatilityRisk name \<Rightarrow> and_then (volatility_overlay z (ev_solver env) s name) (\<lambda>overlay. Inr [OverlayOutput overlay]))"

definition fresh_output :: "instant \<Rightarrow> strategy_output \<Rightarrow> strategy_output" where
  [model_defs]: "fresh_output cutoff result =
     (case result of
        SetupOutput c \<Rightarrow> if sc_entry_at c < cutoff then UnavailableOutput ''snapshot_cutoff_after_entry'' else result
      | _ \<Rightarrow> result)"

text \<open>\<^verbatim>\<open>evaluate\<close>: \<open>quote\<close> is the quote currency of the snapshot's instrument.\<close>

definition evaluate ::
  "evaluation_env \<Rightarrow> snapshot \<Rightarrow> string \<Rightarrow> strategy \<Rightarrow> cost_evidence list \<Rightarrow> decimal \<Rightarrow> evaluation_error + strategy_output list" where
  [model_defs]: "evaluate env s quote strategy costs previous =
     (if \<not> distinct (map ce_component costs) then Inl DuplicateComponentCost
      else if list_ex (\<lambda>c. ce_quote c \<noteq> quote) costs then Inl CostCurrencyMismatch
      else
        (case strategy_outputs env s (map (\<lambda>c. (ce_component c, c)) costs) previous strategy of
           Inl e \<Rightarrow> Inl (StrategyFailed e)
         | Inr outputs \<Rightarrow> Inr (map (fresh_output (sn_cutoff s)) outputs)))"

section \<open>What the overlays and the dispatch promise\<close>

definition reduces :: "risk_overlay \<Rightarrow> bool" where
  "reduces r \<longleftrightarrow> (\<forall>m \<in> set_option (ro_multiplier r). 0 \<le> m \<and> m \<le> 1)"

lemma make_overlay_ok: "(\<forall>x \<in> set_option m. 0 \<le> x \<and> x \<le> 1) \<Longrightarrow> \<exists>r. make_overlay m reason evidence = Inr r \<and> reduces r"
  by (auto simp: make_overlay_def reduces_def)

lemma risk_ratio_ok: "\<exists>r. risk_ratio baseline current = Inr r \<and> reduces r"
proof (cases "\<exists>b c. baseline = Some b \<and> current = Some c \<and> 0 < b \<and> 0 < c")
  case True
  then obtain b c where bc: "baseline = Some b" "current = Some c" "0 < b" "0 < c" by blast
  then have "0 \<le> rnd34 (b / c)" by (intro less_imp_le ctx_round_pos) auto
  then show ?thesis using bc by (auto simp: risk_ratio_def intro!: make_overlay_ok)
next
  case False
  then show ?thesis by (auto simp: risk_ratio_def not_less split: option.splits intro!: make_overlay_ok)
qed

lemma garch_overlay_ok: "\<exists>r. garch_overlay solver returns baseline = Inr r \<and> reduces r"
  using risk_ratio_ok
  by (auto simp: garch_overlay_def split: solver_result.splits option.splits intro!: make_overlay_ok)

lemma mean_reversion_risk_ok: "\<exists>r. mean_reversion_risk current prior = Inr r \<and> reduces r"
  by (auto simp: mean_reversion_risk_def split: option.splits intro!: make_overlay_ok)

lemma macro_overlay_ok: "\<exists>r. macro_overlay s = Inr r \<and> reduces r"
  unfolding macro_overlay_def Let_def by (auto split: if_splits intro!: make_overlay_ok)

lemma length_percent_returns: "length (percent_returns bars) = length bars - 1"
  by (induction bars rule: percent_returns.induct) auto

lemma root_mean_square_total: "xs \<noteq> [] \<Longrightarrow> \<exists>v. root_mean_square xs = Inr v"
  using ema_total [of "map (\<lambda>r. rnd34 (r * r)) xs" 32] by (auto simp: root_mean_square_def)

text \<open>C16: A risk overlay never increases the risk. The fixed, the EWMA and the GARCH overlay (however its solver
  ends), the mean reversion overlay and the macro overlay never raise an error, and when one of them gives a
  multiplier it is between zero and one.\<close>

theorem overlays_never_increase_risk:
  assumes "name \<in> {''fixed-risk-v1'', ''ewma-risk-v1'', ''garch-t-risk-v1''}"
    and "overlay \<in> {volatility_overlay z solver s name, mean_reversion_risk current prior, macro_overlay s}"
  shows "\<exists>r. overlay = Inr r \<and> reduces r"
proof -
  have "\<exists>r. volatility_overlay z solver s name = Inr r \<and> reduces r"
  proof (cases "length (series z s GD None False) < 98")
    case True
    then show ?thesis by (auto simp: volatility_overlay_def Let_def intro!: make_overlay_ok)
  next
    case False
    let ?r = "percent_returns (series z s GD None False)"
    have len: "97 \<le> length ?r" using False by (simp add: length_percent_returns)
    have "2 \<le> length ?r" using len by linarith
    then have "?r \<noteq> [] \<and> butlast ?r \<noteq> []" by (cases ?r rule: rev_cases) auto
    then obtain v w where "root_mean_square ?r = Inr v" "root_mean_square (butlast ?r) = Inr w"
      using root_mean_square_total by metis
    moreover have "\<exists>r. volatility_overlay z solver s ''fixed-risk-v1'' = Inr r \<and> reduces r"
      unfolding volatility_overlay_def by (simp add: make_overlay_ok)
    moreover have "volatility_overlay z solver s ''ewma-risk-v1'' = risk_ratio (Some w) (Some v)"
      "volatility_overlay z solver s ''garch-t-risk-v1'' = garch_overlay solver ?r w"
      unfolding volatility_overlay_def Let_def using False calculation(1,2) by simp_all
    ultimately show ?thesis using assms(1) risk_ratio_ok garch_overlay_ok by (metis insertE empty_iff)
  qed
  then show ?thesis using assms(2) mean_reversion_risk_ok macro_overlay_ok by blast
qed

theorem overlays_never_increase_risk_witness:
  "mean_reversion_risk (Some 2) (Some 1) = Inr \<lparr>ro_multiplier = Some (1 / 2), ro_reason = ''frozen_high_vol_reduction'', ro_evidence = []\<rparr>
   \<and> (\<exists>r. mean_reversion_risk (Some 2) (Some 1) = Inr r \<and> reduces r)"
  using overlays_never_increase_risk [of "''fixed-risk-v1''" "mean_reversion_risk (Some 2) (Some 1)" z solver s "Some 2" "Some 1", OF insertI1]
  by (simp add: mean_reversion_risk_def make_overlay_def)

lemma reversion_forecast_kind: "reversion_forecast z hourly daily r = Inr xs \<Longrightarrow> SetupOutput c \<notin> set xs"
  by (auto simp: reversion_forecast_def and_then_Inr Let_def split: option.splits)

lemma setup_output_iff [simp]: "SetupOutput c = setup_output r \<longleftrightarrow> r = Available c"
  by (auto simp: setup_output_def split: feature.splits)

lemma strategy_outputs_causal:
  assumes "strategy_outputs env s costs previous strategy = Inr xs" "SetupOutput c \<in> set xs"
  shows "causal_candidate s c"
proof (cases strategy)
  case FastMeanReversion
  then have "fast_mean_reversion (ev_zone env) s = Inr (Available c)"
    using assms reversion_forecast_kind
    by (auto simp: strategy_outputs_def reversion_outputs_def and_then_Inr Let_def split: if_splits)
  then show ?thesis by (rule fast_mean_reversion_causal)
next
  case RangeReversion
  then show ?thesis using assms by (auto simp: strategy_outputs_def and_then_Inr Let_def range_reversion_never)
qed (use assms in \<open>auto simp: strategy_outputs_def and_then_Inr Let_def
    intro: opening_range_causal pullback_causal failed_break_causal\<close>)

text \<open>C13: What a strategy run hands on can still be traded. Whatever the strategy, a setup among the outputs of
  \<^verbatim>\<open>evaluate\<close> is causal in the snapshot and enters no earlier than the cutoff of the snapshot; one that
  would have entered before is replaced by its unavailability.\<close>

theorem evaluated_setups_are_timely:
  assumes "evaluate env s quote strategy costs previous = Inr outputs" and "SetupOutput c \<in> set outputs"
  shows "causal_candidate s c \<and> sn_cutoff s \<le> sc_entry_at c"
proof -
  obtain xs where xs: "strategy_outputs env s (map (\<lambda>c. (ce_component c, c)) costs) previous strategy = Inr xs"
    "SetupOutput c \<in> fresh_output (sn_cutoff s) ` set xs"
    using assms by (auto simp: evaluate_def split: if_splits sum.splits)
  have "SetupOutput c \<in> set xs \<and> sn_cutoff s \<le> sc_entry_at c"
    using xs(2) by (auto simp: fresh_output_def split: strategy_output.splits if_splits)
  then show ?thesis using strategy_outputs_causal [OF xs(1)] by simp
qed

theorem evaluated_setups_are_timely_witness:
  "evaluate \<lparr>ev_zone = fixed_zone 0, ev_session_zone = (\<lambda>s. fixed_zone 0), ev_solver = (\<lambda>r. SolverFailure)\<rparr> (session_of morning)
     ''USD'' (OpeningRange OrbWick London) [] 0 = Inr [SetupOutput morning_setup]
   \<and> sn_cutoff (session_of morning) \<le> sc_entry_at morning_setup"
proof -
  let ?env = "\<lparr>ev_zone = fixed_zone 0, ev_session_zone = (\<lambda>s. fixed_zone 0), ev_solver = (\<lambda>r. SolverFailure)\<rparr>"
  have day: "to_local (fixed_zone 0) (sn_cutoff (session_of morning)) div days 1 = 4"
    by (simp add: session_of_def fixed_zone_def duration_defs)
  have run: "evaluate ?env (session_of morning) ''USD'' (OpeningRange OrbWick London) [] 0 = Inr [SetupOutput morning_setup]"
    by (simp add: evaluate_def strategy_outputs_def day morning_candidate setup_output_def fresh_output_def)
       (simp add: session_of_def morning_setup_def duration_defs)
  show ?thesis using run evaluated_setups_are_timely [OF run, of morning_setup] by simp
qed

end
