(* ===== verification/Simulation.thy ===== *)
theory Simulation
  imports Candidates Setups
begin

text \<open>
  \<^verbatim>\<open>market/calendar_policy.py\<close> and \<^verbatim>\<open>market/strategy/simulation.py\<close>: the adverse simulation of a setup over
  later bars. The loop over the prerequisite intervals may not end on an arbitrary calendar, so it is a partial
  function; the simulation is \<open>None\<close> when it does not return. The digest of the execution intent is a parameter.

  The lemmas: the simulation returns on a faithful calendar, its result is final, its accounting is conservative,
  and an attestation of an interval covers its parts.
\<close>

section \<open>Attested calendars\<close>

record calendar_attestation =
  at_version :: string
  at_source_url :: string
  at_profile :: string
  at_known_at :: instant
  at_open_intervals :: "(instant \<times> instant) list"
  at_closed_intervals :: "(instant \<times> instant) list"

datatype interval_state = CalendarUnavailable | ClosedInterval | IrregularInterval | AttestedOpen

fun closure_state :: "(instant \<times> instant) list \<Rightarrow> instant \<Rightarrow> instant \<Rightarrow> interval_state option" where
  "closure_state [] start finish = None"
| "closure_state ((a, b) # rest) start finish =
     (if a < finish \<and> start < b then Some (if a \<le> start \<and> finish \<le> b then ClosedInterval else IrregularInterval)
      else closure_state rest start finish)"

definition interval_readiness ::
  "instant \<Rightarrow> instant \<Rightarrow> string \<Rightarrow> instant \<Rightarrow> calendar_attestation option \<Rightarrow> strategy_error + interval_state" where
  [model_defs]: "interval_readiness start finish profile as_of attestation =
     (if finish \<le> start then Inl CalendarInterval
      else
        (case attestation of
           None \<Rightarrow> Inr CalendarUnavailable
         | Some c \<Rightarrow>
             if at_profile c \<noteq> profile \<or> at_version c = [] \<or> take 8 (at_source_url c) \<noteq> ''https://'' \<or> as_of < at_known_at c
             then Inr CalendarUnavailable
             else
               (case closure_state (at_closed_intervals c) start finish of
                  Some state \<Rightarrow> Inr state
                | None \<Rightarrow>
                    if list_ex (\<lambda>(a, b). a \<le> start \<and> finish \<le> b) (at_open_intervals c) then Inr AttestedOpen
                    else Inr CalendarUnavailable)))"

section \<open>Terms of the outcome\<close>

record outcome_terms =
  ot_source :: string
  ot_quote :: string
  ot_account :: string
  ot_from :: instant
  ot_through :: instant
  ot_known_at :: instant
  ot_conversion_at :: instant
  ot_rate :: decimal
  ot_rollovers :: "(instant \<times> decimal) list"
  ot_base :: string
  ot_provenance :: string
  ot_cost_unit :: string
  ot_conversion_unit :: string

definition known_currencies :: "string list" where
  [model_defs]: "known_currencies = [''USD'', ''CAD'', ''EUR'', ''GBP'', ''JPY'', ''CHF'', ''AUD'', ''NZD'', ''NOK'', ''SEK'']"

definition hex_digest :: "string \<Rightarrow> bool" where
  [model_defs]: "hex_digest s \<longleftrightarrow> length s = 64 \<and> list_all (\<lambda>c. c \<in> set ''0123456789abcdef'') s"

definition valid_terms :: "outcome_terms \<Rightarrow> bool" where
  [model_defs]: "valid_terms t \<longleftrightarrow>
     list_all (\<lambda>c. c \<in> set known_currencies) [ot_base t, ot_quote t, ot_account t] \<and> ot_base t \<noteq> ot_quote t \<and>
     hex_digest (ot_source t) \<and> list_ex (\<lambda>c. \<not> blank_char c) (ot_provenance t) \<and>
     ot_cost_unit t = ''quote_per_base'' \<and> ot_conversion_unit t = ''account_per_quote'' \<and>
     ot_from t \<le> ot_conversion_at t \<and> ot_conversion_at t \<le> ot_through t \<and> ot_known_at t \<le> ot_conversion_at t \<and>
     0 < ot_rate t \<and> list_all (\<lambda>(u, r). ot_from t \<le> u \<and> u \<le> ot_through t) (ot_rollovers t)"

text \<open>The local times at five in the afternoon from the day of the entry on.\<close>

function rollover_walls :: "int \<Rightarrow> int \<Rightarrow> int list" where
  "rollover_walls day finish = (if day \<le> finish then day # rollover_walls (day + days 1) finish else [])"
  by pat_completeness auto
termination by (relation "measure (\<lambda>(day, finish). nat (finish - day + 1))") (simp_all add: duration_defs)

declare rollover_walls.simps [simp del]

definition required_rollovers :: "zone \<Rightarrow> instant \<Rightarrow> instant \<Rightarrow> instant list" where
  [model_defs]: "required_rollovers z entered exited =
     (let wall = to_local z entered; day = wall - time_of_day wall + hours 17
      in filter (\<lambda>t. entered \<le> t \<and> t \<le> exited) (map (to_utc z) (rollover_walls day (to_local z exited))))"

section \<open>The simulation\<close>

record execution =
  ex_intent :: string
  ex_entered_at :: instant
  ex_exited_at :: instant
  ex_entry :: decimal
  ex_exit :: decimal
  ex_gross :: decimal
  ex_costs :: decimal
  ex_net :: decimal
  ex_net_account :: decimal
  ex_evidence :: "string list"
  ex_reason :: string

text \<open>What a simulation is given beside the setup and the bars.\<close>

record simulation_env =
  se_zone :: zone
  se_strategy :: string
  se_cost :: "cost_evidence option"
  se_calendar :: "calendar_attestation option"
  se_profile :: string
  se_terms :: "outcome_terms option"
  se_intent :: "setup_candidate \<Rightarrow> cost_evidence \<Rightarrow> calendar_attestation option \<Rightarrow> string"

text \<open>The amounts of a cost that is ready.\<close>

record charges =
  ch_spread :: decimal
  ch_commission :: decimal
  ch_slippage :: decimal
  ch_latency :: int

definition charges_of :: "cost_evidence \<Rightarrow> charges option" where
  [model_defs]: "charges_of c =
     (case (ce_spread c, ce_commission c, ce_slippage c, ce_latency c) of
        (Some spread, Some commission, Some slippage, Some latency) \<Rightarrow>
          Some \<lparr>ch_spread = spread, ch_commission = commission, ch_slippage = slippage, ch_latency = latency\<rparr>
      | _ \<Rightarrow> None)"

definition entry_cost :: "charges \<Rightarrow> decimal" where
  [model_defs]: "entry_cost ch = rnd34 (rnd34 (ch_spread ch / 2) + ch_slippage ch)"

record position =
  po_entered_at :: instant
  po_modeled :: decimal
  po_entry :: decimal

datatype fill = Refused string | Waiting | Entered position

text \<open>What one bar does to a limit order that is not filled.\<close>

definition half_spread :: "setup_candidate \<Rightarrow> charges \<Rightarrow> decimal" where
  [model_defs]: "half_spread c ch = rnd34 (rnd34 (signed (sc_direction c) (ch_spread ch)) / 2)"

definition try_fill :: "setup_candidate \<Rightarrow> charges \<Rightarrow> instant \<Rightarrow> bar \<Rightarrow> fill" where
  [model_defs]: "try_fill c ch order_expires b =
     (if order_expires \<le> timestamp b then Refused ''limit_expired_unfilled''
      else
        (let d = sc_direction c;
             quote_open = rnd34 (b_open b + half_spread c ch);
             quote_edge = rnd34 ((if d = 1 then b_low b else b_high b) + half_spread c ch)
         in if signed d (rnd34 (quote_open - sc_reference c)) \<le> 0 then
              (if signed d (rnd34 (b_open b - sc_stop c)) \<le> 0 then Refused ''limit_gap_beyond_invalidation''
               else Entered \<lparr>po_entered_at = timestamp b, po_modeled = sc_reference c,
                      po_entry = rnd34 (sc_reference c - half_spread c ch)\<rparr>)
            else if signed d (rnd34 (quote_edge - sc_reference c)) \<le> 0 then Refused ''limit_intrabar_fill_unavailable''
            else Waiting))"

text \<open>How a bar that ends at \<open>finish\<close> closes the position: the price and the reason.\<close>

definition exit_verdict :: "setup_candidate \<Rightarrow> bar \<Rightarrow> instant \<Rightarrow> (decimal \<times> string) option" where
  [model_defs]: "exit_verdict c b finish =
     (let d = sc_direction c;
          adverse = (if d = 1 then b_low b else b_high b);
          favorable = (if d = 1 then b_high b else b_low b)
      in if signed d (rnd34 (b_open b - sc_stop c)) \<le> 0 then Some (b_open b, ''stop_gap'')
         else if signed d (rnd34 (adverse - sc_stop c)) \<le> 0 then Some (sc_stop c, ''stop_adverse_path'')
         else if 0 \<le> signed d (rnd34 (favorable - sc_target c)) then Some (sc_target c, ''target_no_improvement'')
         else if sc_exit_at c \<le> finish then Some (b_close b, ''time_stop'')
         else None)"

text \<open>The financing of the rollovers: a credit counts only strictly inside the holding time.\<close>

definition financing_of :: "(instant \<times> decimal) list \<Rightarrow> instant \<Rightarrow> instant \<Rightarrow> instant list \<Rightarrow> decimal" where
  [model_defs]: "financing_of rates entered bar_start required =
     py_sum rnd34 (map (\<lambda>t. (let r = (case map_of rates t of Some r \<Rightarrow> r | None \<Rightarrow> 0)
                             in if entered < t \<and> t < bar_start then r else max 0 r)) required)"

definition settle ::
  "simulation_env \<Rightarrow> cost_evidence \<Rightarrow> charges \<Rightarrow> bool \<Rightarrow> setup_candidate \<Rightarrow> position \<Rightarrow> bar \<Rightarrow> instant \<Rightarrow> decimal \<Rightarrow> string \<Rightarrow> string list
     \<Rightarrow> execution feature" where
  [model_defs]: "settle env cost ch limited c p b exited price reason consumed =
     (case se_terms env of
        None \<Rightarrow> Unavailable ''outcome_terms_unavailable''
      | Some t \<Rightarrow>
          if \<not> valid_terms t \<or> ot_quote t \<noteq> ce_quote cost \<or> po_entered_at p < ot_from t \<or> ot_through t < exited
             \<or> exited < ot_known_at t \<or> ot_conversion_at t \<noteq> exited
          then Unavailable ''outcome_terms_unavailable''
          else if ot_account t = ot_quote t \<and> ot_rate t \<noteq> 1 then Unavailable ''invalid_same_currency_conversion''
          else
            (let required = required_rollovers (se_zone env) (po_entered_at p) exited in
             if \<not> distinct (map fst (ot_rollovers t)) \<or> list_ex (\<lambda>u. map_of (ot_rollovers t) u = None) required
             then Unavailable ''rollover_evidence_missing''
             else
               (let financing = financing_of (ot_rollovers t) (po_entered_at p) (timestamp b) required;
                    gross = signed (sc_direction c) (rnd34 (price - po_entry p));
                    costs = rnd34 (rnd34 (rnd34 (ch_spread ch + rnd34 ((if limited then 1 else 2) * ch_slippage ch))
                              + rnd34 (2 * ch_commission ch)) + financing);
                    net = rnd34 (gross - costs)
                in Available \<lparr>ex_intent = se_intent env c cost (se_calendar env), ex_entered_at = po_entered_at p,
                     ex_exited_at = exited, ex_entry = po_modeled p,
                     ex_exit = rnd34 (price - signed (sc_direction c) (entry_cost ch)), ex_gross = gross, ex_costs = costs,
                     ex_net = net, ex_net_account = rnd34 (net * ot_rate t), ex_evidence = consumed @ [ot_source t],
                     ex_reason = reason\<rparr>)))"

text \<open>The loop over the selected bars; \<open>pos\<close> is the position once there is one.\<close>

fun run_bars ::
  "simulation_env \<Rightarrow> cost_evidence \<Rightarrow> charges \<Rightarrow> bool \<Rightarrow> setup_candidate \<Rightarrow> instant \<Rightarrow> bar list \<Rightarrow> instant \<Rightarrow> string list \<Rightarrow> position option
     \<Rightarrow> strategy_error + execution feature" where
  "run_bars env cost ch limited c order_expires [] expected consumed pos = Inr (Unavailable ''time_stop_interval_missing'')"
| "run_bars env cost ch limited c order_expires (b # bars) expected consumed pos =
     (if timestamp b \<noteq> expected \<or> gran b \<noteq> sc_granularity c then Inr (Unavailable ''outcome_interval_gap'')
      else
        (case end_at b of
           None \<Rightarrow> Inr (Unavailable ''cost_horizon_unavailable'')
         | Some finish \<Rightarrow>
             if ce_valid_through cost < finish then Inr (Unavailable ''cost_horizon_unavailable'')
             else
               and_then (interval_readiness (timestamp b) finish (se_profile env) (sc_available_at c) (se_calendar env)) (\<lambda>state.
                 if state \<noteq> AttestedOpen then Inr (Unavailable ''calendar_unavailable'')
                 else
                   (case (case pos of Some p \<Rightarrow> Entered p | None \<Rightarrow> try_fill c ch order_expires b) of
                      Refused reason \<Rightarrow> Inr (Unavailable reason)
                    | Waiting \<Rightarrow>
                        and_then (successor (se_zone env) (timestamp b) (sc_granularity c)) (\<lambda>later.
                          if order_expires \<le> later then Inr (Unavailable ''limit_expired_unfilled'')
                          else run_bars env cost ch limited c order_expires bars later (consumed @ [content_sha b]) None)
                    | Entered p \<Rightarrow>
                        (case exit_verdict c b finish of
                           Some (price, reason) \<Rightarrow>
                             Inr (settle env cost ch limited c p b finish price reason (consumed @ [content_sha b]))
                         | None \<Rightarrow>
                             and_then (successor (se_zone env) (timestamp b) (sc_granularity c)) (\<lambda>later.
                               run_bars env cost ch limited c order_expires bars later (consumed @ [content_sha b]) (Some p)))))))"

text \<open>The prerequisite intervals: whether one of them is missing.\<close>

partial_function (option) pre_entry_gap ::
  "(instant \<Rightarrow> strategy_error + instant) \<Rightarrow> instant list \<Rightarrow> instant \<Rightarrow> instant \<Rightarrow> (strategy_error + bool) option" where
  "pre_entry_gap succ known entry expected =
     (if entry \<le> expected then Some (Inr False)
      else if expected \<notin> set known then Some (Inr True)
      else (case succ expected of Inl e \<Rightarrow> Some (Inl e) | Inr later \<Rightarrow> pre_entry_gap succ known entry later))"

definition from_entry ::
  "simulation_env \<Rightarrow> cost_evidence \<Rightarrow> charges \<Rightarrow> bool \<Rightarrow> setup_candidate \<Rightarrow> bar list \<Rightarrow> strategy_error + execution feature" where
  [model_defs]: "from_entry env cost ch limited c bars =
     (case filter (\<lambda>b. sc_entry_at c \<le> timestamp b \<and> timestamp b < sc_exit_at c) bars of
        [] \<Rightarrow> Inr (Unavailable ''next_interval_missing'')
      | b # rest \<Rightarrow>
          if timestamp b \<noteq> sc_entry_at c then Inr (Unavailable ''next_interval_missing'')
          else
            (let d = sc_direction c; modeled = rnd34 (b_open b + signed d (entry_cost ch))
             in if \<not> limited \<and> (signed d (rnd34 (modeled - sc_stop c)) \<le> 0 \<or> signed d (rnd34 (sc_target c - modeled)) \<le> 0)
                then Inr (Unavailable ''entry_gap_outside_geometry'')
                else
                  and_then (successor (se_zone env) (sc_entry_at c) (sc_granularity c)) (\<lambda>order_expires.
                    run_bars env cost ch limited c order_expires (b # rest) (sc_entry_at c) []
                      (if limited then None
                       else Some \<lparr>po_entered_at = sc_entry_at c, po_modeled = modeled, po_entry = b_open b\<rparr>))))"

definition simulate_from ::
  "simulation_env \<Rightarrow> bool \<Rightarrow> setup_candidate \<Rightarrow> bar list \<Rightarrow> (strategy_error + execution feature) option" where
  [model_defs]: "simulate_from env limited c bars =
     (case se_cost env of
        None \<Rightarrow> Some (Inr (Unavailable ''cost_unavailable''))
      | Some cost \<Rightarrow>
          (case cost_readiness cost (sc_available_at c) (se_strategy env) of
             Some reason \<Rightarrow> Some (Inr (Unavailable reason))
           | None \<Rightarrow>
               (case charges_of cost of
                  None \<Rightarrow> Some (Inr (Unavailable ''incomplete_cost_evidence''))
                | Some ch \<Rightarrow>
                    if sc_entry_at c < sc_available_at c + seconds (ch_latency ch)
                    then Some (Inr (Unavailable ''latency_misses_next_open''))
                    else
                      (case successor (se_zone env) (sc_signal_start c) (sc_granularity c) of
                         Inl e \<Rightarrow> Some (Inl e)
                       | Inr first \<Rightarrow>
                           (case pre_entry_gap (\<lambda>t. successor (se_zone env) t (sc_granularity c))
                                   (filter (\<lambda>t. first \<le> t \<and> t < sc_entry_at c) (map timestamp bars)) (sc_entry_at c) first of
                              None \<Rightarrow> None
                            | Some (Inl e) \<Rightarrow> Some (Inl e)
                            | Some (Inr missing) \<Rightarrow>
                                if missing then Some (Inr (Unavailable ''pre_entry_interval_gap''))
                                else Some (from_entry env cost ch limited c bars))))))"

definition limit_strategy :: string where
  [model_defs]: "limit_strategy = ''fast-mr-h1-v1''"

definition simulate_limit ::
  "simulation_env \<Rightarrow> setup_candidate \<Rightarrow> bar list \<Rightarrow> (strategy_error + execution feature) option" where
  [model_defs]: "simulate_limit env c bars =
     (if se_strategy env \<noteq> limit_strategy \<or> sc_granularity c \<noteq> GH1 then Some (Inl LimitAttribution)
      else simulate_from env True c bars)"

definition simulate :: "simulation_env \<Rightarrow> setup_candidate \<Rightarrow> bar list \<Rightarrow> (strategy_error + execution feature) option" where
  [model_defs]: "simulate env c bars =
     (if se_strategy env = limit_strategy then simulate_limit env c bars else simulate_from env False c bars)"

section \<open>The calendar is attested as a whole\<close>

lemma closure_state_none:
  "closure_state xs start finish = None \<longleftrightarrow> (\<forall>(a, b) \<in> set xs. finish \<le> a \<or> b \<le> start)"
  by (induction xs start finish rule: closure_state.induct) auto

lemma closure_state_closed: "closure_state xs start finish = Some state \<Longrightarrow> state \<in> {ClosedInterval, IrregularInterval}"
  by (induction xs start finish rule: closure_state.induct) (auto split: if_splits)

lemma attested_open_iff:
  "interval_readiness start finish profile as_of attestation = Inr AttestedOpen \<longleftrightarrow>
     (\<exists>c. attestation = Some c \<and> start < finish \<and> at_profile c = profile \<and> at_version c \<noteq> [] \<and>
        take 8 (at_source_url c) = ''https://'' \<and> at_known_at c \<le> as_of \<and>
        (\<forall>(a, b) \<in> set (at_closed_intervals c). finish \<le> a \<or> b \<le> start) \<and>
        (\<exists>(a, b) \<in> set (at_open_intervals c). a \<le> start \<and> finish \<le> b))"
proof (cases attestation)
  case (Some c)
  show ?thesis
  proof (cases "closure_state (at_closed_intervals c) start finish")
    case None
    then have "\<forall>(a, b) \<in> set (at_closed_intervals c). finish \<le> a \<or> b \<le> start" unfolding closure_state_none .
    then show ?thesis using None Some by (auto simp: interval_readiness_def list_ex_iff)
  next
    case (Some state)
    then have "state \<noteq> AttestedOpen" "\<not> (\<forall>(a, b) \<in> set (at_closed_intervals c). finish \<le> a \<or> b \<le> start)"
      using closure_state_closed closure_state_none by (fastforce, metis option.distinct(1))
    then show ?thesis using Some \<open>attestation = Some c\<close> by (auto simp: interval_readiness_def)
  qed
qed (simp add: interval_readiness_def)

lemma interval_readiness_total: "start < finish \<Longrightarrow> \<exists>state. interval_readiness start finish profile as_of attestation = Inr state"
  by (simp add: interval_readiness_def split: option.split)

text \<open>An attested interval is open throughout. When \<^verbatim>\<open>interval_readiness\<close> attests an interval as open, every
  part of it that is not empty is attested as open too, at the same and at any later information time, and it
  meets no closed interval of the attestation.\<close>

lemma attestation_covers_parts:
  assumes "interval_readiness start finish profile as_of (Some c) = Inr AttestedOpen"
    and "start \<le> u" "u < v" "v \<le> finish" "as_of \<le> later"
  shows "interval_readiness u v profile later (Some c) = Inr AttestedOpen
    \<and> \<not> list_ex (\<lambda>(a, b). max a u < min b v) (at_closed_intervals c)"
proof -
  have open_there: "\<forall>(a, b) \<in> set (at_closed_intervals c). finish \<le> a \<or> b \<le> start"
    "\<exists>(a, b) \<in> set (at_open_intervals c). a \<le> start \<and> finish \<le> b"
    using assms(1) unfolding attested_open_iff by auto
  have "\<forall>(a, b) \<in> set (at_closed_intervals c). v \<le> a \<or> b \<le> u" using open_there(1) assms(2-4) by fastforce
  moreover have "\<exists>(a, b) \<in> set (at_open_intervals c). a \<le> u \<and> v \<le> b" using open_there(2) assms(2-4)
    by (auto intro: order_trans)
  ultimately show ?thesis using assms unfolding attested_open_iff list_ex_iff by fastforce
qed

section \<open>The simulation returns\<close>

lemma pre_entry_gap_returns:
  assumes z: "faithful_zone z" "session_ordered z" "g \<in> {GM15, GH1}"
  shows "aligned z g t \<Longrightarrow> \<exists>gap. pre_entry_gap (\<lambda>t. successor z t g) known entry t = Some (Inr gap)"
proof (induction "nat (entry - t)" arbitrary: t rule: less_induct)
  case less
  obtain u where u: "successor z t g = Inr u" "aligned z g u" "t < u"
    by (rule successor_later [OF z(1,2) less.prems z(3)])
  show ?case
  proof (cases "t < entry \<and> t \<in> set known")
    case True
    then have "nat (entry - u) < nat (entry - t)" using u(3) by simp
    then show ?thesis using less.hyps u True by (subst pre_entry_gap.simps) simp
  next
    case False
    then show ?thesis by (subst pre_entry_gap.simps) auto
  qed
qed

lemma run_bars_returns:
  assumes z: "faithful_zone (se_zone env)" "session_ordered (se_zone env)" "sc_granularity c \<in> {GM15, GH1}"
  shows "aligned (se_zone env) (sc_granularity c) expected \<Longrightarrow> \<forall>b \<in> set bars. \<forall>e \<in> set_option (end_at b). timestamp b < e \<Longrightarrow>
    \<exists>r. run_bars env cost ch limited c order_expires bars expected consumed pos = Inr r"
proof (induction bars arbitrary: expected consumed pos)
  case (Cons b bars)
  obtain later where l: "successor (se_zone env) expected (sc_granularity c) = Inr later" "aligned (se_zone env) (sc_granularity c) later"
    by (rule successor_later [OF z(1,2) Cons.prems(1) z(3)])
  have IH: "\<exists>r. run_bars env cost ch limited c order_expires bars later consumed' pos' = Inr r" for consumed' pos'
    using Cons.IH [OF l(2)] Cons.prems(2) by auto
  show ?case
  proof (cases "timestamp b = expected \<and> gran b = sc_granularity c \<and> end_at b \<noteq> None")
    case True
    then obtain finish where f: "end_at b = Some finish" "expected < finish" using Cons.prems(2) by auto
    then obtain state where s: "interval_readiness expected finish (se_profile env) (sc_available_at c) (se_calendar env) = Inr state"
      using interval_readiness_total by blast
    show ?thesis using True f s l IH by (auto split: option.splits fill.splits prod.splits)
  qed auto
qed simp

text \<open>C11: A simulation always ends, and never with an error. On a faithful calendar with ordered session times,
  for a setup whose signal and entry are on the grid of quarters or of hours (hours for the limit strategy) and bars
  that end after they start, the loop over the prerequisite intervals returns and the simulation gives an execution or
  a reason, whatever the costs, the attestation, the terms and the bars are.\<close>

theorem simulation_returns:
  assumes "faithful_zone (se_zone env)" "session_ordered (se_zone env)"
    and "sc_granularity c = (if se_strategy env = limit_strategy then GH1 else g)" "g \<in> {GM15, GH1}"
    and "aligned (se_zone env) (sc_granularity c) (sc_signal_start c)" "aligned (se_zone env) (sc_granularity c) (sc_entry_at c)"
    and "\<forall>b \<in> set bars. \<forall>e \<in> set_option (end_at b). timestamp b < e"
  shows "\<exists>r. simulate env c bars = Some (Inr r)"
proof -
  have g: "sc_granularity c \<in> {GM15, GH1}" using assms(3,4) by auto
  obtain first where first: "successor (se_zone env) (sc_signal_start c) (sc_granularity c) = Inr first"
    "aligned (se_zone env) (sc_granularity c) first"
    by (rule successor_later [OF assms(1,2,5) g])
  obtain expires where expires: "successor (se_zone env) (sc_entry_at c) (sc_granularity c) = Inr expires"
    by (rule successor_later [OF assms(1,2,6) g])
  have entry: "\<exists>r. from_entry env cost ch limited c bars = Inr r" for cost ch limited
  proof (cases "filter (\<lambda>b. sc_entry_at c \<le> timestamp b \<and> timestamp b < sc_exit_at c) bars")
    case Nil
    then show ?thesis unfolding from_entry_def by simp
  next
    case (Cons b rest)
    then have "\<forall>b \<in> set (b # rest). \<forall>e \<in> set_option (end_at b). timestamp b < e" using assms(7) by (metis filter_is_subset subsetD)
    note run = run_bars_returns [OF assms(1,2) g assms(6) this]
    show ?thesis unfolding from_entry_def Cons expires by (simp add: Let_def del: run_bars.simps) (use run in blast)
  qed
  have "\<exists>r. simulate_from env limited c bars = Some (Inr r)" for limited
  proof -
    obtain gap where "pre_entry_gap (\<lambda>t. successor (se_zone env) t (sc_granularity c))
        (filter (\<lambda>t. first \<le> t \<and> t < sc_entry_at c) (map timestamp bars)) (sc_entry_at c) first = Some (Inr gap)"
      using pre_entry_gap_returns [OF assms(1,2) g first(2)] by blast
    then show ?thesis unfolding simulate_from_def first(1) using entry by (auto split: option.splits)
  qed
  then show ?thesis using assms(3) by (simp add: simulate_def simulate_limit_def)
qed

section \<open>The result of a simulation is final\<close>

lemma pre_entry_gap_more:
  assumes "pre_entry_gap succ known entry t = Some (Inr False)" "set known \<subseteq> set more_known"
  shows "pre_entry_gap succ more_known entry t = Some (Inr False)"
proof -
  let ?P = "\<lambda>succ known entry t (r :: strategy_error + bool). r = Inr False \<longrightarrow> set known \<subseteq> set more_known \<longrightarrow>
      pre_entry_gap succ more_known entry t = Some (Inr False)"
  have "?P succ known entry t (Inr False)"
  proof (rule pre_entry_gap.raw_induct [where P = ?P, OF _ assms(1)], intro impI)
    fix f succ known entry t r
    assume IH: "\<And>succ known entry t r. f succ known entry t = Some r \<Longrightarrow> ?P succ known entry t r"
      and step: "(if entry \<le> t then Some (Inr False) else if t \<notin> set known then Some (Inr True)
        else case succ t of Inl e \<Rightarrow> Some (Inl e) | Inr later \<Rightarrow> f succ known entry later) = Some r"
      and r: "r = Inr False" "set known \<subseteq> set more_known"
    show "pre_entry_gap succ more_known entry t = Some (Inr False)"
    proof (cases "entry \<le> t")
      case True
      then show ?thesis by (subst pre_entry_gap.simps) simp
    next
      case False
      then obtain later where "t \<in> set known" "succ t = Inr later" "f succ known entry later = Some (Inr False)"
        using step r(1) by (auto split: if_splits sum.splits)
      then show ?thesis using IH r(2) False by (subst pre_entry_gap.simps) auto
    qed
  qed
  then show ?thesis using assms(2) by simp
qed

text \<open>What a step of the loop may lead to, for a result with an execution.\<close>

lemma run_bars_step:
  assumes "run_bars env cost ch limited c expires (b # bars) expected consumed pos = Inr (Available x)"
  obtains finish where "timestamp b = expected" "gran b = sc_granularity c" "end_at b = Some finish" "finish \<le> ce_valid_through cost"
    "interval_readiness expected finish (se_profile env) (sc_available_at c) (se_calendar env) = Inr AttestedOpen"
    "(\<exists>p price reason. (case pos of Some p \<Rightarrow> Entered p | None \<Rightarrow> try_fill c ch expires b) = Entered p
        \<and> exit_verdict c b finish = Some (price, reason)
        \<and> settle env cost ch limited c p b finish price reason (consumed @ [content_sha b]) = Available x)
     \<or> (\<exists>later pos'. successor (se_zone env) expected (sc_granularity c) = Inr later
        \<and> (case pos of Some p \<Rightarrow> pos' = Some p
           | None \<Rightarrow> (pos' = None \<and> later < expires) \<or> (\<exists>p. try_fill c ch expires b = Entered p \<and> pos' = Some p))
        \<and> run_bars env cost ch limited c expires bars later (consumed @ [content_sha b]) pos' = Inr (Available x))"
proof -
  obtain finish where f: "timestamp b = expected" "gran b = sc_granularity c" "end_at b = Some finish" "finish \<le> ce_valid_through cost"
    "interval_readiness expected finish (se_profile env) (sc_available_at c) (se_calendar env) = Inr AttestedOpen"
    using assms by (auto simp: and_then_Inr split: if_splits option.splits)
  have "run_bars env cost ch limited c expires (b # bars) expected consumed pos = (case (case pos of Some p \<Rightarrow> Entered p | None \<Rightarrow> try_fill c ch expires b) of
      Refused reason \<Rightarrow> Inr (Unavailable reason)
    | Waiting \<Rightarrow> and_then (successor (se_zone env) expected (sc_granularity c)) (\<lambda>later.
        if expires \<le> later then Inr (Unavailable ''limit_expired_unfilled'')
        else run_bars env cost ch limited c expires bars later (consumed @ [content_sha b]) None)
    | Entered p \<Rightarrow> (case exit_verdict c b finish of
        Some (price, reason) \<Rightarrow> Inr (settle env cost ch limited c p b finish price reason (consumed @ [content_sha b]))
      | None \<Rightarrow> and_then (successor (se_zone env) expected (sc_granularity c)) (\<lambda>later.
          run_bars env cost ch limited c expires bars later (consumed @ [content_sha b]) (Some p))))"
    unfolding run_bars.simps f(1,2) using f(3-5) by simp
  note run = this [unfolded assms, symmetric]
  show ?thesis
  proof (cases "case pos of Some p \<Rightarrow> Entered p | None \<Rightarrow> try_fill c ch expires b")
    case (Entered p)
    show ?thesis
    proof (cases "exit_verdict c b finish")
      case None
      then show ?thesis using that [OF f] run Entered by (cases pos) (auto simp: and_then_Inr)
    next
      case (Some v)
      then show ?thesis using that [OF f] run Entered by (cases v) auto
    qed
  next
    case Waiting
    then have "pos = None" by (cases pos) auto
    then show ?thesis using that [OF f] run Waiting by (auto simp: and_then_Inr split: if_splits)
  qed (use run in auto)
qed

lemma run_bars_more:
  "run_bars env cost ch limited c expires bars expected consumed pos = Inr (Available x) \<Longrightarrow>
   run_bars env cost ch limited c expires (bars @ later) expected consumed pos = Inr (Available x)"
proof (induction bars arbitrary: expected consumed pos)
  case (Cons b bars)
  obtain finish where f: "timestamp b = expected" "gran b = sc_granularity c" "end_at b = Some finish" "finish \<le> ce_valid_through cost"
    "interval_readiness expected finish (se_profile env) (sc_available_at c) (se_calendar env) = Inr AttestedOpen"
    by (rule run_bars_step [OF Cons.prems])
  have "run_bars env cost ch limited c expires (b # bars) expected consumed pos = Inr (Available x) \<longrightarrow>
      run_bars env cost ch limited c expires (b # bars @ later) expected consumed pos = Inr (Available x)"
    using f Cons.IH by (auto simp: and_then_Inr split: fill.splits option.splits if_splits prod.splits)
  then show ?case using Cons.prems by (simp del: run_bars.simps)
qed simp

lemma from_entry_more:
  assumes "from_entry env cost ch limited c bars = Inr (Available x)"
  shows "from_entry env cost ch limited c (bars @ later) = Inr (Available x)"
proof (cases "filter (\<lambda>b. sc_entry_at c \<le> timestamp b \<and> timestamp b < sc_exit_at c) bars")
  case Nil
  then show ?thesis using assms by (simp add: from_entry_def)
next
  case (Cons b rest)
  then show ?thesis using assms run_bars_more [where bars = "b # rest"]
    by (auto simp: from_entry_def Let_def and_then_Inr simp del: run_bars.simps split: if_splits)
qed

text \<open>The way to an execution.\<close>

lemma simulate_from_execution:
  "simulate_from env limited c bars = Some (Inr (Available x)) \<longleftrightarrow>
     (\<exists>cost ch first. se_cost env = Some cost \<and> cost_readiness cost (sc_available_at c) (se_strategy env) = None
        \<and> charges_of cost = Some ch \<and> sc_available_at c + seconds (ch_latency ch) \<le> sc_entry_at c
        \<and> successor (se_zone env) (sc_signal_start c) (sc_granularity c) = Inr first
        \<and> pre_entry_gap (\<lambda>t. successor (se_zone env) t (sc_granularity c))
            (filter (\<lambda>t. first \<le> t \<and> t < sc_entry_at c) (map timestamp bars)) (sc_entry_at c) first = Some (Inr False)
        \<and> from_entry env cost ch limited c bars = Inr (Available x))"
  unfolding simulate_from_def by (auto split: option.splits sum.splits if_splits)

lemma simulate_execution:
  "simulate env c bars = Some (Inr (Available x)) \<longleftrightarrow>
     (se_strategy env = limit_strategy \<longrightarrow> sc_granularity c = GH1) \<and>
     simulate_from env (se_strategy env = limit_strategy) c bars = Some (Inr (Available x))"
  by (auto simp: simulate_def simulate_limit_def)

text \<open>C12: The result of a simulation is final. Once the bars known so far give an execution, the same simulation
  over any longer list of bars gives exactly the same execution: a later bar can neither move the fill nor change
  the exit, the costs or the evidence.\<close>

theorem simulated_execution_is_final:
  assumes "simulate env c bars = Some (Inr (Available x))"
  shows "simulate env c (bars @ later) = Some (Inr (Available x))"
proof -
  let ?l = "se_strategy env = limit_strategy"
  obtain cost ch first where s: "se_cost env = Some cost" "cost_readiness cost (sc_available_at c) (se_strategy env) = None"
    "charges_of cost = Some ch" "sc_available_at c + seconds (ch_latency ch) \<le> sc_entry_at c"
    "successor (se_zone env) (sc_signal_start c) (sc_granularity c) = Inr first"
    and gap: "pre_entry_gap (\<lambda>t. successor (se_zone env) t (sc_granularity c))
      (filter (\<lambda>t. first \<le> t \<and> t < sc_entry_at c) (map timestamp bars)) (sc_entry_at c) first = Some (Inr False)"
    and run: "from_entry env cost ch ?l c bars = Inr (Available x)"
    using assms unfolding simulate_execution simulate_from_execution by blast
  have "pre_entry_gap (\<lambda>t. successor (se_zone env) t (sc_granularity c))
      (filter (\<lambda>t. first \<le> t \<and> t < sc_entry_at c) (map timestamp (bars @ later))) (sc_entry_at c) first = Some (Inr False)"
    by (rule pre_entry_gap_more [OF gap]) auto
  then show ?thesis using assms s from_entry_more [OF run] unfolding simulate_execution simulate_from_execution by blast
qed

section \<open>The accounting is conservative\<close>

text \<open>The price never betters the target, and a bar that reaches the stop gives at most the stop, even when it
  reaches the target too.\<close>

definition adverse_exit :: "setup_candidate \<Rightarrow> bar \<Rightarrow> decimal \<Rightarrow> bool" where
  "adverse_exit c b price \<longleftrightarrow>
     (let d = of_int (sc_direction c); adverse = (if sc_direction c = 1 then b_low b else b_high b)
      in d * price \<le> d * sc_target c \<and> (d * adverse \<le> d * sc_stop c \<longrightarrow> d * price \<le> d * sc_stop c))"

lemma signed_nonneg_iff [simp]: "0 \<le> signed d x \<longleftrightarrow> 0 \<le> of_int d * x"
proof -
  have "rnd34 (of_int d * x) < 0 \<longleftrightarrow> 0 < rnd34 (- (of_int d * x))" by (simp only: ctx_round_minus neg_0_less_iff_less)
  also have "\<dots> \<longleftrightarrow> of_int d * x < 0" by simp
  finally show ?thesis by (simp add: signed_def not_less [symmetric])
qed

lemma exit_verdict_adverse:
  assumes "exit_verdict c b finish = Some (price, reason)" "check_setup c = None" "sane_candle b"
  shows "adverse_exit c b price"
proof -
  have d: "sc_direction c = 1 \<or> sc_direction c = -1" using assms(2) by (auto simp: check_setup_def split: if_splits)
  have geometry: "0 < of_int (sc_direction c) * (sc_reference c - sc_stop c)" "0 < of_int (sc_direction c) * (sc_target c - sc_reference c)"
    using assms(2) d by (auto simp: check_setup_def split: if_splits)
  have candle: "b_low b \<le> b_open b" "b_open b \<le> b_high b" "b_low b \<le> b_close b" "b_close b \<le> b_high b"
    using assms(3) by (auto simp: sane_candle_def)
  from d show ?thesis
    using assms(1) geometry candle
    by (elim disjE) (auto simp: exit_verdict_def adverse_exit_def Let_def split: if_splits)
qed

lemma run_bars_execution:
  "run_bars env cost ch limited c expires bars expected consumed pos = Inr (Available x) \<Longrightarrow>
   (case pos of Some p \<Rightarrow> po_entered_at p = sc_entry_at c
    | None \<Rightarrow> expected = sc_entry_at c \<and> successor (se_zone env) (sc_entry_at c) (sc_granularity c) = Inr expires) \<Longrightarrow>
   \<exists>b \<in> set bars. \<exists>p finish price reason evidence. end_at b = Some finish \<and> po_entered_at p = sc_entry_at c
     \<and> interval_readiness (timestamp b) finish (se_profile env) (sc_available_at c) (se_calendar env) = Inr AttestedOpen
     \<and> exit_verdict c b finish = Some (price, reason)
     \<and> settle env cost ch limited c p b finish price reason evidence = Available x"
proof (induction bars arbitrary: expected consumed pos)
  case (Cons b bars)
  have filled: "po_entered_at p = sc_entry_at c"
    if "(case pos of Some p \<Rightarrow> Entered p | None \<Rightarrow> try_fill c ch expires b) = Entered p" "timestamp b = expected" for p
    using that Cons.prems(2) by (auto simp: try_fill_def Let_def split: option.splits if_splits)
  show ?case
  proof (rule run_bars_step [OF Cons.prems(1)], elim disjE exE conjE)
    fix finish p price reason
    assume "timestamp b = expected" "end_at b = Some finish"
      "interval_readiness expected finish (se_profile env) (sc_available_at c) (se_calendar env) = Inr AttestedOpen"
      "(case pos of Some p \<Rightarrow> Entered p | None \<Rightarrow> try_fill c ch expires b) = Entered p"
      "exit_verdict c b finish = Some (price, reason)"
      "settle env cost ch limited c p b finish price reason (consumed @ [content_sha b]) = Available x"
    then show ?thesis using filled by (meson list.set_intros(1))
  next
    fix finish later pos'
    assume next_bar: "timestamp b = expected" "successor (se_zone env) expected (sc_granularity c) = Inr later"
      "run_bars env cost ch limited c expires bars later (consumed @ [content_sha b]) pos' = Inr (Available x)"
      and "case pos of Some p \<Rightarrow> pos' = Some p
        | None \<Rightarrow> (pos' = None \<and> later < expires) \<or> (\<exists>p. try_fill c ch expires b = Entered p \<and> pos' = Some p)"
    then obtain p where "pos' = Some p" "po_entered_at p = sc_entry_at c"
      using Cons.prems(2) filled by (cases pos) auto
    then show ?thesis using Cons.IH [OF next_bar(3)] by auto
  qed
qed simp

text \<open>C10: The accounting of a simulation is conservative. An execution of a setup over sane candles enters at the
  setup's entry and leaves at the end of a bar that its attestation covers. The price never betters the target, and a
  bar that reaches the stop gives at most the stop even when it also reaches the target; the entry cost is taken off
  the reported exit, and the net result is the gross one less the costs.\<close>

theorem simulated_execution_is_conservative:
  assumes "simulate env c bars = Some (Inr (Available x))" "check_setup c = None" "list_all sane_candle bars"
  shows "ex_entered_at x = sc_entry_at c \<and> ex_net x = rnd34 (ex_gross x - ex_costs x)
    \<and> (\<exists>cost ch. se_cost env = Some cost \<and> charges_of cost = Some ch
        \<and> (\<exists>b \<in> set bars. \<exists>price. end_at b = Some (ex_exited_at x) \<and> adverse_exit c b price
            \<and> sc_entry_at c \<le> timestamp b \<and> timestamp b < sc_exit_at c
            \<and> interval_readiness (timestamp b) (ex_exited_at x) (se_profile env) (sc_available_at c) (se_calendar env) = Inr AttestedOpen
            \<and> ex_exit x = rnd34 (price - signed (sc_direction c) (entry_cost ch))))"
proof -
  obtain cost ch limited where cost: "se_cost env = Some cost" "charges_of cost = Some ch"
    "from_entry env cost ch limited c bars = Inr (Available x)"
    using assms(1) unfolding simulate_execution simulate_from_execution by blast
  let ?selected = "filter (\<lambda>b. sc_entry_at c \<le> timestamp b \<and> timestamp b < sc_exit_at c) bars"
  obtain expires pos where run: "successor (se_zone env) (sc_entry_at c) (sc_granularity c) = Inr expires"
    "run_bars env cost ch limited c expires ?selected (sc_entry_at c) [] pos = Inr (Available x)"
    "case pos of Some p \<Rightarrow> po_entered_at p = sc_entry_at c | None \<Rightarrow> True"
    using cost(3) unfolding from_entry_def
    by (cases ?selected) (auto simp: Let_def and_then_Inr simp del: run_bars.simps split: if_splits)
  have "case pos of Some p \<Rightarrow> po_entered_at p = sc_entry_at c
      | None \<Rightarrow> sc_entry_at c = sc_entry_at c \<and> successor (se_zone env) (sc_entry_at c) (sc_granularity c) = Inr expires"
    using run(1,3) by (cases pos) auto
  then obtain b p finish price reason evidence where b: "b \<in> set ?selected" "end_at b = Some finish" "po_entered_at p = sc_entry_at c"
    "interval_readiness (timestamp b) finish (se_profile env) (sc_available_at c) (se_calendar env) = Inr AttestedOpen"
    "exit_verdict c b finish = Some (price, reason)" "settle env cost ch limited c p b finish price reason evidence = Available x"
    using run_bars_execution [OF run(2)] by blast
  have "adverse_exit c b price" using exit_verdict_adverse [OF b(5) assms(2)] assms(3) b(1) by (auto simp: list_all_iff)
  moreover have "ex_entered_at x = po_entered_at p \<and> ex_exited_at x = finish \<and> ex_net x = rnd34 (ex_gross x - ex_costs x)
      \<and> ex_exit x = rnd34 (price - signed (sc_direction c) (entry_cost ch))"
    using b(6) by (auto simp: settle_def Let_def split: option.splits if_splits)
  ultimately show ?thesis using cost(1,2) b by auto
qed

section \<open>A simulated session\<close>

definition morning_cost :: cost_evidence where
  "morning_cost = \<lparr>ce_component = ''orb'', ce_source = ''s'', ce_version = ''1'', ce_sha = replicate 64 CHR ''0'', ce_quote = ''USD'',
     ce_known_at = 0, ce_valid_from = 0, ce_valid_through = days 9, ce_spread = Some (1 / 5), ce_commission = Some 0,
     ce_slippage = Some (2 / 5), ce_reserve = Some 0, ce_latency = Some 0\<rparr>"

definition morning_env :: simulation_env where
  "morning_env = \<lparr>se_zone = fixed_zone 0, se_strategy = ''orb'', se_cost = Some morning_cost,
     se_calendar = Some \<lparr>at_version = ''1'', at_source_url = ''https://c'', at_profile = ''p'', at_known_at = 0,
       at_open_intervals = [(days 4, days 5)], at_closed_intervals = []\<rparr>,
     se_profile = ''p'',
     se_terms = Some \<lparr>ot_source = replicate 64 CHR ''0'', ot_quote = ''USD'', ot_account = ''USD'', ot_from = days 4,
       ot_through = days 5, ot_known_at = 0, ot_conversion_at = days 4 + hours 9, ot_rate = 1, ot_rollovers = [], ot_base = ''EUR'',
       ot_provenance = ''p'', ot_cost_unit = ''quote_per_base'', ot_conversion_unit = ''account_per_quote''\<rparr>,
     se_intent = (\<lambda>c cost calendar. ''i'')\<rparr>"

definition morning_execution :: execution where
  "morning_execution = \<lparr>ex_intent = ''i'', ex_entered_at = days 4 + hours 8 + minutes 30, ex_exited_at = days 4 + hours 9,
     ex_entry = 21 / 2, ex_exit = 25 / 2, ex_gross = 3, ex_costs = 1, ex_net = 2, ex_net_account = 2,
     ex_evidence = [[], [], replicate 64 CHR ''0''], ex_reason = ''target_no_improvement''\<rparr>"

abbreviation morning_outcome :: "bar list" where
  "morning_outcome \<equiv> [quarter_bar 2 11, quarter_bar 3 14]"

lemma rnd34_morning [simp]:
  "rnd34 (1 / 10) = 1 / 10" "rnd34 (2 / 5) = 2 / 5" "rnd34 (4 / 5) = 4 / 5" "rnd34 (21 / 2) = 21 / 2" "rnd34 (25 / 2) = 25 / 2"
  "rnd34 (5 / 2) = 5 / 2" "rnd34 (- 2) = - 2" "rnd34 (- 5 / 2) = - 5 / 2" 
  using ctx_round_exact [of "1 / 10" 1 "-1" 34] ctx_round_exact [of "2 / 5" 4 "-1" 34] ctx_round_exact [of "4 / 5" 8 "-1" 34]
    ctx_round_exact [of "21 / 2" 105 "-1" 34] ctx_round_exact [of "25 / 2" 125 "-1" 34] ctx_round_exact [of "5 / 2" 25 "-1" 34]
    ctx_round_exact [of "- 2" "- 2" 0 34] ctx_round_exact [of "- 5 / 2" "- 25" "-1" 34]
  by (simp_all add: power_int_minus)

lemma morning_successors:
  "successor (fixed_zone 0) (days 4 + hours 8 + minutes 15) GM15 = Inr (days 4 + hours 8 + minutes 30)"
  "successor (fixed_zone 0) (days 4 + hours 8 + minutes 30) GM15 = Inr (days 4 + hours 8 + minutes 45)"
  by (simp_all add: successor_def registered_successor_def fixed_zone_def weekday_def time_of_day_def duration_defs Let_def)

lemma morning_bars:
  "timestamp (quarter_bar i h) = days 4 + hours 8 + minutes (15 * i)" "b_open (quarter_bar i h) = 10" "b_high (quarter_bar i h) = h"
  "b_low (quarter_bar i h) = 9" "b_close (quarter_bar i h) = 10" "gran (quarter_bar i h) = GM15" "content_sha (quarter_bar i h) = []"
  "end_at (quarter_bar i h) = Some (days 4 + hours 8 + minutes (15 * i + 15))"
  by (simp_all add: quarter_bar_def)

lemma morning_charges: "charges_of morning_cost = Some \<lparr>ch_spread = 1 / 5, ch_commission = 0, ch_slippage = 2 / 5, ch_latency = 0\<rparr>"
  by (simp add: charges_of_def morning_cost_def)

lemma morning_ready: "cost_readiness morning_cost (days 4 + hours 8 + minutes 30) ''orb'' = None"
  by (simp add: cost_readiness_def morning_cost_def duration_defs)

lemma morning_attested:
  "days 4 \<le> u \<Longrightarrow> u < v \<Longrightarrow> v \<le> days 5 \<Longrightarrow>
   interval_readiness u v ''p'' (days 4 + hours 8 + minutes 30) (se_calendar morning_env) = Inr AttestedOpen"
  by (simp add: interval_readiness_def morning_env_def duration_defs)

lemma morning_verdicts:
  "exit_verdict morning_setup (quarter_bar 2 11) (days 4 + hours 8 + minutes 45) = None"
  "exit_verdict morning_setup (quarter_bar 3 14) (days 4 + hours 9) = Some (13, ''target_no_improvement'')"
  by (simp_all add: exit_verdict_def morning_setup_def morning_bars Let_def) (simp_all add: duration_defs)

lemma morning_rollovers: "required_rollovers (fixed_zone 0) (days 4 + hours 8 + minutes 30) (days 4 + hours 9) = []"
proof -
  have "rollover_walls day finish = []" if "finish < day" for day finish using that by (subst rollover_walls.simps) simp
  then show ?thesis by (simp add: required_rollovers_def fixed_zone_def time_of_day_def duration_defs Let_def)
qed

lemma morning_settled:
  "settle morning_env morning_cost \<lparr>ch_spread = 1 / 5, ch_commission = 0, ch_slippage = 2 / 5, ch_latency = 0\<rparr> False morning_setup
     \<lparr>po_entered_at = days 4 + hours 8 + minutes 30, po_modeled = 21 / 2, po_entry = 10\<rparr> (quarter_bar 3 14) (days 4 + hours 9) 13
     ''target_no_improvement'' [[], []] = Available morning_execution"
proof -
  have terms: "valid_terms (the (se_terms morning_env))"
    by (simp add: valid_terms_def morning_env_def known_currencies_def hex_digest_def blank_char_def list_all_iff duration_defs)
  have direction: "sc_direction morning_setup = 1" by (simp add: morning_setup_def)
  have cost: "entry_cost \<lparr>ch_spread = 1 / 5, ch_commission = 0, ch_slippage = 2 / 5, ch_latency = 0\<rparr> = 1 / 2"
    by (simp add: entry_cost_def)
  show ?thesis unfolding settle_def using terms
    by (simp add: morning_env_def morning_rollovers direction cost financing_of_def signed_def morning_execution_def morning_cost_def Let_def)
       (simp add: duration_defs)
qed

lemma morning_simulated: "simulate morning_env morning_setup morning_outcome = Some (Inr (Available morning_execution))"
proof -
  let ?ch = "\<lparr>ch_spread = 1 / 5, ch_commission = 0, ch_slippage = 2 / 5, ch_latency = 0\<rparr>"
  have env: "se_zone morning_env = fixed_zone 0" "se_strategy morning_env = ''orb''" "se_cost morning_env = Some morning_cost"
    "se_profile morning_env = ''p''" "ce_valid_through morning_cost = days 9"
    by (simp_all add: morning_env_def morning_cost_def)
  have c: "sc_direction morning_setup = 1" "sc_available_at morning_setup = days 4 + hours 8 + minutes 30"
    "sc_signal_start morning_setup = days 4 + hours 8 + minutes 15" "sc_granularity morning_setup = GM15"
    "sc_stop morning_setup = 17 / 2" "sc_target morning_setup = 13" "sc_entry_at morning_setup = days 4 + hours 8 + minutes 30"
    "sc_exit_at morning_setup = days 4 + hours 16"
    by (simp_all add: morning_setup_def)
  have times: "days 4 + hours 8 + minutes (15 * 2) = days 4 + hours 8 + minutes 30"
    "days 4 + hours 8 + minutes (15 * 2 + 15) = days 4 + hours 8 + minutes 45"
    "days 4 + hours 8 + minutes (15 * 3) = days 4 + hours 8 + minutes 45"
    "days 4 + hours 8 + minutes (15 * 3 + 15) = days 4 + hours 9"
    by (simp_all add: duration_defs)
  have ordered: "days 4 + hours 8 + minutes 45 \<le> days 9" "days 4 + hours 9 \<le> days 9" "days 4 + hours 8 + minutes 30 < days 4 + hours 8 + minutes 45"
    "days 4 + hours 8 + minutes 45 < days 4 + hours 9" "days 4 + hours 9 \<le> days 5" "days 4 + hours 8 + minutes 45 \<le> days 5"
    "days 4 + hours 8 + minutes 45 < days 4 + hours 16" "days 4 + hours 8 + minutes 30 < days 4 + hours 16"
    "days 4 \<le> days 4 + hours 8 + minutes 30" "days 4 \<le> days 4 + hours 8 + minutes 45"
    by (simp_all add: duration_defs)
  note bars = morning_bars [of 2 11, unfolded times] morning_bars [of 3 14, unfolded times]
  note attested = morning_attested [OF ordered(9,3,6)] morning_attested [OF ordered(10,4,5)]
  let ?p = "\<lparr>po_entered_at = days 4 + hours 8 + minutes 30, po_modeled = 21 / 2, po_entry = 10\<rparr>"
  have second: "run_bars morning_env morning_cost ?ch False morning_setup e [quarter_bar 3 14] (days 4 + hours 8 + minutes 45) [[]] (Some ?p)
      = Inr (Available morning_execution)" for e
    unfolding run_bars.simps using morning_settled
    by (simp add: bars c env attested morning_verdicts ordered linorder_not_less)
  have loop: "run_bars morning_env morning_cost ?ch False morning_setup e morning_outcome (days 4 + hours 8 + minutes 30) [] (Some ?p)
      = Inr (Available morning_execution)" for e
    unfolding run_bars.simps(2) [of _ _ _ _ _ _ "quarter_bar 2 11"]
    by (simp add: bars c env attested morning_verdicts morning_successors second ordered linorder_not_less del: run_bars.simps)
  have cost: "entry_cost ?ch = 1 / 2" by (simp add: entry_cost_def)
  have entry: "from_entry morning_env morning_cost ?ch False morning_setup morning_outcome = Inr (Available morning_execution)"
    using loop ordered
    by (simp add: from_entry_def bars c env cost morning_successors signed_def Let_def del: run_bars.simps)
  have gap: "pre_entry_gap succ known u u = Some (Inr False)" for succ known u
    by (subst pre_entry_gap.simps) simp
  have "simulate_from morning_env False morning_setup morning_outcome = Some (Inr (Available morning_execution))"
    unfolding simulate_from_execution
    by (simp add: env c morning_ready morning_charges morning_successors gap entry seconds_def)
  then show ?thesis by (simp add: simulate_def env limit_strategy_def)
qed

theorem simulation_returns_witness: "\<exists>r. simulate morning_env morning_setup morning_outcome = Some (Inr r)"
proof (rule simulation_returns [where g = GM15])
  show "faithful_zone (se_zone morning_env)" "session_ordered (se_zone morning_env)"
    by (simp_all add: morning_env_def faithful_fixed_zone session_ordered_fixed)
qed (auto simp: morning_env_def morning_setup_def limit_strategy_def range_start_aligned_def fixed_zone_def market_is_open_def weekday_def
    time_of_day_def minute_of_def quarter_bar_def duration_defs Let_def)

theorem simulated_execution_is_final_witness:
  "simulate morning_env morning_setup (morning_outcome @ [quarter_bar 4 30]) = Some (Inr (Available morning_execution))"
  by (rule simulated_execution_is_final [OF morning_simulated])

theorem simulated_execution_is_conservative_witness:
  "ex_entered_at morning_execution = sc_entry_at morning_setup \<and> ex_net morning_execution = rnd34 (ex_gross morning_execution - ex_costs morning_execution)"
proof -
  have "check_setup morning_setup = None" by (simp add: check_setup_def morning_setup_def duration_defs)
  moreover have "list_all sane_candle morning_outcome" by (simp add: sane_candle_def quarter_bar_def)
  ultimately show ?thesis using simulated_execution_is_conservative [OF morning_simulated] by simp
qed

end
