(* ===== verification/Assessment.thy ===== *)
theory Assessment
  imports Trend "HOL-Library.Char_ord" "HOL-Library.List_Lexorder"
begin

text \<open>
  \<^verbatim>\<open>assessments/contracts.py\<close> and \<^verbatim>\<open>engine.py\<close>: the projection of authenticated envelopes onto one assessment. Every
  reason in the order of precedence is a gate that is available until something closes it; the assessment is
  available, and has a candidate, only when no gate is closed. A missing or unreadable value of a payload is \<open>None\<close>.
  The copies of descriptive payloads in the output (\<^verbatim>\<open>htf_regime\<close>, the trigger evidence) are not modelled; a zone
  is a value of an arbitrary type.

  The lemmas show that a gate once closed stays closed, which inputs each gate stands for, and that a candidate
  is possible only when all of them are met.
\<close>

section \<open>The contract\<close>

datatype gate_reason =
    InputIntegrityFailure | NoEconomicallyAdmittedStrategy | StrategyNotAdmittedForInstrument
  | StrategyRoleCannotOriginateIntent | RequiredTimeframeUnavailable | M15ConfirmationUnavailable
  | RequiredEvidenceNotReady | EventStateUnknown | EventWindowBlocked | TechnicalSetupAbsent | TriggerPending
  | TriggerRejected | TriggerInvalidated | TriggerExpired | SpreadUnknown | SpreadExceedsStrategyLimit
  | CostEvidenceMissing | CostEvidenceStale | NetRewardNonpositive | CapacityAssessmentMissing
  | AggregateCapacityExceeded | CurrencyDirectionCapacityExceeded | ConflictingEligibleSetups
  | UnsupportedIntentShape | UnchangedDuplicateIntent

text \<open>\<^verbatim>\<open>REASONS\<close>, in the order of precedence.\<close>

definition gate_reasons :: "gate_reason list" where
  [model_defs]: "gate_reasons =
     [InputIntegrityFailure, NoEconomicallyAdmittedStrategy, StrategyNotAdmittedForInstrument,
      StrategyRoleCannotOriginateIntent, RequiredTimeframeUnavailable, M15ConfirmationUnavailable,
      RequiredEvidenceNotReady, EventStateUnknown, EventWindowBlocked, TechnicalSetupAbsent, TriggerPending,
      TriggerRejected, TriggerInvalidated, TriggerExpired, SpreadUnknown, SpreadExceedsStrategyLimit,
      CostEvidenceMissing, CostEvidenceStale, NetRewardNonpositive, CapacityAssessmentMissing,
      AggregateCapacityExceeded, CurrencyDirectionCapacityExceeded, ConflictingEligibleSetups,
      UnsupportedIntentShape, UnchangedDuplicateIntent]"

datatype strategy_role = ContinuousForecastRole | ReadinessRole | OverlayRole | SetupRole

definition strategies :: "string list" where
  [model_defs]: "strategies =
     [''ewmac-d-v1'', ''breakout-d-v1'', ''fast-mr-h1-v1'', ''pullback-m15-v1'', ''pullback-h1-v1'', ''range-m15-v1'',
      ''phase5-sweep-reversal-v1'', ''phase5-acceptance-continuation-v1'', ''carry-readiness-v1'', ''macro-risk-v1'',
      ''fixed-risk-v1'', ''ewma-risk-v1'', ''garch-t-risk-v1'']
     @ [v @ '':'' @ s. v \<leftarrow> [''orb-m15-wick-v1'', ''orb-m15-confirmed-v1'', ''orb-m15-fvg-v1''], s \<leftarrow> [''london'', ''new_york'']]"

text \<open>\<^verbatim>\<open>ROLES\<close>; \<open>None\<close> for a name that is no strategy.\<close>

definition role_of :: "string \<Rightarrow> strategy_role option" where
  [model_defs]: "role_of name =
     (if name \<notin> set strategies then None
      else if name \<in> {''ewmac-d-v1'', ''breakout-d-v1''} then Some ContinuousForecastRole
      else if name = ''carry-readiness-v1'' then Some ReadinessRole
      else if name \<in> {''macro-risk-v1'', ''fixed-risk-v1'', ''ewma-risk-v1'', ''garch-t-risk-v1''} then Some OverlayRole
      else Some SetupRole)"

section \<open>Gates\<close>

record gate =
  ga_closed :: bool
  ga_detail :: string

type_synonym gates = "gate_reason \<Rightarrow> gate"

definition new_gates :: gates where
  [model_defs]: "new_gates = (\<lambda>r. \<lparr>ga_closed = False, ga_detail = []\<rparr>)"

text \<open>\<^verbatim>\<open>split(";")\<close> and \<^verbatim>\<open>";".join\<close>.\<close>

fun split_details :: "string \<Rightarrow> string list" where
  "split_details [] = [[]]"
| "split_details (c # s) =
     (if c = CHR '';'' then [] # split_details s
      else (case split_details s of [] \<Rightarrow> [[c]] | part # parts \<Rightarrow> (c # part) # parts))"

fun join_details :: "string list \<Rightarrow> string" where
  "join_details [] = []"
| "join_details [s] = s"
| "join_details (s # t # rest) = s @ '';'' @ join_details (t # rest)"

definition close_gate :: "gate_reason \<Rightarrow> string \<Rightarrow> gates \<Rightarrow> gates" where
  [model_defs]: "close_gate r detail gates =
     gates(r := \<lparr>ga_closed = True,
       ga_detail = (if detail = [] then ga_detail (gates r)
                    else join_details (sort (remdups (detail # filter (\<lambda>s. s \<noteq> []) (split_details (ga_detail (gates r)))))))\<rparr>)"

text \<open>\<open>close_if p r d\<close>: the gate is closed when the condition holds.\<close>

definition close_if :: "bool \<Rightarrow> gate_reason \<Rightarrow> string \<Rightarrow> gates \<Rightarrow> gates" where
  [model_defs]: "close_if p r detail gates = (if p then close_gate r detail gates else gates)"

definition primary_reason :: "gates \<Rightarrow> gate_reason option" where
  [model_defs]: "primary_reason gates = List.find (\<lambda>r. ga_closed (gates r)) gate_reasons"

definition unavailable_gate :: "string \<Rightarrow> gate_reason" where
  [model_defs]: "unavailable_gate reason =
     (if reason = ''opening_interval_missing'' then M15ConfirmationUnavailable
      else if reason = ''same_direction_fvg_unavailable'' then TriggerPending
      else if reason \<in> {''ambiguous_dual_breach'', ''not_a_unique_range_edge'', ''no_unique_confirmed_failed_break''}
      then TriggerRejected
      else if reason \<in> {''confirmation_too_late_for_next_interval'', ''fvg_interval_mismatch'', ''invalid_geometry'',
          ''opening_range_geometry'', ''snapshot_cutoff_after_entry'', ''target_not_ahead'', ''zero_range''}
      then TriggerInvalidated
      else if reason = ''no_confirmation_before_expiry'' then TriggerExpired
      else TechnicalSetupAbsent)"

section \<open>The envelopes\<close>

record eligibility_entry =
  ee_strategy :: string
  ee_definition :: string
  ee_role :: strategy_role
  ee_required :: "string list"

record eligibility =
  el_identity :: string
  el_entries :: "eligibility_entry list"

text \<open>A setup as the JSON of its evaluation.\<close>

record setup_payload =
  sp_direction :: int
  sp_granularity :: "string option"
  sp_signal_start :: "instant option"
  sp_available_at :: "instant option"
  sp_entry_at :: "instant option"
  sp_expires_at :: "instant option"
  sp_reference :: "decimal option"
  sp_stop :: "decimal option"
  sp_target :: "decimal option"
  sp_evidence :: "string list"

datatype output_part = SetupPart setup_payload | UnavailablePart string | OtherPart

record evaluation =
  va_identity :: string
  va_strategy :: string
  va_definition :: string
  va_evidence_sha :: string
  va_output_sha :: string
  va_outputs :: "output_part list"

datatype timeframe = TfW | TfD | TfH4 | TfH1 | TfM15

fun timeframe_text :: "timeframe \<Rightarrow> string" where
  "timeframe_text TfW = ''W''"
| "timeframe_text TfD = ''D''"
| "timeframe_text TfH4 = ''H4''"
| "timeframe_text TfH1 = ''H1''"
| "timeframe_text TfM15 = ''M15''"

text \<open>The descriptor payload of a snapshot: the states of its blocks, its zones and its event block. A reason code of
  the event block is a string where it is present; a reason that is present and null, for which the engine would
  keep no detail and the frozen methods a null one, is not represented.\<close>

record 'z market_payload =
  mp_cutoff :: instant
  mp_state :: "timeframe \<Rightarrow> string option"
  mp_monthly_state :: "string option"
  mp_zones :: "timeframe \<Rightarrow> 'z list"
  mp_event_state :: "string option"
  mp_event_coverage :: "string option"
  mp_event_reason :: "string option"
  mp_active_windows :: "string list"

text \<open>The four components that the frozen method lists (\<^verbatim>\<open>cost_components\<close> of \<^verbatim>\<open>assessments/contracts.py\<close>). The engine
  sums every component of the evidence, in the order of their names; a component outside the method is not
  represented.\<close>

record cost_components =
  cc_spread :: "decimal option"
  cc_commission :: "decimal option"
  cc_slippage_latency :: "decimal option"
  cc_financing :: "decimal option"

record assessed_cost =
  ac_identity :: string
  ac_components :: cost_components
  ac_stale_after :: instant
  ac_stale_text :: string

record capacity_leg =
  cl_direction :: string
  cl_disposition :: string

record assessed_capacity =
  cy_identity :: string
  cy_aggregate :: string
  cy_legs :: "capacity_leg list"

section \<open>The projection\<close>

datatype assessment_error = InputIntegrity | UnknownStrategy

text \<open>An evaluation with a setup of an admitted strategy, or one that has none.\<close>

record attributed_setup =
  as_evaluation :: evaluation
  as_setup :: setup_payload
  as_entry :: eligibility_entry

record unavailable_setup =
  us_identity :: string
  us_reason :: string
  us_gate :: gate_reason

definition setup_part :: "output_part list \<Rightarrow> setup_payload option" where
  [model_defs]: "setup_part parts = (case List.map_filter (\<lambda>p. case p of SetupPart s \<Rightarrow> Some s | _ \<Rightarrow> None) parts of
     [] \<Rightarrow> None | s # _ \<Rightarrow> Some s)"

definition unavailable_part :: "output_part list \<Rightarrow> string" where
  [model_defs]: "unavailable_part parts = (case List.map_filter (\<lambda>p. case p of UnavailablePart r \<Rightarrow> Some r | _ \<Rightarrow> None) parts of
     [] \<Rightarrow> ''technical_setup_absent'' | r # _ \<Rightarrow> r)"

text \<open>The entry of a key; a later entry of the same key replaces an earlier one.\<close>

definition admitted_entry :: "eligibility_entry list \<Rightarrow> string \<Rightarrow> string \<Rightarrow> strategy_role \<Rightarrow> eligibility_entry option" where
  [model_defs]: "admitted_entry entries strategy definition_sha role =
     List.find (\<lambda>e. ee_strategy e = strategy \<and> ee_definition e = definition_sha \<and> ee_role e = role) (rev entries)"

record attribution =
  at_gates :: gates
  at_attributed :: "attributed_setup list"
  at_unavailable :: "unavailable_setup list"

definition attribute_one :: "eligibility_entry list \<Rightarrow> evaluation \<Rightarrow> attribution \<Rightarrow> assessment_error + attribution" where
  [model_defs]: "attribute_one entries item acc =
     (case role_of (va_strategy item) of
        None \<Rightarrow> Inl UnknownStrategy
      | Some role \<Rightarrow>
          (case admitted_entry entries (va_strategy item) (va_definition item) role of
             None \<Rightarrow> Inr (acc\<lparr>at_gates := close_gate StrategyNotAdmittedForInstrument (va_strategy item) (at_gates acc)\<rparr>)
           | Some e \<Rightarrow>
               if role \<noteq> SetupRole
               then Inr (acc\<lparr>at_gates := close_gate StrategyRoleCannotOriginateIntent (va_strategy item) (at_gates acc)\<rparr>)
               else
                 (case setup_part (va_outputs item) of
                    None \<Rightarrow>
                      (let reason = unavailable_part (va_outputs item); g = unavailable_gate reason in
                       Inr (acc\<lparr>at_gates := close_gate g (va_strategy item @ '':'' @ reason) (at_gates acc),
                         at_unavailable := at_unavailable acc @ [\<lparr>us_identity = va_identity item, us_reason = reason, us_gate = g\<rparr>]\<rparr>))
                  | Some s \<Rightarrow> Inr (acc\<lparr>at_attributed := at_attributed acc @ [\<lparr>as_evaluation = item, as_setup = s, as_entry = e\<rparr>]\<rparr>))))"

fun attribute_all :: "eligibility_entry list \<Rightarrow> evaluation list \<Rightarrow> attribution \<Rightarrow> assessment_error + attribution" where
  "attribute_all entries [] acc = Inr acc"
| "attribute_all entries (item # items) acc = and_then (attribute_one entries item acc) (attribute_all entries items)"

fun join_commas :: "string list \<Rightarrow> string" where
  "join_commas [] = []"
| "join_commas [s] = s"
| "join_commas (s # t # rest) = s @ '','' @ join_commas (t # rest)"

definition sorted_set :: "string list \<Rightarrow> string list" where
  [model_defs]: "sorted_set xs = sort (remdups xs)"

definition missing_timeframes :: "'z market_payload \<Rightarrow> string list" where
  [model_defs]: "missing_timeframes market =
     (let missing = map timeframe_text (filter (\<lambda>t. mp_state market t \<noteq> Some ''available'') [TfW, TfD, TfH4, TfH1, TfM15])
      in if mp_monthly_state market \<noteq> Some ''available'' then ''monthly-context-v1'' # missing else missing)"

definition major_zones :: "'z market_payload \<Rightarrow> (timeframe \<times> 'z) list" where
  [model_defs]: "major_zones market = concat (map (\<lambda>t. map (Pair t) (mp_zones market t)) [TfW, TfD, TfH4, TfH1])"

text \<open>\<^verbatim>\<open>_valid_m15_successor\<close>: \<open>None\<close> when a timestamp cannot be read.\<close>

definition valid_m15_successor :: "zone \<Rightarrow> setup_payload \<Rightarrow> bool option" where
  [model_defs]: "valid_m15_successor z s =
     (case (sp_signal_start s, sp_available_at s, sp_entry_at s) of
        (Some signal_start, Some available, Some entry) \<Rightarrow>
          (case registered_successor z signal_start GM15 of
             None \<Rightarrow> None
           | Some first \<Rightarrow>
               (case registered_successor z first GM15 of
                  None \<Rightarrow> None
                | Some second \<Rightarrow>
                    Some (signal_start < first \<and> first \<le> entry \<and> available \<le> entry
                      \<and> entry = (if available \<le> first then first else second))))
      | _ \<Rightarrow> None)"

definition complete_cost :: "assessed_cost option \<Rightarrow> bool" where
  [model_defs]: "complete_cost cost =
     (case cost of
        None \<Rightarrow> False
      | Some c \<Rightarrow> cc_spread (ac_components c) \<noteq> None \<and> cc_commission (ac_components c) \<noteq> None
          \<and> cc_slippage_latency (ac_components c) \<noteq> None \<and> cc_financing (ac_components c) \<noteq> None)"

record reward =
  rw_gross :: decimal
  rw_net :: decimal
  rw_spread_ratio :: decimal

text \<open>The reward of a setup under a complete cost: \<open>None\<close> when its geometry is invalid.\<close>

definition reward_of :: "setup_payload \<Rightarrow> cost_components \<Rightarrow> reward option" where
  [model_defs]: "reward_of s c =
     (case (sp_reference s, sp_stop s, sp_target s, cc_commission c, cc_financing c, cc_slippage_latency c, cc_spread c) of
        (Some reference, Some stop, Some target, Some commission, Some financing, Some slippage, Some spread) \<Rightarrow>
          (let distance = \<bar>rnd28 (reference - stop)\<bar>;
               gross = rnd28 (\<bar>rnd28 (target - reference)\<bar> / distance)
           in if distance \<le> 0 then None
              else Some \<lparr>rw_gross = gross,
                     rw_net = rnd28 (gross - rnd28 (py_sum rnd28 [commission, financing, slippage, spread] / distance)),
                     rw_spread_ratio = rnd28 (spread / distance)\<rparr>)
      | _ \<Rightarrow> None)"

definition expected_legs :: "setup_payload \<Rightarrow> string list" where
  [model_defs]: "expected_legs s = (if sp_direction s = 1 then [''long'', ''short''] else [''short'', ''long''])"

section \<open>The assessment\<close>

record trigger_side =
  ts_supporting :: "string list"
  ts_opposing :: "string list"
  ts_pending :: "(string \<times> string) list"
  ts_rejected :: "(string \<times> string) list"

definition trigger_side_of :: "attributed_setup list \<Rightarrow> unavailable_setup list \<Rightarrow> int \<Rightarrow> trigger_side" where
  [model_defs]: "trigger_side_of setups missing direction =
     \<lparr>ts_supporting = sort (map (\<lambda>a. va_identity (as_evaluation a)) (filter (\<lambda>a. sp_direction (as_setup a) = direction) setups)),
      ts_opposing = sort (map (\<lambda>a. va_identity (as_evaluation a)) (filter (\<lambda>a. sp_direction (as_setup a) = - direction) setups)),
      ts_pending = sort (map (\<lambda>u. (us_identity u, us_reason u)) (filter (\<lambda>u. us_gate u = TriggerPending) missing)),
      ts_rejected = sort (map (\<lambda>u. (us_identity u, us_reason u))
        (filter (\<lambda>u. us_gate u \<in> {TriggerRejected, TriggerInvalidated, TriggerExpired}) missing))\<rparr>"

record assessment_input =
  ai_method_known :: bool
  ai_eligibility :: eligibility
  ai_evaluations :: "evaluation list"
  ai_cost :: "assessed_cost option"
  ai_capacity :: "assessed_capacity option"
  ai_evidence :: "string option"
  ai_duplicate :: bool
  ai_predecessor :: string

text \<open>The gates of the setups: which of them is the one that may originate an intent.\<close>

definition m15_setups :: "attributed_setup list \<Rightarrow> attributed_setup list" where
  [model_defs]: "m15_setups setups = filter (\<lambda>a. sp_granularity (as_setup a) = Some ''M15'') setups"

definition sole_setup :: "attributed_setup list \<Rightarrow> attributed_setup option" where
  [model_defs]: "sole_setup setups = (case m15_setups setups of [a] \<Rightarrow> Some a | _ \<Rightarrow> None)"

definition shape_gates :: "zone \<Rightarrow> attributed_setup list \<Rightarrow> gates \<Rightarrow> gates" where
  [model_defs]: "shape_gates z setups gates =
     (let m15 = m15_setups setups;
          foreign = length m15 \<noteq> length setups;
          g1 = close_if foreign M15ConfirmationUnavailable ''v2 has no H1-to-M15 entry adapter'' gates;
          g2 = close_if foreign UnsupportedIntentShape ''only exact Phase 5 M15 setup geometry is supported'' g1;
          g3 = close_if (1 < length m15) ConflictingEligibleSetups ''exactly one originatable setup required'' g2
      in case sole_setup setups of
           None \<Rightarrow> g3
         | Some a \<Rightarrow>
             (case valid_m15_successor z (as_setup a) of
                None \<Rightarrow> close_gate UnsupportedIntentShape ''invalid completed-candle timestamps'' g3
              | Some ok \<Rightarrow> close_if (\<not> ok) UnsupportedIntentShape ''entry must be registered M15 successor'' g3))"

definition evidence_gates :: "attributed_setup list \<Rightarrow> string option \<Rightarrow> gates \<Rightarrow> gates" where
  [model_defs]: "evidence_gates setups evidence gates =
     (if concat (map (\<lambda>a. ee_required (as_entry a)) setups) \<noteq> []
      then close_gate RequiredEvidenceNotReady ''method v2 defines no Phase 7 requirements'' gates
      else close_if (evidence \<noteq> None) InputIntegrityFailure ''unrequired evidence packet'' gates)"

definition event_gates :: "'z market_payload \<Rightarrow> gates \<Rightarrow> gates" where
  [model_defs]: "event_gates market gates =
     (let known = (mp_event_state market = Some ''available'' \<and> mp_event_coverage market = Some ''attested_complete'');
          detail = (case mp_event_reason market of Some r \<Rightarrow> r
                    | None \<Rightarrow> (case mp_event_coverage market of Some c \<Rightarrow> c | None \<Rightarrow> []))
      in close_if (mp_active_windows market \<noteq> []) EventWindowBlocked (join_commas (sort (mp_active_windows market)))
           (close_if (\<not> known) EventStateUnknown detail gates))"

definition cost_gates :: "'z market_payload \<Rightarrow> assessed_cost option \<Rightarrow> gates \<Rightarrow> gates" where
  [model_defs]: "cost_gates market cost gates =
     (let g1 = close_if (\<not> complete_cost cost) CostEvidenceMissing ''all exact components required'' gates;
          g2 = close_if (case cost of None \<Rightarrow> True | Some c \<Rightarrow> cc_spread (ac_components c) = None) SpreadUnknown
                 ''exact spread required'' g1
      in case cost of None \<Rightarrow> g2
         | Some c \<Rightarrow> close_if (ac_stale_after c < mp_cutoff market) CostEvidenceStale (ac_stale_text c) g2)"

text \<open>The reward that is reported and the gates it closes.\<close>

definition reward_for :: "attributed_setup list \<Rightarrow> assessed_cost option \<Rightarrow> reward option" where
  [model_defs]: "reward_for setups cost =
     (case (sole_setup setups, cost) of
        (Some a, Some c) \<Rightarrow> if complete_cost cost then reward_of (as_setup a) (ac_components c) else None
      | _ \<Rightarrow> None)"

definition reward_gates :: "attributed_setup list \<Rightarrow> assessed_cost option \<Rightarrow> gates \<Rightarrow> gates" where
  [model_defs]: "reward_gates setups cost gates =
     (if sole_setup setups \<noteq> None \<and> complete_cost cost then
        (case reward_for setups cost of
           None \<Rightarrow> close_gate UnsupportedIntentShape ''invalid exact geometry'' gates
         | Some r \<Rightarrow>
             close_if (rw_net r \<le> 0) NetRewardNonpositive (format_decimal 6 (rw_net r))
               (close_if (1 / 10 < rw_spread_ratio r) SpreadExceedsStrategyLimit [] gates))
      else close_if (length (m15_setups setups) \<le> 1) NetRewardNonpositive ''unknown'' gates)"

definition capacity_gates :: "attributed_setup list \<Rightarrow> assessed_capacity option \<Rightarrow> gates \<Rightarrow> gates" where
  [model_defs]: "capacity_gates setups capacity gates =
     (case capacity of
        None \<Rightarrow>
          close_gate CurrencyDirectionCapacityExceeded ''unknown''
            (close_gate AggregateCapacityExceeded ''unknown'' (close_gate CapacityAssessmentMissing [] gates))
      | Some c \<Rightarrow>
          (let g1 = close_if (cy_aggregate c \<noteq> ''available'') AggregateCapacityExceeded (cy_aggregate c) gates;
               expected = map_option (\<lambda>a. expected_legs (as_setup a)) (sole_setup setups)
           in close_if (list_ex (\<lambda>l. cl_disposition l \<noteq> ''available'') (cy_legs c)
                \<or> (expected \<noteq> None \<and> Some (map cl_direction (cy_legs c)) \<noteq> expected)) CurrencyDirectionCapacityExceeded [] g1))"

record 'z assessment =
  sm_closed :: bool
  sm_cutoff :: instant
  sm_timeframes :: bool
  sm_zones :: "(timeframe \<times> 'z) list"
  sm_bull :: trigger_side
  sm_bear :: trigger_side
  sm_trigger :: bool
  sm_reward :: "reward option"
  sm_primary :: "gate_reason option"
  sm_gates :: "(gate_reason \<times> gate) list"

record intent_candidate =
  ic_strategy :: string
  ic_evaluation :: string
  ic_setup :: setup_payload
  ic_eligibility :: string
  ic_cost :: string
  ic_capacity :: string
  ic_required_evidence :: "string option"
  ic_predecessor :: string

definition missing_evaluations :: "eligibility_entry list \<Rightarrow> evaluation list \<Rightarrow> string list" where
  [model_defs]: "missing_evaluations entries evaluations =
     sorted_set (filter (\<lambda>s. s \<notin> set (map va_strategy evaluations)) (map ee_strategy entries))"

text \<open>The gates after the evaluations were attributed to their entries.\<close>

definition attribution_of :: "assessment_input \<Rightarrow> assessment_error + attribution" where
  [model_defs]: "attribution_of inp =
     (let entries = el_entries (ai_eligibility inp) in
      and_then (attribute_all entries (ai_evaluations inp)
          \<lparr>at_gates = close_if (entries = []) NoEconomicallyAdmittedStrategy ''canonical eligibility is empty'' new_gates,
            at_attributed = [], at_unavailable = []\<rparr>)
        (\<lambda>a. (let absent = missing_evaluations entries (ai_evaluations inp) in
           Inr (a\<lparr>at_gates := close_if (absent \<noteq> []) TechnicalSetupAbsent (''missing evaluations:'' @ join_commas absent) (at_gates a)\<rparr>))))"

definition all_gates :: "zone \<Rightarrow> assessment_input \<Rightarrow> 'z market_payload \<Rightarrow> attribution \<Rightarrow> gates" where
  [model_defs]: "all_gates z inp market a =
     (let setups = at_attributed a; missing = missing_timeframes market in
      close_if (ai_duplicate inp) UnchangedDuplicateIntent []
        (capacity_gates setups (ai_capacity inp)
        (reward_gates setups (ai_cost inp)
        (cost_gates market (ai_cost inp)
        (event_gates market
        (evidence_gates setups (ai_evidence inp)
        (shape_gates z setups
        (close_if (missing \<noteq> []) RequiredTimeframeUnavailable (join_commas missing) (at_gates a)))))))))"

definition candidate_of :: "assessment_input \<Rightarrow> attribution \<Rightarrow> gates \<Rightarrow> intent_candidate option" where
  [model_defs]: "candidate_of inp a gates =
     (case (primary_reason gates, sole_setup (at_attributed a), ai_cost inp, ai_capacity inp) of
        (None, Some s, Some cost, Some capacity) \<Rightarrow>
          Some \<lparr>ic_strategy = va_strategy (as_evaluation s), ic_evaluation = va_identity (as_evaluation s), ic_setup = as_setup s,
            ic_eligibility = el_identity (ai_eligibility inp), ic_cost = ac_identity cost, ic_capacity = cy_identity capacity,
            ic_required_evidence = ai_evidence inp, ic_predecessor = ai_predecessor inp\<rparr>
      | _ \<Rightarrow> None)"

definition build_assessment ::
  "zone \<Rightarrow> assessment_input \<Rightarrow> 'z market_payload \<Rightarrow> assessment_error + 'z assessment \<times> intent_candidate option" where
  [model_defs]: "build_assessment z inp market =
     (if \<not> ai_method_known inp then Inl InputIntegrity
      else
        and_then (attribution_of inp) (\<lambda>a.
          (let gates = all_gates z inp market a; setups = at_attributed a; missing = missing_timeframes market in
           Inr (\<lparr>sm_closed = primary_reason gates \<noteq> None, sm_cutoff = mp_cutoff market, sm_timeframes = (missing = []),
               sm_zones = major_zones market, sm_bull = trigger_side_of setups (at_unavailable a) 1,
               sm_bear = trigger_side_of setups (at_unavailable a) (- 1), sm_trigger = (sole_setup setups \<noteq> None),
               sm_reward = reward_for setups (ai_cost inp), sm_primary = primary_reason gates,
               sm_gates = map (\<lambda>r. (r, gates r)) gate_reasons\<rparr>,
             candidate_of inp a gates))))"

section \<open>A candidate passed every gate\<close>

definition all_open :: "gates \<Rightarrow> bool" where
  "all_open gates \<longleftrightarrow> (\<forall>r. \<not> ga_closed (gates r))"

lemma close_gate_closed [simp]: "ga_closed (close_gate r detail gates x) \<longleftrightarrow> x = r \<or> ga_closed (gates x)"
  by (simp add: close_gate_def)

lemma close_if_closed [simp]: "ga_closed (close_if p r detail gates x) \<longleftrightarrow> p \<and> x = r \<or> ga_closed (gates x)"
  by (simp add: close_if_def)

lemma all_open_close [simp]:
  "\<not> all_open (close_gate r detail gates)" "all_open (close_if p r detail gates) \<longleftrightarrow> \<not> p \<and> all_open gates" "all_open new_gates"
  by (auto simp: all_open_def new_gates_def)

lemma reasons_complete: "r \<in> set gate_reasons"
  by (cases r) (simp_all add: gate_reasons_def)

lemma primary_reason_none: "primary_reason gates = None \<longleftrightarrow> all_open gates"
  using reasons_complete by (auto simp: primary_reason_def all_open_def find_None_iff)

lemma shape_gates_open:
  "all_open (shape_gates z setups gates) \<longleftrightarrow> length (m15_setups setups) = length setups \<and> length setups \<le> 1 \<and> all_open gates
     \<and> (\<forall>a \<in> set_option (sole_setup setups). valid_m15_successor z (as_setup a) = Some True)"
  by (cases "sole_setup setups") (auto simp: shape_gates_def Let_def split: option.splits)

lemma evidence_gates_open:
  "all_open (evidence_gates setups evidence gates) \<longleftrightarrow> all_open gates \<and> evidence = None \<and> (\<forall>a \<in> set setups. ee_required (as_entry a) = [])"
  by (auto simp: evidence_gates_def)

lemma event_gates_open:
  "all_open (event_gates market gates) \<longleftrightarrow> all_open gates \<and> mp_event_state market = Some ''available''
     \<and> mp_event_coverage market = Some ''attested_complete'' \<and> mp_active_windows market = []"
  by (auto simp: event_gates_def Let_def)

lemma cost_gates_open:
  "all_open (cost_gates market cost gates) \<longleftrightarrow> all_open gates
     \<and> (\<exists>c. cost = Some c \<and> complete_cost cost \<and> mp_cutoff market \<le> ac_stale_after c)"
  by (auto simp: cost_gates_def complete_cost_def Let_def not_less split: option.splits)

lemma reward_gates_open:
  assumes "length (m15_setups setups) \<le> 1" "complete_cost cost"
  shows "all_open (reward_gates setups cost gates) \<longleftrightarrow> all_open gates
     \<and> (\<exists>r. reward_for setups cost = Some r \<and> 0 < rw_net r \<and> rw_spread_ratio r \<le> 1 / 10)"
  using assms by (cases "sole_setup setups") (auto simp: reward_gates_def reward_for_def not_less not_le split: option.splits)

lemma capacity_gates_open:
  "all_open (capacity_gates setups capacity gates) \<longleftrightarrow> all_open gates
     \<and> (\<exists>c. capacity = Some c \<and> cy_aggregate c = ''available'' \<and> (\<forall>l \<in> set (cy_legs c). cl_disposition l = ''available'')
        \<and> (\<forall>a \<in> set_option (sole_setup setups). map cl_direction (cy_legs c) = expected_legs (as_setup a)))"
  by (cases "sole_setup setups") (auto simp: capacity_gates_def Let_def list_ex_iff split: option.splits)

text \<open>What an attributed setup promises.\<close>

definition admitted_setup :: "eligibility_entry list \<Rightarrow> attributed_setup \<Rightarrow> bool" where
  "admitted_setup entries a \<longleftrightarrow>
     as_entry a \<in> set entries \<and> ee_strategy (as_entry a) = va_strategy (as_evaluation a) \<and>
     ee_definition (as_entry a) = va_definition (as_evaluation a) \<and> ee_role (as_entry a) = SetupRole \<and>
     role_of (va_strategy (as_evaluation a)) = Some SetupRole \<and> SetupPart (as_setup a) \<in> set (va_outputs (as_evaluation a))"

lemma setup_part_in: "setup_part parts = Some s \<Longrightarrow> SetupPart s \<in> set parts"
  by (induction parts) (auto simp: setup_part_def List.map_filter_simps split: output_part.splits option.splits)

lemma admitted_entry_in:
  assumes "admitted_entry entries strategy definition_sha role = Some e"
  shows "e \<in> set entries \<and> ee_strategy e = strategy \<and> ee_definition e = definition_sha \<and> ee_role e = role"
proof -
  have "e \<in> set (rev entries) \<and> ee_strategy e = strategy \<and> ee_definition e = definition_sha \<and> ee_role e = role"
    using assms unfolding admitted_entry_def find_Some_iff by (metis nth_mem)
  then show ?thesis by simp
qed

lemma attribute_one_open:
  assumes "attribute_one entries item acc = Inr a" "all_open (at_gates a)"
  obtains x where "a = acc\<lparr>at_attributed := at_attributed acc @ [x]\<rparr>" "as_evaluation x = item" "admitted_setup entries x" "all_open (at_gates acc)"
proof -
  obtain role where role: "role_of (va_strategy item) = Some role" using assms(1) by (auto simp: attribute_one_def split: option.splits)
  obtain e where e: "admitted_entry entries (va_strategy item) (va_definition item) role = Some e" "role = SetupRole"
    using assms role by (auto simp: attribute_one_def split: option.splits if_splits)
  obtain s where s: "setup_part (va_outputs item) = Some s"
    using assms role e by (auto simp: attribute_one_def Let_def split: option.splits)
  let ?x = "\<lparr>as_evaluation = item, as_setup = s, as_entry = e\<rparr>"
  have "a = acc\<lparr>at_attributed := at_attributed acc @ [?x]\<rparr>" using assms(1) role e s by (simp add: attribute_one_def)
  moreover have "admitted_setup entries ?x"
    using e(2) role setup_part_in [OF s] admitted_entry_in [OF e(1)] by (simp add: admitted_setup_def)
  ultimately show ?thesis using that [of ?x] assms(2) by simp
qed

lemma attribute_all_open:
  "attribute_all entries items acc = Inr a \<Longrightarrow> all_open (at_gates a) \<Longrightarrow>
   all_open (at_gates acc) \<and> (\<exists>xs. at_attributed a = at_attributed acc @ xs \<and> map as_evaluation xs = items \<and> (\<forall>x \<in> set xs. admitted_setup entries x))"
proof (induction items arbitrary: acc)
  case (Cons item items)
  obtain b where b: "attribute_one entries item acc = Inr b" "attribute_all entries items b = Inr a"
    using Cons.prems(1) by (auto simp: and_then_Inr)
  obtain xs where xs: "all_open (at_gates b)" "at_attributed a = at_attributed b @ xs" "map as_evaluation xs = items"
    "\<forall>x \<in> set xs. admitted_setup entries x"
    using Cons.IH [OF b(2) Cons.prems(2)] by blast
  obtain x where x: "b = acc\<lparr>at_attributed := at_attributed acc @ [x]\<rparr>" "as_evaluation x = item" "admitted_setup entries x"
    "all_open (at_gates acc)"
    by (rule attribute_one_open [OF b(1) xs(1)])
  then show ?case using xs by (auto intro!: exI [of _ "x # xs"])
qed auto

lemma sole_setup_single: "sole_setup setups = Some a \<longleftrightarrow> m15_setups setups = [a]"
  by (auto simp: sole_setup_def split: list.splits)

lemma m15_setups_all:
  assumes "length (m15_setups setups) = length setups"
  shows "m15_setups setups = setups"
  unfolding m15_setups_def
proof (rule filter_True, rule ballI, rule ccontr)
  fix a assume "a \<in> set setups" "sp_granularity (as_setup a) \<noteq> Some ''M15''"
  then have "length (m15_setups setups) < length setups" unfolding m15_setups_def by (rule length_filter_less)
  then show False using assms by simp
qed

lemma sorted_set_empty [simp]: "sorted_set xs = [] \<longleftrightarrow> xs = []"
  by (simp add: sorted_set_def flip: set_empty)

text \<open>When no gate is closed there is exactly one setup, and it was admitted.\<close>

lemma open_assessment:
  assumes "attribution_of inp = Inr a" "all_open (all_gates z inp market a)"
  obtains s where "at_attributed a = [s]" "sole_setup (at_attributed a) = Some s" "map as_evaluation [s] = ai_evaluations inp"
    "admitted_setup (el_entries (ai_eligibility inp)) s" "el_entries (ai_eligibility inp) \<noteq> []"
proof -
  let ?entries = "el_entries (ai_eligibility inp)"
  obtain b where b: "attribute_all ?entries (ai_evaluations inp)
      \<lparr>at_gates = close_if (?entries = []) NoEconomicallyAdmittedStrategy ''canonical eligibility is empty'' new_gates,
        at_attributed = [], at_unavailable = []\<rparr> = Inr b"
    and a: "a = b\<lparr>at_gates := close_if (missing_evaluations ?entries (ai_evaluations inp) \<noteq> []) TechnicalSetupAbsent
        (''missing evaluations:'' @ join_commas (missing_evaluations ?entries (ai_evaluations inp))) (at_gates b)\<rparr>"
    using assms(1) by (auto simp: attribution_of_def Let_def and_then_Inr)
  have open_a: "all_open (at_gates a)" and shape: "length (m15_setups (at_attributed a)) = length (at_attributed a)" "length (at_attributed a) \<le> 1"
    using assms(2)
    by (auto simp: all_gates_def Let_def shape_gates_open evidence_gates_open event_gates_open cost_gates_open capacity_gates_open
        reward_gates_def split: if_splits option.splits)
  then have present: "missing_evaluations ?entries (ai_evaluations inp) = []" "all_open (at_gates b)" using a by simp_all
  obtain xs where xs: "?entries \<noteq> []" "at_attributed b = xs" "map as_evaluation xs = ai_evaluations inp"
    "\<forall>x \<in> set xs. admitted_setup ?entries x"
    using attribute_all_open [OF b present(2)] by auto
  have "ai_evaluations inp \<noteq> []"
    using present(1) xs(1) by (cases ?entries) (auto simp: missing_evaluations_def)
  then obtain s where s: "xs = [s]" using xs shape(2) a by (cases xs) auto
  then have "sole_setup (at_attributed a) = Some s"
    using m15_setups_all [OF shape(1)] xs(2) a by (simp add: sole_setup_single)
  then show ?thesis using that [of s] s xs a by auto
qed

text \<open>C17: A candidate passed every gate. It comes from a strategy that is admitted in the setup role, all timeframes and the event calendar are available with no active window, its cost is complete and not
  stale, its net reward after every cost is positive and the spread at most a tenth of the stop distance, both
  currency legs and the aggregate have capacity, it enters at the registered successor of its signal, it is no
  duplicate, and no evidence packet stands behind it.\<close>

theorem candidate_passed_every_gate:
  assumes "build_assessment z inp market = Inr (assessment, Some c)"
  shows "\<not> sm_closed assessment \<and> missing_timeframes market = []
    \<and> (\<exists>e \<in> set (el_entries (ai_eligibility inp)). ee_strategy e = ic_strategy c \<and> ee_role e = SetupRole \<and> role_of (ic_strategy c) = Some SetupRole)
    \<and> mp_event_state market = Some ''available'' \<and> mp_event_coverage market = Some ''attested_complete'' \<and> mp_active_windows market = []
    \<and> (\<exists>cost r. ai_cost inp = Some cost \<and> complete_cost (Some cost) \<and> mp_cutoff market \<le> ac_stale_after cost
         \<and> reward_of (ic_setup c) (ac_components cost) = Some r \<and> 0 < rw_net r \<and> rw_spread_ratio r \<le> 1 / 10)
    \<and> (\<exists>y. ai_capacity inp = Some y \<and> cy_aggregate y = ''available'' \<and> map cl_direction (cy_legs y) = expected_legs (ic_setup c)
         \<and> list_all (\<lambda>l. cl_disposition l = ''available'') (cy_legs y))
    \<and> valid_m15_successor z (ic_setup c) = Some True \<and> \<not> ai_duplicate inp \<and> ic_required_evidence c = None"
proof -
  obtain a where a: "attribution_of inp = Inr a" "candidate_of inp a (all_gates z inp market a) = Some c"
    "sm_closed assessment = (primary_reason (all_gates z inp market a) \<noteq> None)"
    using assms by (auto simp: build_assessment_def and_then_Inr Let_def split: if_splits)
  then have opened: "all_open (all_gates z inp market a)" by (auto simp: candidate_of_def primary_reason_none [symmetric] split: option.splits)
  obtain s where s: "at_attributed a = [s]" "sole_setup (at_attributed a) = Some s" "admitted_setup (el_entries (ai_eligibility inp)) s"
    by (rule open_assessment [OF a(1) opened])
  have c: "ic_setup c = as_setup s" "ic_strategy c = va_strategy (as_evaluation s)" "ic_required_evidence c = ai_evidence inp"
    using a(2) s(2) by (auto simp: candidate_of_def split: option.splits)
  have m15: "length (m15_setups (at_attributed a)) \<le> 1" using s(2) by (simp add: sole_setup_single)
  have gates: "all_open (reward_gates (at_attributed a) (ai_cost inp) (cost_gates market (ai_cost inp) (event_gates market
      (evidence_gates (at_attributed a) (ai_evidence inp) (shape_gates z (at_attributed a)
        (close_if (missing_timeframes market \<noteq> []) RequiredTimeframeUnavailable (join_commas (missing_timeframes market)) (at_gates a)))))))"
    and cap: "\<not> ai_duplicate inp" "\<exists>y. ai_capacity inp = Some y \<and> cy_aggregate y = ''available'' \<and> map cl_direction (cy_legs y) = expected_legs (as_setup s)
        \<and> (\<forall>l \<in> set (cy_legs y). cl_disposition l = ''available'')"
    using opened s(2) by (auto simp: all_gates_def Let_def capacity_gates_open)
  have cost: "complete_cost (ai_cost inp)"
    using gates m15 by (auto simp: reward_gates_def split: if_splits)
  note gates [unfolded reward_gates_open [OF m15 cost] cost_gates_open event_gates_open evidence_gates_open shape_gates_open all_open_close]
  then have rest: "missing_timeframes market = []" "mp_event_state market = Some ''available''" "mp_event_coverage market = Some ''attested_complete''"
    "mp_active_windows market = []" "ai_evidence inp = None" "valid_m15_successor z (as_setup s) = Some True"
    and "\<exists>cost. ai_cost inp = Some cost \<and> complete_cost (ai_cost inp) \<and> mp_cutoff market \<le> ac_stale_after cost"
    "\<exists>r. reward_for (at_attributed a) (ai_cost inp) = Some r \<and> 0 < rw_net r \<and> rw_spread_ratio r \<le> 1 / 10"
    using s(2) by auto
  then obtain cost r where "ai_cost inp = Some cost" "complete_cost (Some cost)" "mp_cutoff market \<le> ac_stale_after cost"
    "reward_of (as_setup s) (ac_components cost) = Some r" "0 < rw_net r" "rw_spread_ratio r \<le> 1 / 10"
    using s(2) by (auto simp: reward_for_def)
  then have "\<exists>cost r. ai_cost inp = Some cost \<and> complete_cost (Some cost) \<and> mp_cutoff market \<le> ac_stale_after cost
      \<and> reward_of (ic_setup c) (ac_components cost) = Some r \<and> 0 < rw_net r \<and> rw_spread_ratio r \<le> 1 / 10"
    unfolding c by blast
  moreover have "\<not> sm_closed assessment" using a(3) opened by (simp add: primary_reason_none)
  moreover have "\<exists>e \<in> set (el_entries (ai_eligibility inp)). ee_strategy e = ic_strategy c \<and> ee_role e = SetupRole \<and> role_of (ic_strategy c) = Some SetupRole"
    using s(3) c(2) by (auto simp: admitted_setup_def)
  ultimately show ?thesis using cap rest c by (simp add: list_all_iff)
qed

lemma find_map_fst: "map_option fst (List.find (\<lambda>(r, g). P g) (map (\<lambda>r. (r, f r)) rs)) = List.find (\<lambda>r. P (f r)) rs"
  by (induction rs) auto

text \<open>C18: An assessment is fail closed. It is available exactly when it comes with a candidate; its gates are
  all the reasons in their order of precedence, and its primary reason is the first closed one of them.\<close>

theorem assessment_is_fail_closed:
  assumes "build_assessment z inp market = Inr (assessment, candidate)"
  shows "(sm_closed assessment \<longleftrightarrow> candidate = None) \<and> map fst (sm_gates assessment) = gate_reasons
    \<and> sm_primary assessment = map_option fst (List.find (\<lambda>(r, g). ga_closed g) (sm_gates assessment))"
proof -
  obtain a where a: "attribution_of inp = Inr a" "candidate = candidate_of inp a (all_gates z inp market a)"
    "sm_closed assessment = (primary_reason (all_gates z inp market a) \<noteq> None)"
    "sm_gates assessment = map (\<lambda>r. (r, all_gates z inp market a r)) gate_reasons"
    "sm_primary assessment = primary_reason (all_gates z inp market a)"
    using assms by (auto simp: build_assessment_def and_then_Inr Let_def split: if_splits)
  have "candidate \<noteq> None" if "primary_reason (all_gates z inp market a) = None"
  proof -
    have opened: "all_open (all_gates z inp market a)" using that by (simp add: primary_reason_none)
    obtain s where s: "sole_setup (at_attributed a) = Some s" by (rule open_assessment [OF a(1) opened])
    have "length (m15_setups (at_attributed a)) \<le> 1" using s by (simp add: sole_setup_single)
    then have "complete_cost (ai_cost inp)"
      using opened by (auto simp: all_gates_def Let_def capacity_gates_open reward_gates_def split: if_splits)
    then have "ai_cost inp \<noteq> None" by (auto simp: complete_cost_def split: option.splits)
    moreover have "ai_capacity inp \<noteq> None" using opened by (auto simp: all_gates_def Let_def capacity_gates_open)
    ultimately show ?thesis using a(2) s that by (auto simp: candidate_of_def split: option.splits)
  qed
  moreover have "candidate = None" if "primary_reason (all_gates z inp market a) \<noteq> None"
    using that a(2) by (auto simp: candidate_of_def)
  ultimately show ?thesis using a by (auto simp: find_map_fst primary_reason_def comp_def)
qed

section \<open>The frozen projections\<close>

text \<open>\<^verbatim>\<open>assessments/legacy.py\<close>: what methods 1.0.0 and 1.1.0 gave for the canonical empty input.\<close>

definition empty_side :: trigger_side where
  [model_defs]: "empty_side = \<lparr>ts_supporting = [], ts_opposing = [], ts_pending = [], ts_rejected = []\<rparr>"

definition event_known :: "'z market_payload \<Rightarrow> bool" where
  [model_defs]: "event_known market \<longleftrightarrow> mp_event_state market = Some ''available'' \<and> mp_event_coverage market = Some ''attested_complete''"

definition event_detail :: "'z market_payload \<Rightarrow> string" where
  [model_defs]: "event_detail market =
     (case mp_event_reason market of Some r \<Rightarrow> r | None \<Rightarrow> (case mp_event_coverage market of Some c \<Rightarrow> c | None \<Rightarrow> []))"

definition empty_assessment :: "'z market_payload \<Rightarrow> (gate_reason \<times> gate) list \<Rightarrow> 'z assessment" where
  [model_defs]: "empty_assessment market gates =
     \<lparr>sm_closed = True, sm_cutoff = mp_cutoff market, sm_timeframes = (missing_timeframes market = []), sm_zones = major_zones market,
      sm_bull = empty_side, sm_bear = empty_side, sm_trigger = False, sm_reward = None,
      sm_primary = Some NoEconomicallyAdmittedStrategy, sm_gates = gates\<rparr>"

definition build_v1_empty_assessment :: "'z market_payload \<Rightarrow> 'z assessment" where
  [model_defs]: "build_v1_empty_assessment market =
     empty_assessment market
       (map (\<lambda>(r, passed, detail). (r, \<lparr>ga_closed = \<not> passed, ga_detail = detail\<rparr>))
         [(NoEconomicallyAdmittedStrategy, False, ''canonical eligibility is empty''),
          (RequiredTimeframeUnavailable, missing_timeframes market = [], join_commas (missing_timeframes market)),
          (TechnicalSetupAbsent, True, []), (TriggerPending, True, []), (TriggerRejected, True, []),
          (TriggerInvalidated, True, []), (TriggerExpired, True, []),
          (M15ConfirmationUnavailable, True, ''v1 has no H1-to-M15 entry adapter''),
          (UnsupportedIntentShape, True, ''only exact Phase 5 M15 setup geometry is supported''),
          (RequiredEvidenceNotReady, True, []),
          (EventStateUnknown, event_known market, event_detail market),
          (EventWindowBlocked, mp_active_windows market = [], join_commas (sort (mp_active_windows market))),
          (CostEvidenceMissing, False, ''all exact components required''), (CostEvidenceStale, True, []),
          (SpreadUnknown, False, ''exact spread required''), (SpreadExceedsStrategyLimit, True, []),
          (NetRewardNonpositive, False, ''unknown''), (CapacityAssessmentMissing, False, []),
          (AggregateCapacityExceeded, False, []), (CurrencyDirectionCapacityExceeded, False, []),
          (ConflictingEligibleSetups, True, ''both directions present''), (UnchangedDuplicateIntent, True, [])])"

text \<open>The closed gates of method 1.1.0 with their details.\<close>

definition v11_closed :: "'z market_payload \<Rightarrow> (gate_reason \<times> string) list" where
  [model_defs]: "v11_closed market =
     [(NoEconomicallyAdmittedStrategy, ''canonical eligibility is empty''), (SpreadUnknown, ''exact spread required''),
      (CostEvidenceMissing, ''all exact components required''), (NetRewardNonpositive, ''unknown''),
      (CapacityAssessmentMissing, []), (AggregateCapacityExceeded, ''unknown''), (CurrencyDirectionCapacityExceeded, ''unknown'')]
     @ (if missing_timeframes market \<noteq> [] then [(RequiredTimeframeUnavailable, join_commas (missing_timeframes market))] else [])
     @ (if \<not> event_known market then [(EventStateUnknown, event_detail market)] else [])
     @ (if mp_active_windows market \<noteq> [] then [(EventWindowBlocked, join_commas (sort (mp_active_windows market)))] else [])"

definition build_v11_empty_assessment :: "'z market_payload \<Rightarrow> 'z assessment" where
  [model_defs]: "build_v11_empty_assessment market =
     (build_v1_empty_assessment market)\<lparr>sm_gates :=
        map (\<lambda>r. (r, case map_of (v11_closed market) r of
            Some detail \<Rightarrow> \<lparr>ga_closed = True, ga_detail = detail\<rparr>
          | None \<Rightarrow> \<lparr>ga_closed = False, ga_detail = []\<rparr>)) gate_reasons\<rparr>"

definition empty_input :: "string \<Rightarrow> string \<Rightarrow> assessment_input" where
  [model_defs]: "empty_input identity predecessor =
     \<lparr>ai_method_known = True, ai_eligibility = \<lparr>el_identity = identity, el_entries = []\<rparr>, ai_evaluations = [], ai_cost = None,
      ai_capacity = None, ai_evidence = None, ai_duplicate = False, ai_predecessor = predecessor\<rparr>"

lemma close_gate_fresh: "ga_detail (gates r) = [] \<Longrightarrow> close_gate r detail gates = gates(r := \<lparr>ga_closed = True, ga_detail = detail\<rparr>)"
  by (simp add: close_gate_def)

lemma close_if_fresh:
  "ga_detail (gates r) = [] \<Longrightarrow> close_if p r detail gates = (if p then gates(r := \<lparr>ga_closed = True, ga_detail = detail\<rparr>) else gates)"
  by (simp add: close_if_def close_gate_fresh)

lemma empty_input_assessed:
  "build_assessment z (empty_input identity predecessor) market = Inr (build_v11_empty_assessment market, None)"
proof -
  let ?inp = "empty_input identity predecessor"
  let ?g = "new_gates(NoEconomicallyAdmittedStrategy := \<lparr>ga_closed = True, ga_detail = ''canonical eligibility is empty''\<rparr>)"
  let ?a = "\<lparr>at_gates = ?g, at_attributed = [], at_unavailable = []\<rparr>"
  have a: "attribution_of ?inp = Inr ?a"
    by (simp add: attribution_of_def empty_input_def close_if_def close_gate_fresh new_gates_def missing_evaluations_def)
  have gates: "all_gates z ?inp market ?a r = (case map_of (v11_closed market) r of
        Some detail \<Rightarrow> \<lparr>ga_closed = True, ga_detail = detail\<rparr> | None \<Rightarrow> \<lparr>ga_closed = False, ga_detail = []\<rparr>)" for r
  proof -
    have none: "m15_setups [] = []" "sole_setup [] = None" by (simp_all add: m15_setups_def sole_setup_def)
    have closed: "all_gates z ?inp market ?a = capacity_gates [] None (reward_gates [] None (cost_gates market None (event_gates market
        (close_if (missing_timeframes market \<noteq> []) RequiredTimeframeUnavailable (join_commas (missing_timeframes market)) ?g))))"
      by (simp add: all_gates_def Let_def empty_input_def shape_gates_def evidence_gates_def none close_if_def)
    show ?thesis unfolding closed
      by (cases r; simp add: capacity_gates_def reward_gates_def cost_gates_def complete_cost_def event_gates_def none Let_def
          close_if_fresh close_gate_fresh new_gates_def v11_closed_def event_known_def event_detail_def)
  qed
  have primary: "primary_reason (all_gates z ?inp market ?a) = Some NoEconomicallyAdmittedStrategy"
    unfolding primary_reason_def gate_reasons_def by (simp add: gates v11_closed_def)
  show ?thesis
    unfolding build_assessment_def a and_then_simps Let_def
    by (simp add: empty_input_def [of identity predecessor, THEN arg_cong [where f = ai_method_known]] primary candidate_of_def gates
        build_v11_empty_assessment_def build_v1_empty_assessment_def empty_assessment_def)
       (simp add: empty_input_def trigger_side_of_def empty_side_def sole_setup_def m15_setups_def reward_for_def)
qed

text \<open>C19: The frozen projection of method 1.1.0 is what the engine computes. On the canonical empty input, for
  every snapshot payload, \<^verbatim>\<open>build_assessment\<close> gives exactly the assessment of
  \<^verbatim>\<open>build_v11_empty_assessment\<close>, every gate and detail included, and no candidate.\<close>

theorem empty_assessment_is_frozen:
  "build_assessment z (empty_input identity predecessor) market = Inr (build_v11_empty_assessment market, None)"
  by (rule empty_input_assessed)

section \<open>A sample assessment\<close>

definition sample_payload :: setup_payload where
  "sample_payload = \<lparr>sp_direction = 1, sp_granularity = Some ''M15'', sp_signal_start = Some (days 4 + hours 8 + minutes 15),
     sp_available_at = Some (days 4 + hours 8 + minutes 30), sp_entry_at = Some (days 4 + hours 8 + minutes 30),
     sp_expires_at = Some (days 4 + hours 8 + minutes 45), sp_reference = Some 10, sp_stop = Some 9, sp_target = Some 12,
     sp_evidence = []\<rparr>"

definition sample_evaluation :: evaluation where
  "sample_evaluation = \<lparr>va_identity = ''v'', va_strategy = ''pullback-m15-v1'', va_definition = ''d'', va_evidence_sha = ''e'',
     va_output_sha = ''o'', va_outputs = [SetupPart sample_payload]\<rparr>"

definition sample_inputs :: assessment_input where
  "sample_inputs = \<lparr>ai_method_known = True,
     ai_eligibility = \<lparr>el_identity = ''l'', el_entries = [\<lparr>ee_strategy = ''pullback-m15-v1'', ee_definition = ''d'', ee_role = SetupRole, ee_required = []\<rparr>]\<rparr>,
     ai_evaluations = [sample_evaluation],
     ai_cost = Some \<lparr>ac_identity = ''c'', ac_components = \<lparr>cc_spread = Some (1 / 20), cc_commission = Some (1 / 20),
       cc_slippage_latency = Some (1 / 20), cc_financing = Some (1 / 20)\<rparr>, ac_stale_after = days 9, ac_stale_text = []\<rparr>,
     ai_capacity = Some \<lparr>cy_identity = ''y'', cy_aggregate = ''available'',
       cy_legs = [\<lparr>cl_direction = ''long'', cl_disposition = ''available''\<rparr>, \<lparr>cl_direction = ''short'', cl_disposition = ''available''\<rparr>]\<rparr>,
     ai_evidence = None, ai_duplicate = False, ai_predecessor = ''open''\<rparr>"

definition sample_market :: "nat market_payload" where
  "sample_market = \<lparr>mp_cutoff = days 4 + hours 8 + minutes 30, mp_state = (\<lambda>t. Some ''available''), mp_monthly_state = Some ''available'',
     mp_zones = (\<lambda>t. []), mp_event_state = Some ''available'', mp_event_coverage = Some ''attested_complete'', mp_event_reason = None,
     mp_active_windows = []\<rparr>"

definition sample_candidate :: intent_candidate where
  "sample_candidate = \<lparr>ic_strategy = ''pullback-m15-v1'', ic_evaluation = ''v'', ic_setup = sample_payload, ic_eligibility = ''l'',
     ic_cost = ''c'', ic_capacity = ''y'', ic_required_evidence = None, ic_predecessor = ''open''\<rparr>"

lemma rnd28_sample [simp]:
  "rnd28 1 = 1" "rnd28 2 = 2" "rnd28 (1 / 20) = 1 / 20" "rnd28 (1 / 10) = 1 / 10" "rnd28 (3 / 20) = 3 / 20" "rnd28 (1 / 5) = 1 / 5"
  "rnd28 (9 / 5) = 9 / 5"
  using ctx_round_exact [of 1 1 0 28] ctx_round_exact [of 2 2 0 28] ctx_round_exact [of "1 / 20" 5 "-2" 28] ctx_round_exact [of "1 / 10" 1 "-1" 28]
    ctx_round_exact [of "3 / 20" 15 "-2" 28] ctx_round_exact [of "1 / 5" 2 "-1" 28] ctx_round_exact [of "9 / 5" 18 "-1" 28]
  by (simp_all add: power_int_minus)

lemma sample_assessed: "\<exists>assessment. build_assessment (fixed_zone 0) sample_inputs sample_market = Inr (assessment, Some sample_candidate)"
proof -
  let ?e = "\<lparr>ee_strategy = ''pullback-m15-v1'', ee_definition = ''d'', ee_role = SetupRole, ee_required = []\<rparr>"
  let ?s = "\<lparr>as_evaluation = sample_evaluation, as_setup = sample_payload, as_entry = ?e\<rparr>"
  let ?a = "\<lparr>at_gates = new_gates, at_attributed = [?s], at_unavailable = []\<rparr>"
  have role: "role_of ''pullback-m15-v1'' = Some SetupRole" by (simp add: role_of_def strategies_def)
  have one: "attribute_one [?e] sample_evaluation \<lparr>at_gates = new_gates, at_attributed = [], at_unavailable = []\<rparr> = Inr ?a"
    by (simp add: attribute_one_def sample_evaluation_def role admitted_entry_def setup_part_def List.map_filter_simps)
  have absent: "missing_evaluations [?e] [sample_evaluation] = []" by (simp add: missing_evaluations_def sample_evaluation_def)
  have a: "attribution_of sample_inputs = Inr ?a"
    using one absent by (simp add: attribution_of_def sample_inputs_def close_if_def)
  have m15: "m15_setups [?s] = [?s]" "sole_setup [?s] = Some ?s" by (simp_all add: m15_setups_def sole_setup_def sample_payload_def)
  have entry: "valid_m15_successor (fixed_zone 0) sample_payload = Some True"
    by (simp add: valid_m15_successor_def sample_payload_def registered_successor_def fixed_zone_def weekday_def time_of_day_def duration_defs Let_def)
  have complete: "complete_cost (ai_cost sample_inputs)" by (simp add: complete_cost_def sample_inputs_def)
  have reward: "reward_for [?s] (ai_cost sample_inputs) = Some \<lparr>rw_gross = 2, rw_net = 9 / 5, rw_spread_ratio = 1 / 20\<rparr>"
  proof -
    let ?c = "\<lparr>cc_spread = Some (1 / 20), cc_commission = Some (1 / 20), cc_slippage_latency = Some (1 / 20), cc_financing = Some (1 / 20)\<rparr>"
    have "ai_cost sample_inputs = Some \<lparr>ac_identity = ''c'', ac_components = ?c, ac_stale_after = days 9, ac_stale_text = []\<rparr>"
      by (simp add: sample_inputs_def)
    moreover have "reward_of sample_payload ?c = Some \<lparr>rw_gross = 2, rw_net = 9 / 5, rw_spread_ratio = 1 / 20\<rparr>"
      by (simp add: reward_of_def sample_payload_def)
    ultimately show ?thesis using complete unfolding reward_for_def m15 by simp
  qed
  have present: "missing_timeframes sample_market = []" by (simp add: missing_timeframes_def sample_market_def)
  have "all_open (all_gates (fixed_zone 0) sample_inputs sample_market ?a)"
    unfolding all_gates_def Let_def
    by (simp add: present capacity_gates_open reward_gates_open m15 complete reward cost_gates_open event_gates_open evidence_gates_open
        shape_gates_open entry)
       (simp add: sample_inputs_def sample_market_def complete_cost_def expected_legs_def sample_payload_def duration_defs)
  then have "primary_reason (all_gates (fixed_zone 0) sample_inputs sample_market ?a) = None" by (simp add: primary_reason_none)
  then have "candidate_of sample_inputs ?a (all_gates (fixed_zone 0) sample_inputs sample_market ?a) = Some sample_candidate"
    using m15 by (simp add: candidate_of_def) (simp add: sample_inputs_def sample_candidate_def sample_evaluation_def)
  moreover have "ai_method_known sample_inputs" by (simp add: sample_inputs_def)
  ultimately show ?thesis unfolding build_assessment_def a by (simp add: Let_def)
qed

theorem candidate_passed_every_gate_witness:
  "valid_m15_successor (fixed_zone 0) (ic_setup sample_candidate) = Some True \<and> mp_active_windows sample_market = []"
proof -
  obtain assessment where "build_assessment (fixed_zone 0) sample_inputs sample_market = Inr (assessment, Some sample_candidate)"
    using sample_assessed by blast
  from candidate_passed_every_gate [OF this] show ?thesis by blast
qed

theorem assessment_is_fail_closed_witness:
  "\<exists>assessment. build_assessment (fixed_zone 0) sample_inputs sample_market = Inr (assessment, Some sample_candidate) \<and> \<not> sm_closed assessment"
proof -
  obtain assessment where run: "build_assessment (fixed_zone 0) sample_inputs sample_market = Inr (assessment, Some sample_candidate)"
    using sample_assessed by blast
  from assessment_is_fail_closed [OF this] show ?thesis using run by blast
qed

end
