(* ===== verification/Ledger.thy ===== *)
theory Ledger
  imports Assessment
begin

text \<open>
  \<^verbatim>\<open>assessments/services.py\<close>: the append-only ledger of assessments. Until an authoritative contract exists only the
  canonical empty eligibility can be appended and neither costs nor capacities can, so every assessment is closed. A
  stored row can be replayed: everything it depends on is read again and its output computed again. The digests, the
  verified load of a snapshot and the constants of the empty contract are the fields of \<open>ledger_env\<close>; the method row
  and the advisory locks are not modelled.

  The lemmas show that in every reachable ledger each row replays, that assessing again returns the stored row, and
  that no assessment has a candidate.
\<close>

section \<open>Rows\<close>

datatype ledger_error =
    SnapshotRefused | EligibilityMissing | Phase55Authority | CanonicalEmptyRequired | EligibilityChronology | EmptyHasNoExpiry
  | EligibilityConflict | EligibilityGuard | EligibilityIntegrity | EligibilityForgery | EvaluationNotAdmitted
  | CostAfterCutoff | CostAuthority | CapacityAfterCutoff | CapacityAuthority | EvidenceRequirement | UnrequiredEvidence
  | EngineError | CandidateWithoutEligibility | CutoffForgery | ManifestForgery | ReplayFailure | CandidateReplay
  | CandidateMissing | UnsafeHistoricalInputs | HistoricalCandidate

record eligibility_payload =
  ep_instrument :: string
  ep_era :: string
  ep_decision :: string
  ep_manifest :: string
  ep_provenance :: string
  ep_entries :: "eligibility_entry list"

record eligibility_row =
  er_id :: nat
  er_instrument :: string
  er_valid_from :: instant
  er_valid_until :: "instant option"
  er_known_at :: instant
  er_payload :: eligibility_payload
  er_digest :: string
  er_recorded_at :: instant

text \<open>A row of the cost or of the capacity table: only when it was recorded matters.\<close>

record evidence_row =
  vr_id :: nat
  vr_digest :: string
  vr_recorded_at :: instant

record eligibility_reference =
  rf_digest :: string
  rf_known_at :: instant
  rf_valid_from :: instant
  rf_valid_until :: "instant option"
  rf_recorded_at :: instant

datatype method_digest = MethodV1 | MethodV11 | MethodCurrent

datatype manifest_eligibility = DigestOnly string | FullReference eligibility_reference

record input_manifest =
  im_method :: method_digest
  im_snapshot :: nat
  im_identity :: string
  im_eligibility :: manifest_eligibility
  im_evaluations :: "string list"
  im_cost :: "string option"
  im_capacity :: "string option"
  im_evidence :: "string option"

record 'z assessment_row =
  ar_id :: nat
  ar_method :: method_digest
  ar_snapshot :: nat
  ar_eligibility :: nat
  ar_cost :: "nat option"
  ar_capacity :: "nat option"
  ar_packet :: "nat option"
  ar_cutoff :: instant
  ar_manifest :: input_manifest
  ar_digest :: string
  ar_output :: "'z assessment"
  ar_output_digest :: string
  ar_candidate :: "intent_candidate option"

record 'z loaded_snapshot =
  ld_instrument :: string
  ld_identity :: string
  ld_market :: "'z market_payload"

record 'z ledger_env =
  le_zone :: zone
  le_load :: "nat \<Rightarrow> 'z loaded_snapshot option"
  le_payload_digest :: "eligibility_payload \<Rightarrow> string"
  le_manifest_digest :: "input_manifest \<Rightarrow> string"
  le_output_digest :: "'z assessment \<Rightarrow> string"
  le_empty_decision :: string
  le_empty_manifest :: string
  le_empty_provenance :: string

record 'z ledger =
  lg_eligibility :: "eligibility_row list"
  lg_costs :: "evidence_row list"
  lg_capacities :: "evidence_row list"
  lg_rows :: "'z assessment_row list"

definition empty_ledger :: "'z ledger" where
  [model_defs]: "empty_ledger = \<lparr>lg_eligibility = [], lg_costs = [], lg_capacities = [], lg_rows = []\<rparr>"

section \<open>Eligibility\<close>

definition empty_eligibility_era :: string where
  [model_defs]: "empty_eligibility_era = ''phase6a-canonical-empty-v1''"

definition eligibility_payload_of ::
  "'z ledger_env \<Rightarrow> string \<Rightarrow> string \<Rightarrow> eligibility_entry list \<Rightarrow> string \<Rightarrow> string \<Rightarrow> string \<Rightarrow> ledger_error + eligibility_payload" where
  [model_defs]: "eligibility_payload_of env instrument era entries decision manifest provenance =
     (if entries \<noteq> [] then Inl Phase55Authority
      else if era \<noteq> empty_eligibility_era \<or> decision \<noteq> le_empty_decision env \<or> manifest \<noteq> le_empty_manifest env
        \<or> provenance \<noteq> le_empty_provenance env then Inl CanonicalEmptyRequired
      else Inr \<lparr>ep_instrument = instrument, ep_era = era, ep_decision = decision, ep_manifest = manifest,
             ep_provenance = provenance, ep_entries = []\<rparr>)"

text \<open>The database clock \<open>stored\<close> replaces both times of a new row, and its guard refuses a decision of the future.\<close>

definition append_reviewed_eligibility ::
  "'z ledger_env \<Rightarrow> instant \<Rightarrow> instant \<Rightarrow> eligibility_payload \<Rightarrow> instant \<Rightarrow> instant option \<Rightarrow> 'z ledger
     \<Rightarrow> ledger_error + eligibility_row \<times> 'z ledger" where
  [model_defs]: "append_reviewed_eligibility env now stored request known_at valid_until st =
     (if now < known_at then Inl EligibilityChronology
      else if valid_until \<noteq> None then Inl EmptyHasNoExpiry
      else
        and_then (eligibility_payload_of env (ep_instrument request) (ep_era request) (ep_entries request) (ep_decision request)
            (ep_manifest request) (ep_provenance request)) (\<lambda>payload.
          (let digest = le_payload_digest env payload in
           case List.find (\<lambda>r. er_digest r = digest) (lg_eligibility st) of
             Some r \<Rightarrow> if er_known_at r \<noteq> known_at then Inl EligibilityConflict else Inr (r, st)
           | None \<Rightarrow>
               if stored < known_at then Inl EligibilityGuard
               else
                 (let r = \<lparr>er_id = Suc (length (lg_eligibility st)), er_instrument = ep_instrument request, er_valid_from = stored,
                        er_valid_until = None, er_known_at = known_at, er_payload = payload, er_digest = digest,
                        er_recorded_at = stored\<rparr>
                  in Inr (r, st\<lparr>lg_eligibility := lg_eligibility st @ [r]\<rparr>)))))"

definition append_cost_evidence :: "'z ledger \<Rightarrow> ledger_error + 'z ledger" where
  [model_defs]: "append_cost_evidence st = Inl CostAuthority"

definition append_capacity_assessment :: "'z ledger \<Rightarrow> ledger_error + 'z ledger" where
  [model_defs]: "append_capacity_assessment st = Inl CapacityAuthority"

definition eligibility_envelope :: "'z ledger_env \<Rightarrow> eligibility_row \<Rightarrow> instant \<Rightarrow> string \<Rightarrow> ledger_error + eligibility" where
  [model_defs]: "eligibility_envelope env r cutoff instrument =
     (let p = er_payload r in
      if er_digest r \<noteq> le_payload_digest env p \<or> er_instrument r \<noteq> instrument \<or> ep_instrument p \<noteq> er_instrument r
         \<or> er_valid_from r \<noteq> er_recorded_at r \<or> er_valid_until r \<noteq> None \<or> er_recorded_at r < er_known_at r
         \<or> cutoff < er_valid_from r \<or> cutoff < er_known_at r \<or> cutoff < er_recorded_at r
      then Inl EligibilityIntegrity
      else
        and_then (eligibility_payload_of env (er_instrument r) (ep_era p) (ep_entries p) (ep_decision p) (ep_manifest p) (ep_provenance p))
          (\<lambda>expected. if p \<noteq> expected then Inl EligibilityForgery
             else Inr \<lparr>el_identity = er_digest r, el_entries = ep_entries p\<rparr>))"

definition reference_of :: "eligibility_row \<Rightarrow> eligibility_reference" where
  [model_defs]: "reference_of r =
     \<lparr>rf_digest = er_digest r, rf_known_at = er_known_at r, rf_valid_from = er_valid_from r, rf_valid_until = er_valid_until r,
      rf_recorded_at = er_recorded_at r\<rparr>"

definition cost_envelope :: "evidence_row option \<Rightarrow> instant \<Rightarrow> ledger_error + assessed_cost option" where
  [model_defs]: "cost_envelope row cutoff =
     (case row of None \<Rightarrow> Inr None | Some r \<Rightarrow> Inl (if cutoff < vr_recorded_at r then CostAfterCutoff else CostAuthority))"

definition capacity_envelope :: "evidence_row option \<Rightarrow> instant \<Rightarrow> ledger_error + assessed_capacity option" where
  [model_defs]: "capacity_envelope row cutoff =
     (case row of None \<Rightarrow> Inr None | Some r \<Rightarrow> Inl (if cutoff < vr_recorded_at r then CapacityAfterCutoff else CapacityAuthority))"

definition evidence_envelope :: "nat option \<Rightarrow> string list \<Rightarrow> ledger_error + string option" where
  [model_defs]: "evidence_envelope packet required =
     (if required \<noteq> [] then Inl EvidenceRequirement else if packet \<noteq> None then Inl UnrequiredEvidence else Inr None)"

section \<open>Assessing and replaying\<close>

text \<open>The identifiers of the rows count from one; the code takes the identifier zero for no row.\<close>

definition evidence_at :: "evidence_row list \<Rightarrow> nat option \<Rightarrow> evidence_row option" where
  [model_defs]: "evidence_at rows key = (case key of None \<Rightarrow> None | Some i \<Rightarrow> if i = 0 then None else List.find (\<lambda>r. vr_id r = i) rows)"

definition eligibility_at :: "'z ledger \<Rightarrow> nat \<Rightarrow> ledger_error + eligibility_row" where
  [model_defs]: "eligibility_at st key =
     (case List.find (\<lambda>r. er_id r = key) (lg_eligibility st) of None \<Rightarrow> Inl EligibilityMissing | Some r \<Rightarrow> Inr r)"

definition load_snapshot :: "'z ledger_env \<Rightarrow> nat \<Rightarrow> ledger_error + 'z loaded_snapshot" where
  [model_defs]: "load_snapshot env key = (case le_load env key of None \<Rightarrow> Inl SnapshotRefused | Some s \<Rightarrow> Inr s)"

record envelopes =
  ev_eligibility :: eligibility
  ev_cost :: "assessed_cost option"
  ev_capacity :: "assessed_capacity option"
  ev_evidence :: "string option"

text \<open>The inputs that an assessment depends on beside its snapshot.\<close>

definition envelopes_of ::
  "'z ledger_env \<Rightarrow> 'z ledger \<Rightarrow> 'z loaded_snapshot \<Rightarrow> eligibility \<Rightarrow> nat option \<Rightarrow> nat option \<Rightarrow> nat option \<Rightarrow> ledger_error + envelopes" where
  [model_defs]: "envelopes_of env st s eligibility cost_id capacity_id packet =
     (let cutoff = mp_cutoff (ld_market s) in
      and_then (cost_envelope (evidence_at (lg_costs st) cost_id) cutoff) (\<lambda>cost.
      and_then (capacity_envelope (evidence_at (lg_capacities st) capacity_id) cutoff) (\<lambda>capacity.
      and_then (evidence_envelope packet (sorted_set (concat (map ee_required (el_entries eligibility))))) (\<lambda>evidence.
        Inr \<lparr>ev_eligibility = eligibility, ev_cost = cost, ev_capacity = capacity, ev_evidence = evidence\<rparr>))))"

definition run_engine ::
  "'z ledger_env \<Rightarrow> envelopes \<Rightarrow> bool \<Rightarrow> 'z market_payload \<Rightarrow> ledger_error + 'z assessment \<times> intent_candidate option" where
  [model_defs]: "run_engine env v duplicate market =
     (case build_assessment (le_zone env) \<lparr>ai_method_known = True, ai_eligibility = ev_eligibility v, ai_evaluations = [],
         ai_cost = ev_cost v, ai_capacity = ev_capacity v, ai_evidence = ev_evidence v, ai_duplicate = duplicate,
         ai_predecessor = ''open''\<rparr> market of
        Inl e \<Rightarrow> Inl EngineError
      | Inr r \<Rightarrow> Inr r)"

definition manifest_of :: "method_digest \<Rightarrow> nat \<Rightarrow> 'z loaded_snapshot \<Rightarrow> manifest_eligibility \<Rightarrow> input_manifest" where
  [model_defs]: "manifest_of method key s reference =
     \<lparr>im_method = method, im_snapshot = key, im_identity = ld_identity s, im_eligibility = reference, im_evaluations = [],
      im_cost = None, im_capacity = None, im_evidence = None\<rparr>"

definition replay_historical :: "'z ledger_env \<Rightarrow> 'z ledger \<Rightarrow> 'z assessment_row \<Rightarrow> ledger_error + 'z assessment_row" where
  [model_defs]: "replay_historical env st row =
     and_then (load_snapshot env (ar_snapshot row)) (\<lambda>s.
       if ar_cutoff row \<noteq> mp_cutoff (ld_market s) then Inl CutoffForgery
       else
         and_then (eligibility_at st (ar_eligibility row)) (\<lambda>r.
         and_then (eligibility_envelope env r (mp_cutoff (ld_market s)) (ld_instrument s)) (\<lambda>eligibility.
           if el_entries eligibility \<noteq> [] \<or> ar_cost row \<noteq> None \<or> ar_capacity row \<noteq> None \<or> ar_packet row \<noteq> None
              \<or> im_evaluations (ar_manifest row) \<noteq> [] then Inl UnsafeHistoricalInputs
           else
             (let reference = (if ar_method row = MethodV1 then DigestOnly (er_digest r) else FullReference (reference_of r));
                  expected = manifest_of (ar_method row) (ar_snapshot row) s reference;
                  frozen = (if ar_method row = MethodV1 then build_v1_empty_assessment (ld_market s)
                            else build_v11_empty_assessment (ld_market s))
              in if ar_manifest row \<noteq> expected \<or> le_manifest_digest env expected \<noteq> ar_digest row then Inl ManifestForgery
                 else if ar_output row \<noteq> frozen \<or> le_output_digest env frozen \<noteq> ar_output_digest row then Inl ReplayFailure
                 else if ar_candidate row \<noteq> None then Inl HistoricalCandidate
                 else Inr row))))"

definition replay :: "'z ledger_env \<Rightarrow> 'z ledger \<Rightarrow> 'z assessment_row \<Rightarrow> ledger_error + 'z assessment_row" where
  [model_defs]: "replay env st row =
     (if ar_method row \<noteq> MethodCurrent then replay_historical env st row
      else
        and_then (load_snapshot env (ar_snapshot row)) (\<lambda>s.
          if ar_cutoff row \<noteq> mp_cutoff (ld_market s) then Inl CutoffForgery
          else
            and_then (eligibility_at st (ar_eligibility row)) (\<lambda>r.
            and_then (eligibility_envelope env r (mp_cutoff (ld_market s)) (ld_instrument s)) (\<lambda>eligibility.
              if im_evaluations (ar_manifest row) \<noteq> [] then Inl EvaluationNotAdmitted
              else
                and_then (envelopes_of env st s eligibility (ar_cost row) (ar_capacity row) (ar_packet row)) (\<lambda>v.
                  (let manifest = manifest_of (ar_method row) (ar_snapshot row) s (FullReference (reference_of r)) in
                   if ar_manifest row \<noteq> manifest \<or> le_manifest_digest env (ar_manifest row) \<noteq> ar_digest row
                   then Inl ManifestForgery
                   else
                     and_then (run_engine env v (sm_primary (ar_output row) = Some UnchangedDuplicateIntent) (ld_market s))
                       (\<lambda>(expected, candidate).
                         if expected \<noteq> ar_output row \<or> le_output_digest env expected \<noteq> ar_output_digest row
                         then Inl ReplayFailure
                         else
                           (case ar_candidate row of
                              Some c \<Rightarrow> if candidate \<noteq> Some c then Inl CandidateReplay else Inr row
                            | None \<Rightarrow> if candidate \<noteq> None then Inl CandidateMissing else Inr row))))))))"

text \<open>The arguments of an assessment.\<close>

record assess_request =
  rq_snapshot :: nat
  rq_eligibility :: nat
  rq_evaluations :: "nat list"
  rq_cost :: "nat option"
  rq_capacity :: "nat option"
  rq_packet :: "nat option"

definition digest_of_row :: "evidence_row list \<Rightarrow> nat option \<Rightarrow> string option" where
  [model_defs]: "digest_of_row rows key = map_option vr_digest (evidence_at rows key)"

definition assess ::
  "'z ledger_env \<Rightarrow> assess_request \<Rightarrow> 'z ledger \<Rightarrow> ledger_error + ('z assessment_row \<times> intent_candidate option \<times> bool) \<times> 'z ledger" where
  [model_defs]: "assess env q st =
     and_then (load_snapshot env (rq_snapshot q)) (\<lambda>s.
     and_then (eligibility_at st (rq_eligibility q)) (\<lambda>r.
     and_then (eligibility_envelope env r (mp_cutoff (ld_market s)) (ld_instrument s)) (\<lambda>eligibility.
       if rq_evaluations q \<noteq> [] then Inl EvaluationNotAdmitted
       else
         and_then (envelopes_of env st s eligibility (rq_cost q) (rq_capacity q) (rq_packet q)) (\<lambda>v.
           (let manifest = (manifest_of MethodCurrent (rq_snapshot q) s (FullReference (reference_of r)))
                  \<lparr>im_cost := digest_of_row (lg_costs st) (rq_cost q), im_capacity := digest_of_row (lg_capacities st) (rq_capacity q)\<rparr>;
                digest = le_manifest_digest env manifest
            in case List.find (\<lambda>x. ar_digest x = digest) (lg_rows st) of
                 Some row \<Rightarrow> and_then (replay env st row) (\<lambda>x. Inr ((row, ar_candidate row, False), st))
               | None \<Rightarrow>
                   and_then (run_engine env v False (ld_market s)) (\<lambda>(preliminary, candidate).
                     if candidate \<noteq> None then Inl CandidateWithoutEligibility
                     else
                       (let row = \<lparr>ar_id = Suc (length (lg_rows st)), ar_method = MethodCurrent, ar_snapshot = rq_snapshot q,
                              ar_eligibility = er_id r, ar_cost = map_option vr_id (evidence_at (lg_costs st) (rq_cost q)),
                              ar_capacity = map_option vr_id (evidence_at (lg_capacities st) (rq_capacity q)), ar_packet = None,
                              ar_cutoff = mp_cutoff (ld_market s), ar_manifest = manifest, ar_digest = digest,
                              ar_output = preliminary, ar_output_digest = le_output_digest env preliminary, ar_candidate = None\<rparr>
                        in Inr ((row, None, True), st\<lparr>lg_rows := lg_rows st @ [row]\<rparr>))))))))"

text \<open>\<^verbatim>\<open>audit_integrity\<close>: the rows after an identifier that do not replay, in pages. Its check of supersessions
  concerns rows with a candidate.\<close>

record audit_page =
  ad_checked :: nat
  ad_has_more :: bool
  ad_next :: int
  ad_violations :: "nat list"

definition audit_integrity :: "'z ledger_env \<Rightarrow> 'z ledger \<Rightarrow> int \<Rightarrow> int \<Rightarrow> audit_page option" where
  [model_defs]: "audit_integrity env st after limit =
     (if after < 0 \<or> limit < 1 \<or> 100 < limit then None
      else
        (let rows = take (nat limit + 1) (filter (\<lambda>r. after < int (ar_id r)) (lg_rows st)); checked = take (nat limit) rows
         in Some \<lparr>ad_checked = length checked, ad_has_more = nat limit < length rows,
              ad_next = (if checked = [] then after else int (ar_id (last checked))),
              ad_violations = map ar_id (filter (\<lambda>r. \<exists>e. replay env st r = Inl e) checked)\<rparr>))"

section \<open>Reachable ledgers\<close>

inductive reachable_ledger :: "'z ledger_env \<Rightarrow> 'z ledger \<Rightarrow> bool" for env where
  start: "reachable_ledger env empty_ledger"
| eligibility: "reachable_ledger env st \<Longrightarrow> append_reviewed_eligibility env now stored request known_at valid_until st = Inr (r, st')
    \<Longrightarrow> reachable_ledger env st'"
| assessed: "reachable_ledger env st \<Longrightarrow> assess env q st = Inr (x, st') \<Longrightarrow> reachable_ledger env st'"

text \<open>An eligibility row that was appended is found again, whatever is appended later.\<close>

definition well_keyed :: "'z ledger \<Rightarrow> bool" where
  "well_keyed st \<longleftrightarrow> lg_costs st = [] \<and> lg_capacities st = [] \<and> (\<forall>r \<in> set (lg_eligibility st). er_id r \<le> length (lg_eligibility st))"

lemma eligibility_at_append:
  "eligibility_at st key = Inr r \<Longrightarrow> eligibility_at (st\<lparr>lg_eligibility := lg_eligibility st @ rs\<rparr>) key = Inr r"
  by (auto simp: eligibility_at_def find_append split: option.splits)

lemma append_cases:
  assumes "append_reviewed_eligibility env now stored request known_at valid_until st = Inr (r, st')"
  obtains "st' = st" | "st' = st\<lparr>lg_eligibility := lg_eligibility st @ [r]\<rparr>" "er_id r = Suc (length (lg_eligibility st))"
  using assms by (auto simp: append_reviewed_eligibility_def Let_def and_then_Inr split: if_splits option.splits)

lemma empty_entries: "eligibility_envelope env r cutoff instrument = Inr e \<Longrightarrow> e = \<lparr>el_identity = er_digest r, el_entries = []\<rparr>"
  by (auto simp: eligibility_envelope_def eligibility_payload_of_def Let_def and_then_Inr split: if_splits)

lemma run_engine_empty:
  "run_engine env \<lparr>ev_eligibility = \<lparr>el_identity = i, el_entries = []\<rparr>, ev_cost = None, ev_capacity = None, ev_evidence = None\<rparr> False market
     = Inr (build_v11_empty_assessment market, None)"
  using empty_input_assessed [of "le_zone env" i "''open''" market] by (simp add: run_engine_def empty_input_def)

lemma v11_primary: "sm_primary (build_v11_empty_assessment market) = Some NoEconomicallyAdmittedStrategy"
  by (simp add: build_v11_empty_assessment_def build_v1_empty_assessment_def empty_assessment_def)

text \<open>What a stored row is: the frozen empty assessment of its snapshot under a row of the ledger.\<close>

definition stored_row :: "'z ledger_env \<Rightarrow> 'z ledger \<Rightarrow> 'z assessment_row \<Rightarrow> bool" where
  "stored_row env st x \<longleftrightarrow>
     (\<exists>s r. load_snapshot env (ar_snapshot x) = Inr s \<and> eligibility_at st (ar_eligibility x) = Inr r \<and> ar_method x = MethodCurrent
        \<and> eligibility_envelope env r (mp_cutoff (ld_market s)) (ld_instrument s) = Inr \<lparr>el_identity = er_digest r, el_entries = []\<rparr>
        \<and> ar_cutoff x = mp_cutoff (ld_market s) \<and> ar_cost x = None \<and> ar_capacity x = None \<and> ar_packet x = None
        \<and> ar_manifest x = manifest_of MethodCurrent (ar_snapshot x) s (FullReference (reference_of r))
        \<and> ar_digest x = le_manifest_digest env (ar_manifest x) \<and> ar_output x = build_v11_empty_assessment (ld_market s)
        \<and> ar_output_digest x = le_output_digest env (ar_output x) \<and> ar_candidate x = None)"

lemma envelopes_none:
  "envelopes_of env st s \<lparr>el_identity = i, el_entries = []\<rparr> None None None
     = Inr \<lparr>ev_eligibility = \<lparr>el_identity = i, el_entries = []\<rparr>, ev_cost = None, ev_capacity = None, ev_evidence = None\<rparr>"
  by (simp add: envelopes_of_def cost_envelope_def capacity_envelope_def evidence_envelope_def evidence_at_def Let_def)

lemma stored_row_replays:
  assumes "stored_row env st x"
  shows "replay env st x = Inr x"
proof -
  obtain s r where x: "load_snapshot env (ar_snapshot x) = Inr s" "eligibility_at st (ar_eligibility x) = Inr r" "ar_method x = MethodCurrent"
    "eligibility_envelope env r (mp_cutoff (ld_market s)) (ld_instrument s) = Inr \<lparr>el_identity = er_digest r, el_entries = []\<rparr>"
    "ar_cutoff x = mp_cutoff (ld_market s)" "ar_cost x = None" "ar_capacity x = None" "ar_packet x = None"
    "ar_manifest x = manifest_of MethodCurrent (ar_snapshot x) s (FullReference (reference_of r))"
    "ar_digest x = le_manifest_digest env (ar_manifest x)" "ar_output x = build_v11_empty_assessment (ld_market s)"
    "ar_output_digest x = le_output_digest env (ar_output x)" "ar_candidate x = None"
    using assms unfolding stored_row_def by blast
  have "im_evaluations (ar_manifest x) = []" unfolding x(9) by (simp add: manifest_of_def)
  then show ?thesis unfolding replay_def
    by (simp add: x(1-8) envelopes_none Let_def x(10-13) x(9) [symmetric] v11_primary run_engine_empty)
qed

lemma stored_row_append: "stored_row env st x \<Longrightarrow> stored_row env (st\<lparr>lg_eligibility := lg_eligibility st @ rs\<rparr>) x"
  unfolding stored_row_def using eligibility_at_append by blast

lemma stored_row_rows: "stored_row env (st\<lparr>lg_rows := rows\<rparr>) x = stored_row env st x"
  by (simp add: stored_row_def eligibility_at_def)

text \<open>What an assessment does when there are no cost and capacity rows.\<close>

lemma assess_cases:
  assumes "assess env q st = Inr ((row, candidate, created), st')" "well_keyed st"
  obtains (old) "st' = st" "\<not> created" "List.find (\<lambda>x. ar_digest x = ar_digest row) (lg_rows st) = Some row"
      "candidate = ar_candidate row"
  | (fresh) "st' = st\<lparr>lg_rows := lg_rows st @ [row]\<rparr>" "created" "candidate = None" "stored_row env st row"
      "List.find (\<lambda>x. ar_digest x = ar_digest row) (lg_rows st) = None"
proof -
  have none: "evidence_at (lg_costs st) key = None" "evidence_at (lg_capacities st) key = None" for key
    using assms(2) by (simp_all add: well_keyed_def evidence_at_def split: option.split)
  obtain s r e v where run: "load_snapshot env (rq_snapshot q) = Inr s" "eligibility_at st (rq_eligibility q) = Inr r"
    "eligibility_envelope env r (mp_cutoff (ld_market s)) (ld_instrument s) = Inr e"
    "envelopes_of env st s e (rq_cost q) (rq_capacity q) (rq_packet q) = Inr v"
    using assms(1) by (auto simp: assess_def and_then_Inr Let_def split: if_splits)
  have e: "e = \<lparr>el_identity = er_digest r, el_entries = []\<rparr>" by (rule empty_entries [OF run(3)])
  have v: "v = \<lparr>ev_eligibility = e, ev_cost = None, ev_capacity = None, ev_evidence = None\<rparr>"
    using run(4) by (auto simp: envelopes_of_def none cost_envelope_def capacity_envelope_def evidence_envelope_def Let_def and_then_Inr split: if_splits)
  let ?m = "manifest_of MethodCurrent (rq_snapshot q) s (FullReference (reference_of r))"
  have m: "?m\<lparr>im_cost := None, im_capacity := None\<rparr> = ?m" by (simp add: manifest_of_def)
  have key: "er_id r = rq_eligibility q" using run(2) by (auto simp: eligibility_at_def find_Some_iff split: option.splits)
  have step: "(case List.find (\<lambda>x. ar_digest x = le_manifest_digest env ?m) (lg_rows st) of
        Some row \<Rightarrow> and_then (replay env st row) (\<lambda>x. Inr ((row, ar_candidate row, False), st))
      | None \<Rightarrow>
          (let row = \<lparr>ar_id = Suc (length (lg_rows st)), ar_method = MethodCurrent, ar_snapshot = rq_snapshot q,
                 ar_eligibility = rq_eligibility q, ar_cost = None, ar_capacity = None, ar_packet = None, ar_cutoff = mp_cutoff (ld_market s),
                 ar_manifest = ?m, ar_digest = le_manifest_digest env ?m, ar_output = build_v11_empty_assessment (ld_market s),
                 ar_output_digest = le_output_digest env (build_v11_empty_assessment (ld_market s)), ar_candidate = None\<rparr>
           in Inr ((row, None, True), st\<lparr>lg_rows := lg_rows st @ [row]\<rparr>))) = Inr ((row, candidate, created), st')"
    using assms(1) run unfolding assess_def
    by (simp add: none digest_of_row_def m v e run_engine_empty key Let_def cong: option.case_cong split: if_splits)
  show ?thesis
  proof (cases "List.find (\<lambda>x. ar_digest x = le_manifest_digest env ?m) (lg_rows st)")
    case None
    then have row: "row = \<lparr>ar_id = Suc (length (lg_rows st)), ar_method = MethodCurrent, ar_snapshot = rq_snapshot q,
        ar_eligibility = rq_eligibility q, ar_cost = None, ar_capacity = None, ar_packet = None, ar_cutoff = mp_cutoff (ld_market s),
        ar_manifest = ?m, ar_digest = le_manifest_digest env ?m, ar_output = build_v11_empty_assessment (ld_market s),
        ar_output_digest = le_output_digest env (build_v11_empty_assessment (ld_market s)), ar_candidate = None\<rparr>"
      "st' = st\<lparr>lg_rows := lg_rows st @ [row]\<rparr>" "candidate = None" "created"
      using step by (auto simp: Let_def)
    have "stored_row env st row" unfolding stored_row_def using run(1-3) e row(1) by simp
    then show ?thesis using fresh row None by simp
  next
    case (Some x)
    then have x: "ar_digest x = le_manifest_digest env ?m" by (auto simp: find_Some_iff)
    moreover have "row = x \<and> candidate = ar_candidate x \<and> \<not> created \<and> st' = st"
      using step Some by (auto simp: and_then_Inr)
    ultimately show ?thesis using old Some x by simp
  qed
qed

definition sound_ledger :: "'z ledger_env \<Rightarrow> 'z ledger \<Rightarrow> bool" where
  "sound_ledger env st \<longleftrightarrow> well_keyed st \<and> (\<forall>x \<in> set (lg_rows st). stored_row env st x)"

lemma reachable_sound: "reachable_ledger env st \<Longrightarrow> sound_ledger env st"
proof (induction rule: reachable_ledger.induct)
  case start
  then show ?case by (simp add: sound_ledger_def well_keyed_def empty_ledger_def)
next
  case (eligibility st now stored request known_at valid_until r st')
  show ?case
    by (rule append_cases [OF eligibility.hyps(2)])
       (use eligibility.IH in \<open>auto simp: sound_ledger_def well_keyed_def le_Suc_eq stored_row_append\<close>)
next
  case (assessed st q x st')
  obtain row candidate created where x: "x = (row, candidate, created)" by (cases x) auto
  have keyed: "well_keyed st" using assessed.IH by (simp add: sound_ledger_def)
  show ?case
  proof (rule assess_cases [OF assessed.hyps(2) [unfolded x] keyed])
    assume "st' = st\<lparr>lg_rows := lg_rows st @ [row]\<rparr>" "stored_row env st row"
    then show ?thesis using assessed.IH by (auto simp: sound_ledger_def well_keyed_def stored_row_rows)
  qed (use assessed.IH in auto)
qed

text \<open>C20: Every stored assessment replays. In every ledger that appending eligibilities and assessing can reach, each
  row is read again as it was stored: its replay reads the same snapshot and eligibility, computes the same output
  and finds the same digests, and the audit of any page reports no violation.\<close>

theorem stored_assessments_replay:
  assumes "reachable_ledger env st"
  shows "(\<forall>x \<in> set (lg_rows st). replay env st x = Inr x)
    \<and> (0 \<le> after \<longrightarrow> 1 \<le> limit \<longrightarrow> limit \<le> 100 \<longrightarrow> map_option ad_violations (audit_integrity env st after limit) = Some [])"
proof -
  have replays: "replay env st x = Inr x" if "x \<in> set (lg_rows st)" for x
    using reachable_sound [OF assms] that stored_row_replays by (auto simp: sound_ledger_def)
  moreover have "filter (\<lambda>r. \<exists>e. replay env st r = Inl e) (take n (filter P (lg_rows st))) = []" for n P
    using replays by (auto simp: filter_empty_conv dest!: in_set_takeD)
  ultimately show ?thesis by (simp add: audit_integrity_def Let_def)
qed

text \<open>C21: Assessing is idempotent and never has a candidate. In a reachable ledger an assessment that succeeds returns
  a closed assessment without a candidate, and the same request then returns the same row,
  creates nothing and leaves the ledger as it is.\<close>

theorem assessing_is_idempotent:
  assumes "reachable_ledger env st" and "assess env q st = Inr ((row, candidate, created), st')"
  shows "candidate = None \<and> sm_closed (ar_output row) \<and> assess env q st' = Inr ((row, None, False), st')"
proof -
  have sound: "sound_ledger env st" "sound_ledger env st'"
    using reachable_sound assms reachable_ledger.assessed by blast+
  then have keyed: "well_keyed st" "well_keyed st'" by (simp_all add: sound_ledger_def)
  have there: "row \<in> set (lg_rows st')" "candidate = None" "List.find (\<lambda>x. ar_digest x = ar_digest row) (lg_rows st') = Some row"
    "lg_eligibility st' = lg_eligibility st" "lg_costs st' = lg_costs st" "lg_capacities st' = lg_capacities st"
  proof -
    have "row \<in> set (lg_rows st') \<and> candidate = ar_candidate row \<and> List.find (\<lambda>x. ar_digest x = ar_digest row) (lg_rows st') = Some row
      \<and> lg_eligibility st' = lg_eligibility st \<and> lg_costs st' = lg_costs st \<and> lg_capacities st' = lg_capacities st"
    proof (rule assess_cases [OF assms(2) keyed(1)])
      assume "st' = st" "List.find (\<lambda>x. ar_digest x = ar_digest row) (lg_rows st) = Some row" "candidate = ar_candidate row"
      then show ?thesis by (metis find_Some_iff nth_mem)
    next
      assume "st' = st\<lparr>lg_rows := lg_rows st @ [row]\<rparr>" "candidate = None" "stored_row env st row"
        "List.find (\<lambda>x. ar_digest x = ar_digest row) (lg_rows st) = None"
      then show ?thesis by (auto simp: find_append stored_row_def)
    qed
    moreover have "ar_candidate row = None" using calculation sound(2) by (auto simp: sound_ledger_def stored_row_def)
    ultimately show "row \<in> set (lg_rows st')" "candidate = None" "List.find (\<lambda>x. ar_digest x = ar_digest row) (lg_rows st') = Some row"
      "lg_eligibility st' = lg_eligibility st" "lg_costs st' = lg_costs st" "lg_capacities st' = lg_capacities st" by auto
  qed
  have stored: "stored_row env st' row" using sound(2) there(1) by (simp add: sound_ledger_def)
  then have "sm_closed (ar_output row)" "ar_candidate row = None"
    by (auto simp: stored_row_def build_v11_empty_assessment_def build_v1_empty_assessment_def empty_assessment_def)
  moreover have "assess env q st' = Inr ((row, None, False), st')"
  proof -
    have none: "evidence_at (lg_costs st) key = None" "evidence_at (lg_capacities st) key = None" for key
      using keyed(1) by (simp_all add: well_keyed_def evidence_at_def split: option.split)
    have same: "eligibility_at st' key = eligibility_at st key" "envelopes_of env st' = envelopes_of env st" for key
      by (simp_all add: eligibility_at_def envelopes_of_def there fun_eq_iff)
    obtain s r e v where run: "load_snapshot env (rq_snapshot q) = Inr s" "eligibility_at st (rq_eligibility q) = Inr r" "rq_evaluations q = []"
      "eligibility_envelope env r (mp_cutoff (ld_market s)) (ld_instrument s) = Inr e"
      "envelopes_of env st s e (rq_cost q) (rq_capacity q) (rq_packet q) = Inr v"
      using assms(2) by (auto simp: assess_def and_then_Inr Let_def split: if_splits)
    have "ar_digest row = le_manifest_digest env ((manifest_of MethodCurrent (rq_snapshot q) s (FullReference (reference_of r)))
        \<lparr>im_cost := digest_of_row (lg_costs st) (rq_cost q), im_capacity := digest_of_row (lg_capacities st) (rq_capacity q)\<rparr>)"
      using assms(2) run unfolding assess_def
      by (auto simp: Let_def and_then_Inr find_Some_iff split: option.splits if_splits)
    then show ?thesis
      unfolding assess_def using run there(3) stored_row_replays [OF stored] \<open>ar_candidate row = None\<close>
      by (simp add: same there(4-6) Let_def)
  qed
  ultimately show ?thesis using there(2) by simp
qed

section \<open>A sample ledger\<close>

definition ledger_sample_env :: "nat ledger_env" where
  "ledger_sample_env = \<lparr>le_zone = fixed_zone 0, le_load = (\<lambda>key. Some \<lparr>ld_instrument = ''EUR_USD'', ld_identity = ''i'', ld_market = sample_market\<rparr>),
     le_payload_digest = (\<lambda>p. ''p''), le_manifest_digest = (\<lambda>m. ''m''), le_output_digest = (\<lambda>x. ''o''),
     le_empty_decision = ''d'', le_empty_manifest = ''n'', le_empty_provenance = ''q''\<rparr>"

definition sample_eligibility :: eligibility_payload where
  "sample_eligibility = \<lparr>ep_instrument = ''EUR_USD'', ep_era = empty_eligibility_era, ep_decision = ''d'', ep_manifest = ''n'',
     ep_provenance = ''q'', ep_entries = []\<rparr>"

definition sample_request :: assess_request where
  "sample_request = \<lparr>rq_snapshot = 7, rq_eligibility = 1, rq_evaluations = [], rq_cost = None, rq_capacity = None, rq_packet = None\<rparr>"

definition sample_row :: eligibility_row where
  "sample_row = \<lparr>er_id = 1, er_instrument = ''EUR_USD'', er_valid_from = 2, er_valid_until = None, er_known_at = 1,
     er_payload = sample_eligibility, er_digest = ''p'', er_recorded_at = 2\<rparr>"

definition sample_assessed_row :: "nat assessment_row" where
  "sample_assessed_row = \<lparr>ar_id = 1, ar_method = MethodCurrent, ar_snapshot = 7, ar_eligibility = 1, ar_cost = None, ar_capacity = None,
     ar_packet = None, ar_cutoff = mp_cutoff sample_market,
     ar_manifest = manifest_of MethodCurrent 7 \<lparr>ld_instrument = ''EUR_USD'', ld_identity = ''i'', ld_market = sample_market\<rparr>
       (FullReference (reference_of sample_row)), ar_digest = ''m'', ar_output = build_v11_empty_assessment sample_market,
     ar_output_digest = ''o'', ar_candidate = None\<rparr>"

definition sample_ledger :: "nat ledger" where
  "sample_ledger = \<lparr>lg_eligibility = [sample_row], lg_costs = [], lg_capacities = [], lg_rows = []\<rparr>"

lemma sample_appended:
  "append_reviewed_eligibility ledger_sample_env 1 2 sample_eligibility 1 None empty_ledger = Inr (sample_row, sample_ledger)"
  by (simp add: append_reviewed_eligibility_def eligibility_payload_of_def ledger_sample_env_def sample_eligibility_def empty_ledger_def
      sample_row_def sample_ledger_def Let_def)

lemma sample_assess:
  "assess ledger_sample_env sample_request sample_ledger
     = Inr ((sample_assessed_row, None, True), sample_ledger\<lparr>lg_rows := [sample_assessed_row]\<rparr>)"
proof -
  let ?s = "\<lparr>ld_instrument = ''EUR_USD'', ld_identity = ''i'', ld_market = sample_market\<rparr>"
  have loaded: "load_snapshot ledger_sample_env 7 = Inr ?s" by (simp add: load_snapshot_def ledger_sample_env_def)
  have at_row: "eligibility_at sample_ledger (Suc 0) = Inr sample_row" by (simp add: eligibility_at_def sample_ledger_def sample_row_def)
  have envelope: "eligibility_envelope ledger_sample_env sample_row (mp_cutoff sample_market) ''EUR_USD'' = Inr \<lparr>el_identity = ''p'', el_entries = []\<rparr>"
    by (simp add: eligibility_envelope_def eligibility_payload_of_def ledger_sample_env_def sample_eligibility_def sample_row_def
        sample_market_def duration_defs Let_def)
  have m: "(manifest_of MethodCurrent 7 ?s (FullReference (reference_of sample_row)))\<lparr>im_cost := None, im_capacity := None\<rparr>
      = manifest_of MethodCurrent 7 ?s (FullReference (reference_of sample_row))" by (simp add: manifest_of_def)
  have digests: "le_manifest_digest ledger_sample_env x = ''m''" "le_output_digest ledger_sample_env y = ''o''" for x y
    by (simp_all add: ledger_sample_env_def)
  have q: "rq_snapshot sample_request = 7" "rq_eligibility sample_request = Suc 0" "rq_evaluations sample_request = []"
    "rq_cost sample_request = None" "rq_capacity sample_request = None" "rq_packet sample_request = None"
    by (simp_all add: sample_request_def)
  have st: "lg_rows sample_ledger = []" "er_id sample_row = Suc 0" "er_digest sample_row = ''p''"
    by (simp_all add: sample_ledger_def sample_row_def)
  show ?thesis
    unfolding assess_def
    by (simp add: q st loaded at_row envelope envelopes_none run_engine_empty digest_of_row_def evidence_at_def m digests Let_def
        sample_assessed_row_def)
qed

lemma sample_ledger_reachable:
  "reachable_ledger ledger_sample_env sample_ledger" "reachable_ledger ledger_sample_env (sample_ledger\<lparr>lg_rows := [sample_assessed_row]\<rparr>)"
proof -
  show "reachable_ledger ledger_sample_env sample_ledger"
    by (rule reachable_ledger.eligibility [OF reachable_ledger.start sample_appended])
  then show "reachable_ledger ledger_sample_env (sample_ledger\<lparr>lg_rows := [sample_assessed_row]\<rparr>)"
    by (rule reachable_ledger.assessed [OF _ sample_assess])
qed

theorem stored_assessments_replay_witness:
  "replay ledger_sample_env (sample_ledger\<lparr>lg_rows := [sample_assessed_row]\<rparr>) sample_assessed_row = Inr sample_assessed_row"
  using stored_assessments_replay [OF sample_ledger_reachable(2), of 0 1] by simp

theorem assessing_is_idempotent_witness:
  "assess ledger_sample_env sample_request (sample_ledger\<lparr>lg_rows := [sample_assessed_row]\<rparr>)
     = Inr ((sample_assessed_row, None, False), sample_ledger\<lparr>lg_rows := [sample_assessed_row]\<rparr>)"
  using assessing_is_idempotent [OF sample_ledger_reachable(1) sample_assess] by blast

end
