(* ===== verification/Returns.thy ===== *)
theory Returns
  imports Trend "HOL-Library.Char_ord" "HOL-Library.List_Lexorder"
begin

text \<open>
  \<^verbatim>\<open>research/exploratory_returns_v2.py\<close>: the pure calculation of exploratory returns, under its own context of 38
  digits. Events are records of values already read; that the JSON rows have exactly their fields and readable numbers
  and instants is the typing of these records. A refusal is its message. What is printed with \<^verbatim>\<open>rendered\<close> and
  read again by \<^verbatim>\<open>decimal\<close> is the value itself. The digests, the bootstrap over ISO weeks, the monthly report and
  the Sharpe and Sortino ratios are not modelled.

  The lemmas show that a resolution is decided by the first bar that can decide it, with the sign its terminal says,
  that the rollover walk returns, and how the cost grid depends on its two rates.
\<close>

abbreviation rnd38 :: "rat \<Rightarrow> decimal" where
  "rnd38 \<equiv> ctx_round 38"

interpretation ctx38: sign_rounding rnd38
  by unfold_locales (auto simp: ctx_round_minus ctx_round_pos intro: ctx_round_mono)

definition require :: "bool \<Rightarrow> string \<Rightarrow> string + unit" where
  [model_defs]: "require condition message = (if condition then Inr () else Inl message)"

text \<open>\<open>money\<close> and \<open>ratio\<close> use the same quantum; \<open>rendered\<close> rounds to the context.\<close>

definition money :: "decimal \<Rightarrow> decimal" where
  [model_defs]: "money = quantize 10"

definition ratio :: "decimal \<Rightarrow> decimal" where
  [model_defs]: "ratio = quantize 10"

definition rendered :: "decimal \<Rightarrow> decimal" where
  [model_defs]: "rendered x = rnd38 x"

section \<open>Evidence\<close>

record seal =
  sl_sealed :: bool
  sl_complete :: bool
  sl_conflict :: bool

definition intact :: "seal \<Rightarrow> bool" where
  [model_defs]: "intact s \<longleftrightarrow> sl_sealed s \<and> sl_complete s \<and> \<not> sl_conflict s"

record conversion_leg =
  lg_pair :: string
  lg_direction :: string
  lg_completed_at :: instant
  lg_midpoint :: decimal
  lg_seal :: seal

record conversion =
  cn_currency :: string
  cn_as_of :: instant
  cn_legs :: "conversion_leg list"

record side_bar =
  sb_start :: instant
  sb_seal :: seal
  sb_bid_open :: decimal
  sb_bid_high :: decimal
  sb_bid_low :: decimal
  sb_bid_close :: decimal
  sb_ask_open :: decimal
  sb_ask_high :: decimal
  sb_ask_low :: decimal
  sb_ask_close :: decimal

record daily_member =
  dm_completed_at :: instant
  dm_seal :: seal
  dm_mid_close :: decimal

record rollover_row =
  ro_at :: instant
  ro_times :: int
  ro_midpoint :: decimal
  ro_conversion :: conversion

record equity_mark =
  em_at :: instant
  em_side_close :: decimal
  em_conversion :: conversion

record return_event =
  re_key :: string
  re_books :: "string list"
  re_instrument :: string
  re_direction :: string
  re_entry_at :: instant
  re_horizon_at :: instant
  re_entry_bid :: decimal
  re_entry_ask :: decimal
  re_stop :: decimal
  re_target :: decimal
  re_swing :: decimal
  re_pip :: decimal
  re_risk_per_unit :: decimal
  re_starts :: "instant list"
  re_completions :: "instant list"
  re_bars :: "side_bar list"
  re_daily :: "daily_member list"
  re_conversion :: "(instant \<times> conversion) list"
  re_rollovers :: "rollover_row list"
  re_marks :: "equity_mark list"

section \<open>Conversion\<close>

definition cad_route :: "string \<Rightarrow> (string \<times> string) list option" where
  [model_defs]: "cad_route currency =
     (if currency = ''CAD'' then Some []
      else if currency = ''USD'' then Some [(''USD_CAD'', ''multiply'')]
      else if currency = ''GBP'' then Some [(''GBP_USD'', ''multiply''), (''USD_CAD'', ''multiply'')]
      else if currency = ''JPY'' then Some [(''USD_JPY'', ''divide''), (''USD_CAD'', ''multiply'')]
      else None)"

fun split_pair :: "string \<Rightarrow> string list" where
  "split_pair [] = [[]]"
| "split_pair (c # s) =
     (if c = CHR ''_'' then [] # split_pair s
      else (case split_pair s of [] \<Rightarrow> [[c]] | part # parts \<Rightarrow> (c # part) # parts))"

definition pair_quote :: "string \<Rightarrow> string + string" where
  [model_defs]: "pair_quote instrument =
     (case split_pair instrument of
        [base, quote] \<Rightarrow> if base \<noteq> [] \<and> quote \<noteq> [] then Inr quote else Inl ''invalid instrument''
      | _ \<Rightarrow> Inl ''invalid instrument'')"

fun walk_route :: "instant \<Rightarrow> (conversion_leg \<times> string \<times> string) list \<Rightarrow> decimal \<Rightarrow> string + decimal" where
  "walk_route as_of [] rate = Inr rate"
| "walk_route as_of ((leg, pair, direction) # rest) rate =
     and_then (require (lg_pair leg = pair \<and> lg_direction leg = direction) ''conversion route substitution'') (\<lambda>_.
     and_then (require (intact (lg_seal leg)) ''missing or conflicting sealed conversion evidence'') (\<lambda>_.
     and_then (require (lg_completed_at leg < as_of) ''conversion evidence is not strictly prior'') (\<lambda>_.
     and_then (require (0 < lg_midpoint leg) ''non-positive conversion midpoint'') (\<lambda>_.
       walk_route as_of rest
         (if direction = ''multiply'' then rnd38 (rate * lg_midpoint leg) else rnd38 (rate / lg_midpoint leg))))))"

definition conversion_rate :: "conversion \<Rightarrow> string \<Rightarrow> instant \<Rightarrow> string + decimal" where
  [model_defs]: "conversion_rate evidence currency as_of =
     and_then (require (cn_currency evidence = currency) ''conversion currency mismatch'') (\<lambda>_.
     and_then (require (cn_as_of evidence = as_of) ''conversion decision-time mismatch'') (\<lambda>_.
       (case cad_route currency of
          None \<Rightarrow> Inl ''unsupported CAD conversion currency''
        | Some route \<Rightarrow>
            and_then (require (length (cn_legs evidence) = length route) ''conversion route length mismatch'') (\<lambda>_.
              walk_route as_of (zip (cn_legs evidence) route) 1))))"

section \<open>The resolution of an event\<close>

definition validate_bar :: "side_bar \<Rightarrow> string + side_bar" where
  [model_defs]: "validate_bar b =
     and_then (require (intact (sb_seal b)) ''missing or conflicting expected H1 member'') (\<lambda>_.
     and_then (require (sb_bid_low b \<le> sb_bid_open b \<and> sb_bid_open b \<le> sb_bid_high b
         \<and> sb_ask_low b \<le> sb_ask_open b \<and> sb_ask_open b \<le> sb_ask_high b) ''invalid H1 OHLC'') (\<lambda>_.
     and_then (require (sb_bid_open b \<le> sb_ask_open b \<and> sb_bid_close b \<le> sb_ask_close b) ''crossed side-aware H1 price'') (\<lambda>_.
       Inr b)))"

fun structure_scan :: "return_event \<Rightarrow> instant list \<Rightarrow> string + bool" where
  "structure_scan ev [] = Inr False"
| "structure_scan ev (t # ts) =
     (case List.find (\<lambda>d. dm_completed_at d = t) (re_daily ev) of
        None \<Rightarrow> Inl ''missing expected daily member''
      | Some d \<Rightarrow>
          and_then (require (intact (dm_seal d)) ''missing or conflicting expected daily member'') (\<lambda>_.
            if re_entry_at ev < t \<and> ((re_direction ev = ''long'' \<and> dm_mid_close d < re_swing ev)
                \<or> (re_direction ev = ''short'' \<and> re_swing ev < dm_mid_close d))
            then Inr True else structure_scan ev ts))"

definition structure_due :: "return_event \<Rightarrow> instant \<Rightarrow> string + bool" where
  [model_defs]: "structure_due ev boundary =
     and_then (require (distinct (map dm_completed_at (re_daily ev))) ''duplicate daily member'') (\<lambda>_.
       structure_scan ev (filter (\<lambda>t. re_entry_at ev < t \<and> t \<le> boundary) (re_completions ev)))"

definition exit_conversion :: "return_event \<Rightarrow> instant \<Rightarrow> string + decimal" where
  [model_defs]: "exit_conversion ev at_time =
     and_then (pair_quote (re_instrument ev)) (\<lambda>quote.
       (case map_of (re_conversion ev) at_time of
          None \<Rightarrow> Inl ''missing point-in-time CAD conversion evidence''
        | Some evidence \<Rightarrow> conversion_rate evidence quote at_time))"

definition strictly_sorted :: "'a::linorder list \<Rightarrow> bool" where
  [model_defs]: "strictly_sorted xs \<longleftrightarrow> sorted xs \<and> distinct xs"

definition event_input :: "return_event \<Rightarrow> string + side_bar list" where
  [model_defs]: "event_input ev =
     (let starts = re_starts ev; completions = re_completions ev in
      and_then (require (re_key ev \<noteq> []) ''bad key'') (\<lambda>_.
      and_then (require (strictly_sorted (re_books ev) \<and> re_books ev \<noteq> []) ''books must be nonempty unique classifications'') (\<lambda>_.
      and_then (require (re_direction ev \<in> {''long'', ''short''}) ''invalid direction'') (\<lambda>_.
      and_then (require (re_entry_at ev < re_horizon_at ev) ''invalid horizon'') (\<lambda>_.
      and_then (require (strictly_sorted starts \<and> starts \<noteq> [] \<and> hd starts = re_entry_at ev) ''bad H1 inventory'') (\<lambda>_.
      and_then (require (re_horizon_at ev \<in> set starts) ''horizon is not a sealed H1 successor'') (\<lambda>_.
      and_then (require (10 \<le> length completions \<and> strictly_sorted completions \<and> list_all (\<lambda>t. re_entry_at ev < t) completions)
          ''invalid sealed provider-D completion inventory'') (\<lambda>_.
      and_then (require (List.find (\<lambda>t. completions ! 9 \<le> t) starts = Some (re_horizon_at ev)) ''ten-provider-D-session horizon drift'') (\<lambda>_.
      and_then (collect validate_bar (re_bars ev)) (\<lambda>bars.
      and_then (require (map sb_start bars = starts) ''expected H1 member missing, duplicated, or extra'') (\<lambda>_.
        Inr bars)))))))))))"

datatype terminal = TStop | TTarget | TDailyStructure | THorizon

record outcome =
  oc_terminal :: terminal
  oc_exit_at :: instant
  oc_exit_price :: decimal
  oc_ambiguous :: bool

text \<open>The touches of one bar: stop, target and the fill at the stop.\<close>

definition touches :: "return_event \<Rightarrow> side_bar \<Rightarrow> bool \<times> bool \<times> decimal" where
  [model_defs]: "touches ev b =
     (if re_direction ev = ''long''
      then (sb_bid_low b \<le> re_stop ev, re_target ev \<le> sb_bid_high b, min (re_stop ev) (sb_bid_open b))
      else (re_stop ev \<le> sb_ask_high b, sb_ask_low b \<le> re_target ev, max (re_stop ev) (sb_ask_open b)))"

definition time_exit :: "return_event \<Rightarrow> bool \<Rightarrow> side_bar \<Rightarrow> string + terminal option" where
  [model_defs]: "time_exit ev first b =
     (if first then Inr None
      else and_then (structure_due ev (sb_start b)) (\<lambda>due.
        Inr (if due then Some TDailyStructure else if sb_start b = re_horizon_at ev then Some THorizon else None)))"

text \<open>The loop over the bars; \<open>first\<close> tells whether the bar is the entry bar.\<close>

fun resolve_bars :: "return_event \<Rightarrow> bool \<Rightarrow> bool \<Rightarrow> side_bar list \<Rightarrow> string + outcome" where
  "resolve_bars ev first ambiguous [] = Inl ''complete horizon did not resolve''"
| "resolve_bars ev first ambiguous (b # bars) =
     and_then (time_exit ev first b) (\<lambda>exit.
       (case exit of
          Some t \<Rightarrow> Inr \<lparr>oc_terminal = t, oc_exit_at = sb_start b,
              oc_exit_price = (if re_direction ev = ''long'' then sb_bid_open b else sb_ask_open b), oc_ambiguous = ambiguous\<rparr>
        | None \<Rightarrow>
            (case touches ev b of
               (stopped, reached, fill_price) \<Rightarrow>
                 (let both = (ambiguous \<or> stopped \<and> reached) in
                  if stopped then Inr \<lparr>oc_terminal = TStop, oc_exit_at = sb_start b + hours 1, oc_exit_price = fill_price, oc_ambiguous = both\<rparr>
                  else if reached then Inr \<lparr>oc_terminal = TTarget, oc_exit_at = sb_start b + hours 1, oc_exit_price = re_target ev, oc_ambiguous = both\<rparr>
                  else resolve_bars ev False both bars))))"

record resolution =
  rs_terminal :: terminal
  rs_ambiguous :: bool
  rs_entry_price :: decimal
  rs_exit_at :: instant
  rs_exit_price :: decimal
  rs_exit_conversion :: decimal
  rs_gross_cad :: decimal
  rs_gross_r :: decimal
  rs_risk_per_unit :: decimal

definition direction_sign :: "return_event \<Rightarrow> decimal" where
  [model_defs]: "direction_sign ev = (if re_direction ev = ''long'' then 1 else - 1)"

definition entry_price :: "return_event \<Rightarrow> decimal" where
  [model_defs]: "entry_price ev = (if re_direction ev = ''long'' then re_entry_ask ev else re_entry_bid ev)"

definition resolve_event :: "return_event \<Rightarrow> string + resolution" where
  [model_defs]: "resolve_event ev =
     and_then (event_input ev) (\<lambda>bars.
       (let entry = entry_price ev in
        and_then (require (sb_bid_open (hd bars) = re_entry_bid ev \<and> sb_ask_open (hd bars) = re_entry_ask ev) ''entry fill drift'') (\<lambda>_.
        and_then (require (re_direction ev = ''long'' \<and> re_stop ev < entry \<and> entry < re_target ev
            \<or> re_direction ev = ''short'' \<and> re_target ev < entry \<and> entry < re_stop ev) ''invalid frozen stop/target geometry'') (\<lambda>_.
        and_then (require (re_direction ev = ''long'' \<and> re_stop ev < re_entry_bid ev \<or> re_direction ev = ''short'' \<and> re_entry_ask ev < re_stop ev)
            ''entry open is an adverse-stop MISSED_FILL, not an eligible event'') (\<lambda>_.
        and_then (resolve_bars ev True False bars) (\<lambda>out.
        and_then (exit_conversion ev (oc_exit_at out)) (\<lambda>rate.
        and_then (require (0 < re_risk_per_unit ev) ''invalid initial CAD risk'') (\<lambda>_.
          (let signed_quote = rnd38 (rnd38 (oc_exit_price out - entry) * direction_sign ev);
               gross_cad = rnd38 (signed_quote * rate);
               gross_r = rnd38 (gross_cad / re_risk_per_unit ev)
           in Inr \<lparr>rs_terminal = oc_terminal out, rs_ambiguous = oc_ambiguous out, rs_entry_price = rendered entry,
                rs_exit_at = oc_exit_at out, rs_exit_price = rendered (oc_exit_price out), rs_exit_conversion = rendered rate,
                rs_gross_cad = rendered (money gross_cad), rs_gross_r = rendered (ratio gross_r),
                rs_risk_per_unit = rendered (re_risk_per_unit ev)\<rparr>))))))))) "

section \<open>Rollovers and the cost grid\<close>

partial_function (option) rollover_walk :: "zone \<Rightarrow> instant \<Rightarrow> int \<Rightarrow> (instant \<times> int) list option" where
  "rollover_walk z exit_at day =
     (if to_utc z day \<le> exit_at
      then Option.bind (rollover_walk z exit_at (day + days 1)) (\<lambda>rest.
             Some (if weekday day \<in> {0, 1, 2, 3, 4} then (to_utc z day, if weekday day = 2 then 3 else 1) # rest else rest))
      else Some [])"

definition rollover_times :: "zone \<Rightarrow> instant \<Rightarrow> instant \<Rightarrow> (instant \<times> int) list option" where
  [model_defs]: "rollover_times z entry_at exit_at =
     (let wall = to_local z entry_at; day = wall - time_of_day wall + hours 17
      in rollover_walk z exit_at (if to_utc z day \<le> entry_at then day + days 1 else day))"

fun select_rollovers :: "instant \<Rightarrow> (rollover_row \<times> instant \<times> int) list \<Rightarrow> string + rollover_row list" where
  "select_rollovers exit_at [] = Inr []"
| "select_rollovers exit_at ((row, due, factor) # rest) =
     and_then (require (ro_at row = due \<and> ro_times row = factor) ''rollover timestamp or multiplier changed'') (\<lambda>_.
     and_then (select_rollovers exit_at rest) (\<lambda>selected. Inr (if ro_at row \<le> exit_at then row # selected else selected)))"

text \<open>\<open>None\<close> when the walk over the rollover times does not return.\<close>

definition governed_rollovers :: "zone \<Rightarrow> return_event \<Rightarrow> instant \<Rightarrow> (string + rollover_row list) option" where
  [model_defs]: "governed_rollovers z ev exit_at =
     (if \<not> (re_entry_at ev < exit_at \<and> exit_at \<le> re_horizon_at ev) then Some (Inl ''rollover exit outside governed horizon'')
      else
        (case rollover_times z (re_entry_at ev) (re_horizon_at ev) of
           None \<Rightarrow> None
         | Some expected \<Rightarrow>
             Some (and_then (require (length (re_rollovers ev) = length expected) ''missing or extra governed rollover'') (\<lambda>_.
               select_rollovers exit_at (zip (re_rollovers ev) expected)))))"

fun rollover_sum :: "string \<Rightarrow> decimal \<Rightarrow> decimal \<Rightarrow> rollover_row list \<Rightarrow> decimal \<Rightarrow> string + decimal" where
  "rollover_sum quote units annual [] acc = Inr acc"
| "rollover_sum quote units annual (row # rows) acc =
     and_then (conversion_rate (ro_conversion row) quote (ro_at row)) (\<lambda>rate.
       rollover_sum quote units annual rows
         (rnd38 (acc + rnd38 (rnd38 (rnd38 (rnd38 (rnd38 (\<bar>units\<bar> * ro_midpoint row) * annual) * of_int (ro_times row)) / 365) * rate))))"

definition rollover_effect ::
  "zone \<Rightarrow> return_event \<Rightarrow> resolution \<Rightarrow> decimal \<Rightarrow> decimal \<Rightarrow> decimal \<Rightarrow> (string + decimal) option" where
  [model_defs]: "rollover_effect z ev r units annual risk =
     (case pair_quote (re_instrument ev) of
        Inl e \<Rightarrow> Some (Inl e)
      | Inr quote \<Rightarrow>
          (case governed_rollovers z ev (rs_exit_at r) of
             None \<Rightarrow> None
           | Some result \<Rightarrow>
               Some (and_then result (\<lambda>rows. and_then (rollover_sum quote units annual rows 0) (\<lambda>effect. Inr (rnd38 (effect / risk)))))))"

definition commissions :: "decimal list" where
  [model_defs]: "commissions = [0, 1 / 2, 1]"

definition financing_rates :: "decimal list" where
  [model_defs]: "financing_rates = [- 6 / 100, - 3 / 100, 0, 3 / 100, 6 / 100]"

record cost_cell =
  ce_commission_pips :: decimal
  ce_financing_rate :: decimal
  ce_commission_r :: decimal
  ce_financing_r :: decimal
  ce_gross_r :: decimal
  ce_net_r :: decimal
  ce_gross_cad :: decimal
  ce_net_cad :: decimal

definition cost_cell_of :: "decimal \<Rightarrow> decimal \<Rightarrow> decimal \<Rightarrow> decimal \<Rightarrow> decimal \<Rightarrow> decimal \<Rightarrow> cost_cell" where
  [model_defs]: "cost_cell_of base gross risk commission financing financing_r =
     (let commission_r = rnd38 (base * commission); net = rnd38 (rnd38 (gross - commission_r) + financing_r)
      in \<lparr>ce_commission_pips = rendered commission, ce_financing_rate = rendered financing, ce_commission_r = rendered (ratio (- commission_r)),
          ce_financing_r = rendered (ratio financing_r), ce_gross_r = rendered (ratio gross), ce_net_r = rendered (ratio net),
          ce_gross_cad = rendered (money (rnd38 (gross * risk))), ce_net_cad = rendered (money (rnd38 (net * risk)))\<rparr>)"

fun collect_option :: "('a \<Rightarrow> ('e + 'b) option) \<Rightarrow> 'a list \<Rightarrow> ('e + 'b list) option" where
  "collect_option f [] = Some (Inr [])"
| "collect_option f (x # xs) =
     (case f x of
        None \<Rightarrow> None
      | Some (Inl e) \<Rightarrow> Some (Inl e)
      | Some (Inr y) \<Rightarrow> map_option (\<lambda>r. and_then r (\<lambda>ys. Inr (y # ys))) (collect_option f xs))"

definition commission_base :: "return_event \<Rightarrow> resolution \<Rightarrow> decimal \<Rightarrow> decimal" where
  [model_defs]: "commission_base ev r risk =
     (let units = rnd38 (risk / re_risk_per_unit ev)
      in rnd38 (rnd38 (rnd38 (\<bar>units\<bar> * re_pip ev) * rs_exit_conversion r) / risk))"

definition cost_grid :: "zone \<Rightarrow> return_event \<Rightarrow> resolution \<Rightarrow> decimal \<Rightarrow> (string + cost_cell list) option" where
  [model_defs]: "cost_grid z ev r risk =
     (let units = rnd38 (risk / re_risk_per_unit ev); base = commission_base ev r risk in
      collect_option (\<lambda>(commission, financing).
          map_option (\<lambda>x. and_then x (\<lambda>f. Inr (cost_cell_of base (rs_gross_r r) risk commission financing f)))
            (rollover_effect z ev r units financing risk))
        [(c, f). c \<leftarrow> commissions, f \<leftarrow> financing_rates])"

section \<open>Summaries\<close>

definition mean_of :: "decimal list \<Rightarrow> decimal option" where
  [model_defs]: "mean_of values = (if values = [] then None else Some (rnd38 (py_sum rnd38 values / of_nat (length values))))"

fun streaks_from :: "nat \<Rightarrow> nat \<Rightarrow> nat \<Rightarrow> nat \<Rightarrow> decimal list \<Rightarrow> nat \<times> nat" where
  "streaks_from longest_win longest_loss win loss [] = (longest_win, longest_loss)"
| "streaks_from longest_win longest_loss win loss (v # vs) =
     (let w = (if 0 < v then win + 1 else 0); l = (if v < 0 then loss + 1 else 0)
      in streaks_from (max longest_win w) (max longest_loss l) w l vs)"

definition streaks :: "decimal list \<Rightarrow> nat \<times> nat" where
  [model_defs]: "streaks values = streaks_from 0 0 0 0 values"

definition median_of :: "decimal list \<Rightarrow> decimal" where
  [model_defs]: "median_of values =
     (let ordered = sort values; n = length values
      in if odd n then ordered ! (n div 2) else rnd38 (rnd38 (ordered ! (n div 2 - 1) + ordered ! (n div 2)) / 2))"

record summary =
  su_average :: "decimal option"
  su_loss_rate :: "decimal option"
  su_losing_streak :: nat
  su_winning_streak :: nat
  su_median :: "decimal option"
  su_payoff :: "decimal option"
  su_profit_factor :: "decimal option"
  su_total :: decimal
  su_win_rate :: "decimal option"

definition summary_metrics :: "decimal list \<Rightarrow> summary" where
  [model_defs]: "summary_metrics values =
     (let wins = filter (\<lambda>v. 0 < v) values; losses = filter (\<lambda>v. v < 0) values; n = of_nat (length values);
          rate = (\<lambda>xs. if values = [] then None else Some (rendered (ratio (rnd38 (of_nat (length xs) / n)))))
      in \<lparr>su_average = map_option (\<lambda>m. rendered (ratio m)) (mean_of values), su_loss_rate = rate losses,
          su_losing_streak = snd (streaks values), su_winning_streak = fst (streaks values),
          su_median = (if values = [] then None else Some (rendered (ratio (median_of values)))),
          su_payoff = (case (mean_of wins, mean_of losses) of
             (Some w, Some l) \<Rightarrow> Some (rendered (ratio (rnd38 (w / \<bar>l\<bar>)))) | _ \<Rightarrow> None),
          su_profit_factor = (if losses = [] then None
             else Some (rendered (ratio (rnd38 (py_sum rnd38 wins / \<bar>py_sum rnd38 losses\<bar>))))),
          su_total = rendered (ratio (py_sum rnd38 values)), su_win_rate = rate wins\<rparr>)"

definition percentile :: "decimal list \<Rightarrow> decimal \<Rightarrow> string + decimal" where
  [model_defs]: "percentile values q =
     (if values = [] then Inl ''empty percentile''
      else
        (let ordered = sort values; h = rnd38 (of_nat (length ordered - 1) * q); lower = nat \<lfloor>h\<rfloor>; upper = nat \<lceil>h\<rceil>
         in Inr (rnd38 (ordered ! lower + rnd38 (rnd38 (h - of_nat lower) * rnd38 (ordered ! upper - ordered ! lower))))))"

text \<open>The equity over the daily marks: settled events count their result, open ones their mark.\<close>

definition event_mark_r :: "return_event \<Rightarrow> resolution \<Rightarrow> instant \<Rightarrow> string + decimal" where
  [model_defs]: "event_mark_r ev r at_time =
     and_then (require (distinct (map em_at (re_marks ev))) ''duplicate equity mark'') (\<lambda>_.
       (case List.find (\<lambda>m. em_at m = at_time) (re_marks ev) of
          None \<Rightarrow> Inl ''missing governed daily equity mark''
        | Some m \<Rightarrow>
            and_then (pair_quote (re_instrument ev)) (\<lambda>quote.
            and_then (conversion_rate (em_conversion m) quote at_time) (\<lambda>rate.
              Inr (rnd38 (rnd38 (rnd38 (direction_sign ev * rnd38 (em_side_close m - rs_entry_price r)) * rate) / re_risk_per_unit ev))))))"

fun equity_pnl :: "decimal \<Rightarrow> instant \<Rightarrow> (return_event \<times> resolution \<times> decimal) list \<Rightarrow> decimal \<Rightarrow> string + decimal" where
  "equity_pnl risk at_time [] pnl = Inr pnl"
| "equity_pnl risk at_time ((ev, r, result) # rest) pnl =
     (if at_time < re_entry_at ev then equity_pnl risk at_time rest pnl
      else if rs_exit_at r \<le> at_time then equity_pnl risk at_time rest (rnd38 (pnl + rnd38 (result * risk)))
      else and_then (event_mark_r ev r at_time) (\<lambda>m. equity_pnl risk at_time rest (rnd38 (pnl + rnd38 (m * risk)))))"

definition equity_at :: "decimal \<Rightarrow> (return_event \<times> resolution \<times> decimal) list \<Rightarrow> instant \<Rightarrow> string + decimal" where
  [model_defs]: "equity_at risk rows at_time =
     and_then (equity_pnl risk at_time rows 0) (\<lambda>pnl. Inr (rendered (money (rnd38 (10000 + pnl)))))"

definition daily_equity_series :: "decimal \<Rightarrow> (return_event \<times> resolution \<times> decimal) list \<Rightarrow> instant list \<Rightarrow> string + decimal list" where
  [model_defs]: "daily_equity_series risk rows marks = collect (equity_at risk rows) marks"

text \<open>The daily returns and the maximum drawdown of an equity series.\<close>

fun drawdown_scan :: "decimal \<Rightarrow> decimal \<Rightarrow> decimal \<Rightarrow> decimal list \<Rightarrow> string + decimal \<times> decimal list" where
  "drawdown_scan peak drawdown previous [] = Inr (drawdown, [])"
| "drawdown_scan peak drawdown previous (e # es) =
     (let top = max peak e; deeper = max drawdown (rnd38 (1 - rnd38 (e / top))) in
      and_then (require (0 < previous) ''daily return undefined after non-positive equity'') (\<lambda>_.
      and_then (drawdown_scan top deeper e es) (\<lambda>(d, returns). Inr (d, rnd38 (rnd38 (e / previous) - 1) # returns))))"

section \<open>The first bar that decides\<close>

abbreviation stop_touched :: "return_event \<Rightarrow> side_bar \<Rightarrow> bool" where
  "stop_touched ev b \<equiv> fst (touches ev b)"

abbreviation target_touched :: "return_event \<Rightarrow> side_bar \<Rightarrow> bool" where
  "target_touched ev b \<equiv> fst (snd (touches ev b))"

text \<open>How a bar decides: by time before anything else, then by the stop, then by the target.\<close>

definition decides :: "return_event \<Rightarrow> bool \<Rightarrow> side_bar \<Rightarrow> terminal \<Rightarrow> instant \<Rightarrow> decimal \<Rightarrow> bool" where
  "decides ev first b t exit_at price \<longleftrightarrow>
     (case t of
        TStop \<Rightarrow> time_exit ev first b = Inr None \<and> stop_touched ev b \<and> exit_at = sb_start b + hours 1 \<and> price = snd (snd (touches ev b))
      | TTarget \<Rightarrow> time_exit ev first b = Inr None \<and> \<not> stop_touched ev b \<and> target_touched ev b \<and> exit_at = sb_start b + hours 1
          \<and> price = re_target ev
      | _ \<Rightarrow> time_exit ev first b = Inr (Some t) \<and> exit_at = sb_start b
          \<and> price = (if re_direction ev = ''long'' then sb_bid_open b else sb_ask_open b))"

lemma time_exit_kind: "time_exit ev first b = Inr (Some t) \<Longrightarrow> t \<in> {TDailyStructure, THorizon} \<and> \<not> first"
  by (auto simp: time_exit_def and_then_Inr split: if_splits)

lemma resolve_bars_first:
  "resolve_bars ev first ambiguous bars = Inr out \<Longrightarrow>
   \<exists>earlier b later. bars = earlier @ b # later
     \<and> (\<forall>a \<in> set earlier. \<not> stop_touched ev a \<and> \<not> target_touched ev a)
     \<and> (\<forall>a \<in> set (if first then tl earlier else earlier). time_exit ev False a = Inr None)
     \<and> decides ev (first \<and> earlier = []) b (oc_terminal out) (oc_exit_at out) (oc_exit_price out)"
proof (induction bars arbitrary: first ambiguous)
  case (Cons b bars)
  obtain exit where e: "time_exit ev first b = Inr exit" using Cons.prems by (auto simp: and_then_Inr)
  show ?case
  proof (cases exit)
    case (Some t)
    then have "decides ev first b (oc_terminal out) (oc_exit_at out) (oc_exit_price out)"
      using Cons.prems e time_exit_kind [of ev first b t] by (auto simp: decides_def)
    then show ?thesis by (intro exI [of _ "[]"] exI [of _ b] exI [of _ bars]) simp
  next
    case None
    obtain stopped reached price where t: "touches ev b = (stopped, reached, price)" by (cases "touches ev b") auto
    show ?thesis
    proof (cases "stopped \<or> reached")
      case True
      then have "decides ev first b (oc_terminal out) (oc_exit_at out) (oc_exit_price out)"
        using Cons.prems e None t by (auto simp: decides_def Let_def split: if_splits)
      then show ?thesis by (intro exI [of _ "[]"] exI [of _ b] exI [of _ bars]) simp
    next
      case False
      then have "resolve_bars ev False (ambiguous \<or> stopped \<and> reached) bars = Inr out" using Cons.prems e None t by (simp add: Let_def)
      from Cons.IH [OF this] obtain earlier x later where x: "bars = earlier @ x # later"
        "\<forall>a \<in> set earlier. \<not> stop_touched ev a \<and> \<not> target_touched ev a"
        "\<forall>a \<in> set earlier. time_exit ev False a = Inr None" "decides ev False x (oc_terminal out) (oc_exit_at out) (oc_exit_price out)"
        unfolding simp_thms if_False by blast
      have "\<not> stop_touched ev b \<and> \<not> target_touched ev b" using t False by simp
      moreover have "first \<or> time_exit ev False b = Inr None" using e None by (cases first) simp_all
      ultimately show ?thesis using x(2-4) unfolding x(1)
        by - (rule exI [of _ "b # earlier"], rule exI [of _ x], rule exI [of _ later], auto)
    qed
  qed
qed simp

lemma resolve_event_outcome:
  assumes "resolve_event ev = Inr r"
  obtains bars out rate where "event_input ev = Inr bars" "resolve_bars ev True False bars = Inr out" "exit_conversion ev (oc_exit_at out) = Inr rate"
    "rs_terminal r = oc_terminal out" "rs_exit_at r = oc_exit_at out" "rs_exit_price r = rendered (oc_exit_price out)"
    "rs_exit_conversion r = rendered rate" "0 < re_risk_per_unit ev"
    "rs_gross_r r = rendered (ratio (rnd38 (rnd38 (rnd38 (rnd38 (oc_exit_price out - entry_price ev) * direction_sign ev) * rate) / re_risk_per_unit ev)))"
    "re_direction ev = ''long'' \<and> re_stop ev < entry_price ev \<and> entry_price ev < re_target ev
       \<or> re_direction ev = ''short'' \<and> re_target ev < entry_price ev \<and> entry_price ev < re_stop ev"
  using assms by (auto simp: resolve_event_def and_then_Inr require_def Let_def split: if_splits)

text \<open>C22: The first bar that can decide an event decides it. When an event resolves, its validated bars split at one
  of them: no earlier bar touched the stop or the target nor, after the entry bar, was due by structure or horizon;
  and the bar itself gives the terminal, by time before price and by the stop before the target, with the exit time
  and the exit price that go with it.\<close>

theorem first_bar_decides:
  assumes "resolve_event ev = Inr r"
  shows "\<exists>earlier b later price. event_input ev = Inr (earlier @ b # later)
    \<and> (\<forall>a \<in> set earlier. \<not> stop_touched ev a \<and> \<not> target_touched ev a)
    \<and> (\<forall>a \<in> set (tl earlier). time_exit ev False a = Inr None)
    \<and> decides ev (earlier = []) b (rs_terminal r) (rs_exit_at r) price \<and> rs_exit_price r = rendered price"
proof -
  obtain bars out where o: "event_input ev = Inr bars" "resolve_bars ev True False bars = Inr out"
    "rs_terminal r = oc_terminal out" "rs_exit_at r = oc_exit_at out" "rs_exit_price r = rendered (oc_exit_price out)"
    by (rule resolve_event_outcome [OF assms])
  then show ?thesis using resolve_bars_first [OF o(2)] by auto
qed

section \<open>Signs\<close>

lemma walk_route_positive: "walk_route as_of legs rate = Inr x \<Longrightarrow> 0 < rate \<Longrightarrow> 0 < x"
proof (induction as_of legs rate rule: walk_route.induct)
  case (2 as_of leg pair direction rest rate)
  then show ?case by (auto simp: and_then_Inr require_def split: if_splits)
qed simp

lemma conversion_rate_positive: "conversion_rate evidence currency as_of = Inr x \<Longrightarrow> 0 < x"
  by (auto simp: conversion_rate_def and_then_Inr require_def split: if_splits option.splits intro: walk_route_positive)

lemma exit_conversion_positive: "exit_conversion ev t = Inr x \<Longrightarrow> 0 < x"
  by (auto simp: exit_conversion_def and_then_Inr split: option.splits intro: conversion_rate_positive)

lemma quantize_sign: "0 \<le> x \<Longrightarrow> 0 \<le> quantize n x" "x \<le> 0 \<Longrightarrow> quantize n x \<le> 0"
  using quantum.rnd_nonneg [of x n] quantum.rnd_nonpos [of x n] by simp_all

text \<open>A stop never gains and a target never loses. A resolution that ended at its stop has a result of at most
  zero and an exit price no better than the stop; one that ended at its target has a result of at least zero and
  exits at the target exactly, even when the bar went beyond.\<close>

lemma barriers_keep_their_sign:
  assumes "resolve_event ev = Inr r"
  shows "(rs_terminal r = TStop \<longrightarrow> rs_gross_r r \<le> 0 \<and> direction_sign ev * rs_exit_price r \<le> rendered (direction_sign ev * re_stop ev))
    \<and> (rs_terminal r = TTarget \<longrightarrow> 0 \<le> rs_gross_r r \<and> rs_exit_price r = rendered (re_target ev))"
proof -
  obtain bars out rate where o: "resolve_bars ev True False bars = Inr out" "exit_conversion ev (oc_exit_at out) = Inr rate"
    "rs_terminal r = oc_terminal out" "rs_exit_price r = rendered (oc_exit_price out)" "0 < re_risk_per_unit ev"
    "rs_gross_r r = rendered (ratio (rnd38 (rnd38 (rnd38 (rnd38 (oc_exit_price out - entry_price ev) * direction_sign ev) * rate) / re_risk_per_unit ev)))"
    "re_direction ev = ''long'' \<and> re_stop ev < entry_price ev \<and> entry_price ev < re_target ev
       \<or> re_direction ev = ''short'' \<and> re_target ev < entry_price ev \<and> entry_price ev < re_stop ev"
    by (rule resolve_event_outcome [OF assms])
  have rate: "0 < rate" by (rule exit_conversion_positive [OF o(2)])
  obtain b earlier where d: "decides ev (earlier = ([] :: side_bar list)) b (oc_terminal out) (oc_exit_at out) (oc_exit_price out)"
    using resolve_bars_first [OF o(1)] by auto
  have loses: "rs_gross_r r \<le> 0" if "direction_sign ev * (oc_exit_price out - entry_price ev) \<le> 0"
    using that rate o(5) unfolding o(6) rendered_def ratio_def
    by (simp add: quantize_sign mult_le_0_iff zero_le_mult_iff divide_le_0_iff mult.commute [of _ "direction_sign ev"] direction_sign_def split: if_splits)
  have gains: "0 \<le> rs_gross_r r" if "0 \<le> direction_sign ev * (oc_exit_price out - entry_price ev)"
    using that rate o(5) unfolding o(6) rendered_def ratio_def
    by (simp add: quantize_sign zero_le_mult_iff zero_le_divide_iff mult.commute [of _ "direction_sign ev"] direction_sign_def split: if_splits)
  have "rs_gross_r r \<le> 0 \<and> direction_sign ev * rs_exit_price r \<le> rendered (direction_sign ev * re_stop ev)" if "rs_terminal r = TStop"
  proof
    have price: "direction_sign ev * oc_exit_price out \<le> direction_sign ev * re_stop ev"
      using d that o(3) by (auto simp: decides_def touches_def direction_sign_def)
    then show "rs_gross_r r \<le> 0" using o(7) by (intro loses) (auto simp: direction_sign_def)
    have "direction_sign ev * rnd38 (oc_exit_price out) = rnd38 (direction_sign ev * oc_exit_price out)"
      by (simp add: direction_sign_def ctx_round_minus)
    then show "direction_sign ev * rs_exit_price r \<le> rendered (direction_sign ev * re_stop ev)"
      using price unfolding o(4) rendered_def by (simp add: ctx38.rnd_mono)
  qed
  moreover have "0 \<le> rs_gross_r r \<and> rs_exit_price r = rendered (re_target ev)" if "rs_terminal r = TTarget"
  proof
    have price: "oc_exit_price out = re_target ev" using d that o(3) by (simp add: decides_def)
    then show "rs_exit_price r = rendered (re_target ev)" using o(4) by simp
    show "0 \<le> rs_gross_r r" using o(7) price by (intro gains) (auto simp: direction_sign_def)
  qed
  ultimately show ?thesis by blast
qed

section \<open>The cost grid\<close>

lemma rollover_walk_returns:
  assumes "faithful_zone z" "bounded_offset z"
  shows "time_of_day day = hours 17 \<Longrightarrow> \<exists>rows. rollover_walk z exit_at day = Some rows"
proof (induction "nat (exit_at + days 1 - day)" arbitrary: day rule: less_induct)
  case less
  show ?case
  proof (cases "to_utc z day \<le> exit_at")
    case True
    have "to_local z (to_utc z day) = day" using assms(1) less.prems by (simp add: faithful_zone_def session_wall_time_def)
    then have "\<bar>day - to_utc z day\<bar> < days 1" using assms(2) unfolding bounded_offset_def by metis
    then have "nat (exit_at + days 1 - (day + days 1)) < nat (exit_at + days 1 - day)" using True by (simp add: duration_defs)
    moreover have "time_of_day (day + days 1) = hours 17" using less.prems by (simp add: time_of_day_def)
    ultimately obtain rows where "rollover_walk z exit_at (day + days 1) = Some rows" using less.hyps by blast
    then show ?thesis using True by (subst rollover_walk.simps) simp
  next
    case False
    then show ?thesis by (subst rollover_walk.simps) simp
  qed
qed

lemma rollover_times_return: "faithful_zone z \<Longrightarrow> bounded_offset z \<Longrightarrow> \<exists>rows. rollover_times z a b = Some rows"
proof -
  assume z: "faithful_zone z" "bounded_offset z"
  have close: "time_of_day (w - time_of_day w + hours 17) = hours 17" for w
  proof -
    have "w - time_of_day w + hours 17 = days 1 * (w div days 1) + hours 17"
      by (simp add: time_of_day_def minus_mod_eq_mult_div)
    moreover have "(days 1 * (w div days 1) + hours 17) mod days 1 = hours 17 mod days 1" by (rule mod_mult_self4)
    moreover have "hours 17 mod days 1 = hours 17" by (simp add: duration_defs)
    ultimately show ?thesis by (simp only: time_of_day_def)
  qed
  then have "time_of_day (w - time_of_day w + hours 17 + days 1) = hours 17" for w by (simp add: time_of_day_def)
  then show ?thesis using rollover_walk_returns [OF z] close by (simp add: rollover_times_def Let_def)
qed

lemma collect_option_returns: "(\<And>x. x \<in> set xs \<Longrightarrow> \<exists>y. f x = Some y) \<Longrightarrow> \<exists>ys. collect_option f xs = Some ys"
proof (induction xs)
  case (Cons x xs)
  obtain y where "f x = Some y" using Cons.prems by auto
  moreover obtain ys where "collect_option f xs = Some ys" using Cons by auto
  ultimately show ?case by (cases y) auto
qed simp

lemma collect_option_Inr:
  "collect_option f xs = Some (Inr ys) \<Longrightarrow> length ys = length xs \<and> (\<forall>i < length xs. f (xs ! i) = Some (Inr (ys ! i)))"
proof (induction xs arbitrary: ys)
  case (Cons x xs)
  then obtain y r where y: "f x = Some (Inr y)" "collect_option f xs = Some r" "and_then r (\<lambda>ys. Inr (y # ys)) = Inr ys"
    by (auto split: option.splits sum.splits)
  then obtain zs where "r = Inr zs" "ys = y # zs" by (auto simp: and_then_Inr)
  then show ?case using Cons.IH [of zs] y by (auto simp: less_Suc_eq_0_disj)
qed simp

lemma collect_option_map: "(\<And>x. x \<in> set xs \<Longrightarrow> f x = Some (Inr (g x))) \<Longrightarrow> collect_option f xs = Some (Inr (map g xs))"
  by (induction xs) auto

text \<open>The cost grid always returns. On a zone with bounded offsets that is faithful at the close of the session
  the walk over the rollovers ends, so the grid of an event is a list of cells or a refusal.\<close>

lemma cost_grid_returns:
  assumes "faithful_zone z" "bounded_offset z"
  shows "\<exists>result. cost_grid z ev r risk = Some result"
proof -
  have "\<exists>y. rollover_effect z ev r units annual risk = Some y" for units annual
  proof (cases "pair_quote (re_instrument ev)")
    case (Inr quote)
    obtain rows where "rollover_times z (re_entry_at ev) (re_horizon_at ev) = Some rows"
      using rollover_times_return [OF assms] by blast
    then show ?thesis using Inr by (auto simp: rollover_effect_def governed_rollovers_def split: option.splits)
  qed (simp add: rollover_effect_def)
  note effect = this
  show ?thesis unfolding cost_grid_def Let_def
  proof (rule collect_option_returns)
    fix x :: "decimal \<times> decimal"
    obtain y where "rollover_effect z ev r (rnd38 (risk / re_risk_per_unit ev)) (snd x) risk = Some y" using effect by blast
    then show "\<exists>y. (case x of (commission, financing) \<Rightarrow>
        map_option (\<lambda>x. and_then x (\<lambda>f. Inr (cost_cell_of (commission_base ev r risk) (rs_gross_r r) risk commission financing f)))
          (rollover_effect z ev r (rnd38 (risk / re_risk_per_unit ev)) financing risk)) = Some y"
      by (cases x) simp
  qed
qed

lemma rollover_sum_zero: "rollover_sum quote units 0 rows 0 = Inr x \<Longrightarrow> x = 0"
  by (induction rows) (auto simp: and_then_Inr)

lemma grid_nth:
  fixes i j :: nat
  assumes "i < 3" "j < 5"
  shows "[(c, f). c \<leftarrow> commissions, f \<leftarrow> financing_rates] ! (5 * i + j) = (commissions ! i, financing_rates ! j)"
proof -
  have "i \<in> {0, 1, 2}" "j \<in> {0, 1, 2, 3, 4}" using assms by auto
  then show ?thesis by (auto simp: commissions_def financing_rates_def)
qed

lemma rnd38_idem [simp]: "rnd38 (rnd38 x) = rnd38 x"
  by (simp add: ctx_round_idem)

lemma grid_cell:
  assumes "cost_grid z ev r risk = Some (Inr cells)" "i < 3" "j < 5"
  obtains f where "rollover_effect z ev r (rnd38 (risk / re_risk_per_unit ev)) (financing_rates ! j) risk = Some (Inr f)"
    "cells ! (5 * i + j) = cost_cell_of (commission_base ev r risk) (rs_gross_r r) risk (commissions ! i) (financing_rates ! j) f"
proof -
  let ?grid = "[(c, f). c \<leftarrow> commissions, f \<leftarrow> financing_rates]"
  have "length ?grid = 15" by (simp add: commissions_def financing_rates_def)
  then have "5 * i + j < length ?grid" using assms(2,3) by linarith
  then have "(case ?grid ! (5 * i + j) of (commission, financing) \<Rightarrow>
      map_option (\<lambda>x. and_then x (\<lambda>f. Inr (cost_cell_of (commission_base ev r risk) (rs_gross_r r) risk commission financing f)))
        (rollover_effect z ev r (rnd38 (risk / re_risk_per_unit ev)) financing risk)) = Some (Inr (cells ! (5 * i + j)))"
    using collect_option_Inr [OF assms(1) [unfolded cost_grid_def Let_def]] by blast
  then show ?thesis unfolding grid_nth [OF assms(2,3)] using that by (auto simp: and_then_Inr)
qed

text \<open>C23: What the cost grid says of its rates. It has the fifteen cells; the cell without commission and
  without financing gives the gross result back; and for one financing rate a higher commission never gives a
  better net result.\<close>

theorem cost_grid_is_ordered:
  assumes "resolve_event ev = Inr r" "0 \<le> re_pip ev" "0 < risk" "cost_grid z ev r risk = Some (Inr cells)"
  shows "length cells = 15 \<and> ce_net_r (cells ! 2) = ce_gross_r (cells ! 2)
    \<and> (\<forall>i i' j. i \<le> i' \<and> i' < 3 \<and> j < 5 \<longrightarrow> ce_net_r (cells ! (5 * i' + j)) \<le> ce_net_r (cells ! (5 * i + j)))"
proof (intro conjI allI impI)
  obtain rate gross out where r: "0 < re_risk_per_unit ev" "rs_exit_conversion r = rendered rate" "exit_conversion ev out = Inr rate"
    "rs_gross_r r = rendered (ratio gross)"
    by (rule resolve_event_outcome [OF assms(1)])
  have "length cells = length [(c, f). c \<leftarrow> commissions, f \<leftarrow> financing_rates]"
    using collect_option_Inr [OF assms(4) [unfolded cost_grid_def Let_def]] by blast
  then show "length cells = 15" by (simp add: commissions_def financing_rates_def)
  have zero: "(0::nat) < 3" "(2::nat) < 5" by simp_all
  show "ce_net_r (cells ! 2) = ce_gross_r (cells ! 2)"
  proof (rule grid_cell [OF assms(4) zero])
    fix f
    assume f: "rollover_effect z ev r (rnd38 (risk / re_risk_per_unit ev)) (financing_rates ! 2) risk = Some (Inr f)"
      "cells ! (5 * 0 + 2) = cost_cell_of (commission_base ev r risk) (rs_gross_r r) risk (commissions ! 0) (financing_rates ! 2) f"
    have "f = 0" using f(1) rollover_sum_zero
      by (auto simp: rollover_effect_def financing_rates_def and_then_Inr split: option.splits sum.splits)
    then show ?thesis using f(2) r(4) by (simp add: cost_cell_of_def commissions_def rendered_def numeral_2_eq_2 Let_def)
  qed
  fix i i' j assume ij: "i \<le> i' \<and> i' < (3 :: nat) \<and> j < (5 :: nat)"
  have base: "0 \<le> commission_base ev r risk"
    using assms(2,3) r(1,2) exit_conversion_positive [OF r(3)] by (simp add: commission_base_def rendered_def Let_def)
  have "i \<in> {0, 1, 2}" "i' \<in> {0, 1, 2}" using ij by auto
  then have "commissions ! i \<le> commissions ! i'" using ij by (auto simp: commissions_def)
  then have less: "rnd38 (commission_base ev r risk * commissions ! i) \<le> rnd38 (commission_base ev r risk * commissions ! i')"
    using base by (intro ctx38.rnd_mono mult_left_mono)
  have "i < 3" "i' < 3" "j < 5" using ij by auto
  then obtain f where f: "rollover_effect z ev r (rnd38 (risk / re_risk_per_unit ev)) (financing_rates ! j) risk = Some (Inr f)"
    "cells ! (5 * i + j) = cost_cell_of (commission_base ev r risk) (rs_gross_r r) risk (commissions ! i) (financing_rates ! j) f"
    "cells ! (5 * i' + j) = cost_cell_of (commission_base ev r risk) (rs_gross_r r) risk (commissions ! i') (financing_rates ! j) f"
    by (metis grid_cell [OF assms(4)] option.inject sum.inject(2))
  have "rnd38 (rnd38 (rs_gross_r r - rnd38 (commission_base ev r risk * commissions ! i')) + f)
      \<le> rnd38 (rnd38 (rs_gross_r r - rnd38 (commission_base ev r risk * commissions ! i)) + f)"
    by (rule ctx38.rnd_mono [OF add_right_mono [OF ctx38.rnd_mono [OF diff_left_mono [OF less]]]])
  then show "ce_net_r (cells ! (5 * i' + j)) \<le> ce_net_r (cells ! (5 * i + j))"
    unfolding f cost_cell_of_def by (simp add: Let_def rendered_def ratio_def ctx38.rnd_mono quantize_mono)
qed

section \<open>A sample event\<close>

definition sound_seal :: seal where
  "sound_seal = \<lparr>sl_sealed = True, sl_complete = True, sl_conflict = False\<rparr>"

definition sample_bar :: "instant \<Rightarrow> decimal \<Rightarrow> decimal \<Rightarrow> side_bar" where
  "sample_bar t low high = \<lparr>sb_start = t, sb_seal = sound_seal, sb_bid_open = 10, sb_bid_high = high, sb_bid_low = low, sb_bid_close = 10,
     sb_ask_open = 11, sb_ask_high = high + 1, sb_ask_low = low + 1, sb_ask_close = 11\<rparr>"

text \<open>A long event that reaches its stop and its target in the entry bar.\<close>

definition sample_event :: return_event where
  "sample_event = \<lparr>re_key = ''k'', re_books = [''b''], re_instrument = ''USD_CAD'', re_direction = ''long'', re_entry_at = 0,
     re_horizon_at = hours 1, re_entry_bid = 10, re_entry_ask = 11, re_stop = 9, re_target = 12, re_swing = 8, re_pip = 1 / 10,
     re_risk_per_unit = 1, re_starts = [0, hours 1], re_completions = [1, 2, 3, 4, 5, 6, 7, 8, 9, 10],
     re_bars = [sample_bar 0 8 13, sample_bar (hours 1) 8 13], re_daily = [],
     re_conversion = [(hours 1, \<lparr>cn_currency = ''CAD'', cn_as_of = hours 1, cn_legs = []\<rparr>)], re_rollovers = [], re_marks = []\<rparr>"

definition sample_resolution :: resolution where
  "sample_resolution = \<lparr>rs_terminal = TStop, rs_ambiguous = True, rs_entry_price = 11, rs_exit_at = hours 1, rs_exit_price = 9,
     rs_exit_conversion = 1, rs_gross_cad = - 2, rs_gross_r = - 2, rs_risk_per_unit = 1\<rparr>"

lemma rnd38_integers [simp]: "rnd38 (- 2) = - 2" "rnd38 1 = 1" "rnd38 9 = 9" "rnd38 11 = 11"
  using ctx_round_exact [of "- 2" "- 2" 0 38] ctx_round_exact [of 1 1 0 38] ctx_round_exact [of 9 9 0 38] ctx_round_exact [of 11 11 0 38]
  by simp_all

lemma sample_input: "event_input sample_event = Inr [sample_bar 0 8 13, sample_bar (hours 1) 8 13]"
  by (simp add: event_input_def sample_event_def require_def strictly_sorted_def validate_bar_def sample_bar_def sound_seal_def intact_def
      duration_defs Let_def)

lemma sample_resolved: "resolve_event sample_event = Inr sample_resolution"
proof -
  have conversion: "exit_conversion sample_event (hours 1) = Inr 1"
    by (simp add: exit_conversion_def sample_event_def pair_quote_def conversion_rate_def cad_route_def require_def)
  have scan: "resolve_bars sample_event True False [sample_bar 0 8 13, sample_bar (hours 1) 8 13]
      = Inr \<lparr>oc_terminal = TStop, oc_exit_at = hours 1, oc_exit_price = 9, oc_ambiguous = True\<rparr>"
    by (simp add: time_exit_def touches_def sample_event_def sample_bar_def Let_def)
  have ev: "re_direction sample_event = ''long''" "re_stop sample_event = 9" "re_target sample_event = 12" "re_entry_bid sample_event = 10"
    "re_entry_ask sample_event = 11" "re_risk_per_unit sample_event = 1" by (simp_all add: sample_event_def)
  have bar: "sb_bid_open (sample_bar 0 8 13) = 10" "sb_ask_open (sample_bar 0 8 13) = 11" by (simp_all add: sample_bar_def)
  have money: "money (- 2) = - 2" "ratio (- 2) = - 2"
    using quantize_of_int [of 10 "- 2"] by (simp_all add: money_def ratio_def)
  show ?thesis unfolding resolve_event_def
    by (simp add: sample_input scan conversion ev entry_price_def direction_sign_def require_def rendered_def money sample_resolution_def bar
        Let_def del: resolve_bars.simps)
qed

theorem first_bar_decides_witness:
  "\<exists>earlier b later price. event_input sample_event = Inr (earlier @ b # later) \<and> decides sample_event (earlier = []) b TStop (hours 1) price"
proof -
  have "rs_terminal sample_resolution = TStop" "rs_exit_at sample_resolution = hours 1" by (simp_all add: sample_resolution_def)
  then show ?thesis using first_bar_decides [OF sample_resolved] by metis
qed

lemma sample_grid: "\<exists>cells. cost_grid (fixed_zone 0) sample_event sample_resolution 1 = Some (Inr cells)"
proof -
  have walk: "rollover_walk (fixed_zone 0) (hours 1) (hours 17) = Some []"
    by (subst rollover_walk.simps) (simp add: fixed_zone_def duration_defs)
  have times: "rollover_times (fixed_zone 0) 0 (hours 1) = Some []"
    using walk by (simp add: rollover_times_def fixed_zone_def time_of_day_def duration_defs)
  have "pair_quote ''USD_CAD'' = Inr ''CAD''" by (simp add: pair_quote_def)
  then have effect: "rollover_effect (fixed_zone 0) sample_event sample_resolution units annual 1 = Some (Inr 0)" for units annual
    using times by (simp add: rollover_effect_def governed_rollovers_def sample_event_def sample_resolution_def require_def duration_defs)
  let ?g = "\<lambda>(commission, financing). cost_cell_of (commission_base sample_event sample_resolution 1) (rs_gross_r sample_resolution) 1 commission financing 0"
  have "cost_grid (fixed_zone 0) sample_event sample_resolution 1 = Some (Inr (map ?g [(c, f). c \<leftarrow> commissions, f \<leftarrow> financing_rates]))"
    unfolding cost_grid_def Let_def by (rule collect_option_map) (auto simp: effect)
  then show ?thesis by blast
qed

theorem cost_grid_is_ordered_witness:
  "\<exists>cells. cost_grid (fixed_zone 0) sample_event sample_resolution 1 = Some (Inr cells) \<and> length cells = 15
     \<and> ce_net_r (cells ! 14) \<le> ce_net_r (cells ! 4)"
proof -
  obtain cells where cells: "cost_grid (fixed_zone 0) sample_event sample_resolution 1 = Some (Inr cells)" using sample_grid by blast
  have "0 \<le> re_pip sample_event" "(0 :: decimal) < 1" by (simp_all add: sample_event_def)
  note grid = cost_grid_is_ordered [OF sample_resolved this cells]
  from grid [THEN conjunct2, THEN conjunct2, rule_format, of 0 2 4]
  have "ce_net_r (cells ! (5 * 2 + 4)) \<le> ce_net_r (cells ! (5 * 0 + 4))" by simp
  then show ?thesis using cells grid by (intro exI [of _ cells]) simp
qed

end
