(* ===== verification/Geometry.thy ===== *)
theory Geometry
  imports Returns "HOL-Library.Multiset"
begin

text \<open>
  \<^verbatim>\<open>research/s2_geometry.py\<close> and \<^verbatim>\<open>research/s2_geometry_v2.py\<close>: the geometry of the eligible events of the second
  research step, computed without any outcome: how they cluster by date, week and shared currency, how many are
  open at once, what a fixed equity could allocate to them and how they concentrate. An event is the record of the
  projection that the code builds, which has checked that the keys of its events are distinct. A date is the number of its day on the New York clock and an ISO week the number
  of its Monday; the digests, the power calculation and the verification of the committed artifacts are not modelled.

  The lemmas show that the factor groups are the connected components of shared currencies, that Kish's count is
  between one and the number of groups, that the peak is a peak over all instants, that what is allocated stays
  within the caps, and that concentrations are shares of one.
\<close>

section \<open>Events\<close>

record geo_event =
  ge_key :: string
  ge_instrument :: string
  ge_base :: string
  ge_quote :: string
  ge_direction :: string
  ge_entry :: instant
  ge_horizon :: instant
  ge_unit_risk :: decimal
  ge_books :: "string list"
  ge_families :: "string list"

definition daily_completion :: "zone \<Rightarrow> instant \<Rightarrow> instant" where
  [model_defs]: "daily_completion z t = to_utc z (to_local z t + days 1)"

definition business_hours :: "zone \<Rightarrow> instant \<Rightarrow> bool" where
  [model_defs]: "business_hours z t \<longleftrightarrow> hours 8 \<le> time_of_day (to_local z t) \<and> time_of_day (to_local z t) < hours 17"

text \<open>The two zones are London and New York.\<close>

definition session :: "zone \<Rightarrow> zone \<Rightarrow> instant \<Rightarrow> string + string" where
  [model_defs]: "session zl zn t =
     and_then (require (business_hours zl t \<or> business_hours zn t) ''accepted eligible event outside governed session'') (\<lambda>_.
       Inr (if business_hours zl t \<and> business_hours zn t then ''london_new_york_overlap''
            else if business_hours zl t then ''london'' else ''new_york''))"

definition entry_date :: "zone \<Rightarrow> geo_event \<Rightarrow> int" where
  [model_defs]: "entry_date z e = to_local z (ge_entry e) div days 1"

definition entry_week :: "zone \<Rightarrow> geo_event \<Rightarrow> int" where
  [model_defs]: "entry_week z e = entry_date z e - weekday (to_local z (ge_entry e))"

section \<open>Clusters\<close>

record 'k clusters =
  cs_groups :: "('k \<times> string list) list"
  cs_raw_count :: nat
  cs_event_count :: nat
  cs_kish :: rat

definition kish :: "nat list \<Rightarrow> rat" where
  [model_defs]: "kish sizes =
     (let n = sum_list sizes; squared = sum_list (map (\<lambda>s. s * s) sizes)
      in if squared = 0 then 0 else of_nat (n * n) / of_nat squared)"

definition cluster_summary :: "('k \<times> string list) list \<Rightarrow> 'k clusters" where
  [model_defs]: "cluster_summary groups =
     (let sizes = map (\<lambda>(k, members). length members) groups
      in \<lparr>cs_groups = map (\<lambda>(k, members). (k, sort members)) groups, cs_raw_count = length groups, cs_event_count = sum_list sizes,
          cs_kish = kish sizes\<rparr>)"

text \<open>A \<^verbatim>\<open>defaultdict(list)\<close> of the keys of the events, in the order of its sorted keys.\<close>

definition grouped_keys :: "(geo_event \<Rightarrow> 'k::linorder) \<Rightarrow> geo_event list \<Rightarrow> ('k \<times> string list) list" where
  [model_defs]: "grouped_keys f events =
     map (\<lambda>k. (k, map ge_key (filter (\<lambda>e. f e = k) events))) (sort (remdups (map f events)))"

section \<open>Shared currencies\<close>

text \<open>One pass over the remaining events: an event that shares a currency with what is known so far joins and
  makes its currencies known to those after it. The result is what joined, the currencies and what remains.\<close>

fun absorb_pass :: "string list \<Rightarrow> geo_event list \<Rightarrow> geo_event list \<times> string list \<times> geo_event list" where
  "absorb_pass currencies [] = ([], currencies, [])"
| "absorb_pass currencies (e # es) =
     (if ge_base e \<in> set currencies \<or> ge_quote e \<in> set currencies
      then (let (joined, known, remaining) = absorb_pass (ge_base e # ge_quote e # currencies) es in (e # joined, known, remaining))
      else (let (joined, known, remaining) = absorb_pass currencies es in (joined, known, e # remaining)))"

lemma absorb_pass_lengths: "absorb_pass currencies es = (joined, known, remaining) \<Longrightarrow> length joined + length remaining = length es"
  by (induction currencies es arbitrary: joined known remaining rule: absorb_pass.induct) (auto split: prod.splits if_splits)

lemma absorb_pass_shorter: "(joined, known, remaining) = absorb_pass es0 es \<Longrightarrow> joined \<noteq> [] \<Longrightarrow> length remaining < length es"
  using absorb_pass_lengths [of es0 es joined known remaining] by (cases joined) auto

text \<open>\<^verbatim>\<open>while changed\<close>: passes until one of them finds nothing.\<close>

function absorb :: "string list \<Rightarrow> geo_event list \<Rightarrow> geo_event list \<times> geo_event list" where
  "absorb currencies es =
     (case absorb_pass currencies es of
        (joined, known, remaining) \<Rightarrow>
          if joined = [] then ([], remaining)
          else (let (later, rest) = absorb known remaining in (joined @ later, rest)))"
  by pat_completeness auto
termination
  by (relation "measure (\<lambda>(currencies, es). length es)") (auto simp: absorb_pass_shorter)

declare absorb.simps [simp del]

lemma absorb_length: "absorb currencies es = (joined, remaining) \<Longrightarrow> length remaining \<le> length es"
proof (induction currencies es arbitrary: joined remaining rule: absorb.induct)
  case (1 currencies es)
  obtain j k r where p: "absorb_pass currencies es = (j, k, r)" using prod_cases3 by blast
  have shorter: "length r \<le> length es" using absorb_pass_lengths [OF p] by simp
  show ?case
  proof (cases "j = []")
    case True
    then show ?thesis using 1(2) p shorter by (simp add: absorb.simps [of currencies])
  next
    case False
    obtain l s where s: "absorb k r = (l, s)" by fastforce
    then have "remaining = s" using 1(2) p False by (simp add: absorb.simps [of currencies])
    then show ?thesis using 1(1) [OF p [symmetric] refl False s] shorter by simp
  qed
qed

text \<open>\<^verbatim>\<open>while remaining\<close>: the event with the least key starts a component.\<close>

definition least_key :: "geo_event list \<Rightarrow> geo_event" where
  [model_defs]: "least_key es = hd (sort_key ge_key es)"

lemma least_key_in: "es \<noteq> [] \<Longrightarrow> least_key es \<in> set es"
  by (metis least_key_def hd_in_set set_sort sort_key_const set_empty set_sort)

function components :: "geo_event list \<Rightarrow> geo_event list list" where
  "components es =
     (if es = [] then []
      else
        (let first = least_key es; (joined, rest) = absorb [ge_base first, ge_quote first] (remove1 first es)
         in (first # joined) # components rest))"
  by pat_completeness auto
termination
proof (relation "measure length", goal_cases)
  case (2 es first x joined rest)
  then have "length rest \<le> length (remove1 first es)" using absorb_length by metis
  moreover have "first \<in> set es" using 2 least_key_in by simp
  ultimately show ?case by (simp add: length_remove1) (metis Suc_pred le_imp_less_Suc length_pos_if_in_set)
qed simp

declare components.simps [simp del]

text \<open>The key of a group is its week and, for the digest, its sorted members.\<close>

definition factor_groups :: "zone \<Rightarrow> geo_event list \<Rightarrow> ((int \<times> string list) \<times> string list) list" where
  [model_defs]: "factor_groups z events =
     concat (map (\<lambda>week. map (\<lambda>component. ((week, sort (map ge_key component)), map ge_key component))
         (components (filter (\<lambda>e. entry_week z e = week) events)))
       (sort (remdups (map (entry_week z) events))))"

definition factor_clusters :: "zone \<Rightarrow> geo_event list \<Rightarrow> (int \<times> string list) clusters" where
  [model_defs]: "factor_clusters z events = cluster_summary (factor_groups z events)"

section \<open>Overlap\<close>

definition entry_order :: "geo_event list \<Rightarrow> geo_event list" where
  [model_defs]: "entry_order events = sort_key ge_entry (sort_key ge_key events)"

fun overlap_edges :: "geo_event list \<Rightarrow> (string \<times> string) list" where
  "overlap_edges [] = []"
| "overlap_edges (a # rest) =
     map (\<lambda>b. (ge_key a, ge_key b)) (filter (\<lambda>b. ge_entry b \<le> ge_horizon a) rest) @ overlap_edges rest"

definition half_open_count :: "geo_event list \<Rightarrow> instant \<Rightarrow> nat" where
  [model_defs]: "half_open_count events t = length (filter (\<lambda>e. ge_entry e \<le> t \<and> t < ge_horizon e) events)"

definition closed_count :: "geo_event list \<Rightarrow> instant \<Rightarrow> nat" where
  [model_defs]: "closed_count events t = length (filter (\<lambda>e. ge_entry e \<le> t \<and> t \<le> ge_horizon e) events)"

text \<open>\<^verbatim>\<open>max(..., default=0)\<close> over the distinct entries.\<close>

definition peak :: "(instant \<Rightarrow> nat) \<Rightarrow> geo_event list \<Rightarrow> nat" where
  [model_defs]: "peak f events = foldr max (map f (sort (remdups (map ge_entry events)))) 0"

record geometry =
  gm_dates :: "int clusters"
  gm_weeks :: "int clusters"
  gm_factors :: "(int \<times> string list) clusters"
  gm_simultaneous :: "instant clusters"
  gm_edges :: "(string \<times> string) list"
  gm_half_open_peak :: nat
  gm_allocation_peak :: nat

definition geometry_of :: "zone \<Rightarrow> geo_event list \<Rightarrow> geometry" where
  [model_defs]: "geometry_of z events =
     \<lparr>gm_dates = cluster_summary (grouped_keys (entry_date z) events), gm_weeks = cluster_summary (grouped_keys (entry_week z) events),
      gm_factors = factor_clusters z events, gm_simultaneous = cluster_summary (grouped_keys ge_entry events),
      gm_edges = overlap_edges (entry_order events), gm_half_open_peak = peak (half_open_count events) events,
      gm_allocation_peak = peak (closed_count events) events\<rparr>"

section \<open>The capacity of a fixed equity\<close>

text \<open>A bucket is a side and a currency.\<close>

definition buckets :: "geo_event \<Rightarrow> (string \<times> string) list" where
  [model_defs]: "buckets e =
     (if ge_direction e = ''long'' then [(''long'', ge_base e), (''short'', ge_quote e)]
      else [(''short'', ge_base e), (''long'', ge_quote e)])"

record open_row =
  ow_risk :: decimal
  ow_horizon :: instant
  ow_buckets :: "(string \<times> string) list"

record capacity_row =
  cp_key :: string
  cp_entry :: instant
  cp_fraction :: decimal
  cp_units :: int
  cp_risk :: decimal

definition open_risk :: "open_row list \<Rightarrow> decimal" where
  [model_defs]: "open_risk rows = py_sum rnd38 (map ow_risk rows)"

text \<open>What the open rows use of a bucket.\<close>

definition bucket_used :: "open_row list \<Rightarrow> string \<times> string \<Rightarrow> decimal" where
  [model_defs]: "bucket_used rows b = py_sum rnd38 (concat (map (\<lambda>r. map (\<lambda>x. ow_risk r) (filter (\<lambda>x. x = b) (ow_buckets r))) rows))"

definition bucket_requests :: "geo_event list \<Rightarrow> string \<times> string \<Rightarrow> nat" where
  [model_defs]: "bucket_requests batch b = length (filter (\<lambda>x. x = b) (concat (map buckets batch)))"

text \<open>The common fraction of the requests of one instant: the least that one request, the aggregate cap and the cap of
  each requested bucket leave.\<close>

definition common_fraction :: "open_row list \<Rightarrow> geo_event list \<Rightarrow> decimal" where
  [model_defs]: "common_fraction rows batch =
     (let remaining = max 0 (rnd38 (100 - open_risk rows)) in
      min_of ([1, rnd38 (remaining / rnd38 (25 * of_nat (length batch)))]
        @ map (\<lambda>b. rnd38 (max 0 (rnd38 (50 - bucket_used rows b)) / rnd38 (25 * of_nat (bucket_requests batch b))))
            (remdups (concat (map buckets batch)))))"

definition allocate_event :: "decimal \<Rightarrow> geo_event \<Rightarrow> string + capacity_row" where
  [model_defs]: "allocate_event fraction e =
     and_then (require (0 < ge_unit_risk e) ''invalid pre-entry CAD unit risk'') (\<lambda>_.
       (let units = \<lfloor>rnd38 (rnd38 (25 * fraction) / ge_unit_risk e)\<rfloor>
        in Inr \<lparr>cp_key = ge_key e, cp_entry = ge_entry e, cp_fraction = fraction, cp_units = units,
             cp_risk = rnd38 (of_int units * ge_unit_risk e)\<rparr>))"

definition open_row_of :: "geo_event \<Rightarrow> capacity_row \<Rightarrow> open_row" where
  [model_defs]: "open_row_of e r = \<lparr>ow_risk = cp_risk r, ow_horizon = ge_horizon e, ow_buckets = buckets e\<rparr>"

text \<open>One instant: rows whose horizon is before it are released, then the group is allocated.\<close>

definition allocate_group :: "instant \<Rightarrow> geo_event list \<Rightarrow> open_row list \<Rightarrow> string + capacity_row list \<times> open_row list" where
  [model_defs]: "allocate_group t batch rows =
     (let held = filter (\<lambda>r. t \<le> ow_horizon r) rows; fraction = common_fraction held batch; ordered = sort_key ge_key batch in
      and_then (collect (allocate_event fraction) ordered) (\<lambda>results.
        Inr (results, held @ map (\<lambda>(e, r). open_row_of e r) (filter (\<lambda>(e, r). 0 < cp_units r) (zip ordered results)))))"

fun allocate_groups :: "(instant \<times> geo_event list) list \<Rightarrow> open_row list \<Rightarrow> string + capacity_row list \<times> open_row list" where
  "allocate_groups [] rows = Inr ([], rows)"
| "allocate_groups ((t, batch) # groups) rows =
     and_then (allocate_group t batch rows) (\<lambda>(results, rows').
     and_then (allocate_groups groups rows') (\<lambda>(later, final). Inr (results @ later, final)))"

definition entry_groups :: "geo_event list \<Rightarrow> (instant \<times> geo_event list) list" where
  [model_defs]: "entry_groups events =
     map (\<lambda>t. (t, filter (\<lambda>e. ge_entry e = t) events)) (sort (remdups (map ge_entry events)))"

record capacity_diagnostic =
  cd_rows :: "capacity_row list"
  cd_positive :: nat
  cd_zero :: nat

definition capacity_diagnostic :: "geo_event list \<Rightarrow> string + capacity_diagnostic" where
  [model_defs]: "capacity_diagnostic events =
     and_then (allocate_groups (entry_groups events) []) (\<lambda>(results, rows).
       Inr \<lparr>cd_rows = results, cd_positive = length (filter (\<lambda>r. 0 < cp_units r) results),
         cd_zero = length (filter (\<lambda>r. cp_units r = 0) results)\<rparr>)"

section \<open>Concentration\<close>

text \<open>The weight of an event: what the weights give, or one when there are none.\<close>

definition weight_of :: "(string \<times> rat) list \<Rightarrow> geo_event \<Rightarrow> rat" where
  [model_defs]: "weight_of weights e =
     (if weights = [] then 1 else (case map_of weights (ge_key e) of Some w \<Rightarrow> w | None \<Rightarrow> 0))"

definition total_weight :: "(string \<times> rat) list \<Rightarrow> geo_event list \<Rightarrow> rat" where
  [model_defs]: "total_weight weights events = (if weights = [] then of_nat (length events) else sum_list (map snd weights))"

text \<open>The shares of one kind: every event adds its weight times a portion to each of its keys.\<close>

definition portions :: "(string \<times> rat) list \<Rightarrow> (geo_event \<Rightarrow> ('k \<times> rat) list) \<Rightarrow> geo_event list \<Rightarrow> ('k \<times> rat) list" where
  [model_defs]: "portions weights f events = concat (map (\<lambda>e. map (\<lambda>(k, part). (k, weight_of weights e * part)) (f e)) events)"

definition shares :: "(string \<times> rat) list \<Rightarrow> rat \<Rightarrow> (geo_event \<Rightarrow> ('k::linorder \<times> rat) list) \<Rightarrow> geo_event list \<Rightarrow> ('k \<times> rat) list" where
  [model_defs]: "shares weights sides f events =
     (let parts = portions weights f events; denominator = total_weight weights events in
      if denominator = 0 then []
      else map (\<lambda>k. (k, sum_list (map snd (filter (\<lambda>p. fst p = k) parts)) / (denominator * sides))) (sort (remdups (map fst parts))))"

definition civil_year :: "int \<Rightarrow> int" where
  [model_defs]: "civil_year wall = (month_index wall - 1) div 12"

record concentration =
  cc_pair :: "(string \<times> rat) list"
  cc_year :: "(int \<times> rat) list"
  cc_direction :: "(string \<times> rat) list"
  cc_session :: "(string \<times> rat) list"
  cc_family :: "(string \<times> rat) list"
  cc_currency :: "(string \<times> rat) list"

definition bucket_text :: "string \<times> string \<Rightarrow> string" where
  [model_defs]: "bucket_text b = fst b @ '':'' @ snd b"

definition concentration_of :: "zone \<Rightarrow> zone \<Rightarrow> (string \<times> rat) list \<Rightarrow> geo_event list \<Rightarrow> string + concentration" where
  [model_defs]: "concentration_of zl zn weights events =
     and_then (collect (\<lambda>e. session zl zn (ge_entry e)) events) (\<lambda>sessions.
       (let name = (\<lambda>e. case session zl zn (ge_entry e) of Inl _ \<Rightarrow> [] | Inr s \<Rightarrow> s) in
        Inr \<lparr>cc_pair = shares weights 1 (\<lambda>e. [(ge_instrument e, 1)]) events,
             cc_year = shares weights 1 (\<lambda>e. [(civil_year (to_local zn (ge_entry e)), 1)]) events,
             cc_direction = shares weights 1 (\<lambda>e. [(ge_direction e, 1)]) events,
             cc_session = shares weights 1 (\<lambda>e. [(name e, 1)]) events,
             cc_family = shares weights 1 (\<lambda>e. map (\<lambda>k. (k, 1 / of_nat (length (ge_families e)))) (ge_families e)) events,
             cc_currency = shares weights 2 (\<lambda>e. map (\<lambda>b. (bucket_text b, 1)) (buckets e)) events\<rparr>))"

section \<open>Horizon and floors of the second version\<close>

text \<open>\<^verbatim>\<open>bisect_left\<close> and \<^verbatim>\<open>bisect_right\<close> on a sorted tuple.\<close>

definition bisect_left :: "instant list \<Rightarrow> instant \<Rightarrow> nat" where
  [model_defs]: "bisect_left xs t = length (takeWhile (\<lambda>x. x < t) xs)"

definition bisect_right :: "instant list \<Rightarrow> instant \<Rightarrow> nat" where
  [model_defs]: "bisect_right xs t = length (takeWhile (\<lambda>x. x \<le> t) xs)"

record horizon =
  hz_at :: "instant option"
  hz_selected :: "instant list"
  hz_prior :: "instant option"

definition horizon_of :: "zone \<Rightarrow> instant \<Rightarrow> instant list \<Rightarrow> instant list \<Rightarrow> horizon" where
  [model_defs]: "horizon_of z entry daily hourly =
     (let completions = map (daily_completion z) daily; start = bisect_right completions entry in
      if length completions \<le> start + 9 then \<lparr>hz_at = None, hz_selected = [], hz_prior = None\<rparr>
      else
        (let index = bisect_left hourly (completions ! (start + 9)) in
         \<lparr>hz_at = (if index < length hourly then Some (hourly ! index) else None), hz_selected = slice start (start + 10) daily,
          hz_prior = (if index = 0 then None else Some (hourly ! (index - 1)))\<rparr>))"

datatype floor_status = FloorSatisfied | FloorFailed | FloorUnknowable

record floor_result =
  fl_confirmed :: floor_status
  fl_events :: floor_status
  fl_dates :: floor_status
  fl_weeks :: floor_status
  fl_kish_weeks :: floor_status
  fl_kish_factors :: floor_status
  fl_days :: floor_status
  fl_coverage :: floor_status
  fl_resolved :: floor_status
  fl_paired :: floor_status
  fl_unresolved :: floor_status

definition known_floor :: "rat \<Rightarrow> rat \<Rightarrow> floor_status" where
  [model_defs]: "known_floor observed threshold = (if threshold \<le> observed then FloorSatisfied else FloorFailed)"

definition unknown_floor :: "nat \<Rightarrow> nat \<Rightarrow> floor_status" where
  [model_defs]: "unknown_floor bound threshold = (if bound < threshold then FloorFailed else FloorUnknowable)"

definition floor_result_of :: "nat \<Rightarrow> geo_event list \<Rightarrow> geometry \<Rightarrow> floor_result" where
  [model_defs]: "floor_result_of confirmed events g =
     \<lparr>fl_confirmed = known_floor (of_nat confirmed) 100, fl_events = known_floor (of_nat (length events)) 50,
      fl_dates = known_floor (of_nat (cs_raw_count (gm_dates g))) 40, fl_weeks = known_floor (of_nat (cs_raw_count (gm_weeks g))) 30,
      fl_kish_weeks = known_floor (cs_kish (gm_weeks g)) 30, fl_kish_factors = known_floor (cs_kish (gm_factors g)) 20,
      fl_days = known_floor 3287 1095, fl_coverage = known_floor 1 1,
      fl_resolved = unknown_floor (length events) 50, fl_paired = unknown_floor (length events) 30, fl_unresolved = FloorUnknowable\<rparr>"

text \<open>The largest class of each kind, \<^verbatim>\<open>max\<close> by count and then key.\<close>

definition counter_of :: "'k::linorder list \<Rightarrow> ('k \<times> nat) list" where
  [model_defs]: "counter_of xs = map (\<lambda>k. (k, length (filter (\<lambda>x. x = k) xs))) (sort (remdups xs))"

definition largest_class :: "('k::linorder \<times> nat) list \<Rightarrow> ('k \<times> nat) option" where
  [model_defs]: "largest_class counts =
     (case counts of [] \<Rightarrow> None
      | _ \<Rightarrow> (let top = foldr max (map snd counts) 0; winners = map fst (filter (\<lambda>c. snd c = top) counts)
             in Some (foldr max (tl winners) (hd winners), top)))"

section \<open>Components\<close>

abbreviation currencies_of :: "geo_event \<Rightarrow> string set" where
  "currencies_of e \<equiv> {ge_base e, ge_quote e}"

text \<open>Two events share a currency.\<close>

definition shares_currency :: "geo_event \<Rightarrow> geo_event \<Rightarrow> bool" where
  [model_defs]: "shares_currency a b \<longleftrightarrow> ge_base a = ge_base b \<or> ge_base a = ge_quote b \<or> ge_quote a = ge_base b \<or> ge_quote a = ge_quote b"

lemma shares_currency_iff: "shares_currency a b \<longleftrightarrow> currencies_of a \<inter> currencies_of b \<noteq> {}"
  by (auto simp: shares_currency_def)

lemma shares_currency_sym: "shares_currency a b \<Longrightarrow> shares_currency b a"
  by (auto simp: shares_currency_def)

text \<open>Chains of events that share a currency from one to the next, all among the given events.\<close>

definition chained :: "geo_event set \<Rightarrow> (geo_event \<times> geo_event) set" where
  "chained S = {(a, b). a \<in> S \<and> b \<in> S \<and> shares_currency a b}\<^sup>*"

lemma chained_sym: "(a, b) \<in> chained S \<Longrightarrow> (b, a) \<in> chained S"
proof -
  have "sym {(a, b). a \<in> S \<and> b \<in> S \<and> shares_currency a b}" by (auto intro!: symI shares_currency_sym)
  then show "(a, b) \<in> chained S \<Longrightarrow> (b, a) \<in> chained S" unfolding chained_def by (meson sym_rtrancl symD)
qed

lemma chained_trans: "(a, b) \<in> chained S \<Longrightarrow> (b, c) \<in> chained S \<Longrightarrow> (a, c) \<in> chained S"
  unfolding chained_def by (rule rtrancl_trans)

lemma chained_mono: "S \<subseteq> T \<Longrightarrow> chained S \<subseteq> chained T"
  unfolding chained_def by (rule rtrancl_mono) auto

lemma chained_step: "a \<in> S \<Longrightarrow> b \<in> S \<Longrightarrow> shares_currency a b \<Longrightarrow> (a, b) \<in> chained S"
  unfolding chained_def by auto

text \<open>A currency is known when an event has it that the start is chained to.\<close>

definition known_from :: "geo_event set \<Rightarrow> geo_event \<Rightarrow> string set \<Rightarrow> bool" where
  "known_from S start C \<longleftrightarrow> (\<forall>c \<in> C. \<exists>a \<in> S. (start, a) \<in> chained S \<and> c \<in> currencies_of a)"

lemma joins_chain:
  assumes "known_from S start C" "e \<in> S" "ge_base e \<in> C \<or> ge_quote e \<in> C"
  shows "(start, e) \<in> chained S" "known_from S start (insert (ge_base e) (insert (ge_quote e) C))"
proof -
  obtain a where a: "a \<in> S" "(start, a) \<in> chained S" "currencies_of a \<inter> currencies_of e \<noteq> {}"
    using assms by (auto simp: known_from_def)
  then show "(start, e) \<in> chained S" using chained_trans [OF a(2) chained_step] assms(2) by (simp add: shares_currency_iff)
  then show "known_from S start (insert (ge_base e) (insert (ge_quote e) C))"
    using assms(1,2) by (auto simp: known_from_def)
qed

lemma absorb_pass_mset: "absorb_pass C es = (joined, known, remaining) \<Longrightarrow> mset joined + mset remaining = mset es"
  by (induction C es arbitrary: joined known remaining rule: absorb_pass.induct) (auto split: prod.splits if_splits)

lemma absorb_pass_known:
  "absorb_pass C es = (joined, known, remaining) \<Longrightarrow> set known = set C \<union> (\<Union>e \<in> set joined. currencies_of e)"
proof (induction C es arbitrary: joined known remaining rule: absorb_pass.induct)
  case (2 C x es)
  show ?case
  proof (cases "ge_base x \<in> set C \<or> ge_quote x \<in> set C")
    case True
    then obtain j where j: "absorb_pass (ge_base x # ge_quote x # C) es = (j, known, remaining)" "joined = x # j"
      using 2(3) by (auto split: prod.splits)
    show ?thesis using 2(1) [OF True j(1)] j(2) by simp
  next
    case False
    then obtain r where "absorb_pass C es = (joined, known, r)" using 2(3) by (auto split: prod.splits)
    then show ?thesis by (rule 2(2) [OF False])
  qed
qed simp

lemma absorb_pass_none: "absorb_pass C es = ([], known, remaining) \<Longrightarrow> e \<in> set remaining \<Longrightarrow> currencies_of e \<inter> set C = {}"
proof (induction C es arbitrary: known remaining rule: absorb_pass.induct)
  case (2 C x es)
  then have C: "\<not> (ge_base x \<in> set C \<or> ge_quote x \<in> set C)" by (auto split: prod.splits if_splits)
  then obtain k r where "absorb_pass C es = ([], k, r)" "remaining = x # r" using 2(3) by (auto split: prod.splits)
  then show ?case using 2(2) [OF C] 2(4) C by auto
qed simp

lemma absorb_pass_chained:
  "absorb_pass C es = (joined, known, remaining) \<Longrightarrow> known_from S start (set C) \<Longrightarrow> set es \<subseteq> S
     \<Longrightarrow> (\<forall>e \<in> set joined. (start, e) \<in> chained S) \<and> known_from S start (set known)"
proof (induction C es arbitrary: joined known remaining rule: absorb_pass.induct)
  case (2 C e es)
  show ?case
  proof (cases "ge_base e \<in> set C \<or> ge_quote e \<in> set C")
    case True
    obtain j where j: "absorb_pass (ge_base e # ge_quote e # C) es = (j, known, remaining)" "joined = e # j"
      using 2(3) True by (auto split: prod.splits)
    have "(start, e) \<in> chained S" "known_from S start (set (ge_base e # ge_quote e # C))"
      using joins_chain [OF 2(4) _ True] 2(5) by simp_all
    then show ?thesis using 2(1) [OF True j(1)] 2(5) j(2) by simp
  next
    case False
    then show ?thesis using 2 by (auto split: prod.splits)
  qed
qed simp

lemma absorb_mset: "absorb C es = (joined, remaining) \<Longrightarrow> mset joined + mset remaining = mset es"
proof (induction C es arbitrary: joined remaining rule: absorb.induct)
  case (1 C es)
  obtain j k r where p: "absorb_pass C es = (j, k, r)" using prod_cases3 by blast
  show ?case
  proof (cases "j = []")
    case True
    then show ?thesis using 1(2) p absorb_pass_mset [OF p] by (simp add: absorb.simps [of C])
  next
    case False
    obtain l s where s: "absorb k r = (l, s)" by fastforce
    then have "joined = j @ l" "remaining = s" using 1(2) p False by (simp_all add: absorb.simps [of C])
    then show ?thesis using 1(1) [OF p [symmetric] refl False s] absorb_pass_mset [OF p] by (simp add: ac_simps)
  qed
qed

lemma absorb_chained:
  "absorb C es = (joined, remaining) \<Longrightarrow> known_from S start (set C) \<Longrightarrow> set es \<subseteq> S \<Longrightarrow> e \<in> set joined \<Longrightarrow> (start, e) \<in> chained S"
proof (induction C es arbitrary: joined remaining rule: absorb.induct)
  case (1 C es)
  obtain j k r where p: "absorb_pass C es = (j, k, r)" using prod_cases3 by blast
  show ?case
  proof (cases "j = []")
    case True
    then show ?thesis using 1(2,5) p by (simp add: absorb.simps [of C])
  next
    case False
    obtain l s where s: "absorb k r = (l, s)" by fastforce
    then have joined: "joined = j @ l" using 1(2) p False by (simp add: absorb.simps [of C])
    have here: "\<forall>e \<in> set j. (start, e) \<in> chained S" "known_from S start (set k)"
      using absorb_pass_chained [OF p 1(3,4)] by simp_all
    have "set r \<subseteq> S" using absorb_pass_mset [OF p] 1(4) by (metis Un_subset_iff set_mset_mset set_mset_union)
    then show ?thesis using 1(1) [OF p [symmetric] refl False s here(2)] here(1) 1(5) joined by auto
  qed
qed

lemma absorb_apart:
  "absorb C es = (joined, remaining) \<Longrightarrow> e \<in> set remaining
     \<Longrightarrow> currencies_of e \<inter> (set C \<union> (\<Union>x \<in> set joined. currencies_of x)) = {}"
proof (induction C es arbitrary: joined remaining rule: absorb.induct)
  case (1 C es)
  obtain j k r where p: "absorb_pass C es = (j, k, r)" using prod_cases3 by blast
  show ?case
  proof (cases "j = []")
    case True
    then have "joined = []" "remaining = r" using 1(2) p by (simp_all add: absorb.simps [of C])
    then show ?thesis using absorb_pass_none [of C es k r e] p True 1(3) by simp
  next
    case False
    obtain l s where s: "absorb k r = (l, s)" by fastforce
    then have "joined = j @ l" "remaining = s" using 1(2) p False by (simp_all add: absorb.simps [of C])
    then show ?thesis using 1(1) [OF p [symmetric] refl False s] 1(3) absorb_pass_known [OF p] by auto
  qed
qed

text \<open>One component: the start with all that it is chained to.\<close>

lemma first_component:
  assumes "es \<noteq> []" "absorb [ge_base (least_key es), ge_quote (least_key es)] (remove1 (least_key es) es) = (joined, rest)"
  shows "mset (least_key es # joined) + mset rest = mset es"
    "e \<in> set (least_key es # joined) \<Longrightarrow> (least_key es, e) \<in> chained (set es)"
    "e \<in> set (least_key es # joined) \<Longrightarrow> x \<in> set rest \<Longrightarrow> \<not> shares_currency e x"
proof -
  let ?f = "least_key es"
  have f: "?f \<in> set es" by (rule least_key_in [OF assms(1)])
  then show all: "mset (?f # joined) + mset rest = mset es"
    using absorb_mset [OF assms(2)] by (simp add: mset_remove1)
  have "known_from (set es) ?f (set [ge_base ?f, ge_quote ?f])"
    using f by (auto simp: known_from_def chained_def)
  then show "e \<in> set (?f # joined) \<Longrightarrow> (?f, e) \<in> chained (set es)"
    using absorb_chained [OF assms(2)] set_remove1_subset [of ?f es] by (auto simp: chained_def)
  show "e \<in> set (?f # joined) \<Longrightarrow> x \<in> set rest \<Longrightarrow> \<not> shares_currency e x"
    using absorb_apart [OF assms(2), of x] by (auto simp: shares_currency_def)
qed

definition apart :: "geo_event list \<Rightarrow> geo_event list \<Rightarrow> bool" where
  "apart c d \<longleftrightarrow> (\<forall>a \<in> set c. \<forall>b \<in> set d. \<not> shares_currency a b)"

lemma components_partition:
  "mset (concat (components es)) = mset es \<and> sorted_wrt apart (components es) \<and> [] \<notin> set (components es)
    \<and> (\<forall>c \<in> set (components es). \<forall>a \<in> set c. \<forall>b \<in> set c. (a, b) \<in> chained (set es))"
proof (induction es rule: components.induct)
  case (1 es)
  show ?case
  proof (cases "es = []")
    case True
    then show ?thesis by (simp add: components.simps)
  next
    case False
    obtain joined rest where a: "absorb [ge_base (least_key es), ge_quote (least_key es)] (remove1 (least_key es) es) = (joined, rest)"
      by fastforce
    let ?c = "least_key es # joined"
    have step: "components es = ?c # components rest" using False a by (simp add: components.simps [of es] Let_def)
    note c = first_component [OF False a]
    note IH = 1 [OF False refl a [symmetric] refl]
    have sub: "set rest \<subseteq> set es" using c(1) by (metis Un_subset_iff set_mset_mset set_mset_union subset_refl)
    have "mset (concat (components es)) = mset es" using IH c(1) step by simp
    moreover have "sorted_wrt apart (components es)"
    proof -
      have "apart ?c d" if "d \<in> set (components rest)" for d
      proof -
        have "set d \<subseteq> set rest" using IH that by (metis UN_upper set_concat set_mset_mset)
        then show ?thesis using c(3) by (auto simp: apart_def)
      qed
      then show ?thesis using IH step by simp
    qed
    moreover have "(a, b) \<in> chained (set es)" if "d \<in> set (components es)" "a \<in> set d" "b \<in> set d" for d a b
    proof (cases "d = ?c")
      case True
      then show ?thesis using that c(2) chained_trans chained_sym by meson
    next
      case False
      then have "(a, b) \<in> chained (set rest)" using IH that step by auto
      then show ?thesis using chained_mono [OF sub] by blast
    qed
    ultimately show ?thesis using IH step by auto
  qed
qed

section \<open>Counts\<close>

lemma squares_le_square: "sum_list (map (\<lambda>s. s * s) xs) \<le> sum_list xs * sum_list (xs :: nat list)"
  by (induction xs) (auto simp: algebra_simps)

lemma two_products: "2 * s * x \<le> s * s + x * (x :: nat)"
proof (cases s x rule: linorder_le_cases)
  case le
  then obtain d where "x = s + d" using le_iff_add by blast
  then show ?thesis by (simp add: algebra_simps)
next
  case ge
  then obtain d where "s = x + d" using le_iff_add by blast
  then show ?thesis by (simp add: algebra_simps)
qed

lemma two_products_list: "2 * s * sum_list xs \<le> length xs * (s * s) + sum_list (map (\<lambda>x. x * x) xs)" for s :: nat
proof (induction xs)
  case (Cons x xs)
  then show ?case using two_products [of s x] by (simp add: algebra_simps)
qed simp

lemma square_le_squares: "sum_list xs * sum_list xs \<le> length xs * sum_list (map (\<lambda>s. s * s) (xs :: nat list))"
proof (induction xs)
  case (Cons x xs)
  then show ?case using two_products_list [of x xs] by (simp add: algebra_simps)
qed simp

lemma ratio_bounds:
  "0 < b \<Longrightarrow> b \<le> a \<Longrightarrow> 1 \<le> (of_nat a / of_nat b :: rat)" "0 < b \<Longrightarrow> a \<le> n * b \<Longrightarrow> (of_nat a / of_nat b :: rat) \<le> of_nat n"
  using of_nat_mono [of a "n * b", where 'a = rat] by (simp_all add: divide_le_eq)

lemma kish_bounds:
  assumes "xs \<noteq> []" "0 \<notin> set xs"
  shows "1 \<le> kish xs" "kish xs \<le> of_nat (length xs)"
proof -
  let ?q = "sum_list (map (\<lambda>s. s * s) xs)"
  have q: "0 < ?q" using assms by (cases xs) auto
  then have k: "kish xs = of_nat (sum_list xs * sum_list xs) / of_nat ?q" by (simp only: kish_def Let_def) simp
  show "1 \<le> kish xs" unfolding k using q squares_le_square by (rule ratio_bounds(1))
  show "kish xs \<le> of_nat (length xs)" unfolding k using q square_le_squares by (rule ratio_bounds(2))
qed

text \<open>What holds of the clusters of a number of events.\<close>

definition sound_clusters :: "nat \<Rightarrow> 'k clusters \<Rightarrow> bool" where
  "sound_clusters n c \<longleftrightarrow> cs_event_count c = n \<and> 1 \<le> cs_kish c \<and> cs_kish c \<le> of_nat (cs_raw_count c)"

lemma sound_summary:
  assumes "groups \<noteq> []" "\<forall>g \<in> set groups. snd g \<noteq> []" "sum_list (map (\<lambda>g. length (snd g)) groups) = n"
  shows "sound_clusters n (cluster_summary groups)"
proof -
  have "cluster_summary groups = \<lparr>cs_groups = map (\<lambda>(k, members). (k, sort members)) groups, cs_raw_count = length groups,
      cs_event_count = sum_list (map (\<lambda>g. length (snd g)) groups), cs_kish = kish (map (\<lambda>g. length (snd g)) groups)\<rparr>"
    by (simp add: cluster_summary_def case_prod_unfold Let_def)
  moreover have "0 \<notin> set (map (\<lambda>g. length (snd g)) groups)" using assms(2) by auto
  ultimately show ?thesis
    using assms(1,3) kish_bounds [of "map (\<lambda>g. length (snd g)) groups"] by (simp add: sound_clusters_def)
qed

lemma filter_classes_length:
  "distinct ks \<Longrightarrow> f ` set es \<subseteq> set ks \<Longrightarrow> sum_list (map (\<lambda>k. length (filter (\<lambda>e. f e = k) es)) ks) = length es"
proof (induction es)
  case (Cons e es)
  have one: "sum_list (map (\<lambda>k. if f e = k then 1 else 0) ks) = (1 :: nat)"
    using Cons.prems by (simp add: sum_list_distinct_conv_sum_set)
  have "sum_list (map (\<lambda>k. length (filter (\<lambda>x. f x = k) (e # es))) ks)
      = sum_list (map (\<lambda>k. (if f e = k then 1 else 0) + length (filter (\<lambda>x. f x = k) es)) ks)"
    by (intro arg_cong [of _ _ sum_list] map_cong) auto
  then show ?case using Cons one by (simp add: sum_list_addf)
qed simp

lemma sound_grouped: "events \<noteq> [] \<Longrightarrow> sound_clusters (length events) (cluster_summary (grouped_keys f events))"
proof (rule sound_summary)
  assume "events \<noteq> []"
  then have "set (sort (remdups (map f events))) \<noteq> {}" by simp
  then have "sort (remdups (map f events)) \<noteq> []" by (metis empty_set)
  then show "grouped_keys f events \<noteq> []" by (simp add: grouped_keys_def)
  show "\<forall>g \<in> set (grouped_keys f events). snd g \<noteq> []" by (auto simp: grouped_keys_def filter_empty_conv)
  have "sum_list (map (\<lambda>k. length (filter (\<lambda>e. f e = k) events)) (sort (remdups (map f events)))) = length events"
    by (rule filter_classes_length) simp_all
  then show "sum_list (map (\<lambda>g. length (snd g)) (grouped_keys f events)) = length events"
    by (simp add: grouped_keys_def comp_def)
qed

lemma sum_list_concat_map: "sum_list (concat xss) = sum_list (map sum_list xss)"
  by (induction xss) auto

lemma sound_factors: "events \<noteq> [] \<Longrightarrow> sound_clusters (length events) (factor_clusters z events)"
  unfolding factor_clusters_def
proof (rule sound_summary)
  let ?weeks = "sort (remdups (map (entry_week z) events))"
  let ?week = "\<lambda>w. filter (\<lambda>e. entry_week z e = w) events"
  have empty: "components es = [] \<longleftrightarrow> es = []" for es
    using components_partition [of es] by (metis concat.simps(1) mset_zero_iff components.simps)
  {
    assume "events \<noteq> []"
    then obtain e where "e \<in> set events" by (cases events) auto
    then have w: "entry_week z e \<in> set ?weeks" "?week (entry_week z e) \<noteq> []" by (auto simp: filter_empty_conv)
    then show "factor_groups z events \<noteq> []" unfolding factor_groups_def using empty by fastforce
  }
  show "\<forall>g \<in> set (factor_groups z events). snd g \<noteq> []"
    using components_partition by (fastforce simp: factor_groups_def)
  have "sum_list (map (\<lambda>g. length (snd g)) (factor_groups z events))
      = sum_list (map (\<lambda>w. sum_list (map length (components (?week w)))) ?weeks)"
    by (simp add: factor_groups_def map_concat sum_list_concat_map comp_def)
  moreover have "sum_list (map length (components es)) = length es" for es
    using components_partition [of es] by (metis length_concat size_mset)
  ultimately show "sum_list (map (\<lambda>g. length (snd g)) (factor_groups z events)) = length events"
    using filter_classes_length [of ?weeks "entry_week z" events] by simp
qed

lemma foldr_max_ge: "x \<in> set xs \<Longrightarrow> x \<le> foldr max xs (b :: nat)"
  by (induction xs) (auto simp: le_max_iff_disj)

lemma foldr_max_in: "foldr max xs (0 :: nat) \<in> insert 0 (set xs)"
  by (induction xs) (auto simp: max_def)

text \<open>The number of open events can only grow at an entry.\<close>

lemma count_at_entry:
  assumes grows: "\<And>e s. P e t \<Longrightarrow> ge_entry e \<le> s \<Longrightarrow> s \<le> t \<Longrightarrow> P e s" and entered: "\<And>e. P e t \<Longrightarrow> ge_entry e \<le> t"
  shows "length (filter (\<lambda>e. P e t) events) \<le> peak (\<lambda>s. length (filter (\<lambda>e. P e s) events)) events"
proof (cases "filter (\<lambda>e. P e t) events = []")
  case False
  let ?live = "set (filter (\<lambda>e. P e t) events)"
  let ?s = "Max (ge_entry ` ?live)"
  have live: "finite (ge_entry ` ?live)" "ge_entry ` ?live \<noteq> {}" using False by (auto simp: filter_empty_conv)
  have "?s \<in> ge_entry ` ?live" using Max_in live by blast
  then have s: "?s \<in> set (map ge_entry events)" "?s \<le> t" using entered by auto
  have "P e ?s" if "e \<in> set events" "P e t" for e
  proof (rule grows [OF that(2) _ s(2)])
    show "ge_entry e \<le> ?s" using that live(1) by (intro Max_ge) auto
  qed
  then have "filter (\<lambda>e. P e t) events = filter (\<lambda>e. P e t) (filter (\<lambda>e. P e ?s) events)"
    unfolding filter_filter by (intro filter_cong) auto
  then have "length (filter (\<lambda>e. P e t) events) \<le> length (filter (\<lambda>e. P e ?s) events)" by (metis length_filter_le)
  also have "\<dots> \<le> peak (\<lambda>s. length (filter (\<lambda>e. P e s) events)) events"
    unfolding peak_def by (rule foldr_max_ge) (use s(1) in auto)
  finally show ?thesis .
qed simp

lemma half_open_peak: "half_open_count events t \<le> peak (half_open_count events) events"
  unfolding half_open_count_def by (rule count_at_entry) auto

lemma closed_peak: "closed_count events t \<le> peak (closed_count events) events"
  unfolding closed_count_def by (rule count_at_entry) auto

section \<open>Shares of one\<close>

lemma sum_by_key:
  "distinct ks \<Longrightarrow> fst ` set parts \<subseteq> set ks \<Longrightarrow>
     sum_list (map (\<lambda>k. sum_list (map snd (filter (\<lambda>p. fst p = k) parts))) ks) = sum_list (map snd (parts :: ('k \<times> rat) list))"
proof (induction parts)
  case (Cons p parts)
  have one: "sum_list (map (\<lambda>k. if fst p = k then snd p else 0) ks) = snd p"
    using Cons.prems by (simp add: sum_list_distinct_conv_sum_set)
  have "sum_list (map (\<lambda>k. sum_list (map snd (filter (\<lambda>q. fst q = k) (p # parts)))) ks)
      = sum_list (map (\<lambda>k. (if fst p = k then snd p else 0) + sum_list (map snd (filter (\<lambda>q. fst q = k) parts))) ks)"
    by (intro arg_cong [of _ _ sum_list] map_cong) auto
  then show ?case using Cons one by (simp add: sum_list_addf)
qed simp

lemma sum_list_divide: "sum_list (map (\<lambda>x. f x / (d :: rat)) xs) = sum_list (map f xs) / d"
  by (induction xs) (simp_all add: add_divide_distrib)

lemma shares_of_one:
  assumes "events \<noteq> []" "\<forall>e \<in> set events. sum_list (map snd (f e)) = sides" "sides \<noteq> 0"
  shows "sum_list (map snd (shares [] sides f events)) = 1"
proof -
  let ?parts = "portions [] f events"
  have "sum_list (map snd ?parts) = of_nat (length events) * sides"
    using assms(2) by (induction events) (auto simp: portions_def weight_of_def case_prod_unfold comp_def algebra_simps)
  moreover have "total_weight [] events = of_nat (length events)" by (simp add: total_weight_def)
  moreover have "sum_list (map (\<lambda>k. sum_list (map snd (filter (\<lambda>p. fst p = k) ?parts))) (sort (remdups (map fst ?parts)))) = sum_list (map snd ?parts)"
    by (rule sum_by_key) simp_all
  ultimately show ?thesis using assms(1,3) by (simp add: shares_def Let_def comp_def sum_list_divide)
qed

section \<open>The caps\<close>

lemma rnd38_on_grid:
  assumes "on_grid n x" "\<bar>x\<bar> * 10 ^ n < 10 ^ 38"
  shows "rnd38 x = x"
proof -
  obtain k :: int where k: "x = of_int k / 10 ^ n" using assms(1) by (auto simp: on_grid_iff)
  then have "(of_int \<bar>k\<bar> :: rat) < of_int (10 ^ 38)" using assms(2) by simp
  then have "\<bar>k\<bar> < 10 ^ 38" using of_int_less_iff by blast
  moreover have "x = of_int k * 10 powi (- int n)" using k by (simp add: power_int_minus divide_inverse)
  ultimately show ?thesis by (rule ctx_round_exact [rotated])
qed

text \<open>The values of the caps are on the grid of the column of the unit risks, ten decimals.\<close>

abbreviation grid_risk :: "rat \<Rightarrow> bool" where
  "grid_risk x \<equiv> on_grid 10 x \<and> 0 \<le> x"

lemma sum38_exact:
  "\<forall>x \<in> set xs. grid_risk x \<Longrightarrow> grid_risk acc \<Longrightarrow> acc + sum_list xs \<le> 1000 \<Longrightarrow> sum_from rnd38 acc xs = acc + sum_list xs"
proof (induction xs arbitrary: acc)
  case (Cons x xs)
  have rest: "0 \<le> sum_list xs" using Cons.prems(1) by (intro sum_list_nonneg) auto
  have grid: "grid_risk (acc + x)" using Cons.prems(1,2) by (auto intro: on_grid_add)
  have "\<bar>acc + x\<bar> * 10 ^ 10 < 10 ^ 38" using grid Cons.prems(3) rest by simp
  then have "rnd38 (acc + x) = acc + x" using grid rnd38_on_grid by blast
  then show ?case using Cons.IH [of "acc + x"] Cons.prems grid by (simp add: add.assoc)
qed simp

lemma grid_gap: "on_grid 10 x \<Longrightarrow> on_grid 10 y \<Longrightarrow> x < y + 1 / 10 ^ 10 \<Longrightarrow> x \<le> y"
proof -
  assume "on_grid 10 x" "on_grid 10 y" "x < y + 1 / 10 ^ 10"
  then obtain i j :: int where ij: "x = of_int i / 10 ^ 10" "y = of_int j / 10 ^ 10" "x < y + 1 / 10 ^ 10"
    by (auto simp: on_grid_iff)
  then have "(of_int i :: rat) < of_int (j + 1)" by (simp add: field_simps)
  then have "i \<le> j" by linarith
  then show "x \<le> y" using ij by (simp add: divide_right_mono)
qed

lemma grid_sum_list: "\<forall>x \<in> set xs. grid_risk x \<Longrightarrow> grid_risk (sum_list xs)"
proof (induction xs)
  case Nil
  then show ?case by (simp add: on_grid_def)
next
  case (Cons x xs)
  then show ?case by (simp add: on_grid_add)
qed

lemma rnd38_error: "0 \<le> x \<Longrightarrow> \<bar>rnd38 x - x\<bar> \<le> x * (1 / 10 ^ 37)"
proof -
  assume x: "0 \<le> x"
  then have "\<bar>rnd38 x - x\<bar> \<le> x * (10 / (2 * 10 ^ 38))" using ctx_round_relative_error [of 38 x] by (simp only: abs_of_nonneg)
  also have "\<dots> \<le> x * (1 / 10 ^ 37)" using x by (intro mult_left_mono) simp_all
  finally show ?thesis .
qed

lemma rnd38_le: "0 \<le> x \<Longrightarrow> rnd38 x \<le> x * (1 + 1 / 10 ^ 37)"
  using rnd38_error [of x] unfolding abs_le_iff ring_distribs by linarith

lemma rnd38_ge: "0 \<le> x \<Longrightarrow> x * (1 - 1 / 10 ^ 37) \<le> rnd38 x"
  using rnd38_error [of x] unfolding abs_le_iff ring_distribs by linarith

text \<open>What one of \<open>c\<close> requests receives of an amount.\<close>

lemma claim_bound:
  assumes "0 \<le> a" "(1 :: rat) \<le> c" "0 \<le> f" "f \<le> rnd38 (a / rnd38 (25 * c))" "0 < u"
  shows "c * (of_int \<lfloor>rnd38 (rnd38 (25 * f) / u)\<rfloor> * u) \<le> a * (1 + 1 / 10 ^ 30)"
proof -
  let ?k = "1 + 1 / 10 ^ 37 :: rat" and ?l = "1 - 1 / 10 ^ 37 :: rat"
  have "of_int \<lfloor>rnd38 (rnd38 (25 * f) / u)\<rfloor> \<le> rnd38 (rnd38 (25 * f) / u)" by simp
  also have "\<dots> \<le> rnd38 (25 * f) / u * ?k" using assms(3,5) by (intro rnd38_le) simp
  finally have "of_int \<lfloor>rnd38 (rnd38 (25 * f) / u)\<rfloor> * u \<le> rnd38 (25 * f) / u * ?k * u" using assms(5) by (intro mult_right_mono) simp_all
  also have "x / u * k * u = x * k" for x k using assms(5) by simp
  finally have "of_int \<lfloor>rnd38 (rnd38 (25 * f) / u)\<rfloor> * u \<le> rnd38 (25 * f) * ?k" .
  also have "\<dots> \<le> 25 * f * ?k * ?k" using rnd38_le [of "25 * f"] assms(3) by (intro mult_right_mono) simp_all
  finally have units: "of_int \<lfloor>rnd38 (rnd38 (25 * f) / u)\<rfloor> * u \<le> 25 * f * ?k * ?k" .
  have d: "0 < 25 * c * ?l" "25 * c * ?l \<le> rnd38 (25 * c)" using assms(2) rnd38_ge [of "25 * c"] by simp_all
  then have pos: "0 < rnd38 (25 * c)" by linarith
  have "f \<le> a / rnd38 (25 * c) * ?k" using assms(1,4) pos rnd38_le [of "a / rnd38 (25 * c)"] by simp
  also have "\<dots> \<le> a / (25 * c * ?l) * ?k" using assms(1) d pos by (intro mult_right_mono divide_left_mono) simp_all
  finally have "25 * c * f \<le> 25 * c * (a / (25 * c * ?l) * ?k)" using assms(2) by (intro mult_left_mono) simp_all
  also have "\<dots> = a * (?k / ?l)" using assms(2) by simp
  finally have "25 * c * f * (?k * ?k) \<le> a * (?k / ?l) * (?k * ?k)" by (intro mult_right_mono) simp_all
  also have "\<dots> = a * (?k / ?l * (?k * ?k))" by (simp only: mult.assoc)
  also have "\<dots> \<le> a * (1 + 1 / 10 ^ 30)" using assms(1) by (intro mult_left_mono) simp_all
  finally have bound: "25 * c * f * (?k * ?k) \<le> a * (1 + 1 / 10 ^ 30)" .
  have "c * (of_int \<lfloor>rnd38 (rnd38 (25 * f) / u)\<rfloor> * u) \<le> c * (25 * f * ?k * ?k)"
    using units assms(2) by (intro mult_left_mono) simp_all
  also have "c * (25 * f * k * k) = 25 * c * f * (k * k)" for k by (simp add: ac_simps)
  finally show ?thesis using bound by (rule order.trans)
qed

lemma claims_fit:
  assumes "\<forall>r \<in> set rs. grid_risk r \<and> c * r \<le> a * (1 + 1 / 10 ^ 30)" "of_nat (length rs) \<le> c" "(1 :: rat) \<le> c" "grid_risk a" "a \<le> 100"
  shows "sum_list rs \<le> a"
proof (rule grid_gap)
  have "c * sum_list rs \<le> of_nat (length rs) * (a * (1 + 1 / 10 ^ 30))"
    using assms(1) by (induction rs) (auto simp: algebra_simps)
  also have "\<dots> \<le> c * (a * (1 + 1 / 10 ^ 30))" using assms(2,4) by (intro mult_right_mono) simp_all
  finally have "sum_list rs \<le> a * (1 + 1 / 10 ^ 30)" using assms(3) by simp
  also have "\<dots> < a + 1 / 10 ^ 10" using assms(5) by (simp add: algebra_simps)
  finally show "sum_list rs < a + 1 / 10 ^ 10" .
  show "on_grid 10 (sum_list rs)" "on_grid 10 a" using grid_sum_list [of rs] assms(1,4) by simp_all
qed

definition bucket_parts :: "open_row list \<Rightarrow> string \<times> string \<Rightarrow> decimal list" where
  "bucket_parts rows b = concat (map (\<lambda>r. map (\<lambda>x. ow_risk r) (filter (\<lambda>x. x = b) (ow_buckets r))) rows)"

text \<open>The rows that are open respect the caps: 100 in all and 50 in a bucket.\<close>

definition within_caps :: "open_row list \<Rightarrow> bool" where
  "within_caps rows \<longleftrightarrow> (\<forall>r \<in> set rows. grid_risk (ow_risk r)) \<and> sum_list (map ow_risk rows) \<le> 100 \<and> (\<forall>b. sum_list (bucket_parts rows b) \<le> 50)"

lemma within_capsD:
  assumes "within_caps rows"
  shows "r \<in> set rows \<Longrightarrow> grid_risk (ow_risk r)" "sum_list (map ow_risk rows) \<le> 100" "sum_list (bucket_parts rows b) \<le> 50"
  using assms unfolding within_caps_def by blast+

lemma within_capsI:
  "(\<And>r. r \<in> set rows \<Longrightarrow> grid_risk (ow_risk r)) \<Longrightarrow> sum_list (map ow_risk rows) \<le> 100 \<Longrightarrow> (\<And>b. sum_list (bucket_parts rows b) \<le> 50)
     \<Longrightarrow> within_caps rows"
  unfolding within_caps_def by blast

lemma parts_grid: "\<forall>r \<in> set rows. grid_risk (ow_risk r) \<Longrightarrow> \<forall>x \<in> set (bucket_parts rows b). grid_risk x"
  by (auto simp: bucket_parts_def)

lemma sum_filter_le: "\<forall>r \<in> set rows. 0 \<le> (f r :: rat) \<Longrightarrow> sum_list (map f (filter P rows)) \<le> sum_list (map f rows)"
  by (induction rows) (auto simp: add_increasing)

lemma within_caps_filter:
  assumes "within_caps rows"
  shows "within_caps (filter P rows)"
proof (rule within_capsI)
  note caps = within_capsD [OF assms]
  show "grid_risk (ow_risk r)" if "r \<in> set (filter P rows)" for r using that caps(1) by simp
  show "sum_list (map ow_risk (filter P rows)) \<le> 100" using sum_filter_le [of rows ow_risk P] caps(1,2) by fastforce
  fix b
  have "\<forall>r \<in> set rows. 0 \<le> sum_list (map (\<lambda>x. ow_risk r) (filter (\<lambda>x. x = b) (ow_buckets r)))"
    using caps(1) by (auto intro!: sum_list_nonneg)
  then have "sum_list (bucket_parts (filter P rows) b) \<le> sum_list (bucket_parts rows b)"
    unfolding bucket_parts_def sum_list_concat_map by (simp add: comp_def sum_filter_le)
  then show "sum_list (bucket_parts (filter P rows) b) \<le> 50" using caps(3) [of b] by simp
qed

lemma code_sums:
  assumes "within_caps rows"
  shows "open_risk rows = sum_list (map ow_risk rows)" "bucket_used rows b = sum_list (bucket_parts rows b)"
proof -
  note caps = within_capsD [OF assms]
  have zero: "grid_risk 0" by (simp add: on_grid_def)
  have "sum_from rnd38 0 (map ow_risk rows) = 0 + sum_list (map ow_risk rows)"
    by (rule sum38_exact) (use caps(1,2) zero in simp_all)
  then show "open_risk rows = sum_list (map ow_risk rows)" by (simp add: open_risk_def)
  have "sum_from rnd38 0 (bucket_parts rows b) = 0 + sum_list (bucket_parts rows b)"
    by (rule sum38_exact) (use parts_grid [of rows b] caps(1) caps(3) [of b] zero in simp_all)
  then show "bucket_used rows b = sum_list (bucket_parts rows b)" by (simp add: bucket_used_def bucket_parts_def)
qed

lemma cap_left:
  assumes "grid_risk s" "s \<le> most" "most \<in> {50, 100}"
  shows "max 0 (rnd38 (most - s)) = most - s" "grid_risk (most - s)"
proof -
  have most: "on_grid 10 (most :: rat)" using assms(3) by (auto simp: on_grid_def)
  then show "grid_risk (most - s)" using assms by (auto intro: on_grid_diff)
  moreover have "rnd38 (most - s) = most - s"
    by (rule rnd38_on_grid [of 10]) (use assms most in \<open>auto intro: on_grid_diff\<close>)
  ultimately show "max 0 (rnd38 (most - s)) = most - s" by simp
qed

lemma fraction_bounds:
  assumes "within_caps rows" "batch \<noteq> []"
  shows "0 \<le> common_fraction rows batch" "common_fraction rows batch \<le> 1"
    "common_fraction rows batch \<le> rnd38 ((100 - sum_list (map ow_risk rows)) / rnd38 (25 * of_nat (length batch)))"
    "b \<in> set (concat (map buckets batch)) \<Longrightarrow>
       common_fraction rows batch \<le> rnd38 ((50 - sum_list (bucket_parts rows b)) / rnd38 (25 * of_nat (bucket_requests batch b)))"
proof -
  have grid: "grid_risk (sum_list (map ow_risk rows))" "grid_risk (sum_list (bucket_parts rows b))" for b
    using within_capsD(1) [OF assms(1)] grid_sum_list [of "map ow_risk rows"] grid_sum_list [OF parts_grid [of rows]] by simp_all
  have left: "max 0 (rnd38 (100 - open_risk rows)) = 100 - sum_list (map ow_risk rows)"
    "max 0 (rnd38 (50 - bucket_used rows b)) = 50 - sum_list (bucket_parts rows b)" for b
  proof -
    note most = within_capsD(2,3) [OF assms(1)]
    show "max 0 (rnd38 (100 - open_risk rows)) = 100 - sum_list (map ow_risk rows)"
      "max 0 (rnd38 (50 - bucket_used rows b)) = 50 - sum_list (bucket_parts rows b)" for b
      unfolding code_sums [OF assms(1)] by (rule cap_left(1) [OF grid(1) most(1)], simp) (rule cap_left(1) [OF grid(2) most(2)], simp)
  qed
  let ?xs = "[1, rnd38 ((100 - sum_list (map ow_risk rows)) / rnd38 (25 * of_nat (length batch)))]
    @ map (\<lambda>b. rnd38 ((50 - sum_list (bucket_parts rows b)) / rnd38 (25 * of_nat (bucket_requests batch b)))) (remdups (concat (map buckets batch)))"
  have f: "common_fraction rows batch = min_of ?xs" by (simp add: common_fraction_def left Let_def)
  have "0 \<le> x" if "x \<in> set ?xs" for x
    using that within_capsD(2,3) [OF assms(1)] by auto
  then show "0 \<le> common_fraction rows batch" unfolding f using min_of_in [of ?xs] by blast
  show "common_fraction rows batch \<le> 1" unfolding f by (rule min_of_le) simp
  show "common_fraction rows batch \<le> rnd38 ((100 - sum_list (map ow_risk rows)) / rnd38 (25 * of_nat (length batch)))"
    unfolding f by (rule min_of_le) simp
  show "b \<in> set (concat (map buckets batch)) \<Longrightarrow>
       common_fraction rows batch \<le> rnd38 ((50 - sum_list (bucket_parts rows b)) / rnd38 (25 * of_nat (bucket_requests batch b)))"
    unfolding f by (rule min_of_le) auto
qed

text \<open>What an event with units receives: units times unit risk, exactly.\<close>

lemma allocate_event_exact:
  assumes "allocate_event f e = Inr r" "0 \<le> f" "f \<le> 1" "on_grid 10 (ge_unit_risk e)" "0 < cp_units r"
  shows "grid_risk (cp_risk r)" "0 < ge_unit_risk e" "cp_risk r = of_int \<lfloor>rnd38 (rnd38 (25 * f) / ge_unit_risk e)\<rfloor> * ge_unit_risk e"
proof -
  let ?u = "ge_unit_risk e" and ?n = "\<lfloor>rnd38 (rnd38 (25 * f) / ge_unit_risk e)\<rfloor>"
  have r: "0 < ?u" "cp_units r = ?n" "cp_risk r = rnd38 (of_int ?n * ?u)"
    using assms(1) by (auto simp: allocate_event_def require_def Let_def and_then_Inr split: if_splits)
  obtain k :: int where "?u = of_int k / 10 ^ 10" using assms(4) by (auto simp: on_grid_iff)
  then have "of_int ?n * ?u = of_int (?n * k) / 10 ^ 10" by simp
  then have grid: "on_grid 10 (of_int ?n * ?u)" unfolding on_grid_iff by blast
  have "rnd38 25 = 25" "rnd38 1 = 1" by (rule rnd38_on_grid [of 0], simp_all add: on_grid_def)+
  then have "f \<le> rnd38 (25 / rnd38 (25 * 1))" using assms(3) by simp
  then have "1 * (of_int ?n * ?u) \<le> 25 * (1 + 1 / 10 ^ 30)" using assms(2) r(1) by (intro claim_bound) simp_all
  moreover have pos: "0 \<le> of_int ?n * ?u" using assms(5) r(1) unfolding r(2)
    by (intro mult_nonneg_nonneg) (simp_all only: of_int_0_le_iff less_imp_le)
  moreover have "\<bar>x\<bar> * 10 ^ 10 < 10 ^ 38" if "1 * x \<le> 25 * (1 + 1 / 10 ^ 30)" "0 \<le> x" for x :: rat using that by simp
  ultimately have "\<bar>of_int ?n * ?u\<bar> * 10 ^ 10 < 10 ^ 38" by blast
  then have "cp_risk r = of_int ?n * ?u" unfolding r(3) by (rule rnd38_on_grid [OF grid])
  then show "grid_risk (cp_risk r)" "0 < ?u" "cp_risk r = of_int ?n * ?u" using grid pos r(1) by simp_all
qed

lemma collect_zip: "collect f xs = Inr ys \<Longrightarrow> length ys = length xs \<and> (\<forall>(x, y) \<in> set (zip xs ys). f x = Inr y)"
  by (induction xs arbitrary: ys) (auto simp: and_then_Inr)

lemma bucket_parts_append: "bucket_parts (rows @ rows') b = bucket_parts rows b @ bucket_parts rows' b"
  by (simp add: bucket_parts_def)

lemma length_filter_concat: "length (filter P (concat (map f xs))) = sum_list (map (\<lambda>x. length (filter P (f x))) xs)"
  by (induction xs) auto

lemma sum_list_filter_le_nat: "sum_list (map f (filter P xs)) \<le> sum_list (map (f :: _ \<Rightarrow> nat) xs)"
  by (induction xs) auto

lemma bucket_requests_sort: "bucket_requests (sort_key k batch) b = bucket_requests batch b"
proof -
  have "sum_list (map g xs) = sum_mset (image_mset g (mset xs))" for g :: "geo_event \<Rightarrow> nat" and xs
    by (simp only: mset_map [symmetric] sum_mset_sum_list)
  then show ?thesis unfolding bucket_requests_def length_filter_concat by (simp only: mset_sort)
qed

text \<open>The pairs of an event and its row that open at an instant.\<close>

definition opened :: "geo_event list \<Rightarrow> capacity_row list \<Rightarrow> (geo_event \<times> capacity_row) list" where
  "opened batch results = filter (\<lambda>(e, r). 0 < cp_units r) (zip batch results)"

lemma opened_parts_length:
  assumes "length results = length batch"
  shows "length (bucket_parts (map (\<lambda>(e, r). open_row_of e r) (opened batch results)) b) \<le> bucket_requests batch b"
proof -
  let ?f = "\<lambda>p :: geo_event \<times> capacity_row. length (filter (\<lambda>x. x = b) (buckets (fst p)))"
  have "length (bucket_parts (map (\<lambda>(e, r). open_row_of e r) ps) b) = sum_list (map ?f ps)" for ps
    by (induction ps) (auto simp: bucket_parts_def open_row_of_def)
  then have "length (bucket_parts (map (\<lambda>(e, r). open_row_of e r) (opened batch results)) b) \<le> sum_list (map ?f (zip batch results))"
    unfolding opened_def by (simp add: sum_list_filter_le_nat)
  also have "\<dots> = sum_list (map (\<lambda>e. length (filter (\<lambda>x. x = b) (buckets e))) (map fst (zip batch results)))" by (simp add: comp_def)
  also have "\<dots> = bucket_requests batch b" using assms by (simp add: bucket_requests_def length_filter_concat)
  finally show ?thesis .
qed

lemma opened_part_in:
  "x \<in> set (bucket_parts (map (\<lambda>(e, r). open_row_of e r) (opened batch results)) b) \<Longrightarrow>
     \<exists>(e, r) \<in> set (opened batch results). x = cp_risk r \<and> b \<in> set (buckets e)"
  by (fastforce simp: bucket_parts_def open_row_of_def)

lemma allocation_keeps_caps:
  assumes caps: "within_caps rows" and batch: "batch \<noteq> []" and priced: "\<forall>e \<in> set batch. on_grid 10 (ge_unit_risk e)"
    and run: "allocate_group t batch rows = Inr (results, rows')"
  shows "within_caps rows'"
proof -
  define held where "held = filter (\<lambda>r. t \<le> ow_horizon r) rows"
  define f where "f = common_fraction held batch"
  define ordered where "ordered = sort_key ge_key batch"
  let ?new = "map (\<lambda>(e, r). open_row_of e r) (opened ordered results)"
  have held: "within_caps held" unfolding held_def by (rule within_caps_filter [OF caps])
  have run': "collect (allocate_event f) ordered = Inr results" "rows' = held @ ?new"
    using run by (auto simp: allocate_group_def Let_def and_then_Inr held_def f_def ordered_def opened_def)
  note each = collect_zip [OF run'(1)]
  note bounds = fraction_bounds [OF held batch, folded f_def]
  note most = within_capsD [OF held]
  have row: "grid_risk (cp_risk r)" "0 \<le> a \<Longrightarrow> 1 \<le> c \<Longrightarrow> f \<le> rnd38 (a / rnd38 (25 * c)) \<Longrightarrow> c * cp_risk r \<le> a * (1 + 1 / 10 ^ 30)"
    if "(e, r) \<in> set (opened ordered results)" for e r a c
  proof -
    have e: "allocate_event f e = Inr r" "0 < cp_units r" "e \<in> set batch"
      using that each by (auto simp: opened_def ordered_def dest: set_zip_leftD)
    note exact = allocate_event_exact [OF e(1) bounds(1,2) _ e(2)]
    show "grid_risk (cp_risk r)" using exact(1) priced e(3) by blast
    show "c * cp_risk r \<le> a * (1 + 1 / 10 ^ 30)" if "0 \<le> a" "1 \<le> c" "f \<le> rnd38 (a / rnd38 (25 * c))"
      using exact(2,3) priced e(3) claim_bound [OF that(1,2) bounds(1) that(3)] by simp
  qed
  have grid: "grid_risk (sum_list (map ow_risk held))" "grid_risk (sum_list (bucket_parts held b))" for b
    using most(1) grid_sum_list [of "map ow_risk held"] grid_sum_list [OF parts_grid [of held]] by simp_all
  show ?thesis unfolding run'(2)
  proof (rule within_capsI)
    fix r assume "r \<in> set (held @ ?new)"
    then show "grid_risk (ow_risk r)" using most(1) row(1) by (auto simp: open_row_of_def)
  next
    let ?a = "100 - sum_list (map ow_risk held)"
    have a: "grid_risk ?a" "?a \<le> 100" using cap_left(2) [OF grid(1) most(2)] grid(1) by simp_all
    have len: "length (opened ordered results) \<le> length batch" "(1 :: rat) \<le> of_nat (length batch)"
      using each batch length_filter_le [of "\<lambda>(e, r). 0 < cp_units r" "zip ordered results"]
      by (simp_all add: opened_def ordered_def Suc_le_eq)
    have "sum_list (map (\<lambda>p. cp_risk (snd p)) (opened ordered results)) \<le> ?a"
    proof (rule claims_fit [where c = "of_nat (length batch)"])
      show "\<forall>r \<in> set (map (\<lambda>p. cp_risk (snd p)) (opened ordered results)). grid_risk r \<and> of_nat (length batch) * r \<le> ?a * (1 + 1 / 10 ^ 30)"
      proof
        fix x assume "x \<in> set (map (\<lambda>p. cp_risk (snd p)) (opened ordered results))"
        then obtain e r where p: "(e, r) \<in> set (opened ordered results)" "x = cp_risk r" by auto
        show "grid_risk x \<and> of_nat (length batch) * x \<le> ?a * (1 + 1 / 10 ^ 30)"
          unfolding p(2) by (rule conjI [OF row(1) [OF p(1)] row(2) [OF p(1) conjunct2 [OF a(1)] len(2) bounds(3)]])
      qed
    qed (use a len in simp_all)
    moreover have "map ow_risk ?new = map (\<lambda>p. cp_risk (snd p)) (opened ordered results)" by (auto simp: open_row_of_def)
    ultimately show "sum_list (map ow_risk (held @ ?new)) \<le> 100" by (simp only: map_append sum_list_append)
  next
    fix b
    let ?a = "50 - sum_list (bucket_parts held b)" and ?c = "bucket_requests batch b"
    have a: "grid_risk ?a" "?a \<le> 100" using cap_left(2) [OF grid(2) most(3)] grid(2) [of b] by simp_all
    have "sum_list (bucket_parts ?new b) \<le> ?a"
    proof (cases "bucket_parts ?new b = []")
      case False
      then obtain e r where "(e, r) \<in> set (opened ordered results)" "b \<in> set (buckets e)"
        using opened_part_in [of _ ordered results b] by (metis (no_types, lifting) case_prodE list.set_sel(1))
      then have b: "b \<in> set (concat (map buckets batch))" by (auto simp: opened_def ordered_def dest!: set_zip_leftD)
      then have c: "(1 :: rat) \<le> of_nat ?c"
        by (simp add: bucket_requests_def Suc_le_eq filter_empty_conv del: set_concat)
      have len: "length (bucket_parts ?new b) \<le> ?c"
        using opened_parts_length [of results ordered b] each bucket_requests_sort [of ge_key batch b] by (simp add: ordered_def)
      show ?thesis
      proof (rule claims_fit [where c = "of_nat ?c"])
        show "\<forall>x \<in> set (bucket_parts ?new b). grid_risk x \<and> of_nat ?c * x \<le> ?a * (1 + 1 / 10 ^ 30)"
        proof
          fix x assume "x \<in> set (bucket_parts ?new b)"
          then obtain e r where p: "(e, r) \<in> set (opened ordered results)" "x = cp_risk r" using opened_part_in by blast
          show "grid_risk x \<and> of_nat ?c * x \<le> ?a * (1 + 1 / 10 ^ 30)"
            unfolding p(2) by (rule conjI [OF row(1) [OF p(1)] row(2) [OF p(1) conjunct2 [OF a(1)] c bounds(4) [OF b]]])
        qed
      qed (use a c len in simp_all)
    qed (use a in simp)
    then show "sum_list (bucket_parts (held @ ?new) b) \<le> 50" by (simp add: bucket_parts_append)
  qed
qed

lemma allocations_keep_caps:
  "allocate_groups groups rows = Inr (results, rows') \<Longrightarrow> within_caps rows
     \<Longrightarrow> \<forall>(t, batch) \<in> set groups. batch \<noteq> [] \<and> (\<forall>e \<in> set batch. on_grid 10 (ge_unit_risk e)) \<Longrightarrow> within_caps rows'"
proof (induction groups rows arbitrary: results rows' rule: allocate_groups.induct)
  case (2 t batch groups rows)
  obtain first open_rows later where run: "allocate_group t batch rows = Inr (first, open_rows)" "allocate_groups groups open_rows = Inr (later, rows')"
    using 2(2) by (auto simp: and_then_Inr)
  have "within_caps open_rows" using allocation_keeps_caps [OF 2(3) _ _ run(1)] 2(4) by simp
  then show ?case using 2(1) [OF run(2)] 2(4) by simp
qed simp

lemma foldr_max_mono: "(\<And>x. f x \<le> (g x :: nat)) \<Longrightarrow> foldr max (map f xs) 0 \<le> foldr max (map g xs) 0"
proof (induction xs)
  case (Cons x xs)
  show ?case using max.mono [OF Cons.prems Cons.IH [OF Cons.prems], of x] by (simp del: max.bounded_iff)
qed simp

lemma foldr_max_bound: "(\<And>x. f x \<le> (n :: nat)) \<Longrightarrow> foldr max (map f xs) 0 \<le> n"
  by (induction xs) auto

lemma half_open_closed: "half_open_count events t \<le> closed_count events t"
proof -
  have "filter (\<lambda>e. ge_entry e \<le> t \<and> t < ge_horizon e) events
      = filter (\<lambda>e. t < ge_horizon e) (filter (\<lambda>e. ge_entry e \<le> t \<and> t \<le> ge_horizon e) events)"
    by (induction events) auto
  then show ?thesis unfolding half_open_count_def closed_count_def by (metis length_filter_le)
qed

lemma component_index:
  assumes "x \<in> set (components es ! i)" "y \<in> set (components es ! j)" "i < length (components es)" "j < length (components es)" "shares_currency x y"
  shows "i = j"
proof (rule ccontr)
  assume "i \<noteq> j"
  have sorted: "sorted_wrt apart (components es)" using components_partition by blast
  have "\<not> shares_currency x y"
  proof (cases "i < j")
    case True
    then show ?thesis using sorted_wrt_nth_less [OF sorted True assms(4)] assms(1,2) by (simp add: apart_def)
  next
    case False
    then have "j < i" using \<open>i \<noteq> j\<close> by simp
    then have "\<not> shares_currency y x" using sorted_wrt_nth_less [OF sorted _ assms(3)] assms(1,2) by (simp add: apart_def)
    then show ?thesis using shares_currency_sym by blast
  qed
  then show False using assms(5) by blast
qed

lemma in_component: "a \<in> set es \<Longrightarrow> \<exists>i < length (components es). a \<in> set (components es ! i)"
proof -
  assume "a \<in> set es"
  then have "a \<in> set (concat (components es))" using components_partition [of es] by (metis set_mset_mset)
  then show ?thesis by (metis UN_E in_set_conv_nth set_concat)
qed

lemma chained_component:
  assumes "(a, b) \<in> chained (set es)" "i < length (components es)" "a \<in> set (components es ! i)"
  shows "b \<in> set (components es ! i)"
  using assms(1) unfolding chained_def
proof (induction rule: rtrancl_induct)
  case (step x y)
  then obtain j where j: "j < length (components es)" "y \<in> set (components es ! j)" using in_component by blast
  then show ?case using component_index [OF step.IH j(2) assms(2) j(1)] step.hyps by auto
qed (rule assms(3))

section \<open>Properties\<close>

text \<open>C24: The factor groups are the connected components. Growing a group by passes over what remains and starting
  the next at the least remaining key puts every event in exactly one nonempty group, and two events are in
  the same group exactly when a chain of events leads from one to the other in which each shares a currency
  with the next.\<close>

theorem factor_groups_are_components:
  shows "mset (concat (components es)) = mset es \<and> [] \<notin> set (components es)
    \<and> (\<forall>a \<in> set es. \<forall>b \<in> set es.
         (\<exists>c \<in> set (components es). a \<in> set c \<and> b \<in> set c) \<longleftrightarrow> (a, b) \<in> {(x, y). x \<in> set es \<and> y \<in> set es \<and> shares_currency x y}\<^sup>*)"
proof -
  have "(\<exists>c \<in> set (components es). a \<in> set c \<and> b \<in> set c) \<longleftrightarrow> (a, b) \<in> chained (set es)" if "a \<in> set es" for a b
  proof
    assume "(a, b) \<in> chained (set es)"
    then show "\<exists>c \<in> set (components es). a \<in> set c \<and> b \<in> set c"
      using in_component [OF that] chained_component nth_mem by metis
  qed (use components_partition [of es] in blast)
  then show ?thesis using components_partition [of es] by (simp add: chained_def)
qed

text \<open>C25: What is allocated stays within the caps. When the unit risks have the ten decimals of their column, then
  after any number of entry instants the open rows carry at most 100 CAD together and at most 50 CAD on each
  side of each currency, and the sums of the code, rounded at every step, are exact.\<close>

theorem allocation_respects_caps:
  assumes "\<forall>e \<in> set events. on_grid 10 (ge_unit_risk e)" and "allocate_groups (take n (entry_groups events)) [] = Inr (results, rows)"
  shows "open_risk rows = sum_list (map ow_risk rows) \<and> open_risk rows \<le> 100
    \<and> (\<forall>b. bucket_used rows b = sum_list (bucket_parts rows b) \<and> bucket_used rows b \<le> 50)"
proof -
  have "within_caps []" by (simp add: within_caps_def bucket_parts_def)
  moreover have "batch \<noteq> [] \<and> (\<forall>e \<in> set batch. on_grid 10 (ge_unit_risk e))" if "(t, batch) \<in> set (take n (entry_groups events))" for t batch
  proof -
    have "(t, batch) \<in> set (entry_groups events)" using that by (rule in_set_takeD)
    then show ?thesis using assms(1) by (auto simp: entry_groups_def filter_empty_conv)
  qed
  ultimately have caps: "within_caps rows" using allocations_keep_caps [OF assms(2)] by blast
  show ?thesis using within_capsD(2,3) [OF caps] code_sums [OF caps] by simp
qed

text \<open>C26: The geometry of a cohort is bounded by its counts. For a cohort that is not empty every clustering counts
  each event once and Kish's effective count lies between one and the number of groups; at no instant are
  more events open than the reported peaks, of which the half-open one is the smaller.\<close>

theorem geometry_is_bounded:
  assumes "events \<noteq> []"
  shows "sound_clusters (length events) (gm_dates (geometry_of z events)) \<and> sound_clusters (length events) (gm_weeks (geometry_of z events))
    \<and> sound_clusters (length events) (gm_factors (geometry_of z events)) \<and> sound_clusters (length events) (gm_simultaneous (geometry_of z events))
    \<and> half_open_count events t \<le> gm_half_open_peak (geometry_of z events) \<and> closed_count events t \<le> gm_allocation_peak (geometry_of z events)
    \<and> gm_half_open_peak (geometry_of z events) \<le> gm_allocation_peak (geometry_of z events)
    \<and> gm_allocation_peak (geometry_of z events) \<le> length events"
proof -
  have "peak (half_open_count events) events \<le> peak (closed_count events) events"
    unfolding peak_def by (rule foldr_max_mono) (rule half_open_closed)
  moreover have "peak (closed_count events) events \<le> length events"
    unfolding peak_def by (rule foldr_max_bound) (simp add: closed_count_def)
  ultimately show ?thesis
    using assms by (simp add: geometry_of_def sound_grouped sound_factors half_open_peak closed_peak)
qed

text \<open>Concentrations are shares of one: of every kind, when each event has a family.\<close>

lemma concentrations_are_shares:
  assumes "events \<noteq> []" "\<forall>e \<in> set events. ge_families e \<noteq> []" "concentration_of zl zn [] events = Inr c"
  shows "sum_list (map snd (cc_pair c)) = 1" "sum_list (map snd (cc_year c)) = 1" "sum_list (map snd (cc_direction c)) = 1"
    "sum_list (map snd (cc_session c)) = 1" "sum_list (map snd (cc_family c)) = 1" "sum_list (map snd (cc_currency c)) = 1"
proof -
  have family: "sum_list (map snd (map (\<lambda>k. (k, 1 / of_nat (length ks))) ks)) = (1 :: rat)" if "ks \<noteq> []" for ks :: "string list"
    using that sum_list_triv [of "1 / of_nat (length ks) :: rat" ks] by (simp add: comp_def)
  have currency: "sum_list (map snd (map (\<lambda>b. (bucket_text b, 1)) (buckets e))) = (2 :: rat)" for e by (simp add: buckets_def)
  show "sum_list (map snd (cc_pair c)) = 1" "sum_list (map snd (cc_year c)) = 1" "sum_list (map snd (cc_direction c)) = 1"
    "sum_list (map snd (cc_session c)) = 1" "sum_list (map snd (cc_family c)) = 1" "sum_list (map snd (cc_currency c)) = 1"
    using assms family currency by (auto simp: concentration_of_def and_then_Inr Let_def intro!: shares_of_one)
qed

section \<open>A sample cohort\<close>

definition sample_geo :: "string \<Rightarrow> string \<Rightarrow> string \<Rightarrow> geo_event" where
  "sample_geo key base quote = \<lparr>ge_key = key, ge_instrument = base @ ''_'' @ quote, ge_base = base, ge_quote = quote, ge_direction = ''long'',
     ge_entry = 0, ge_horizon = 10, ge_unit_risk = 1, ge_books = [''b''], ge_families = [''f'']\<rparr>"

definition sample_cohort :: "geo_event list" where
  "sample_cohort = [sample_geo ''a'' ''EUR'' ''USD'', sample_geo ''b'' ''AUD'' ''NZD'', sample_geo ''c'' ''USD'' ''JPY'']"

lemma sample_components:
  "components sample_cohort = [[sample_geo ''a'' ''EUR'' ''USD'', sample_geo ''c'' ''USD'' ''JPY''], [sample_geo ''b'' ''AUD'' ''NZD'']]"
  by (simp add: components.simps absorb.simps least_key_def sample_cohort_def sample_geo_def Let_def)

lemma factor_groups_are_components_witness:
  "(sample_geo ''a'' ''EUR'' ''USD'', sample_geo ''c'' ''USD'' ''JPY'')
     \<in> {(x, y). x \<in> set sample_cohort \<and> y \<in> set sample_cohort \<and> shares_currency x y}\<^sup>*
   \<and> (sample_geo ''a'' ''EUR'' ''USD'', sample_geo ''b'' ''AUD'' ''NZD'')
     \<notin> {(x, y). x \<in> set sample_cohort \<and> y \<in> set sample_cohort \<and> shares_currency x y}\<^sup>*"
proof -
  have all: "sample_geo ''a'' ''EUR'' ''USD'' \<in> set sample_cohort" "sample_geo ''b'' ''AUD'' ''NZD'' \<in> set sample_cohort"
    "sample_geo ''c'' ''USD'' ''JPY'' \<in> set sample_cohort" by (simp_all add: sample_cohort_def)
  note same = factor_groups_are_components [of sample_cohort, THEN conjunct2, THEN conjunct2, rule_format, unfolded sample_components]
  show ?thesis using same [OF all(1,3)] same [OF all(1,2)] by (simp add: sample_geo_def)
qed

lemma rnd38_numerals: "rnd38 100 = 100" "rnd38 50 = 50" "rnd38 25 = 25" "rnd38 4 = 4" "rnd38 2 = 2" "rnd38 1 = 1"
  by (rule rnd38_on_grid [of 0], simp_all add: on_grid_def)+

definition sample_open :: "open_row list" where
  "sample_open = [\<lparr>ow_risk = 25, ow_horizon = 10, ow_buckets = [(''long'', ''EUR''), (''short'', ''USD'')]\<rparr>]"

lemma allocation_respects_caps_witness: "open_risk sample_open \<le> 100 \<and> bucket_used sample_open (''long'', ''EUR'') \<le> 50"
proof -
  let ?e = "sample_geo ''a'' ''EUR'' ''USD''"
  have run: "allocate_groups (take 1 (entry_groups [?e])) []
      = Inr ([\<lparr>cp_key = ''a'', cp_entry = 0, cp_fraction = 1, cp_units = 25, cp_risk = 25\<rparr>], sample_open)"
  proof -
    have "common_fraction [] [?e] = 1"
      by (simp add: common_fraction_def open_risk_def bucket_used_def bucket_requests_def buckets_def sample_geo_def rnd38_numerals)
    moreover have "allocate_event 1 ?e = Inr \<lparr>cp_key = ''a'', cp_entry = 0, cp_fraction = 1, cp_units = 25, cp_risk = 25\<rparr>"
      by (simp add: allocate_event_def sample_geo_def require_def rnd38_numerals)
    ultimately have "allocate_group 0 [?e] []
        = Inr ([\<lparr>cp_key = ''a'', cp_entry = 0, cp_fraction = 1, cp_units = 25, cp_risk = 25\<rparr>], sample_open)"
      by (simp add: allocate_group_def open_row_of_def buckets_def sample_open_def) (simp add: sample_geo_def)
    moreover have "entry_groups [?e] = [(0, [?e])]" by (simp add: entry_groups_def sample_geo_def)
    ultimately show ?thesis by simp
  qed
  have "\<forall>e \<in> set [?e]. on_grid 10 (ge_unit_risk e)" by (simp add: sample_geo_def on_grid_def)
  then show ?thesis using allocation_respects_caps [OF _ run] by blast
qed

lemma geometry_is_bounded_witness:
  "sound_clusters 3 (gm_weeks (geometry_of (fixed_zone 0) sample_cohort)) \<and> half_open_count sample_cohort 5 \<le> gm_half_open_peak (geometry_of (fixed_zone 0) sample_cohort)"
proof -
  have "sample_cohort \<noteq> []" "length sample_cohort = 3" by (simp_all add: sample_cohort_def)
  then show ?thesis using geometry_is_bounded [of sample_cohort "fixed_zone 0" 5] by simp
qed

end
