(* ===== verification/Spec2Isabelle.thy ===== *)
theory Spec2Isabelle
  imports Quality Liquidity Admission Paper Sizing Outbox Budget Portfolio Overlays Simulation Ledger Geometry
begin

text \<open>
  A verification library of the FX Forecast Lab: a Python (Django) program that ingests candles of
  currency pairs, derives descriptive market states from them, runs two detectors of failed breaks
  over sealed datasets, issues recommendations, follows each of them as a paper trade, and does all
  of this as jobs of a durable queue. Every theory translates the modules it names from \<^verbatim>\<open>src/\<close>;
  definitions keep the names of the code, and a definition that stands for a part of a function is
  named after what that part decides.

  How the parts interact. The worker process claims an occurrence of a job (\<^verbatim>\<open>Jobs\<close>) and runs its
  task; messages to the owner leave through the outbox (\<^verbatim>\<open>Outbox\<close>). The tasks read completed
  candles, whose instants are those of the session calendar (\<^verbatim>\<open>Calendar\<close>) and whose series is refused
  unless it is clean (\<^verbatim>\<open>Quality\<close>). From them the market state is computed (\<^verbatim>\<open>Features\<close>, \<^verbatim>\<open>Regimes\<close>,
  \<^verbatim>\<open>Gaps\<close>, \<^verbatim>\<open>Breakouts\<close>, \<^verbatim>\<open>Zones\<close>, \<^verbatim>\<open>Liquidity\<close>). The research detectors work on the same candles:
  \<^verbatim>\<open>Indicators\<close>, \<^verbatim>\<open>Levels\<close> and \<^verbatim>\<open>Sweeps\<close> are the rules, \<^verbatim>\<open>Admission\<close> the sealed inventory and the
  merged stream over which the second detector runs. A recommendation is a validated model output
  with a deterministic setup (\<^verbatim>\<open>Setups\<close>), is sized against the risk cap (\<^verbatim>\<open>Sizing\<close>), and is resolved
  against later candles. Before the paid call a budget is reserved and after it settled (\<^verbatim>\<open>Budget\<close>).
  Which sized setups enter the paper portfolio is decided per batch, automatically or by the owner,
  within risk caps (\<^verbatim>\<open>Portfolio\<close>); \<^verbatim>\<open>Exposure\<close> reports what is held. Of a trade, \<^verbatim>\<open>Fills\<close> and \<^verbatim>\<open>Paper\<close> are the trade, \<^verbatim>\<open>Targets\<close> the shared endpoint,
  \<^verbatim>\<open>Lifecycle\<close> the append-only chain of its states, \<^verbatim>\<open>Costs\<close> the assessment of its result. Beside these runs an offline strategy library over sealed snapshots of
  the market state: \<^verbatim>\<open>Trend\<close> and \<^verbatim>\<open>Candidates\<close> are its strategies, \<^verbatim>\<open>Overlays\<close> the risk overlays and
  the dispatch, \<^verbatim>\<open>Simulation\<close> the adverse simulation of what they propose. \<^verbatim>\<open>Assessment\<close> weighs the evaluated strategies of a
  snapshot against admission, evidence, costs and capacity, and \<^verbatim>\<open>Ledger\<close> stores and replays what it finds. The
  research programme studies the frozen events of its detectors, first without outcomes (\<^verbatim>\<open>Geometry\<close>) and
  then bar by bar (\<^verbatim>\<open>Returns\<close>).

  The theories, in the order of their dependencies:

  \<^item> \<^verbatim>\<open>Prelude\<close>: instants and durations (integers of microseconds), the Python idioms on sequences
    (slices, \<^verbatim>\<open>next\<close>, \<^verbatim>\<open>min\<close> with a key, running maxima), monadic traversals of fallible functions,
    the collection \<^verbatim>\<open>model_defs\<close>.
  \<^item> \<^verbatim>\<open>Decimals\<close>: \<^verbatim>\<open>decimal.Decimal\<close> as a rational with the rounding of the context after every
    operation (28 digits by default, 34 in the research code), \<^verbatim>\<open>quantize\<close>. The locale \<^verbatim>\<open>rounding\<close>
    states what every rounding promises (monotone, idempotent), \<^verbatim>\<open>sign_rounding\<close> adds the sign; they
    are interpreted on both contexts and on \<^verbatim>\<open>quantize\<close>. \<^verbatim>\<open>Canonical\<close>: the printed text of a decimal.
  \<^item> \<^verbatim>\<open>Calendar\<close>, \<^verbatim>\<open>Quality\<close> (\<^verbatim>\<open>market/quality.py\<close>).
  \<^item> \<^verbatim>\<open>Features\<close>, \<^verbatim>\<open>Regimes\<close> (\<^verbatim>\<open>market/state/features.py\<close>), \<^verbatim>\<open>Gaps\<close> (\<^verbatim>\<open>fvg.py\<close>), \<^verbatim>\<open>Breakouts\<close>
    (\<^verbatim>\<open>orb.py\<close>, \<^verbatim>\<open>structure.py\<close>), \<^verbatim>\<open>Zones\<close> (\<^verbatim>\<open>structure.py\<close>), \<^verbatim>\<open>Liquidity\<close> (\<^verbatim>\<open>liquidity.py\<close>).
  \<^item> \<^verbatim>\<open>Indicators\<close>, \<^verbatim>\<open>Levels\<close>, \<^verbatim>\<open>Sweeps\<close> (\<^verbatim>\<open>research/strategy.py\<close> and the functions of
    \<^verbatim>\<open>research/failed_break_detector_v2.py\<close> that replace some of them), \<^verbatim>\<open>Admission\<close>. The locale
    \<^verbatim>\<open>warm_start\<close> is the contract of an average that is seeded by a batch and then updated candle by
    candle; both the exponential average and the true range implement it.
  \<^item> \<^verbatim>\<open>Setups\<close> (\<^verbatim>\<open>market/technicals.py\<close>, \<^verbatim>\<open>forecasts/recommendations.py\<close>), \<^verbatim>\<open>Fills\<close>, \<^verbatim>\<open>Paper\<close>
    (\<^verbatim>\<open>forecasts/paper.py\<close>), \<^verbatim>\<open>Costs\<close>, \<^verbatim>\<open>Targets\<close>, \<^verbatim>\<open>Lifecycle\<close>, \<^verbatim>\<open>Sizing\<close>, \<^verbatim>\<open>Exposure\<close>,
    \<^verbatim>\<open>Portfolio\<close> (the modules of these names under \<^verbatim>\<open>forecasts/\<close>).
  \<^item> \<^verbatim>\<open>Jobs\<close>, \<^verbatim>\<open>Outbox\<close> (\<^verbatim>\<open>operations/services.py\<close>). \<^verbatim>\<open>Sums\<close>: when a Python sum of decimals is exact.
    \<^verbatim>\<open>Budget\<close>: the provider budget of the same module, \<^verbatim>\<open>operations/accounting.py\<close>, and the paid call of
    \<^verbatim>\<open>forecasts/recommendations.py\<close>. What a decimal column does to a value it stores is a parameter
    (\<^verbatim>\<open>column\<close>; \<^verbatim>\<open>faithful_column\<close> states what is relied on).

  \<^item> \<^verbatim>\<open>Trend\<close> (\<^verbatim>\<open>trend.py\<close>, \<^verbatim>\<open>costs.py\<close> and the forecast of \<^verbatim>\<open>contracts.py\<close>), \<^verbatim>\<open>Candidates\<close> (\<^verbatim>\<open>setups.py\<close>,
    \<^verbatim>\<open>orb.py\<close>, \<^verbatim>\<open>structure.py\<close>, the setup and the snapshot of \<^verbatim>\<open>contracts.py\<close>), \<^verbatim>\<open>Overlays\<close> (\<^verbatim>\<open>risk.py\<close>,
    \<^verbatim>\<open>evaluate.py\<close>), \<^verbatim>\<open>Simulation\<close> (\<^verbatim>\<open>simulation.py\<close> and \<^verbatim>\<open>market/calendar_policy.py\<close>), all under
    \<^verbatim>\<open>market/strategy/\<close>. The GARCH solver is the parameter \<^verbatim>\<open>solver\<close>, the digest of an intent \<^verbatim>\<open>se_intent\<close>.
  \<^item> \<^verbatim>\<open>Assessment\<close> (\<^verbatim>\<open>engine.py\<close>, \<^verbatim>\<open>legacy.py\<close>, \<^verbatim>\<open>contracts.py\<close>) and \<^verbatim>\<open>Ledger\<close> (\<^verbatim>\<open>services.py\<close>), all under
    \<^verbatim>\<open>assessments/\<close>; the digests and the verified load of a snapshot are fields of \<^verbatim>\<open>ledger_env\<close>.
  \<^item> \<^verbatim>\<open>Returns\<close> (\<^verbatim>\<open>research/exploratory_returns_v2.py\<close>): conversion, resolution, rollovers, costs, summaries, equity.
    \<^verbatim>\<open>Geometry\<close> (\<^verbatim>\<open>research/s2_geometry.py\<close>, \<^verbatim>\<open>research/s2_geometry_v2.py\<close>): clusters, overlap, capacity, concentration.

  Conventions. A model row is a record with the columns the modelled code reads; a table is a list of
  rows in the order of its primary key, and a query is a filter and a sort of that list. An operation
  that writes returns the new state; an exception is a value of an error datatype in the left of a sum,
  so the state of an aborted transaction is the old one. The clock is the argument \<^verbatim>\<open>now\<close>, read once
  where the code reads it once. A digest (SHA-256) and the parsers of JSON are arguments. The tz
  database is the record \<^verbatim>\<open>zone\<close> of two functions; what the code relies on is stated as hypotheses
  where needed (\<^verbatim>\<open>faithful_zone\<close>, \<^verbatim>\<open>bounded_offset\<close>, \<^verbatim>\<open>date_monotone\<close>, \<^verbatim>\<open>keeps_dates\<close>,
  \<^verbatim>\<open>session_ordered\<close>) and shown to
  be satisfiable on a zone of a fixed offset.

  What the lemmas show. The detectors: the optimised routines equal their references (the merged
  stream, the incremental indicators, the horizon), no decision reads a candle that had not completed,
  decisions are final. The market state: extremes are strict, sweeps and gaps are final, zones partition
  the swings. The forecasts: what is accepted meets its contract, what is stored is never rewritten,
  fills are adverse and the stop has precedence, chains of states are legal and their end ends the risk,
  the size is the largest the cap funds. The queue: leases are exclusive, no attempt is lost or repeated,
  every send is accounted for. Money and risk: in every reachable ledger spending stays within the caps up
  to what paid calls cost beyond their estimates, and a key is paid once; in every reachable portfolio what is
  admitted and carries risk stays within the caps, whatever the order of batches, owner selections and
  reconciliations, and whatever the other components do within the rely condition \<open>elsewhere\<close> (they add setups and
  facts, and change neither the size nor the shared resolution of a setup that is issued). The strategies: a forecast meets its contract, a setup is causal and fails only for an
  explicit exit that comes too early or for its prices, an overlay never increases the risk, a simulation returns, its result is final and never
  better than its barriers. The assessments: a candidate passed every gate, any gap in the inputs closes the
  assessment, what is stored replays. The returns: the first bar that decides gives the result, commissions only lower it. The
  geometry: factor groups are connected components, allocations stay within the caps, counts bound the rest.

  Loops and bounds. All recursion is structural or has a measure, apart from the calendar expansion,
  the catch-up of a daily job, the prerequisite intervals of a simulation and the walk over rollover times, which are \<^verbatim>\<open>partial_function (option)\<close>: for them it is proved that they
  return. The conversion search has no fuel: its measure is the number of edges that lead to a currency
  not yet visited plus the length of its queue.

  Not modelled. Network calls, e-mail, files and their custody, the web views, Django's object layer
  below the queries, the acquisition of candles and the governance registrations of the research runs:
  input and output with no decision that the modelled code relies on. The prompt and the evidence of a
  recommendation are texts the model does not interpret. PostgreSQL's row locks are modelled by their
  effect, one operation at a time. Of the research returns the weekly bootstrap, whose draws come from SHA-256, and
  the report of a cohort; of the geometry the power calculation (a normal quantile in floating point) and the queries; of the assessments the supersession links, which no stored row can have.
\<close>

end
